(* ===== verification/Py_Numeric.thy ===== *)
theory Py_Numeric
  imports Complex_Main "HOL-Library.Log_Nat"
begin

text \<open>
  The two number systems the Python sources compute with, both executable:

  \<^item> \<open>float\<close> (IEEE binary64): \<open>pyfloat\<close>, a finite rational, an infinity or NaN. Every arithmetic
    operation is the exact rational operation followed by \<open>rnd64\<close>, round-half-even to 53
    significant bits with the subnormal threshold \<open>2 powi -1074\<close>, and by the overflow test against
    \<open>2 ^ 1024\<close>. Comparisons with NaN are false. The sign of zero is not kept: no source modelled
    here tells \<open>-0.0\<close> from \<open>0.0\<close>.
  \<^item> \<open>decimal.Decimal\<close> under the default context (28 significant digits, round-half-even):
    finite decimals are rationals, sums and products are rounded by \<open>rnd28\<close>. Exponents beyond the
    context's \<open>Emin\<close>/\<open>Emax\<close> (a million digits) are not modelled.

  Both roundings instantiate one function, \<open>round_sig\<close>, and one locale, \<open>rounding\<close>, which holds the
  laws the components use: monotone, odd, exact on representable numbers.
\<close>

section \<open>Round-half-even to a number of significant digits\<close>

text \<open>\<open>ilog b x\<close> is the floor of the logarithm of a positive rational.\<close>

definition ilog :: "nat \<Rightarrow> rat \<Rightarrow> int" where
  "ilog b x =
     (let (p, q) = quotient_of x;
          e = int (floorlog b (nat p)) - int (floorlog b (nat q))
      in if of_nat b powi e \<le> x then e else e - 1)"

definition round_half_even :: "rat \<Rightarrow> int" where
  "round_half_even y =
     (let f = \<lfloor>y\<rfloor>; d = y - of_int f
      in if d < 1/2 then f else if d > 1/2 then f + 1 else if even f then f else f + 1)"

definition round_sig :: "nat \<Rightarrow> nat \<Rightarrow> int \<Rightarrow> rat \<Rightarrow> rat" where
  "round_sig b p emin x =
     (if x = 0 then 0
      else let e = max (ilog b \<bar>x\<bar> - (int p - 1)) emin
           in sgn x * of_int (round_half_even (\<bar>x\<bar> / of_nat b powi e)) * of_nat b powi e)"

lemma floorlog_bounds_rat:
  assumes "2 \<le> b" "0 < n"
  shows "of_nat b powi (int (floorlog b n) - 1) \<le> (of_nat n :: rat)" "(of_nat n :: rat) < of_nat b powi int (floorlog b n)"
proof -
  have "b ^ (floorlog b n - 1) \<le> n \<and> n < b ^ floorlog b n"
    using floorlog_bounds[of n b] assms by auto
  moreover have "floorlog b n > 0" using assms by (simp add: floorlog_def)
  ultimately show "of_nat b powi (int (floorlog b n) - 1) \<le> (of_nat n :: rat)" "(of_nat n :: rat) < of_nat b powi int (floorlog b n)"
    by (simp_all add: power_int_def nat_diff_distrib flip: of_nat_power)
qed


lemma ilog_bounds:
  assumes b: "2 \<le> b" and x: "0 < x"
  shows "of_nat b powi ilog b x \<le> x" "x < of_nat b powi (ilog b x + 1)"
proof -
  obtain p q where pq: "quotient_of x = (p, q)" by (cases "quotient_of x") auto
  have q0: "0 < q" using quotient_of_denom_pos[OF pq] .
  have xe: "x = of_int p / of_int q" using quotient_of_div[OF pq] .
  have p0: "0 < p" using x q0 by (simp add: xe zero_less_divide_iff)
  define fp fq where "fp = int (floorlog b (nat p))" and "fq = int (floorlog b (nat q))"
  define B :: rat where "B = of_nat b"
  have B: "2 \<le> B" "B \<noteq> 0" "0 < B" using b by (auto simp: B_def)
  have P: "B powi (fp - 1) \<le> of_int p" "of_int p < B powi fp"
    using floorlog_bounds_rat[OF b, of "nat p"] p0 by (simp_all add: fp_def B_def)
  have Q: "B powi (fq - 1) \<le> of_int q" "of_int q < B powi fq"
    using floorlog_bounds_rat[OF b, of "nat q"] q0 by (simp_all add: fq_def B_def)
  have pw: "0 < B powi k" for k using B by (simp add: zero_less_power_int)
  have lower: "B powi (fp - fq - 1) \<le> x"
  proof -
    have "B powi (fp - fq - 1) * of_int q \<le> B powi (fp - fq - 1) * B powi fq"
      using Q(2) pw[of "fp - fq - 1"] by (intro mult_left_mono) auto
    also have "\<dots> = B powi (fp - 1)" using B by (simp add: power_int_add[symmetric])
    also have "\<dots> \<le> of_int p" by (rule P(1))
    finally show ?thesis using q0 by (simp add: xe le_divide_eq)
  qed
  have upper: "x < B powi (fp - fq + 1)"
  proof -
    have "of_int p < B powi fp" by (rule P(2))
    also have "\<dots> = B powi (fp - fq + 1) * B powi (fq - 1)"
      using B by (simp add: power_int_add[symmetric])
    also have "\<dots> \<le> B powi (fp - fq + 1) * of_int q"
      using Q(1) pw[of "fp - fq + 1"] by (intro mult_left_mono) auto
    finally show ?thesis using q0 by (simp add: xe divide_less_eq)
  qed
  have e: "ilog b x = (if B powi (fp - fq) \<le> x then fp - fq else fp - fq - 1)"
    by (simp add: ilog_def pq fp_def fq_def B_def Let_def)
  show "of_nat b powi ilog b x \<le> x" "x < of_nat b powi (ilog b x + 1)"
    using lower upper by (auto simp: e B_def not_le)
qed

lemma powi_pos: "2 \<le> b \<Longrightarrow> 0 < (of_nat b :: rat) powi k"
  by (simp add: zero_less_power_int)

lemma powi_le_cancel:
  assumes "2 \<le> b" "of_nat b powi i < (of_nat b :: rat) powi j"
  shows "i < j"
  using assms power_int_increasing[of j i "of_nat b :: rat"] by (cases "j \<le> i") auto

lemma ilog_unique:
  assumes "2 \<le> b" "of_nat b powi k \<le> x" "x < of_nat b powi (k + 1)"
  shows "ilog b x = k"
proof -
  have x: "0 < x" using powi_pos[OF assms(1), of k] assms(2) by linarith
  note B = ilog_bounds[OF assms(1) x]
  have "k < ilog b x + 1" using assms B by (intro powi_le_cancel[of b]) auto
  moreover have "ilog b x < k + 1" using assms B by (intro powi_le_cancel[of b]) auto
  ultimately show ?thesis by simp
qed

lemma ilog_mono:
  assumes "2 \<le> b" "0 < x" "x \<le> y"
  shows "ilog b x \<le> ilog b y"
proof -
  have "ilog b x < ilog b y + 1"
    using ilog_bounds[OF assms(1,2)] ilog_bounds[OF assms(1), of y] assms
    by (intro powi_le_cancel[of b]) auto
  then show ?thesis by simp
qed

lemma round_half_even_of_int [simp]: "round_half_even (of_int n) = n"
  by (simp add: round_half_even_def)

lemma round_half_even_mono: "x \<le> y \<Longrightarrow> round_half_even x \<le> round_half_even y"
proof -
  assume xy: "x \<le> y"
  then have f: "\<lfloor>x\<rfloor> \<le> \<lfloor>y\<rfloor>" by (rule floor_mono)
  show ?thesis
  proof (cases "\<lfloor>x\<rfloor> = \<lfloor>y\<rfloor>")
    case True
    then show ?thesis using xy by (auto simp: round_half_even_def Let_def)
  next
    case False
    with f have "\<lfloor>x\<rfloor> + 1 \<le> \<lfloor>y\<rfloor>" by simp
    then show ?thesis by (auto simp: round_half_even_def Let_def)
  qed
qed

lemma round_half_even_le_int: "x \<le> of_int n \<Longrightarrow> round_half_even x \<le> n"
  using round_half_even_mono[of x "of_int n"] by simp

lemma round_half_even_ge_int: "of_int n \<le> x \<Longrightarrow> n \<le> round_half_even x"
  using round_half_even_mono[of "of_int n" x] by simp

definition unit_exp :: "nat \<Rightarrow> nat \<Rightarrow> int \<Rightarrow> rat \<Rightarrow> int" where
  "unit_exp b p emin x = max (ilog b \<bar>x\<bar> - (int p - 1)) emin"

lemma round_sig_0 [simp]: "round_sig b p emin 0 = 0"
  by (simp add: round_sig_def)

lemma round_sig_uminus: "round_sig b p emin (- x) = - round_sig b p emin x"
  by (simp add: round_sig_def Let_def sgn_if)

lemma round_sig_pos:
  "0 < x \<Longrightarrow> round_sig b p emin x =
     of_int (round_half_even (x / of_nat b powi unit_exp b p emin x)) * of_nat b powi unit_exp b p emin x"
  by (simp add: round_sig_def unit_exp_def Let_def)

lemma powi_of_int:
  assumes "2 \<le> b" "j \<le> i"
  shows "\<exists>n::int. (of_nat b :: rat) powi i / of_nat b powi j = of_int n"
proof -
  have "(of_nat b :: rat) powi i / of_nat b powi j = of_nat b powi (i - j)"
    using assms by (simp add: power_int_diff)
  also have "\<dots> = of_int (int b ^ nat (i - j))"
    using assms by (simp add: power_int_def)
  finally show ?thesis by blast
qed

lemma round_sig_le_powi:
  assumes "2 \<le> b" "0 < x" "x \<le> of_nat b powi k" "unit_exp b p emin x \<le> k"
  shows "round_sig b p emin x \<le> of_nat b powi k"
proof -
  let ?e = "unit_exp b p emin x"
  have pw: "0 < (of_nat b :: rat) powi ?e" using assms(1) by (simp add: zero_less_power_int)
  obtain n :: int where n: "(of_nat b :: rat) powi k / of_nat b powi ?e = of_int n"
    using powi_of_int[OF assms(1,4)] by blast
  have "x / of_nat b powi ?e \<le> of_int n"
    using assms(3) pw by (subst n[symmetric]) (simp add: divide_right_mono)
  then have "round_half_even (x / of_nat b powi ?e) \<le> n" by (rule round_half_even_le_int)
  then have "of_int (round_half_even (x / of_nat b powi ?e)) * of_nat b powi ?e \<le> (of_int n :: rat) * of_nat b powi ?e"
    using pw by (intro mult_right_mono) auto
  also have "\<dots> = of_nat b powi k" using assms(1) by (simp add: n[symmetric])
  finally show ?thesis using assms(2) by (simp add: round_sig_pos)
qed

lemma round_sig_ge_powi:
  assumes "2 \<le> b" "of_nat b powi k \<le> x" "unit_exp b p emin x \<le> k"
  shows "of_nat b powi k \<le> round_sig b p emin x"
proof -
  let ?e = "unit_exp b p emin x"
  have x: "0 < x" using powi_pos[OF assms(1), of k] assms(2) by linarith
  have pw: "0 < (of_nat b :: rat) powi ?e" using assms(1) by (simp add: zero_less_power_int)
  obtain n :: int where n: "(of_nat b :: rat) powi k / of_nat b powi ?e = of_int n"
    using powi_of_int[OF assms(1,3)] by blast
  have "of_int n \<le> x / of_nat b powi ?e"
    using assms(2) pw by (subst n[symmetric]) (simp add: divide_right_mono)
  then have "n \<le> round_half_even (x / of_nat b powi ?e)" by (rule round_half_even_ge_int)
  then have "(of_int n :: rat) * of_nat b powi ?e \<le> of_int (round_half_even (x / of_nat b powi ?e)) * of_nat b powi ?e"
    using pw by (intro mult_right_mono) auto
  then show ?thesis using assms(1) x by (simp add: n[symmetric] round_sig_pos)
qed

lemma round_sig_nonneg: "0 \<le> x \<Longrightarrow> 0 \<le> round_sig b p emin x"
proof (cases "x = 0")
  case False
  moreover assume "0 \<le> x"
  ultimately have x: "0 < x" by simp
  have "0 \<le> round_half_even (x / of_nat b powi unit_exp b p emin x)"
    using x by (intro round_half_even_ge_int) simp
  then show ?thesis using x by (simp add: round_sig_pos)
qed simp

lemma round_sig_mono_pos:
  assumes b: "2 \<le> b" and p: "1 \<le> p" and x: "0 < x" and xy: "x \<le> y"
  shows "round_sig b p emin x \<le> round_sig b p emin y"
proof (cases "unit_exp b p emin x = unit_exp b p emin y")
  case True
  have "0 < (of_nat b :: rat) powi unit_exp b p emin y" using b by (simp add: zero_less_power_int)
  then have "round_half_even (x / of_nat b powi unit_exp b p emin y)
      \<le> round_half_even (y / of_nat b powi unit_exp b p emin y)"
    using xy by (intro round_half_even_mono divide_right_mono) auto
  then show ?thesis using x xy b by (simp add: round_sig_pos True)
next
  case False
  have y: "0 < y" using x xy by simp
  have "ilog b x \<le> ilog b y" using ilog_mono[OF b x xy] .
  with False have lt: "ilog b x < ilog b y" "emin < ilog b y - (int p - 1)"
    using x y by (auto simp: unit_exp_def max_def split: if_splits)
  have "x < of_nat b powi (ilog b x + 1)" using ilog_bounds[OF b x] by simp
  also have "\<dots> \<le> of_nat b powi ilog b y" using b lt by (intro power_int_increasing) auto
  finally have "round_sig b p emin x \<le> of_nat b powi ilog b y"
    using b x lt p by (intro round_sig_le_powi) (auto simp: unit_exp_def)
  also have "\<dots> \<le> round_sig b p emin y"
    using b y lt p ilog_bounds[OF b y] by (intro round_sig_ge_powi) (auto simp: unit_exp_def)
  finally show ?thesis .
qed

lemma round_sig_mono:
  assumes "2 \<le> b" "1 \<le> p" "x \<le> y"
  shows "round_sig b p emin x \<le> round_sig b p emin y"
proof -
  consider "0 < x" | "x \<le> 0" "0 \<le> y" | "y < 0" by linarith
  then show ?thesis
  proof cases
    case 1 then show ?thesis using assms by (intro round_sig_mono_pos)
  next
    case 2
    have "0 \<le> round_sig b p emin (- x)" using 2 by (intro round_sig_nonneg) simp
    then have "round_sig b p emin x \<le> 0" by (simp add: round_sig_uminus)
    then show ?thesis using round_sig_nonneg[OF 2(2), of b p emin] by linarith
  next
    case 3
    then have "round_sig b p emin (- y) \<le> round_sig b p emin (- x)"
      using assms by (intro round_sig_mono_pos) auto
    then show ?thesis by (simp add: round_sig_uminus)
  qed
qed

definition representable :: "nat \<Rightarrow> nat \<Rightarrow> int \<Rightarrow> rat \<Rightarrow> bool" where
  "representable b p emin x \<longleftrightarrow>
     (\<exists>m e. x = of_int m * of_nat b powi e \<and> \<bar>m\<bar> \<le> int b ^ p \<and> emin \<le> e)"

lemma round_sig_exact_pos:
  assumes b: "2 \<le> b" and x: "x = of_int m * of_nat b powi e" "0 < x"
    and m: "\<bar>m\<bar> \<le> int b ^ p" and e: "emin \<le> e" and p: "1 \<le> p"
  shows "round_sig b p emin x = x"
proof -
  let ?u = "unit_exp b p emin x"
  have pw: "0 < (of_nat b :: rat) powi k" for k using b by (simp add: zero_less_power_int)
  have b0: "(of_nat b :: rat) \<noteq> 0" using b by simp
  have "\<exists>n::int. x / of_nat b powi ?u = of_int n"
  proof (cases "x < of_nat b powi (e + int p)")
    case True
    have "(of_nat b :: rat) powi ilog b x < of_nat b powi (e + int p)"
      using ilog_bounds(1)[OF b x(2)] True by linarith
    then have "ilog b x < e + int p" by (rule powi_le_cancel[OF b])
    then have "?u \<le> e" using e x(2) by (simp add: unit_exp_def)
    then obtain n :: int where "(of_nat b :: rat) powi e / of_nat b powi ?u = of_int n"
      using powi_of_int[OF b] by blast
    then have "of_int m * ((of_nat b :: rat) powi e / of_nat b powi ?u) = of_int (m * n)" by simp
    then have "x / of_nat b powi ?u = of_int (m * n)" by (subst x(1)) simp
    then show ?thesis by blast
  next
    case False
    have "(of_int m :: rat) \<le> of_int (int b ^ p)" using m by (simp only: of_int_le_iff)
    then have "x \<le> of_int (int b ^ p) * of_nat b powi e" using pw[of e] by (simp add: x(1))
    also have "\<dots> = of_nat b powi (e + int p)" using b0 by (simp add: power_int_add mult.commute)
    finally have xe: "x = of_nat b powi (e + int p)" using False by simp
    have "(of_nat b :: rat) powi (e + int p) < of_nat b powi (e + int p + 1)"
      using b by (intro power_int_strict_increasing) auto
    then have "ilog b x = e + int p" using b xe by (intro ilog_unique) auto
    then have "?u \<le> e + int p" using e p x(2) by (simp add: unit_exp_def)
    then show ?thesis using powi_of_int[OF b] xe by blast
  qed
  then obtain n :: int where n: "x / of_nat b powi ?u = of_int n" by blast
  have "round_sig b p emin x = of_int n * of_nat b powi ?u" using x(2) by (simp add: round_sig_pos n)
  also have "\<dots> = x" using b by (simp add: n[symmetric])
  finally show ?thesis .
qed

lemma round_sig_exact:
  assumes "2 \<le> b" "1 \<le> p" "representable b p emin x"
  shows "round_sig b p emin x = x"
proof -
  obtain m e where x: "x = of_int m * of_nat b powi e" "\<bar>m\<bar> \<le> int b ^ p" "emin \<le> e"
    using assms(3) by (auto simp: representable_def)
  consider "x = 0" | "0 < x" | "0 < - x" by linarith
  then show ?thesis
  proof cases
    case 1 then show ?thesis by simp
  next
    case 2 then show ?thesis using assms x by (intro round_sig_exact_pos) auto
  next
    case 3
    then have "round_sig b p emin (- x) = - x"
      using assms x by (intro round_sig_exact_pos[of b "- x" "- m" e]) auto
    then show ?thesis by (simp add: round_sig_uminus)
  qed
qed

lemma round_sig_representable:
  assumes b: "2 \<le> b" and p: "1 \<le> p"
  shows "representable b p emin (round_sig b p emin x)"
proof -
  have pos: "representable b p emin (round_sig b p emin x)" if x: "0 < x" for x
  proof -
    let ?u = "unit_exp b p emin x"
    have b0: "(of_nat b :: rat) \<noteq> 0" using b by simp
    have pw: "0 < (of_nat b :: rat) powi ?u" using b by (simp add: zero_less_power_int)
    have "x < of_nat b powi (ilog b x + 1)" by (rule ilog_bounds[OF b x])
    also have "\<dots> \<le> of_nat b powi (int p + ?u)"
      using b x by (intro power_int_increasing) (auto simp: unit_exp_def)
    also have "\<dots> = of_int (int b ^ p) * of_nat b powi ?u"
      using b0 by (simp add: power_int_add)
    finally have "x / of_nat b powi ?u \<le> of_int (int b ^ p)"
      using pw by (simp only: divide_le_eq) simp
    then have "round_half_even (x / of_nat b powi ?u) \<le> int b ^ p" by (rule round_half_even_le_int)
    moreover have "0 \<le> round_half_even (x / of_nat b powi ?u)"
      using x by (intro round_half_even_ge_int) simp
    ultimately show ?thesis
      using x by (auto simp: representable_def round_sig_pos unit_exp_def intro!: exI)
  qed
  consider "x = 0" | "0 < x" | "0 < - x" by linarith
  then show ?thesis
  proof cases
    case 1
    have "(0 :: rat) = of_int 0 * of_nat b powi emin \<and> \<bar>0\<bar> \<le> int b ^ p \<and> emin \<le> emin" by simp
    then show ?thesis using 1 unfolding representable_def by (metis round_sig_0)
  next
    case 2 then show ?thesis by (rule pos)
  next
    case 3
    obtain m e where "round_sig b p emin (- x) = of_int m * of_nat b powi e" "\<bar>m\<bar> \<le> int b ^ p" "emin \<le> e"
      using pos[OF 3] by (auto simp: representable_def)
    then have "round_sig b p emin x = of_int (- m) * of_nat b powi e" "\<bar>- m\<bar> \<le> int b ^ p"
      by (simp_all add: round_sig_uminus minus_equation_iff[of "round_sig b p emin x"])
    then show ?thesis using \<open>emin \<le> e\<close> unfolding representable_def by blast
  qed
qed

lemma round_sig_idem:
  assumes "2 \<le> b" "1 \<le> p"
  shows "round_sig b p emin (round_sig b p emin x) = round_sig b p emin x"
  using assms by (intro round_sig_exact round_sig_representable)

section \<open>The contract of a rounding\<close>

locale rounding =
  fixes rnd :: "rat \<Rightarrow> rat"
  assumes mono: "x \<le> y \<Longrightarrow> rnd x \<le> rnd y"
    and odd: "rnd (- x) = - rnd x"
    and idem: "rnd (rnd x) = rnd x"
begin

lemma zero: "rnd 0 = 0"
  using odd[of 0] by simp

lemma nonneg: "0 \<le> x \<Longrightarrow> 0 \<le> rnd x"
  using mono[of 0 x] by (simp add: zero)

lemma nonpos: "x \<le> 0 \<Longrightarrow> rnd x \<le> 0"
  using mono[of x 0] by (simp add: zero)

lemma le_exact: "x \<le> y \<Longrightarrow> rnd y = y \<Longrightarrow> rnd x \<le> y"
  using mono[of x y] by simp

lemma ge_exact: "y \<le> x \<Longrightarrow> rnd y = y \<Longrightarrow> y \<le> rnd x"
  using mono[of y x] by simp

lemma sign_pos: "0 < rnd x \<Longrightarrow> 0 < x"
  using nonpos[of x] by linarith

end

definition rnd64 :: "rat \<Rightarrow> rat" where
  "rnd64 = round_sig 2 53 (- 1074)"

definition rnd28 :: "rat \<Rightarrow> rat" where
  "rnd28 = round_sig 10 28 (- 1000026)"

interpretation f64: rounding rnd64
  by unfold_locales
    (auto simp: rnd64_def round_sig_uminus round_sig_idem intro: round_sig_mono)

interpretation d28: rounding rnd28
  by unfold_locales
    (auto simp: rnd28_def round_sig_uminus round_sig_idem intro: round_sig_mono)

section \<open>Binary64 floats\<close>

datatype pyfloat = Fin rat | PInf | NInf | NaN

definition mk_float :: "rat \<Rightarrow> pyfloat" where
  "mk_float x =
     (let r = rnd64 x
      in if 2 ^ 1024 \<le> r then PInf else if r \<le> - (2 ^ 1024) then NInf else Fin r)"

fun isfinite :: "pyfloat \<Rightarrow> bool" where
  "isfinite (Fin _) = True"
| "isfinite _ = False"

fun wf_float :: "pyfloat \<Rightarrow> bool" where
  "wf_float (Fin x) = (rnd64 x = x \<and> \<bar>x\<bar> < 2 ^ 1024)"
| "wf_float _ = True"

fun fneg :: "pyfloat \<Rightarrow> pyfloat" where
  "fneg (Fin x) = Fin (- x)"
| "fneg PInf = NInf"
| "fneg NInf = PInf"
| "fneg NaN = NaN"

fun fabs :: "pyfloat \<Rightarrow> pyfloat" where
  "fabs (Fin x) = Fin \<bar>x\<bar>"
| "fabs NaN = NaN"
| "fabs _ = PInf"

fun fadd :: "pyfloat \<Rightarrow> pyfloat \<Rightarrow> pyfloat" where
  "fadd (Fin x) (Fin y) = mk_float (x + y)"
| "fadd NaN _ = NaN"
| "fadd _ NaN = NaN"
| "fadd PInf NInf = NaN"
| "fadd NInf PInf = NaN"
| "fadd PInf _ = PInf"
| "fadd _ PInf = PInf"
| "fadd NInf _ = NInf"
| "fadd _ NInf = NInf"

definition fsub :: "pyfloat \<Rightarrow> pyfloat \<Rightarrow> pyfloat" where
  "fsub x y = fadd x (fneg y)"

text \<open>An infinity times a value of sign \<open>s\<close>; the sign of NaN is never consulted.\<close>

definition inf_of_sign :: "rat \<Rightarrow> pyfloat" where
  "inf_of_sign s = (if 0 < s then PInf else if s < 0 then NInf else NaN)"

fun fsgn :: "pyfloat \<Rightarrow> rat" where
  "fsgn (Fin x) = sgn x"
| "fsgn PInf = 1"
| "fsgn NInf = - 1"
| "fsgn NaN = 0"

fun fmul :: "pyfloat \<Rightarrow> pyfloat \<Rightarrow> pyfloat" where
  "fmul (Fin x) (Fin y) = mk_float (x * y)"
| "fmul NaN _ = NaN"
| "fmul _ NaN = NaN"
| "fmul x y = inf_of_sign (fsgn x * fsgn y)"

text \<open>True division: \<open>None\<close> is Python's \<open>ZeroDivisionError\<close>.\<close>

fun fdiv :: "pyfloat \<Rightarrow> pyfloat \<Rightarrow> pyfloat option" where
  "fdiv x (Fin y) =
     (if y = 0 then None
      else case x of Fin a \<Rightarrow> Some (mk_float (a / y)) | NaN \<Rightarrow> Some NaN
                   | _ \<Rightarrow> Some (inf_of_sign (fsgn x * sgn y)))"
| "fdiv x NaN = Some NaN"
| "fdiv x _ = Some (case x of Fin _ \<Rightarrow> Fin 0 | _ \<Rightarrow> NaN)"

fun flt :: "pyfloat \<Rightarrow> pyfloat \<Rightarrow> bool" where
  "flt (Fin x) (Fin y) = (x < y)"
| "flt NaN _ = False"
| "flt _ NaN = False"
| "flt NInf y = (y \<noteq> NInf)"
| "flt x PInf = (x \<noteq> PInf)"
| "flt _ _ = False"

fun fle :: "pyfloat \<Rightarrow> pyfloat \<Rightarrow> bool" where
  "fle (Fin x) (Fin y) = (x \<le> y)"
| "fle NaN _ = False"
| "fle _ NaN = False"
| "fle NInf _ = True"
| "fle _ PInf = True"
| "fle _ _ = False"

text \<open>Python's two-argument \<open>max\<close> and \<open>min\<close>: the first argument unless the second is strictly better.\<close>

definition pymax :: "pyfloat \<Rightarrow> pyfloat \<Rightarrow> pyfloat" where
  "pymax a b = (if flt a b then b else a)"

definition pymin :: "pyfloat \<Rightarrow> pyfloat \<Rightarrow> pyfloat" where
  "pymin a b = (if flt b a then b else a)"

text \<open>\<open>int(x)\<close> of a finite float truncates towards zero.\<close>

definition trunc_rat :: "rat \<Rightarrow> int" where
  "trunc_rat x = (if 0 \<le> x then \<lfloor>x\<rfloor> else \<lceil>x\<rceil>)"

subsection \<open>Laws of the float operations\<close>

lemma pow2_1024_exact: "rnd64 (2 ^ 1024) = 2 ^ 1024"
proof -
  have "representable 2 53 (- 1074) (2 ^ 1024)"
    unfolding representable_def
    by (intro exI[of _ "1::int"] exI[of _ "1024::int"]) (simp add: power_int_def)
  then show ?thesis by (simp add: rnd64_def round_sig_exact)
qed

lemma wf_mk_float [simp, intro!]: "wf_float (mk_float x)"
  by (auto simp: mk_float_def Let_def f64.idem not_le abs_less_iff)

lemma mk_float_exact: "rnd64 x = x \<Longrightarrow> \<bar>x\<bar> < 2 ^ 1024 \<Longrightarrow> mk_float x = Fin x"
  by (auto simp: mk_float_def Let_def abs_less_iff)

lemma powi_le_iff_ilog:
  assumes "2 \<le> b" "0 < x"
  shows "of_nat b powi k \<le> x \<longleftrightarrow> k \<le> ilog b x"
proof
  assume "of_nat b powi k \<le> x"
  then have "(of_nat b :: rat) powi k < of_nat b powi (ilog b x + 1)"
    using ilog_bounds(2)[OF assms] by linarith
  then show "k \<le> ilog b x" using powi_le_cancel[OF assms(1)] by force
next
  assume "k \<le> ilog b x"
  then have "(of_nat b :: rat) powi k \<le> of_nat b powi ilog b x"
    using assms(1) by (intro power_int_increasing) auto
  then show "of_nat b powi k \<le> x" using ilog_bounds(1)[OF assms] by linarith
qed

text \<open>The overflow test by exponents, for evaluation.\<close>

lemma mk_float_code [code]:
  "mk_float x =
     (let r = rnd64 x
      in if r = 0 then Fin 0
         else if ilog 2 \<bar>r\<bar> < 1024 then Fin r else if 0 < r then PInf else NInf)"
proof -
  have iff: "(2 ^ 1024 \<le> y) = (1024 \<le> ilog 2 y)" if "0 < y" for y :: rat
    using powi_le_iff_ilog[of 2 y 1024] that by (simp add: power_int_def)
  show ?thesis
    using iff[of "rnd64 x"] iff[of "- rnd64 x"]
    by (auto simp: mk_float_def Let_def abs_if not_less le_minus_iff)
qed

lemma mk_float_of_int:
  assumes "\<bar>n\<bar> \<le> 2 ^ 53"
  shows "mk_float (of_int n) = Fin (of_int n)"
proof -
  have "representable 2 53 (- 1074) (of_int n)"
    unfolding representable_def using assms by (intro exI[of _ n] exI[of _ "0::int"]) simp
  then have r: "rnd64 (of_int n) = of_int n" by (simp add: rnd64_def round_sig_exact)
  have "\<bar>of_int n :: rat\<bar> \<le> of_int (2 ^ 53)" using assms by (simp only: of_int_abs[symmetric] of_int_le_iff)
  also have "\<dots> < 2 ^ 1024" by simp
  finally show ?thesis using r by (intro mk_float_exact) auto
qed

lemma mk_float_0 [simp]: "mk_float 0 = Fin 0"
  by (rule mk_float_exact) (simp_all add: f64.zero)

lemma mk_float_not_NaN [simp]: "mk_float x \<noteq> NaN"
  by (simp add: mk_float_def Let_def)

lemma mk_float_Fin: "mk_float x = Fin r \<Longrightarrow> r = rnd64 x"
  by (auto simp: mk_float_def Let_def split: if_splits)

lemma mk_float_mono: "x \<le> y \<Longrightarrow> fle (mk_float x) (mk_float y)"
  using f64.mono[of x y] by (auto simp: mk_float_def Let_def)

lemma mk_float_nonneg: "0 \<le> x \<Longrightarrow> fle (Fin 0) (mk_float x)"
  using mk_float_mono[of 0 x] by simp

lemma mk_float_nonpos: "x \<le> 0 \<Longrightarrow> fle (mk_float x) (Fin 0)"
  using mk_float_mono[of x 0] by simp

lemma fle_Fin0_D: "fle (Fin 0) f \<Longrightarrow> f = PInf \<or> (\<exists>r. f = Fin r \<and> 0 \<le> r)"
  by (cases f) auto

lemma flt_irrefl [simp]: "\<not> flt x x"
  by (cases x) auto

lemma fle_refl_iff: "fle x x \<longleftrightarrow> x \<noteq> NaN"
  by (cases x) auto

lemma flt_imp_fle: "flt x y \<Longrightarrow> fle x y"
  by (cases x; cases y) auto

lemma fle_trans: "fle x y \<Longrightarrow> fle y z \<Longrightarrow> fle x z"
  by (cases x; cases y; cases z) auto

lemma fle_flt_trans: "fle x y \<Longrightarrow> flt y z \<Longrightarrow> flt x z"
  by (cases x; cases y; cases z) auto

lemma flt_fle_trans: "flt x y \<Longrightarrow> fle y z \<Longrightarrow> flt x z"
  by (cases x; cases y; cases z) auto

lemma not_flt_iff_fle: "x \<noteq> NaN \<Longrightarrow> y \<noteq> NaN \<Longrightarrow> \<not> flt x y \<longleftrightarrow> fle y x"
  by (cases x; cases y) auto

lemma not_fle_iff_flt: "x \<noteq> NaN \<Longrightarrow> y \<noteq> NaN \<Longrightarrow> \<not> fle x y \<longleftrightarrow> flt y x"
  by (cases x; cases y) auto

lemma fcmp_NaN [simp]:
  "\<not> flt NaN x" "\<not> flt x NaN" "\<not> fle NaN x" "\<not> fle x NaN"
  by (cases x; simp)+

lemma fadd_nonneg:
  assumes "fle (Fin 0) x" "fle (Fin 0) y"
  shows "fle (Fin 0) (fadd x y)"
  using assms by (auto dest!: fle_Fin0_D intro!: mk_float_nonneg)

lemma fsub_nonneg: "fle (Fin a) (Fin b) \<Longrightarrow> fle (Fin 0) (fsub (Fin b) (Fin a))"
  by (simp add: fsub_def mk_float_nonneg)

lemma fmul_nonneg:
  assumes "0 \<le> a" "0 \<le> b"
  shows "fle (Fin 0) (fmul (Fin a) (Fin b))"
  using assms by (simp add: mk_float_nonneg)

lemma mk_float_dyadic:
  assumes "\<bar>m\<bar> < 2 ^ 53" "k \<le> 1074"
  shows "mk_float (of_int m / 2 ^ k) = Fin (of_int m / 2 ^ k)"
proof (rule mk_float_exact)
  have "of_int m / 2 ^ k = (of_int m * 2 powi (- int k) :: rat)" by (simp add: power_int_minus divide_inverse)
  then have "representable 2 53 (- 1074) (of_int m / 2 ^ k)"
    unfolding representable_def using assms by (intro exI[of _ m] exI[of _ "- int k"]) simp
  then show "rnd64 (of_int m / 2 ^ k) = of_int m / 2 ^ k" by (simp add: rnd64_def round_sig_exact)
  have "\<bar>of_int m :: rat\<bar> * 1 \<le> \<bar>of_int m\<bar> * 2 ^ k" by (rule mult_left_mono) simp_all
  then have "\<bar>of_int m / 2 ^ k\<bar> \<le> \<bar>of_int m :: rat\<bar>" by (simp add: divide_le_eq)
  also have "\<dots> < of_int (2 ^ 53)" using assms(1) by (simp only: of_int_abs[symmetric] of_int_less_iff)
  also have "\<dots> < (2 ^ 1024 :: rat)" by simp
  finally show "\<bar>of_int m / 2 ^ k :: rat\<bar> < 2 ^ 1024" .
qed

lemma mk_float_positive:
  assumes "1 / 2 ^ k \<le> x" "k \<le> 1074"
  shows "flt (Fin 0) (mk_float x)"
proof -
  have "flt (Fin 0) (mk_float (1 / 2 ^ k))" using mk_float_dyadic[of 1 k] assms(2) by simp
  then show ?thesis using mk_float_mono[OF assms(1)] by (rule flt_fle_trans)
qed

lemma fmul_one: "wf_float x \<Longrightarrow> fmul x (Fin 1) = x"
  by (cases x) (auto simp: mk_float_exact inf_of_sign_def)

lemma wf_fneg: "wf_float x \<Longrightarrow> wf_float (fneg x)"
  by (cases x) (auto simp: f64.odd)

lemma wf_fabs: "wf_float x \<Longrightarrow> wf_float (fabs x)"
  by (cases x) (auto simp: f64.odd abs_if)

lemma wf_fadd [simp]: "wf_float (fadd x y)"
  by (cases x; cases y) auto

lemma wf_fsub [simp]: "wf_float (fsub x y)"
  by (simp add: fsub_def)

lemma wf_inf_of_sign [simp]: "wf_float (inf_of_sign s)"
  by (simp add: inf_of_sign_def)

lemma wf_fmul [simp]: "wf_float (fmul x y)"
  by (cases x; cases y) auto

subsection \<open>Shortest decimal representation\<close>

text \<open>\<open>Decimal(repr(x))\<close> of a positive finite float: the shortest decimal that reads back as \<open>x\<close>, the closer one
  when two of the same length do; seventeen digits always suffice.\<close>

definition decimal_near :: "rat \<Rightarrow> nat \<Rightarrow> rat option" where
  "decimal_near x k =
     (let u = 10 powi (ilog 10 x - (int k - 1));
          lo = of_int \<lfloor>x / u\<rfloor> * u; hi = of_int \<lceil>x / u\<rceil> * u;
          okl = (mk_float lo = Fin x); okh = (mk_float hi = Fin x)
      in if okl \<and> (\<not> okh \<or> x - lo \<le> hi - x) then Some lo else if okh then Some hi else None)"

fun first_some :: "('a \<Rightarrow> 'b option) \<Rightarrow> 'a list \<Rightarrow> 'b option" where
  "first_some f [] = None"
| "first_some f (x # xs) = (case f x of None \<Rightarrow> first_some f xs | Some y \<Rightarrow> Some y)"

definition shortest_decimal :: "rat \<Rightarrow> rat option" where
  "shortest_decimal x = first_some (decimal_near x) [1..<18]"

definition repr_rat :: "rat \<Rightarrow> rat" where
  "repr_rat x =
     (if x = 0 then 0
      else case shortest_decimal \<bar>x\<bar> of None \<Rightarrow> x | Some d \<Rightarrow> sgn x * d)"

lemma decimal_near_reads_back: "decimal_near x k = Some d \<Longrightarrow> mk_float d = Fin x"
  by (auto simp: decimal_near_def Let_def split: if_splits)

lemma first_some_Some: "first_some f xs = Some y \<Longrightarrow> \<exists>x. f x = Some y"
  by (induction xs) (auto split: option.splits)

lemma mk_float_uminus: "mk_float (- x) = fneg (mk_float x)"
  by (auto simp: mk_float_def Let_def f64.odd)

lemma shortest_decimal_reads_back: "shortest_decimal x = Some d \<Longrightarrow> mk_float d = Fin x"
  unfolding shortest_decimal_def using first_some_Some[of "decimal_near x"] decimal_near_reads_back[of x] by metis

lemma mk_float_repr:
  assumes "wf_float (Fin x)"
  shows "mk_float (repr_rat x) = Fin x"
proof (cases "shortest_decimal \<bar>x\<bar>")
  case None
  have "mk_float x = Fin x" using assms unfolding wf_float.simps by (elim conjE) (rule mk_float_exact)
  then show ?thesis using None by (simp add: repr_rat_def)
next
  case (Some d)
  then have d: "mk_float d = Fin \<bar>x\<bar>" by (rule shortest_decimal_reads_back)
  show ?thesis
  proof (cases "0 < x")
    case True
    then show ?thesis using Some d by (simp add: repr_rat_def)
  next
    case False
    then show ?thesis using Some d mk_float_uminus[of d] by (cases "x = 0") (auto simp: repr_rat_def sgn_if)
  qed
qed

end
