(* ===== verification/Py_Prelude.thy ===== *)
theory Py_Prelude
  imports Py_Numeric "HOL-Library.Char_ord" "HOL-Library.List_Lexorder"
begin

text \<open>
  What the components share: the Python string operations the sources call (\<open>strip\<close>, \<open>lower\<close>,
  truthiness and \<open>or\<close>), exceptions as values, JSON values, numbers as they arrive from outside
  (\<open>num_arg\<close>: the outcome of \<open>Decimal(str(v))\<close>), and SQLite tables as lists of rows in
  rowid order with \<open>UPDATE ... WHERE\<close>, \<open>ORDER BY\<close> and \<open>LIMIT\<close>.

  A \<open>string\<close> is a list of \<open>char\<close>, read as code points below 256; \<open>strip\<close> and \<open>lower\<close> are exact
  there.
\<close>

named_theorems py_str \<open>string normalisation\<close>
named_theorems tbl \<open>table operations\<close>

section \<open>Strings\<close>

definition is_space :: "char \<Rightarrow> bool" where
  "is_space c = (let n = (of_char c :: nat)
     in (9 \<le> n \<and> n \<le> 13) \<or> (28 \<le> n \<and> n \<le> 32) \<or> n = 133 \<or> n = 160)"

definition lower_char :: "char \<Rightarrow> char" where
  "lower_char c = (let n = (of_char c :: nat)
     in if (65 \<le> n \<and> n \<le> 90) \<or> (192 \<le> n \<and> n \<le> 222 \<and> n \<noteq> 215) then char_of (n + 32) else c)"

definition lower :: "string \<Rightarrow> string" where
  "lower s = map lower_char s"

definition lstrip :: "string \<Rightarrow> string" where
  "lstrip s = dropWhile is_space s"

definition strip :: "string \<Rightarrow> string" where
  "strip s = rev (lstrip (rev (lstrip s)))"

text \<open>\<open>s or t\<close> on strings, and \<open>str(v or t)\<close> where \<open>v\<close> may be \<open>None\<close>.\<close>

definition str_or :: "string \<Rightarrow> string \<Rightarrow> string" where
  "str_or s t = (if s = '''' then t else s)"

definition opt_str_or :: "string option \<Rightarrow> string \<Rightarrow> string" where
  "opt_str_or v t = (case v of None \<Rightarrow> t | Some s \<Rightarrow> str_or s t)"

text \<open>Truthiness of an optional string, and \<open>v or w\<close> on optional strings.\<close>

definition truthy :: "string option \<Rightarrow> bool" where
  "truthy v = (v \<noteq> None \<and> v \<noteq> Some '''')"

definition opt_or :: "string option \<Rightarrow> string option \<Rightarrow> string option" where
  "opt_or v w = (if truthy v then v else w)"

definition coalesce :: "'a option \<Rightarrow> 'a option \<Rightarrow> 'a option" where
  "coalesce v w = (case v of None \<Rightarrow> w | Some x \<Rightarrow> Some x)"

text \<open>\<open>s[:k]\<close> for \<open>k \<ge> 0\<close>\<close>

fun prefix_to :: "int \<Rightarrow> string \<Rightarrow> string" where
  "prefix_to k [] = []"
| "prefix_to k (c # cs) = (if k \<le> 0 then [] else c # prefix_to (k - 1) cs)"

lemma prefix_to_take: "prefix_to k s = take (nat k) s"
proof (induction k s rule: prefix_to.induct)
  case (2 k c cs)
  then show ?case by (cases "nat k") (auto simp: nat_diff_distrib)
qed simp

lemma of_char_lower: "(of_char (lower_char c) :: nat) =
    (let n = of_char c in if (65 \<le> n \<and> n \<le> 90) \<or> (192 \<le> n \<and> n \<le> 222 \<and> n \<noteq> 215) then n + 32 else n)"
  by (auto simp: lower_char_def Let_def)

lemma lower_char_idem [simp]: "lower_char (lower_char c) = lower_char c"
proof -
  have "\<not> ((65 \<le> (of_char (lower_char c) :: nat) \<and> (of_char (lower_char c) :: nat) \<le> 90) \<or>
      (192 \<le> (of_char (lower_char c) :: nat) \<and> (of_char (lower_char c) :: nat) \<le> 222 \<and>
       (of_char (lower_char c) :: nat) \<noteq> 215))"
    by (auto simp: of_char_lower Let_def)
  then show ?thesis unfolding lower_char_def[of "lower_char c"] Let_def by (rule if_not_P)
qed

lemma is_space_lower [simp]: "is_space (lower_char c) = is_space c"
  by (auto simp: is_space_def of_char_lower Let_def)

lemma lower_idem [simp, py_str]: "lower (lower s) = lower s"
  by (simp add: lower_def)

lemma lower_Nil_iff [simp]: "lower s = [] \<longleftrightarrow> s = []"
  by (simp add: lower_def)

lemma lstrip_lower: "lstrip (lower s) = lower (lstrip s)"
  by (simp add: lstrip_def lower_def dropWhile_map o_def)

lemma strip_lower [py_str]: "strip (lower s) = lower (strip s)"
  by (metis lstrip_lower lower_def rev_map strip_def)

lemma lstrip_idem [simp]: "lstrip (lstrip s) = lstrip s"
  by (simp add: lstrip_def)

lemma lstrip_decomp: "\<exists>ws. s = ws @ lstrip s"
  by (metis lstrip_def takeWhile_dropWhile_id)

lemma lstrip_fix: "lstrip s = s \<longleftrightarrow> s = [] \<or> \<not> is_space (hd s)"
  by (simp add: lstrip_def dropWhile_eq_self_iff)

lemma lstrip_rev_lstrip: "lstrip (rev (lstrip (rev (lstrip s)))) = rev (lstrip (rev (lstrip s)))"
proof -
  let ?t = "lstrip s"
  obtain ws where ws: "rev ?t = ws @ lstrip (rev ?t)" using lstrip_decomp by blast
  let ?u = "rev (lstrip (rev ?t))"
  have t: "?t = ?u @ rev ws" using arg_cong[OF ws, of rev] by simp
  have "?t = [] \<or> \<not> is_space (hd ?t)" using lstrip_fix[of ?t] by simp
  then have "?u = [] \<or> \<not> is_space (hd ?u)" using t by (cases ?u) auto
  then show ?thesis using lstrip_fix by blast
qed

lemma strip_idem [simp, py_str]: "strip (strip s) = strip s"
  by (simp add: strip_def lstrip_rev_lstrip)

lemma strip_Nil [simp]: "strip [] = []"
  by (simp add: strip_def lstrip_def)

lemma opt_or_simps [simp]:
  "opt_or None w = w" "opt_or (Some (c # cs)) w = Some (c # cs)"
  by (simp_all add: opt_or_def truthy_def)

lemma coalesce_simps [simp]: "coalesce None w = w" "coalesce (Some x) w = Some x"
  by (simp_all add: coalesce_def)

section \<open>Exceptions and JSON values\<close>

datatype exn =
    ValueError string
  | TypeError string
  | KeyError string
  | IndexError string
  | AttributeError string
  | RuntimeError string
  | IntegrityError string
  | InvalidOperation
  | ZeroDivisionError
  | OverflowError
  | OtherError string string

datatype json =
    JNull
  | JBool bool
  | JInt int
  | JFloat pyfloat
  | JStr string
  | JList "json list"
  | JObj "(string \<times> json) list"

type_synonym dict = "(string \<times> json) list"

abbreviation jopt :: "string option \<Rightarrow> json" where
  "jopt v \<equiv> (case v of None \<Rightarrow> JNull | Some s \<Rightarrow> JStr s)"

section \<open>Numbers from outside\<close>

text \<open>
  \<open>num_arg\<close> is an argument of type \<open>Any\<close> seen through \<open>Decimal(str(v))\<close>: a finite decimal, NaN or an
  infinity, or a text \<open>Decimal\<close> rejects (which includes \<open>None\<close>).
\<close>

datatype num_arg = NumFin rat | NumNonFinite | NumInvalid

text \<open>\<open>decimal_value\<close> and \<open>decimal_product\<close> of services/markets/math\_utils.py.\<close>

definition decimal_value :: "string \<Rightarrow> num_arg \<Rightarrow> exn + rat" where
  "decimal_value name v =
     (case v of
        NumInvalid \<Rightarrow> Inl (ValueError (name @ ''_invalid''))
      | NumNonFinite \<Rightarrow> Inl (ValueError (name @ ''_non_finite''))
      | NumFin d \<Rightarrow> Inr d)"

definition decimal_product :: "num_arg \<Rightarrow> num_arg \<Rightarrow> exn + rat" where
  "decimal_product l r =
     (case decimal_value ''left'' l of
        Inl e \<Rightarrow> Inl e
      | Inr a \<Rightarrow> (case decimal_value ''right'' r of
                   Inl e \<Rightarrow> Inl e
                 | Inr b \<Rightarrow> Inr (rnd28 (a * b))))"

text \<open>
  \<open>decimal_step_ok\<close>: \<open>qty % step\<close> on decimals truncates the quotient towards zero; the default
  context raises \<open>InvalidOperation\<close> (which \<open>step_ok\<close> does not catch) when the
  integer quotient has more than 28 digits.
\<close>

definition decimal_step_ok :: "num_arg \<Rightarrow> num_arg \<Rightarrow> exn + bool" where
  "decimal_step_ok qty step =
     (case decimal_value ''step'' step of
        Inl e \<Rightarrow> Inl e
      | Inr s \<Rightarrow>
          if s \<le> 0 then Inr True
          else case decimal_value ''qty'' qty of
                 Inl e \<Rightarrow> Inl e
               | Inr q \<Rightarrow>
                   if 10 ^ 28 \<le> \<bar>trunc_rat (q / s)\<bar> then Inl InvalidOperation
                   else Inr (q - of_int (trunc_rat (q / s)) * s = 0))"

lemma decimal_value_Inr [simp]: "decimal_value n v = Inr d \<longleftrightarrow> v = NumFin d"
  by (cases v) (auto simp: decimal_value_def)

text \<open>Outside the 28-digit limit, a quantity passes exactly when it is an integer multiple of the step.\<close>

lemma decimal_step_ok_iff:
  assumes s: "0 < s" and ok: "decimal_step_ok (NumFin q) (NumFin s) = Inr r"
  shows "r \<longleftrightarrow> (\<exists>k::int. q = of_int k * s)"
proof -
  have r: "r = (q = of_int (trunc_rat (q / s)) * s)"
    using ok s by (simp add: decimal_step_ok_def decimal_value_def split: if_splits)
  show ?thesis
  proof
    assume "\<exists>k::int. q = of_int k * s"
    then obtain k :: int where k: "q = of_int k * s" by blast
    then have "q / s = of_int k" using s by simp
    then have "trunc_rat (q / s) = k" by (simp add: trunc_rat_def)
    then show r using r k by simp
  qed (use r in auto)
qed

text \<open>A float argument of \<open>decimal_value\<close>: \<open>Decimal(str(x))\<close>.\<close>

definition num_of_float :: "pyfloat \<Rightarrow> num_arg" where
  "num_of_float f = (case f of Fin x \<Rightarrow> NumFin (repr_rat x) | _ \<Rightarrow> NumNonFinite)"

lemma num_of_float_back: "wf_float (Fin x) \<Longrightarrow> num_of_float (Fin x) = NumFin d \<Longrightarrow> mk_float d = Fin x"
  using mk_float_repr[of x] by (simp add: num_of_float_def)

section \<open>Decimal digits\<close>

text \<open>\<open>str(n)\<close> of a natural number and \<open>"{:.0f}"\<close> of a float (half-even rounding).\<close>

fun nat_text :: "nat \<Rightarrow> string" where
  "nat_text n = (if n < 10 then [char_of (48 + n)] else nat_text (n div 10) @ [char_of (48 + n mod 10)])"

declare nat_text.simps [simp del]

definition int_text :: "int \<Rightarrow> string" where
  "int_text n = (if n < 0 then ''-'' @ nat_text (nat (- n)) else nat_text (nat n))"

definition float_text0 :: "pyfloat \<Rightarrow> string" where
  "float_text0 f = (case f of Fin x \<Rightarrow> int_text (round_half_even x) | PInf \<Rightarrow> ''inf'' | NInf \<Rightarrow> ''-inf'' | NaN \<Rightarrow> ''nan'')"

section \<open>SQLite tables\<close>

definition upd_where :: "('r \<Rightarrow> bool) \<Rightarrow> ('r \<Rightarrow> 'r) \<Rightarrow> 'r list \<Rightarrow> 'r list" where
  "upd_where P f t = map (\<lambda>r. if P r then f r else r) t"

definition rowcount :: "('r \<Rightarrow> bool) \<Rightarrow> 'r list \<Rightarrow> nat" where
  "rowcount P t = length (filter P t)"

definition select_key :: "('r \<Rightarrow> 'k) \<Rightarrow> 'k \<Rightarrow> 'r list \<Rightarrow> 'r option" where
  "select_key key k t = List.find (\<lambda>r. key r = k) t"

text \<open>\<open>LIMIT n\<close>: a negative limit means no limit.\<close>

definition sql_limit :: "int \<Rightarrow> 'r list \<Rightarrow> 'r list" where
  "sql_limit n t = (if n < 0 then t else take (nat n) t)"

text \<open>A NaN bound to a \<open>REAL\<close> column is stored as \<open>NULL\<close>.\<close>

definition sql_real :: "pyfloat \<Rightarrow> pyfloat option" where
  "sql_real x = (if x = NaN then None else Some x)"

lemma map_key_upd_where [tbl]:
  "(\<And>r. P r \<Longrightarrow> key (f r) = key r) \<Longrightarrow> map key (upd_where P f t) = map key t"
  by (simp add: upd_where_def)

lemma select_key_None [tbl]: "select_key key k t = None \<longleftrightarrow> k \<notin> key ` set t"
  by (auto simp: select_key_def find_None_iff)

lemma select_key_Some_mem: "select_key key k t = Some r \<Longrightarrow> r \<in> set t \<and> key r = k"
  by (auto simp: select_key_def find_Some_iff)

lemma select_key_Nil [simp]: "select_key key k [] = None"
  by (simp add: select_key_def)

lemma select_key_Cons:
  "select_key key k (r # t) = (if key r = k then Some r else select_key key k t)"
  by (simp add: select_key_def)

lemma select_key_append:
  "select_key key k (t @ u) = (case select_key key k t of None \<Rightarrow> select_key key k u | Some r \<Rightarrow> Some r)"
  by (induction t) (auto simp: select_key_Cons)

lemma select_key_distinct:
  "distinct (map key t) \<Longrightarrow> r \<in> set t \<Longrightarrow> select_key key (key r) t = Some r"
  by (induction t) (auto simp: select_key_Cons)

lemma select_key_upd_where [tbl]:
  assumes "\<And>r. P r \<Longrightarrow> key (f r) = key r"
  shows "select_key key k (upd_where P f t) =
     map_option (\<lambda>r. if P r then f r else r) (select_key key k t)"
  using assms by (induction t) (auto simp: upd_where_def select_key_Cons)

lemma rowcount_key:
  assumes "distinct (map key t)"
  shows "rowcount (\<lambda>r. key r = k \<and> Q r) t =
     (case select_key key k t of None \<Rightarrow> 0 | Some r \<Rightarrow> if Q r then 1 else 0)"
  using assms
proof (induction t)
  case (Cons r t)
  have none: "select_key key k t = None" if "key r = k"
    using Cons.prems that by (auto simp: tbl)
  show ?case
    using Cons none by (auto simp: rowcount_def select_key_Cons filter_empty_conv)
qed (simp add: rowcount_def)

lemma find_snoc:
  "List.find P (t @ [r]) = (case List.find P t of None \<Rightarrow> if P r then Some r else None | Some y \<Rightarrow> Some y)"
  by (induction t) auto

lemma set_sql_limit: "set (sql_limit n t) \<subseteq> set t"
  by (auto simp: sql_limit_def dest: in_set_takeD)

lemma distinct_sql_limit: "distinct (map key t) \<Longrightarrow> distinct (map key (sql_limit n t))"
  by (simp add: sql_limit_def take_map[symmetric])

end
