(* ===== verification/Intent_Lifecycle.thy ===== *)
theory Intent_Lifecycle
  imports Py_Prelude
begin

text \<open>
  services/execution/intent\_lifecycle.py: the status vocabulary of the live intent queue and of the
  execution store, their transition tables, and the two validators that restrict who may write
  which status (the reconciler and the submit owner). A status argument of type \<open>Any\<close> is a
  \<open>string option\<close>; an \<open>IntentLifecycleViolation\<close> carries the offending statuses.
\<close>

section \<open>Definitions\<close>

definition live_queue_terminal_statuses :: "string list" where
  "live_queue_terminal_statuses =
     [''filled'', ''canceled'', ''cancelled'', ''rejected'', ''error'', ''expired'']"

definition reconciler_targets :: "string list" where
  "reconciler_targets = [''submitted'', ''filled'', ''canceled'', ''rejected'', ''error'']"

definition reconciler_sources :: "string list" where
  "reconciler_sources = [''submitted'', ''submit_unknown'']"

definition submit_owner_targets :: "string list" where
  "submit_owner_targets =
     [''queued'', ''submitting'', ''submitted'', ''rejected'', ''submit_unknown'', ''expired'']"

definition submit_owner_sources :: "string list" where
  "submit_owner_sources = [''queued'', ''submitting'']"

text \<open>The dictionaries; \<open>.get(current, set())\<close> is the lookup with the empty default.\<close>

definition live_queue_status_transitions :: "(string \<times> string list) list" where
  "live_queue_status_transitions =
     [(''queued'', [''queued'', ''submitting'', ''submitted'', ''rejected'', ''held'',
                    ''submit_unknown'', ''expired'']),
      (''submitting'', [''submitted'', ''rejected'', ''submit_unknown'', ''expired'']),
      (''submitted'', [''submitted'', ''filled'', ''canceled'', ''cancelled'', ''rejected'',
                       ''error'', ''held'']),
      (''filled'', []), (''canceled'', []), (''cancelled'', []), (''rejected'', []),
      (''error'', []), (''expired'', []),
      (''submit_unknown'', [''submitted'', ''rejected'', ''error'']),
      (''held'', [''queued'', ''rejected''])]"

definition execution_store_status_transitions :: "(string \<times> string list) list" where
  "execution_store_status_transitions =
     [(''pending'', [''submitted'', ''canceled'', ''error'']),
      (''submitted'', [''filled'', ''canceled'', ''error'', ''partially_filled'']),
      (''partially_filled'', [''filled'', ''canceled'', ''error'']),
      (''filled'', []), (''canceled'', []), (''error'', [])]"

definition get_set :: "(string \<times> string list) list \<Rightarrow> string \<Rightarrow> string list" where
  "get_set d k = (case map_of d k of None \<Rightarrow> [] | Some v \<Rightarrow> v)"

definition normalize_live_queue_status :: "string option \<Rightarrow> string" where
  "normalize_live_queue_status status = lower (strip (opt_str_or status ''''))"

definition live_queue_transition_allowed :: "string option \<Rightarrow> string option \<Rightarrow> bool" where
  "live_queue_transition_allowed current_status next_status =
     (let current = normalize_live_queue_status current_status;
          nxt = normalize_live_queue_status next_status
      in if current = nxt then True
         else nxt \<in> set (get_set live_queue_status_transitions current))"

definition normalize_execution_store_status :: "string option \<Rightarrow> string" where
  "normalize_execution_store_status status = lower (strip (opt_str_or status ''''))"

definition execution_store_transition_allowed :: "string option \<Rightarrow> string option \<Rightarrow> bool" where
  "execution_store_transition_allowed current_status next_status =
     (let current = normalize_execution_store_status current_status;
          nxt = normalize_execution_store_status next_status
      in if current = nxt then True
         else nxt \<in> set (get_set execution_store_status_transitions current))"

datatype lifecycle_violation =
    UnsupportedReconcilerTarget string
  | UnsupportedSubmitOwnerTarget string
  | TerminalImmutable string
  | InvalidSubmitUnknownTarget string
  | InvalidSubmittedTarget string
  | InvalidSource string string

definition validate_reconciler_live_queue_transition ::
    "string option \<Rightarrow> string option \<Rightarrow> lifecycle_violation + string" where
  "validate_reconciler_live_queue_transition current_status next_status =
     (let current = normalize_live_queue_status current_status;
          nxt = normalize_live_queue_status next_status
      in if nxt \<notin> set reconciler_targets then Inl (UnsupportedReconcilerTarget nxt)
         else if current \<in> set live_queue_terminal_statuses then Inl (TerminalImmutable current)
         else if current = ''submit_unknown'' \<and> nxt \<notin> {''submitted'', ''error''}
           then Inl (InvalidSubmitUnknownTarget nxt)
         else if current = ''submitted'' \<and> nxt = ''submitted'' then Inr nxt
         else if current = ''submitted'' \<and> nxt \<notin> {''filled'', ''canceled'', ''rejected'', ''error''}
           then Inl (InvalidSubmittedTarget nxt)
         else if current \<notin> set reconciler_sources then Inl (InvalidSource current nxt)
         else Inr nxt)"

definition validate_submit_owner_live_queue_transition ::
    "string option \<Rightarrow> string option \<Rightarrow> lifecycle_violation + string" where
  "validate_submit_owner_live_queue_transition current_status next_status =
     (let current = normalize_live_queue_status current_status;
          nxt = normalize_live_queue_status next_status
      in if nxt \<notin> set submit_owner_targets then Inl (UnsupportedSubmitOwnerTarget nxt)
         else if current \<in> set live_queue_terminal_statuses then Inl (TerminalImmutable current)
         else if current \<notin> set submit_owner_sources then Inl (InvalidSource current nxt)
         else Inr nxt)"

section \<open>Normalisation\<close>

abbreviation norm_status :: "string \<Rightarrow> string" where
  "norm_status s \<equiv> normalize_live_queue_status (Some s)"

lemma normalize_idem [simp, py_str]:
  "norm_status (normalize_live_queue_status v) = normalize_live_queue_status v"
proof -
  have "lower (strip (lower (strip s))) = lower (strip s)" for s
    by (simp add: strip_lower)
  then show ?thesis
    by (cases v) (auto simp: normalize_live_queue_status_def opt_str_or_def str_or_def)
qed

text \<open>The literals of the vocabulary are their own normal forms.\<close>

lemma norm_status_literals [simp]:
  "norm_status ''queued'' = ''queued''" "norm_status ''submitting'' = ''submitting''"
  "norm_status ''submitted'' = ''submitted''" "norm_status ''held'' = ''held''"
  "norm_status ''submit_unknown'' = ''submit_unknown''" "norm_status ''filled'' = ''filled''"
  "norm_status ''canceled'' = ''canceled''" "norm_status ''cancelled'' = ''cancelled''"
  "norm_status ''rejected'' = ''rejected''" "norm_status ''error'' = ''error''"
  "norm_status ''expired'' = ''expired''"
  by code_simp+

lemma normalize_None [simp]: "normalize_live_queue_status None = ''''"
  by (simp add: normalize_live_queue_status_def opt_str_or_def lower_def)

lemmas lifecycle_tables =
  live_queue_terminal_statuses_def reconciler_targets_def reconciler_sources_def
  submit_owner_targets_def submit_owner_sources_def

lemmas transition_tables = live_queue_status_transitions_def get_set_def

lemma transitions_subset_vocabulary:
  "nxt \<in> set (get_set live_queue_status_transitions cur) \<Longrightarrow> norm_status nxt = nxt"
  by (auto simp: transition_tables split: if_splits)

section \<open>The step relation of the lifecycle\<close>

text \<open>One accepted write on normalised statuses: the table's edges and the idempotent rewrite of a
  live status. Terminal statuses have no successor.\<close>

inductive lifecycle_step :: "string \<Rightarrow> string \<Rightarrow> bool" where
  same: "cur \<notin> set live_queue_terminal_statuses \<Longrightarrow> lifecycle_step cur cur"
| edge: "nxt \<in> set (get_set live_queue_status_transitions cur) \<Longrightarrow> lifecycle_step cur nxt"

inductive_simps lifecycle_step_simps: "lifecycle_step cur nxt"

lemma terminal_no_edges:
  "cur \<in> set live_queue_terminal_statuses \<Longrightarrow> get_set live_queue_status_transitions cur = []"
  by (auto simp: live_queue_terminal_statuses_def transition_tables)

lemma lifecycle_step_iff:
  "lifecycle_step (normalize_live_queue_status c) (normalize_live_queue_status n) \<longleftrightarrow>
     normalize_live_queue_status c \<notin> set live_queue_terminal_statuses \<and>
     live_queue_transition_allowed c n"
  by (auto simp: lifecycle_step_simps live_queue_transition_allowed_def Let_def
      dest: terminal_no_edges)

lemma lifecycle_step_not_terminal: "lifecycle_step c n \<Longrightarrow> c \<notin> set live_queue_terminal_statuses"
  by (auto simp: lifecycle_step_simps dest: terminal_no_edges)

lemma terminal_absorbing:
  assumes "lifecycle_step\<^sup>*\<^sup>* c n" "c \<in> set live_queue_terminal_statuses"
  shows "n = c"
  using assms by (induction rule: converse_rtranclp_induct) (auto dest: lifecycle_step_not_terminal)

text \<open>The vocabulary: every status the queue code itself writes.\<close>

definition live_queue_vocabulary :: "string list" where
  "live_queue_vocabulary = map fst live_queue_status_transitions"

lemma edge_in_vocabulary:
  "nxt \<in> set (get_set live_queue_status_transitions cur) \<Longrightarrow> nxt \<in> set live_queue_vocabulary"
  by (auto simp: transition_tables live_queue_vocabulary_def split: if_splits)

lemma rejectable_or_terminal:
  "s \<in> set live_queue_vocabulary \<Longrightarrow>
     ''rejected'' \<in> set (get_set live_queue_status_transitions s) \<or> s \<in> set live_queue_terminal_statuses"
  by (auto simp: live_queue_vocabulary_def transition_tables lifecycle_tables)

section \<open>The contract of a store of intents\<close>

text \<open>A queue that keeps intents through its transactions and moves their statuses along the lifecycle
  only. Its clients may rely on the whole history being a lifecycle path and on terminal statuses
  being final.\<close>

locale lifecycle_store =
  fixes step :: "'q \<Rightarrow> 'q \<Rightarrow> bool"
    and inv :: "'q \<Rightarrow> bool"
    and status :: "string \<Rightarrow> 'q \<Rightarrow> string option"
  assumes inv_step: "inv q \<Longrightarrow> step q q' \<Longrightarrow> inv q'"
    and status_step: "inv q \<Longrightarrow> step q q' \<Longrightarrow> status i q = Some s \<Longrightarrow>
      \<exists>s'. status i q' = Some s' \<and> lifecycle_step\<^sup>*\<^sup>* s s'"
begin

lemma run_status:
  assumes "step\<^sup>*\<^sup>* q q'" "inv q" "status i q = Some s"
  shows "\<exists>s'. status i q' = Some s' \<and> lifecycle_step\<^sup>*\<^sup>* s s'"
proof -
  have "inv q' \<and> (\<exists>s'. status i q' = Some s' \<and> lifecycle_step\<^sup>*\<^sup>* s s')"
    using assms
  proof (induction rule: rtranclp_induct)
    case (step y z)
    then obtain s' where "status i y = Some s'" "lifecycle_step\<^sup>*\<^sup>* s s'" "inv y" by blast
    with status_step[of y z i s'] inv_step[of y z] step.hyps show ?case
      by (meson rtranclp_trans)
  qed blast
  then show ?thesis by blast
qed

lemma terminal_final:
  assumes "step\<^sup>*\<^sup>* q q'" "inv q" "status i q = Some s" "s \<in> set live_queue_terminal_statuses"
  shows "status i q' = Some s"
  using run_status[OF assms(1-3)] terminal_absorbing[OF _ assms(4)] by blast

end

section \<open>Properties\<close>

text \<open>The reconciler's validator accepts exactly the writes of the reconciler contract: from
  \<open>submitted\<close> to \<open>submitted\<close>, \<open>filled\<close>, \<open>canceled\<close>, \<open>rejected\<close> or \<open>error\<close>, and from \<open>submit_unknown\<close> to
  \<open>submitted\<close> or \<open>error\<close> (an ambiguous submit is confirmed or disposed of, never rejected). What it
  returns is the normalised target, a step of the lifecycle.\<close>

theorem reconciler_validator_exact:
  "validate_reconciler_live_queue_transition c n = Inr r \<longleftrightarrow>
     r = normalize_live_queue_status n \<and>
     ((normalize_live_queue_status c = ''submitted'' \<and>
         r \<in> {''submitted'', ''filled'', ''canceled'', ''rejected'', ''error''}) \<or>
      (normalize_live_queue_status c = ''submit_unknown'' \<and> r \<in> {''submitted'', ''error''}))"
  by (auto simp: validate_reconciler_live_queue_transition_def Let_def lifecycle_tables)

lemma reconciler_validator_step:
  assumes "validate_reconciler_live_queue_transition c n = Inr r"
  shows "lifecycle_step (normalize_live_queue_status c) r"
proof -
  have "r = normalize_live_queue_status n \<and> r \<in> set (get_set live_queue_status_transitions (normalize_live_queue_status c))"
    using assms
    by (auto simp: validate_reconciler_live_queue_transition_def Let_def lifecycle_tables transition_tables
        split: if_splits)
  then show ?thesis by (blast intro: lifecycle_step.edge)
qed

text \<open>The submit owner's validator never lets a terminal status, a held intent or an intent owned
  by the reconciler (\<open>submitted\<close>, \<open>submit_unknown\<close>) be rewritten; every write it accepts is a step of
  the lifecycle with the single exception of \<open>submitting\<close> back to \<open>queued\<close>, which the transition
  table does not contain.\<close>

theorem submit_owner_validator_steps:
  assumes "validate_submit_owner_live_queue_transition c n = Inr r"
  shows "normalize_live_queue_status c \<in> {''queued'', ''submitting''} \<and>
    (lifecycle_step (normalize_live_queue_status c) r \<or>
     (normalize_live_queue_status c = ''submitting'' \<and> r = ''queued''))"
  using assms
  by (auto simp: validate_submit_owner_live_queue_transition_def Let_def lifecycle_tables
      transition_tables lifecycle_step_simps split: if_splits)

theorem submit_owner_validator_steps_witness:
  "normalize_live_queue_status (Some '' Submitting '') \<in> {''queued'', ''submitting''} \<and>
    (lifecycle_step (normalize_live_queue_status (Some '' Submitting '')) ''submitted'' \<or>
     (normalize_live_queue_status (Some '' Submitting '') = ''submitting'' \<and> ''submitted'' = ''queued''))"
proof -
  have "validate_submit_owner_live_queue_transition (Some '' Submitting '') (Some ''SUBMITTED'') =
      Inr ''submitted''"
    by code_simp
  from submit_owner_validator_steps[OF this] show ?thesis by simp
qed

text \<open>No status is a dead end: from every non-terminal status of the vocabulary some sequence of
  accepted writes reaches a terminal status, and a terminal status is never left.\<close>

theorem lifecycle_terminal_reachable:
  assumes "s \<in> set live_queue_vocabulary"
  shows "\<exists>t \<in> set live_queue_terminal_statuses. lifecycle_step\<^sup>*\<^sup>* s t \<and>
           (\<forall>u. lifecycle_step\<^sup>*\<^sup>* t u \<longrightarrow> u = t)"
proof -
  have T: "''rejected'' \<in> set live_queue_terminal_statuses" by (simp add: lifecycle_tables)
  have "lifecycle_step\<^sup>*\<^sup>* s ''rejected'' \<or> s \<in> set live_queue_terminal_statuses"
    using rejectable_or_terminal[OF assms] by (blast intro: r_into_rtranclp lifecycle_step.edge)
  then obtain t where "t \<in> set live_queue_terminal_statuses" "lifecycle_step\<^sup>*\<^sup>* s t"
    using T by blast
  then show ?thesis using terminal_absorbing by blast
qed

theorem lifecycle_terminal_reachable_witness:
  "\<exists>t \<in> set live_queue_terminal_statuses. lifecycle_step\<^sup>*\<^sup>* ''submit_unknown'' t \<and>
           (\<forall>u. lifecycle_step\<^sup>*\<^sup>* t u \<longrightarrow> u = t)"
  by (rule lifecycle_terminal_reachable) (simp add: live_queue_vocabulary_def live_queue_status_transitions_def)

text \<open>The execution store's table: a terminal order status has no outgoing edge either, and
  \<open>partially_filled\<close> never goes back to \<open>submitted\<close>.\<close>

lemma execution_store_terminal_no_edges:
  "s \<in> {''filled'', ''canceled'', ''error''} \<Longrightarrow> get_set execution_store_status_transitions s = []"
  by (auto simp: execution_store_status_transitions_def get_set_def)

lemma execution_store_terminal_absorbing:
  assumes "execution_store_transition_allowed (Some c) (Some n)"
    and "normalize_execution_store_status (Some c) \<in> {''filled'', ''canceled'', ''error''}"
  shows "normalize_execution_store_status (Some n) = normalize_execution_store_status (Some c)"
proof -
  let ?c = "normalize_execution_store_status (Some c)"
  have "get_set execution_store_status_transitions ?c = []"
    using assms(2) by (rule execution_store_terminal_no_edges)
  then show ?thesis
    using assms(1) by (simp add: execution_store_transition_allowed_def Let_def split: if_splits)
qed

end
