(* ===== verification/Live_Intent_Queue.thy ===== *)
theory Live_Intent_Queue
  imports Intent_Lifecycle
begin

text \<open>
  storage/live\_intent\_queue\_sqlite.py: the live intent queue. The three tables are the state record
  \<open>live_queue\<close>: the intents (rowid order, primary key \<open>intent_id\<close>), the append-only audit log of status
  events, and the key/value consumer state that holds the daily risk counters. Every method of
  \<open>LiveIntentQueueSQLite\<close> is one definition; a method that runs under \<open>BEGIN IMMEDIATE\<close> is one atomic
  step, a rolled-back method returns the state unchanged. The clock (\<open>_now()\<close>) is an argument.
  JSON columns hold the JSON value itself (\<open>json.loads\<close> of \<open>json.dumps\<close>).
\<close>

section \<open>State\<close>

record live_intent =
  li_intent_id :: string
  li_created_ts :: string
  li_ts :: string
  li_source :: string
  li_strategy_id :: "string option"
  li_venue :: string
  li_symbol :: string
  li_side :: string
  li_order_type :: string
  li_qty :: pyfloat
  li_limit_price :: "pyfloat option"
  li_status :: string
  li_last_error :: "string option"
  li_client_order_id :: "string option"
  li_exchange_order_id :: "string option"
  li_meta :: "json option"
  li_updated_ts :: string

record live_event =
  le_event_id :: nat
  le_intent_id :: string
  le_event_ts :: string
  le_actor :: string
  le_action :: string
  le_pre_status :: "string option"
  le_post_status :: string
  le_reason :: "string option"
  le_last_error :: "string option"
  le_client_order_id :: "string option"
  le_exchange_order_id :: "string option"
  le_source :: "string option"
  le_meta :: "dict option"

text \<open>A \<open>TEXT\<close> cell of the consumer state seen through \<open>float()\<close>, \<open>Decimal()\<close> and \<open>json.loads\<close>: a number literal,
  the text of a NaN or infinity, the JSON text of a dictionary, or any other text.\<close>

datatype db_text = TxNum rat | TxNonFinite | TxJson dict | TxStr string

record live_queue =
  lq_intents :: "live_intent list"
  lq_events :: "live_event list"
  lq_state :: "(string \<times> db_text) list"
  lq_event_seq :: nat

definition empty_live_queue :: live_queue where
  "empty_live_queue = \<lparr>lq_intents = [], lq_events = [], lq_state = [], lq_event_seq = 0\<rparr>"

text \<open>The dictionary \<open>upsert_intent\<close> receives; \<open>qty\<close> and \<open>limit_price\<close> are untrusted numbers.\<close>

record live_intent_row =
  lr_intent_id :: string
  lr_created_ts :: "string option"
  lr_ts :: string
  lr_source :: string
  lr_strategy_id :: "string option"
  lr_venue :: string
  lr_symbol :: string
  lr_side :: string
  lr_order_type :: string
  lr_qty :: "num_arg option"
  lr_limit_price :: "num_arg option"
  lr_status :: string
  lr_last_error :: "string option"
  lr_client_order_id :: "string option"
  lr_exchange_order_id :: "string option"
  lr_meta :: "json option"

section \<open>Operations\<close>

text \<open>\<open>_finite_real_input\<close>: \<open>float(decimal_value(v))\<close>. The conversion of a finite decimal to \<open>float\<close>
  may overflow to an infinity, which this function does not test.\<close>

definition live_finite_real_input :: "string \<Rightarrow> bool \<Rightarrow> num_arg option \<Rightarrow> exn + pyfloat option" where
  "live_finite_real_input name required v =
     (case v of
        None \<Rightarrow> if required then Inl (ValueError (''invalid_live_intent_numeric:'' @ name @ '':missing''))
                else Inr None
      | Some a \<Rightarrow>
          (case decimal_value name a of
             Inl (ValueError m) \<Rightarrow> Inl (ValueError (''invalid_live_intent_numeric:'' @ name @ '':'' @ m))
           | Inl e \<Rightarrow> Inl e
           | Inr d \<Rightarrow> Inr (Some (mk_float d))))"

definition insert_intent_event ::
    "string \<Rightarrow> string \<Rightarrow> string \<Rightarrow> string option \<Rightarrow> string \<Rightarrow> string option \<Rightarrow> string option \<Rightarrow>
     string option \<Rightarrow> string option \<Rightarrow> string option \<Rightarrow> string \<Rightarrow> dict option \<Rightarrow> live_queue \<Rightarrow> live_queue"
where
  "insert_intent_event iid actor action pre post reason lasterr coid eoid src event_ts md q =
     (let n = Suc (lq_event_seq q);
          ev = \<lparr>le_event_id = n, le_intent_id = iid, le_event_ts = event_ts,
                le_actor = str_or actor ''system'',
                le_action = str_or action ''status_transition'',
                le_pre_status = pre, le_post_status = post, le_reason = reason,
                le_last_error = lasterr, le_client_order_id = coid,
                le_exchange_order_id = eoid, le_source = src, le_meta = md\<rparr>
      in q\<lparr>lq_events := lq_events q @ [ev], lq_event_seq := n\<rparr>)"

definition live_intent_of_row :: "string \<Rightarrow> pyfloat \<Rightarrow> pyfloat option \<Rightarrow> live_intent_row \<Rightarrow> live_intent" where
  "live_intent_of_row now qty lp r =
     \<lparr>li_intent_id = lr_intent_id r, li_created_ts = opt_str_or (lr_created_ts r) now,
      li_ts = lr_ts r, li_source = lr_source r, li_strategy_id = lr_strategy_id r,
      li_venue = lr_venue r, li_symbol = lr_symbol r, li_side = lr_side r,
      li_order_type = lr_order_type r, li_qty = qty, li_limit_price = lp,
      li_status = lr_status r, li_last_error = lr_last_error r,
      li_client_order_id = lr_client_order_id r, li_exchange_order_id = lr_exchange_order_id r,
      li_meta = lr_meta r, li_updated_ts = now\<rparr>"

text \<open>\<open>INSERT OR IGNORE\<close>: the row is inserted, and its event logged, only when the primary key is new
  and the \<open>NOT NULL\<close> column \<open>qty\<close> has a value.\<close>

definition live_upsert_intent :: "string \<Rightarrow> live_intent_row \<Rightarrow> live_queue \<Rightarrow> exn + live_queue" where
  "live_upsert_intent now r q =
     (case live_finite_real_input ''qty'' True (lr_qty r) of
        Inl e \<Rightarrow> Inl e
      | Inr qty \<Rightarrow>
     (case live_finite_real_input ''limit_price'' False (lr_limit_price r) of
        Inl e \<Rightarrow> Inl e
      | Inr lp \<Rightarrow>
     (case (select_key li_intent_id (lr_intent_id r) (lq_intents q), qty) of
        (None, Some qt) \<Rightarrow>
          Inr (insert_intent_event (lr_intent_id r) (str_or (lr_source r) ''system'') ''insert''
                 None (lr_status r) (Some ''upsert_intent_insert'') (lr_last_error r)
                 (lr_client_order_id r) (lr_exchange_order_id r) (Some (lr_source r)) now
                 (Some [(''insert_only'', JBool True), (''venue'', JStr (lr_venue r)),
                        (''symbol'', JStr (lr_symbol r)), (''strategy_id'', jopt (lr_strategy_id r))])
                 (q\<lparr>lq_intents := lq_intents q @ [live_intent_of_row now qt lp r]\<rparr>))
      | _ \<Rightarrow> Inr q)))"

text \<open>\<open>ORDER BY created_ts\<close> (ascending ties in rowid order, descending ties reversed) and \<open>LIMIT\<close>.\<close>

definition live_list_intents :: "int \<Rightarrow> string option \<Rightarrow> live_queue \<Rightarrow> live_intent list" where
  "live_list_intents limit status q =
     sql_limit limit (rev (sort_key li_created_ts
       (if truthy status then filter (\<lambda>r. Some (li_status r) = status) (lq_intents q) else lq_intents q)))"

definition live_list_intent_events :: "string option \<Rightarrow> int \<Rightarrow> live_queue \<Rightarrow> live_event list" where
  "live_list_intent_events iid limit q =
     sql_limit limit (sort_key le_event_id
       (if truthy iid then filter (\<lambda>e. Some (le_intent_id e) = iid) (lq_events q) else lq_events q))"

definition live_next_queued :: "int \<Rightarrow> live_queue \<Rightarrow> live_intent list" where
  "live_next_queued limit q =
     sql_limit limit (sort_key li_created_ts (filter (\<lambda>r. li_status r = ''queued'') (lq_intents q)))"

text \<open>One iteration of the claim loop.\<close>

definition live_claim_one ::
    "string \<Rightarrow> int \<Rightarrow> live_intent \<Rightarrow> live_intent list \<times> live_queue \<Rightarrow> live_intent list \<times> live_queue" where
  "live_claim_one now limit r s =
     (let (claimed, q) = s;
          coid = opt_str_or (li_client_order_id r) (''live_intent_'' @ li_intent_id r);
          P = (\<lambda>x. li_intent_id x = li_intent_id r \<and> li_status x = ''queued'')
      in if rowcount P (lq_intents q) \<noteq> 1 then s
         else (claimed @ [r\<lparr>li_status := ''submitting'', li_client_order_id := Some coid, li_updated_ts := now\<rparr>],
               insert_intent_event (li_intent_id r) ''intent_consumer'' ''claim_next_queued''
                 (Some ''queued'') ''submitting'' (Some ''claim_next_queued'') (li_last_error r) (Some coid)
                 (li_exchange_order_id r) (Some (li_source r)) now (Some [(''limit'', JInt limit)])
                 (q\<lparr>lq_intents := upd_where P
                    (\<lambda>x. x\<lparr>li_status := ''submitting'', li_client_order_id := Some coid, li_updated_ts := now\<rparr>)
                    (lq_intents q)\<rparr>)))"

definition live_claim_next_queued :: "string \<Rightarrow> int \<Rightarrow> live_queue \<Rightarrow> live_intent list \<times> live_queue" where
  "live_claim_next_queued now limit q =
     fold (live_claim_one now limit) (live_next_queued limit q) ([], q)"

text \<open>The \<open>WHERE\<close> clause of \<open>update_status\<close>, written as the statement has it.\<close>

definition live_status_guard :: "string \<Rightarrow> string \<Rightarrow> bool" where
  "live_status_guard st nxt =
     (st \<notin> {''filled'', ''rejected'', ''canceled'', ''cancelled'', ''error'', ''expired''} \<and>
      (st = nxt
       \<or> (st = ''queued'' \<and> nxt \<in> {''submitting'', ''submitted'', ''rejected'', ''held'', ''submit_unknown'', ''expired''})
       \<or> (st = ''submitting'' \<and> nxt \<in> {''submitted'', ''rejected'', ''submit_unknown'', ''expired''})
       \<or> (st = ''submitted'' \<and> nxt \<in> {''filled'', ''canceled'', ''cancelled'', ''rejected'', ''error'', ''held''})
       \<or> (st = ''submit_unknown'' \<and> nxt \<in> {''submitted'', ''rejected'', ''error''})
       \<or> (st = ''held'' \<and> nxt \<in> {''queued'', ''rejected''})))"

record status_write =
  sw_last_error :: "string option"
  sw_client_order_id :: "string option"
  sw_exchange_order_id :: "string option"
  sw_event_actor :: "string option"
  sw_event_action :: "string option"
  sw_event_reason :: "string option"
  sw_event_meta :: "dict option"

definition live_update_status ::
    "string \<Rightarrow> string \<Rightarrow> string option \<Rightarrow> status_write \<Rightarrow> live_queue \<Rightarrow> bool \<times> live_queue" where
  "live_update_status now iid status w q =
     (let nxt = normalize_live_queue_status status;
          current = select_key li_intent_id iid (lq_intents q);
          P = (\<lambda>x. li_intent_id x = iid \<and> live_status_guard (li_status x) nxt)
      in if rowcount P (lq_intents q) \<noteq> 1 then (False, q)
         else (True,
           insert_intent_event iid (opt_str_or (sw_event_actor w) ''queue_status_writer'')
             (opt_str_or (sw_event_action w) ''update_status'') (map_option li_status current) nxt
             (Some (opt_str_or (sw_event_reason w) ''update_status'')) (sw_last_error w)
             (opt_or (sw_client_order_id w)
                (case current of None \<Rightarrow> None | Some c \<Rightarrow> opt_or (li_client_order_id c) None))
             (opt_or (sw_exchange_order_id w)
                (case current of None \<Rightarrow> None | Some c \<Rightarrow> opt_or (li_exchange_order_id c) None))
             (case current of None \<Rightarrow> None | Some c \<Rightarrow> opt_or (Some (li_source c)) None)
             now (sw_event_meta w)
             (q\<lparr>lq_intents := upd_where P
                (\<lambda>x. x\<lparr>li_status := nxt, li_last_error := sw_last_error w,
                       li_client_order_id := coalesce (sw_client_order_id w) (li_client_order_id x),
                       li_exchange_order_id := coalesce (sw_exchange_order_id w) (li_exchange_order_id x),
                       li_updated_ts := now\<rparr>)
                (lq_intents q)\<rparr>)))"

section \<open>Consumer state and the daily risk counters\<close>

definition live_get_state :: "string \<Rightarrow> live_queue \<Rightarrow> db_text option" where
  "live_get_state k q = map_of (lq_state q) k"

text \<open>\<open>INSERT OR REPLACE\<close> deletes the old row and appends the new one.\<close>

definition put_state :: "string \<Rightarrow> db_text \<Rightarrow> live_queue \<Rightarrow> live_queue" where
  "put_state k v q = q\<lparr>lq_state := filter (\<lambda>p. fst p \<noteq> k) (lq_state q) @ [(k, v)]\<rparr>"

definition live_set_state :: "string \<Rightarrow> db_text \<Rightarrow> live_queue \<Rightarrow> exn + live_queue" where
  "live_set_state k v q =
     (if k \<in> {''risk:day'', ''risk:trades'', ''risk:notional''}
      then Inl (ValueError (''reserved live risk state key: '' @ k))
      else Inr (put_state k v q))"

definition reset_risk_state_for_day :: "string \<Rightarrow> live_queue \<Rightarrow> live_queue" where
  "reset_risk_state_for_day day q =
     put_state ''risk:notional'' (TxNum 0) (put_state ''risk:trades'' (TxNum 0)
       (put_state ''risk:day'' (TxStr day) q))"

text \<open>\<open>int(float(text))\<close> and \<open>Decimal(text)\<close> of a cell, \<open>None\<close> when the conversion raises.\<close>

definition text_int :: "db_text \<Rightarrow> int option" where
  "text_int t = (case t of TxNum r \<Rightarrow> (case mk_float r of Fin x \<Rightarrow> Some (trunc_rat x) | _ \<Rightarrow> None) | _ \<Rightarrow> None)"

definition text_num :: "db_text \<Rightarrow> num_arg" where
  "text_num t = (case t of TxNum r \<Rightarrow> NumFin r | TxNonFinite \<Rightarrow> NumNonFinite | TxJson _ \<Rightarrow> NumInvalid | TxStr _ \<Rightarrow> NumInvalid)"

definition cell_or_zero :: "string \<Rightarrow> live_queue \<Rightarrow> db_text" where
  "cell_or_zero k q = (case live_get_state k q of None \<Rightarrow> TxNum 0 | Some t \<Rightarrow> t)"

definition atomic_risk_claim ::
    "int \<Rightarrow> num_arg \<Rightarrow> num_arg \<Rightarrow> live_queue \<Rightarrow> (bool \<times> string option) \<times> live_queue" where
  "atomic_risk_claim max_trades max_notional notional_est q =
     (case (mk_float (of_int max_trades), decimal_value ''max_notional'' max_notional) of
        (Fin mt, Inr mn) \<Rightarrow>
          (case decimal_value ''notional_est'' notional_est of
             Inl _ \<Rightarrow> ((False, Some ''risk:invalid_notional_est''), q)
           | Inr est \<Rightarrow>
             if est < 0 then ((False, Some ''risk:invalid_notional_est''), q)
             else
               (case (text_int (cell_or_zero ''risk:trades'' q),
                      decimal_value ''risk_notional'' (text_num (cell_or_zero ''risk:notional'' q))) of
                  (Some trades, Inr notional) \<Rightarrow>
                    if trades < 0 \<or> notional < 0 then ((False, Some ''risk:corrupt_state''), q)
                    else if 0 < mt \<and> trunc_rat mt \<le> trades then ((False, Some ''risk:max_trades_per_day''), q)
                    else if 0 < mn \<and> mn < rnd28 (notional + est)
                      then ((False, Some ''risk:max_daily_notional_quote''), q)
                    else ((True, None),
                          put_state ''risk:notional'' (TxNum (rnd28 (notional + est)))
                            (put_state ''risk:trades'' (TxNum (of_int (trades + 1))) q))
                | _ \<Rightarrow> ((False, Some ''risk:corrupt_state''), q)))
      | _ \<Rightarrow> ((False, Some ''risk:invalid_cap''), q))"

section \<open>The status guard is the transition table\<close>

lemma guard_lifecycle_vocabulary:
  assumes "st \<in> set live_queue_vocabulary"
  shows "live_status_guard st nxt \<longleftrightarrow> lifecycle_step st nxt"
proof -
  have "st \<in> {''queued'', ''submitting'', ''submitted'', ''filled'', ''canceled'', ''cancelled'',
      ''rejected'', ''error'', ''expired'', ''submit_unknown'', ''held''}"
    using assms by (simp add: live_queue_vocabulary_def live_queue_status_transitions_def)
  then show ?thesis
    by (elim insertE emptyE; hypsubst)
      (auto simp: live_status_guard_def lifecycle_step_simps lifecycle_tables transition_tables)
qed

lemma guard_lifecycle_other:
  assumes "st \<notin> set live_queue_vocabulary"
  shows "live_status_guard st nxt \<longleftrightarrow> lifecycle_step st nxt"
proof -
  have none: "get_set live_queue_status_transitions st = []"
    using assms by (auto simp: get_set_def live_queue_vocabulary_def map_of_eq_None_iff split: option.splits
        dest: map_of_SomeD intro: rev_image_eqI)
  have n: "st \<notin> {''queued'', ''submitting'', ''submitted'', ''filled'', ''canceled'', ''cancelled'',
      ''rejected'', ''error'', ''expired'', ''submit_unknown'', ''held''}"
    using assms by (simp add: live_queue_vocabulary_def live_queue_status_transitions_def)
  then have "st \<notin> set live_queue_terminal_statuses" by (simp add: lifecycle_tables)
  then have "lifecycle_step st nxt \<longleftrightarrow> st = nxt" by (auto simp: lifecycle_step_simps none)
  moreover have "live_status_guard st nxt \<longleftrightarrow> st = nxt" using n by (simp add: live_status_guard_def)
  ultimately show ?thesis by simp
qed

lemma guard_step: "live_status_guard st nxt \<Longrightarrow> lifecycle_step st nxt"
  using guard_lifecycle_vocabulary guard_lifecycle_other by blast

text \<open>The \<open>WHERE\<close> clause of \<open>update_status\<close> lets a write through exactly when the lifecycle does:
  the hand-written SQL and the Python table \<open>LIVE_QUEUE_STATUS_TRANSITIONS\<close> agree on every pair of
  stored and requested status, and no terminal status can be overwritten.\<close>

theorem live_status_guard_lifecycle:
  "live_status_guard st nxt \<longleftrightarrow> lifecycle_step st nxt"
  using guard_lifecycle_vocabulary guard_lifecycle_other by blast

lemma guard_claim: "lifecycle_step ''queued'' ''submitting''"
  by (rule lifecycle_step.edge) (simp add: transition_tables)

section \<open>The audit-log invariant\<close>

text \<open>The events of one intent form a chain from \<open>None\<close> to its present status.\<close>

fun audit_ok :: "string option \<Rightarrow> live_event list \<Rightarrow> string option \<Rightarrow> bool" where
  "audit_ok cur [] st = (cur = st)"
| "audit_ok cur (e # es) st = (le_pre_status e = cur \<and> audit_ok (Some (le_post_status e)) es st)"

definition events_of :: "string \<Rightarrow> live_queue \<Rightarrow> live_event list" where
  "events_of i q = filter (\<lambda>e. le_intent_id e = i) (lq_events q)"

definition status_of :: "string \<Rightarrow> live_queue \<Rightarrow> string option" where
  "status_of i q = map_option li_status (select_key li_intent_id i (lq_intents q))"

fun event_legal :: "string option \<Rightarrow> string \<Rightarrow> bool" where
  "event_legal None post = True"
| "event_legal (Some pre) post = lifecycle_step pre post"

definition live_queue_inv :: "live_queue \<Rightarrow> bool" where
  "live_queue_inv q \<longleftrightarrow>
     distinct (map li_intent_id (lq_intents q)) \<and>
     (\<forall>i. audit_ok None (events_of i q) (status_of i q)) \<and>
     (\<forall>e \<in> set (lq_events q). event_legal (le_pre_status e) (le_post_status e)) \<and>
     map le_event_id (lq_events q) = [1..<Suc (lq_event_seq q)]"

lemma audit_ok_snoc:
  "audit_ok c (es @ [e]) st \<longleftrightarrow> audit_ok c es (le_pre_status e) \<and> st = Some (le_post_status e)"
  by (induction es arbitrary: c) auto

lemma insert_intent_event_simps [simp]:
  "lq_intents (insert_intent_event i a b pre post rs le co eo src ts md q) = lq_intents q"
  "lq_state (insert_intent_event i a b pre post rs le co eo src ts md q) = lq_state q"
  "status_of j (insert_intent_event i a b pre post rs le co eo src ts md q) = status_of j q"
  by (simp_all add: insert_intent_event_def Let_def status_of_def)

lemma live_queue_inv_empty: "live_queue_inv empty_live_queue"
  by (simp add: live_queue_inv_def empty_live_queue_def events_of_def status_of_def)

text \<open>The one way an operation changes the queue: it rewrites the intents so that only the status of \<open>i\<close>
  changes, and logs the change.\<close>

lemma inv_status_change:
  assumes inv: "live_queue_inv q"
    and ids: "distinct (map li_intent_id ins)"
    and others: "\<And>j. j \<noteq> i \<Longrightarrow> select_key li_intent_id j ins = select_key li_intent_id j (lq_intents q)"
    and post: "map_option li_status (select_key li_intent_id i ins) = Some post"
    and pre: "status_of i q = pre" and legal: "event_legal pre post"
  shows "live_queue_inv (insert_intent_event i a b pre post rs le co eo src ts md (q\<lparr>lq_intents := ins\<rparr>))"
proof -
  let ?q = "insert_intent_event i a b pre post rs le co eo src ts md (q\<lparr>lq_intents := ins\<rparr>)"
  obtain ev where ev: "lq_events ?q = lq_events q @ [ev]" "le_intent_id ev = i" "le_pre_status ev = pre"
    "le_post_status ev = post" "le_event_id ev = Suc (lq_event_seq q)" "lq_event_seq ?q = Suc (lq_event_seq q)"
    by (simp add: insert_intent_event_def Let_def)
  have pre_ok: "audit_ok None (events_of i q) pre" using inv pre by (auto simp: live_queue_inv_def)
  have "audit_ok None (events_of j ?q) (status_of j ?q)" for j
  proof (cases "j = i")
    case True
    then show ?thesis
      using pre_ok post ev by (simp add: events_of_def audit_ok_snoc status_of_def)
  next
    case False
    then show ?thesis
      using inv others[OF False] ev by (simp add: live_queue_inv_def events_of_def status_of_def)
  qed
  moreover have "\<forall>e \<in> set (lq_events ?q). event_legal (le_pre_status e) (le_post_status e)"
    using inv legal by (simp add: ev live_queue_inv_def)
  moreover have "map le_event_id (lq_events ?q) = [1..<Suc (lq_event_seq ?q)]"
    using inv by (simp add: ev live_queue_inv_def)
  ultimately show ?thesis using ids by (simp add: live_queue_inv_def)
qed

lemma rowcount_one:
  assumes "distinct (map key t)" "rowcount (\<lambda>r. key r = k \<and> Q r) t = 1"
  shows "\<exists>r. select_key key k t = Some r \<and> Q r"
  using assms by (auto simp: rowcount_key split: option.splits if_splits)

lemma inv_upd_where:
  assumes inv: "live_queue_inv q"
    and rc: "rowcount (\<lambda>x. li_intent_id x = i \<and> Q x) (lq_intents q) = 1"
    and step: "\<And>x. Q x \<Longrightarrow> lifecycle_step (li_status x) post"
    and f: "\<And>x. li_intent_id (f x) = li_intent_id x" "\<And>x. li_status (f x) = post"
  shows "live_queue_inv (insert_intent_event i a b (status_of i q) post rs le co eo src ts md
     (q\<lparr>lq_intents := upd_where (\<lambda>x. li_intent_id x = i \<and> Q x) f (lq_intents q)\<rparr>))"
proof (rule inv_status_change[OF inv])
  have d: "distinct (map li_intent_id (lq_intents q))" using inv by (simp add: live_queue_inv_def)
  obtain x where x: "select_key li_intent_id i (lq_intents q) = Some x" "Q x"
    using rowcount_one[OF d rc] by blast
  have xi: "li_intent_id x = i" using select_key_Some_mem[OF x(1)] by simp
  show "distinct (map li_intent_id (upd_where (\<lambda>x. li_intent_id x = i \<and> Q x) f (lq_intents q)))"
    using d by (simp add: map_key_upd_where f)
  show "select_key li_intent_id j (upd_where (\<lambda>x. li_intent_id x = i \<and> Q x) f (lq_intents q)) =
      select_key li_intent_id j (lq_intents q)" if "j \<noteq> i" for j
    using that by (cases "select_key li_intent_id j (lq_intents q)")
      (auto simp: select_key_upd_where f dest: select_key_Some_mem)
  show "map_option li_status (select_key li_intent_id i
      (upd_where (\<lambda>x. li_intent_id x = i \<and> Q x) f (lq_intents q))) = Some post"
    using x xi by (simp add: select_key_upd_where f)
  show "event_legal (status_of i q) post"
    using x step by (simp add: status_of_def)
qed simp

subsection \<open>Every operation keeps it\<close>

lemma live_upsert_intent_inv:
  assumes "live_queue_inv q" "live_upsert_intent now r q = Inr q'"
  shows "live_queue_inv q'"
proof (cases "select_key li_intent_id (lr_intent_id r) (lq_intents q)")
  case (Some x)
  then show ?thesis using assms by (auto simp: live_upsert_intent_def split: sum.splits)
next
  case None
  have d: "distinct (map li_intent_id (lq_intents q))" using assms by (simp add: live_queue_inv_def)
  have st: "status_of (lr_intent_id r) q = None" using None by (simp add: status_of_def)
  have new: "lr_intent_id r \<notin> li_intent_id ` set (lq_intents q)" using None by (simp add: select_key_None)
  have row: "li_intent_id (live_intent_of_row now qt lp r) = lr_intent_id r"
    "li_status (live_intent_of_row now qt lp r) = lr_status r" for qt lp
    by (simp_all add: live_intent_of_row_def)
  have "live_queue_inv (insert_intent_event (lr_intent_id r) a b None (lr_status r) rs le co eo src ts md
      (q\<lparr>lq_intents := lq_intents q @ [live_intent_of_row now qt lp r]\<rparr>))" for a b rs le co eo src ts md qt lp
    by (rule inv_status_change[OF assms(1)])
      (use d new st None in \<open>auto simp: row select_key_append select_key_Cons split: option.splits\<close>)
  then show ?thesis using assms None
    by (auto simp: live_upsert_intent_def split: sum.splits option.splits)
qed

lemma live_update_status_inv:
  assumes inv: "live_queue_inv q"
  shows "live_queue_inv (snd (live_update_status now i st w q))"
proof (cases "fst (live_update_status now i st w q)")
  case False
  then show ?thesis using inv by (auto simp: live_update_status_def Let_def split: if_splits)
next
  case True
  then have rc: "rowcount (\<lambda>x. li_intent_id x = i \<and> live_status_guard (li_status x) (normalize_live_queue_status st))
      (lq_intents q) = 1"
    by (auto simp: live_update_status_def Let_def split: if_splits)
  show ?thesis
    unfolding live_update_status_def Let_def using rc
    by (simp add: inv_upd_where[OF inv rc guard_step, unfolded status_of_def])
qed

definition claimed_row :: "string \<Rightarrow> live_intent \<Rightarrow> live_intent" where
  "claimed_row now r = r\<lparr>li_status := ''submitting'',
     li_client_order_id := Some (opt_str_or (li_client_order_id r) (''live_intent_'' @ li_intent_id r)),
     li_updated_ts := now\<rparr>"

lemma claimed_row_simps [simp]:
  "li_intent_id (claimed_row now r) = li_intent_id r" "li_status (claimed_row now r) = ''submitting''"
  by (simp_all add: claimed_row_def)

lemma live_claim_one_step:
  assumes inv: "live_queue_inv q"
    and r: "select_key li_intent_id (li_intent_id r) (lq_intents q) = Some r" "li_status r = ''queued''"
  shows "\<exists>q'. live_claim_one now limit r (c, q) = (c @ [claimed_row now r], q') \<and> live_queue_inv q' \<and>
    (\<forall>j. select_key li_intent_id j (lq_intents q') =
       (if j = li_intent_id r then Some (claimed_row now r) else select_key li_intent_id j (lq_intents q))) \<and>
    lq_state q' = lq_state q"
proof -
  let ?P = "\<lambda>x. li_intent_id x = li_intent_id r \<and> li_status x = ''queued''"
  define co where "co = opt_str_or (li_client_order_id r) (''live_intent_'' @ li_intent_id r)"
  have cr: "claimed_row now r = r\<lparr>li_status := ''submitting'', li_client_order_id := Some co, li_updated_ts := now\<rparr>"
    by (simp only: claimed_row_def co_def)
  let ?f = "\<lambda>x. x\<lparr>li_status := ''submitting'', li_client_order_id := Some co, li_updated_ts := now\<rparr>"
  have d: "distinct (map li_intent_id (lq_intents q))" using inv by (simp add: live_queue_inv_def)
  have rc: "rowcount ?P (lq_intents q) = 1" using r by (simp add: rowcount_key[OF d])
  have st: "status_of (li_intent_id r) q = Some ''queued''" using r by (simp add: status_of_def)
  have inv': "live_queue_inv (insert_intent_event (li_intent_id r) a b (Some ''queued'') ''submitting'' rs le co' eo src ts md
      (q\<lparr>lq_intents := upd_where ?P ?f (lq_intents q)\<rparr>))" for a b rs le co' eo src ts md
    unfolding st[symmetric] by (rule inv_upd_where[OF inv rc]) (auto simp: guard_claim)
  have sel: "select_key li_intent_id j (upd_where ?P ?f (lq_intents q)) =
      (if j = li_intent_id r then Some (claimed_row now r) else select_key li_intent_id j (lq_intents q))" for j
    using r by (cases "select_key li_intent_id j (lq_intents q)")
      (auto simp: select_key_upd_where cr dest: select_key_Some_mem)
  show ?thesis
    unfolding live_claim_one_def Let_def prod.case co_def[symmetric] cr[symmetric] using rc
    by (simp add: inv' sel)
qed

lemma live_claim_fold:
  assumes "live_queue_inv q" "distinct (map li_intent_id rs)"
    and "\<And>r. r \<in> set rs \<Longrightarrow> select_key li_intent_id (li_intent_id r) (lq_intents q) = Some r \<and> li_status r = ''queued''"
  shows "\<exists>q'. fold (live_claim_one now limit) rs (c, q) = (c @ map (claimed_row now) rs, q') \<and> live_queue_inv q' \<and>
    (\<forall>j. select_key li_intent_id j (lq_intents q') =
       (case select_key li_intent_id j rs of
          Some r \<Rightarrow> Some (claimed_row now r) | None \<Rightarrow> select_key li_intent_id j (lq_intents q))) \<and>
    lq_state q' = lq_state q"
  using assms
proof (induction rs arbitrary: c q)
  case (Cons r rs)
  obtain q1 where q1: "live_claim_one now limit r (c, q) = (c @ [claimed_row now r], q1)" "live_queue_inv q1"
    "\<And>j. select_key li_intent_id j (lq_intents q1) =
       (if j = li_intent_id r then Some (claimed_row now r) else select_key li_intent_id j (lq_intents q))"
    "lq_state q1 = lq_state q"
    using live_claim_one_step[OF Cons.prems(1), of r now limit c] Cons.prems(3)[of r] by auto
  have rs: "select_key li_intent_id (li_intent_id x) (lq_intents q1) = Some x \<and> li_status x = ''queued''" if "x \<in> set rs" for x
    using that Cons.prems(2,3) by (auto simp: q1(3) rev_image_eqI)
  have none: "select_key li_intent_id (li_intent_id r) rs = None"
    using Cons.prems(2) by (simp add: select_key_None)
  obtain q2 where "fold (live_claim_one now limit) rs (c @ [claimed_row now r], q1) =
      (c @ [claimed_row now r] @ map (claimed_row now) rs, q2)" "live_queue_inv q2"
    "\<And>j. select_key li_intent_id j (lq_intents q2) =
       (case select_key li_intent_id j rs of
          Some r \<Rightarrow> Some (claimed_row now r) | None \<Rightarrow> select_key li_intent_id j (lq_intents q1))"
    "lq_state q2 = lq_state q1"
    using Cons.IH[OF q1(2) _ rs, of "c @ [claimed_row now r]"] Cons.prems(2) by auto
  then show ?case
    by (auto simp: q1 select_key_Cons none split: option.splits)
qed (auto)

lemma next_queued_rows:
  assumes "live_queue_inv q" "r \<in> set (live_next_queued limit q)"
  shows "select_key li_intent_id (li_intent_id r) (lq_intents q) = Some r \<and> li_status r = ''queued''"
proof -
  have "r \<in> set (sort_key li_created_ts (filter (\<lambda>r. li_status r = ''queued'') (lq_intents q)))"
    using assms(2) unfolding live_next_queued_def by (rule subsetD[OF set_sql_limit])
  then have "r \<in> set (lq_intents q)" "li_status r = ''queued''" by auto
  then show ?thesis
    using assms(1) by (auto simp: live_queue_inv_def intro: select_key_distinct)
qed

lemma next_queued_distinct:
  assumes "live_queue_inv q"
  shows "distinct (map li_intent_id (live_next_queued limit q))"
proof -
  have "distinct (map li_intent_id (sort_key li_created_ts (filter (\<lambda>r. li_status r = ''queued'') (lq_intents q))))"
    using assms by (auto simp: live_queue_inv_def distinct_map intro: inj_on_subset)
  then show ?thesis unfolding live_next_queued_def by (rule distinct_sql_limit)
qed

lemma live_claim_next_queued_spec:
  assumes "live_queue_inv q"
  shows "\<exists>q'. live_claim_next_queued now limit q = (map (claimed_row now) (live_next_queued limit q), q') \<and>
    live_queue_inv q' \<and>
    (\<forall>j. select_key li_intent_id j (lq_intents q') =
       (case select_key li_intent_id j (live_next_queued limit q) of
          Some r \<Rightarrow> Some (claimed_row now r) | None \<Rightarrow> select_key li_intent_id j (lq_intents q))) \<and>
    lq_state q' = lq_state q"
  unfolding live_claim_next_queued_def
  using live_claim_fold[OF assms next_queued_distinct[OF assms] next_queued_rows[OF assms], where c = "[]" and now = now]
  by simp

lemma fst_live_claim_next_queued:
  assumes "live_queue_inv q"
  shows "fst (live_claim_next_queued now limit q) = map (claimed_row now) (live_next_queued limit q)"
  using live_claim_next_queued_spec[OF assms, of now limit] by (elim exE conjE) simp

section \<open>Reachable queues\<close>

text \<open>The queue is shared by several processes; a step is any one of its transactions, with any
  arguments.\<close>

inductive live_queue_step :: "live_queue \<Rightarrow> live_queue \<Rightarrow> bool" where
  upsert: "live_upsert_intent now r q = Inr q' \<Longrightarrow> live_queue_step q q'"
| claim: "live_queue_step q (snd (live_claim_next_queued now limit q))"
| update: "live_queue_step q (snd (live_update_status now i st w q))"
| state: "live_set_state k v q = Inr q' \<Longrightarrow> live_queue_step q q'"
| reset: "live_queue_step q (reset_risk_state_for_day day q)"
| risk: "live_queue_step q (snd (atomic_risk_claim mt mn est q))"

lemma put_state_frame [simp]:
  "lq_intents (put_state k v q) = lq_intents q" "lq_events (put_state k v q) = lq_events q"
  "lq_event_seq (put_state k v q) = lq_event_seq q" "status_of i (put_state k v q) = status_of i q"
  "events_of i (put_state k v q) = events_of i q"
  by (simp_all add: put_state_def status_of_def events_of_def)

lemma put_state_inv [simp]: "live_queue_inv (put_state k v q) = live_queue_inv q"
  by (simp add: live_queue_inv_def)

definition risk_trades :: "live_queue \<Rightarrow> int option" where
  "risk_trades q = text_int (cell_or_zero ''risk:trades'' q)"

definition risk_notional :: "live_queue \<Rightarrow> num_arg" where
  "risk_notional q = text_num (cell_or_zero ''risk:notional'' q)"

text \<open>What an accepted claim means, and that a refused one changes nothing.\<close>

lemma atomic_risk_claim_accepted:
  assumes "atomic_risk_claim mt mn est q = ((True, rs), q')"
  obtains t n c e m where "risk_trades q = Some t" "risk_notional q = NumFin n" "est = NumFin e" "mn = NumFin c"
    "mk_float (of_int mt) = Fin m" "0 \<le> t" "0 \<le> n" "0 \<le> e" "0 < m \<longrightarrow> t < trunc_rat m" "0 < c \<longrightarrow> rnd28 (n + e) \<le> c"
    "q' = put_state ''risk:notional'' (TxNum (rnd28 (n + e))) (put_state ''risk:trades'' (TxNum (of_int (t + 1))) q)"
  using assms unfolding atomic_risk_claim_def risk_trades_def risk_notional_def
  by (auto split: pyfloat.splits sum.splits option.splits if_splits)

lemma atomic_risk_claim_refused:
  "atomic_risk_claim mt mn est q = ((False, rs), q') \<Longrightarrow> q' = q"
  unfolding atomic_risk_claim_def by (auto split: pyfloat.splits sum.splits option.splits if_splits)

lemma atomic_risk_claim_state:
  "snd (atomic_risk_claim mt mn est q) = q \<or>
   (\<exists>v w. snd (atomic_risk_claim mt mn est q) = put_state ''risk:notional'' v (put_state ''risk:trades'' w q))"
proof -
  obtain ok rs q' where c: "atomic_risk_claim mt mn est q = ((ok, rs), q')" by (metis prod.exhaust)
  show ?thesis
  proof (cases ok)
    case True
    then have "atomic_risk_claim mt mn est q = ((True, rs), q')" using c by simp
    then have "\<exists>v w. q' = put_state ''risk:notional'' v (put_state ''risk:trades'' w q)"
      by (rule atomic_risk_claim_accepted) blast
    then show ?thesis using c by simp
  qed (use c in \<open>auto dest: atomic_risk_claim_refused\<close>)
qed

lemma live_queue_step_inv: "live_queue_step q q' \<Longrightarrow> live_queue_inv q \<Longrightarrow> live_queue_inv q'"
proof (induction rule: live_queue_step.induct)
  case (upsert now r q q')
  then show ?case by (blast intro: live_upsert_intent_inv)
next
  case (claim q now limit)
  then show ?case using live_claim_next_queued_spec[of q now limit] by auto
next
  case (update q now i st w)
  then show ?case by (rule live_update_status_inv)
next
  case (state k v q q')
  then show ?case by (auto simp: live_set_state_def split: if_splits)
next
  case (reset q day)
  then show ?case by (simp add: reset_risk_state_for_day_def)
next
  case (risk q mt mn est)
  then show ?case using atomic_risk_claim_state[of mt mn est q] by auto
qed

subsection \<open>The live queue is a lifecycle store\<close>

lemma status_of_claim:
  assumes "live_queue_inv q" "status_of i q = Some s"
  shows "\<exists>s'. status_of i (snd (live_claim_next_queued now limit q)) = Some s' \<and> lifecycle_step\<^sup>*\<^sup>* s s'"
proof -
  obtain q' where q': "live_claim_next_queued now limit q = (map (claimed_row now) (live_next_queued limit q), q')"
    and sel: "\<forall>j. select_key li_intent_id j (lq_intents q') =
       (case select_key li_intent_id j (live_next_queued limit q) of
          Some r \<Rightarrow> Some (claimed_row now r) | None \<Rightarrow> select_key li_intent_id j (lq_intents q))"
    using live_claim_next_queued_spec[OF assms(1), of now limit] by blast
  show ?thesis
  proof (cases "select_key li_intent_id i (live_next_queued limit q)")
    case None
    then have "status_of i (snd (live_claim_next_queued now limit q)) = Some s"
      using assms(2) q' spec[OF sel, of i] by (simp add: status_of_def)
    then show ?thesis by simp
  next
    case (Some r)
    then have "r \<in> set (live_next_queued limit q)" "li_intent_id r = i" by (auto dest: select_key_Some_mem)
    then have "s = ''queued''" using next_queued_rows[OF assms(1)] assms(2) by (auto simp: status_of_def)
    then show ?thesis using Some q' spec[OF sel, of i] guard_claim by (simp add: status_of_def r_into_rtranclp)
  qed
qed

lemma status_of_update:
  assumes inv: "live_queue_inv q" and st: "status_of i q = Some s"
  shows "\<exists>s'. status_of i (snd (live_update_status now j nst w q)) = Some s' \<and> lifecycle_step\<^sup>*\<^sup>* s s'"
proof -
  let ?n = "normalize_live_queue_status nst"
  obtain r where r: "select_key li_intent_id i (lq_intents q) = Some r" "s = li_status r" "li_intent_id r = i"
    using st by (auto simp: status_of_def dest: select_key_Some_mem)
  have "\<exists>s'. status_of i (snd (live_update_status now j nst w q)) = Some s' \<and>
      (s' = s \<or> (live_status_guard s ?n \<and> s' = ?n))"
    using r by (auto simp: live_update_status_def Let_def status_of_def select_key_upd_where)
  then show ?thesis by (auto dest: guard_step)
qed

lemma status_of_upsert:
  assumes "live_upsert_intent now r q = Inr q'" "status_of i q = Some s"
  shows "status_of i q' = Some s"
  using assms
  by (auto simp: live_upsert_intent_def status_of_def select_key_append split: sum.splits option.splits)

interpretation live_lifecycle: lifecycle_store live_queue_step live_queue_inv status_of
proof (unfold_locales, goal_cases)
  case (1 q q')
  then show ?case by (blast intro: live_queue_step_inv)
next
  case (2 q q' i s)
  from 2(2,1,3) show ?case
  proof (induction rule: live_queue_step.induct)
    case (upsert now r q q')
    then show ?case using status_of_upsert by blast
  next
    case (claim q now limit)
    then show ?case by (intro status_of_claim)
  next
    case (update q now j st w)
    then show ?case by (intro status_of_update)
  next
    case (state k v q q')
    then show ?case by (auto simp: live_set_state_def split: if_splits)
  next
    case (reset q day)
    then show ?case by (simp add: reset_risk_state_for_day_def)
  next
    case (risk q mt mn est)
    then show ?case using atomic_risk_claim_state[of mt mn est q] by auto
  qed
qed

inductive live_queue_reachable :: "live_queue \<Rightarrow> bool" where
  init: "live_queue_reachable empty_live_queue"
| step: "live_queue_reachable q \<Longrightarrow> live_queue_step q q' \<Longrightarrow> live_queue_reachable q'"

lemma live_queue_reachable_inv: "live_queue_reachable q \<Longrightarrow> live_queue_inv q"
  by (induction rule: live_queue_reachable.induct)
    (auto intro: live_queue_inv_empty live_queue_step_inv)

text \<open>The statuses an audit chain runs through.\<close>

lemma audit_chain_path:
  assumes "audit_ok (Some s) es (Some t)" "\<forall>e \<in> set es. event_legal (le_pre_status e) (le_post_status e)"
  shows "lifecycle_step\<^sup>*\<^sup>* s t"
  using assms
proof (induction es arbitrary: s)
  case (Cons e es)
  then have "lifecycle_step s (le_post_status e)" by (cases "le_pre_status e") auto
  moreover have "lifecycle_step\<^sup>*\<^sup>* (le_post_status e) t" using Cons by auto
  ultimately show ?case by (rule converse_rtranclp_into_rtranclp)
qed simp

text \<open>C26. In every reachable queue, whatever the interleaving of inserts, claims and status writes, the
  audit log explains every row: the events of an intent start with its insertion, each one starts
  where the previous one ended, the last one ends in the stored status, and the whole history is a
  path of the lifecycle. Event ids are the consecutive numbers from 1.\<close>

theorem live_audit_log_complete:
  assumes "live_queue_reachable q" and "select_key li_intent_id i (lq_intents q) = Some r"
  shows "\<exists>e es. events_of i q = e # es \<and> le_pre_status e = None \<and>
      audit_ok (Some (le_post_status e)) es (Some (li_status r)) \<and>
      lifecycle_step\<^sup>*\<^sup>* (le_post_status e) (li_status r) \<and>
      map le_event_id (lq_events q) = [1..<Suc (lq_event_seq q)]"
proof -
  have inv: "live_queue_inv q" using assms(1) by (rule live_queue_reachable_inv)
  then have ok: "audit_ok None (events_of i q) (Some (li_status r))"
    using assms(2) by (auto simp: live_queue_inv_def status_of_def dest: spec[of _ i])
  have legal: "\<forall>e \<in> set (events_of i q). event_legal (le_pre_status e) (le_post_status e)"
    using inv by (auto simp: live_queue_inv_def events_of_def)
  obtain e es where e: "events_of i q = e # es" using ok by (cases "events_of i q") auto
  then have "lifecycle_step\<^sup>*\<^sup>* (le_post_status e) (li_status r)"
    using ok legal by (auto intro: audit_chain_path)
  then show ?thesis using ok e inv by (auto simp: live_queue_inv_def)
qed

definition sample_row :: live_intent_row where
  "sample_row = \<lparr>lr_intent_id = ''i1'', lr_created_ts = Some ''2026-01-01T00:00:00'', lr_ts = ''t'',
     lr_source = ''strategy'', lr_strategy_id = None, lr_venue = ''coinbase'', lr_symbol = ''BTC/USD'',
     lr_side = ''buy'', lr_order_type = ''market'', lr_qty = Some (NumFin 1), lr_limit_price = None,
     lr_status = ''queued'', lr_last_error = None, lr_client_order_id = None,
     lr_exchange_order_id = None, lr_meta = None\<rparr>"

definition sample_queue_queued :: live_queue where
  "sample_queue_queued =
     (case live_upsert_intent ''n1'' sample_row empty_live_queue of Inl _ \<Rightarrow> empty_live_queue | Inr q \<Rightarrow> q)"

definition sample_queue :: live_queue where
  "sample_queue = snd (live_claim_next_queued ''n2'' 20 sample_queue_queued)"

lemma sample_upsert: "live_upsert_intent ''n1'' sample_row empty_live_queue = Inr sample_queue_queued"
  by (simp add: sample_queue_queued_def live_upsert_intent_def live_finite_real_input_def sample_row_def
      empty_live_queue_def decimal_value_def)

lemma sample_queued_reachable: "live_queue_reachable sample_queue_queued"
  by (rule live_queue_reachable.step[OF live_queue_reachable.init live_queue_step.upsert[OF sample_upsert]])

lemma sample_queue_reachable: "live_queue_reachable sample_queue"
  unfolding sample_queue_def by (rule live_queue_reachable.step[OF sample_queued_reachable live_queue_step.claim])

lemma sample_queued_intents:
  "lq_intents sample_queue_queued = [live_intent_of_row ''n1'' (Fin 1) None sample_row]"
  by (simp add: sample_queue_queued_def live_upsert_intent_def live_finite_real_input_def sample_row_def
      empty_live_queue_def decimal_value_def mk_float_of_int[of 1, simplified])

lemma sample_next_queued:
  "live_next_queued 20 sample_queue_queued = [live_intent_of_row ''n1'' (Fin 1) None sample_row]"
  unfolding live_next_queued_def sample_queued_intents
  by (simp add: sql_limit_def live_intent_of_row_def sample_row_def)

lemma sample_queue_select:
  "select_key li_intent_id ''i1'' (lq_intents sample_queue) =
     Some (claimed_row ''n2'' (live_intent_of_row ''n1'' (Fin 1) None sample_row))"
  using live_claim_next_queued_spec[OF live_queue_reachable_inv[OF sample_queued_reachable], of "''n2''" 20]
  by (auto simp: sample_queue_def sample_next_queued select_key_Cons live_intent_of_row_def sample_row_def)

theorem live_audit_log_complete_witness:
  "\<exists>r e es. select_key li_intent_id ''i1'' (lq_intents sample_queue) = Some r \<and> li_status r = ''submitting'' \<and>
      events_of ''i1'' sample_queue = e # es \<and> le_pre_status e = None \<and>
      audit_ok (Some (le_post_status e)) es (Some (li_status r))"
proof -
  have "li_status (claimed_row ''n2'' (live_intent_of_row ''n1'' (Fin 1) None sample_row)) = ''submitting''" by simp
  with live_audit_log_complete[OF sample_queue_reachable sample_queue_select] sample_queue_select
  show ?thesis by blast
qed

text \<open>C25. A terminal status is final across all processes: once a reachable live queue stores an intent
  as filled, canceled, cancelled, rejected, error or expired, no sequence of inserts, claims, status
  writes or risk claims changes its status or removes it.\<close>

theorem live_terminal_final:
  assumes "live_queue_reachable q" "live_queue_step\<^sup>*\<^sup>* q q'"
    and "status_of i q = Some s" "s \<in> set live_queue_terminal_statuses"
  shows "status_of i q' = Some s"
  using live_lifecycle.terminal_final[OF assms(2) live_queue_reachable_inv[OF assms(1)] assms(3,4)] .

definition rejecting_write :: status_write where
  "rejecting_write = \<lparr>sw_last_error = Some ''risk'', sw_client_order_id = None, sw_exchange_order_id = None,
     sw_event_actor = None, sw_event_action = None, sw_event_reason = None, sw_event_meta = None\<rparr>"

theorem live_terminal_final_witness:
  "\<exists>q. status_of ''i1'' q = Some ''rejected'' \<and>
     status_of ''i1'' (snd (live_update_status ''n9'' ''i1'' (Some ''queued'') rejecting_write q)) = Some ''rejected''"
proof -
  define q where "q = snd (live_update_status ''n2'' ''i1'' (Some ''REJECTED '') rejecting_write sample_queue_queued)"
  have n: "norm_status ''REJECTED '' = ''rejected''" by code_simp
  have r: "live_queue_reachable q"
    unfolding q_def by (rule live_queue_reachable.step[OF sample_queued_reachable live_queue_step.update])
  have st: "status_of ''i1'' q = Some ''rejected''"
    by (simp add: q_def live_update_status_def Let_def n sample_queued_intents select_key_Cons rowcount_def
        live_intent_of_row_def sample_row_def live_status_guard_def status_of_def upd_where_def)
  have t: "''rejected'' \<in> set live_queue_terminal_statuses" by (simp add: lifecycle_tables)
  have step: "live_queue_step\<^sup>*\<^sup>* q (snd (live_update_status ''n9'' ''i1'' (Some ''queued'') rejecting_write q))"
    by (rule r_into_rtranclp[of live_queue_step]) (rule live_queue_step.update)
  from live_terminal_final[OF r step st t] st show ?thesis by (intro exI[of _ q] conjI)
qed

text \<open>A claim hands out each queued intent at most once: the claimed rows were queued and are
  returned as \<open>submitting\<close> with a client order id, the store agrees with what was returned, every other
  row is untouched, and no later claim, with any limit, returns one of them while it has not been
  put back to \<open>queued\<close>.\<close>

theorem claim_hands_out_once:
  assumes "live_queue_reachable q" "live_claim_next_queued now limit q = (claimed, q')"
  shows "(\<forall>r \<in> set claimed. li_status r = ''submitting'' \<and> li_client_order_id r \<noteq> None \<and>
            status_of (li_intent_id r) q = Some ''queued'' \<and>
            select_key li_intent_id (li_intent_id r) (lq_intents q') = Some r) \<and>
         (\<forall>j. j \<notin> li_intent_id ` set claimed \<longrightarrow>
            select_key li_intent_id j (lq_intents q') = select_key li_intent_id j (lq_intents q)) \<and>
         li_intent_id ` set (fst (live_claim_next_queued now' limit' q')) \<inter> li_intent_id ` set claimed = {}"
proof -
  have inv: "live_queue_inv q" using assms(1) by (rule live_queue_reachable_inv)
  let ?rs = "live_next_queued limit q"
  have c: "claimed = map (claimed_row now) ?rs" and inv': "live_queue_inv q'"
    and sel: "\<And>j. select_key li_intent_id j (lq_intents q') =
       (case select_key li_intent_id j ?rs of
          Some r \<Rightarrow> Some (claimed_row now r) | None \<Rightarrow> select_key li_intent_id j (lq_intents q))"
    using live_claim_next_queued_spec[OF inv, of now limit] assms(2) by auto
  have selr: "select_key li_intent_id (li_intent_id r) ?rs = Some r" if "r \<in> set ?rs" for r
    using that next_queued_distinct[OF inv] by (rule select_key_distinct[rotated])
  have ids: "li_intent_id ` set claimed = li_intent_id ` set ?rs" by (simp add: c image_image)
  have A: "li_status r = ''submitting'' \<and> li_client_order_id r \<noteq> None \<and>
      status_of (li_intent_id r) q = Some ''queued'' \<and>
      select_key li_intent_id (li_intent_id r) (lq_intents q') = Some r" if "r \<in> set claimed" for r
    using that next_queued_rows[OF inv] selr by (auto simp: c sel status_of_def claimed_row_def)
  have B: "select_key li_intent_id j (lq_intents q') = select_key li_intent_id j (lq_intents q)"
    if "j \<notin> li_intent_id ` set claimed" for j
    using that by (auto simp: sel ids split: option.splits dest: select_key_Some_mem)
  have C: "li_intent_id x \<notin> li_intent_id ` set claimed" if "x \<in> set (live_next_queued limit' q')" for x
  proof
    assume "li_intent_id x \<in> li_intent_id ` set claimed"
    then obtain r where r: "r \<in> set claimed" "li_intent_id r = li_intent_id x" by auto
    from next_queued_rows[OF inv' that] A[OF r(1)] r(2) show False by simp
  qed
  have eq: "li_intent_id ` set (fst (live_claim_next_queued now' limit' q')) = li_intent_id ` set (live_next_queued limit' q')"
    by (simp add: fst_live_claim_next_queued[OF inv'] image_image)
  have D: "li_intent_id ` set (fst (live_claim_next_queued now' limit' q')) \<inter> li_intent_id ` set claimed = {}"
  proof (rule equals0I)
    fix i assume "i \<in> li_intent_id ` set (fst (live_claim_next_queued now' limit' q')) \<inter> li_intent_id ` set claimed"
    then obtain x where "x \<in> set (live_next_queued limit' q')" "i = li_intent_id x" "i \<in> li_intent_id ` set claimed"
      unfolding eq by auto
    with C[of x] show False by simp
  qed
  show ?thesis
    by (rule conjI[OF ballI[OF A] conjI[OF allI[OF impI[OF B]] D]])
qed

theorem claim_hands_out_once_witness:
  "\<exists>claimed q'. live_claim_next_queued ''n2'' 20 sample_queue_queued = (claimed, q') \<and>
     map li_intent_id claimed = [''i1''] \<and>
     (\<forall>r \<in> set claimed. li_status r = ''submitting'') \<and>
     li_intent_id ` set (fst (live_claim_next_queued ''n3'' 20 q')) \<inter> li_intent_id ` set claimed = {}"
proof -
  obtain claimed q' where c: "live_claim_next_queued ''n2'' 20 sample_queue_queued = (claimed, q')"
    by (cases "live_claim_next_queued ''n2'' 20 sample_queue_queued") auto
  have ids: "map li_intent_id claimed = [''i1'']"
    using live_claim_next_queued_spec[OF live_queue_reachable_inv[OF sample_queued_reachable], of "''n2''" 20] c
    by (auto simp: sample_next_queued live_intent_of_row_def sample_row_def)
  note once = claim_hands_out_once[OF sample_queued_reachable c, of "''n3''" 20]
  show ?thesis
    by (intro exI[of _ claimed] exI[of _ q'] conjI)
      (use c ids once[THEN conjunct1] once[THEN conjunct2, THEN conjunct2] in simp_all)
qed

section \<open>The daily risk budget\<close>

lemma live_get_put_state [simp]:
  "live_get_state k (put_state k' v q) = (if k = k' then Some v else live_get_state k q)"
proof -
  have "map_of (filter (\<lambda>p. fst p \<noteq> k') xs @ [(k', v)]) k = (if k = k' then Some v else map_of xs k)" for xs
    by (induction xs) auto
  then show ?thesis by (simp add: live_get_state_def put_state_def)
qed

lemma cell_put_state [simp]:
  "cell_or_zero k (put_state k' v q) = (if k = k' then v else cell_or_zero k q)"
  by (simp add: cell_or_zero_def)

text \<open>Counters up to \<open>2 ^ 53\<close> survive the trip through \<open>float\<close>.\<close>

lemma text_int_of_int:
  assumes "0 \<le> n" "n \<le> 2 ^ 53"
  shows "text_int (TxNum (of_int n)) = Some n"
  using assms mk_float_of_int[of n] by (simp add: text_int_def trunc_rat_def)

text \<open>A day of claims against fixed caps: the number of accepted claims and the final queue.\<close>

fun risk_day :: "int \<Rightarrow> num_arg \<Rightarrow> num_arg list \<Rightarrow> live_queue \<Rightarrow> nat \<times> live_queue" where
  "risk_day mt mn [] q = (0, q)"
| "risk_day mt mn (e # es) q =
     (let ((ok, _), q1) = atomic_risk_claim mt mn e q; (k, q2) = risk_day mt mn es q1
      in ((if ok then Suc k else k), q2))"

definition within_budget :: "int \<Rightarrow> rat \<Rightarrow> int \<Rightarrow> live_queue \<Rightarrow> bool" where
  "within_budget mt c t q \<longleftrightarrow>
     0 \<le> t \<and> t \<le> mt \<and> risk_trades q = Some t \<and> (\<exists>n. risk_notional q = NumFin n \<and> 0 \<le> n \<and> n \<le> c)"

lemma risk_claim_within_budget:
  assumes mt: "0 < mt" "mt \<le> 2 ^ 53" and c: "0 < c" and b: "within_budget mt c t q"
    and claim: "atomic_risk_claim mt (NumFin c) e q = ((ok, rs), q')"
  shows "within_budget mt c (if ok then t + 1 else t) q'"
proof (cases ok)
  case False
  then show ?thesis using b claim by (auto dest: atomic_risk_claim_refused)
next
  case True
  have "atomic_risk_claim mt (NumFin c) e q = ((True, rs), q')" using claim True by simp
  then obtain t' n c' e' m where *: "risk_trades q = Some t'" "risk_notional q = NumFin n" "e = NumFin e'"
    "NumFin c = NumFin c'" "mk_float (of_int mt) = Fin m" "0 \<le> t'" "0 \<le> n" "0 \<le> e'"
    "0 < m \<longrightarrow> t' < trunc_rat m" "0 < c' \<longrightarrow> rnd28 (n + e') \<le> c'"
    "q' = put_state ''risk:notional'' (TxNum (rnd28 (n + e'))) (put_state ''risk:trades'' (TxNum (of_int (t' + 1))) q)"
    by (rule atomic_risk_claim_accepted)
  have "t' = t" using b * by (simp add: within_budget_def)
  have "m = of_int mt" using mk_float_of_int[of mt] mt *(5) by simp
  then have lt: "t + 1 \<le> mt" using * mt \<open>t' = t\<close> by (simp add: trunc_rat_def)
  have "0 \<le> t + 1" using b by (simp add: within_budget_def)
  moreover have "text_int (TxNum (of_int (t + 1))) = Some (t + 1)"
    using lt mt \<open>0 \<le> t + 1\<close> by (intro text_int_of_int) auto
  moreover have "0 \<le> rnd28 (n + e')" using * by (intro d28.nonneg) auto
  ultimately show ?thesis
    using True * lt c \<open>t' = t\<close>
    by (simp add: within_budget_def risk_trades_def risk_notional_def text_num_def)
qed

lemma risk_day_within_budget:
  assumes "0 < mt" "mt \<le> 2 ^ 53" "0 < c" "within_budget mt c t q" "risk_day mt (NumFin c) es q = (k, q')"
  shows "within_budget mt c (t + int k) q'"
  using assms(4,5)
proof (induction es arbitrary: t q k)
  case (Cons e es)
  obtain ok rs q1 where c1: "atomic_risk_claim mt (NumFin c) e q = ((ok, rs), q1)" by (metis prod.exhaust)
  obtain k2 where c2: "risk_day mt (NumFin c) es q1 = (k2, q')" and k: "k = (if ok then Suc k2 else k2)"
    using Cons.prems(2) c1 by (cases "risk_day mt (NumFin c) es q1") auto
  have "within_budget mt c ((if ok then t + 1 else t) + int k2) q'"
    using Cons.IH[OF risk_claim_within_budget[OF assms(1-3) Cons.prems(1) c1] c2] .
  then show ?case using k by (simp add: ac_simps split: if_splits)
qed simp

text \<open>The daily budget is a hard cap: after the reset at the start of a day, any sequence of claims
  with any notional estimates (negative, non-finite or malformed ones included) accepts at most
  \<open>max_trades\<close> of them, the stored counter is exactly the number accepted, and the stored notional
  never exceeds the cap.\<close>

theorem daily_risk_budget_never_exceeded:
  assumes "0 < mt" "mt \<le> 2 ^ 53" "0 < c"
    and "risk_day mt (NumFin c) es (reset_risk_state_for_day day q) = (k, q')"
  shows "int k \<le> mt \<and> risk_trades q' = Some (int k) \<and>
         (\<exists>n. risk_notional q' = NumFin n \<and> 0 \<le> n \<and> n \<le> c)"
proof -
  have "within_budget mt c 0 (reset_risk_state_for_day day q)"
    using assms(1,3) text_int_of_int[of 0]
    by (simp add: within_budget_def risk_trades_def risk_notional_def reset_risk_state_for_day_def text_num_def)
  from risk_day_within_budget[OF assms(1-3) this assms(4)] show ?thesis by (simp add: within_budget_def)
qed

theorem daily_risk_budget_never_exceeded_witness:
  "fst (risk_day 2 (NumFin 100) [NumFin 60, NumNonFinite, NumFin 70, NumFin (-1), NumFin 30, NumFin 1]
     (reset_risk_state_for_day ''2026-01-01'' empty_live_queue)) \<le> 2"
proof -
  obtain k q' where "risk_day 2 (NumFin 100) [NumFin 60, NumNonFinite, NumFin 70, NumFin (-1), NumFin 30, NumFin 1]
     (reset_risk_state_for_day ''2026-01-01'' empty_live_queue) = (k, q')"
    by (metis prod.exhaust)
  with daily_risk_budget_never_exceeded[of 2 100 "[NumFin 60, NumNonFinite, NumFin 70, NumFin (-1), NumFin 30, NumFin 1]"
      "''2026-01-01''" empty_live_queue k q']
  show ?thesis by auto
qed

text \<open>The reserved keys cannot be written through the generic setter.\<close>

lemma set_state_cannot_touch_risk_counters:
  assumes "live_set_state k v q = Inr q'"
  shows "risk_trades q' = risk_trades q \<and> risk_notional q' = risk_notional q \<and>
         live_get_state ''risk:day'' q' = live_get_state ''risk:day'' q"
  using assms by (auto simp: live_set_state_def risk_trades_def risk_notional_def split: if_splits)

text \<open>\<open>_finite_real_input\<close> lets an infinity through: a finite decimal text above the double range
  passes the \<open>is_finite\<close> test of \<open>decimal_value\<close> and becomes \<open>inf\<close>, so \<open>upsert_intent\<close> stores an intent with
  an infinite quantity.\<close>

theorem live_upsert_accepts_infinite_qty:
  "live_finite_real_input ''qty'' True (Some (NumFin (2 ^ 1024))) = Inr (Some PInf) \<and>
   (\<exists>q. live_upsert_intent now (sample_row\<lparr>lr_qty := Some (NumFin (2 ^ 1024))\<rparr>) empty_live_queue = Inr q \<and>
        map li_qty (lq_intents q) = [PInf])"
proof -
  have "mk_float (2 ^ 1024) = PInf"
    unfolding mk_float_def pow2_1024_exact Let_def by simp
  then show ?thesis
    by (simp add: live_finite_real_input_def decimal_value_def live_upsert_intent_def
        empty_live_queue_def sample_row_def live_intent_of_row_def del: power_numeral)
qed

end
