(* ===== verification/Paper_Intent_Queue.thy ===== *)
theory Paper_Intent_Queue
  imports Intent_Lifecycle
begin

text \<open>
  storage/intent\_queue\_sqlite.py: the paper intent queue. The state record \<open>paper_queue\<close> holds the table
  \<open>trade_intents\<close> (rowid order, primary key \<open>intent_id\<close>) and the key/value table \<open>consumer_state\<close>. Unlike the
  live queue, \<open>upsert_intent\<close> may rewrite an existing row; what it may rewrite depends on the stored status.
  \<open>float(row["qty"])\<close> is an argument (\<open>Inl\<close> when the conversion raises); the row has every key the
  method reads with brackets.
\<close>

section \<open>State\<close>

record paper_intent =
  pi_intent_id :: string
  pi_created_ts :: string
  pi_ts :: string
  pi_source :: string
  pi_strategy_id :: "string option"
  pi_action :: "string option"
  pi_venue :: string
  pi_symbol :: string
  pi_side :: string
  pi_order_type :: string
  pi_qty :: pyfloat
  pi_limit_price :: "pyfloat option"
  pi_status :: string
  pi_last_error :: "string option"
  pi_client_order_id :: "string option"
  pi_linked_order_id :: "string option"
  pi_meta :: "json option"
  pi_updated_ts :: string

record paper_queue =
  pq_intents :: "paper_intent list"
  pq_state :: "(string \<times> string) list"

definition empty_paper_queue :: paper_queue where
  "empty_paper_queue = \<lparr>pq_intents = [], pq_state = []\<rparr>"

record paper_intent_row =
  pr_intent_id :: string
  pr_created_ts :: "string option"
  pr_ts :: string
  pr_source :: string
  pr_strategy_id :: "string option"
  pr_action :: "string option"
  pr_venue :: string
  pr_symbol :: string
  pr_side :: string
  pr_order_type :: string
  pr_qty :: "exn + pyfloat"
  pr_limit_price :: "pyfloat option"
  pr_status :: "string option"
  pr_last_error :: "string option"
  pr_client_order_id :: "string option"
  pr_linked_order_id :: "string option"
  pr_meta :: "json option"

section \<open>Python equality of JSON values\<close>

text \<open>Numbers and booleans compare by value, a NaN differs from itself, dictionaries compare as maps.\<close>

fun json_number :: "json \<Rightarrow> pyfloat option" where
  "json_number (JBool b) = Some (Fin (if b then 1 else 0))"
| "json_number (JInt n) = Some (Fin (of_int n))"
| "json_number (JFloat f) = Some f"
| "json_number _ = None"

function (sequential) py_eq :: "json \<Rightarrow> json \<Rightarrow> bool" where
  "py_eq (JList xs) (JList ys) =
     (length xs = length ys \<and> (\<forall>p \<in> set (zip xs ys). py_eq (fst p) (snd p)))"
| "py_eq (JObj d) (JObj e) =
     (length d = length e \<and>
      (\<forall>p \<in> set d. case map_of e (fst p) of None \<Rightarrow> False | Some w \<Rightarrow> py_eq (snd p) w))"
| "py_eq (JStr s) (JStr t) = (s = t)"
| "py_eq JNull JNull = True"
| "py_eq v w =
     (case (json_number v, json_number w) of (Some x, Some y) \<Rightarrow> x \<noteq> NaN \<and> x = y | _ \<Rightarrow> False)"
  by pat_completeness auto

lemma size_member_zip: "p \<in> set (zip xs ys) \<Longrightarrow> size (fst p) < Suc (size_list size xs)"
  by (cases p) (auto dest!: set_zip_leftD intro!: le_imp_less_Suc size_list_estimation')

lemma size_member_obj: "p \<in> set d \<Longrightarrow> size (snd p) < Suc (size_list (\<lambda>p. size (snd p)) d)"
  by (auto intro!: le_imp_less_Suc size_list_estimation')

termination py_eq
proof (relation "measure (\<lambda>(v, w). size v)", goal_cases)
  case (2 xs ys p)
  then show ?case using size_member_zip[of p xs ys] by (simp add: case_prod_unfold)
next
  case (3 d e p w)
  have "size_list (\<lambda>p. size (snd p)) d \<le> size_list (size_prod (\<lambda>_. 0) size) d"
    by (rule size_list_pointwise) (auto simp: size_prod_simp)
  then show ?case using size_member_obj[of p d] 3 by simp
qed simp

definition meta_differs :: "json option \<Rightarrow> json option \<Rightarrow> bool" where
  "meta_differs v w = (case (v, w) of (None, None) \<Rightarrow> False | (Some x, Some y) \<Rightarrow> \<not> py_eq x y | _ \<Rightarrow> True)"

section \<open>Operations\<close>

definition insert_of_row :: "string \<Rightarrow> pyfloat \<Rightarrow> paper_intent_row \<Rightarrow> paper_intent" where
  "insert_of_row now qty r =
     \<lparr>pi_intent_id = pr_intent_id r, pi_created_ts = opt_str_or (pr_created_ts r) now, pi_ts = pr_ts r,
      pi_source = pr_source r, pi_strategy_id = pr_strategy_id r, pi_action = pr_action r,
      pi_venue = pr_venue r, pi_symbol = pr_symbol r, pi_side = pr_side r, pi_order_type = pr_order_type r,
      pi_qty = qty, pi_limit_price = Option.bind (pr_limit_price r) sql_real,
      pi_status = normalize_live_queue_status (pr_status r), pi_last_error = pr_last_error r,
      pi_client_order_id = pr_client_order_id r, pi_linked_order_id = pr_linked_order_id r,
      pi_meta = pr_meta r, pi_updated_ts = now\<rparr>"

text \<open>\<open>payload_mutable\<close> and \<open>status_mutable\<close> of \<open>upsert_intent\<close>, for the normalised current and next status.\<close>

definition payload_mutable :: "paper_intent \<Rightarrow> string \<Rightarrow> string \<Rightarrow> bool" where
  "payload_mutable x cur nxt =
     (cur = ''queued'' \<and> \<not> truthy (pi_client_order_id x) \<and> \<not> truthy (pi_linked_order_id x) \<and> nxt = ''queued'')"

definition status_mutable :: "string \<Rightarrow> string \<Rightarrow> bool" where
  "status_mutable cur nxt =
     (cur \<notin> set live_queue_terminal_statuses \<and> live_queue_transition_allowed (Some cur) (Some nxt))"

text \<open>The dictionary \<open>updated\<close>; \<open>qty\<close> is the converted quantity, read only when the payload is mutable.\<close>

definition updated_row :: "string \<Rightarrow> pyfloat \<Rightarrow> paper_intent_row \<Rightarrow> paper_intent \<Rightarrow> paper_intent" where
  "updated_row now qty r x =
     (let cur = norm_status (pi_status x);
          nxt = normalize_live_queue_status (opt_or (pr_status r) (Some cur));
          pm = payload_mutable x cur nxt;
          sm = status_mutable cur nxt
      in \<lparr>pi_intent_id = pi_intent_id x, pi_created_ts = pi_created_ts x,
          pi_ts = (if pm then pr_ts r else pi_ts x),
          pi_source = (if pm then pr_source r else pi_source x),
          pi_strategy_id = (if pm then pr_strategy_id r else pi_strategy_id x),
          pi_action = (if pm then pr_action r else pi_action x),
          pi_venue = (if pm then pr_venue r else pi_venue x),
          pi_symbol = (if pm then pr_symbol r else pi_symbol x),
          pi_side = (if pm then pr_side r else pi_side x),
          pi_order_type = (if pm then pr_order_type r else pi_order_type x),
          pi_qty = (if pm then qty else pi_qty x),
          pi_limit_price = (if pm then pr_limit_price r else pi_limit_price x),
          pi_status = (if sm then nxt else cur),
          pi_last_error = (if pm \<or> sm then pr_last_error r else pi_last_error x),
          pi_client_order_id = opt_or (pi_client_order_id x) (pr_client_order_id r),
          pi_linked_order_id = opt_or (pi_linked_order_id x) (pr_linked_order_id r),
          pi_meta = (if pm \<or> sm then pr_meta r else pi_meta x),
          pi_updated_ts = now\<rparr>)"

text \<open>\<open>any(updated[key] != existing.get(key) for key in updated if key != "updated_ts")\<close>: the metadata
  is compared by Python equality when it was replaced, the other columns hold no NaN.\<close>

definition row_changed :: "bool \<Rightarrow> paper_intent \<Rightarrow> paper_intent \<Rightarrow> bool" where
  "row_changed replaced u x =
     (u\<lparr>pi_updated_ts := pi_updated_ts x, pi_meta := pi_meta x\<rparr> \<noteq> x \<or>
      (replaced \<and> meta_differs (pi_meta u) (pi_meta x)))"

definition paper_update_existing ::
    "string \<Rightarrow> paper_intent_row \<Rightarrow> paper_intent \<Rightarrow> paper_queue \<Rightarrow> exn + paper_queue" where
  "paper_update_existing now r x q =
     (let cur = norm_status (pi_status x);
          nxt = normalize_live_queue_status (opt_or (pr_status r) (Some cur));
          pm = payload_mutable x cur nxt;
          sm = status_mutable cur nxt;
          write = (\<lambda>qty.
            let u = updated_row now qty r x
            in if \<not> row_changed (pm \<or> sm) u x then Inr q
               else if pi_qty u = NaN then Inl (IntegrityError ''NOT NULL constraint failed: trade_intents.qty'')
               else Inr (q\<lparr>pq_intents := upd_where (\<lambda>y. pi_intent_id y = pr_intent_id r)
                      (\<lambda>_. u\<lparr>pi_limit_price := Option.bind (pi_limit_price u) sql_real\<rparr>) (pq_intents q)\<rparr>))
      in if pm then (case pr_qty r of Inl e \<Rightarrow> Inl e | Inr qty \<Rightarrow> write qty)
         else write (pi_qty x))"

definition paper_upsert_intent :: "string \<Rightarrow> paper_intent_row \<Rightarrow> paper_queue \<Rightarrow> exn + paper_queue" where
  "paper_upsert_intent now r q =
     (case select_key pi_intent_id (pr_intent_id r) (pq_intents q) of
        None \<Rightarrow>
          (case pr_qty r of
             Inl e \<Rightarrow> Inl e
           | Inr qty \<Rightarrow>
               if qty = NaN then Inl (IntegrityError ''NOT NULL constraint failed: trade_intents.qty'')
               else Inr (q\<lparr>pq_intents := pq_intents q @ [insert_of_row now qty r]\<rparr>))
      | Some x \<Rightarrow> paper_update_existing now r x q)"

definition paper_get_intent :: "string \<Rightarrow> paper_queue \<Rightarrow> paper_intent option" where
  "paper_get_intent i q = select_key pi_intent_id i (pq_intents q)"

definition paper_list_intents :: "int \<Rightarrow> string option \<Rightarrow> paper_queue \<Rightarrow> paper_intent list" where
  "paper_list_intents limit status q =
     sql_limit limit (rev (sort_key pi_created_ts
       (if truthy status then filter (\<lambda>r. Some (pi_status r) = status) (pq_intents q) else pq_intents q)))"

definition paper_next_queued :: "int \<Rightarrow> paper_queue \<Rightarrow> paper_intent list" where
  "paper_next_queued limit q =
     sql_limit limit (sort_key pi_created_ts (filter (\<lambda>r. pi_status r = ''queued'') (pq_intents q)))"

definition paper_claimed_row :: "string \<Rightarrow> paper_intent \<Rightarrow> paper_intent" where
  "paper_claimed_row now r =
     r\<lparr>pi_status := ''submitting'',
       pi_client_order_id := Some (opt_str_or (pi_client_order_id r) (''paper_intent_'' @ pi_intent_id r)),
       pi_updated_ts := now\<rparr>"

definition paper_claim_one ::
    "string \<Rightarrow> paper_intent \<Rightarrow> paper_intent list \<times> paper_queue \<Rightarrow> paper_intent list \<times> paper_queue" where
  "paper_claim_one now r s =
     (let (claimed, q) = s;
          P = (\<lambda>x. pi_intent_id x = pi_intent_id r \<and> pi_status x = ''queued'');
          c = paper_claimed_row now r
      in if rowcount P (pq_intents q) \<noteq> 1 then s
         else (claimed @ [c],
               q\<lparr>pq_intents := upd_where P
                   (\<lambda>x. x\<lparr>pi_status := pi_status c, pi_client_order_id := pi_client_order_id c, pi_updated_ts := now\<rparr>)
                   (pq_intents q)\<rparr>))"

definition paper_claim_next_queued :: "string \<Rightarrow> int \<Rightarrow> paper_queue \<Rightarrow> paper_intent list \<times> paper_queue" where
  "paper_claim_next_queued now limit q = fold (paper_claim_one now) (paper_next_queued limit q) ([], q)"

definition paper_status_guard :: "string \<Rightarrow> string \<Rightarrow> bool" where
  "paper_status_guard st nxt =
     (st \<notin> {''filled'', ''rejected'', ''canceled'', ''cancelled'', ''error''} \<and>
      (st = nxt
       \<or> (st = ''queued'' \<and> nxt \<in> {''submitting'', ''submitted'', ''rejected'', ''held''})
       \<or> (st = ''submitting'' \<and> nxt \<in> {''submitted'', ''rejected''})
       \<or> (st = ''submitted'' \<and> nxt \<in> {''filled'', ''canceled'', ''cancelled'', ''rejected'', ''error'', ''held''})
       \<or> (st = ''held'' \<and> nxt \<in> {''queued'', ''rejected''})))"

definition paper_update_status ::
    "string \<Rightarrow> string \<Rightarrow> string option \<Rightarrow> string option \<Rightarrow> string option \<Rightarrow> string option \<Rightarrow> paper_queue \<Rightarrow> bool \<times> paper_queue"
where
  "paper_update_status now iid status last_error coid loid q =
     (let nxt = normalize_live_queue_status status;
          P = (\<lambda>x. pi_intent_id x = iid \<and> paper_status_guard (pi_status x) nxt)
      in (rowcount P (pq_intents q) = 1,
          q\<lparr>pq_intents := upd_where P
              (\<lambda>x. x\<lparr>pi_status := nxt, pi_last_error := last_error,
                     pi_client_order_id := coalesce coid (pi_client_order_id x),
                     pi_linked_order_id := coalesce loid (pi_linked_order_id x), pi_updated_ts := now\<rparr>)
              (pq_intents q)\<rparr>))"

definition paper_get_state :: "string \<Rightarrow> paper_queue \<Rightarrow> string option" where
  "paper_get_state k q = map_of (pq_state q) k"

definition paper_set_state :: "string \<Rightarrow> string \<Rightarrow> paper_queue \<Rightarrow> paper_queue" where
  "paper_set_state k v q = q\<lparr>pq_state := filter (\<lambda>p. fst p \<noteq> k) (pq_state q) @ [(k, v)]\<rparr>"

section \<open>The paper guard against the transition table\<close>

lemma paper_guard_live:
  assumes "st \<in> set live_queue_vocabulary"
  shows "paper_status_guard st nxt \<longleftrightarrow>
    (lifecycle_step st nxt \<and> (st = nxt \<or> (st \<noteq> ''submit_unknown'' \<and> nxt \<notin> {''submit_unknown'', ''expired''}))) \<or>
    (st = ''expired'' \<and> nxt = ''expired'')"
proof -
  have "st \<in> {''queued'', ''submitting'', ''submitted'', ''filled'', ''canceled'', ''cancelled'',
      ''rejected'', ''error'', ''expired'', ''submit_unknown'', ''held''}"
    using assms by (simp add: live_queue_vocabulary_def live_queue_status_transitions_def)
  then show ?thesis
    by (elim insertE emptyE; hypsubst)
      (auto simp: paper_status_guard_def lifecycle_step_simps lifecycle_tables transition_tables)
qed

lemma lifecycle_step_other:
  assumes "st \<notin> set live_queue_vocabulary"
  shows "lifecycle_step st nxt \<longleftrightarrow> st = nxt"
proof -
  have none: "get_set live_queue_status_transitions st = []"
    using assms by (auto simp: get_set_def live_queue_vocabulary_def map_of_eq_None_iff split: option.splits
        dest: map_of_SomeD intro: rev_image_eqI)
  have "st \<notin> set live_queue_terminal_statuses"
    using assms by (simp add: live_queue_vocabulary_def live_queue_status_transitions_def lifecycle_tables)
  then show ?thesis by (auto simp: lifecycle_step_simps none)
qed

lemma paper_guard_other:
  assumes "st \<notin> set live_queue_vocabulary"
  shows "paper_status_guard st nxt \<longleftrightarrow>
    (lifecycle_step st nxt \<and> (st = nxt \<or> (st \<noteq> ''submit_unknown'' \<and> nxt \<notin> {''submit_unknown'', ''expired''}))) \<or>
    (st = ''expired'' \<and> nxt = ''expired'')"
proof -
  have n: "st \<notin> {''queued'', ''submitting'', ''submitted'', ''filled'', ''canceled'', ''cancelled'',
      ''rejected'', ''error'', ''expired'', ''submit_unknown'', ''held''}"
    using assms by (simp add: live_queue_vocabulary_def live_queue_status_transitions_def)
  then have "paper_status_guard st nxt \<longleftrightarrow> st = nxt" by (simp add: paper_status_guard_def)
  then show ?thesis using lifecycle_step_other[OF assms, of nxt] n by auto
qed

text \<open>The SQL guard of the paper queue against the lifecycle table: a write goes through exactly when it is
  a lifecycle step that neither enters nor leaves \<open>submit_unknown\<close> and does not expire the intent,
  with one addition: an \<open>expired\<close> row may be rewritten as \<open>expired\<close>.\<close>

theorem paper_guard_exact:
  "paper_status_guard st nxt \<longleftrightarrow>
    (lifecycle_step st nxt \<and> (st = nxt \<or> (st \<noteq> ''submit_unknown'' \<and> nxt \<notin> {''submit_unknown'', ''expired''}))) \<or>
    (st = ''expired'' \<and> nxt = ''expired'')"
  by (cases "st \<in> set live_queue_vocabulary") (rule paper_guard_live paper_guard_other, assumption)+

lemma paper_guard_path: "paper_status_guard st nxt \<Longrightarrow> lifecycle_step\<^sup>*\<^sup>* st nxt"
proof -
  assume "paper_status_guard st nxt"
  moreover have "paper_status_guard st nxt \<Longrightarrow> lifecycle_step st nxt \<or> st = nxt"
  proof (cases "st \<in> set live_queue_vocabulary")
    case True
    show "paper_status_guard st nxt \<Longrightarrow> ?thesis" unfolding paper_guard_live[OF True] by (elim disjE conjE) simp_all
  next
    case False
    show "paper_status_guard st nxt \<Longrightarrow> ?thesis" unfolding paper_guard_other[OF False] by (elim disjE conjE) simp_all
  qed
  ultimately have "lifecycle_step st nxt \<or> st = nxt" by simp
  then show ?thesis by (elim disjE) simp_all
qed

section \<open>Runs of the queue\<close>

datatype paper_op =
    PUpsert string paper_intent_row
  | PClaim string int
  | PUpdate string string "string option" "string option" "string option" "string option"
  | PSetState string string

text \<open>An operation that raises is rolled back.\<close>

fun paper_exec :: "paper_op \<Rightarrow> paper_queue \<Rightarrow> paper_queue" where
  "paper_exec (PUpsert now r) q = (case paper_upsert_intent now r q of Inl _ \<Rightarrow> q | Inr q' \<Rightarrow> q')"
| "paper_exec (PClaim now limit) q = snd (paper_claim_next_queued now limit q)"
| "paper_exec (PUpdate now i st le co lo) q = snd (paper_update_status now i st le co lo q)"
| "paper_exec (PSetState k v) q = paper_set_state k v q"

definition paper_row_ok :: "paper_intent \<Rightarrow> bool" where
  "paper_row_ok x \<longleftrightarrow> norm_status (pi_status x) = pi_status x \<and> pi_qty x \<noteq> NaN \<and> pi_limit_price x \<noteq> Some NaN"

definition paper_inv :: "paper_queue \<Rightarrow> bool" where
  "paper_inv q \<longleftrightarrow> distinct (map pi_intent_id (pq_intents q)) \<and> list_all paper_row_ok (pq_intents q)"

text \<open>What an operation can do to one row.\<close>

inductive paper_row_step :: "paper_op \<Rightarrow> paper_intent \<Rightarrow> paper_intent \<Rightarrow> bool" where
  stay: "paper_row_step op x x"
| replace: "pr_intent_id r = pi_intent_id x \<Longrightarrow> pi_qty (updated_row now qty r x) \<noteq> NaN \<Longrightarrow>
    paper_row_step (PUpsert now r) x
      ((updated_row now qty r x)\<lparr>pi_limit_price := Option.bind (pi_limit_price (updated_row now qty r x)) sql_real\<rparr>)"
| claim: "pi_status x = ''queued'' \<Longrightarrow> co \<noteq> '''' \<Longrightarrow>
    paper_row_step (PClaim now limit) x
      (x\<lparr>pi_status := ''submitting'', pi_client_order_id := Some co, pi_updated_ts := now\<rparr>)"
| upd: "paper_status_guard (pi_status x) (normalize_live_queue_status st) \<Longrightarrow>
    paper_row_step (PUpdate now (pi_intent_id x) st le co lo) x
      (x\<lparr>pi_status := normalize_live_queue_status st, pi_last_error := le,
         pi_client_order_id := coalesce co (pi_client_order_id x),
         pi_linked_order_id := coalesce lo (pi_linked_order_id x), pi_updated_ts := now\<rparr>)"

lemma updated_row_id [simp]: "pi_intent_id (updated_row now qty r x) = pi_intent_id x"
  by (simp add: updated_row_def Let_def)

lemma paper_row_step_id: "paper_row_step op x x' \<Longrightarrow> pi_intent_id x' = pi_intent_id x"
  by (induction rule: paper_row_step.induct) simp_all

lemma list_all2_upd_where:
  "(\<And>x. x \<in> set t \<Longrightarrow> P x \<Longrightarrow> R x (f x)) \<Longrightarrow> (\<And>x. R x x) \<Longrightarrow> list_all2 R t (upd_where P f t)"
  by (auto simp: upd_where_def list_all2_conv_all_nth)

lemma paper_claim_rows:
  assumes "list_all2 (paper_row_step (PClaim now limit)) t (pq_intents q)"
  shows "list_all2 (paper_row_step (PClaim now limit)) t (pq_intents (snd (fold (paper_claim_one now) rs (c, q))))"
  using assms
proof (induction rs arbitrary: c q)
  case (Cons r rs)
  let ?co = "opt_str_or (pi_client_order_id r) (''paper_intent_'' @ pi_intent_id r)"
  let ?P = "\<lambda>x. pi_intent_id x = pi_intent_id r \<and> pi_status x = ''queued''"
  let ?f = "\<lambda>x. x\<lparr>pi_status := ''submitting'', pi_client_order_id := Some ?co, pi_updated_ts := now\<rparr>"
  have co: "?co \<noteq> ''''" by (cases "pi_client_order_id r") (auto simp: opt_str_or_def str_or_def)
  have "list_all2 (paper_row_step (PClaim now limit)) t (upd_where ?P ?f (pq_intents q))"
  proof (rule list_all2_all_nthI)
    show "length t = length (upd_where ?P ?f (pq_intents q))"
      using Cons.prems by (simp add: upd_where_def list_all2_lengthD)
    fix n assume n: "n < length t"
    then have m: "n < length (pq_intents q)" using Cons.prems by (simp add: list_all2_lengthD)
    have st: "paper_row_step (PClaim now limit) (t ! n) (pq_intents q ! n)"
      using Cons.prems n by (rule list_all2_nthD)
    show "paper_row_step (PClaim now limit) (t ! n) (upd_where ?P ?f (pq_intents q) ! n)"
    proof (cases "?P (pq_intents q ! n)")
      case True
      have "pq_intents q ! n = t ! n"
        using st True by (cases rule: paper_row_step.cases) auto
      then show ?thesis
        using True m paper_row_step.claim[OF _ co, of "t ! n" now limit] by (simp add: upd_where_def)
    qed (use st m in \<open>auto simp: upd_where_def\<close>)
  qed
  then have one: "list_all2 (paper_row_step (PClaim now limit)) t (pq_intents (snd (paper_claim_one now r (c, q))))"
    using Cons.prems by (simp add: paper_claim_one_def paper_claimed_row_def Let_def)
  show ?case
    using Cons.IH[of "snd (paper_claim_one now r (c, q))" "fst (paper_claim_one now r (c, q))"] one by simp
qed simp

lemma paper_update_existing_cases:
  assumes "paper_update_existing now r x q = Inr q'"
  obtains (same) "q' = q"
  | (row) qty where "pi_qty (updated_row now qty r x) \<noteq> NaN"
      "pq_intents q' = upd_where (\<lambda>y. pi_intent_id y = pr_intent_id r)
        (\<lambda>_. (updated_row now qty r x)\<lparr>pi_limit_price := Option.bind (pi_limit_price (updated_row now qty r x)) sql_real\<rparr>)
        (pq_intents q)"
  using assms unfolding paper_update_existing_def Let_def
  by (auto split: if_splits sum.splits)

lemma paper_update_existing_rows:
  assumes up: "paper_update_existing now r x q = Inr q'"
    and sel: "select_key pi_intent_id (pr_intent_id r) (pq_intents q) = Some x"
    and d: "distinct (map pi_intent_id (pq_intents q))"
  shows "list_all2 (paper_row_step (PUpsert now r)) (pq_intents q) (pq_intents q')"
proof -
  have uniq: "y = x" if "y \<in> set (pq_intents q)" "pi_intent_id y = pr_intent_id r" for y
    using select_key_distinct[OF d that(1)] sel that(2) by simp
  have xi: "pi_intent_id x = pr_intent_id r" using select_key_Some_mem[OF sel] by simp
  from up show ?thesis
  proof (cases rule: paper_update_existing_cases)
    case same
    then show ?thesis by (simp add: list_all2_refl paper_row_step.stay)
  next
    case (row qty)
    show ?thesis unfolding row(2)
      by (rule list_all2_upd_where) (use uniq xi row(1) in \<open>auto intro: paper_row_step.intros\<close>)
  qed
qed

text \<open>An operation steps every stored row and inserts at most one, under a new id.\<close>

lemma paper_exec_rows:
  assumes "paper_inv q"
  shows "\<exists>old new. pq_intents (paper_exec op q) = old @ new \<and>
     list_all2 (paper_row_step op) (pq_intents q) old \<and>
     (new = [] \<or> (\<exists>now r qty. op = PUpsert now r \<and> new = [insert_of_row now qty r] \<and> qty \<noteq> NaN \<and>
        pr_intent_id r \<notin> pi_intent_id ` set (pq_intents q)))"
proof -
  have refl: "list_all2 (paper_row_step op) t t" for t
    by (simp add: list_all2_refl paper_row_step.stay)
  have keep: ?thesis if "list_all2 (paper_row_step op) (pq_intents q) (pq_intents (paper_exec op q))"
    using that by (intro exI[of _ "pq_intents (paper_exec op q)"] exI[of _ "[]"]) simp
  show ?thesis
  proof (cases op)
    case (PUpsert now r)
    show ?thesis
    proof (cases "select_key pi_intent_id (pr_intent_id r) (pq_intents q)")
      case None
      show ?thesis
      proof (cases "\<exists>qty. pr_qty r = Inr qty \<and> qty \<noteq> NaN")
        case True
        then obtain qty where qty: "pr_qty r = Inr qty" "qty \<noteq> NaN" by blast
        have "pr_intent_id r \<notin> pi_intent_id ` set (pq_intents q)" using None by (simp add: select_key_None)
        then show ?thesis using None refl PUpsert qty
          by - (rule exI[of _ "pq_intents q"], rule exI[of _ "[insert_of_row now qty r]"],
            auto simp: paper_upsert_intent_def)
      next
        case False
        then show ?thesis using None refl PUpsert
          by (intro keep) (auto simp: paper_upsert_intent_def split: sum.splits)
      qed
    next
      case (Some x)
      have "list_all2 (paper_row_step op) (pq_intents q) (pq_intents (paper_exec op q))"
      proof (cases "paper_update_existing now r x q")
        case (Inl e)
        then show ?thesis using Some PUpsert refl by (simp add: paper_upsert_intent_def)
      next
        case (Inr q')
        then show ?thesis
          using Some PUpsert paper_update_existing_rows[OF Inr Some] assms
          by (simp add: paper_upsert_intent_def paper_inv_def)
      qed
      then show ?thesis by (rule keep)
    qed
  next
    case (PClaim now limit)
    then show ?thesis using paper_claim_rows[of now limit "pq_intents q" q] refl
      by (intro keep) (simp add: paper_claim_next_queued_def)
  next
    case (PUpdate now i st le co lo)
    then show ?thesis
      by (intro keep) (auto simp: paper_update_status_def Let_def intro!: list_all2_upd_where paper_row_step.stay
          intro: paper_row_step.upd)
  next
    case (PSetState k v)
    then show ?thesis using refl by (intro keep) (simp add: paper_set_state_def)
  qed
qed

lemma paper_row_step_ok:
  "paper_row_step op x x' \<Longrightarrow> paper_row_ok x \<Longrightarrow> paper_row_ok x'"
proof (induction rule: paper_row_step.induct)
  case (replace r x now qty)
  then show ?case
    by (auto simp: paper_row_ok_def updated_row_def Let_def sql_real_def split: bind_splits)
qed (auto simp: paper_row_ok_def)

lemma paper_exec_inv:
  assumes "paper_inv q"
  shows "paper_inv (paper_exec op q)"
proof -
  obtain old new where split: "pq_intents (paper_exec op q) = old @ new"
    and old: "list_all2 (paper_row_step op) (pq_intents q) old"
    and new: "new = [] \<or> (\<exists>now r qty. op = PUpsert now r \<and> new = [insert_of_row now qty r] \<and> qty \<noteq> NaN \<and>
        pr_intent_id r \<notin> pi_intent_id ` set (pq_intents q))"
    using paper_exec_rows[OF assms, of op] by (elim exE conjE) (rule that)
  have ids: "map pi_intent_id old = map pi_intent_id (pq_intents q)"
    using old by (induction rule: list_all2_induct) (auto dest: paper_row_step_id)
  have "list_all paper_row_ok (pq_intents q)" using assms by (simp add: paper_inv_def)
  with old have ok: "list_all paper_row_ok old"
    by (induction rule: list_all2_induct) (auto intro: paper_row_step_ok)
  have set_ids: "pi_intent_id ` set old = pi_intent_id ` set (pq_intents q)"
    using arg_cong[OF ids, of set] by simp
  have "paper_row_ok (insert_of_row now qty r)" if "qty \<noteq> NaN" for now qty r
    using that by (auto simp: paper_row_ok_def insert_of_row_def sql_real_def split: bind_splits)
  moreover have "pi_intent_id (insert_of_row now qty r) = pr_intent_id r" for now qty r
    by (simp add: insert_of_row_def)
  ultimately show ?thesis
    using new ok assms ids set_ids by (auto simp: paper_inv_def split rev_image_eqI)
qed

definition paper_status_of :: "string \<Rightarrow> paper_queue \<Rightarrow> string option" where
  "paper_status_of i q = map_option pi_status (paper_get_intent i q)"

lemma paper_exec_get:
  assumes "paper_inv q" "paper_get_intent i q = Some x"
  shows "\<exists>x'. paper_get_intent i (paper_exec op q) = Some x' \<and> paper_row_step op x x'"
proof -
  obtain old new where split: "pq_intents (paper_exec op q) = old @ new"
    and old: "list_all2 (paper_row_step op) (pq_intents q) old"
    using paper_exec_rows[OF assms(1), of op] by (elim exE conjE) (rule that)
  from old assms(2) have "\<exists>x'. select_key pi_intent_id i old = Some x' \<and> paper_row_step op x x'"
    unfolding paper_get_intent_def
    by (induction rule: list_all2_induct) (auto simp: select_key_Cons dest: paper_row_step_id split: if_splits)
  then show ?thesis by (auto simp: paper_get_intent_def split select_key_append)
qed

lemma paper_row_step_status:
  assumes "paper_row_step op x x'" "paper_row_ok x"
  shows "lifecycle_step\<^sup>*\<^sup>* (pi_status x) (pi_status x')"
  using assms
proof (cases rule: paper_row_step.cases)
  case (replace r now qty)
  let ?nxt = "normalize_live_queue_status (opt_or (pr_status r) (Some (pi_status x)))"
  have n: "norm_status (pi_status x) = pi_status x" using assms(2) by (simp add: paper_row_ok_def)
  have "pi_status x' = (if status_mutable (pi_status x) ?nxt then ?nxt else pi_status x)"
    by (simp add: replace updated_row_def Let_def n)
  moreover have "lifecycle_step (pi_status x) ?nxt" if "status_mutable (pi_status x) ?nxt"
    using that lifecycle_step_iff[of "Some (pi_status x)" "Some ?nxt"] n by (simp add: status_mutable_def)
  ultimately show ?thesis by auto
next
  case (claim co now limit)
  have "lifecycle_step ''queued'' ''submitting''"
    by (rule lifecycle_step.edge) (simp add: transition_tables)
  then show ?thesis using claim by (simp add: r_into_rtranclp)
next
  case (upd st now le co lo)
  then show ?thesis using paper_guard_path by simp
qed auto

definition paper_step :: "paper_queue \<Rightarrow> paper_queue \<Rightarrow> bool" where
  "paper_step q q' \<longleftrightarrow> (\<exists>op. q' = paper_exec op q)"

interpretation paper_lifecycle: lifecycle_store paper_step paper_inv paper_status_of
proof (unfold_locales, goal_cases)
  case (1 q q')
  then show ?case by (auto simp: paper_step_def intro: paper_exec_inv)
next
  case (2 q q' i s)
  then obtain op x where op: "q' = paper_exec op q" and x: "paper_get_intent i q = Some x" "s = pi_status x"
    by (auto simp: paper_step_def paper_status_of_def)
  obtain x' where x': "paper_get_intent i q' = Some x'" "paper_row_step op x x'"
    using paper_exec_get[OF 2(1) x(1)] op by blast
  have "paper_row_ok x"
    using 2(1) x(1) by (auto simp: paper_inv_def list_all_iff paper_get_intent_def dest: select_key_Some_mem)
  from paper_row_step_status[OF x'(2) this] x' x(2) show ?case by (simp add: paper_status_of_def)
qed

section \<open>Properties\<close>

fun paper_run :: "paper_op list \<Rightarrow> paper_queue \<Rightarrow> paper_queue" where
  "paper_run [] q = q"
| "paper_run (op # ops) q = paper_run ops (paper_exec op q)"

lemma paper_run_steps: "paper_step\<^sup>*\<^sup>* q (paper_run ops q)"
proof (induction ops arbitrary: q)
  case (Cons op ops)
  have "paper_step q (paper_exec op q)" by (auto simp: paper_step_def)
  then show ?case using Cons.IH[of "paper_exec op q"] by (simp add: converse_rtranclp_into_rtranclp)
qed simp

lemma paper_run_inv: "paper_inv q \<Longrightarrow> paper_inv (paper_run ops q)"
  by (induction ops arbitrary: q) (auto intro: paper_exec_inv)

lemma paper_run_append: "paper_run (as @ bs) q = paper_run bs (paper_run as q)"
  by (induction as arbitrary: q) auto

lemma paper_inv_empty: "paper_inv empty_paper_queue"
  by (simp add: paper_inv_def empty_paper_queue_def)

text \<open>Whatever is done to the paper queue, the status of a stored intent only moves along the lifecycle,
  and a terminal status is final: no upsert, claim or status write, with any arguments, revives it.\<close>

theorem paper_statuses_follow_lifecycle:
  assumes "paper_status_of i (paper_run as empty_paper_queue) = Some s"
  shows "\<exists>s'. paper_status_of i (paper_run (as @ bs) empty_paper_queue) = Some s' \<and> lifecycle_step\<^sup>*\<^sup>* s s' \<and>
           (s \<in> set live_queue_terminal_statuses \<longrightarrow> s' = s)"
proof -
  let ?q = "paper_run as empty_paper_queue"
  have inv: "paper_inv ?q" by (rule paper_run_inv[OF paper_inv_empty])
  obtain s' where s': "paper_status_of i (paper_run bs ?q) = Some s'" "lifecycle_step\<^sup>*\<^sup>* s s'"
    using paper_lifecycle.run_status[OF paper_run_steps inv assms] by blast
  moreover have "s \<in> set live_queue_terminal_statuses \<longrightarrow> s' = s"
    using terminal_absorbing[OF s'(2)] by blast
  ultimately show ?thesis by (simp add: paper_run_append)
qed

definition sample_paper_row :: paper_intent_row where
  "sample_paper_row =
     \<lparr>pr_intent_id = ''p1'', pr_created_ts = None, pr_ts = ''t'', pr_source = ''s'', pr_strategy_id = None,
      pr_action = None, pr_venue = ''v'', pr_symbol = ''BTC/USD'', pr_side = ''buy'', pr_order_type = ''market'',
      pr_qty = Inr (Fin 1), pr_limit_price = None, pr_status = Some ''Queued'', pr_last_error = None,
      pr_client_order_id = None, pr_linked_order_id = None, pr_meta = None\<rparr>"

theorem paper_statuses_follow_lifecycle_witness:
  "\<exists>s'. paper_status_of ''p1''
       (paper_run ([PUpsert ''n1'' sample_paper_row, PUpdate ''n2'' ''p1'' (Some ''rejected'') None None None] @
                   [PUpsert ''n3'' sample_paper_row, PClaim ''n4'' 5]) empty_paper_queue) = Some s' \<and>
     lifecycle_step\<^sup>*\<^sup>* ''rejected'' s' \<and> s' = ''rejected''"
proof -
  have "paper_status_of ''p1'' (paper_run [PUpsert ''n1'' sample_paper_row,
      PUpdate ''n2'' ''p1'' (Some ''rejected'') None None None] empty_paper_queue) = Some ''rejected''"
    by code_simp
  from paper_statuses_follow_lifecycle[OF this, of "[PUpsert ''n3'' sample_paper_row, PClaim ''n4'' 5]"]
  show ?thesis by (auto simp: lifecycle_tables)
qed

text \<open>The order data of an intent.\<close>

definition paper_payload where
  "paper_payload x = (pi_intent_id x, pi_created_ts x, pi_ts x, pi_source x, pi_strategy_id x, pi_action x,
     pi_venue x, pi_symbol x, pi_side x, pi_order_type x, pi_qty x, pi_limit_price x)"

text \<open>The operation does not blank the client order id.\<close>

fun keeps_client_id :: "paper_op \<Rightarrow> bool" where
  "keeps_client_id (PUpdate now i st le co lo) = (co \<noteq> Some '''')"
| "keeps_client_id _ = True"

lemma paper_row_step_payload:
  assumes "paper_row_step op x x'" "keeps_client_id op" "paper_row_ok x" "truthy (pi_client_order_id x)"
  shows "paper_payload x' = paper_payload x \<and> truthy (pi_client_order_id x')"
  using assms
proof (cases rule: paper_row_step.cases)
  case (replace r now qty)
  have np: "\<not> payload_mutable x c n" for c n using assms(4) by (simp add: payload_mutable_def)
  have "Option.bind (pi_limit_price x) sql_real = pi_limit_price x"
    using assms(3) by (auto simp: paper_row_ok_def sql_real_def split: bind_splits)
  then show ?thesis using assms(4) by (simp add: replace updated_row_def Let_def np paper_payload_def opt_or_def)
next
  case (upd st now le co lo)
  then show ?thesis using assms(2,4) by (auto simp: paper_payload_def coalesce_def truthy_def split: option.splits)
qed (auto simp: paper_payload_def truthy_def)

text \<open>An intent that has been claimed (it carries a client order id) keeps its order data: no later
  upsert, claim or status write changes venue, symbol, side, order type, quantity, limit price, action
  or any other payload column, as long as no status write blanks the client order id.\<close>

theorem paper_claimed_payload_frozen:
  assumes "paper_inv q" "paper_get_intent i q = Some x" "truthy (pi_client_order_id x)"
    and "list_all keeps_client_id ops"
  shows "\<exists>x'. paper_get_intent i (paper_run ops q) = Some x' \<and> paper_payload x' = paper_payload x"
  using assms
proof (induction ops arbitrary: q x)
  case (Cons op ops)
  obtain x1 where x1: "paper_get_intent i (paper_exec op q) = Some x1" "paper_row_step op x x1"
    using paper_exec_get[OF Cons.prems(1,2)] by blast
  have "paper_row_ok x"
    using Cons.prems(1,2) by (auto simp: paper_inv_def list_all_iff paper_get_intent_def dest: select_key_Some_mem)
  then have p: "paper_payload x1 = paper_payload x" "truthy (pi_client_order_id x1)"
    using paper_row_step_payload[OF x1(2)] Cons.prems(3,4) by auto
  show ?case using Cons.IH[OF paper_exec_inv[OF Cons.prems(1)] x1(1) p(2)] Cons.prems(4) p(1) by simp
qed simp

theorem paper_claimed_payload_frozen_witness:
  "\<exists>x x'. paper_get_intent ''p1'' (paper_run [PUpsert ''n1'' sample_paper_row, PClaim ''n2'' 5] empty_paper_queue) = Some x \<and>
     paper_get_intent ''p1'' (paper_run [PUpsert ''n3'' (sample_paper_row\<lparr>pr_qty := Inr (Fin 7)\<rparr>)]
       (paper_run [PUpsert ''n1'' sample_paper_row, PClaim ''n2'' 5] empty_paper_queue)) = Some x' \<and>
     paper_payload x' = paper_payload x \<and> pi_qty x = Fin 1"
proof -
  let ?q = "paper_run [PUpsert ''n1'' sample_paper_row, PClaim ''n2'' 5] empty_paper_queue"
  have v: "case paper_get_intent ''p1'' ?q of None \<Rightarrow> False
      | Some x \<Rightarrow> truthy (pi_client_order_id x) \<and> pi_qty x = Fin 1" by code_simp
  then obtain x where x: "paper_get_intent ''p1'' ?q = Some x" "truthy (pi_client_order_id x)" "pi_qty x = Fin 1"
    by (cases "paper_get_intent ''p1'' ?q") auto
  have inv: "paper_inv ?q" by (rule paper_run_inv[OF paper_inv_empty])
  have k: "list_all keeps_client_id [PUpsert ''n3'' (sample_paper_row\<lparr>pr_qty := Inr (Fin 7)\<rparr>)]" by simp
  obtain x' where x': "paper_get_intent ''p1'' (paper_run [PUpsert ''n3'' (sample_paper_row\<lparr>pr_qty := Inr (Fin 7)\<rparr>)] ?q) = Some x'"
    "paper_payload x' = paper_payload x"
    using paper_claimed_payload_frozen[OF inv x(1,2) k] by blast
  show ?thesis by (intro exI[of _ x] exI[of _ x'] conjI x(1) x'(1) x'(2) x(3))
qed

end
