(* ===== verification/State_Authority.thy ===== *)
theory State_Authority
  imports Live_Intent_Queue Paper_Intent_Queue
begin

text \<open>
  services/execution/state\_authority.py: who may write which status. A \<open>LiveStateContext\<close> names the
  authority of the caller; the reconciler and the submit owner (the intent consumer) write the live
  queue through their validators, and the paper queue is written by any known authority. The queue
  argument \<open>qdb\<close> is the queue's own state; the \<open>intent\<close> argument is the caller's snapshot of a row, of
  which only \<open>intent_id\<close> and \<open>status\<close> are read. A \<open>LiveStateViolation\<close> is a value of \<open>state_violation\<close>.
\<close>

section \<open>Definitions\<close>

datatype live_authority = INTENT_CONSUMER | RECONCILER | UNKNOWN

definition authority_name :: "live_authority \<Rightarrow> string" where
  "authority_name a = (case a of INTENT_CONSUMER \<Rightarrow> ''INTENT_CONSUMER'' | RECONCILER \<Rightarrow> ''RECONCILER''
     | UNKNOWN \<Rightarrow> ''UNKNOWN'')"

record live_state_context =
  ctx_authority :: live_authority
  ctx_origin :: string

datatype state_violation =
    MissingAuthority
  | ReconcilerAuthorityRequired
  | IntentConsumerAuthorityRequired
  | MissingIntentId
  | LifecycleBlocked lifecycle_violation
  | HoldReleaseOnly

record intent_snapshot =
  snap_intent_id :: "string option"
  snap_status :: "string option"

record write_args =
  wa_last_error :: "string option"
  wa_client_order_id :: "string option"
  wa_exchange_order_id :: "string option"
  wa_event_action :: "string option"
  wa_event_reason :: "string option"
  wa_event_meta :: "dict option"

text \<open>\<open>{**d, **e}\<close>\<close>

fun dict_set :: "string \<Rightarrow> json \<Rightarrow> dict \<Rightarrow> dict" where
  "dict_set k v [] = [(k, v)]"
| "dict_set k v (p # d) = (if fst p = k then (k, v) # d else p # dict_set k v d)"

definition dict_merge :: "dict \<Rightarrow> dict \<Rightarrow> dict" where
  "dict_merge d e = fold (\<lambda>p. dict_set (fst p) (snd p)) e d"

definition authorize_state_write :: "live_state_context option \<Rightarrow> state_violation + live_state_context" where
  "authorize_state_write ctx =
     (case ctx of None \<Rightarrow> Inl MissingAuthority
      | Some c \<Rightarrow> if ctx_authority c = UNKNOWN then Inl MissingAuthority else Inr c)"

definition validated_reconciler_live_queue_status ::
    "string option \<Rightarrow> string option \<Rightarrow> live_state_context option \<Rightarrow> state_violation + live_state_context \<times> string"
where
  "validated_reconciler_live_queue_status current nxt ctx =
     (case authorize_state_write ctx of
        Inl e \<Rightarrow> Inl e
      | Inr c \<Rightarrow>
          if ctx_authority c \<noteq> RECONCILER then Inl ReconcilerAuthorityRequired
          else (case validate_reconciler_live_queue_transition current nxt of
                  Inl v \<Rightarrow> Inl (LifecycleBlocked v) | Inr s \<Rightarrow> Inr (c, s)))"

definition validated_submit_owner_live_queue_status ::
    "string option \<Rightarrow> string option \<Rightarrow> live_state_context option \<Rightarrow> state_violation + live_state_context \<times> string"
where
  "validated_submit_owner_live_queue_status current nxt ctx =
     (case authorize_state_write ctx of
        Inl e \<Rightarrow> Inl e
      | Inr c \<Rightarrow>
          if ctx_authority c \<noteq> INTENT_CONSUMER then Inl IntentConsumerAuthorityRequired
          else (case validate_submit_owner_live_queue_transition current nxt of
                  Inl v \<Rightarrow> Inl (LifecycleBlocked v) | Inr s \<Rightarrow> Inr (c, s)))"

text \<open>The keyword arguments both writers hand to \<open>update_status\<close>.\<close>

definition authority_write ::
    "string \<Rightarrow> string \<Rightarrow> live_state_context \<Rightarrow> write_args \<Rightarrow> status_write" where
  "authority_write dflt_action dflt_reason c a =
     \<lparr>sw_last_error = wa_last_error a, sw_client_order_id = wa_client_order_id a,
      sw_exchange_order_id = wa_exchange_order_id a, sw_event_actor = Some (ctx_origin c),
      sw_event_action = Some (opt_str_or (wa_event_action a) dflt_action),
      sw_event_reason = Some (opt_str_or (wa_event_reason a) dflt_reason),
      sw_event_meta = Some (dict_merge
        [(''authority'', JStr (authority_name (ctx_authority c))), (''origin'', JStr (ctx_origin c))]
        (case wa_event_meta a of None \<Rightarrow> [] | Some d \<Rightarrow> d))\<rparr>"

definition update_live_queue_status_as_reconciler ::
    "string \<Rightarrow> intent_snapshot \<Rightarrow> string option \<Rightarrow> live_state_context option \<Rightarrow> write_args \<Rightarrow> live_queue \<Rightarrow>
     state_violation + bool \<times> live_queue" where
  "update_live_queue_status_as_reconciler now intent status ctx a q =
     (let iid = strip (opt_str_or (snap_intent_id intent) '''')
      in if iid = '''' then Inl MissingIntentId
         else (case validated_reconciler_live_queue_status (snap_status intent) status ctx of
                 Inl e \<Rightarrow> Inl e
               | Inr (c, nxt) \<Rightarrow>
                   Inr (live_update_status now iid (Some nxt)
                     (authority_write ''reconciler_status_transition'' ''reconciler_state_authority'' c a) q)))"

definition update_live_queue_status_as_intent_consumer ::
    "string \<Rightarrow> intent_snapshot \<Rightarrow> string option \<Rightarrow> live_state_context option \<Rightarrow> write_args \<Rightarrow> live_queue \<Rightarrow>
     state_violation + bool \<times> live_queue" where
  "update_live_queue_status_as_intent_consumer now intent status ctx a q =
     (let iid = strip (opt_str_or (snap_intent_id intent) '''')
      in if iid = '''' then Inl MissingIntentId
         else (case validated_submit_owner_live_queue_status (snap_status intent) status ctx of
                 Inl e \<Rightarrow> Inl e
               | Inr (c, nxt) \<Rightarrow>
                   Inr (live_update_status now iid (Some nxt)
                     (authority_write ''intent_consumer_status_transition'' ''intent_consumer_state_authority'' c a) q)))"

definition paper_queue_status ::
    "string \<Rightarrow> intent_snapshot \<Rightarrow> string option \<Rightarrow> live_state_context option \<Rightarrow> string option \<Rightarrow> string option \<Rightarrow>
     string option \<Rightarrow> paper_queue \<Rightarrow> state_violation + paper_queue" where
  "paper_queue_status now intent status ctx last_error coid loid q =
     (let iid = strip (opt_str_or (snap_intent_id intent) '''')
      in if iid = '''' then Inl MissingIntentId
         else (case authorize_state_write ctx of
                 Inl e \<Rightarrow> Inl e
               | Inr _ \<Rightarrow> Inr (snd (paper_update_status now iid status last_error coid loid q))))"

definition paper_queue_hold_release ::
    "string \<Rightarrow> intent_snapshot \<Rightarrow> string \<Rightarrow> live_state_context option \<Rightarrow> string option \<Rightarrow> paper_queue \<Rightarrow>
     state_violation + paper_queue" where
  "paper_queue_hold_release now intent status ctx reason q =
     (if status \<noteq> ''held'' \<and> status \<noteq> ''queued'' then Inl HoldReleaseOnly
      else paper_queue_status now intent (Some status) ctx reason None None q)"

section \<open>Properties\<close>

definition owned_by_reconciler :: "string \<Rightarrow> bool" where
  "owned_by_reconciler s \<longleftrightarrow> s = ''submitted'' \<or> s = ''submit_unknown''"

definition owned_by_consumer :: "string \<Rightarrow> bool" where
  "owned_by_consumer s \<longleftrightarrow> s = ''queued'' \<or> s = ''submitting''"

lemma reconciler_accepts_source:
  "validate_reconciler_live_queue_transition c n = Inr r \<Longrightarrow> owned_by_reconciler (normalize_live_queue_status c)"
  by (auto simp: validate_reconciler_live_queue_transition_def Let_def lifecycle_tables owned_by_reconciler_def
      split: if_splits)

lemma submit_owner_accepts_source:
  "validate_submit_owner_live_queue_transition c n = Inr r \<Longrightarrow> owned_by_consumer (normalize_live_queue_status c)"
  by (auto simp: validate_submit_owner_live_queue_transition_def Let_def lifecycle_tables owned_by_consumer_def
      split: if_splits)

lemma validators_return_normal:
  "validate_reconciler_live_queue_transition c n = Inr r \<Longrightarrow> r = normalize_live_queue_status n"
  "validate_submit_owner_live_queue_transition c n = Inr r \<Longrightarrow> r = normalize_live_queue_status n"
  by (auto simp: validate_reconciler_live_queue_transition_def validate_submit_owner_live_queue_transition_def
      Let_def split: if_splits)

lemma validators_accept_target:
  "validate_reconciler_live_queue_transition c n = Inr r \<Longrightarrow> normalize_live_queue_status n \<in> set reconciler_targets"
  "validate_submit_owner_live_queue_transition c n = Inr r \<Longrightarrow> normalize_live_queue_status n \<in> set submit_owner_targets"
  by (auto simp: validate_reconciler_live_queue_transition_def validate_submit_owner_live_queue_transition_def
      Let_def split: if_splits)

text \<open>What a successful status write did.\<close>

lemma live_update_status_written:
  assumes inv: "live_queue_inv q" and up: "live_update_status now i st w q = (True, q')"
  shows "\<exists>s e. status_of i q = Some s \<and> lifecycle_step s (normalize_live_queue_status st) \<and>
     status_of i q' = Some (normalize_live_queue_status st) \<and> lq_events q' = lq_events q @ [e] \<and>
     le_intent_id e = i \<and> le_pre_status e = Some s \<and> le_post_status e = normalize_live_queue_status st \<and>
     le_actor e = str_or (opt_str_or (sw_event_actor w) ''queue_status_writer'') ''system''"
proof -
  let ?n = "normalize_live_queue_status st"
  let ?Q = "\<lambda>x. live_status_guard (li_status x) ?n"
  have d: "distinct (map li_intent_id (lq_intents q))" using inv by (simp add: live_queue_inv_def)
  have rc: "rowcount (\<lambda>x. li_intent_id x = i \<and> ?Q x) (lq_intents q) = 1"
    using up by (auto simp: live_update_status_def Let_def split: if_splits)
  obtain r where r: "select_key li_intent_id i (lq_intents q) = Some r" "?Q r"
    using rowcount_one[OF d rc] by blast
  have ri: "li_intent_id r = i" using select_key_Some_mem[OF r(1)] by simp
  have q': "q' = snd (live_update_status now i st w q)" using up by simp
  have "status_of i q' = Some ?n"
    using r ri rc by (simp add: q' live_update_status_def Let_def status_of_def select_key_upd_where)
  moreover have "lifecycle_step (li_status r) ?n" using guard_step[OF r(2)] .
  ultimately show ?thesis
    using r rc by (intro exI[of _ "li_status r"])
      (simp add: q' live_update_status_def Let_def insert_intent_event_def status_of_def)
qed

lemma reconciler_write:
  assumes inv: "live_queue_inv q"
    and w: "update_live_queue_status_as_reconciler now intent status ctx a q = Inr (True, q')"
  shows "\<exists>c s e. ctx = Some c \<and> ctx_authority c = RECONCILER \<and>
        owned_by_reconciler (normalize_live_queue_status (snap_status intent)) \<and>
        normalize_live_queue_status status \<in> set reconciler_targets \<and>
        status_of (strip (opt_str_or (snap_intent_id intent) '''')) q = Some s \<and>
        lifecycle_step s (normalize_live_queue_status status) \<and>
        lq_events q' = lq_events q @ [e] \<and> le_pre_status e = Some s \<and>
        le_actor e = str_or (str_or (ctx_origin c) ''queue_status_writer'') ''system''"
proof -
  from w obtain c r where c: "ctx = Some c" "ctx_authority c = RECONCILER"
    and v: "validate_reconciler_live_queue_transition (snap_status intent) status = Inr r"
    and u: "live_update_status now (strip (opt_str_or (snap_intent_id intent) '''')) (Some r)
       (authority_write ''reconciler_status_transition'' ''reconciler_state_authority'' c a) q = (True, q')"
    by (auto simp: update_live_queue_status_as_reconciler_def validated_reconciler_live_queue_status_def
        authorize_state_write_def Let_def split: if_splits sum.splits option.splits)
  show ?thesis
    using live_update_status_written[OF inv u] c reconciler_accepts_source[OF v] validators_return_normal(1)[OF v] validators_accept_target(1)[OF v]
    by (auto simp: authority_write_def opt_str_or_def)
qed

lemma consumer_write:
  assumes inv: "live_queue_inv q"
    and w: "update_live_queue_status_as_intent_consumer now intent status ctx a q = Inr (True, q')"
  shows "\<exists>c s e. ctx = Some c \<and> ctx_authority c = INTENT_CONSUMER \<and>
        owned_by_consumer (normalize_live_queue_status (snap_status intent)) \<and>
        normalize_live_queue_status status \<in> set submit_owner_targets \<and>
        status_of (strip (opt_str_or (snap_intent_id intent) '''')) q = Some s \<and>
        lifecycle_step s (normalize_live_queue_status status) \<and>
        lq_events q' = lq_events q @ [e] \<and> le_pre_status e = Some s \<and>
        le_actor e = str_or (str_or (ctx_origin c) ''queue_status_writer'') ''system''"
proof -
  from w obtain c r where c: "ctx = Some c" "ctx_authority c = INTENT_CONSUMER"
    and v: "validate_submit_owner_live_queue_transition (snap_status intent) status = Inr r"
    and u: "live_update_status now (strip (opt_str_or (snap_intent_id intent) '''')) (Some r)
       (authority_write ''intent_consumer_status_transition'' ''intent_consumer_state_authority'' c a) q = (True, q')"
    by (auto simp: update_live_queue_status_as_intent_consumer_def validated_submit_owner_live_queue_status_def
        authorize_state_write_def Let_def split: if_splits sum.splits option.splits)
  show ?thesis
    using live_update_status_written[OF inv u] c submit_owner_accepts_source[OF v] validators_return_normal(2)[OF v] validators_accept_target(2)[OF v]
    by (auto simp: authority_write_def opt_str_or_def)
qed

text \<open>The two writers of live statuses, by role, and what each role owns.\<close>

fun write_as where
  "write_as RECONCILER = update_live_queue_status_as_reconciler"
| "write_as INTENT_CONSUMER = update_live_queue_status_as_intent_consumer"
| "write_as UNKNOWN = (\<lambda>now intent status ctx a q. Inl MissingAuthority)"

fun owns :: "live_authority \<Rightarrow> string \<Rightarrow> bool" where
  "owns RECONCILER s = owned_by_reconciler s"
| "owns INTENT_CONSUMER s = owned_by_consumer s"
| "owns UNKNOWN s = False"

text \<open>The moves out of a status it does not own that a role can make on a stale snapshot, since the snapshot is checked for ownership and the stored status only against the
  lifecycle.\<close>

fun stale_move :: "live_authority \<Rightarrow> string \<Rightarrow> string \<Rightarrow> bool" where
  "stale_move RECONCILER s n \<longleftrightarrow> (s = ''queued'' \<or> s = ''submitting'') \<and> (n = ''submitted'' \<or> n = ''rejected'') \<or> s = ''held'' \<and> n = ''rejected''"
| "stale_move INTENT_CONSUMER s n \<longleftrightarrow>
     (s = ''submitted'' \<or> s = ''submit_unknown'') \<and> (n = ''submitted'' \<or> n = ''rejected'') \<or>
     s = ''submit_unknown'' \<and> n = ''submit_unknown'' \<or> s = ''held'' \<and> (n = ''queued'' \<or> n = ''rejected'')"
| "stale_move UNKNOWN s n \<longleftrightarrow> False"

lemma unowned_step:
  "lifecycle_step s n \<Longrightarrow> n \<in> set reconciler_targets \<Longrightarrow> owned_by_reconciler s \<or> stale_move RECONCILER s n"
  "lifecycle_step s n \<Longrightarrow> n \<in> set submit_owner_targets \<Longrightarrow> owned_by_consumer s \<or> stale_move INTENT_CONSUMER s n"
  by (auto simp: lifecycle_step_simps transition_tables lifecycle_tables owned_by_reconciler_def owned_by_consumer_def split: if_splits)

text \<open>C27. Live statuses are written by their owner, or on a stale snapshot in a few ways. A write that the authority layer lets through and the
  queue accepts was made under the matching authority on a snapshot in a status that this role alone owns: \<open>submitted\<close> or \<open>submit_unknown\<close> for the reconciler,
  \<open>queued\<close> or \<open>submitting\<close> for the submit owner. The stored status it replaces is owned by that role too, or the snapshot was stale and the move is one
  of those listed: the reconciler can then move a \<open>queued\<close> or \<open>submitting\<close> intent to \<open>submitted\<close> or \<open>rejected\<close>, the submit owner a \<open>submitted\<close> or \<open>submit_unknown\<close> one to
  \<open>submitted\<close> or \<open>rejected\<close>, and either a held one; no stale write fills, cancels or expires an intent. Every write is a lifecycle step of the stored
  status and is logged under the caller's origin.\<close>

theorem live_writes_by_owner_only:
  assumes "live_queue_inv q" "write_as rl now intent status ctx a q = Inr (True, q')"
  shows "\<exists>c s e. ctx = Some c \<and> ctx_authority c = rl \<and>
        owns rl (normalize_live_queue_status (snap_status intent)) \<and>
        (\<forall>rl'. owns rl' (normalize_live_queue_status (snap_status intent)) \<longrightarrow> rl' = rl) \<and>
        status_of (strip (opt_str_or (snap_intent_id intent) '''')) q = Some s \<and>
        (owns rl s \<or> s \<noteq> normalize_live_queue_status (snap_status intent) \<and> stale_move rl s (normalize_live_queue_status status)) \<and>
        lifecycle_step s (normalize_live_queue_status status) \<and>
        lq_events q' = lq_events q @ [e] \<and> le_pre_status e = Some s \<and>
        le_actor e = str_or (str_or (ctx_origin c) ''queue_status_writer'') ''system''"
proof -
  have excl: "rl1 = rl2" if "owns rl1 t" "owns rl2 t" for rl1 rl2 t
    using that by (cases rl1; cases rl2) (auto simp: owned_by_reconciler_def owned_by_consumer_def)
  show ?thesis
  proof (cases rl)
    case RECONCILER
    then have "update_live_queue_status_as_reconciler now intent status ctx a q = Inr (True, q')" using assms(2) by simp
    from reconciler_write[OF assms(1) this] obtain c s e where r: "ctx = Some c" "ctx_authority c = RECONCILER"
        "owned_by_reconciler (normalize_live_queue_status (snap_status intent))" "normalize_live_queue_status status \<in> set reconciler_targets"
        "status_of (strip (opt_str_or (snap_intent_id intent) '''')) q = Some s" "lifecycle_step s (normalize_live_queue_status status)"
        "lq_events q' = lq_events q @ [e]" "le_pre_status e = Some s" "le_actor e = str_or (str_or (ctx_origin c) ''queue_status_writer'') ''system''"
      by (elim exE conjE) (rule that)
    have "owns rl s \<or> s \<noteq> normalize_live_queue_status (snap_status intent) \<and> stale_move rl s (normalize_live_queue_status status)"
      using unowned_step(1)[OF r(6,4)] r(3) RECONCILER by auto
    then show ?thesis using r excl[of _ "normalize_live_queue_status (snap_status intent)" rl] RECONCILER
      by (intro exI[of _ c] exI[of _ s] exI[of _ e]) simp
  next
    case INTENT_CONSUMER
    then have "update_live_queue_status_as_intent_consumer now intent status ctx a q = Inr (True, q')" using assms(2) by simp
    from consumer_write[OF assms(1) this] obtain c s e where r: "ctx = Some c" "ctx_authority c = INTENT_CONSUMER"
        "owned_by_consumer (normalize_live_queue_status (snap_status intent))" "normalize_live_queue_status status \<in> set submit_owner_targets"
        "status_of (strip (opt_str_or (snap_intent_id intent) '''')) q = Some s" "lifecycle_step s (normalize_live_queue_status status)"
        "lq_events q' = lq_events q @ [e]" "le_pre_status e = Some s" "le_actor e = str_or (str_or (ctx_origin c) ''queue_status_writer'') ''system''"
      by (elim exE conjE) (rule that)
    have "owns rl s \<or> s \<noteq> normalize_live_queue_status (snap_status intent) \<and> stale_move rl s (normalize_live_queue_status status)"
      using unowned_step(2)[OF r(6,4)] r(3) INTENT_CONSUMER by auto
    then show ?thesis using r excl[of _ "normalize_live_queue_status (snap_status intent)" rl] INTENT_CONSUMER
      by (intro exI[of _ c] exI[of _ s] exI[of _ e]) simp
  next
    case UNKNOWN
    then show ?thesis using assms(2) by simp
  qed
qed

text \<open>The submit owner writes off a submitted order on a stale snapshot.\<close>

lemma stale_consumer_rejects_submitted:
  assumes "live_queue_inv q" "status_of i q = Some ''submitted''" "strip i = i" "i \<noteq> ''''"
  shows "\<exists>q'. write_as INTENT_CONSUMER now \<lparr>snap_intent_id = Some i, snap_status = Some ''submitting''\<rparr> (Some ''rejected'')
      (Some \<lparr>ctx_authority = INTENT_CONSUMER, ctx_origin = ''consumer''\<rparr>) a q = Inr (True, q') \<and> status_of i q' = Some ''rejected''"
proof -
  have d: "distinct (map li_intent_id (lq_intents q))" using assms(1) by (simp add: live_queue_inv_def)
  obtain x where x: "select_key li_intent_id i (lq_intents q) = Some x" "li_status x = ''submitted''"
    using assms(2) by (auto simp: status_of_def)
  have g: "live_status_guard ''submitted'' ''rejected''" by (simp add: live_status_guard_def lifecycle_tables)
  have "rowcount (\<lambda>y. li_intent_id y = i \<and> live_status_guard (li_status y) ''rejected'') (lq_intents q) = 1"
    using rowcount_key[OF d, of i "\<lambda>y. live_status_guard (li_status y) ''rejected''"] x g by simp
  then have u: "\<exists>q'. live_update_status now i (Some ''rejected'') w q = (True, q')" for w
    by (simp add: live_update_status_def Let_def)
  have v: "validate_submit_owner_live_queue_transition (Some ''submitting'') (Some ''rejected'') = Inr ''rejected''"
    by (simp add: validate_submit_owner_live_queue_transition_def lifecycle_tables)
  obtain q' where "live_update_status now i (Some ''rejected'')
      (authority_write ''intent_consumer_status_transition'' ''intent_consumer_state_authority'' \<lparr>ctx_authority = INTENT_CONSUMER, ctx_origin = ''consumer''\<rparr> a) q = (True, q')"
    using u by blast
  moreover from live_update_status_written[OF assms(1) this] have "status_of i q' = Some ''rejected''" by auto
  ultimately show ?thesis using assms(3,4) v
    by (simp add: update_live_queue_status_as_intent_consumer_def opt_str_or_def str_or_def validated_submit_owner_live_queue_status_def
        authorize_state_write_def)
qed

definition no_args :: write_args where
  "no_args = \<lparr>wa_last_error = None, wa_client_order_id = None, wa_exchange_order_id = None,
     wa_event_action = None, wa_event_reason = None, wa_event_meta = None\<rparr>"

theorem live_writes_by_owner_only_witness:
  "\<exists>s e q'. write_as INTENT_CONSUMER ''n5'' \<lparr>snap_intent_id = Some ''i1'', snap_status = Some ''queued''\<rparr> (Some ''expired'')
        (Some \<lparr>ctx_authority = INTENT_CONSUMER, ctx_origin = ''consumer''\<rparr>) no_args sample_queue_queued = Inr (True, q') \<and>
      status_of ''i1'' sample_queue_queued = Some s \<and> lifecycle_step s ''expired'' \<and>
      lq_events q' = lq_events sample_queue_queued @ [e] \<and> le_actor e = ''consumer''"
proof -
  let ?snap = "\<lparr>snap_intent_id = Some ''i1'', snap_status = Some ''queued''\<rparr>"
  let ?ctx = "Some \<lparr>ctx_authority = INTENT_CONSUMER, ctx_origin = ''consumer''\<rparr>"
  have st: "strip ''i1'' = ''i1''" by code_simp
  obtain q' where w: "write_as INTENT_CONSUMER ''n5'' ?snap (Some ''expired'') ?ctx no_args sample_queue_queued = Inr (True, q')"
    by (simp add: update_live_queue_status_as_intent_consumer_def opt_str_or_def str_or_def st
        validated_submit_owner_live_queue_status_def authorize_state_write_def
        validate_submit_owner_live_queue_transition_def lifecycle_tables live_update_status_def
        sample_queued_intents rowcount_def live_intent_of_row_def sample_row_def live_status_guard_def Let_def)
  from live_writes_by_owner_only[OF live_queue_reachable_inv[OF sample_queued_reachable] w]
  obtain s e where "status_of ''i1'' sample_queue_queued = Some s" "lifecycle_step s ''expired''"
    "lq_events q' = lq_events sample_queue_queued @ [e]" "le_actor e = ''consumer''"
    by (auto simp: opt_str_or_def str_or_def st)
  with w show ?thesis by blast
qed

end
