(* ===== verification/Claim_Once.thy ===== *)
theory Claim_Once
  imports Py_Prelude
begin

text \<open>
  The contract of the stores that make an action happen once per key: the order dedupe table, the
  fill-dedupe table of the daily risk totals and the trade journal. Of all the claims of one key, over any
  history of the store, only one is told that it was the first.
\<close>

section \<open>The contract: claim once\<close>

text \<open>A store of claims under keys. \<open>claim\<close> answers whether it inserted; \<open>other\<close> is any other operation
  of the store.\<close>

locale claim_once =
  fixes claim :: "'k \<Rightarrow> 'a \<Rightarrow> 's \<Rightarrow> bool \<times> 's"
    and other :: "'s \<Rightarrow> 's \<Rightarrow> bool"
    and present :: "'k \<Rightarrow> 's \<Rightarrow> bool"
  assumes claim_fresh: "fst (claim k a s) \<Longrightarrow> \<not> present k s \<and> present k (snd (claim k a s))"
    and claim_keeps: "present j s \<Longrightarrow> present j (snd (claim k a s))"
    and other_keeps: "other s s' \<Longrightarrow> present j s \<Longrightarrow> present j s'"
begin

text \<open>A history of the store: the claims with their answers, oldest first, other steps in between.\<close>

inductive history :: "'s \<Rightarrow> ('k \<times> bool) list \<Rightarrow> 's \<Rightarrow> bool" where
  start: "history s [] s"
| claimed: "history s h t \<Longrightarrow> history s (h @ [(k, fst (claim k a t))]) (snd (claim k a t))"
| changed: "history s h t \<Longrightarrow> other t u \<Longrightarrow> history s h u"

lemma history_present:
  "history s h t \<Longrightarrow> (k, True) \<in> set h \<Longrightarrow> present k t"
  by (induction rule: history.induct) (auto dest: claim_fresh claim_keeps other_keeps)

lemma at_most_one_insert:
  "history s h t \<Longrightarrow> length (filter (\<lambda>e. e = (k, True)) h) \<le> 1"
proof (induction rule: history.induct)
  case (claimed s h t j a)
  show ?case
  proof (cases "(j, fst (claim j a t)) = (k, True)")
    case True
    then have "\<not> present k t" using claim_fresh[of j a t] by auto
    then have "(k, True) \<notin> set h" using history_present[OF claimed.hyps] by blast
    then have "filter (\<lambda>e. e = (k, True)) h = []" by (auto simp: filter_empty_conv)
    then show ?thesis by simp
  next
    case False
    then show ?thesis using claimed.IH by auto
  qed
qed simp_all

end

end
