(* ===== verification/Order_Dedupe.thy ===== *)
theory Order_Dedupe
  imports Claim_Once
begin

text \<open>
  storage/order\_dedupe\_store\_sqlite.py: the table that makes order submission idempotent. One row per
  (exchange, intent) and per (exchange, client order id); rows are kept in rowid order with an
  autoincrement \<open>id\<close>. Every method of \<open>OrderDedupeStore\<close> is one definition; the clock (\<open>_now_ms()\<close>) is
  an argument, and \<open>claim\<close> receives the text \<open>json.dumps(meta or {}, default=str)\<close>.

  The store is an instance of the contract \<open>claim_once\<close> its clients rely on: of all the claims of one key, only the
  first one is told that it inserted the row.
\<close>

section \<open>State and operations\<close>

record dedupe_row =
  dr_id :: nat
  dr_exchange_id :: string
  dr_intent_id :: string
  dr_symbol :: string
  dr_client_order_id :: string
  dr_remote_order_id :: "string option"
  dr_status :: string
  dr_created_ts_ms :: int
  dr_updated_ts_ms :: int
  dr_last_error :: "string option"
  dr_meta_json :: string

record dedupe_db =
  dd_rows :: "dedupe_row list"
  dd_seq :: nat

definition empty_dedupe :: dedupe_db where
  "empty_dedupe = \<lparr>dd_rows = [], dd_seq = 0\<rparr>"

definition norm_ex :: "string \<Rightarrow> string" where
  "norm_ex exchange_id = strip (lower (str_or exchange_id ''''))"

definition get_by_intent :: "string \<Rightarrow> string \<Rightarrow> dedupe_db \<Rightarrow> dedupe_row option" where
  "get_by_intent exchange_id iid db =
     List.find (\<lambda>r. dr_exchange_id r = norm_ex exchange_id \<and> dr_intent_id r = iid) (dd_rows db)"

definition get_by_client :: "string \<Rightarrow> string \<Rightarrow> dedupe_db \<Rightarrow> dedupe_row option" where
  "get_by_client exchange_id coid db =
     List.find (\<lambda>r. dr_exchange_id r = norm_ex exchange_id \<and> dr_client_order_id r = coid) (dd_rows db)"

text \<open>\<open>INSERT OR IGNORE\<close> is ignored on a conflict with either unique index. The answer is the row found
  by intent, with the flag \<open>_inserted\<close>; a conflict on the client order id alone leaves no such row, and
  the method raises.\<close>

definition dedupe_claim ::
    "int \<Rightarrow> string \<Rightarrow> string \<Rightarrow> string \<Rightarrow> string \<Rightarrow> string \<Rightarrow> dedupe_db \<Rightarrow> (exn + dedupe_row \<times> bool) \<times> dedupe_db"
where
  "dedupe_claim now exchange_id iid symbol coid meta db =
     (let ex = norm_ex exchange_id;
          conflict = list_ex (\<lambda>r. dr_exchange_id r = ex \<and> (dr_intent_id r = iid \<or> dr_client_order_id r = coid))
                       (dd_rows db);
          row = \<lparr>dr_id = Suc (dd_seq db), dr_exchange_id = ex, dr_intent_id = iid, dr_symbol = symbol,
                 dr_client_order_id = coid, dr_remote_order_id = None, dr_status = ''created'',
                 dr_created_ts_ms = now, dr_updated_ts_ms = now, dr_last_error = None,
                 dr_meta_json = prefix_to 200000 meta\<rparr>;
          db' = (if conflict then db else \<lparr>dd_rows = dd_rows db @ [row], dd_seq = Suc (dd_seq db)\<rparr>)
      in ((case get_by_intent ex iid db' of
             None \<Rightarrow> Inl (RuntimeError ''order_dedupe claim failed'')
           | Some r \<Rightarrow> Inr (r, \<not> conflict)), db'))"

definition upd_dedupe :: "string \<Rightarrow> string \<Rightarrow> (dedupe_row \<Rightarrow> dedupe_row) \<Rightarrow> dedupe_db \<Rightarrow> dedupe_db" where
  "upd_dedupe ex iid f db =
     db\<lparr>dd_rows := upd_where (\<lambda>r. dr_exchange_id r = ex \<and> dr_intent_id r = iid) f (dd_rows db)\<rparr>"

definition set_remote_id_if_empty :: "int \<Rightarrow> string \<Rightarrow> string \<Rightarrow> string \<Rightarrow> dedupe_db \<Rightarrow> dedupe_db" where
  "set_remote_id_if_empty now exchange_id iid remote =
     upd_dedupe (norm_ex exchange_id) iid
       (\<lambda>r. r\<lparr>dr_remote_order_id := coalesce (dr_remote_order_id r) (Some remote), dr_updated_ts_ms := now\<rparr>)"

text \<open>\<open>CASE WHEN status IN ('terminal','acked') THEN status ELSE s END\<close>\<close>

definition sticky_status :: "string \<Rightarrow> string \<Rightarrow> string" where
  "sticky_status s st = (if st \<in> {''terminal'', ''acked''} then st else s)"

definition mark_submitted :: "int \<Rightarrow> string \<Rightarrow> string \<Rightarrow> string option \<Rightarrow> dedupe_db \<Rightarrow> dedupe_db" where
  "mark_submitted now exchange_id iid remote =
     upd_dedupe (norm_ex exchange_id) iid
       (\<lambda>r. r\<lparr>dr_remote_order_id := coalesce (dr_remote_order_id r) remote,
              dr_status := sticky_status ''submitted'' (dr_status r),
              dr_updated_ts_ms := now, dr_last_error := None\<rparr>)"

definition mark_unknown :: "int \<Rightarrow> string \<Rightarrow> string \<Rightarrow> string \<Rightarrow> dedupe_db \<Rightarrow> dedupe_db" where
  "mark_unknown now exchange_id iid error =
     upd_dedupe (norm_ex exchange_id) iid
       (\<lambda>r. r\<lparr>dr_status := sticky_status ''unknown'' (dr_status r),
              dr_updated_ts_ms := now, dr_last_error := Some (prefix_to 5000 error)\<rparr>)"

definition mark_error :: "int \<Rightarrow> string \<Rightarrow> string \<Rightarrow> string \<Rightarrow> dedupe_db \<Rightarrow> dedupe_db" where
  "mark_error now exchange_id iid error =
     upd_dedupe (norm_ex exchange_id) iid
       (\<lambda>r. r\<lparr>dr_status := sticky_status ''error'' (dr_status r),
              dr_updated_ts_ms := now, dr_last_error := Some (prefix_to 5000 error)\<rparr>)"

text \<open>The argument \<open>terminal_status\<close> of the method is not stored.\<close>

definition mark_terminal :: "int \<Rightarrow> string \<Rightarrow> string \<Rightarrow> string \<Rightarrow> dedupe_db \<Rightarrow> dedupe_db" where
  "mark_terminal now exchange_id iid terminal_status =
     upd_dedupe (norm_ex exchange_id) iid
       (\<lambda>r. r\<lparr>dr_status := ''terminal'', dr_updated_ts_ms := now, dr_last_error := None\<rparr>)"

definition list_needs_reconcile :: "string \<Rightarrow> int \<Rightarrow> dedupe_db \<Rightarrow> dedupe_row list" where
  "list_needs_reconcile exchange_id limit db =
     sql_limit limit (rev (sort_key dr_updated_ts_ms
       (filter (\<lambda>r. dr_exchange_id r = norm_ex exchange_id \<and>
                    dr_status r \<in> {''created'', ''submitted'', ''unknown'', ''error''}) (dd_rows db))))"

section \<open>The store meets the contract\<close>

definition dd_present :: "string \<times> string \<Rightarrow> dedupe_db \<Rightarrow> bool" where
  "dd_present k db \<longleftrightarrow> k \<in> (\<lambda>r. (dr_exchange_id r, dr_intent_id r)) ` set (dd_rows db)"

text \<open>The answer a caller acts on: the row and \<open>_inserted\<close>.\<close>

definition claim_inserted :: "(exn + dedupe_row \<times> bool) \<Rightarrow> bool" where
  "claim_inserted a = (case a of Inr (r, ins) \<Rightarrow> ins | Inl _ \<Rightarrow> False)"

inductive dedupe_mark :: "dedupe_db \<Rightarrow> dedupe_db \<Rightarrow> bool" where
  "dedupe_mark db (set_remote_id_if_empty now ex iid rem db)"
| "dedupe_mark db (mark_submitted now ex iid mrem db)"
| "dedupe_mark db (mark_unknown now ex iid err db)"
| "dedupe_mark db (mark_error now ex iid err db)"
| "dedupe_mark db (mark_terminal now ex iid ts db)"

inductive_cases dedupe_markE: "dedupe_mark db db'"

lemma norm_ex_idem [simp, py_str]: "norm_ex (norm_ex x) = norm_ex x"
  by (simp add: norm_ex_def str_or_def strip_lower)

lemma upd_dedupe_rows: "dd_rows (upd_dedupe ex iid f db) =
    map (\<lambda>r. if dr_exchange_id r = ex \<and> dr_intent_id r = iid then f r else r) (dd_rows db)"
  by (simp add: upd_dedupe_def upd_where_def)

lemmas mark_defs = set_remote_id_if_empty_def mark_submitted_def mark_unknown_def mark_error_def mark_terminal_def

text \<open>What every mark does to a row: identity fields stay, a remote id is never replaced, a terminal
  status stays terminal.\<close>

definition row_evolves :: "dedupe_row \<Rightarrow> dedupe_row \<Rightarrow> bool" where
  "row_evolves r r' \<longleftrightarrow>
     dr_id r' = dr_id r \<and> dr_exchange_id r' = dr_exchange_id r \<and> dr_intent_id r' = dr_intent_id r \<and>
     dr_symbol r' = dr_symbol r \<and> dr_client_order_id r' = dr_client_order_id r \<and>
     dr_created_ts_ms r' = dr_created_ts_ms r \<and> dr_meta_json r' = dr_meta_json r \<and>
     (dr_remote_order_id r \<noteq> None \<longrightarrow> dr_remote_order_id r' = dr_remote_order_id r) \<and>
     (dr_status r = ''terminal'' \<longrightarrow> dr_status r' = ''terminal'')"

lemma row_evolves_refl [simp]: "row_evolves r r"
  by (simp add: row_evolves_def)

lemma row_evolves_trans: "row_evolves r s \<Longrightarrow> row_evolves s t \<Longrightarrow> row_evolves r t"
  by (simp add: row_evolves_def)

lemma upd_dedupe_evolves:
  assumes "\<And>r. row_evolves r (f r)"
  shows "list_all2 row_evolves (dd_rows db) (dd_rows (upd_dedupe ex iid f db)) \<and> dd_seq (upd_dedupe ex iid f db) = dd_seq db"
  using assms by (auto simp: upd_where_def list_all2_map2 upd_dedupe_def intro!: list_all2_refl)

lemma mark_rows_evolve:
  "row_evolves r (r\<lparr>dr_remote_order_id := coalesce (dr_remote_order_id r) v, dr_updated_ts_ms := n\<rparr>)"
  "row_evolves r (r\<lparr>dr_remote_order_id := coalesce (dr_remote_order_id r) v,
     dr_status := sticky_status s (dr_status r), dr_updated_ts_ms := n, dr_last_error := e\<rparr>)"
  "row_evolves r (r\<lparr>dr_status := sticky_status s (dr_status r), dr_updated_ts_ms := n, dr_last_error := e\<rparr>)"
  "row_evolves r (r\<lparr>dr_status := ''terminal'', dr_updated_ts_ms := n, dr_last_error := e\<rparr>)"
  by (auto simp: row_evolves_def sticky_status_def)

lemma dedupe_mark_rows:
  "dedupe_mark db db' \<Longrightarrow> list_all2 row_evolves (dd_rows db) (dd_rows db') \<and> dd_seq db' = dd_seq db"
  by (erule dedupe_markE; simp only: mark_defs; rule upd_dedupe_evolves; rule mark_rows_evolve)

lemma row_evolves_key: "row_evolves r r' \<Longrightarrow> (dr_exchange_id r', dr_intent_id r') = (dr_exchange_id r, dr_intent_id r)"
  by (simp add: row_evolves_def)

lemma rows_evolve_keys:
  "list_all2 row_evolves rs rs' \<Longrightarrow>
     map (\<lambda>r. (dr_exchange_id r, dr_intent_id r)) rs' = map (\<lambda>r. (dr_exchange_id r, dr_intent_id r)) rs"
  by (induction rule: list_all2_induct) (auto simp: row_evolves_def)

lemma dd_present_mark: "dedupe_mark db db' \<Longrightarrow> dd_present k db' = dd_present k db"
proof -
  assume "dedupe_mark db db'"
  then have "map (\<lambda>r. (dr_exchange_id r, dr_intent_id r)) (dd_rows db') = map (\<lambda>r. (dr_exchange_id r, dr_intent_id r)) (dd_rows db)"
    using dedupe_mark_rows rows_evolve_keys by blast
  from arg_cong[OF this, of set] show ?thesis by (simp add: dd_present_def)
qed

lemma dedupe_claim_rows:
  obtains (old) "dd_rows (snd (dedupe_claim now ex iid sy coid meta db)) = dd_rows db"
      "\<not> claim_inserted (fst (dedupe_claim now ex iid sy coid meta db))"
      "list_ex (\<lambda>r. dr_exchange_id r = norm_ex ex \<and> (dr_intent_id r = iid \<or> dr_client_order_id r = coid)) (dd_rows db)"
  | (new) row where "dd_rows (snd (dedupe_claim now ex iid sy coid meta db)) = dd_rows db @ [row]"
      "fst (dedupe_claim now ex iid sy coid meta db) = Inr (row, True)"
      "dr_exchange_id row = norm_ex ex" "dr_intent_id row = iid" "dr_client_order_id row = coid"
      "dr_id row = Suc (dd_seq db)" "dr_remote_order_id row = None" "dr_status row = ''created''"
      "\<not> list_ex (\<lambda>r. dr_exchange_id r = norm_ex ex \<and> (dr_intent_id r = iid \<or> dr_client_order_id r = coid)) (dd_rows db)"
proof (cases "list_ex (\<lambda>r. dr_exchange_id r = norm_ex ex \<and> (dr_intent_id r = iid \<or> dr_client_order_id r = coid)) (dd_rows db)")
  case True
  then show ?thesis
    by (intro old) (auto simp: dedupe_claim_def Let_def claim_inserted_def split: option.splits)
next
  case False
  then have "List.find (\<lambda>r. dr_exchange_id r = norm_ex ex \<and> dr_intent_id r = iid) (dd_rows db) = None"
    by (auto simp: find_None_iff list_ex_iff)
  then show ?thesis
    using False
    by (intro new[of "\<lparr>dr_id = Suc (dd_seq db), dr_exchange_id = norm_ex ex, dr_intent_id = iid, dr_symbol = sy,
                 dr_client_order_id = coid, dr_remote_order_id = None, dr_status = ''created'',
                 dr_created_ts_ms = now, dr_updated_ts_ms = now, dr_last_error = None,
                 dr_meta_json = prefix_to 200000 meta\<rparr>"])
      (simp_all add: dedupe_claim_def Let_def get_by_intent_def find_snoc)
qed

interpretation dedupe_once: claim_once
  "\<lambda>k (now, sy, coid, meta) db.
     (claim_inserted (fst (dedupe_claim now (fst k) (snd k) sy coid meta db)),
      snd (dedupe_claim now (fst k) (snd k) sy coid meta db))"
  dedupe_mark
  "\<lambda>k. dd_present (norm_ex (fst k), snd k)"
proof (unfold_locales, goal_cases)
  case (1 k a s)
  obtain now sy coid meta where "a = (now, sy, coid, meta)" by (cases a) auto
  then show ?case
    using 1 by (cases rule: dedupe_claim_rows[of now "fst k" "snd k" sy coid meta s])
      (auto simp: dd_present_def list_ex_iff)
next
  case (2 j s k a)
  obtain now sy coid meta where "a = (now, sy, coid, meta)" by (cases a) auto
  then show ?case
    using 2 by (cases rule: dedupe_claim_rows[of now "fst k" "snd k" sy coid meta s])
      (auto simp: dd_present_def)
next
  case (3 s s' j)
  then show ?case by (simp add: dd_present_mark)
qed

section \<open>Histories of the store\<close>

text \<open>Any sequence of method calls, from any number of processes; the answers to the claims in order.\<close>

datatype dedupe_op =
    OpClaim int string string string string string
  | OpSetRemote int string string string
  | OpSubmitted int string string "string option"
  | OpUnknown int string string string
  | OpError int string string string
  | OpTerminal int string string string

fun dedupe_do :: "dedupe_op \<Rightarrow> dedupe_db \<Rightarrow> ((string \<times> string) \<times> bool) list \<times> dedupe_db" where
  "dedupe_do (OpClaim now ex iid sy coid meta) db =
     (let (a, db') = dedupe_claim now ex iid sy coid meta db in ([((norm_ex ex, iid), claim_inserted a)], db'))"
| "dedupe_do (OpSetRemote now ex iid rem) db = ([], set_remote_id_if_empty now ex iid rem db)"
| "dedupe_do (OpSubmitted now ex iid rem) db = ([], mark_submitted now ex iid rem db)"
| "dedupe_do (OpUnknown now ex iid err) db = ([], mark_unknown now ex iid err db)"
| "dedupe_do (OpError now ex iid err) db = ([], mark_error now ex iid err db)"
| "dedupe_do (OpTerminal now ex iid ts) db = ([], mark_terminal now ex iid ts db)"

fun dedupe_run :: "dedupe_op list \<Rightarrow> dedupe_db \<Rightarrow> ((string \<times> string) \<times> bool) list \<times> dedupe_db" where
  "dedupe_run [] db = ([], db)"
| "dedupe_run (x # xs) db =
     (let (h, db1) = dedupe_do x db; (h', db2) = dedupe_run xs db1 in (h @ h', db2))"

lemma dedupe_claim_norm:
  "dedupe_claim now (norm_ex ex) iid sy coid meta db = dedupe_claim now ex iid sy coid meta db"
  by (simp add: dedupe_claim_def)

lemma dedupe_do_history:
  assumes "dedupe_once.history s h t"
  shows "dedupe_once.history s (h @ fst (dedupe_do x t)) (snd (dedupe_do x t))"
proof (cases x)
  case (OpClaim now ex iid sy coid meta)
  show ?thesis
    using dedupe_once.history.claimed[OF assms, of "(norm_ex ex, iid)" "(now, sy, coid, meta)"]
    by (simp add: OpClaim case_prod_beta dedupe_claim_norm)
qed (auto intro!: dedupe_once.history.changed[OF assms] dedupe_mark.intros)

lemma dedupe_run_history:
  assumes "dedupe_once.history s h t"
  shows "dedupe_once.history s (h @ fst (dedupe_run xs t)) (snd (dedupe_run xs t))"
  using assms
proof (induction xs arbitrary: h t)
  case (Cons x xs)
  from Cons.IH[OF dedupe_do_history[OF Cons.prems, of x]] show ?case by (simp add: case_prod_beta)
qed simp

text \<open>Exactly-once claims: in any sequence of claims and marks on the store, by any callers and with
  any spelling of the exchange name, at most one claim of an (exchange, intent) pair is answered with
  \<open>_inserted = True\<close>.\<close>

theorem dedupe_inserts_at_most_once:
  "length (filter (\<lambda>e. e = ((ex, iid), True)) (fst (dedupe_run ops db))) \<le> 1"
  using dedupe_once.at_most_one_insert[OF dedupe_run_history[OF dedupe_once.history.start], of "(ex, iid)" ops db]
  by simp

section \<open>Rows are write-once where it matters\<close>

definition dedupe_inv :: "dedupe_db \<Rightarrow> bool" where
  "dedupe_inv db \<longleftrightarrow>
     distinct (map (\<lambda>r. (dr_exchange_id r, dr_intent_id r)) (dd_rows db)) \<and>
     distinct (map (\<lambda>r. (dr_exchange_id r, dr_client_order_id r)) (dd_rows db)) \<and>
     map dr_id (dd_rows db) = [1..<Suc (dd_seq db)] \<and>
     (\<forall>e \<in> dr_exchange_id ` set (dd_rows db). norm_ex e = e)"

lemma rows_evolve_proj:
  assumes "list_all2 row_evolves rs rs'" "\<And>r r'. row_evolves r r' \<Longrightarrow> f r' = f r"
  shows "map f rs' = map f rs"
  using assms by (induction rule: list_all2_induct) auto

lemma rows_evolve_trans:
  "list_all2 row_evolves a b \<Longrightarrow> list_all2 row_evolves b c \<Longrightarrow> list_all2 row_evolves a c"
  unfolding list_all2_conv_all_nth by (metis row_evolves_trans)

lemma dedupe_mark_prefix:
  assumes "dedupe_mark db db'"
  shows "length (dd_rows db) \<le> length (dd_rows db') \<and>
    list_all2 row_evolves (dd_rows db) (take (length (dd_rows db)) (dd_rows db'))"
proof -
  have ev: "list_all2 row_evolves (dd_rows db) (dd_rows db')" using dedupe_mark_rows[OF assms] by blast
  then show ?thesis using list_all2_lengthD[OF ev] by simp
qed

text \<open>One call: old rows evolve in place, new rows are appended.\<close>

lemma dedupe_do_rows:
  "length (dd_rows db) \<le> length (dd_rows (snd (dedupe_do x db))) \<and>
   list_all2 row_evolves (dd_rows db) (take (length (dd_rows db)) (dd_rows (snd (dedupe_do x db))))"
proof (cases x)
  case (OpClaim now ex iid sy coid meta)
  show ?thesis
    by (cases rule: dedupe_claim_rows[of now ex iid sy coid meta db])
      (auto simp: OpClaim case_prod_beta intro: list_all2_refl)
qed (simp_all only: dedupe_do.simps snd_conv dedupe_mark_prefix dedupe_mark.intros)

lemma dedupe_run_rows:
  "length (dd_rows db) \<le> length (dd_rows (snd (dedupe_run xs db))) \<and>
   list_all2 row_evolves (dd_rows db) (take (length (dd_rows db)) (dd_rows (snd (dedupe_run xs db))))"
proof (induction xs arbitrary: db)
  case (Cons x xs)
  let ?a = "dd_rows db" and ?b = "dd_rows (snd (dedupe_do x db))"
    and ?c = "dd_rows (snd (dedupe_run xs (snd (dedupe_do x db))))"
  have ab: "length ?a \<le> length ?b" "list_all2 row_evolves ?a (take (length ?a) ?b)" using dedupe_do_rows by auto
  have bc: "length ?b \<le> length ?c" "list_all2 row_evolves ?b (take (length ?b) ?c)" using Cons.IH by auto
  have "list_all2 row_evolves (take (length ?a) ?b) (take (length ?a) ?c)"
    using list_all2_takeI[OF bc(2), of "length ?a"] ab(1) by (simp add: min_absorb1)
  then have "list_all2 row_evolves ?a (take (length ?a) ?c)"
    using ab(2) by (auto intro: rows_evolve_trans)
  then show ?case using ab bc by (simp add: case_prod_beta)
qed (simp add: list_all2_refl)

text \<open>What the store promises about a row, over any sequence of calls: the row stays, its exchange,
  intent, symbol and client order id never change, an exchange order id once recorded is never
  replaced, and \<open>terminal\<close> is final.\<close>

theorem dedupe_row_write_once:
  assumes "i < length (dd_rows db)"
  shows "i < length (dd_rows (snd (dedupe_run ops db))) \<and>
         row_evolves (dd_rows db ! i) (dd_rows (snd (dedupe_run ops db)) ! i)"
  using dedupe_run_rows[of db ops] assms by (auto simp: list_all2_conv_all_nth)

definition sample_dedupe :: dedupe_db where
  "sample_dedupe = snd (dedupe_run [OpClaim 1 '' Coinbase'' ''i1'' ''BTC/USD'' ''c1'' ''{}'',
                                    OpSubmitted 2 ''coinbase'' ''i1'' (Some ''x9'')] empty_dedupe)"

theorem dedupe_row_write_once_witness:
  "\<exists>r r'. dd_rows sample_dedupe = [r] \<and> dr_remote_order_id r = Some ''x9'' \<and>
     dd_rows (snd (dedupe_run [OpSubmitted 3 ''COINBASE'' ''i1'' (Some ''x10''), OpTerminal 4 ''coinbase'' ''i1'' ''filled'']
        sample_dedupe)) = [r'] \<and> row_evolves r r'"
proof -
  let ?ops = "[OpSubmitted 3 ''COINBASE'' ''i1'' (Some ''x10''), OpTerminal 4 ''coinbase'' ''i1'' ''filled'']"
  have l: "length (dd_rows sample_dedupe) = 1" "map dr_remote_order_id (dd_rows sample_dedupe) = [Some ''x9'']"
    "length (dd_rows (snd (dedupe_run ?ops sample_dedupe))) = 1"
    by code_simp+
  then obtain r r' where "dd_rows sample_dedupe = [r]" "dr_remote_order_id r = Some ''x9''"
    "dd_rows (snd (dedupe_run ?ops sample_dedupe)) = [r']"
    by (auto simp: length_Suc_conv)
  with dedupe_row_write_once[of 0 sample_dedupe ?ops] show ?thesis by simp
qed

lemma dedupe_do_inv:
  assumes "dedupe_inv db"
  shows "dedupe_inv (snd (dedupe_do x db))"
proof -
  have mark: "dedupe_inv db'" if "dedupe_mark db db'" for db'
  proof -
    have ev: "list_all2 row_evolves (dd_rows db) (dd_rows db')" and sq: "dd_seq db' = dd_seq db"
      using dedupe_mark_rows[OF that] by auto
    have ex: "dr_exchange_id ` set (dd_rows db') = dr_exchange_id ` set (dd_rows db)"
      using arg_cong[OF rows_evolve_proj[OF ev, of dr_exchange_id], of set] by (simp add: row_evolves_def)
    have "map (\<lambda>r. (dr_exchange_id r, dr_intent_id r)) (dd_rows db') = map (\<lambda>r. (dr_exchange_id r, dr_intent_id r)) (dd_rows db)"
      "map (\<lambda>r. (dr_exchange_id r, dr_client_order_id r)) (dd_rows db') = map (\<lambda>r. (dr_exchange_id r, dr_client_order_id r)) (dd_rows db)"
      "map dr_id (dd_rows db') = map dr_id (dd_rows db)"
      by (rule rows_evolve_proj[OF ev], simp add: row_evolves_def)+
    then show ?thesis using assms ex by (simp add: dedupe_inv_def sq)
  qed
  show ?thesis
  proof (cases x)
    case (OpClaim now ex iid sy coid meta)
    show ?thesis
    proof (cases rule: dedupe_claim_rows[of now ex iid sy coid meta db])
      case old
      then have "dedupe_claim now ex iid sy coid meta db = (fst (dedupe_claim now ex iid sy coid meta db), db)"
        by (simp add: dedupe_claim_def Let_def)
      then show ?thesis using assms by (metis OpClaim case_prod_conv dedupe_do.simps(1) snd_conv)
    next
      case (new row)
      have "dd_seq (snd (dedupe_claim now ex iid sy coid meta db)) = Suc (dd_seq db)"
        using new(9) by (simp add: dedupe_claim_def Let_def)
      then show ?thesis
        using assms new by (auto simp: OpClaim case_prod_beta dedupe_inv_def list_ex_iff)
    qed
  qed (auto intro!: mark dedupe_mark.intros)
qed

text \<open>The unique indexes hold in every state the methods can reach, exchange names are stored
  normalised and ids are consecutive.\<close>

lemma dedupe_run_inv: "dedupe_inv db \<Longrightarrow> dedupe_inv (snd (dedupe_run xs db))"
  by (induction xs arbitrary: db) (auto simp: case_prod_beta dest: dedupe_do_inv)

lemma dedupe_inv_empty: "dedupe_inv empty_dedupe"
  by (simp add: dedupe_inv_def empty_dedupe_def)

end
