(* ===== verification/Live_Trading_Store.thy ===== *)
theory Live_Trading_Store
  imports Py_Prelude
begin

text \<open>
  storage/live\_trading\_sqlite.py: the orders the live consumer and the reconciler record under their client
  order id, and the exchange fills. The primary key of a fill, \<open>json.dumps\<close> of venue, symbol and trade
  id, is the triple itself (the encoding is injective). The migration of legacy fill tables is not
  modelled.
\<close>

section \<open>Definitions\<close>

record live_order =
  lo_client_order_id :: string
  lo_created_ts :: string
  lo_venue :: string
  lo_symbol :: string
  lo_side :: string
  lo_order_type :: string
  lo_qty :: pyfloat
  lo_limit_price :: "pyfloat option"
  lo_exchange_order_id :: "string option"
  lo_status :: string
  lo_last_error :: "string option"

record live_fill =
  lf_fill_key :: "string \<times> string \<times> string"
  lf_trade_id :: string
  lf_ts :: string
  lf_venue :: string
  lf_symbol :: string
  lf_side :: string
  lf_qty :: pyfloat
  lf_price :: pyfloat
  lf_fee :: "pyfloat option"
  lf_fee_currency :: "string option"
  lf_client_order_id :: "string option"
  lf_exchange_order_id :: "string option"

record live_trading =
  lt_orders :: "live_order list"
  lt_fills :: "live_fill list"

definition empty_live_trading :: live_trading where
  "empty_live_trading = \<lparr>lt_orders = [], lt_fills = []\<rparr>"

definition live_fill_key :: "string \<Rightarrow> string \<Rightarrow> string \<Rightarrow> string \<times> string \<times> string" where
  "live_fill_key venue symbol trade_id = (venue, symbol, trade_id)"

definition trading_finite_real_input :: "string \<Rightarrow> bool \<Rightarrow> num_arg option \<Rightarrow> exn + pyfloat option" where
  "trading_finite_real_input name required v =
     (case v of
        None \<Rightarrow> if required then Inl (ValueError (''invalid_live_trading_numeric:'' @ name @ '':missing'')) else Inr None
      | Some x \<Rightarrow>
         (case decimal_value name x of
            Inl (ValueError m) \<Rightarrow> Inl (ValueError (''invalid_live_trading_numeric:'' @ name @ '':'' @ m))
          | Inl e \<Rightarrow> Inl e
          | Inr d \<Rightarrow> if isfinite (mk_float d) then Inr (Some (mk_float d))
                     else Inl (ValueError (''invalid_live_trading_numeric:'' @ name @ '':non_finite_float''))))"

text \<open>The dictionary \<open>upsert_order\<close> receives.\<close>

record live_order_row =
  or_client_order_id :: string
  or_created_ts :: "string option"
  or_venue :: string
  or_symbol :: string
  or_side :: string
  or_order_type :: string
  or_qty :: "num_arg option"
  or_limit_price :: "num_arg option"
  or_exchange_order_id :: "string option"
  or_status :: string
  or_last_error :: "string option"

definition upsert_order :: "string \<Rightarrow> live_order_row \<Rightarrow> live_trading \<Rightarrow> exn + live_trading" where
  "upsert_order now r db =
     (case trading_finite_real_input ''qty'' True (or_qty r) of
        Inl e \<Rightarrow> Inl e
      | Inr None \<Rightarrow> Inl (IntegrityError ''NOT NULL constraint failed: live_orders.qty'')
      | Inr (Some qty) \<Rightarrow>
     (case trading_finite_real_input ''limit_price'' False (or_limit_price r) of
        Inl e \<Rightarrow> Inl e
      | Inr lp \<Rightarrow>
          Inr (if select_key lo_client_order_id (or_client_order_id r) (lt_orders db) = None
               then db\<lparr>lt_orders := lt_orders db @
                 [\<lparr>lo_client_order_id = or_client_order_id r, lo_created_ts = opt_str_or (or_created_ts r) now,
                   lo_venue = or_venue r, lo_symbol = or_symbol r, lo_side = or_side r,
                   lo_order_type = or_order_type r, lo_qty = qty, lo_limit_price = lp,
                   lo_exchange_order_id = or_exchange_order_id r, lo_status = or_status r,
                   lo_last_error = or_last_error r\<rparr>]\<rparr>
               else db\<lparr>lt_orders := upd_where (\<lambda>x. lo_client_order_id x = or_client_order_id r)
                 (\<lambda>x. x\<lparr>lo_venue := or_venue r, lo_symbol := or_symbol r, lo_side := or_side r,
                        lo_order_type := or_order_type r, lo_qty := qty, lo_limit_price := lp,
                        lo_exchange_order_id := or_exchange_order_id r, lo_status := or_status r,
                        lo_last_error := or_last_error r\<rparr>) (lt_orders db)\<rparr>)))"

definition list_orders :: "int \<Rightarrow> live_trading \<Rightarrow> live_order list" where
  "list_orders limit db = sql_limit limit (rev (sort_key lo_created_ts (lt_orders db)))"

record live_fill_row =
  flr_trade_id :: string
  flr_ts :: string
  flr_venue :: string
  flr_symbol :: string
  flr_side :: string
  flr_qty :: "num_arg option"
  flr_price :: "num_arg option"
  flr_fee :: "num_arg option"
  flr_fee_currency :: "string option"
  flr_client_order_id :: "string option"
  flr_exchange_order_id :: "string option"

text \<open>\<open>INSERT OR IGNORE\<close>: the first report of a fill wins.\<close>

definition insert_fill :: "live_fill_row \<Rightarrow> live_trading \<Rightarrow> exn + live_trading" where
  "insert_fill r db =
     (case trading_finite_real_input ''qty'' True (flr_qty r) of
        Inl e \<Rightarrow> Inl e
      | Inr qty \<Rightarrow>
     (case trading_finite_real_input ''price'' True (flr_price r) of
        Inl e \<Rightarrow> Inl e
      | Inr price \<Rightarrow>
     (case trading_finite_real_input ''fee'' False (flr_fee r) of
        Inl e \<Rightarrow> Inl e
      | Inr fee \<Rightarrow>
        (case (qty, price, select_key lf_fill_key (live_fill_key (flr_venue r) (flr_symbol r) (flr_trade_id r)) (lt_fills db)) of
           (Some q, Some p, None) \<Rightarrow>
             Inr (db\<lparr>lt_fills := lt_fills db @
               [\<lparr>lf_fill_key = live_fill_key (flr_venue r) (flr_symbol r) (flr_trade_id r), lf_trade_id = flr_trade_id r,
                 lf_ts = flr_ts r, lf_venue = flr_venue r, lf_symbol = flr_symbol r, lf_side = flr_side r,
                 lf_qty = q, lf_price = p, lf_fee = fee, lf_fee_currency = flr_fee_currency r,
                 lf_client_order_id = flr_client_order_id r, lf_exchange_order_id = flr_exchange_order_id r\<rparr>]\<rparr>)
         | _ \<Rightarrow> Inr db))))"

definition list_fills :: "int \<Rightarrow> live_trading \<Rightarrow> live_fill list" where
  "list_fills limit db = sql_limit limit (rev (sort_key lf_ts (lt_fills db)))"

section \<open>Lemmas\<close>

lemma trading_input_finite:
  "trading_finite_real_input n req v = Inr (Some x) \<Longrightarrow> isfinite x"
  by (auto simp: trading_finite_real_input_def split: option.splits if_splits sum.splits exn.splits)

definition get_order :: "string \<Rightarrow> live_trading \<Rightarrow> live_order option" where
  "get_order c db = select_key lo_client_order_id c (lt_orders db)"

lemma list_all_upd_where:
  "list_all P t \<Longrightarrow> (\<And>x. P x \<Longrightarrow> P (f x)) \<Longrightarrow> list_all P (upd_where Q f t)"
  by (auto simp: upd_where_def list_all_iff)

text \<open>The well-formedness of the store: keys are unique and every stored number is finite.\<close>

definition finite_opt :: "pyfloat option \<Rightarrow> bool" where
  "finite_opt v = (case v of None \<Rightarrow> True | Some x \<Rightarrow> isfinite x)"

definition live_trading_inv :: "live_trading \<Rightarrow> bool" where
  "live_trading_inv db \<longleftrightarrow>
     distinct (map lo_client_order_id (lt_orders db)) \<and> distinct (map lf_fill_key (lt_fills db)) \<and>
     list_all (\<lambda>r. isfinite (lo_qty r) \<and> finite_opt (lo_limit_price r)) (lt_orders db) \<and>
     list_all (\<lambda>f. isfinite (lf_qty f) \<and> isfinite (lf_price f) \<and> finite_opt (lf_fee f)) (lt_fills db)"

lemma trading_input_finite_opt: "trading_finite_real_input n req v = Inr x \<Longrightarrow> finite_opt x"
  by (cases x) (auto simp: finite_opt_def dest: trading_input_finite)

lemma upsert_order_inv:
  assumes inv: "live_trading_inv db" and up: "upsert_order now r db = Inr db'"
  shows "live_trading_inv db'"
proof -
  obtain qty lp where q: "trading_finite_real_input ''qty'' True (or_qty r) = Inr (Some qty)"
    and l: "trading_finite_real_input ''limit_price'' False (or_limit_price r) = Inr lp"
    using up by (auto simp: upsert_order_def split: sum.splits option.splits)
  have fin: "isfinite qty" "finite_opt lp" using trading_input_finite[OF q] trading_input_finite_opt[OF l] .
  show ?thesis
  proof (cases "select_key lo_client_order_id (or_client_order_id r) (lt_orders db)")
    case None
    then show ?thesis using up q l inv fin by (auto simp: upsert_order_def live_trading_inv_def tbl)
  next
    case (Some x)
    then show ?thesis using up q l inv fin
      by (auto simp: upsert_order_def live_trading_inv_def map_key_upd_where intro!: list_all_upd_where)
  qed
qed

lemma insert_fill_inv:
  assumes inv: "live_trading_inv db" and ins: "insert_fill r db = Inr db'"
  shows "live_trading_inv db'"
proof -
  obtain qty price fee where i: "trading_finite_real_input ''qty'' True (flr_qty r) = Inr qty"
    "trading_finite_real_input ''price'' True (flr_price r) = Inr price"
    "trading_finite_real_input ''fee'' False (flr_fee r) = Inr fee"
    using ins by (auto simp: insert_fill_def split: sum.splits)
  have fin: "finite_opt qty" "finite_opt price" "finite_opt fee" using i trading_input_finite_opt by blast+
  show ?thesis
    using ins i inv fin
    by (cases qty; cases price;
        cases "select_key lf_fill_key (live_fill_key (flr_venue r) (flr_symbol r) (flr_trade_id r)) (lt_fills db)")
      (auto simp: insert_fill_def live_trading_inv_def select_key_None finite_opt_def[of "Some _"])
qed

section \<open>Properties\<close>

text \<open>An order record round-trips: after an accepted \<open>upsert_order\<close> the order found under its client
  order id has exactly the fields that were written, with finite numbers, except for \<open>created_ts\<close>, which is
  that of the first write; no other order and no fill changes.\<close>

theorem upsert_order_lookup:
  assumes "upsert_order now r db = Inr db'"
  shows "\<exists>x. get_order (or_client_order_id r) db' = Some x \<and>
     lo_venue x = or_venue r \<and> lo_symbol x = or_symbol r \<and> lo_side x = or_side r \<and>
     lo_order_type x = or_order_type r \<and> lo_exchange_order_id x = or_exchange_order_id r \<and>
     lo_status x = or_status r \<and> lo_last_error x = or_last_error r \<and> isfinite (lo_qty x) \<and>
     trading_finite_real_input ''qty'' True (or_qty r) = Inr (Some (lo_qty x)) \<and>
     trading_finite_real_input ''limit_price'' False (or_limit_price r) = Inr (lo_limit_price x) \<and>
     lo_created_ts x = (case get_order (or_client_order_id r) db of
        Some y \<Rightarrow> lo_created_ts y | None \<Rightarrow> opt_str_or (or_created_ts r) now) \<and>
     (\<forall>c. c \<noteq> or_client_order_id r \<longrightarrow> get_order c db' = get_order c db) \<and> lt_fills db' = lt_fills db"
proof -
  obtain qty lp where q: "trading_finite_real_input ''qty'' True (or_qty r) = Inr (Some qty)"
    and l: "trading_finite_real_input ''limit_price'' False (or_limit_price r) = Inr lp"
    using assms by (auto simp: upsert_order_def split: sum.splits option.splits)
  have fin: "isfinite qty" using trading_input_finite[OF q] .
  show ?thesis
  proof (cases "select_key lo_client_order_id (or_client_order_id r) (lt_orders db)")
    case None
    then show ?thesis using assms q l fin
      by (auto simp: upsert_order_def get_order_def select_key_append select_key_Cons split: option.splits)
  next
    case (Some y)
    have same: "get_order c db' = get_order c db" if "c \<noteq> or_client_order_id r" for c
      using assms q l Some that
      by (cases "get_order c db") (auto simp: upsert_order_def get_order_def select_key_upd_where dest: select_key_Some_mem)
    have "lo_client_order_id y = or_client_order_id r" using select_key_Some_mem[OF Some] by simp
    then show ?thesis using assms q l fin Some same
      by (auto simp: upsert_order_def get_order_def select_key_upd_where)
  qed
qed

text \<open>Re-reporting a fill under the same venue, symbol and trade id changes nothing.\<close>

lemma insert_fill_first_wins:
  assumes "insert_fill r db = Inr db1" "insert_fill r' db1 = Inr db2"
    and "live_fill_key (flr_venue r') (flr_symbol r') (flr_trade_id r') = live_fill_key (flr_venue r) (flr_symbol r) (flr_trade_id r)"
  shows "db2 = db1"
proof -
  let ?k = "live_fill_key (flr_venue r) (flr_symbol r) (flr_trade_id r)"
  obtain qty price fee where i: "trading_finite_real_input ''qty'' True (flr_qty r) = Inr qty"
    "trading_finite_real_input ''price'' True (flr_price r) = Inr price"
    "trading_finite_real_input ''fee'' False (flr_fee r) = Inr fee"
    using assms(1) by (auto simp: insert_fill_def split: sum.splits)
  have req: "trading_finite_real_input n True v = Inr x \<Longrightarrow> x \<noteq> None" for n v x
    by (auto simp: trading_finite_real_input_def split: option.splits if_splits sum.splits exn.splits)
  have "select_key lf_fill_key ?k (lt_fills db1) \<noteq> None"
    using assms(1) i req[OF i(1)] req[OF i(2)]
    by (auto simp: insert_fill_def select_key_append select_key_Cons split: option.splits)
  then show ?thesis using assms(2,3) by (auto simp: insert_fill_def split: sum.splits option.splits)
qed

definition sample_order_row :: live_order_row where
  "sample_order_row = \<lparr>or_client_order_id = ''c1'', or_created_ts = None, or_venue = ''v'', or_symbol = ''s'',
     or_side = ''buy'', or_order_type = ''market'', or_qty = Some (NumFin 1), or_limit_price = None,
     or_exchange_order_id = None, or_status = ''submitted'', or_last_error = None\<rparr>"

theorem upsert_order_lookup_witness:
  "\<exists>db' x. upsert_order ''n'' sample_order_row empty_live_trading = Inr db' \<and> get_order ''c1'' db' = Some x \<and>
     lo_status x = ''submitted'' \<and> lo_created_ts x = ''n''"
proof -
  obtain db' where u: "upsert_order ''n'' sample_order_row empty_live_trading = Inr db'"
    using mk_float_of_int[of 1]
    by (auto simp: upsert_order_def sample_order_row_def trading_finite_real_input_def decimal_value_def)
  from upsert_order_lookup[OF u] u show ?thesis
    by (auto simp: sample_order_row_def get_order_def empty_live_trading_def opt_str_or_def)
qed

end
