(* ===== verification/Intent_TTL.thy ===== *)
theory Intent_TTL
  imports Py_Prelude
begin

text \<open>
  services/execution/intent\_ttl.py: the age check an intent passes before it may be submitted.
  \<open>datetime.fromisoformat(...).timestamp()\<close> is the argument \<open>fromiso\<close> (\<open>None\<close> when it raises); naive time
  stamps are read as UTC by it. An environment override is \<open>env_num\<close>: unset or blank, not a number, or
  a float.
\<close>

datatype env_num = EnvUnset | EnvInvalid | EnvFloat pyfloat

text \<open>An override that is invalid, not finite or not positive falls back to the default. The stale-submitting
  threshold of the live consumer has the same body.\<close>

definition positive_override :: "pyfloat \<Rightarrow> env_num \<Rightarrow> pyfloat" where
  "positive_override dflt raw =
     (case raw of EnvUnset \<Rightarrow> dflt | EnvInvalid \<Rightarrow> dflt
      | EnvFloat v \<Rightarrow> if \<not> isfinite v \<or> fle v (Fin 0) then dflt else v)"

definition max_intent_age_s :: "env_num \<Rightarrow> pyfloat" where
  "max_intent_age_s raw = positive_override (Fin 300) raw"

definition parse_created_epoch :: "(string \<Rightarrow> pyfloat option) \<Rightarrow> string option \<Rightarrow> pyfloat option" where
  "parse_created_epoch fromiso created_ts =
     (case created_ts of
        None \<Rightarrow> None
      | Some s \<Rightarrow>
         (let raw = strip s;
              raw' = (if raw \<noteq> '''' \<and> last raw = CHR ''Z'' then butlast raw @ ''+00:00'' else raw)
          in if raw = '''' then None
             else case fromiso raw' of
                    None \<Rightarrow> None
                  | Some epoch \<Rightarrow> if isfinite epoch \<and> flt (Fin 0) epoch then Some epoch else None))"

record ttl_result =
  ttl_ok :: bool
  ttl_reason :: string
  ttl_age_s :: "pyfloat option"
  ttl_max_age_s :: pyfloat

definition check_intent_age ::
    "(string \<Rightarrow> pyfloat option) \<Rightarrow> env_num \<Rightarrow> pyfloat \<Rightarrow> string option \<Rightarrow> ttl_result" where
  "check_intent_age fromiso raw now created_ts =
     (let max_age = max_intent_age_s raw;
          out = (\<lambda>ok reason age. \<lparr>ttl_ok = ok, ttl_reason = reason, ttl_age_s = age, ttl_max_age_s = max_age\<rparr>)
      in if \<not> isfinite now \<or> fle now (Fin 0) then out False ''intent_ttl:invalid_now'' None
         else if (case created_ts of None \<Rightarrow> True | Some s \<Rightarrow> strip s = '''') then
           out False ''intent_ttl:missing_created_ts'' None
         else case parse_created_epoch fromiso created_ts of
           None \<Rightarrow> out False ''intent_ttl:invalid_created_ts'' None
         | Some epoch \<Rightarrow>
             (let age_s = fsub now epoch
              in if flt age_s (Fin (- 60)) then out False ''intent_ttl:future_created_ts'' (Some age_s)
                 else if flt max_age age_s
                   then out False (''intent_ttl:expired:'' @ float_text0 age_s @ ''s'') (Some age_s)
                 else out True ''ok'' (Some age_s)))"

section \<open>Properties\<close>

lemma positive_override_ok:
  assumes "isfinite dflt" "flt (Fin 0) dflt"
  shows "isfinite (positive_override dflt raw) \<and> flt (Fin 0) (positive_override dflt raw)"
  using assms by (auto simp: positive_override_def split: env_num.splits) (metis fle.simps(1) flt.simps(1) isfinite.elims(2) not_less)

text \<open>The age check fails closed: an intent is let through exactly when its creation time was
  present, parsed to a positive finite epoch, and lies between sixty seconds in the future and the maximum
  age in the past, the maximum age being a positive finite number whatever the environment says.\<close>

theorem intent_age_fails_closed:
  "isfinite (max_intent_age_s raw) \<and> flt (Fin 0) (max_intent_age_s raw) \<and>
   (ttl_ok (check_intent_age fromiso raw now created) \<longleftrightarrow>
      isfinite now \<and> flt (Fin 0) now \<and>
      (\<exists>epoch. parse_created_epoch fromiso created = Some epoch \<and> isfinite epoch \<and> flt (Fin 0) epoch \<and>
         \<not> flt (fsub now epoch) (Fin (- 60)) \<and> \<not> flt (max_intent_age_s raw) (fsub now epoch)))"
proof -
  have m: "isfinite (max_intent_age_s raw) \<and> flt (Fin 0) (max_intent_age_s raw)"
    unfolding max_intent_age_s_def by (rule positive_override_ok) simp_all
  have p: "isfinite e \<and> flt (Fin 0) e" if "parse_created_epoch fromiso created = Some e" for e
    using that by (auto simp: parse_created_epoch_def Let_def split: option.splits if_splits)
  have b: "parse_created_epoch fromiso created = None"
    if "case created of None \<Rightarrow> True | Some s \<Rightarrow> strip s = ''''"
    using that by (auto simp: parse_created_epoch_def split: option.splits)
  have n: "\<not> isfinite now \<or> fle now (Fin 0) \<longleftrightarrow> \<not> (isfinite now \<and> flt (Fin 0) now)"
    by (cases now) auto
  have "ttl_ok (check_intent_age fromiso raw now created) \<longleftrightarrow>
      isfinite now \<and> flt (Fin 0) now \<and>
      (\<exists>epoch. parse_created_epoch fromiso created = Some epoch \<and>
         \<not> flt (fsub now epoch) (Fin (- 60)) \<and> \<not> flt (max_intent_age_s raw) (fsub now epoch))"
    unfolding check_intent_age_def Let_def n using b
    by (cases "parse_created_epoch fromiso created") (auto split: option.splits)
  then show ?thesis using m p by auto
qed

end
