(* ===== verification/Live_Intent_Consumer.thy ===== *)
theory Live_Intent_Consumer
  imports State_Authority Order_Dedupe Live_Trading_Store Intent_TTL
begin

text \<open>
  services/execution/live\_intent\_consumer.py: the process that turns queued live intents into exchange
  orders. Its world is the three stores it writes (live queue, order dedupe table, live order table) and
  the trace of the \<open>submit_order\<close> calls it made. A handler is a function of the world that returns or raises;
  what it has written before it raises stays written.

  What the consumer asks of the outside is a record of answers, one per handled intent: the market-quality
  guard, the venue clock, the risk configuration, the order router, and the exchange adapter (constructor, order
  lookup by client id before and after the submit, the submit itself). Each answer may be an exception.
  \<open>consumer_deps\<close> holds the pure functions it calls: time-stamp parsing, venue and symbol normalisation and
  the text of an exception.
\<close>

section \<open>World and effects\<close>

datatype consumer_exn = PyExn exn | StateViolation state_violation | Ext string

record submit_call =
  sc_venue :: string
  sc_intent_id :: string
  sc_client_order_id :: string
  sc_symbol :: string
  sc_side :: string
  sc_order_type :: string
  sc_qty :: pyfloat
  sc_limit_price :: "pyfloat option"

record world =
  w_queue :: live_queue
  w_orders :: live_trading
  w_dedupe :: dedupe_db
  w_submits :: "submit_call list"

type_synonym 'a act = "world \<Rightarrow> (consumer_exn + 'a) \<times> world"

definition ret :: "'a \<Rightarrow> 'a act" where
  "ret x w = (Inr x, w)"

definition throw :: "consumer_exn \<Rightarrow> 'a act" where
  "throw e w = (Inl e, w)"

definition bnd :: "'a act \<Rightarrow> ('a \<Rightarrow> 'b act) \<Rightarrow> 'b act" where
  "bnd m f w = (case m w of (Inl e, w') \<Rightarrow> (Inl e, w') | (Inr x, w') \<Rightarrow> f x w')"

definition try_except :: "'a act \<Rightarrow> (consumer_exn \<Rightarrow> 'a act) \<Rightarrow> 'a act" where
  "try_except m h w = (case m w of (Inl e, w') \<Rightarrow> h e w' | (Inr x, w') \<Rightarrow> (Inr x, w'))"

section \<open>Answers from outside\<close>

record consumer_deps =
  cd_fromiso :: "string \<Rightarrow> pyfloat option"
  cd_venue :: "string \<Rightarrow> string"
  cd_symbol :: "string \<Rightarrow> string"
  cd_err_text :: "consumer_exn \<Rightarrow> string"

record mq_answer =
  mq_ok :: bool
  mq_reason :: "string option"
  mq_last :: "num_arg option"

record risk_limits_answer =
  rl_min_order_notional_quote :: num_arg
  rl_max_trades_per_day :: int
  rl_max_daily_notional_quote :: num_arg

record order_decision =
  od_allowed :: bool
  od_reason :: string
  od_side :: string
  od_order_type :: string
  od_qty :: pyfloat
  od_limit_price :: "pyfloat option"

datatype lookup_answer = LookupFailed | NotFound | Found string

record consumer_env =
  ce_now :: string
  ce_now_ms :: int
  ce_today :: string
  ce_epoch :: pyfloat
  ce_max_age :: env_num
  ce_mq :: "string + mq_answer"
  ce_clock :: "consumer_exn + bool \<times> string option"
  ce_risk_cfg :: "risk_limits_answer option"
  ce_decision :: "consumer_exn + order_decision"
  ce_adapter_error :: "consumer_exn option"
  ce_lookup :: lookup_answer
  ce_submit :: "consumer_exn + string"
  ce_lookup_after :: lookup_answer

section \<open>Risk\<close>

definition risk_reset_if_needed :: "string \<Rightarrow> live_queue \<Rightarrow> live_queue" where
  "risk_reset_if_needed today q =
     (if live_get_state ''risk:day'' q = Some (TxStr today) then q else reset_risk_state_for_day today q)"

text \<open>\<open>limit_price or (last or 0.0)\<close>; zero is falsy.\<close>

definition intent_notional_estimate :: "live_intent \<Rightarrow> mq_answer \<Rightarrow> exn + rat" where
  "intent_notional_estimate it mq =
     (let lastp = (case mq_last mq of None \<Rightarrow> NumFin 0 | Some v \<Rightarrow> v);
          price = (case li_limit_price it of None \<Rightarrow> lastp | Some p \<Rightarrow> if p = Fin 0 then lastp else num_of_float p)
      in decimal_product (num_of_float (li_qty it)) price)"

definition risk_check_and_claim ::
    "string \<Rightarrow> risk_limits_answer option \<Rightarrow> rat \<Rightarrow> live_queue \<Rightarrow> (exn + bool \<times> string option) \<times> live_queue" where
  "risk_check_and_claim today cfg notional_est q =
     (case cfg of
        None \<Rightarrow> (Inr (False, Some ''risk:config_load_failed''), q)
      | Some c \<Rightarrow>
         (let q1 = risk_reset_if_needed today q
          in case decimal_value ''min_order_notional_quote'' (rl_min_order_notional_quote c) of
               Inl e \<Rightarrow> (Inl e, q1)
             | Inr mn \<Rightarrow>
                 if 0 < mn \<and> notional_est < mn then (Inr (False, Some ''risk:min_order_notional_quote''), q1)
                 else (let (r, q2) = atomic_risk_claim (rl_max_trades_per_day c) (rl_max_daily_notional_quote c)
                                       (NumFin notional_est) q1
                       in (Inr r, q2))))"

section \<open>Writes\<close>

definition consumer_ctx :: "string \<Rightarrow> live_state_context" where
  "consumer_ctx origin = \<lparr>ctx_authority = INTENT_CONSUMER, ctx_origin = origin\<rparr>"

definition queue_write ::
    "string \<Rightarrow> string \<Rightarrow> live_intent \<Rightarrow> string \<Rightarrow> string option \<Rightarrow> string option \<Rightarrow> string option \<Rightarrow> bool act" where
  "queue_write origin now it status last_error coid eoid w =
     (case update_live_queue_status_as_intent_consumer now
             \<lparr>snap_intent_id = Some (li_intent_id it), snap_status = Some (li_status it)\<rparr> (Some status)
             (Some (consumer_ctx origin))
             \<lparr>wa_last_error = last_error, wa_client_order_id = coid, wa_exchange_order_id = eoid,
              wa_event_action = None, wa_event_reason = None, wa_event_meta = None\<rparr> (w_queue w) of
        Inl e \<Rightarrow> (Inl (StateViolation e), w)
      | Inr (ok, q') \<Rightarrow> (Inr ok, w\<lparr>w_queue := q'\<rparr>))"

definition order_write ::
    "string \<Rightarrow> live_intent \<Rightarrow> string \<Rightarrow> string \<Rightarrow> string \<Rightarrow> string option \<Rightarrow> string \<Rightarrow> string option \<Rightarrow> unit act" where
  "order_write now it venue symbol coid eoid status last_error w =
     (case upsert_order now
             \<lparr>or_client_order_id = coid, or_created_ts = None, or_venue = venue, or_symbol = symbol,
              or_side = li_side it, or_order_type = li_order_type it, or_qty = Some (num_of_float (li_qty it)),
              or_limit_price = map_option num_of_float (li_limit_price it), or_exchange_order_id = eoid,
              or_status = status, or_last_error = last_error\<rparr> (w_orders w) of
        Inl e \<Rightarrow> (Inl (PyExn e), w)
      | Inr l' \<Rightarrow> (Inr (), w\<lparr>w_orders := l'\<rparr>))"

definition dedupe_claim_act ::
    "int \<Rightarrow> string \<Rightarrow> string \<Rightarrow> string \<Rightarrow> string \<Rightarrow> string \<Rightarrow> (dedupe_row \<times> bool) act" where
  "dedupe_claim_act now_ms venue iid symbol coid meta w =
     (case dedupe_claim now_ms venue iid symbol coid meta (w_dedupe w) of
        (Inl e, d) \<Rightarrow> (Inl (PyExn e), w\<lparr>w_dedupe := d\<rparr>)
      | (Inr r, d) \<Rightarrow> (Inr r, w\<lparr>w_dedupe := d\<rparr>))"

definition dedupe_mark_act :: "(dedupe_db \<Rightarrow> dedupe_db) \<Rightarrow> unit act" where
  "dedupe_mark_act f w = (Inr (), w\<lparr>w_dedupe := f (w_dedupe w)\<rparr>)"

section \<open>One intent\<close>

text \<open>Which counter of the loop an intent ends in.\<close>

datatype handled = HExpired | HRejected | HSubmitted | HOther

text \<open>Reject, and escalate to \<open>submit_unknown\<close> when the rejection could not be written.\<close>

definition reject_or_escalate :: "consumer_env \<Rightarrow> live_intent \<Rightarrow> string \<Rightarrow> string option \<Rightarrow> string \<Rightarrow> handled act" where
  "reject_or_escalate e it tag reason reason_text =
     bnd (queue_write ''live_intent_consumer'' (ce_now e) it ''rejected'' reason None None)
       (\<lambda>wrote. if wrote then ret HRejected
                else bnd (queue_write ''live_intent_consumer'' (ce_now e) it ''submit_unknown''
                            (Some (tag @ ''_rejected_write_failed:'' @ reason_text)) None None)
                       (\<lambda>_. ret HOther))"

definition write_submitted ::
    "consumer_env \<Rightarrow> live_intent \<Rightarrow> string \<Rightarrow> string \<Rightarrow> string \<Rightarrow> string \<Rightarrow> handled act" where
  "write_submitted e it venue symbol coid ex_oid =
     bnd (queue_write ''live_intent_consumer'' (ce_now e) it ''submitted'' None (Some coid) (Some ex_oid))
       (\<lambda>wrote. if \<not> wrote then ret HOther
                else bnd (order_write (ce_now e) it venue symbol coid (Some ex_oid) ''submitted'' None)
                       (\<lambda>_. ret HSubmitted))"

definition write_submit_unknown ::
    "consumer_env \<Rightarrow> live_intent \<Rightarrow> string \<Rightarrow> string \<Rightarrow> string \<Rightarrow> string \<Rightarrow> handled act" where
  "write_submit_unknown e it venue symbol coid reason =
     bnd (queue_write ''live_intent_consumer'' (ce_now e) it ''submit_unknown'' (Some reason) (Some coid) None)
       (\<lambda>wrote. if \<not> wrote then ret HOther
                else bnd (order_write (ce_now e) it venue symbol coid None ''submit_unknown'' (Some reason))
                       (\<lambda>_. ret HOther))"

definition found_id :: "lookup_answer \<Rightarrow> string" where
  "found_id a = (case a of Found s \<Rightarrow> strip s | _ \<Rightarrow> '''')"

text \<open>The call itself is recorded whatever its answer: an exception may hide an accepted order.\<close>

definition submit_order_act :: "submit_call \<Rightarrow> consumer_exn + string \<Rightarrow> string act" where
  "submit_order_act c answer w = (answer, w\<lparr>w_submits := w_submits w @ [c]\<rparr>)"

definition submit_body ::
    "consumer_env \<Rightarrow> live_intent \<Rightarrow> string \<Rightarrow> string \<Rightarrow> string \<Rightarrow> order_decision \<Rightarrow> handled act" where
  "submit_body e it venue symbol coid dec =
     (case ce_adapter_error e of
        Some x \<Rightarrow> throw x
      | None \<Rightarrow>
         if found_id (ce_lookup e) \<noteq> '''' then write_submitted e it venue symbol coid (found_id (ce_lookup e))
         else
           bnd (submit_order_act
                  \<lparr>sc_venue = venue, sc_intent_id = li_intent_id it, sc_client_order_id = coid, sc_symbol = symbol,
                   sc_side = od_side dec, sc_order_type = od_order_type dec, sc_qty = od_qty dec,
                   sc_limit_price = od_limit_price dec\<rparr> (ce_submit e))
             (\<lambda>resp. let ex_oid = strip resp in
                if ex_oid = '''' then
                  bnd (dedupe_mark_act (mark_unknown (ce_now_ms e) venue (li_intent_id it)
                         ''submit_response_missing_exchange_order_id''))
                    (\<lambda>_. write_submit_unknown e it venue symbol coid ''submit_response_missing_exchange_order_id'')
                else
                  bnd (dedupe_mark_act (mark_submitted (ce_now_ms e) venue (li_intent_id it) (Some ex_oid)))
                    (\<lambda>_. write_submitted e it venue symbol coid ex_oid)))"

text \<open>The \<open>except\<close> branch: look the order up once more, else record the ambiguity. Without an adapter there
  is nothing to ask.\<close>

definition submit_except ::
    "consumer_deps \<Rightarrow> consumer_env \<Rightarrow> live_intent \<Rightarrow> string \<Rightarrow> string \<Rightarrow> string \<Rightarrow> consumer_exn \<Rightarrow> handled act" where
  "submit_except d e it venue symbol coid err =
     (let ex_oid = (if ce_adapter_error e = None then found_id (ce_lookup_after e) else '''')
      in if ex_oid \<noteq> '''' then
           bnd (dedupe_mark_act (mark_submitted (ce_now_ms e) venue (li_intent_id it) (Some ex_oid)))
             (\<lambda>_. write_submitted e it venue symbol coid ex_oid)
         else write_submit_unknown e it venue symbol coid (cd_err_text d err))"

definition after_dedupe ::
    "consumer_deps \<Rightarrow> consumer_env \<Rightarrow> live_intent \<Rightarrow> string \<Rightarrow> string \<Rightarrow> string \<Rightarrow> handled act" where
  "after_dedupe d e it venue symbol coid =
     (case ce_decision e of
        Inl x \<Rightarrow> throw x
      | Inr dec \<Rightarrow>
         if \<not> od_allowed dec then
           bnd (queue_write ''live_intent_consumer'' (ce_now e) it ''rejected'' (Some (''router:'' @ od_reason dec))
                  (Some coid) None)
             (\<lambda>wrote. if \<not> wrote then ret HOther
                      else bnd (order_write (ce_now e) it venue symbol coid None ''rejected''
                                  (Some (''router:'' @ od_reason dec))) (\<lambda>_. ret HRejected))
         else try_except (submit_body e it venue symbol coid dec) (submit_except d e it venue symbol coid))"

definition dedupe_skip :: "dedupe_row \<times> bool \<Rightarrow> bool" where
  "dedupe_skip a =
     (let status = lower (strip (str_or (dr_status (fst a)) ''''));
          remote = strip (opt_str_or (dr_remote_order_id (fst a)) '''')
      in (remote \<noteq> '''' \<and> status \<in> {''submitted'', ''acked'', ''terminal''}) \<or>
         (\<not> snd a \<and> status \<in> {''created'', ''submitted'', ''unknown''}))"

definition consumer_meta :: string where
  "consumer_meta = [CHR ''{'', CHR 0x22] @ ''source'' @ [CHR 0x22] @ '': '' @ [CHR 0x22] @ ''live_intent_consumer'' @
     [CHR 0x22, CHR ''}'']"

definition risk_claim_act :: "consumer_env \<Rightarrow> rat \<Rightarrow> (bool \<times> string option) act" where
  "risk_claim_act e est w =
     (case risk_check_and_claim (ce_today e) (ce_risk_cfg e) est (w_queue w) of
        (Inl x, q) \<Rightarrow> (Inl (PyExn x), w\<lparr>w_queue := q\<rparr>)
      | (Inr r, q) \<Rightarrow> (Inr r, w\<lparr>w_queue := q\<rparr>))"

definition intent_coid :: "live_intent \<Rightarrow> string" where
  "intent_coid it = opt_str_or (li_client_order_id it) (''live_intent_'' @ li_intent_id it)"

text \<open>From the answer of the risk check on.\<close>

definition after_risk :: "consumer_deps \<Rightarrow> consumer_env \<Rightarrow> live_intent \<Rightarrow> bool \<times> string option \<Rightarrow> handled act" where
  "after_risk d e it r =
     (let venue = cd_venue d (li_venue it); symbol = cd_symbol d (li_symbol it); coid = intent_coid it
      in if \<not> fst r then reject_or_escalate e it ''risk'' (snd r) (case snd r of None \<Rightarrow> ''None'' | Some t \<Rightarrow> t)
         else bnd (dedupe_claim_act (ce_now_ms e) venue (li_intent_id it) symbol coid consumer_meta)
                (\<lambda>row. if dedupe_skip row then ret HOther else after_dedupe d e it venue symbol coid))"

definition handle_intent :: "consumer_deps \<Rightarrow> consumer_env \<Rightarrow> live_intent \<Rightarrow> handled act" where
  "handle_intent d e it =
     (let ttl = check_intent_age (cd_fromiso d) (ce_max_age e) (ce_epoch e) (Some (li_created_ts it));
          mq = (case ce_mq e of Inr a \<Rightarrow> a
                | Inl t \<Rightarrow> \<lparr>mq_ok = False, mq_reason = Some (''guard_error:'' @ t), mq_last = None\<rparr>)
      in if \<not> ttl_ok ttl then
           bnd (queue_write ''live_intent_consumer'' (ce_now e) it ''expired'' (Some (str_or (ttl_reason ttl) ''intent_ttl:unknown'')) None None)
             (\<lambda>wrote. ret (if wrote then HExpired else HOther))
         else if \<not> mq_ok mq then
           (let r = ''mq_blocked:'' @ (case mq_reason mq of None \<Rightarrow> ''unknown'' | Some t \<Rightarrow> t)
            in reject_or_escalate e it ''mq'' (Some r) r)
         else case ce_clock e of
           Inl x \<Rightarrow> throw x
         | Inr (clock_ok, clock_reason) \<Rightarrow>
           if \<not> clock_ok then
             (let r = ''clock_skew_blocked:'' @ (case clock_reason of None \<Rightarrow> ''unknown'' | Some t \<Rightarrow> t)
              in reject_or_escalate e it ''clock'' (Some r) r)
           else case intent_notional_estimate it mq of
             Inl x \<Rightarrow> throw (PyExn x)
           | Inr est \<Rightarrow> bnd (risk_claim_act e est) (after_risk d e it))"

section \<open>One pass of the loop\<close>

text \<open>Intents of the batch are handled in order; an exception ends the process and leaves the rest of the
  batch as it was claimed.\<close>

fun handle_batch :: "consumer_deps \<Rightarrow> (live_intent \<times> consumer_env) list \<Rightarrow> handled list act" where
  "handle_batch d [] = ret []"
| "handle_batch d (p # ps) =
     bnd (handle_intent d (snd p) (fst p)) (\<lambda>h. bnd (handle_batch d ps) (\<lambda>hs. ret (h # hs)))"

record pass_env =
  pe_now :: string
  pe_stop :: bool
  pe_armed :: bool
  pe_fresh :: bool
  pe_config_ok :: bool
  pe_answers :: "nat \<Rightarrow> consumer_env"

datatype pass_result = Stopping | Blocked | Idle | Handled "handled list"

definition consumer_pass :: "consumer_deps \<Rightarrow> pass_env \<Rightarrow> pass_result act" where
  "consumer_pass d p w =
     (if pe_stop p then (Inr Stopping, w)
      else if \<not> pe_armed p \<or> \<not> pe_fresh p \<or> \<not> pe_config_ok p then (Inr Blocked, w)
      else (let (batch, q) = live_claim_next_queued (pe_now p) 10 (w_queue w)
            in if batch = [] then (Inr Idle, w\<lparr>w_queue := q\<rparr>)
               else bnd (handle_batch d (zip batch (map (pe_answers p) [0..<length batch])))
                      (\<lambda>hs. ret (Handled hs)) (w\<lparr>w_queue := q\<rparr>)))"

section \<open>Startup recovery\<close>

record recovery_counts =
  rec_scanned :: nat
  rec_recovered_submitted :: nat
  rec_moved_submit_unknown :: nat
  rec_left_untouched :: nat
  rec_config_load_failed :: nat

record recovery_env =
  re_now :: string
  re_now_ms :: int
  re_epoch :: pyfloat
  re_stale_ms :: env_num
  re_config_ok :: bool
  re_lookup :: "string \<Rightarrow> lookup_answer"

definition submitting_stale_recovery_ms :: "env_num \<Rightarrow> pyfloat" where
  "submitting_stale_recovery_ms raw = positive_override (Fin 120000) raw"

definition is_aged :: "consumer_deps \<Rightarrow> recovery_env \<Rightarrow> live_intent \<Rightarrow> bool" where
  "is_aged d r it =
     (case parse_created_epoch (cd_fromiso d) (Some (str_or (li_updated_ts it) (li_created_ts it))) of
        None \<Rightarrow> True
      | Some ts \<Rightarrow> \<not> flt (fmul (fsub (re_epoch r) ts) (Fin 1000)) (submitting_stale_recovery_ms (re_stale_ms r)))"

definition recovery_origin :: string where
  "recovery_origin = ''live_intent_consumer.stale_submitting_recovery''"

definition recovery_meta :: string where
  "recovery_meta = [CHR ''{'', CHR 0x22] @ ''source'' @ [CHR 0x22] @ '': '' @ [CHR 0x22] @ recovery_origin @ [CHR 0x22, CHR ''}'']"

definition recover_one :: "consumer_deps \<Rightarrow> recovery_env \<Rightarrow> live_intent \<Rightarrow> recovery_counts \<Rightarrow> recovery_counts act" where
  "recover_one d r it out =
     (let venue = cd_venue d (li_venue it); symbol = cd_symbol d (li_symbol it);
          coid = intent_coid it;
          ex_oid = found_id (re_lookup r (li_intent_id it));
          untouched = out\<lparr>rec_left_untouched := rec_left_untouched out + 1\<rparr>;
          reason = ''stale_submitting_recovery:order_not_found''
      in if re_lookup r (li_intent_id it) = LookupFailed then ret untouched
         else if ex_oid \<noteq> '''' then
           bnd (dedupe_claim_act (re_now_ms r) venue (li_intent_id it) symbol coid recovery_meta)
             (\<lambda>_. bnd (dedupe_mark_act (mark_submitted (re_now_ms r) venue (li_intent_id it) (Some ex_oid)))
             (\<lambda>_. bnd (queue_write recovery_origin (re_now r) it ''submitted'' None (Some coid) (Some ex_oid))
             (\<lambda>wrote. if wrote then
                bnd (order_write (re_now r) it venue symbol coid (Some ex_oid) ''submitted'' None)
                  (\<lambda>_. ret (out\<lparr>rec_recovered_submitted := rec_recovered_submitted out + 1\<rparr>))
              else ret untouched)))
         else
           bnd (queue_write recovery_origin (re_now r) it ''submit_unknown'' (Some reason) (Some coid) None)
             (\<lambda>wrote. if wrote then
                bnd (order_write (re_now r) it venue symbol coid None ''submit_unknown'' (Some reason))
                  (\<lambda>_. ret (out\<lparr>rec_moved_submit_unknown := rec_moved_submit_unknown out + 1\<rparr>))
              else ret untouched))"

fun recover_all :: "consumer_deps \<Rightarrow> recovery_env \<Rightarrow> live_intent list \<Rightarrow> recovery_counts \<Rightarrow> recovery_counts act" where
  "recover_all d r [] out = ret out"
| "recover_all d r (it # its) out = bnd (recover_one d r it out) (recover_all d r its)"

definition recover_stale_submitting :: "consumer_deps \<Rightarrow> recovery_env \<Rightarrow> recovery_counts act" where
  "recover_stale_submitting d r w =
     (let rows = live_list_intents 200 (Some ''submitting'') (w_queue w);
          aged = filter (is_aged d r) rows;
          out = \<lparr>rec_scanned = length rows, rec_recovered_submitted = 0, rec_moved_submit_unknown = 0,
                 rec_left_untouched = length rows - length aged, rec_config_load_failed = 0\<rparr>
      in if aged = [] then (Inr out, w)
         else if \<not> re_config_ok r then
           (Inr (out\<lparr>rec_left_untouched := rec_left_untouched out + length aged,
                     rec_config_load_failed := length aged\<rparr>), w)
         else recover_all d r aged out w)"

section \<open>Reasoning about acts\<close>

definition keeps :: "(world \<Rightarrow> bool) \<Rightarrow> 'a act \<Rightarrow> bool" where
  "keeps P m \<longleftrightarrow> (\<forall>w. P w \<longrightarrow> P (snd (m w)))"

named_theorems act_keeps \<open>acts that keep a predicate\<close>

lemma keeps_ret [act_keeps]: "keeps P (ret x)"
  by (simp add: keeps_def ret_def)

lemma keeps_throw [act_keeps]: "keeps P (throw x)"
  by (simp add: keeps_def throw_def)

lemma keeps_bnd [act_keeps]: "keeps P m \<Longrightarrow> (\<And>x. keeps P (f x)) \<Longrightarrow> keeps P (bnd m f)"
  by (auto simp: keeps_def bnd_def split: prod.splits sum.splits)

lemma keeps_try [act_keeps]: "keeps P m \<Longrightarrow> (\<And>e. keeps P (h e)) \<Longrightarrow> keeps P (try_except m h)"
  by (auto simp: keeps_def try_except_def split: prod.splits sum.splits)

lemma keeps_if [act_keeps]: "keeps P m \<Longrightarrow> keeps P n \<Longrightarrow> keeps P (if b then m else n)"
  by simp

lemma snd_bnd: "snd (bnd m f w) = (case m w of (Inl e, w') \<Rightarrow> w' | (Inr x, w') \<Rightarrow> snd (f x w'))"
  by (auto simp: bnd_def split: prod.splits sum.splits)

text \<open>Queue and order writes touch neither the dedupe table nor the trace of submits; the marks of the
  dedupe table and the order writes do not touch the queue.\<close>

lemma queue_write_frame:
  "w_dedupe (snd (queue_write og now it st le co eo w)) = w_dedupe w"
  "w_submits (snd (queue_write og now it st le co eo w)) = w_submits w"
  "w_orders (snd (queue_write og now it st le co eo w)) = w_orders w"
  by (auto simp: queue_write_def split: sum.splits prod.splits)

lemma order_write_frame:
  "w_dedupe (snd (order_write now it v y co eo st le w)) = w_dedupe w"
  "w_submits (snd (order_write now it v y co eo st le w)) = w_submits w"
  "w_queue (snd (order_write now it v y co eo st le w)) = w_queue w"
  by (auto simp: order_write_def split: sum.splits)

lemma risk_claim_frame:
  "w_dedupe (snd (risk_claim_act e est w)) = w_dedupe w"
  "w_submits (snd (risk_claim_act e est w)) = w_submits w"
  "w_orders (snd (risk_claim_act e est w)) = w_orders w"
  by (auto simp: risk_claim_act_def split: sum.splits prod.splits)

lemma dedupe_act_frame:
  "w_queue (snd (dedupe_claim_act n v i y co me w)) = w_queue w"
  "w_submits (snd (dedupe_claim_act n v i y co me w)) = w_submits w"
  "w_queue (snd (dedupe_mark_act f w)) = w_queue w"
  "w_submits (snd (dedupe_mark_act f w)) = w_submits w"
  "w_dedupe (snd (dedupe_mark_act f w)) = f (w_dedupe w)"
  "w_dedupe (snd (dedupe_claim_act n v i y co me w)) = snd (dedupe_claim n v i y co me (w_dedupe w))"
  by (auto simp: dedupe_claim_act_def dedupe_mark_act_def split: sum.splits prod.splits)

lemmas act_frames = queue_write_frame order_write_frame risk_claim_frame dedupe_act_frame

section \<open>At most one submit per intent\<close>

definition submit_key :: "submit_call \<Rightarrow> string \<times> string" where
  "submit_key c = (norm_ex (sc_venue c), sc_intent_id c)"

definition live_statuses :: "string set" where
  "live_statuses = {''created'', ''submitted'', ''unknown''}"

definition dedupe_safe :: "dedupe_db \<Rightarrow> bool" where
  "dedupe_safe db \<longleftrightarrow> (\<forall>r \<in> set (dd_rows db). dr_status r \<in> live_statuses)"

definition submit_inv :: "world \<Rightarrow> bool" where
  "submit_inv w \<longleftrightarrow> dedupe_safe (w_dedupe w) \<and> distinct (map submit_key (w_submits w)) \<and>
     (\<forall>c \<in> set (w_submits w). dd_present (submit_key c) (w_dedupe w))"

lemma live_statuses_normal: "s \<in> live_statuses \<Longrightarrow> lower (strip (str_or s '''')) = s"
proof -
  have "lower (strip (str_or ''created'' '''')) = ''created''" "lower (strip (str_or ''submitted'' '''')) = ''submitted''"
    "lower (strip (str_or ''unknown'' '''')) = ''unknown''" by code_simp+
  moreover assume "s \<in> live_statuses"
  ultimately show ?thesis by (auto simp: live_statuses_def)
qed

lemma dedupe_safe_mark:
  assumes "dedupe_safe db" "\<And>r. dr_status r \<in> live_statuses \<Longrightarrow> dr_status (f r) \<in> live_statuses"
  shows "dedupe_safe (upd_dedupe ex i f db)"
  using assms by (auto simp: dedupe_safe_def upd_dedupe_def upd_where_def)

lemma dedupe_safe_marks:
  assumes "dedupe_safe db"
  shows "dedupe_safe (mark_submitted n v i rem db)" "dedupe_safe (mark_unknown n v i err db)"
    "dedupe_safe (set_remote_id_if_empty n v i s db)"
  unfolding mark_submitted_def mark_unknown_def set_remote_id_if_empty_def
  by (rule dedupe_safe_mark[OF assms], auto simp: sticky_status_def live_statuses_def)+

lemma dedupe_safe_claim:
  "dedupe_safe db \<Longrightarrow> dedupe_safe (snd (dedupe_claim n v i y co me db))"
  by (auto simp: dedupe_safe_def dedupe_claim_def Let_def live_statuses_def)



lemma submit_inv_writes [act_keeps]:
  "keeps submit_inv (queue_write og now it st le co eo)" "keeps submit_inv (order_write now it v y c eo s2 le)"
  "keeps submit_inv (risk_claim_act e est)"
  unfolding keeps_def submit_inv_def by (simp_all add: act_frames)

lemma submit_inv_mark:
  assumes "\<And>db. dedupe_safe db \<Longrightarrow> dedupe_safe (f db)" "\<And>db. dedupe_mark db (f db)"
  shows "keeps submit_inv (dedupe_mark_act f)"
  unfolding keeps_def submit_inv_def using assms(1) by (auto simp: act_frames dd_present_mark[OF assms(2)])

lemma submit_inv_marks [act_keeps]:
  "keeps submit_inv (dedupe_mark_act (mark_submitted n v i rem))"
  "keeps submit_inv (dedupe_mark_act (mark_unknown n v i err))"
  by (rule submit_inv_mark; auto intro: dedupe_safe_marks dedupe_mark.intros)+

lemma dd_present_claim:
  "dd_present k db \<Longrightarrow> dd_present k (snd (dedupe_claim n v i y co me db))"
  by (cases rule: dedupe_claim_rows[of n v i y co me db]) (auto simp: dd_present_def)

lemma submit_inv_claim [act_keeps]: "keeps submit_inv (dedupe_claim_act n v i y co me)"
  unfolding keeps_def submit_inv_def by (auto simp: act_frames dedupe_safe_claim dd_present_claim)

lemma keeps_reject [act_keeps]:
  assumes "\<And>og now it st le co eo. keeps P (queue_write og now it st le co eo)"
  shows "keeps P (reject_or_escalate e it tag r t)"
  unfolding reject_or_escalate_def by (intro act_keeps assms)

lemma keeps_write_outcome [act_keeps]:
  assumes "\<And>og now it st le co eo. keeps P (queue_write og now it st le co eo)"
    and "\<And>now it v y co eo st le. keeps P (order_write now it v y co eo st le)"
  shows "keeps P (write_submitted e it v y co x)" "keeps P (write_submit_unknown e it v y co x)"
  unfolding write_submitted_def write_submit_unknown_def by (intro act_keeps assms)+

lemma keeps_submit_except [act_keeps]:
  assumes "\<And>og now it st le co eo. keeps P (queue_write og now it st le co eo)"
    and "\<And>now it v y co eo st le. keeps P (order_write now it v y co eo st le)"
    and "\<And>n v i rem. keeps P (dedupe_mark_act (mark_submitted n v i rem))"
  shows "keeps P (submit_except d e it v y co x)"
  unfolding submit_except_def Let_def by (intro act_keeps assms)

lemma get_by_intent_mem: "get_by_intent ex i db = Some r \<Longrightarrow> r \<in> set (dd_rows db)"
  by (auto simp: get_by_intent_def find_Some_iff)

lemma dedupe_claim_answer:
  assumes "fst (dedupe_claim n v i y co me db) = Inr (r, ins)"
  shows "get_by_intent (norm_ex v) i (snd (dedupe_claim n v i y co me db)) = Some r"
proof -
  obtain db' X err where c: "dedupe_claim n v i y co me db =
      ((case get_by_intent (norm_ex v) i db' of None \<Rightarrow> Inl err | Some r \<Rightarrow> Inr (r, X)), db')"
    by (rule that[OF dedupe_claim_def[unfolded Let_def]])
  show ?thesis using assms unfolding c by (cases "get_by_intent (norm_ex v) i db'") auto
qed

text \<open>A claim that is not skipped was the first one: nothing has been submitted under its key.\<close>

lemma claim_not_skipped:
  assumes inv: "submit_inv w" and cl: "dedupe_claim_act n v i y co me w = (Inr row, w')" and go: "\<not> dedupe_skip row"
  shows "submit_inv w' \<and> dd_present (norm_ex v, i) (w_dedupe w') \<and> (norm_ex v, i) \<notin> submit_key ` set (w_submits w')"
proof -
  have w': "w' = snd (dedupe_claim_act n v i y co me w)" using cl by simp
  have inv': "submit_inv w'" using submit_inv_claim inv unfolding keeps_def w' by blast
  have fs: "fst (dedupe_claim n v i y co me (w_dedupe w)) = Inr row"
    using cl by (auto simp: dedupe_claim_act_def split: sum.splits prod.splits)
  have sub: "w_submits w' = w_submits w" and dd: "w_dedupe w' = snd (dedupe_claim n v i y co me (w_dedupe w))"
    unfolding w' by (simp_all add: act_frames)
  show ?thesis
  proof (cases rule: dedupe_claim_rows[of n v i y co me "w_dedupe w"])
    case old
    obtain r ins where row: "row = (r, ins)" by (cases row)
    have "\<not> ins" using old(2) fs row by (simp add: claim_inserted_def)
    have "r \<in> set (dd_rows (w_dedupe w'))"
      unfolding dd by (rule get_by_intent_mem[OF dedupe_claim_answer]) (use fs row in simp)
    then have "dr_status r \<in> live_statuses" using inv' by (auto simp: submit_inv_def dedupe_safe_def)
    then have "dedupe_skip row"
      using live_statuses_normal[of "dr_status r"] \<open>\<not> ins\<close> by (simp add: dedupe_skip_def row live_statuses_def)
    then show ?thesis using go by simp
  next
    case (new r)
    have "dd_present (norm_ex v, i) (w_dedupe w')" using new by (auto simp: dd_present_def dd)
    moreover have "\<not> dd_present (norm_ex v, i) (w_dedupe w)"
      using new(9) by (auto simp: dd_present_def list_ex_iff)
    ultimately show ?thesis using inv inv' sub by (auto simp: submit_inv_def)
  qed
qed

lemma snd_bnd_keeps: "P (snd (m w)) \<Longrightarrow> (\<And>x. keeps P (f x)) \<Longrightarrow> P (snd (bnd m f w))"
  by (auto simp: snd_bnd keeps_def split: prod.splits sum.splits)

lemma submit_body_inv:
  assumes "submit_inv w" "dd_present (norm_ex v, li_intent_id it) (w_dedupe w)"
    and "(norm_ex v, li_intent_id it) \<notin> submit_key ` set (w_submits w)"
  shows "submit_inv (snd (submit_body e it v y co dec w))"
proof -
  let ?c = "\<lparr>sc_venue = v, sc_intent_id = li_intent_id it, sc_client_order_id = co, sc_symbol = y,
                   sc_side = od_side dec, sc_order_type = od_order_type dec, sc_qty = od_qty dec,
                   sc_limit_price = od_limit_price dec\<rparr>"
  have one: "submit_inv (snd (submit_order_act ?c (ce_submit e) w))"
    using assms by (auto simp: submit_order_act_def submit_inv_def submit_key_def)
  have ws: "submit_inv (snd (write_submitted e it v y co x w))" for x
    using assms(1) keeps_write_outcome(1)[OF submit_inv_writes(1,2)] unfolding keeps_def by blast
  show ?thesis
  proof (cases "ce_adapter_error e")
    case None
    show ?thesis
    proof (cases "found_id (ce_lookup e) = ''''")
      case True
      show ?thesis unfolding submit_body_def None True
        by (simp, rule snd_bnd_keeps[where P = submit_inv], rule one, unfold Let_def) (intro act_keeps)
    qed (use None ws in \<open>simp add: submit_body_def\<close>)
  qed (use assms(1) in \<open>simp add: submit_body_def throw_def\<close>)
qed

lemma after_dedupe_inv:
  assumes "submit_inv w" "dd_present (norm_ex v, li_intent_id it) (w_dedupe w)"
    and "(norm_ex v, li_intent_id it) \<notin> submit_key ` set (w_submits w)"
  shows "submit_inv (snd (after_dedupe d e it v y co w))"
proof -
  have k: "keeps submit_inv (submit_except d e it v y co x)" for x by (intro act_keeps)
  have rej: "submit_inv (snd (bnd (queue_write og now it st le c eo) f w))"
    if "\<And>x. keeps submit_inv (f x)" for og now st le c eo f
  proof (rule snd_bnd_keeps[where P = submit_inv])
    show "submit_inv (snd (queue_write og now it st le c eo w))"
      using assms(1) by (simp add: submit_inv_def act_frames)
  qed (rule that)
  show ?thesis
  proof (cases "ce_decision e")
    case (Inr dec)
    show ?thesis
    proof (cases "od_allowed dec")
      case False
      then show ?thesis unfolding after_dedupe_def Inr
        by (simp, intro rej) (intro act_keeps)
    next
      case True
      then show ?thesis unfolding after_dedupe_def Inr
        using submit_body_inv[OF assms, of e y co dec] k
        by (auto simp: try_except_def keeps_def split: prod.splits sum.splits)
    qed
  qed (use assms(1) in \<open>simp add: after_dedupe_def throw_def\<close>)
qed

lemma handle_intent_inv [act_keeps]: "keeps submit_inv (handle_intent d e it)"
proof -
  have tail: "keeps submit_inv (bnd (dedupe_claim_act n v (li_intent_id it) y co me)
      (\<lambda>row. if dedupe_skip row then ret HOther else after_dedupe d e it v y co))" for n v y co me
    unfolding keeps_def
  proof (intro allI impI)
    fix w assume inv: "submit_inv w"
    obtain r w' where c: "dedupe_claim_act n v (li_intent_id it) y co me w = (r, w')"
      by (cases "dedupe_claim_act n v (li_intent_id it) y co me w")
    have "submit_inv w'" using submit_inv_claim inv c unfolding keeps_def by (metis snd_conv)
    then show "submit_inv (snd (bnd (dedupe_claim_act n v (li_intent_id it) y co me)
      (\<lambda>row. if dedupe_skip row then ret HOther else after_dedupe d e it v y co) w))"
      using c claim_not_skipped[OF inv] after_dedupe_inv
      by (cases r) (auto simp: snd_bnd ret_def)
  qed
  have risk: "keeps submit_inv (after_risk d e it r)" for r
    unfolding after_risk_def Let_def by (intro act_keeps tail)
  show ?thesis
    unfolding handle_intent_def Let_def
    by (auto split: sum.splits prod.splits intro!: act_keeps risk)
qed

lemma keeps_batch [act_keeps]:
  assumes "\<And>e it. keeps P (handle_intent d e it)"
  shows "keeps P (handle_batch d ps)"
proof (induction ps)
  case (Cons p ps)
  show ?case unfolding handle_batch.simps by (intro act_keeps assms Cons.IH)
qed (simp add: keeps_ret)

lemma keeps_pass:
  assumes "\<And>e it. keeps P (handle_intent d e it)" "\<And>w now. P w \<Longrightarrow> P (w\<lparr>w_queue := snd (live_claim_next_queued now 10 (w_queue w))\<rparr>)"
  shows "keeps P (consumer_pass d p)"
  unfolding keeps_def
proof (intro allI impI)
  fix w assume w: "P w"
  obtain batch q where c: "live_claim_next_queued (pe_now p) 10 (w_queue w) = (batch, q)"
    by (cases "live_claim_next_queued (pe_now p) 10 (w_queue w)")
  have q: "P (w\<lparr>w_queue := q\<rparr>)" using assms(2)[OF w, of "pe_now p"] c by simp
  have "keeps P (bnd (handle_batch d (zip batch (map (pe_answers p) [0..<length batch]))) (\<lambda>hs. ret (Handled hs)))"
    by (intro act_keeps assms)
  then have "P (snd (bnd (handle_batch d (zip batch (map (pe_answers p) [0..<length batch]))) (\<lambda>hs. ret (Handled hs))
      (w\<lparr>w_queue := q\<rparr>)))" using q unfolding keeps_def by blast
  then show "P (snd (consumer_pass d p w))"
    unfolding consumer_pass_def c Let_def prod.case by (auto simp: w q)
qed

lemma keeps_recovery:
  assumes "\<And>og now it st le co eo. keeps P (queue_write og now it st le co eo)"
    and "\<And>now it v y co eo st le. keeps P (order_write now it v y co eo st le)"
    and "\<And>n v i y co me. keeps P (dedupe_claim_act n v i y co me)"
    and "\<And>n v i rem. keeps P (dedupe_mark_act (mark_submitted n v i rem))"
  shows "keeps P (recover_stale_submitting d r)"
proof -
  have one: "keeps P (recover_one d r it out)" for it out
    unfolding recover_one_def Let_def by (intro act_keeps assms)
  have all: "keeps P (recover_all d r its out)" for its out
  proof (induction its arbitrary: out)
    case (Cons it its)
    show ?case unfolding recover_all.simps by (intro act_keeps one Cons.IH)
  qed (simp add: keeps_ret)
  show ?thesis unfolding keeps_def
  proof (intro allI impI)
    fix w assume w: "P w"
    have "P (snd (recover_all d r its out w))" for its out using all w unfolding keeps_def by blast
    then show "P (snd (recover_stale_submitting d r w))"
      unfolding recover_stale_submitting_def Let_def using w by simp
  qed
qed

text \<open>The world as other processes see it: consumer passes, single handlers and recovery sweeps in any order,
  with any answers, interleaved with arbitrary changes of the queue and the order table by others and
  with their claims and marks on the dedupe table, except \<open>mark_error\<close> and \<open>mark_terminal\<close>.\<close>

inductive consumer_step :: "consumer_deps \<Rightarrow> world \<Rightarrow> world \<Rightarrow> bool" for d where
  pass: "consumer_step d w (snd (consumer_pass d p w))"
| handle: "consumer_step d w (snd (handle_intent d e it w))"
| recover: "consumer_step d w (snd (recover_stale_submitting d r w))"
| other_queue: "consumer_step d w (w\<lparr>w_queue := q\<rparr>)"
| other_orders: "consumer_step d w (w\<lparr>w_orders := l\<rparr>)"
| other_claim: "consumer_step d w (w\<lparr>w_dedupe := snd (dedupe_claim n v i y co me (w_dedupe w))\<rparr>)"
| other_submitted: "consumer_step d w (w\<lparr>w_dedupe := mark_submitted n v i rem (w_dedupe w)\<rparr>)"
| other_unknown: "consumer_step d w (w\<lparr>w_dedupe := mark_unknown n v i err (w_dedupe w)\<rparr>)"
| other_remote: "consumer_step d w (w\<lparr>w_dedupe := set_remote_id_if_empty n v i s (w_dedupe w)\<rparr>)"

lemma submit_inv_dedupe:
  assumes "submit_inv w" "dedupe_safe db" "\<And>k. dd_present k (w_dedupe w) \<Longrightarrow> dd_present k db"
  shows "submit_inv (w\<lparr>w_dedupe := db\<rparr>)"
  using assms by (auto simp: submit_inv_def)

lemma consumer_step_inv: "consumer_step d w w' \<Longrightarrow> submit_inv w \<Longrightarrow> submit_inv w'"
proof (induction rule: consumer_step.induct)
  case (pass w p)
  have "keeps submit_inv (consumer_pass d p)"
    by (rule keeps_pass[OF handle_intent_inv]) (simp add: submit_inv_def)
  then show ?case using pass unfolding keeps_def by blast
next
  case (handle w e it)
  then show ?case using handle_intent_inv unfolding keeps_def by blast
next
  case (recover w r)
  have "keeps submit_inv (recover_stale_submitting d r)"
    by (rule keeps_recovery) (intro act_keeps)+
  then show ?case using recover unfolding keeps_def by blast
next
  case (other_claim w n v i y co me)
  then show ?case
    by (intro submit_inv_dedupe dedupe_safe_claim dd_present_claim) (auto simp: submit_inv_def)
next
  case (other_submitted w n v i rem)
  then show ?case
    by (intro submit_inv_dedupe dedupe_safe_marks) (auto simp: submit_inv_def dd_present_mark[OF dedupe_mark.intros(2)])
next
  case (other_unknown w n v i err)
  then show ?case
    by (intro submit_inv_dedupe dedupe_safe_marks) (auto simp: submit_inv_def dd_present_mark[OF dedupe_mark.intros(3)])
next
  case (other_remote w n v i s)
  then show ?case
    by (intro submit_inv_dedupe dedupe_safe_marks) (auto simp: submit_inv_def dd_present_mark[OF dedupe_mark.intros(1)])
qed (auto simp: submit_inv_def)

section \<open>Properties\<close>

text \<open>C1. No order is submitted twice. Over any interleaving of consumer passes, handlers, recovery sweeps and
  other processes (restarts, duplicated queue rows, rewritten queues, lost responses, failing lookups
  included), the consumer calls \<open>submit_order\<close> at most once per venue and intent, as long as no one resets the
  dedupe row to \<open>error\<close> or marks it terminal.\<close>

theorem at_most_one_submit_per_intent:
  assumes "(consumer_step d)\<^sup>*\<^sup>* w w'" "w_submits w = []" "w_dedupe w = empty_dedupe"
  shows "distinct (map submit_key (w_submits w'))"
proof -
  have "submit_inv w" using assms(2,3) by (simp add: submit_inv_def dedupe_safe_def empty_dedupe_def)
  with assms(1) have "submit_inv w'"
    by (induction rule: rtranclp_induct) (auto intro: consumer_step_inv)
  then show ?thesis by (simp add: submit_inv_def)
qed

definition sample_deps :: consumer_deps where
  "sample_deps = \<lparr>cd_fromiso = (\<lambda>_. Some (Fin 1000)), cd_venue = lower, cd_symbol = (\<lambda>s. s), cd_err_text = (\<lambda>_. ''err'')\<rparr>"

definition sample_decision :: order_decision where
  "sample_decision = \<lparr>od_allowed = True, od_reason = ''ok'', od_side = ''buy'', od_order_type = ''market'',
     od_qty = Fin 1, od_limit_price = None\<rparr>"

definition sample_env :: consumer_env where
  "sample_env = \<lparr>ce_now = ''n5'', ce_now_ms = 5, ce_today = ''2026-01-01'', ce_epoch = Fin 1010, ce_max_age = EnvUnset,
     ce_mq = Inr \<lparr>mq_ok = True, mq_reason = None, mq_last = Some (NumFin 10)\<rparr>, ce_clock = Inr (True, None),
     ce_risk_cfg = Some \<lparr>rl_min_order_notional_quote = NumFin 0, rl_max_trades_per_day = 3, rl_max_daily_notional_quote = NumFin 100\<rparr>,
     ce_decision = Inr sample_decision, ce_adapter_error = None, ce_lookup = NotFound, ce_submit = Inl (Ext ''Timeout''),
     ce_lookup_after = NotFound\<rparr>"

definition sample_world :: world where
  "sample_world = \<lparr>w_queue = empty_live_queue, w_orders = empty_live_trading, w_dedupe = empty_dedupe, w_submits = []\<rparr>"

definition sample_intent :: live_intent where
  "sample_intent = claimed_row ''n2'' (live_intent_of_row ''n1'' (Fin 1) None sample_row)"

lemma sample_handled: "map submit_key (w_submits (snd (handle_intent sample_deps sample_env sample_intent sample_world))) = [(''coinbase'', ''i1'')]"
  by code_simp

theorem at_most_one_submit_per_intent_witness:
  "map submit_key (w_submits (snd (handle_intent sample_deps sample_env sample_intent sample_world))) = [(''coinbase'', ''i1'')] \<and>
   distinct (map submit_key (w_submits (snd (handle_intent sample_deps sample_env sample_intent
     (snd (handle_intent sample_deps sample_env sample_intent sample_world))))))"
proof -
  let ?w1 = "snd (handle_intent sample_deps sample_env sample_intent sample_world)"
  have "(consumer_step sample_deps)\<^sup>*\<^sup>* sample_world ?w1" by (rule r_into_rtranclp[of "consumer_step sample_deps"], rule consumer_step.handle)
  then have "(consumer_step sample_deps)\<^sup>*\<^sup>* sample_world (snd (handle_intent sample_deps sample_env sample_intent ?w1))"
    by (rule rtranclp.rtrancl_into_rtrancl) (rule consumer_step.handle)
  from at_most_one_submit_per_intent[OF this] sample_handled show ?thesis by (simp add: sample_world_def)
qed

subsection \<open>What the consumer does to the queue\<close>

definition queue_path :: "live_queue \<Rightarrow> world \<Rightarrow> bool" where
  "queue_path q w \<longleftrightarrow> live_queue_step\<^sup>*\<^sup>* q (w_queue w)"

lemma queue_path_step: "queue_path q w \<Longrightarrow> live_queue_step (w_queue w) (w_queue w') \<Longrightarrow> queue_path q w'"
  unfolding queue_path_def by (rule rtranclp.rtrancl_into_rtrancl)

lemma queue_path_same: "queue_path q w \<Longrightarrow> w_queue w' = w_queue w \<Longrightarrow> queue_path q w'"
  by (simp add: queue_path_def)

lemma queue_write_step:
  "w_queue (snd (queue_write og now it st le co eo w)) = w_queue w \<or>
   live_queue_step (w_queue w) (w_queue (snd (queue_write og now it st le co eo w)))"
proof -
  have "update_live_queue_status_as_intent_consumer now s st' c a q = Inr (ok, q') \<Longrightarrow> live_queue_step q q'" for s st' c a q ok q'
    unfolding update_live_queue_status_as_intent_consumer_def Let_def
    by (auto split: if_splits sum.splits prod.splits dest: arg_cong[where f = snd] intro: live_queue_step.update)
      (metis live_queue_step.update snd_conv)+
  then show ?thesis by (auto simp: queue_write_def split: sum.splits prod.splits)
qed

lemma queue_path_acts [act_keeps]:
  "keeps (queue_path q) (queue_write og now it st le co eo)"
  "keeps (queue_path q) (order_write now it v y c eo s2 le)"
  "keeps (queue_path q) (dedupe_claim_act n v i y c me)"
  "keeps (queue_path q) (dedupe_mark_act f)"
  "keeps (queue_path q) (submit_order_act sc an)"
proof -
  show "keeps (queue_path q) (queue_write og now it st le co eo)"
    unfolding keeps_def using queue_write_step queue_path_step queue_path_same by blast
qed (auto simp: keeps_def act_frames submit_order_act_def intro: queue_path_same)

lemma queue_path_risk [act_keeps]: "keeps (queue_path q) (risk_claim_act e est)"
proof -
  have reset: "live_queue_step\<^sup>*\<^sup>* x (risk_reset_if_needed t x)" for x t
    by (auto simp: risk_reset_if_needed_def intro: r_into_rtranclp[of live_queue_step] live_queue_step.reset)
  have "live_queue_step\<^sup>*\<^sup>* x (snd (risk_check_and_claim t cfg est x))" for x t cfg
  proof (cases cfg)
    case (Some c)
    let ?q1 = "risk_reset_if_needed t x"
    have "live_queue_step\<^sup>*\<^sup>* x (snd (atomic_risk_claim mt mn (NumFin est) ?q1))" for mt mn
      using reset by (rule rtranclp.rtrancl_into_rtrancl) (rule live_queue_step.risk)
    then have "live_queue_step\<^sup>*\<^sup>* x (snd (atomic_risk_claim (rl_max_trades_per_day c) (rl_max_daily_notional_quote c)
        (NumFin est) ?q1))" .
    then show ?thesis using reset[of x t]
      by (auto simp: Some risk_check_and_claim_def Let_def case_prod_beta split: sum.splits)
  qed (simp add: risk_check_and_claim_def)
  moreover have "w_queue (snd (risk_claim_act e est w)) = snd (risk_check_and_claim (ce_today e) (ce_risk_cfg e) est (w_queue w))" for w
    by (auto simp: risk_claim_act_def split: sum.splits prod.splits)
  ultimately show ?thesis
    unfolding keeps_def queue_path_def by (metis rtranclp_trans)
qed

lemma keeps_after_dedupe:
  assumes "\<And>og now it st le co eo. keeps P (queue_write og now it st le co eo)"
    and "\<And>now it v y co eo st le. keeps P (order_write now it v y co eo st le)"
    and "\<And>f. keeps P (dedupe_mark_act f)" "\<And>c a. keeps P (submit_order_act c a)"
  shows "keeps P (after_dedupe d e it v y co)"
proof -
  have "keeps P (submit_body e it v y co dec)" for dec
    unfolding submit_body_def Let_def by (cases "ce_adapter_error e") (auto intro!: act_keeps assms)
  then show ?thesis
    unfolding after_dedupe_def by (cases "ce_decision e") (auto intro!: act_keeps assms)
qed

lemma keeps_handle:
  assumes "\<And>og now it st le co eo. keeps P (queue_write og now it st le co eo)"
    and "\<And>now it v y co eo st le. keeps P (order_write now it v y co eo st le)"
    and "\<And>f. keeps P (dedupe_mark_act f)" "\<And>c a. keeps P (submit_order_act c a)"
    and "\<And>e est. keeps P (risk_claim_act e est)" "\<And>n v i y co me. keeps P (dedupe_claim_act n v i y co me)"
  shows "keeps P (handle_intent d e it)"
proof -
  have risk: "keeps P (after_risk d e it r)" for r
    unfolding after_risk_def Let_def by (intro act_keeps assms keeps_after_dedupe)
  show ?thesis
    unfolding handle_intent_def Let_def
    by (auto split: sum.splits prod.splits intro!: act_keeps assms risk)
qed

text \<open>The consumer and its recovery sweep change the live queue only by transactions of the queue:
  whatever the outside answers and wherever it raises, the queue it leaves is reachable by \<open>live_queue_step\<close>
  from the one it found, so every status moves along the lifecycle, terminal intents stay final, and the audit
  log stays complete.\<close>

theorem consumer_respects_lifecycle:
  "live_queue_step\<^sup>*\<^sup>* (w_queue w) (w_queue (snd (consumer_pass d p w))) \<and>
   live_queue_step\<^sup>*\<^sup>* (w_queue w) (w_queue (snd (recover_stale_submitting d r w)))"
proof -
  let ?P = "queue_path (w_queue w)"
  have h: "keeps ?P (handle_intent d e it)" for e it by (rule keeps_handle; intro act_keeps)
  have "keeps ?P (consumer_pass d p)"
  proof (rule keeps_pass[OF h])
    fix x now assume "?P x"
    then show "?P (x\<lparr>w_queue := snd (live_claim_next_queued now 10 (w_queue x))\<rparr>)"
      by (rule queue_path_step) (simp add: live_queue_step.claim)
  qed
  moreover have "keeps ?P (recover_stale_submitting d r)"
    by (rule keeps_recovery; intro act_keeps)
  moreover have "?P w" by (simp add: queue_path_def)
  ultimately show ?thesis unfolding keeps_def queue_path_def by blast
qed

subsection \<open>Gates before a submit\<close>

lemma no_submit_acts [act_keeps]:
  "keeps (\<lambda>w. w_submits w = s) (queue_write og now it st le co eo)"
  "keeps (\<lambda>w. w_submits w = s) (order_write now it v y c eo s2 le)"
  "keeps (\<lambda>w. w_submits w = s) (dedupe_claim_act n v i y c me)"
  "keeps (\<lambda>w. w_submits w = s) (dedupe_mark_act f)"
  "keeps (\<lambda>w. w_submits w = s) (risk_claim_act e est)"
  by (simp_all add: keeps_def act_frames)

lemma keepsD: "keeps P m \<Longrightarrow> P w \<Longrightarrow> P (snd (m w))"
  by (simp add: keeps_def)

text \<open>The one place an order leaves: what \<open>submit_body\<close> and its exception handler add to the trace.\<close>

definition the_submit :: "live_intent \<Rightarrow> string \<Rightarrow> string \<Rightarrow> string \<Rightarrow> order_decision \<Rightarrow> submit_call" where
  "the_submit it v y co dec = \<lparr>sc_venue = v, sc_intent_id = li_intent_id it, sc_client_order_id = co, sc_symbol = y,
     sc_side = od_side dec, sc_order_type = od_order_type dec, sc_qty = od_qty dec, sc_limit_price = od_limit_price dec\<rparr>"

lemma submit_body_trace:
  "w_submits (snd (submit_body e it v y co dec w)) = w_submits w @
     (if ce_adapter_error e = None \<and> found_id (ce_lookup e) = '''' then [the_submit it v y co dec] else [])"
proof (cases "ce_adapter_error e = None \<and> found_id (ce_lookup e) = ''''")
  case True
  let ?s = "w_submits w @ [the_submit it v y co dec]"
  let ?P = "\<lambda>x. w_submits x = ?s"
  have "?P (snd (submit_body e it v y co dec w))"
    using True unfolding submit_body_def
    by (simp, intro snd_bnd_keeps[where P = ?P])
      (simp add: submit_order_act_def the_submit_def, unfold Let_def, intro act_keeps)
  then show ?thesis using True by simp
next
  case False
  have "w_submits (snd (write_submitted e it v y co x w)) = w_submits w" for x
    by (rule keepsD[where P = "\<lambda>x. w_submits x = w_submits w"]) (intro act_keeps, simp)
  then show ?thesis using False by (cases "ce_adapter_error e") (simp_all add: submit_body_def throw_def)
qed

lemma after_dedupe_trace:
  "w_submits (snd (after_dedupe d e it v y co w)) = w_submits w @
     (case ce_decision e of Inl _ \<Rightarrow> [] | Inr dec \<Rightarrow>
        if od_allowed dec \<and> ce_adapter_error e = None \<and> found_id (ce_lookup e) = '''' then [the_submit it v y co dec] else [])"
proof (cases "ce_decision e")
  case (Inl x)
  then show ?thesis by (simp add: after_dedupe_def throw_def)
next
  case (Inr dec)
  show ?thesis
  proof (cases "od_allowed dec")
    case False
    have "w_submits (snd (after_dedupe d e it v y co w)) = w_submits w"
      using False Inr unfolding after_dedupe_def
      by (simp, intro keepsD[where P = "\<lambda>x. w_submits x = w_submits w"]) (intro act_keeps, simp)
    then show ?thesis using False Inr by simp
  next
    case True
    have h: "w_submits (snd (submit_except d e it v y co x w')) = w_submits w'" for x w'
      by (rule keepsD[where P = "\<lambda>x. w_submits x = w_submits w'"]) (intro act_keeps, simp)
    have "w_submits (snd (after_dedupe d e it v y co w)) = w_submits (snd (submit_body e it v y co dec w))"
      using True Inr h by (auto simp: after_dedupe_def try_except_def split: prod.splits sum.splits)
    then show ?thesis using True Inr by (simp add: submit_body_trace)
  qed
qed

end
