(* ===== verification/Consumer_Gates.thy ===== *)
theory Consumer_Gates
  imports Live_Intent_Consumer
begin

text \<open>
  What an order submitted by services/execution/live\_intent\_consumer.py has passed, how many orders a day's
  budget lets through, and what the consumer does with a quantity it cannot price.
\<close>

section \<open>The gates in front of a submit\<close>

text \<open>The intent passed the gates that are decided before the risk budget.\<close>

definition gates_open :: "consumer_deps \<Rightarrow> consumer_env \<Rightarrow> live_intent \<Rightarrow> mq_answer \<Rightarrow> bool" where
  "gates_open d e it mq \<longleftrightarrow>
     ttl_ok (check_intent_age (cd_fromiso d) (ce_max_age e) (ce_epoch e) (Some (li_created_ts it))) \<and>
     ce_mq e = Inr mq \<and> mq_ok mq \<and> (\<exists>r. ce_clock e = Inr (True, r))"

lemma handle_intent_open:
  assumes "gates_open d e it mq"
  shows "handle_intent d e it = (case intent_notional_estimate it mq of
     Inl x \<Rightarrow> throw (PyExn x) | Inr est \<Rightarrow> bnd (risk_claim_act e est) (after_risk d e it))"
  using assms unfolding gates_open_def handle_intent_def Let_def
  by (auto split: sum.splits)

lemma handle_intent_closed:
  assumes "\<And>mq. \<not> gates_open d e it mq"
    and "\<And>og now it st le co eo. keeps P (queue_write og now it st le co eo)"
  shows "keeps P (handle_intent d e it)"
proof -
  let ?ttl = "check_intent_age (cd_fromiso d) (ce_max_age e) (ce_epoch e) (Some (li_created_ts it))"
  have rj: "keeps P (reject_or_escalate e it tag r t)" for tag r t by (intro keeps_reject assms(2))
  show ?thesis
  proof (cases "ttl_ok ?ttl")
    case False
    then show ?thesis unfolding handle_intent_def Let_def by (auto intro!: act_keeps assms(2))
  next
    case ttl: True
    show ?thesis
    proof (cases "ce_mq e")
      case (Inl t)
      then show ?thesis using ttl rj unfolding handle_intent_def Let_def by simp
    next
      case (Inr mq)
      then show ?thesis using ttl rj assms(1)[of mq] unfolding handle_intent_def Let_def gates_open_def
        by (auto split: sum.splits intro: keeps_throw)
    qed
  qed
qed

text \<open>C15. An order leaves only through every gate. If handling an intent calls \<open>submit_order\<close> at all, then
  exactly one call is made, with the intent's own client order id, and before it: the intent is within its time to
  live, the market-quality guard and the venue clock are fine, the notional could be estimated and the daily
  risk budget was claimed for it, the dedupe row was claimed and does not ask to skip, the router allowed the
  order, and the exchange was asked and did not already have it.\<close>

theorem submit_only_through_gates:
  assumes "w_submits (snd (handle_intent d e it w)) \<noteq> w_submits w"
  shows "\<exists>mq est q rs row w1 dec.
     gates_open d e it mq \<and> intent_notional_estimate it mq = Inr est \<and>
     risk_check_and_claim (ce_today e) (ce_risk_cfg e) est (w_queue w) = (Inr (True, rs), q) \<and>
     dedupe_claim_act (ce_now_ms e) (cd_venue d (li_venue it)) (li_intent_id it) (cd_symbol d (li_symbol it))
       (intent_coid it) consumer_meta (w\<lparr>w_queue := q\<rparr>) = (Inr row, w1) \<and>
     \<not> dedupe_skip row \<and> ce_decision e = Inr dec \<and> od_allowed dec \<and>
     ce_adapter_error e = None \<and> found_id (ce_lookup e) = '''' \<and>
     w_submits (snd (handle_intent d e it w)) = w_submits w @
       [the_submit it (cd_venue d (li_venue it)) (cd_symbol d (li_symbol it)) (intent_coid it) dec]"
proof -
  let ?P = "\<lambda>x. w_submits x = w_submits w"
  have "\<exists>mq. gates_open d e it mq"
  proof (rule ccontr)
    assume "\<not> (\<exists>mq. gates_open d e it mq)"
    then have "keeps ?P (handle_intent d e it)" by (intro handle_intent_closed act_keeps) simp
    then show False using assms unfolding keeps_def by blast
  qed
  then obtain mq where mq: "gates_open d e it mq" by blast
  obtain est where est: "intent_notional_estimate it mq = Inr est"
    using assms by (cases "intent_notional_estimate it mq") (simp_all add: handle_intent_open[OF mq] throw_def)
  have h: "handle_intent d e it w = bnd (risk_claim_act e est) (after_risk d e it) w"
    by (simp add: handle_intent_open[OF mq] est)
  obtain ans q where r: "risk_check_and_claim (ce_today e) (ce_risk_cfg e) est (w_queue w) = (ans, q)"
    by (cases "risk_check_and_claim (ce_today e) (ce_risk_cfg e) est (w_queue w)")
  let ?w = "w\<lparr>w_queue := q\<rparr>"
  obtain ok rs where ans: "ans = Inr (ok, rs)"
    using assms h r by (cases ans) (auto simp: bnd_def risk_claim_act_def)
  have h2: "handle_intent d e it w = after_risk d e it (ok, rs) ?w"
    by (simp add: h bnd_def risk_claim_act_def r ans)
  have ok
  proof (rule ccontr)
    assume "\<not> ok"
    then have "keeps ?P (after_risk d e it (ok, rs))" unfolding after_risk_def Let_def by (auto intro!: act_keeps)
    then show False using assms h2 unfolding keeps_def by simp
  qed
  obtain a w1 where c: "dedupe_claim_act (ce_now_ms e) (cd_venue d (li_venue it)) (li_intent_id it) (cd_symbol d (li_symbol it))
       (intent_coid it) consumer_meta ?w = (a, w1)" by fastforce
  have w1: "w_submits w1 = w_submits w"
    using act_frames(11)[of "ce_now_ms e" "cd_venue d (li_venue it)" "li_intent_id it" "cd_symbol d (li_symbol it)" "intent_coid it" consumer_meta ?w] c
    by simp
  obtain row where row: "a = Inr row" "\<not> dedupe_skip row"
    using assms h2 \<open>ok\<close> c w1 by (cases a) (auto simp: after_risk_def Let_def bnd_def ret_def split: if_splits)
  have h3: "handle_intent d e it w = after_dedupe d e it (cd_venue d (li_venue it)) (cd_symbol d (li_symbol it)) (intent_coid it) w1"
    using row c \<open>ok\<close> by (simp add: h2 after_risk_def Let_def bnd_def)
  have tr: "w_submits (snd (handle_intent d e it w)) = w_submits w @
     (case ce_decision e of Inl _ \<Rightarrow> [] | Inr dec \<Rightarrow>
        if od_allowed dec \<and> ce_adapter_error e = None \<and> found_id (ce_lookup e) = ''''
        then [the_submit it (cd_venue d (li_venue it)) (cd_symbol d (li_symbol it)) (intent_coid it) dec] else [])"
    by (simp add: h3 after_dedupe_trace w1)
  then obtain dec where dec: "ce_decision e = Inr dec" "od_allowed dec" "ce_adapter_error e = None" "found_id (ce_lookup e) = ''''"
    using assms by (cases "ce_decision e") (auto split: if_splits)
  have r': "risk_check_and_claim (ce_today e) (ce_risk_cfg e) est (w_queue w) = (Inr (True, rs), q)"
    using r ans \<open>ok\<close> by simp
  have "w_submits (snd (handle_intent d e it w)) = w_submits w @
      [the_submit it (cd_venue d (li_venue it)) (cd_symbol d (li_symbol it)) (intent_coid it) dec]"
    using tr dec by simp
  then show ?thesis
    by (intro exI conjI) (rule mq est r' c[unfolded row(1)] row(2) dec, assumption?)+
qed

theorem submit_only_through_gates_witness:
  "\<exists>mq. gates_open sample_deps sample_env sample_intent mq \<and> mq_ok mq"
proof -
  have "w_submits (snd (handle_intent sample_deps sample_env sample_intent sample_world)) \<noteq> w_submits sample_world"
    using arg_cong[OF sample_handled, of length] by (auto simp: sample_world_def)
  from submit_only_through_gates[OF this] show ?thesis unfolding gates_open_def by (elim exE conjE) blast
qed

section \<open>The daily budget bounds the orders\<close>

text \<open>The day's counters are running for \<open>day\<close>, within the caps, and every submit beyond the first \<open>n\<close>, plus \<open>k\<close>
  still to come, is covered by a counted claim.\<close>

definition budget_covers :: "int \<Rightarrow> rat \<Rightarrow> string \<Rightarrow> int \<Rightarrow> int \<Rightarrow> world \<Rightarrow> bool" where
  "budget_covers mt c day n k w \<longleftrightarrow>
     live_get_state ''risk:day'' (w_queue w) = Some (TxStr day) \<and>
     (\<exists>t. within_budget mt c t (w_queue w) \<and> int (length (w_submits w)) + k \<le> n + t)"

lemma within_budget_state: "lq_state q' = lq_state q \<Longrightarrow> within_budget mt c t q' = within_budget mt c t q"
  by (simp add: within_budget_def risk_trades_def risk_notional_def cell_or_zero_def live_get_state_def)

lemma budget_state:
  assumes "budget_covers mt c day n k w" "lq_state (w_queue w') = lq_state (w_queue w)" "w_submits w' = w_submits w"
  shows "budget_covers mt c day n k w'"
  using assms within_budget_state[OF assms(2)] by (simp add: budget_covers_def live_get_state_def)

lemma live_update_status_state [simp]: "lq_state (snd (live_update_status now i st w q)) = lq_state q"
  by (simp add: live_update_status_def Let_def)

lemma queue_write_state: "lq_state (w_queue (snd (queue_write og now it st le co eo w))) = lq_state (w_queue w)"
proof -
  have "update_live_queue_status_as_intent_consumer now s st' x a q = Inr (ok, q') \<Longrightarrow> lq_state q' = lq_state q" for s st' x a q ok q'
    unfolding update_live_queue_status_as_intent_consumer_def Let_def
    by (auto split: if_splits sum.splits prod.splits dest!: arg_cong[where f = snd])
  then show ?thesis by (auto simp: queue_write_def split: sum.splits prod.splits)
qed

lemma budget_acts [act_keeps]:
  "keeps (budget_covers mt c day n k) (queue_write og now it st le co eo)"
  "keeps (budget_covers mt c day n k) (order_write now it v y x eo s2 le)"
  "keeps (budget_covers mt c day n k) (dedupe_claim_act m v i y x me)"
  "keeps (budget_covers mt c day n k) (dedupe_mark_act f)"
  unfolding keeps_def
  by (auto simp: act_frames queue_write_state intro: budget_state)

definition budget_env :: "int \<Rightarrow> rat \<Rightarrow> string \<Rightarrow> consumer_env \<Rightarrow> bool" where
  "budget_env mt c day e \<longleftrightarrow> ce_today e = day \<and>
     (\<exists>cfg. ce_risk_cfg e = Some cfg \<and> rl_max_trades_per_day cfg = mt \<and> rl_max_daily_notional_quote cfg = NumFin c)"

lemma risk_claim_budget:
  assumes mt: "0 < mt" "mt \<le> 2 ^ 53" "0 < c" and e: "budget_env mt c day e" and b: "budget_covers mt c day n 0 w"
    and r: "risk_claim_act e est w = (ans, w')"
  shows "budget_covers mt c day n (case ans of Inr (True, _) \<Rightarrow> 1 | _ \<Rightarrow> 0) w'"
proof -
  obtain cfg where cfg: "ce_risk_cfg e = Some cfg" "rl_max_trades_per_day cfg = mt" "rl_max_daily_notional_quote cfg = NumFin c"
    "ce_today e = day" using e by (auto simp: budget_env_def)
  have nr: "risk_reset_if_needed day (w_queue w) = w_queue w"
    using b by (simp add: budget_covers_def risk_reset_if_needed_def)
  obtain t where t: "within_budget mt c t (w_queue w)" "int (length (w_submits w)) \<le> n + t"
    and day: "live_get_state ''risk:day'' (w_queue w) = Some (TxStr day)" using b by (auto simp: budget_covers_def)
  obtain ok rs q' where a: "atomic_risk_claim mt (NumFin c) (NumFin est) (w_queue w) = ((ok, rs), q')" by (metis prod.exhaust)
  have wb: "within_budget mt c (if ok then t + 1 else t) q'" by (rule risk_claim_within_budget[OF mt t(1) a])
  have day': "live_get_state ''risk:day'' q' = Some (TxStr day)"
    using atomic_risk_claim_state[of mt "NumFin c" "NumFin est" "w_queue w"] a day by auto
  have out: "(ans, w') = (Inr (False, Some ''risk:min_order_notional_quote''), w) \<or> (\<exists>x. (ans, w') = (Inl x, w)) \<or>
      (ans, w') = (Inr (ok, rs), w\<lparr>w_queue := q'\<rparr>)"
    using r cfg nr a by (auto simp: risk_claim_act_def risk_check_and_claim_def Let_def split: sum.splits if_splits prod.splits)
  then show ?thesis
    using b wb day' t by (auto simp: budget_covers_def split: if_splits bool.splits)
qed

lemma budget_weaken: "budget_covers mt c day n 1 w \<Longrightarrow> budget_covers mt c day n 0 w"
  by (auto simp: budget_covers_def)

lemma after_dedupe_budget:
  assumes "budget_covers mt c day n 1 w"
  shows "budget_covers mt c day n 0 (snd (after_dedupe d e it v y co w))"
proof -
  let ?q = "w_queue (snd (after_dedupe d e it v y co w))"
  have "keeps (\<lambda>x. lq_state (w_queue x) = lq_state (w_queue w)) (after_dedupe d e it v y co)"
    by (rule keeps_after_dedupe) (simp_all add: keeps_def act_frames queue_write_state submit_order_act_def)
  then have st: "lq_state ?q = lq_state (w_queue w)" unfolding keeps_def by blast
  have "length (w_submits (snd (after_dedupe d e it v y co w))) \<le> length (w_submits w) + 1"
    by (auto simp: after_dedupe_trace split: sum.splits)
  then show ?thesis
    using assms within_budget_state[OF st] st by (auto simp: budget_covers_def live_get_state_def)
qed

lemma after_risk_budget:
  assumes "budget_covers mt c day n (if fst r then 1 else 0) w"
  shows "budget_covers mt c day n 0 (snd (after_risk d e it r w))"
proof (cases "fst r")
  case False
  have "keeps (budget_covers mt c day n 0) (after_risk d e it r)"
    using False unfolding after_risk_def Let_def by (auto intro!: act_keeps)
  then show ?thesis using assms False unfolding keeps_def by simp
next
  case True
  obtain a w1 where c: "dedupe_claim_act (ce_now_ms e) (cd_venue d (li_venue it)) (li_intent_id it) (cd_symbol d (li_symbol it))
       (intent_coid it) consumer_meta w = (a, w1)" by fastforce
  have "keeps (budget_covers mt c day n 1) (dedupe_claim_act (ce_now_ms e) (cd_venue d (li_venue it)) (li_intent_id it)
      (cd_symbol d (li_symbol it)) (intent_coid it) consumer_meta)" by (intro act_keeps)
  then have "budget_covers mt c day n 1 w1" using assms True c unfolding keeps_def by (metis snd_conv)
  then show ?thesis using True c after_dedupe_budget budget_weaken
    by (cases a) (auto simp: after_risk_def Let_def bnd_def ret_def)
qed

lemma handle_intent_budget:
  assumes "0 < mt" "mt \<le> 2 ^ 53" "0 < c" "budget_env mt c day e" "budget_covers mt c day n 0 w"
  shows "budget_covers mt c day n 0 (snd (handle_intent d e it w))"
proof (cases "\<exists>mq. gates_open d e it mq")
  case False
  then have "keeps (budget_covers mt c day n 0) (handle_intent d e it)"
    by (intro handle_intent_closed act_keeps) simp
  then show ?thesis using assms(5) unfolding keeps_def by blast
next
  case True
  then obtain mq where mq: "gates_open d e it mq" by blast
  show ?thesis
  proof (cases "intent_notional_estimate it mq")
    case (Inl x)
    then show ?thesis using assms(5) by (simp add: handle_intent_open[OF mq] throw_def)
  next
    case (Inr est)
    obtain ans w1 where r: "risk_claim_act e est w = (ans, w1)" by fastforce
    have "budget_covers mt c day n (case ans of Inr (True, _) \<Rightarrow> 1 | _ \<Rightarrow> 0) w1"
      by (rule risk_claim_budget[OF assms r])
    then show ?thesis
      using r after_risk_budget[of mt c day n _ w1 d e it]
      by (cases ans) (auto simp: handle_intent_open[OF mq] Inr bnd_def split: bool.splits prod.splits)
  qed
qed

lemma handle_batch_budget:
  assumes "0 < mt" "mt \<le> 2 ^ 53" "0 < c" "\<forall>p \<in> set ps. budget_env mt c day (snd p)" "budget_covers mt c day n 0 w"
  shows "budget_covers mt c day n 0 (snd (handle_batch d ps w))"
  using assms(4,5)
proof (induction ps arbitrary: w)
  case (Cons p ps)
  obtain a w1 where h: "handle_intent d (snd p) (fst p) w = (a, w1)" by fastforce
  have b1: "budget_covers mt c day n 0 w1"
    using handle_intent_budget[OF assms(1-3), of day "snd p" n w d "fst p"] Cons.prems h by simp
  obtain a2 w2 where h2: "handle_batch d ps w1 = (a2, w2)" by fastforce
  have "budget_covers mt c day n 0 w2" using Cons.IH[OF _ b1] Cons.prems(1) h2 by simp
  then show ?case using b1 h h2 by (cases a; cases a2) (simp_all add: bnd_def ret_def)
qed (simp add: ret_def)

text \<open>C7. The daily trade cap bounds the exchange calls. After the reset at the start of a day, and as long as
  that day and the configured caps last, any sequence of intents makes at most \<open>max_trades_per_day\<close> calls to
  \<open>submit_order\<close>, whatever the outside answers and wherever a handler raises, and the recorded notional never
  exceeds \<open>max_daily_notional_quote\<close>.\<close>

theorem submits_within_daily_cap:
  assumes "0 < mt" "mt \<le> 2 ^ 53" "0 < c" "\<forall>p \<in> set ps. budget_env mt c day (snd p)"
    and "w_queue w = reset_risk_state_for_day day q" "handle_batch d ps w = (a, w')"
  shows "int (length (w_submits w')) \<le> int (length (w_submits w)) + mt \<and>
    (\<exists>x. risk_notional (w_queue w') = NumFin x \<and> 0 \<le> x \<and> x \<le> c)"
proof -
  have "within_budget mt c 0 (w_queue w)"
    using assms(1,3,5) text_int_of_int[of 0]
    by (simp add: within_budget_def risk_trades_def risk_notional_def reset_risk_state_for_day_def text_num_def)
  then have "budget_covers mt c day (int (length (w_submits w))) 0 w"
    using assms(5) by (auto simp: budget_covers_def reset_risk_state_for_day_def)
  from handle_batch_budget[OF assms(1-4) this, of d] assms(6)
  show ?thesis by (auto simp: budget_covers_def within_budget_def)
qed

theorem submits_within_daily_cap_witness:
  "length (w_submits (snd (handle_batch sample_deps [(sample_intent, sample_env), (sample_intent, sample_env)]
     (sample_world\<lparr>w_queue := reset_risk_state_for_day ''2026-01-01'' empty_live_queue\<rparr>)))) \<le> 3"
proof -
  let ?w = "sample_world\<lparr>w_queue := reset_risk_state_for_day ''2026-01-01'' empty_live_queue\<rparr>"
  obtain a w' where b: "handle_batch sample_deps [(sample_intent, sample_env), (sample_intent, sample_env)] ?w = (a, w')"
    by (cases "handle_batch sample_deps [(sample_intent, sample_env), (sample_intent, sample_env)] ?w")
  have "\<forall>p \<in> set [(sample_intent, sample_env), (sample_intent, sample_env)]. budget_env 3 100 ''2026-01-01'' (snd p)"
    by (simp add: budget_env_def sample_env_def)
  from submits_within_daily_cap[OF _ _ _ this _ b, of empty_live_queue] b show ?thesis by (simp add: sample_world_def)
qed

section \<open>A quantity that cannot be priced\<close>

text \<open>An intent whose stored quantity is infinite (the live queue accepts one) stops the consumer:
  once it is within its time to live and the guards pass, handling it raises out of the loop before any status is
  written, so the process ends with the intent left as it was claimed and the rest of the batch unhandled.\<close>

theorem infinite_quantity_stops_consumer:
  assumes "li_qty it = PInf" "gates_open d e it mq"
  shows "handle_batch d ((it, e) # ps) w = (Inl (PyExn (ValueError ''left_non_finite'')), w)"
proof -
  have "intent_notional_estimate it mq = Inl (ValueError ''left_non_finite'')"
    using assms(1) by (simp add: intent_notional_estimate_def Let_def num_of_float_def decimal_product_def decimal_value_def)
  then show ?thesis by (simp add: handle_intent_open[OF assms(2)] bnd_def throw_def)
qed

lemma sample_gates: "gates_open sample_deps sample_env sample_intent \<lparr>mq_ok = True, mq_reason = None, mq_last = Some (NumFin 10)\<rparr>"
proof -
  have "ttl_ok (check_intent_age (cd_fromiso sample_deps) (ce_max_age sample_env) (ce_epoch sample_env)
      (Some (li_created_ts sample_intent)))" by code_simp
  then show ?thesis by (simp add: gates_open_def sample_env_def)
qed

theorem infinite_quantity_stops_consumer_witness:
  "handle_batch sample_deps [(sample_intent\<lparr>li_qty := PInf\<rparr>, sample_env)] sample_world =
     (Inl (PyExn (ValueError ''left_non_finite'')), sample_world)"
proof -
  have "gates_open sample_deps sample_env (sample_intent\<lparr>li_qty := PInf\<rparr>) \<lparr>mq_ok = True, mq_reason = None, mq_last = Some (NumFin 10)\<rparr>"
    using sample_gates by (simp add: gates_open_def)
  then show ?thesis by (intro infinite_quantity_stops_consumer) simp_all
qed

end
