(* ===== verification/Live_Positions.thy ===== *)
theory Live_Positions
  imports Py_Prelude
begin

text \<open>
  storage/live\_position\_store\_sqlite.py: spot positions and realised profit per \<open>(venue, symbol)\<close>, fed by
  fills that are applied exactly once per \<open>(venue, fill_id)\<close>. Quantities and prices are binary64
  floats with the rounding of every operation; a NaN reaching a \<open>NOT NULL\<close> column aborts the
  transaction. An aborted \<open>apply_fill\<close> returns the error and leaves the store as it was.
\<close>

section \<open>Definitions\<close>

record position_row =
  lp_venue :: string
  lp_symbol :: string
  lp_qty :: pyfloat
  lp_avg_price :: pyfloat
  lp_updated_ts :: string

record position_fill =
  pf_venue :: string
  pf_fill_id :: string
  pf_symbol :: string
  pf_side :: string
  pf_qty :: pyfloat
  pf_price :: pyfloat
  pf_realized_pnl :: pyfloat
  pf_created_ts :: string

record position_store =
  ps_positions :: "position_row list"
  ps_fills :: "position_fill list"

definition empty_position_store :: position_store where
  "empty_position_store = \<lparr>ps_positions = [], ps_fills = []\<rparr>"

datatype position_error =
    InvalidNumeric string string
  | MissingRequiredIdentity
  | InvalidQty pyfloat
  | InvalidPrice pyfloat
  | UnknownSide string
  | SellWithoutPosition string string string
  | SellExceedsPosition string string string pyfloat pyfloat
  | PositionDbError exn

definition pos_finite_real_input :: "string \<Rightarrow> num_arg \<Rightarrow> position_error + pyfloat" where
  "pos_finite_real_input name v =
     (case decimal_value name v of
        Inl (ValueError m) \<Rightarrow> Inl (InvalidNumeric name m)
      | Inl e \<Rightarrow> Inl (PositionDbError e)
      | Inr d \<Rightarrow> (let out = mk_float d
                  in if isfinite out then Inr out else Inl (InvalidNumeric name ''non_finite_float'')))"

definition position_key :: "position_row \<Rightarrow> string \<times> string" where
  "position_key r = (lp_venue r, lp_symbol r)"

definition fill_key :: "position_fill \<Rightarrow> string \<times> string" where
  "fill_key f = (pf_venue f, pf_fill_id f)"

text \<open>Quantity and average price; both zero when there is no row.\<close>

definition get_position :: "string \<Rightarrow> string \<Rightarrow> position_store \<Rightarrow> pyfloat \<times> pyfloat" where
  "get_position venue symbol s =
     (case select_key position_key (venue, symbol) (ps_positions s) of
        None \<Rightarrow> (Fin 0, Fin 0) | Some r \<Rightarrow> (lp_qty r, lp_avg_price r))"

record drift_report =
  dr_ok :: bool
  dr_local_qty :: pyfloat
  dr_exchange_qty :: "pyfloat option"
  dr_drift :: "pyfloat option"
  dr_tolerance :: "pyfloat option"
  dr_reason :: "position_error option"

definition reconcile_to_exchange ::
    "string \<Rightarrow> string \<Rightarrow> num_arg \<Rightarrow> num_arg \<Rightarrow> position_store \<Rightarrow> drift_report" where
  "reconcile_to_exchange venue symbol exchange_qty tolerance s =
     (let local_qty = fst (get_position venue symbol s);
          failed = (\<lambda>e. \<lparr>dr_ok = False, dr_local_qty = local_qty, dr_exchange_qty = None, dr_drift = None,
                        dr_tolerance = None, dr_reason = Some e\<rparr>)
      in case pos_finite_real_input ''exchange_qty'' exchange_qty of
           Inl e \<Rightarrow> failed e
         | Inr eq \<Rightarrow>
        (case pos_finite_real_input ''tolerance'' tolerance of
           Inl e \<Rightarrow> failed e
         | Inr tol \<Rightarrow>
             if flt tol (Fin 0)
             then \<lparr>dr_ok = False, dr_local_qty = local_qty, dr_exchange_qty = Some eq, dr_drift = None,
                   dr_tolerance = Some tol, dr_reason = Some (InvalidNumeric ''tolerance'' ''negative'')\<rparr>
             else (let drift = fsub eq local_qty
                   in \<lparr>dr_ok = fle (fabs drift) tol, dr_local_qty = local_qty, dr_exchange_qty = Some eq,
                       dr_drift = Some drift, dr_tolerance = Some tol, dr_reason = None\<rparr>)))"

text \<open>The literal \<open>1e-12\<close>.\<close>

definition qty_eps :: pyfloat where
  "qty_eps = mk_float (1 / 10 ^ 12)"

text \<open>The accounting of one fill on the old quantity and average price: new quantity, new average price
  and realised profit.\<close>

definition position_step ::
    "string \<Rightarrow> string \<Rightarrow> string \<Rightarrow> string \<Rightarrow> pyfloat \<Rightarrow> pyfloat \<Rightarrow> pyfloat \<times> pyfloat \<Rightarrow>
     position_error + pyfloat \<times> pyfloat \<times> pyfloat" where
  "position_step venue symbol fill_id side qty price old =
     (let (old_qty, old_avg) = old
      in if side = ''buy'' then
           (let new_qty = fadd old_qty qty
            in case fdiv (fadd (fmul old_qty old_avg) (fmul qty price)) new_qty of
                 None \<Rightarrow> Inl (PositionDbError ZeroDivisionError)
               | Some new_avg \<Rightarrow> Inr (new_qty, new_avg, Fin 0))
         else if fle old_qty (Fin 0) then Inl (SellWithoutPosition venue symbol fill_id)
         else if flt (fadd old_qty qty_eps) qty then Inl (SellExceedsPosition venue symbol fill_id qty old_qty)
         else (let realized = fmul (fsub price old_avg) qty;
                   new_qty = fsub old_qty qty;
                   new_avg = (if flt qty_eps new_qty then old_avg else Fin 0)
               in Inr (if fle new_qty qty_eps then Fin 0 else new_qty, new_avg, realized)))"

record fill_result =
  fr_idempotent :: bool
  fr_realized_pnl_usd :: pyfloat
  fr_new_qty :: pyfloat
  fr_new_avg_price :: pyfloat
  fr_reason :: "string option"

text \<open>\<open>INSERT ... ON CONFLICT(venue, symbol) DO UPDATE\<close>\<close>

definition upsert_position ::
    "string \<Rightarrow> string \<Rightarrow> pyfloat \<Rightarrow> pyfloat \<Rightarrow> string \<Rightarrow> position_row list \<Rightarrow> position_row list" where
  "upsert_position venue symbol qty avg now t =
     (if select_key position_key (venue, symbol) t = None
      then t @ [\<lparr>lp_venue = venue, lp_symbol = symbol, lp_qty = qty, lp_avg_price = avg, lp_updated_ts = now\<rparr>]
      else upd_where (\<lambda>r. position_key r = (venue, symbol))
             (\<lambda>r. r\<lparr>lp_qty := qty, lp_avg_price := avg, lp_updated_ts := now\<rparr>) t)"

definition not_null_failed :: "string \<Rightarrow> position_error" where
  "not_null_failed col = PositionDbError (IntegrityError (''NOT NULL constraint failed: '' @ col))"

definition apply_fill ::
    "string \<Rightarrow> string \<Rightarrow> string \<Rightarrow> string \<Rightarrow> string \<Rightarrow> num_arg \<Rightarrow> num_arg \<Rightarrow> position_store \<Rightarrow>
     position_error + fill_result \<times> position_store" where
  "apply_fill now venue symbol fill_id side qty price s =
     (let side_s = lower (strip side) in
      case pos_finite_real_input ''qty'' qty of
        Inl e \<Rightarrow> Inl e
      | Inr qty_f \<Rightarrow>
     (case pos_finite_real_input ''price'' price of
        Inl e \<Rightarrow> Inl e
      | Inr price_f \<Rightarrow>
        if venue = '''' \<or> symbol = '''' \<or> fill_id = '''' then Inl MissingRequiredIdentity
        else if fle qty_f (Fin 0) then Inl (InvalidQty qty_f)
        else if fle price_f (Fin 0) then Inl (InvalidPrice price_f)
        else if side_s \<noteq> ''buy'' \<and> side_s \<noteq> ''sell'' then Inl (UnknownSide side_s)
        else case select_key fill_key (venue, fill_id) (ps_fills s) of
          Some f \<Rightarrow>
            Inr (\<lparr>fr_idempotent = True, fr_realized_pnl_usd = pf_realized_pnl f,
                  fr_new_qty = fst (get_position venue symbol s),
                  fr_new_avg_price = snd (get_position venue symbol s),
                  fr_reason = Some ''duplicate_fill''\<rparr>, s)
        | None \<Rightarrow>
       (case position_step venue symbol fill_id side_s qty_f price_f (get_position venue symbol s) of
          Inl e \<Rightarrow> Inl e
        | Inr (new_qty, new_avg, realized) \<Rightarrow>
            if new_qty = NaN then Inl (not_null_failed ''live_positions.qty'')
            else if new_avg = NaN then Inl (not_null_failed ''live_positions.avg_price'')
            else if realized = NaN then Inl (not_null_failed ''live_position_fills.realized_pnl'')
            else Inr (\<lparr>fr_idempotent = False, fr_realized_pnl_usd = realized, fr_new_qty = new_qty,
                       fr_new_avg_price = new_avg, fr_reason = None\<rparr>,
                      \<lparr>ps_positions = upsert_position venue symbol new_qty new_avg now (ps_positions s),
                       ps_fills = ps_fills s @
                         [\<lparr>pf_venue = venue, pf_fill_id = fill_id, pf_symbol = symbol, pf_side = side_s,
                           pf_qty = qty_f, pf_price = price_f, pf_realized_pnl = realized,
                           pf_created_ts = now\<rparr>]\<rparr>))))"

section \<open>The store is the replay of its fill log\<close>

text \<open>The position of \<open>(venue, symbol)\<close> computed from the log alone.\<close>

fun replay :: "string \<Rightarrow> string \<Rightarrow> position_fill list \<Rightarrow> pyfloat \<times> pyfloat \<Rightarrow> pyfloat \<times> pyfloat" where
  "replay v y [] p = p"
| "replay v y (f # fs) p =
     (if pf_venue f = v \<and> pf_symbol f = y then
        (case position_step v y (pf_fill_id f) (pf_side f) (pf_qty f) (pf_price f) p of
           Inl _ \<Rightarrow> replay v y fs p
         | Inr (q, a, _) \<Rightarrow> replay v y fs (q, a))
      else replay v y fs p)"

lemma replay_append: "replay v y (fs @ gs) p = replay v y gs (replay v y fs p)"
  by (induction fs arbitrary: p) (auto split: sum.splits)

text \<open>Every logged fill was a legal step of the position it found, with the profit it recorded.\<close>

fun log_ok :: "position_fill list \<Rightarrow> bool" where
  "log_ok [] = True"
| "log_ok (f # fs) = (log_ok fs \<and>
     (\<exists>q a. position_step (pf_venue f) (pf_symbol f) (pf_fill_id f) (pf_side f) (pf_qty f) (pf_price f)
        (replay (pf_venue f) (pf_symbol f) (rev fs) (Fin 0, Fin 0)) = Inr (q, a, pf_realized_pnl f)))"

definition position_ok :: "pyfloat \<times> pyfloat \<Rightarrow> bool" where
  "position_ok p \<longleftrightarrow> fle (Fin 0) (fst p) \<and> fle (Fin 0) (snd p)"

definition position_inv :: "position_store \<Rightarrow> bool" where
  "position_inv s \<longleftrightarrow>
     distinct (map position_key (ps_positions s)) \<and> distinct (map fill_key (ps_fills s)) \<and>
     (\<forall>v y. get_position v y s = replay v y (ps_fills s) (Fin 0, Fin 0) \<and> position_ok (get_position v y s)) \<and>
     log_ok (rev (ps_fills s))"

lemma fle_zero_cases: "fle (Fin 0) f \<longleftrightarrow> f = PInf \<or> (\<exists>r. f = Fin r \<and> 0 \<le> r)"
  by (cases f) auto

lemma fdiv_nonneg:
  assumes "fle (Fin 0) x" "fle (Fin 0) y" "fdiv x y = Some z" "z \<noteq> NaN"
  shows "fle (Fin 0) z"
  using assms by (cases x; cases y) (auto simp: mk_float_nonneg inf_of_sign_def split: if_splits)

lemma fmul_nonneg': 
  assumes "fle (Fin 0) x" "fle (Fin 0) y" "fmul x y \<noteq> NaN"
  shows "fle (Fin 0) (fmul x y)"
  using assms by (cases x; cases y) (auto simp: mk_float_nonneg inf_of_sign_def sgn_if split: if_splits)

lemma fadd_not_NaN: "fadd x y \<noteq> NaN \<Longrightarrow> x \<noteq> NaN \<and> y \<noteq> NaN"
  by (cases x; cases y) auto

lemma qty_eps_nonneg: "fle (Fin 0) qty_eps"
  unfolding qty_eps_def by (rule mk_float_nonneg) simp

lemma position_step_ok:
  assumes p: "position_ok p" and q: "flt (Fin 0) qty" and pr: "flt (Fin 0) price"
    and st: "position_step v y i side qty price p = Inr (q', a', r)" "q' \<noteq> NaN" "a' \<noteq> NaN"
  shows "position_ok (q', a')"
proof -
  obtain oq oa where p': "p = (oq, oa)" "fle (Fin 0) oq" "fle (Fin 0) oa"
    using p by (cases p) (auto simp: position_ok_def)
  show ?thesis
  proof (cases "side = ''buy''")
    case True
    let ?num = "fadd (fmul oq oa) (fmul qty price)"
    have q': "q' = fadd oq qty" and a': "fdiv ?num (fadd oq qty) = Some a'"
      using st(1) True by (auto simp: position_step_def p'(1) Let_def split: option.splits)
    have "?num \<noteq> NaN" using a' st(3) by (cases "fadd oq qty") (auto split: if_splits)
    then have num: "fle (Fin 0) ?num"
      using fadd_not_NaN[of "fmul oq oa" "fmul qty price"] p'(2,3) q pr
      by (intro fadd_nonneg fmul_nonneg') (auto intro: flt_imp_fle)
    have "fle (Fin 0) q'" unfolding q' using p'(2) flt_imp_fle[OF q] by (rule fadd_nonneg)
    then show ?thesis using fdiv_nonneg[OF num _ a' st(3)] by (simp add: position_ok_def q')
  next
    case False
    have q': "q' = (if fle (fsub oq qty) qty_eps then Fin 0 else fsub oq qty)"
      and a': "a' = (if flt qty_eps (fsub oq qty) then oa else Fin 0)"
      using st(1) False by (auto simp: position_step_def p'(1) Let_def split: if_splits)
    have "fle (Fin 0) q'"
    proof (cases "fle (fsub oq qty) qty_eps")
      case no: False
      then have "q' = fsub oq qty" using q' by simp
      moreover have "qty_eps \<noteq> NaN" unfolding qty_eps_def by simp
      ultimately have "flt qty_eps q'" using no st(2) not_fle_iff_flt[of "fsub oq qty" qty_eps] by simp
      then show ?thesis using fle_trans[OF qty_eps_nonneg flt_imp_fle] by blast
    qed (simp add: q')
    then show ?thesis using p'(3) a' by (simp add: position_ok_def)
  qed
qed

lemma pos_finite_input: "pos_finite_real_input n v = Inr x \<Longrightarrow> isfinite x"
  by (auto simp: pos_finite_real_input_def Let_def split: sum.splits exn.splits if_splits)

text \<open>The two ways \<open>apply_fill\<close> succeeds.\<close>

lemma apply_fill_cases:
  assumes "apply_fill now v y i side qty price s = Inr (res, s')"
  obtains (duplicate) f where "select_key fill_key (v, i) (ps_fills s) = Some f" "s' = s" "fr_idempotent res"
      "fr_realized_pnl_usd res = pf_realized_pnl f"
      "fr_new_qty res = fst (get_position v y s)" "fr_new_avg_price res = snd (get_position v y s)"
  | (applied) qf pf q' a' r where "select_key fill_key (v, i) (ps_fills s) = None"
      "flt (Fin 0) qf" "flt (Fin 0) pf" "lower (strip side) = ''buy'' \<or> lower (strip side) = ''sell''"
      "position_step v y i (lower (strip side)) qf pf (get_position v y s) = Inr (q', a', r)"
      "q' \<noteq> NaN" "a' \<noteq> NaN" "r \<noteq> NaN" "\<not> fr_idempotent res"
      "fr_realized_pnl_usd res = r" "fr_new_qty res = q'" "fr_new_avg_price res = a'"
      "s' = \<lparr>ps_positions = upsert_position v y q' a' now (ps_positions s),
             ps_fills = ps_fills s @ [\<lparr>pf_venue = v, pf_fill_id = i, pf_symbol = y, pf_side = lower (strip side),
               pf_qty = qf, pf_price = pf, pf_realized_pnl = r, pf_created_ts = now\<rparr>]\<rparr>"
proof -
  obtain qf pf where n: "pos_finite_real_input ''qty'' qty = Inr qf" "pos_finite_real_input ''price'' price = Inr pf"
    and g: "\<not> fle qf (Fin 0)" "\<not> fle pf (Fin 0)" "lower (strip side) = ''buy'' \<or> lower (strip side) = ''sell''"
    using assms unfolding apply_fill_def Let_def by (auto split: sum.splits if_splits)
  have fin: "isfinite qf" "isfinite pf" using n pos_finite_input by blast+
  have pos: "flt (Fin 0) qf" "flt (Fin 0) pf" using g fin by (cases qf; cases pf; simp)+
  show ?thesis
  proof (cases "select_key fill_key (v, i) (ps_fills s)")
    case (Some f)
    then show ?thesis using assms n g(1,2) unfolding apply_fill_def Let_def
      by (intro duplicate) (auto split: if_splits)
  next
    case None
    obtain q' a' r where st: "position_step v y i (lower (strip side)) qf pf (get_position v y s) = Inr (q', a', r)"
      using assms n g(1,2) None unfolding apply_fill_def Let_def by (auto split: if_splits sum.splits)
    show ?thesis
      by (rule applied[OF None pos g(3) st])
        (use assms n g(1,2) None st in \<open>auto simp: apply_fill_def Let_def split: if_splits\<close>)
  qed
qed

lemma get_position_upsert:
  "get_position v y \<lparr>ps_positions = upsert_position v' y' q a now t, ps_fills = fs\<rparr> =
     (if v = v' \<and> y = y' then (q, a) else get_position v y \<lparr>ps_positions = t, ps_fills = gs\<rparr>)"
proof (cases "select_key position_key (v', y') t")
  case None
  then show ?thesis
    by (auto simp: get_position_def upsert_position_def select_key_append select_key_Cons position_key_def
        split: option.splits)
next
  case (Some r)
  then show ?thesis
    by (auto simp: get_position_def upsert_position_def select_key_upd_where position_key_def
        split: option.splits dest: select_key_Some_mem)
qed

lemma distinct_upsert_position:
  "distinct (map position_key t) \<Longrightarrow> distinct (map position_key (upsert_position v y q a now t))"
  by (auto simp: upsert_position_def tbl position_key_def map_key_upd_where)

lemma apply_fill_inv:
  assumes inv: "position_inv s" and ap: "apply_fill now v y i side qty price s = Inr (res, s')"
  shows "position_inv s'"
  using ap
proof (cases rule: apply_fill_cases)
  case (duplicate f)
  then show ?thesis using inv by simp
next
  case (applied qf pf q' a' r)
  let ?f = "\<lparr>pf_venue = v, pf_fill_id = i, pf_symbol = y, pf_side = lower (strip side),
               pf_qty = qf, pf_price = pf, pf_realized_pnl = r, pf_created_ts = now\<rparr>"
  have s: "get_position v2 y2 \<lparr>ps_positions = ps_positions s, ps_fills = ps_fills s\<rparr> = get_position v2 y2 s" for v2 y2
    by (simp add: get_position_def)
  have get: "get_position v2 y2 s' = (if v2 = v \<and> y2 = y then (q', a') else get_position v2 y2 s)" for v2 y2
    unfolding applied(13) get_position_upsert[where gs = "ps_fills s"] s ..
  have rep: "replay v y (ps_fills s) (Fin 0, Fin 0) = get_position v y s" for v y
    using inv by (simp add: position_inv_def)
  have "position_ok (q', a')"
  proof (rule position_step_ok[OF _ applied(2,3,5,6,7)])
    show "position_ok (get_position v y s)" using inv unfolding position_inv_def by blast
  qed
  have pos: "get_position v2 y2 s' = replay v2 y2 (ps_fills s') (Fin 0, Fin 0) \<and> position_ok (get_position v2 y2 s')" for v2 y2
  proof -
    have fs: "ps_fills s' = ps_fills s @ [?f]" using applied(13) by simp
    have "position_ok (get_position v2 y2 s)" using inv unfolding position_inv_def by blast
    then show ?thesis
      using \<open>position_ok (q', a')\<close> applied(5) by (simp add: get fs replay_append rep)
  qed
  have "log_ok (rev (ps_fills s'))"
    using inv applied(5,13) by (simp add: position_inv_def rep)
  moreover have "distinct (map fill_key (ps_fills s'))"
    using inv applied(1,13) by (auto simp: position_inv_def tbl fill_key_def)
  moreover have "distinct (map position_key (ps_positions s'))"
    using inv applied(13) by (simp add: position_inv_def distinct_upsert_position)
  ultimately show ?thesis using pos unfolding position_inv_def by blast
qed

lemma position_inv_empty: "position_inv empty_position_store"
  by (simp add: position_inv_def empty_position_store_def get_position_def position_ok_def)

section \<open>Properties\<close>

record fill_call =
  fc_now :: string
  fc_venue :: string
  fc_symbol :: string
  fc_fill_id :: string
  fc_side :: string
  fc_qty :: num_arg
  fc_price :: num_arg

text \<open>A sequence of \<open>apply_fill\<close> calls; a call that raises leaves the store as it was.\<close>

definition do_fill :: "fill_call \<Rightarrow> position_store \<Rightarrow> position_store" where
  "do_fill c s = (case apply_fill (fc_now c) (fc_venue c) (fc_symbol c) (fc_fill_id c) (fc_side c) (fc_qty c) (fc_price c) s of
     Inl _ \<Rightarrow> s | Inr (_, s') \<Rightarrow> s')"

definition fills_run :: "fill_call list \<Rightarrow> position_store \<Rightarrow> position_store" where
  "fills_run cs s = fold do_fill cs s"

lemma do_fill_inv: "position_inv s \<Longrightarrow> position_inv (do_fill c s)"
  by (auto simp: do_fill_def split: sum.splits intro: apply_fill_inv)

lemma fills_run_inv: "position_inv s \<Longrightarrow> position_inv (fills_run cs s)"
  unfolding fills_run_def by (induction cs arbitrary: s) (auto intro: do_fill_inv)

text \<open>C5. Starting from an empty store, after any sequence of fills (duplicates, malformed numbers,
  oversells and unknown sides included) the stored position of every \<open>(venue, symbol)\<close> is the replay of
  the fill log, neither the quantity nor the average price is ever negative or NaN, and every logged fill
  was a legal step of the position it found, with exactly the profit the log records.\<close>

theorem position_is_replay_of_log:
  "get_position v y (fills_run cs empty_position_store) =
     replay v y (ps_fills (fills_run cs empty_position_store)) (Fin 0, Fin 0) \<and>
   fle (Fin 0) (fst (get_position v y (fills_run cs empty_position_store))) \<and>
   fle (Fin 0) (snd (get_position v y (fills_run cs empty_position_store))) \<and>
   log_ok (rev (ps_fills (fills_run cs empty_position_store)))"
  using fills_run_inv[OF position_inv_empty, of cs] unfolding position_inv_def position_ok_def by blast

lemma select_fill_persists:
  assumes "select_key fill_key k (ps_fills s) = Some f"
  shows "select_key fill_key k (ps_fills (fills_run cs s)) = Some f"
proof -
  have "select_key fill_key k (ps_fills (do_fill c t)) = Some f"
    if st: "select_key fill_key k (ps_fills t) = Some f" for c t
  proof (cases "apply_fill (fc_now c) (fc_venue c) (fc_symbol c) (fc_fill_id c) (fc_side c) (fc_qty c) (fc_price c) t")
    case (Inl e)
    then show ?thesis using st by (simp add: do_fill_def)
  next
    case (Inr p)
    obtain res t' where p: "p = (res, t')" by (cases p)
    from Inr[unfolded p] have "ps_fills t' = ps_fills t \<or> (\<exists>g. ps_fills t' = ps_fills t @ [g])"
      by (cases rule: apply_fill_cases) auto
    then show ?thesis using st Inr p by (auto simp: do_fill_def select_key_append)
  qed
  then show ?thesis using assms unfolding fills_run_def by (induction cs arbitrary: s) auto
qed

text \<open>C22. A fill is applied exactly once. After \<open>apply_fill\<close> has accepted \<open>(venue, fill_id)\<close>, and whatever is
  applied in between, presenting the same fill id again (even with other numbers) either is rejected
  as malformed or reports the recorded profit as a duplicate; the store does not change.\<close>

theorem fill_applied_exactly_once:
  assumes "apply_fill now v y i side qty price s = Inr (res, s1)"
    and "apply_fill now' v y' i side' qty' price' (fills_run cs s1) = Inr (res', s')"
  shows "s' = fills_run cs s1 \<and> fr_idempotent res' \<and> fr_realized_pnl_usd res' = fr_realized_pnl_usd res"
proof -
  obtain f where f: "select_key fill_key (v, i) (ps_fills s1) = Some f" "pf_realized_pnl f = fr_realized_pnl_usd res"
    using assms(1)
  proof (cases rule: apply_fill_cases)
    case (duplicate f)
    then show ?thesis by (intro that[of f]) simp_all
  next
    case (applied qf pf q' a' r)
    then show ?thesis by (intro that) (auto simp: select_key_append select_key_Cons fill_key_def)
  qed
  have "select_key fill_key (v, i) (ps_fills (fills_run cs s1)) = Some f"
    using f(1) by (rule select_fill_persists)
  with assms(2) f(2) show ?thesis by (cases rule: apply_fill_cases) auto
qed

definition sample_fill :: fill_call where
  "sample_fill = \<lparr>fc_now = ''t1'', fc_venue = ''coinbase'', fc_symbol = ''BTC/USD'', fc_fill_id = ''f2'',
     fc_side = ''sell'', fc_qty = NumNonFinite, fc_price = NumFin 12\<rparr>"

lemmas mk_float_small =
  mk_float_of_int[of 1, simplified] mk_float_of_int[of 2, simplified] mk_float_of_int[of 10, simplified]
  mk_float_of_int[of 20, simplified]

lemma side_literals: "lower (strip '' BUY'') = ''buy''" "lower (strip ''sell'') = ''sell''"
  by code_simp+

theorem fill_applied_exactly_once_witness:
  "\<exists>res s1 res' s'. apply_fill ''t0'' ''coinbase'' ''BTC/USD'' ''f1'' '' BUY'' (NumFin 2) (NumFin 10) empty_position_store = Inr (res, s1) \<and>
     apply_fill ''t2'' ''coinbase'' ''BTC/USD'' ''f1'' ''sell'' (NumFin 1) (NumFin 20) (fills_run [sample_fill] s1) = Inr (res', s') \<and>
     s' = fills_run [sample_fill] s1 \<and> get_position ''coinbase'' ''BTC/USD'' s1 = (Fin 2, Fin 10)"
proof -
  let ?s1 = "\<lparr>ps_positions = upsert_position ''coinbase'' ''BTC/USD'' (Fin 2) (Fin 10) ''t0'' [],
      ps_fills = [\<lparr>pf_venue = ''coinbase'', pf_fill_id = ''f1'', pf_symbol = ''BTC/USD'', pf_side = ''buy'',
        pf_qty = Fin 2, pf_price = Fin 10, pf_realized_pnl = Fin 0, pf_created_ts = ''t0''\<rparr>]\<rparr>"
  let ?res = "\<lparr>fr_idempotent = False, fr_realized_pnl_usd = Fin 0, fr_new_qty = Fin 2, fr_new_avg_price = Fin 10, fr_reason = None\<rparr>"
  have a: "apply_fill ''t0'' ''coinbase'' ''BTC/USD'' ''f1'' '' BUY'' (NumFin 2) (NumFin 10) empty_position_store = Inr (?res, ?s1)"
    by (simp add: apply_fill_def side_literals pos_finite_real_input_def decimal_value_def mk_float_small
        empty_position_store_def get_position_def position_step_def)
  have run: "fills_run [sample_fill] ?s1 = ?s1"
    by (simp add: fills_run_def do_fill_def sample_fill_def apply_fill_def Let_def pos_finite_real_input_def decimal_value_def)
  obtain res' s' where b: "apply_fill ''t2'' ''coinbase'' ''BTC/USD'' ''f1'' ''sell'' (NumFin 1) (NumFin 20) (fills_run [sample_fill] ?s1) = Inr (res', s')"
    unfolding run by (simp add: apply_fill_def side_literals pos_finite_real_input_def decimal_value_def mk_float_small
        select_key_Cons fill_key_def)
  have c: "get_position ''coinbase'' ''BTC/USD'' ?s1 = (Fin 2, Fin 10)"
    by (simp add: get_position_def upsert_position_def select_key_Cons position_key_def)
  from fill_applied_exactly_once[OF a b] a b c show ?thesis by blast
qed

text \<open>The drift check: a malformed quantity or tolerance never passes, and a true drift within the tolerance
  always does (the subtraction is rounded, but rounding is monotone and the tolerance is a float).\<close>

lemma fabs_mk_float_le:
  assumes "\<bar>x\<bar> \<le> t" "wf_float (Fin t)"
  shows "fle (fabs (mk_float x)) (Fin t)"
proof -
  have t: "rnd64 t = t" "\<bar>t\<bar> < 2 ^ 1024" "0 \<le> t" using assms by auto
  have "rnd64 x \<le> t" using f64.le_exact[of x t] assms t by simp
  moreover have "- t \<le> rnd64 x" using f64.ge_exact[of "- t" x] assms t f64.odd[of t] by simp
  ultimately show ?thesis using t by (auto simp: mk_float_def Let_def)
qed

lemma reconcile_no_false_alarm:
  assumes "pos_finite_real_input ''exchange_qty'' e = Inr (Fin x)" "pos_finite_real_input ''tolerance'' t = Inr (Fin tol)"
    and "fst (get_position v y s) = Fin l" "\<bar>x - l\<bar> \<le> tol"
  shows "dr_ok (reconcile_to_exchange v y e t s)"
proof -
  have "wf_float (Fin tol)"
  proof -
    obtain d where "mk_float d = Fin tol"
      using assms(2) by (auto simp: pos_finite_real_input_def Let_def split: sum.splits exn.splits if_splits)
    then show ?thesis using wf_mk_float[of d] by simp
  qed
  then have "fle (fabs (mk_float (x - l))) (Fin tol)" by (rule fabs_mk_float_le[OF assms(4)])
  then show ?thesis using assms by (simp add: reconcile_to_exchange_def Let_def fsub_def)
qed

lemma reconcile_fails_closed:
  assumes "dr_ok (reconcile_to_exchange v y e t s)"
  shows "\<exists>x tol. pos_finite_real_input ''exchange_qty'' e = Inr x \<and> pos_finite_real_input ''tolerance'' t = Inr tol \<and>
    \<not> flt tol (Fin 0) \<and> fle (fabs (fsub x (fst (get_position v y s)))) tol"
  using assms by (auto simp: reconcile_to_exchange_def Let_def split: sum.splits if_splits)

end
