(* ===== verification/Risk_Daily.thy ===== *)
theory Risk_Daily
  imports Claim_Once
begin

text \<open>
  services/risk/risk\_daily.py: the daily rollup the live gates read (trades, realised profit, fees and
  notional per UTC day) with a fill-dedupe table, and the snapshot that screens it for corruption. The
  day and time stamps (\<open>_utc_day_key()\<close>, \<open>_utc_iso()\<close>) are arguments. SQLite adds \<open>REAL\<close>s as binary64;
  a sum that is NaN violates \<open>NOT NULL\<close>. Trade counts stay within 64 bits.
\<close>

section \<open>Definitions\<close>

record risk_row =
  rr_day :: string
  rr_trades :: int
  rr_realized_pnl_usd :: pyfloat
  rr_fees_usd :: pyfloat
  rr_updated_at :: string
  rr_notional_usd :: pyfloat

record risk_fill =
  rf_venue :: string
  rf_fill_id :: string
  rf_day :: string
  rf_created_at :: string

record risk_db =
  rdb_daily :: "risk_row list"
  rdb_fills :: "risk_fill list"

definition empty_risk_db :: risk_db where
  "empty_risk_db = \<lparr>rdb_daily = [], rdb_fills = []\<rparr>"

definition finite_float_field :: "string \<Rightarrow> pyfloat \<Rightarrow> pyfloat \<times> string option" where
  "finite_float_field field v = (if isfinite v then (v, None) else (Fin 0, Some field))"

definition finite_nonnegative_int_field :: "string \<Rightarrow> int \<Rightarrow> int \<times> string option" where
  "finite_nonnegative_int_field field raw =
     (case mk_float (of_int raw) of
        Fin x \<Rightarrow> if x < 0 then (0, Some field) else (trunc_rat x, None)
      | _ \<Rightarrow> (0, Some field))"

text \<open>\<open>None\<close> stands for the argument \<open>None\<close>, which the callers default to \<open>0.0\<close>.\<close>

definition risk_finite_float_input :: "string \<Rightarrow> num_arg option \<Rightarrow> exn + pyfloat" where
  "risk_finite_float_input name v =
     (case decimal_value name (case v of None \<Rightarrow> NumFin 0 | Some x \<Rightarrow> x) of
        Inl (ValueError _) \<Rightarrow> Inl (ValueError (''invalid_numeric:'' @ name))
      | Inl e \<Rightarrow> Inl e
      | Inr d \<Rightarrow> Inr (mk_float d))"

definition ensure_day_conn :: "string \<Rightarrow> string \<Rightarrow> risk_db \<Rightarrow> risk_db" where
  "ensure_day_conn now day db =
     (if select_key rr_day day (rdb_daily db) = None
      then db\<lparr>rdb_daily := rdb_daily db @
             [\<lparr>rr_day = day, rr_trades = 0, rr_realized_pnl_usd = Fin 0, rr_fees_usd = Fin 0,
               rr_updated_at = now, rr_notional_usd = Fin 0\<rparr>]\<rparr>
      else db)"

definition get_day_conn :: "string \<Rightarrow> risk_db \<Rightarrow> risk_row option" where
  "get_day_conn day db = select_key rr_day day (rdb_daily db)"

text \<open>\<open>UPDATE risk_daily SET ... WHERE day=?\<close> on the one row of the day.\<close>

definition update_day :: "string \<Rightarrow> (risk_row \<Rightarrow> exn + risk_row) \<Rightarrow> risk_db \<Rightarrow> exn + risk_db" where
  "update_day day f db =
     (case select_key rr_day day (rdb_daily db) of
        None \<Rightarrow> Inr db
      | Some r \<Rightarrow> (case f r of
          Inl e \<Rightarrow> Inl e
        | Inr r' \<Rightarrow> Inr (db\<lparr>rdb_daily := upd_where (\<lambda>x. rr_day x = day) (\<lambda>_. r') (rdb_daily db)\<rparr>)))"

definition not_null_daily :: "string \<Rightarrow> exn" where
  "not_null_daily col = IntegrityError (''NOT NULL constraint failed: risk_daily.'' @ col)"

definition add_pnl_row :: "string \<Rightarrow> pyfloat \<Rightarrow> pyfloat \<Rightarrow> risk_row \<Rightarrow> exn + risk_row" where
  "add_pnl_row now pnl fee r =
     (if fadd (rr_realized_pnl_usd r) pnl = NaN then Inl (not_null_daily ''realized_pnl_usd'')
      else if fadd (rr_fees_usd r) fee = NaN then Inl (not_null_daily ''fees_usd'')
      else Inr (r\<lparr>rr_realized_pnl_usd := fadd (rr_realized_pnl_usd r) pnl,
                  rr_fees_usd := fadd (rr_fees_usd r) fee, rr_updated_at := now\<rparr>))"

definition apply_pnl_conn ::
    "string \<Rightarrow> string \<Rightarrow> num_arg option \<Rightarrow> num_arg option \<Rightarrow> risk_db \<Rightarrow> exn + risk_db" where
  "apply_pnl_conn now day realized_pnl_usd fee_usd db =
     (case risk_finite_float_input ''realized_pnl_usd'' realized_pnl_usd of
        Inl e \<Rightarrow> Inl e
      | Inr pnl \<Rightarrow>
     (case risk_finite_float_input ''fee_usd'' fee_usd of
        Inl e \<Rightarrow> Inl e
      | Inr fee \<Rightarrow> update_day day (add_pnl_row now pnl fee) db))"

definition risk_get :: "string \<Rightarrow> string \<Rightarrow> string option \<Rightarrow> risk_db \<Rightarrow> risk_row option \<times> risk_db" where
  "risk_get now today day db =
     (let d = opt_str_or day today; db' = ensure_day_conn now d db in (get_day_conn d db', db'))"

definition risk_incr_trades :: "string \<Rightarrow> string \<Rightarrow> int \<Rightarrow> string option \<Rightarrow> risk_db \<Rightarrow> exn + int \<times> risk_db" where
  "risk_incr_trades now today n day db =
     (let d = opt_str_or day today
      in case update_day d (\<lambda>r. Inr (r\<lparr>rr_trades := rr_trades r + n, rr_updated_at := now\<rparr>)) (ensure_day_conn now d db) of
           Inl e \<Rightarrow> Inl e
         | Inr db' \<Rightarrow> (case get_day_conn d db' of
             None \<Rightarrow> Inl (KeyError ''trades'') | Some r \<Rightarrow> Inr (rr_trades r, db')))"

definition risk_add_pnl ::
    "string \<Rightarrow> string \<Rightarrow> num_arg option \<Rightarrow> num_arg option \<Rightarrow> string option \<Rightarrow> risk_db \<Rightarrow> exn + risk_row option \<times> risk_db" where
  "risk_add_pnl now today realized_pnl_usd fee_usd day db =
     (let d = opt_str_or day today
      in case apply_pnl_conn now d realized_pnl_usd fee_usd (ensure_day_conn now d db) of
           Inl e \<Rightarrow> Inl e | Inr db' \<Rightarrow> Inr (get_day_conn d db', db'))"

definition risk_fill_key :: "risk_fill \<Rightarrow> string \<times> string" where
  "risk_fill_key f = (rf_venue f, rf_fill_id f)"

text \<open>Every exception inside the transaction rolls back and answers \<open>False\<close>.\<close>

definition apply_fill_once ::
    "string \<Rightarrow> string \<Rightarrow> string option \<Rightarrow> string option \<Rightarrow> num_arg option \<Rightarrow> num_arg option \<Rightarrow> string option \<Rightarrow> risk_db \<Rightarrow>
     bool \<times> risk_db" where
  "apply_fill_once now today venue fill_id realized_pnl_usd fee_usd day db =
     (let v = lower (strip (opt_str_or venue '''')); fid = strip (opt_str_or fill_id '''')
      in if v = '''' \<or> fid = '''' then (False, db)
         else (let d = opt_str_or day today
               in if select_key risk_fill_key (v, fid) (rdb_fills db) \<noteq> None then (False, db)
                  else case apply_pnl_conn now d realized_pnl_usd fee_usd
                         (ensure_day_conn now d (db\<lparr>rdb_fills := rdb_fills db @
                            [\<lparr>rf_venue = v, rf_fill_id = fid, rf_day = d, rf_created_at = now\<rparr>]\<rparr>)) of
                         Inl _ \<Rightarrow> (False, db)
                       | Inr db' \<Rightarrow> (True, db')))"

record risk_snapshot =
  rs_day :: string
  rs_trades :: int
  rs_realized_pnl :: pyfloat
  rs_fees :: pyfloat
  rs_pnl :: pyfloat
  rs_notional :: pyfloat
  rs_updated_at :: string
  rs_corrupt_fields :: "string list"

definition opt_list :: "'a option \<Rightarrow> 'a list" where
  "opt_list v = (case v of None \<Rightarrow> [] | Some x \<Rightarrow> [x])"

definition snapshot_of_row :: "risk_row \<Rightarrow> risk_snapshot" where
  "snapshot_of_row r =
     (let (trades, b1) = finite_nonnegative_int_field ''trades'' (rr_trades r);
          (realized, b2) = finite_float_field ''realized_pnl_usd'' (rr_realized_pnl_usd r);
          (fees, b3) = finite_float_field ''fees_usd'' (rr_fees_usd r);
          (notional0, b4) = finite_float_field ''notional_usd'' (rr_notional_usd r);
          bad4 = b4 \<noteq> None \<or> flt notional0 (Fin 0);
          notional = (if bad4 then Fin 0 else notional0)
      in \<lparr>rs_day = rr_day r, rs_trades = trades, rs_realized_pnl = realized, rs_fees = fees,
          rs_pnl = fsub realized fees, rs_notional = notional, rs_updated_at = rr_updated_at r,
          rs_corrupt_fields = opt_list b1 @ opt_list b2 @ opt_list b3 @
            (if bad4 then [''notional_usd''] else [])\<rparr>)"

definition risk_snapshot_today :: "string \<Rightarrow> string \<Rightarrow> risk_db \<Rightarrow> risk_snapshot option \<times> risk_db" where
  "risk_snapshot_today now today db =
     (let (r, db') = risk_get now today None db in (map_option snapshot_of_row r, db'))"

definition realized_today_usd :: "string \<Rightarrow> string \<Rightarrow> risk_db \<Rightarrow> (string list + pyfloat) \<times> risk_db" where
  "realized_today_usd now today db =
     (case risk_snapshot_today now today db of
        (Some s, db') \<Rightarrow> (if rs_corrupt_fields s \<noteq> [] then Inl (rs_corrupt_fields s) else Inr (rs_pnl s), db')
      | (None, db') \<Rightarrow> (Inr (Fin 0), db'))"

definition trades_today :: "string \<Rightarrow> string \<Rightarrow> risk_db \<Rightarrow> int \<times> risk_db" where
  "trades_today now today db =
     (let (r, db') = risk_get now today None db in ((case r of None \<Rightarrow> 0 | Some x \<Rightarrow> rr_trades x), db'))"

text \<open>Best effort: a failing database, whose transaction is rolled back, and any other error leave the totals as they were.\<close>

definition record_order_attempt :: "exn option \<Rightarrow> string \<Rightarrow> string \<Rightarrow> num_arg option \<Rightarrow> risk_db \<Rightarrow> risk_db" where
  "record_order_attempt fault now today notional_usd db =
     (case risk_finite_float_input ''notional_usd'' notional_usd of
        Inl _ \<Rightarrow> db
      | Inr n \<Rightarrow>
         (case fault of
            Some _ \<Rightarrow> db
          | None \<Rightarrow>
             (case update_day today
                     (\<lambda>r. if fadd (rr_notional_usd r) n = NaN then Inl (not_null_daily ''notional_usd'')
                          else Inr (r\<lparr>rr_trades := rr_trades r + 1, rr_notional_usd := fadd (rr_notional_usd r) n,
                                      rr_updated_at := now\<rparr>))
                     (ensure_day_conn now today db) of
                Inl _ \<Rightarrow> db | Inr db' \<Rightarrow> db')))"

section \<open>The fill table makes totals exactly-once\<close>

lemma ensure_day_fills [simp]: "rdb_fills (ensure_day_conn now d db) = rdb_fills db"
  by (simp add: ensure_day_conn_def)

lemma update_day_fills: "update_day d f db = Inr db' \<Longrightarrow> rdb_fills db' = rdb_fills db"
  by (auto simp: update_day_def split: option.splits sum.splits)

lemma apply_pnl_fills: "apply_pnl_conn now d p f db = Inr db' \<Longrightarrow> rdb_fills db' = rdb_fills db"
  by (auto simp: apply_pnl_conn_def update_day_fills split: sum.splits)

definition fill_recorded :: "string \<times> string \<Rightarrow> risk_db \<Rightarrow> bool" where
  "fill_recorded k db \<longleftrightarrow> select_key risk_fill_key k (rdb_fills db) \<noteq> None"

lemma apply_fill_once_cases:
  obtains (refused) "apply_fill_once now today v i p f day db = (False, db)"
  | (first) db' where "apply_fill_once now today v i p f day db = (True, db')"
      "\<not> fill_recorded (lower (strip (opt_str_or v '''')), strip (opt_str_or i '''')) db"
      "apply_pnl_conn now (opt_str_or day today) p f
         (ensure_day_conn now (opt_str_or day today) (db\<lparr>rdb_fills := rdb_fills db @
            [\<lparr>rf_venue = lower (strip (opt_str_or v '''')), rf_fill_id = strip (opt_str_or i ''''),
              rf_day = opt_str_or day today, rf_created_at = now\<rparr>]\<rparr>)) = Inr db'"
proof -
  let ?v = "lower (strip (opt_str_or v ''''))" and ?i = "strip (opt_str_or i '''')" and ?d = "opt_str_or day today"
  let ?ap = "apply_pnl_conn now ?d p f (ensure_day_conn now ?d (db\<lparr>rdb_fills := rdb_fills db @
      [\<lparr>rf_venue = ?v, rf_fill_id = ?i, rf_day = ?d, rf_created_at = now\<rparr>]\<rparr>))"
  show ?thesis
  proof (cases "?v = '''' \<or> ?i = '''' \<or> fill_recorded (?v, ?i) db")
    case True
    then show ?thesis by (intro refused) (auto simp: apply_fill_once_def Let_def fill_recorded_def)
  next
    case False
    show ?thesis
    proof (cases ?ap)
      case (Inl e)
      then show ?thesis using False by (intro refused) (simp add: apply_fill_once_def Let_def fill_recorded_def)
    next
      case (Inr db')
      then show ?thesis using False by (intro first) (simp_all add: apply_fill_once_def Let_def fill_recorded_def)
    qed
  qed
qed

text \<open>The operations that do not claim a fill.\<close>

inductive risk_other :: "risk_db \<Rightarrow> risk_db \<Rightarrow> bool" where
  "risk_other db (snd (risk_get now today day db))"
| "risk_incr_trades now today n day db = Inr (k, db') \<Longrightarrow> risk_other db db'"
| "risk_add_pnl now today p f day db = Inr (r, db') \<Longrightarrow> risk_other db db'"
| "risk_other db (record_order_attempt fault now today n db)"

lemma risk_other_fills: "risk_other db db' \<Longrightarrow> rdb_fills db' = rdb_fills db"
proof (induction rule: risk_other.induct)
  case (2 now today n day db k db')
  then show ?case
    by (auto simp: risk_incr_trades_def Let_def dest!: update_day_fills split: sum.splits option.splits)
next
  case (4 db fault now today n)
  then show ?case
    by (auto simp: record_order_attempt_def dest!: update_day_fills split: sum.splits option.splits)
qed (auto simp: risk_get_def risk_add_pnl_def Let_def dest!: apply_pnl_fills split: sum.splits)

interpretation risk_fills: claim_once
  "\<lambda>k (now, today, p, f, day) db. apply_fill_once now today (Some (fst k)) (Some (snd k)) p f day db"
  risk_other
  "\<lambda>k. fill_recorded (lower (strip (str_or (fst k) '''')), strip (str_or (snd k) ''''))"
proof (unfold_locales, goal_cases)
  case (1 k a s)
  obtain now today p f day where a: "a = (now, today, p, f, day)" by (cases a) auto
  show ?case
  proof (cases rule: apply_fill_once_cases[of now today "Some (fst k)" "Some (snd k)" p f day s])
    case (first db')
    then have "rdb_fills db' = rdb_fills s @ [\<lparr>rf_venue = lower (strip (str_or (fst k) '''')),
        rf_fill_id = strip (str_or (snd k) ''''), rf_day = opt_str_or day today, rf_created_at = now\<rparr>]"
      by (auto simp: opt_str_or_def dest!: apply_pnl_fills)
    then show ?thesis using first a
      by (auto simp: fill_recorded_def select_key_append select_key_Cons risk_fill_key_def opt_str_or_def split: option.splits)
  qed (use 1 a in simp)
next
  case (2 j s k a)
  obtain now today p f day where a: "a = (now, today, p, f, day)" by (cases a) auto
  show ?case
  proof (cases rule: apply_fill_once_cases[of now today "Some (fst k)" "Some (snd k)" p f day s])
    case (first db')
    then obtain g where "rdb_fills db' = rdb_fills s @ [g]" by (auto dest!: apply_pnl_fills)
    then show ?thesis using 2 first a by (auto simp: fill_recorded_def select_key_append)
  qed (use 2 a in simp)
next
  case (3 s s' j)
  then show ?case by (simp add: fill_recorded_def risk_other_fills)
qed

section \<open>Properties\<close>

record risk_call =
  rc_now :: string
  rc_today :: string
  rc_venue :: string
  rc_fill_id :: string
  rc_pnl :: num_arg
  rc_fee :: num_arg

text \<open>A sequence of \<open>apply_fill_once\<close> calls, with the answers.\<close>

definition call_fill :: "risk_call \<Rightarrow> risk_db \<Rightarrow> bool \<times> risk_db" where
  "call_fill c db = apply_fill_once (rc_now c) (rc_today c) (Some (rc_venue c)) (Some (rc_fill_id c))
     (Some (rc_pnl c)) (Some (rc_fee c)) None db"

fun risk_run :: "risk_call list \<Rightarrow> risk_db \<Rightarrow> (risk_call \<times> bool) list \<times> risk_db" where
  "risk_run [] db = ([], db)"
| "risk_run (c # cs) db =
     (let (ok, db1) = call_fill c db; (h, db2) = risk_run cs db1 in ((c, ok) # h, db2))"

definition accepted :: "(risk_call \<times> bool) list \<Rightarrow> risk_call list" where
  "accepted h = map fst (filter snd h)"

definition call_key :: "risk_call \<Rightarrow> string \<times> string" where
  "call_key c = (lower (strip (rc_venue c)), strip (rc_fill_id c))"

text \<open>The totals of a day computed from the accepted calls alone.\<close>

definition num_float :: "num_arg \<Rightarrow> pyfloat" where
  "num_float v = (case v of NumFin d \<Rightarrow> mk_float d | _ \<Rightarrow> Fin 0)"

definition sum_day :: "(risk_call \<Rightarrow> num_arg) \<Rightarrow> string \<Rightarrow> risk_call list \<Rightarrow> pyfloat" where
  "sum_day g d cs = foldl (\<lambda>t c. fadd t (num_float (g c))) (Fin 0) (filter (\<lambda>c. rc_today c = d) cs)"

definition day_pnl :: "string \<Rightarrow> risk_db \<Rightarrow> pyfloat" where
  "day_pnl d db = (case get_day_conn d db of None \<Rightarrow> Fin 0 | Some r \<Rightarrow> rr_realized_pnl_usd r)"

definition day_fees :: "string \<Rightarrow> risk_db \<Rightarrow> pyfloat" where
  "day_fees d db = (case get_day_conn d db of None \<Rightarrow> Fin 0 | Some r \<Rightarrow> rr_fees_usd r)"

lemma day_ensure [simp]:
  "day_pnl d (ensure_day_conn now d' db) = day_pnl d db" "day_fees d (ensure_day_conn now d' db) = day_fees d db"
  by (auto simp: day_pnl_def day_fees_def get_day_conn_def ensure_day_conn_def select_key_append select_key_Cons
      split: option.splits)

lemma get_day_ensure: "get_day_conn d (ensure_day_conn now d db) \<noteq> None"
  by (auto simp: get_day_conn_def ensure_day_conn_def select_key_append select_key_Cons split: option.splits)

lemma day_frame [simp]:
  "day_pnl d (db\<lparr>rdb_fills := x\<rparr>) = day_pnl d db" "day_fees d (db\<lparr>rdb_fills := x\<rparr>) = day_fees d db"
  by (simp_all add: day_pnl_def day_fees_def get_day_conn_def)

lemma update_day_totals:
  assumes "update_day d (add_pnl_row now p f) db = Inr db'" "get_day_conn d db \<noteq> None"
  shows "day_pnl d' db' = (if d' = d then fadd (day_pnl d db) p else day_pnl d' db) \<and>
         day_fees d' db' = (if d' = d then fadd (day_fees d db) f else day_fees d' db)"
proof -
  obtain r where r: "select_key rr_day d (rdb_daily db) = Some r" using assms(2) by (auto simp: get_day_conn_def)
  have rd: "rr_day r = d" using select_key_Some_mem[OF r] by simp
  obtain r' where r': "add_pnl_row now p f r = Inr r'"
    and db': "db' = db\<lparr>rdb_daily := upd_where (\<lambda>x. rr_day x = d) (\<lambda>_. r') (rdb_daily db)\<rparr>"
    using assms(1) r by (auto simp: update_day_def split: sum.splits)
  have f: "rr_day r' = d" "rr_realized_pnl_usd r' = fadd (rr_realized_pnl_usd r) p" "rr_fees_usd r' = fadd (rr_fees_usd r) f"
    using r' rd by (auto simp: add_pnl_row_def split: if_splits)
  have "select_key rr_day d' (rdb_daily db') = (if d' = d then Some r' else select_key rr_day d' (rdb_daily db))"
    using r f(1) by (auto simp: db' select_key_upd_where dest: select_key_Some_mem split: option.splits)
      (cases "select_key rr_day d' (rdb_daily db)"; auto dest: select_key_Some_mem)
  then show ?thesis using r f by (auto simp: day_pnl_def day_fees_def get_day_conn_def)
qed

lemma call_fill_totals:
  assumes "call_fill c db = (ok, db')"
  shows "day_pnl d db' = (if ok \<and> rc_today c = d then fadd (day_pnl d db) (num_float (rc_pnl c)) else day_pnl d db) \<and>
         day_fees d db' = (if ok \<and> rc_today c = d then fadd (day_fees d db) (num_float (rc_fee c)) else day_fees d db)"
proof (cases rule: apply_fill_once_cases[of "rc_now c" "rc_today c" "Some (rc_venue c)" "Some (rc_fill_id c)"
      "Some (rc_pnl c)" "Some (rc_fee c)" None db])
  case refused
  then show ?thesis using assms by (simp add: call_fill_def)
next
  case (first db1)
  have ok: "ok" "db' = db1" using first(1) assms by (auto simp: call_fill_def)
  have today: "opt_str_or None (rc_today c) = rc_today c" by (simp add: opt_str_or_def)
  obtain x where x: "apply_pnl_conn (rc_now c) (rc_today c) (Some (rc_pnl c)) (Some (rc_fee c))
      (ensure_day_conn (rc_now c) (rc_today c) (db\<lparr>rdb_fills := x\<rparr>)) = Inr db1"
    using first(3) unfolding today by blast
  obtain p f where pf: "rc_pnl c = NumFin p" "rc_fee c = NumFin f"
    and u: "update_day (rc_today c) (add_pnl_row (rc_now c) (mk_float p) (mk_float f))
      (ensure_day_conn (rc_now c) (rc_today c) (db\<lparr>rdb_fills := x\<rparr>)) = Inr db1"
    using x by (auto simp: apply_pnl_conn_def risk_finite_float_input_def split: sum.splits exn.splits)
  from update_day_totals[OF u get_day_ensure, of d] show ?thesis
    using ok by (auto simp: pf num_float_def)
qed

lemma foldl_fadd_filter_snoc:
  "sum_day g d (cs @ [c]) = (if rc_today c = d then fadd (sum_day g d cs) (num_float (g c)) else sum_day g d cs)"
  by (simp add: sum_day_def)

lemma risk_run_totals_from:
  assumes "day_pnl d db = sum_day rc_pnl d acc \<and> day_fees d db = sum_day rc_fee d acc"
  shows "day_pnl d (snd (risk_run cs db)) = sum_day rc_pnl d (acc @ accepted (fst (risk_run cs db))) \<and>
         day_fees d (snd (risk_run cs db)) = sum_day rc_fee d (acc @ accepted (fst (risk_run cs db)))"
  using assms
proof (induction cs arbitrary: db acc)
  case (Cons c cs)
  obtain ok db1 where c: "call_fill c db = (ok, db1)" by (cases "call_fill c db")
  let ?acc = "if ok then acc @ [c] else acc"
  have "day_pnl d db1 = sum_day rc_pnl d ?acc \<and> day_fees d db1 = sum_day rc_fee d ?acc"
    using call_fill_totals[OF c, of d] Cons.prems by (auto simp: foldl_fadd_filter_snoc)
  from Cons.IH[OF this] show ?case by (auto simp: c case_prod_beta Let_def accepted_def)
qed (simp add: accepted_def)

lemma apply_fill_once_norm:
  "apply_fill_once now today (Some (lower (strip v))) (Some (strip i)) p f day db =
   apply_fill_once now today (Some v) (Some i) p f day db"
  by (simp add: apply_fill_once_def opt_str_or_def str_or_def strip_lower)

lemma risk_run_history:
  assumes "risk_fills.history s h t"
  shows "risk_fills.history s (h @ map (\<lambda>e. (call_key (fst e), snd e)) (fst (risk_run cs t))) (snd (risk_run cs t))"
  using assms
proof (induction cs arbitrary: h t)
  case (Cons c cs)
  have "risk_fills.history s (h @ [(call_key c, fst (call_fill c t))]) (snd (call_fill c t))"
    using risk_fills.history.claimed[OF Cons.prems, of "call_key c" "(rc_now c, rc_today c, Some (rc_pnl c), Some (rc_fee c), None)"]
    by (simp add: call_key_def apply_fill_once_norm call_fill_def)
  from Cons.IH[OF this] show ?case by (simp add: case_prod_beta Let_def)
qed simp

text \<open>C21. Daily totals count every fill exactly once: over any sequence of fill reports (replays, other
  spellings of the venue, malformed numbers) at most one report per \<open>(venue, fill_id)\<close> is answered \<open>True\<close>,
  and the day's realised profit and fees are the binary64 sums, in order, of exactly the reports
  answered \<open>True\<close> on that day.\<close>

theorem risk_totals_exactly_once:
  "length (filter (\<lambda>e. e = (k, True)) (map (\<lambda>e. (call_key (fst e), snd e)) (fst (risk_run cs empty_risk_db)))) \<le> 1 \<and>
   day_pnl d (snd (risk_run cs empty_risk_db)) = sum_day rc_pnl d (accepted (fst (risk_run cs empty_risk_db))) \<and>
   day_fees d (snd (risk_run cs empty_risk_db)) = sum_day rc_fee d (accepted (fst (risk_run cs empty_risk_db)))"
proof -
  have 0: "day_pnl d empty_risk_db = sum_day rc_pnl d [] \<and> day_fees d empty_risk_db = sum_day rc_fee d []"
    by (simp add: day_pnl_def day_fees_def get_day_conn_def empty_risk_db_def sum_day_def)
  from risk_run_totals_from[OF this, of cs]
    risk_fills.at_most_one_insert[OF risk_run_history[OF risk_fills.history.start, of empty_risk_db cs], of k]
  show ?thesis by simp
qed

text \<open>What a snapshot free of corrupt fields guarantees.\<close>

lemma snapshot_clean:
  assumes "rs_corrupt_fields (snapshot_of_row r) = []"
  shows "isfinite (rr_realized_pnl_usd r) \<and> isfinite (rr_fees_usd r) \<and> isfinite (rr_notional_usd r) \<and>
    \<not> flt (rr_notional_usd r) (Fin 0) \<and> 0 \<le> rs_trades (snapshot_of_row r) \<and>
    rs_pnl (snapshot_of_row r) = fsub (rr_realized_pnl_usd r) (rr_fees_usd r)"
  using assms
  by (auto simp: snapshot_of_row_def finite_float_field_def finite_nonnegative_int_field_def opt_list_def trunc_rat_def Let_def
      split: if_splits pyfloat.splits prod.splits)

text \<open>The daily-loss figure fails closed: when \<open>realized_today_usd\<close> answers with a number, every
  field of today's row is finite, the notional and the trade count are not negative, and the answer is
  realised profit minus fees; a corrupt row is reported as an error naming its fields, never as
  a number.\<close>

theorem realized_today_fails_closed:
  assumes "realized_today_usd now today db = (Inr p, db')"
  shows "\<exists>r. get_day_conn today db' = Some r \<and> isfinite (rr_realized_pnl_usd r) \<and> isfinite (rr_fees_usd r) \<and>
    isfinite (rr_notional_usd r) \<and> \<not> flt (rr_notional_usd r) (Fin 0) \<and>
    p = fsub (rr_realized_pnl_usd r) (rr_fees_usd r)"
proof -
  let ?db = "ensure_day_conn now today db"
  obtain r where r: "get_day_conn today ?db = Some r" using get_day_ensure by blast
  have g: "risk_snapshot_today now today db = (Some (snapshot_of_row r), ?db)"
    using r by (simp add: risk_snapshot_today_def risk_get_def opt_str_or_def Let_def)
  then have "rs_corrupt_fields (snapshot_of_row r) = []" "p = rs_pnl (snapshot_of_row r)" "db' = ?db"
    using assms by (auto simp: realized_today_usd_def split: if_splits)
  then show ?thesis using snapshot_clean[of r] r by auto
qed

theorem realized_today_fails_closed_witness:
  "\<exists>r. get_day_conn ''2026-01-01'' (ensure_day_conn ''n'' ''2026-01-01'' empty_risk_db) = Some r \<and>
     isfinite (rr_realized_pnl_usd r)"
proof -
  have "realized_today_usd ''n'' ''2026-01-01'' empty_risk_db =
      (Inr (Fin 0), ensure_day_conn ''n'' ''2026-01-01'' empty_risk_db)"
    by (simp add: realized_today_usd_def risk_snapshot_today_def risk_get_def opt_str_or_def empty_risk_db_def
        ensure_day_conn_def get_day_conn_def select_key_Cons snapshot_of_row_def finite_float_field_def
        finite_nonnegative_int_field_def trunc_rat_def fsub_def opt_list_def Let_def)
  from realized_today_fails_closed[OF this] show ?thesis by blast
qed

text \<open>One oversized input poisons a day: a profit whose decimal is finite but above the double range
  passes \<open>_finite_float_input\<close>, is stored as an infinity, and from then on \<open>realized_today_usd\<close> reports the row
  as corrupt instead of a loss figure.\<close>

theorem infinite_pnl_poisons_day:
  "fst (apply_fill_once n1 d (Some ''v'') (Some ''f'') (Some (NumFin (2 ^ 1024))) None None empty_risk_db) \<and>
   fst (realized_today_usd n2 d
     (snd (apply_fill_once n1 d (Some ''v'') (Some ''f'') (Some (NumFin (2 ^ 1024))) None None empty_risk_db))) =
   Inl [''realized_pnl_usd'']"
proof -
  have big: "mk_float (2 ^ 1024) = PInf"
    unfolding mk_float_def pow2_1024_exact Let_def by simp
  have s: "strip ''v'' = ''v''" "strip ''f'' = ''f''" by code_simp+
  show ?thesis
    by (simp add: apply_fill_once_def opt_str_or_def str_or_def s empty_risk_db_def apply_pnl_conn_def
        risk_finite_float_input_def decimal_value_def big ensure_day_conn_def update_day_def select_key_Cons
        add_pnl_row_def upd_where_def realized_today_usd_def risk_snapshot_today_def risk_get_def get_day_conn_def
        snapshot_of_row_def finite_float_field_def finite_nonnegative_int_field_def opt_list_def trunc_rat_def Let_def
        del: power_numeral)
qed

end
