(* ===== verification/Live_Risk_Gates.thy ===== *)
theory Live_Risk_Gates
  imports Py_Prelude
begin

text \<open>
  services/risk/live\_risk\_gates.py: the limits read from the trading configuration, the gate database
  (kill switch and daily trade counter) and the check every live order has to pass. The configuration
  values arrive as \<open>num_arg\<close> (a missing value is \<open>NumInvalid\<close>, as \<open>Decimal("None")\<close> is rejected), the UTC day and
  time stamp are arguments, and the file system is a predicate on paths. \<open>abs\<close> of a \<open>Decimal\<close> rounds to
  the context's 28 digits.
\<close>

section \<open>Definitions\<close>

record live_risk_limits =
  lrl_max_daily_loss_usd :: pyfloat
  lrl_max_notional_per_trade_usd :: pyfloat
  lrl_max_trades_per_day :: int
  lrl_max_position_notional_usd :: pyfloat
  lrl_kill_switch_file :: string

record risk_cfg =
  cfg_max_daily_loss_usd :: num_arg
  cfg_max_notional_per_trade_usd :: num_arg
  cfg_max_trades_per_day :: num_arg
  cfg_max_position_notional_usd :: num_arg

definition limits_from_dict :: "risk_cfg \<Rightarrow> live_risk_limits option" where
  "limits_from_dict risk =
     (case (decimal_value ''max_daily_loss_usd'' (cfg_max_daily_loss_usd risk),
            decimal_value ''max_notional_per_trade_usd'' (cfg_max_notional_per_trade_usd risk),
            decimal_value ''max_trades_per_day'' (cfg_max_trades_per_day risk),
            decimal_value ''max_position_notional_usd'' (cfg_max_position_notional_usd risk)) of
        (Inr a, Inr b, Inr c, Inr d) \<Rightarrow>
          (let mdl = mk_float a; mnt = mk_float b; mpn = mk_float d
           in if c \<noteq> of_int \<lfloor>c\<rfloor> then None
              else if \<not> (flt (Fin 0) mdl \<and> flt (Fin 0) mnt \<and> 0 < \<lfloor>c\<rfloor> \<and> flt (Fin 0) mpn) then None
              else Some \<lparr>lrl_max_daily_loss_usd = mdl, lrl_max_notional_per_trade_usd = mnt,
                         lrl_max_trades_per_day = \<lfloor>c\<rfloor>, lrl_max_position_notional_usd = mpn,
                         lrl_kill_switch_file = ''''\<rparr>)
      | _ \<Rightarrow> None)"

text \<open>\<open>Path(path).exists()\<close>: the empty path is the current directory.\<close>

definition killswitch_file_on :: "(string \<Rightarrow> bool) \<Rightarrow> string \<Rightarrow> bool" where
  "killswitch_file_on fs path = fs (if path = '''' then ''.'' else path)"

record gate_day =
  gd_day :: string
  gd_trades :: int
  gd_realized_pnl_usd :: pyfloat
  gd_updated_at :: string

record gate_db =
  gdb_bot_state :: "(string \<times> string) list"
  gdb_daily_limits :: "gate_day list"

definition empty_gate_db :: gate_db where
  "empty_gate_db = \<lparr>gdb_bot_state = [], gdb_daily_limits = []\<rparr>"

definition killswitch_on :: "gate_db \<Rightarrow> bool" where
  "killswitch_on db = ((case map_of (gdb_bot_state db) ''killswitch'' of None \<Rightarrow> ''0'' | Some v \<Rightarrow> v) = ''1'')"

definition set_killswitch :: "bool \<Rightarrow> gate_db \<Rightarrow> gate_db" where
  "set_killswitch on db =
     (let v = (if on then ''1'' else ''0'')
      in if map_of (gdb_bot_state db) ''killswitch'' = None
         then db\<lparr>gdb_bot_state := gdb_bot_state db @ [(''killswitch'', v)]\<rparr>
         else db\<lparr>gdb_bot_state := map (\<lambda>p. if fst p = ''killswitch'' then (fst p, v) else p) (gdb_bot_state db)\<rparr>)"

definition day_row :: "string \<Rightarrow> string \<Rightarrow> gate_db \<Rightarrow> gate_day \<times> gate_db" where
  "day_row now day db =
     (case select_key gd_day day (gdb_daily_limits db) of
        Some r \<Rightarrow> (r, db)
      | None \<Rightarrow> (let r = \<lparr>gd_day = day, gd_trades = 0, gd_realized_pnl_usd = Fin 0, gd_updated_at = now\<rparr>
                 in (r, db\<lparr>gdb_daily_limits := gdb_daily_limits db @ [r]\<rparr>)))"

definition gate_incr_trades :: "string \<Rightarrow> string \<Rightarrow> int \<Rightarrow> gate_db \<Rightarrow> int \<times> gate_db" where
  "gate_incr_trades now day n db =
     (let (r, db1) = day_row now day db; new_val = gd_trades r + n
      in (new_val, db1\<lparr>gdb_daily_limits := upd_where (\<lambda>x. gd_day x = day)
            (\<lambda>x. x\<lparr>gd_trades := new_val, gd_updated_at := now\<rparr>) (gdb_daily_limits db1)\<rparr>))"

text \<open>The intent fields the gate reads.\<close>

record gate_intent =
  gi_notional_usd :: "num_arg option"
  gi_qty :: "num_arg option"
  gi_price :: "num_arg option"

definition estimate_notional_usd :: "gate_intent \<Rightarrow> pyfloat option" where
  "estimate_notional_usd it =
     (case gi_notional_usd it of
        Some v \<Rightarrow> (case decimal_value ''notional_usd'' v of Inl _ \<Rightarrow> None | Inr d \<Rightarrow> Some (mk_float (rnd28 \<bar>d\<bar>)))
      | None \<Rightarrow>
         (case (gi_qty it, gi_price it) of
            (Some q, Some p) \<Rightarrow> (case decimal_product q p of Inl _ \<Rightarrow> None | Inr d \<Rightarrow> Some (mk_float \<bar>d\<bar>))
          | _ \<Rightarrow> None))"

definition realized_pnl_input :: "num_arg \<Rightarrow> pyfloat option" where
  "realized_pnl_input v = (case decimal_value ''realized_pnl_usd'' v of Inl _ \<Rightarrow> None | Inr d \<Rightarrow> Some (mk_float d))"

datatype gate_verdict =
    KILL_SWITCH_ON
  | CANNOT_ESTIMATE_NOTIONAL_USD
  | MAX_NOTIONAL_PER_TRADE_EXCEEDED pyfloat
  | MAX_TRADES_PER_DAY_EXCEEDED gate_day
  | CANNOT_ESTIMATE_REALIZED_PNL_USD
  | MAX_DAILY_LOSS_EXCEEDED pyfloat
  | GATE_OK pyfloat gate_day

definition check_live ::
    "(string \<Rightarrow> bool) \<Rightarrow> string \<Rightarrow> string \<Rightarrow> live_risk_limits \<Rightarrow> gate_intent \<Rightarrow> num_arg \<Rightarrow> gate_db \<Rightarrow> gate_verdict \<times> gate_db"
where
  "check_live fs now day limits it realized_pnl_usd db =
     (if killswitch_on db \<or> killswitch_file_on fs (lrl_kill_switch_file limits) then (KILL_SWITCH_ON, db)
      else case estimate_notional_usd it of
        None \<Rightarrow> (CANNOT_ESTIMATE_NOTIONAL_USD, db)
      | Some n \<Rightarrow>
         if flt (lrl_max_notional_per_trade_usd limits) n then (MAX_NOTIONAL_PER_TRADE_EXCEEDED n, db)
         else (let (row, db1) = day_row now day db
               in if lrl_max_trades_per_day limits \<le> gd_trades row then (MAX_TRADES_PER_DAY_EXCEEDED row, db1)
                  else case realized_pnl_input realized_pnl_usd of
                    None \<Rightarrow> (CANNOT_ESTIMATE_REALIZED_PNL_USD, db1)
                  | Some p \<Rightarrow>
                      if fle p (fneg (fabs (lrl_max_daily_loss_usd limits))) then (MAX_DAILY_LOSS_EXCEEDED p, db1)
                      else (GATE_OK n row, db1)))"

fun gate_ok :: "gate_verdict \<Rightarrow> bool" where
  "gate_ok (GATE_OK _ _) = True"
| "gate_ok _ = False"

section \<open>Properties\<close>

definition trades_on :: "string \<Rightarrow> gate_db \<Rightarrow> int" where
  "trades_on day db = (case select_key gd_day day (gdb_daily_limits db) of None \<Rightarrow> 0 | Some r \<Rightarrow> gd_trades r)"

lemma day_row_trades:
  "gd_trades (fst (day_row now day db)) = trades_on day db"
  "trades_on d (snd (day_row now day db)) = trades_on d db"
  "select_key gd_day day (gdb_daily_limits (snd (day_row now day db))) = Some (fst (day_row now day db))"
  "killswitch_on (snd (day_row now day db)) = killswitch_on db"
  by (auto simp: day_row_def trades_on_def Let_def select_key_append select_key_Cons killswitch_on_def split: option.splits)

lemma incr_trades_on: "trades_on day (snd (gate_incr_trades now day n db)) = trades_on day db + n"
  using day_row_trades[where now = now and day = day and db = db]
  by (auto simp: gate_incr_trades_def Let_def case_prod_beta trades_on_def select_key_upd_where
      split: option.splits dest: select_key_Some_mem)

lemma check_live_trades: "trades_on d (snd (check_live fs now day limits it p db)) = trades_on d db"
  using day_row_trades[where now = now and day = day and db = db]
  by (auto simp: check_live_def Let_def case_prod_beta split: option.splits)

lemma estimate_not_NaN: "estimate_notional_usd it = Some n \<Longrightarrow> n \<noteq> NaN"
  by (auto simp: estimate_notional_usd_def split: option.splits sum.splits)

lemma realized_not_NaN: "realized_pnl_input v = Some p \<Longrightarrow> p \<noteq> NaN"
  by (auto simp: realized_pnl_input_def split: sum.splits)

text \<open>What an order that passes the live gate has been checked for, and nothing less: both kill
  switches are off, its notional (given, or quantity times price, as an absolute value) could be computed
  and is within the per-trade cap, today's trade count is below the daily cap, and the realised profit
  could be read and is above the loss limit. The gate passes exactly under these conditions.\<close>

theorem check_live_passes_iff:
  assumes "lrl_max_notional_per_trade_usd limits \<noteq> NaN" "lrl_max_daily_loss_usd limits \<noteq> NaN"
  shows "gate_ok (fst (check_live fs now day limits it pnl db)) \<longleftrightarrow>
     \<not> killswitch_on db \<and> \<not> killswitch_file_on fs (lrl_kill_switch_file limits) \<and>
     (\<exists>n. estimate_notional_usd it = Some n \<and> fle n (lrl_max_notional_per_trade_usd limits)) \<and>
     trades_on day db < lrl_max_trades_per_day limits \<and>
     (\<exists>p. realized_pnl_input pnl = Some p \<and> flt (fneg (fabs (lrl_max_daily_loss_usd limits))) p)"
proof -
  let ?loss = "fneg (fabs (lrl_max_daily_loss_usd limits))"
  have l: "?loss \<noteq> NaN" using assms(2) by (cases "lrl_max_daily_loss_usd limits") auto
  have 1: "flt (lrl_max_notional_per_trade_usd limits) n \<longleftrightarrow> \<not> fle n (lrl_max_notional_per_trade_usd limits)"
    if "estimate_notional_usd it = Some n" for n
    using not_flt_iff_fle[OF assms(1) estimate_not_NaN[OF that]] by blast
  have 2: "fle p ?loss \<longleftrightarrow> \<not> flt ?loss p" if "realized_pnl_input pnl = Some p" for p
    using not_fle_iff_flt[OF realized_not_NaN[OF that] l] by blast
  have t: "gd_trades (fst (day_row now day db)) = trades_on day db" by (rule day_row_trades)
  show ?thesis
    by (auto simp: check_live_def Let_def case_prod_beta t 1 2 split: option.splits)
qed

definition sample_limits :: live_risk_limits where
  "sample_limits = \<lparr>lrl_max_daily_loss_usd = Fin 100, lrl_max_notional_per_trade_usd = Fin 500,
     lrl_max_trades_per_day = 2, lrl_max_position_notional_usd = Fin 1000, lrl_kill_switch_file = ''/tmp/kill''\<rparr>"

definition sample_gate_intent :: gate_intent where
  "sample_gate_intent = \<lparr>gi_notional_usd = None, gi_qty = Some (NumFin 1), gi_price = Some (NumFin 100)\<rparr>"

theorem check_live_passes_iff_witness:
  "gate_ok (fst (check_live (\<lambda>_. False) ''n'' ''d'' sample_limits sample_gate_intent (NumFin 0) empty_gate_db))"
proof -
  have "lrl_max_notional_per_trade_usd sample_limits \<noteq> NaN" "lrl_max_daily_loss_usd sample_limits \<noteq> NaN"
    by (simp_all add: sample_limits_def)
  note iff = check_live_passes_iff[OF this]
  have a: "\<not> killswitch_on empty_gate_db" "trades_on ''d'' empty_gate_db < lrl_max_trades_per_day sample_limits"
    by (simp_all add: killswitch_on_def empty_gate_db_def trades_on_def sample_limits_def)
  have "rnd28 100 = 100" by code_simp
  then have "estimate_notional_usd sample_gate_intent = Some (Fin 100)"
    using mk_float_of_int[of 100]
    by (simp add: estimate_notional_usd_def sample_gate_intent_def decimal_product_def decimal_value_def)
  then show ?thesis
    unfolding iff using a by (simp add: killswitch_file_on_def realized_pnl_input_def decimal_value_def sample_limits_def)
qed

text \<open>The order loop: an order that passes is sent and counted.\<close>

record gate_call =
  gc_now :: string
  gc_intent :: gate_intent
  gc_pnl :: num_arg

fun gate_run :: "(string \<Rightarrow> bool) \<Rightarrow> string \<Rightarrow> live_risk_limits \<Rightarrow> gate_call list \<Rightarrow> gate_db \<Rightarrow> nat \<times> gate_db" where
  "gate_run fs day limits [] db = (0, db)"
| "gate_run fs day limits (c # cs) db =
     (let (v, db1) = check_live fs (gc_now c) day limits (gc_intent c) (gc_pnl c) db;
          db2 = (if gate_ok v then snd (gate_incr_trades (gc_now c) day 1 db1) else db1);
          (k, db3) = gate_run fs day limits cs db2
      in (if gate_ok v then Suc k else k, db3))"

lemma check_live_ok_below:
  "gate_ok (fst (check_live fs now day limits it pnl db)) \<Longrightarrow> trades_on day db < lrl_max_trades_per_day limits"
  by (auto simp: check_live_def Let_def case_prod_beta day_row_trades split: option.splits if_splits)

text \<open>The daily trade cap holds over any sequence of orders: when every passing order is counted, the
  number of orders passed on a day plus the count the day started with never exceeds the cap, and the
  stored count is exactly that sum.\<close>

theorem gate_trade_cap:
  assumes "trades_on day db \<le> lrl_max_trades_per_day limits" "gate_run fs day limits cs db = (k, db')"
  shows "trades_on day db' = trades_on day db + int k \<and> trades_on day db' \<le> lrl_max_trades_per_day limits"
  using assms
proof (induction cs arbitrary: db k)
  case (Cons c cs)
  let ?r = "check_live fs (gc_now c) day limits (gc_intent c) (gc_pnl c) db"
  let ?db2 = "if gate_ok (fst ?r) then snd (gate_incr_trades (gc_now c) day 1 (snd ?r)) else snd ?r"
  have step: "gate_run fs day limits (c # cs) db =
      (let (k, d) = gate_run fs day limits cs ?db2 in (if gate_ok (fst ?r) then Suc k else k, d))"
    by (simp add: case_prod_beta Let_def)
  obtain k2 where k2: "gate_run fs day limits cs ?db2 = (k2, db')" "k = (if gate_ok (fst ?r) then Suc k2 else k2)"
    using Cons.prems(2) unfolding step by (cases "gate_run fs day limits cs ?db2") simp
  have t: "trades_on day ?db2 = trades_on day db + (if gate_ok (fst ?r) then 1 else 0)"
    by (simp add: incr_trades_on check_live_trades)
  have "trades_on day ?db2 \<le> lrl_max_trades_per_day limits"
    using t Cons.prems(1) check_live_ok_below[of fs "gc_now c" day limits "gc_intent c" "gc_pnl c" db] by auto
  from Cons.IH[OF this k2(1)] t k2(2) show ?case by auto
qed simp

theorem gate_trade_cap_witness:
  "\<exists>k db'. gate_run (\<lambda>_. False) ''d'' sample_limits (replicate 5 \<lparr>gc_now = ''n'', gc_intent = sample_gate_intent, gc_pnl = NumFin 0\<rparr>)
      empty_gate_db = (k, db') \<and> trades_on ''d'' db' \<le> 2"
proof -
  let ?cs = "replicate 5 \<lparr>gc_now = ''n'', gc_intent = sample_gate_intent, gc_pnl = NumFin 0\<rparr>"
  obtain k db' where r: "gate_run (\<lambda>_. False) ''d'' sample_limits ?cs empty_gate_db = (k, db')"
    by (cases "gate_run (\<lambda>_. False) ''d'' sample_limits ?cs empty_gate_db")
  have "trades_on ''d'' empty_gate_db \<le> lrl_max_trades_per_day sample_limits"
    by (simp add: trades_on_def empty_gate_db_def sample_limits_def)
  from gate_trade_cap[OF this r] have "trades_on ''d'' db' \<le> 2" by (simp add: sample_limits_def)
  with r show ?thesis by blast
qed

text \<open>C37. Limits read from the configuration can never pass the gate. \<open>from_dict\<close> leaves \<open>kill_switch_file\<close> at
  its default, the empty string, and \<open>Path("")\<close> is the current directory, which exists: the file kill
  switch reads as on for every order.\<close>

theorem configured_limits_always_killed:
  assumes "limits_from_dict risk = Some limits" "fs ''.''"
  shows "fst (check_live fs now day limits it pnl db) = KILL_SWITCH_ON"
proof -
  have "lrl_kill_switch_file limits = ''''"
    using assms(1) by (auto simp: limits_from_dict_def Let_def split: sum.splits if_splits)
  then show ?thesis using assms(2) by (simp add: check_live_def killswitch_file_on_def)
qed

theorem configured_limits_always_killed_witness:
  "\<exists>limits. limits_from_dict \<lparr>cfg_max_daily_loss_usd = NumFin 100, cfg_max_notional_per_trade_usd = NumFin 500,
        cfg_max_trades_per_day = NumFin 5, cfg_max_position_notional_usd = NumFin 1000\<rparr> = Some limits \<and>
     fst (check_live (\<lambda>p. p = ''.'') ''n'' ''d'' limits sample_gate_intent (NumFin 0) empty_gate_db) = KILL_SWITCH_ON"
proof -
  let ?risk = "\<lparr>cfg_max_daily_loss_usd = NumFin 100, cfg_max_notional_per_trade_usd = NumFin 500,
        cfg_max_trades_per_day = NumFin 5, cfg_max_position_notional_usd = NumFin 1000\<rparr>"
  have "limits_from_dict ?risk \<noteq> None"
    using mk_float_of_int[of 100] mk_float_of_int[of 500] mk_float_of_int[of 1000]
    by (simp add: limits_from_dict_def decimal_value_def Let_def)
  then obtain limits where l: "limits_from_dict ?risk = Some limits" by blast
  have "fst (check_live (\<lambda>p. p = ''.'') ''n'' ''d'' limits sample_gate_intent (NumFin 0) empty_gate_db) = KILL_SWITCH_ON"
    by (rule configured_limits_always_killed[OF l]) simp
  with l show ?thesis by blast
qed

text \<open>The database kill switch: what was set last is what is read.\<close>

lemma map_of_set_value:
  "map_of (map (\<lambda>p. if fst p = k then (fst p, v) else p) xs) k = map_option (\<lambda>_. v) (map_of xs k)"
  by (induction xs) auto

lemma killswitch_round_trip: "killswitch_on (set_killswitch on db) = on"
proof (cases "map_of (gdb_bot_state db) ''killswitch''")
  case None
  then show ?thesis by (simp add: killswitch_on_def set_killswitch_def Let_def map_add_def)
next
  case (Some y)
  have "map_of (gdb_bot_state (set_killswitch on db)) ''killswitch'' = Some (if on then ''1'' else ''0'')"
    using Some map_of_set_value[of "''killswitch''" "if on then ''1'' else ''0''" "gdb_bot_state db"]
    by (simp only: set_killswitch_def Let_def gate_db.simps if_False option.simps option.map)
      simp
  then show ?thesis by (simp add: killswitch_on_def)
qed

end
