(* ===== verification/Py_Format.thy ===== *)
theory Py_Format
  imports Py_Prelude
begin

text \<open>
  Fixed-point formatting of floats, \<open>"{:.Nf}"\<close>: the exact value rounded half-even to \<open>N\<close> decimals. The
  sources put such texts into identifiers and into refusal reasons.
\<close>

definition pad_left :: "nat \<Rightarrow> string \<Rightarrow> string" where
  "pad_left n s = replicate (n - length s) (CHR ''0'') @ s"

definition fixed_text :: "nat \<Rightarrow> pyfloat \<Rightarrow> string" where
  "fixed_text d f =
     (case f of
        Fin x \<Rightarrow>
          (let n = nat (round_half_even (\<bar>x\<bar> * 10 ^ d))
           in (if x < 0 then ''-'' else '''') @ nat_text (n div 10 ^ d) @ ''.'' @ pad_left d (nat_text (n mod 10 ^ d)))
      | PInf \<Rightarrow> ''inf'' | NInf \<Rightarrow> ''-inf'' | NaN \<Rightarrow> ''nan'')"

text \<open>The formatted numbers have no colon, so a text built from colon-separated numbers can be taken apart
  from the right.\<close>

abbreviation colon :: char where
  "colon \<equiv> CHR '':''"

lemma colon_char: "k < 10 \<Longrightarrow> (char_of (48 + k :: nat) :: char) \<noteq> colon"
proof -
  assume "k < 10"
  then have "(of_char (char_of (48 + k) :: char) :: nat) \<noteq> of_char colon" by simp
  then show ?thesis by metis
qed

lemma nat_text_no_colon: "colon \<notin> set (nat_text n)"
proof (induction n rule: nat_text.induct)
  case (1 n)
  then show ?case using colon_char[of n] colon_char[of "n mod 10"] by (subst nat_text.simps) auto
qed

lemma fixed_text_no_colon: "colon \<notin> set (fixed_text d f)"
  by (cases f) (auto simp: fixed_text_def Let_def pad_left_def nat_text_no_colon)

lemma append_colon_eq:
  assumes "colon \<notin> set a" "colon \<notin> set b" "u @ colon # a = v @ colon # b"
  shows "u = v \<and> a = b"
proof -
  have "rev a @ colon # rev u = rev b @ colon # rev v" using arg_cong[OF assms(3), of rev] by simp
  then have "takeWhile (\<lambda>c. c \<noteq> colon) (rev a @ colon # rev u) = takeWhile (\<lambda>c. c \<noteq> colon) (rev b @ colon # rev v)"
    by simp
  moreover have "takeWhile (\<lambda>c. c \<noteq> colon) (rev w @ colon # r) = rev w" if "colon \<notin> set w" for w r
    using that by (subst takeWhile_append2) auto
  ultimately have "a = b" using assms(1,2) by simp
  then show ?thesis using assms(3) by simp
qed

end
