(* ===== verification/Float_Bounds.thy ===== *)
theory Float_Bounds
  imports Py_Numeric
begin

text \<open>
  Bounds on rounded arithmetic: rounding picks a nearest representable value, so adding a tolerance to a
  float and rounding overshoots by at most the tolerance; the float operations are monotone where the
  stores rely on it.
\<close>

section \<open>Rounding picks a nearest value\<close>

lemma round_half_even_nearest: "\<bar>of_int (round_half_even y) - y\<bar> \<le> \<bar>of_int n - y\<bar>"
proof -
  define f where "f = \<lfloor>y\<rfloor>"
  have f: "of_int f \<le> y" "y < of_int f + 1" unfolding f_def by linarith+
  have "n \<le> f \<or> f + 1 \<le> n" by linarith
  then have n: "y - of_int f \<le> \<bar>of_int n - y\<bar> \<or> of_int f + 1 - y \<le> \<bar>of_int n - y\<bar>"
  proof
    assume "n \<le> f"
    then have "(of_int n :: rat) \<le> of_int f" by simp
    then show ?thesis using f by linarith
  next
    assume "f + 1 \<le> n"
    then have "(of_int (f + 1) :: rat) \<le> of_int n" by (simp only: of_int_le_iff)
    then show ?thesis using f by simp
  qed
  show ?thesis
    using f n unfolding round_half_even_def Let_def f_def[symmetric] by (auto split: if_splits)
qed

lemma round_sig_nearest_grid:
  assumes b: "2 \<le> b" and x: "0 < x"
  shows "\<bar>round_sig b p emin x - x\<bar> \<le> \<bar>of_int n * of_nat b powi unit_exp b p emin x - x\<bar>"
proof -
  let ?u = "(of_nat b :: rat) powi unit_exp b p emin x"
  have u: "0 < ?u" using b by (rule powi_pos)
  have scale: "\<bar>of_int k * ?u - x\<bar> = \<bar>of_int k - x / ?u\<bar> * ?u" for k :: int
  proof -
    have "of_int k * ?u - x = (of_int k - x / ?u) * ?u" using b by (simp add: left_diff_distrib)
    then show ?thesis using u by (simp add: abs_mult)
  qed
  show ?thesis
    unfolding round_sig_pos[OF x] scale using round_half_even_nearest u by (intro mult_right_mono) auto
qed

lemma round_sig_nearest_pos:
  assumes b: "2 \<le> b" and p: "1 \<le> p" and x: "0 < x" and z: "round_sig b p emin z = z"
  shows "\<bar>round_sig b p emin x - x\<bar> \<le> \<bar>z - x\<bar>"
proof -
  let ?u = "unit_exp b p emin x"
  have grid: "\<bar>round_sig b p emin x - x\<bar> \<le> \<bar>of_int n * of_nat b powi ?u - x\<bar>" for n
    using round_sig_nearest_grid[OF b x] .
  have on_grid: ?thesis if zp: "0 < z" and ue: "?u \<le> unit_exp b p emin z"
  proof -
    obtain m :: int where m: "(of_nat b :: rat) powi unit_exp b p emin z / of_nat b powi ?u = of_int m"
      using powi_of_int[OF b ue] by blast
    have "of_nat b powi unit_exp b p emin z = of_int m * (of_nat b :: rat) powi ?u"
      using m powi_pos[OF b, of ?u] nonzero_divide_eq_eq less_imp_neq by (metis order.irrefl)
    then have "z = of_int (round_half_even (z / of_nat b powi unit_exp b p emin z) * m) * of_nat b powi ?u"
      using z round_sig_pos[OF zp, of b p emin] by simp
    then show ?thesis using grid by metis
  qed
  consider "z \<le> 0" | "x \<le> z" | "0 < z" "z < x" by linarith
  then show ?thesis
  proof cases
    case 1 then show ?thesis using grid[of 0] x by simp
  next
    case 2
    then have "?u \<le> unit_exp b p emin z" using ilog_mono[OF b x 2] x by (simp add: unit_exp_def max_def)
    then show ?thesis using on_grid 2 x by simp
  next
    case 3
    show ?thesis
    proof (cases "?u \<le> unit_exp b p emin z")
      case False
      then have lt: "ilog b z < ilog b x" "?u = ilog b x - (int p - 1)"
        using 3 x by (auto simp: unit_exp_def max_def split: if_splits)
      have "z < of_nat b powi (ilog b z + 1)" using ilog_bounds[OF b 3(1)] by simp
      also have "\<dots> \<le> of_nat b powi ilog b x" using b lt by (intro power_int_increasing) auto
      finally have zl: "z \<le> of_nat b powi ilog b x" by simp
      obtain m :: int where m: "(of_nat b :: rat) powi ilog b x / of_nat b powi ?u = of_int m"
        using powi_of_int[OF b, of ?u "ilog b x"] lt p by auto
      then have "of_nat b powi ilog b x = of_int m * (of_nat b :: rat) powi ?u"
        using powi_pos[OF b, of ?u] nonzero_divide_eq_eq by (metis order.irrefl)
      then have "\<bar>round_sig b p emin x - x\<bar> \<le> \<bar>of_nat b powi ilog b x - x\<bar>" using grid[of m] by simp
      then show ?thesis using zl 3 ilog_bounds(1)[OF b x] by linarith
    qed (rule on_grid[OF 3(1)])
  qed
qed

lemma rnd64_nearest:
  assumes "rnd64 z = z"
  shows "\<bar>rnd64 x - x\<bar> \<le> \<bar>z - x\<bar>"
proof -
  consider "x = 0" | "0 < x" | "0 < - x" by linarith
  then show ?thesis
  proof cases
    case 1 then show ?thesis by (simp add: f64.zero)
  next
    case 2 then show ?thesis using assms round_sig_nearest_pos[of 2 53 x "- 1074" z] by (simp add: rnd64_def)
  next
    case 3
    have "rnd64 (- z) = - z" using assms by (simp add: f64.odd)
    then have "\<bar>rnd64 (- x) - (- x)\<bar> \<le> \<bar>- z - (- x)\<bar>"
      using 3 round_sig_nearest_pos[of 2 53 "- x" "- 1074" "- z"] by (simp add: rnd64_def)
    then show ?thesis by (simp add: f64.odd)
  qed
qed

lemma rnd64_add_le:
  assumes "rnd64 c = c" "0 \<le> e"
  shows "rnd64 (c + e) \<le> c + 2 * e"
  using rnd64_nearest[OF assms(1), of "c + e"] assms(2) by simp

end
