(* ===== verification/Paper_Trading_Store.thy ===== *)
theory Paper_Trading_Store
  imports Py_Format Float_Bounds
begin

text \<open>
  storage/paper\_trading\_sqlite.py: the simulated account of paper trading. Orders, fills, positions, the
  equity curve and a key-value table with the cash balance and the realised profit live in one
  SQLite file; \<open>apply_fill\<close> books one fill in a transaction. \<open>INSERT OR REPLACE\<close> removes the row
  with the same key and appends the new one; \<open>INSERT OR IGNORE\<close> drops a row that breaks a unique or a
  \<open>NOT NULL\<close> constraint; a NaN is bound as \<open>NULL\<close>. A raised exception leaves the store as it was
  (the handler rolls the transaction back). Foreign keys are not enforced, as in SQLite's default.

  A value of the key-value table is a text; the code asks of it whether it is empty and what
  \<open>float\<close> makes of it, and that is what \<open>state_text\<close> keeps: \<open>Reads x\<close> is a text that \<open>float\<close> reads as
  \<open>x\<close> (so \<open>str(float(x))\<close> is \<open>Reads x\<close>: \<open>float\<close> inverts \<open>str\<close>).
\<close>

section \<open>Data\<close>

datatype state_text = Reads pyfloat | EmptyText | Unreadable

record paper_order =
  po_order_id :: string
  po_client_order_id :: string
  po_created_ts :: string
  po_ts :: string
  po_venue :: string
  po_symbol :: string
  po_side :: string
  po_order_type :: string
  po_qty :: pyfloat
  po_limit_price :: "pyfloat option"
  po_status :: string
  po_reject_reason :: "string option"
  po_strategy_id :: "string option"
  po_meta :: "json option"

record paper_fill =
  pfl_fill_id :: string
  pfl_order_id :: string
  pfl_ts :: string
  pfl_price :: pyfloat
  pfl_qty :: pyfloat
  pfl_fee :: pyfloat
  pfl_fee_currency :: string

record paper_position =
  pp_symbol :: string
  pp_qty :: pyfloat
  pp_avg_price :: pyfloat
  pp_realized_pnl :: pyfloat
  pp_updated_ts :: string

record paper_equity =
  pe_ts :: string
  pe_cash_quote :: pyfloat
  pe_equity_quote :: pyfloat
  pe_unrealized_pnl :: pyfloat
  pe_realized_pnl :: pyfloat

record paper_store =
  pst_state :: "(string \<times> state_text) list"
  pst_orders :: "paper_order list"
  pst_fills :: "paper_fill list"
  pst_positions :: "paper_position list"
  pst_equity :: "paper_equity list"

definition empty_paper_store :: paper_store where
  "empty_paper_store = \<lparr>pst_state = [], pst_orders = [], pst_fills = [], pst_positions = [], pst_equity = []\<rparr>"

section \<open>Fill ids\<close>

text \<open>\<open>_paper_fill_id\<close>\<close>

definition paper_fill_id :: "string \<Rightarrow> pyfloat \<Rightarrow> pyfloat \<Rightarrow> string" where
  "paper_fill_id order_id price qty =
     ''paper:'' @ order_id @ '':'' @ fixed_text 12 price @ '':'' @ fixed_text 12 qty"

section \<open>Tables\<close>

text \<open>\<open>INSERT OR REPLACE\<close>, and a descending \<open>ORDER BY\<close> that keeps the scan order of equal keys.\<close>

definition insert_or_replace :: "('r \<Rightarrow> 'k) \<Rightarrow> 'r \<Rightarrow> 'r list \<Rightarrow> 'r list" where
  "insert_or_replace key r t = filter (\<lambda>x. key x \<noteq> key r) t @ [r]"

definition order_by_desc :: "('r \<Rightarrow> 'k::linorder) \<Rightarrow> 'r list \<Rightarrow> 'r list" where
  "order_by_desc key t = rev (sort_key key (rev t))"

definition not_null :: "string \<Rightarrow> exn" where
  "not_null col = IntegrityError (''NOT NULL constraint failed: '' @ col)"

definition paper_state :: "string \<Rightarrow> paper_store \<Rightarrow> state_text option" where
  "paper_state k db = map_option snd (select_key fst k (pst_state db))"

definition set_paper_state :: "string \<Rightarrow> state_text \<Rightarrow> paper_store \<Rightarrow> paper_store" where
  "set_paper_state k v db = db\<lparr>pst_state := insert_or_replace fst (k, v) (pst_state db)\<rparr>"

text \<open>\<open>float(v or "0.0")\<close>\<close>

definition float_of_state :: "state_text option \<Rightarrow> exn + pyfloat" where
  "float_of_state v =
     (case v of
        Some (Reads x) \<Rightarrow> Inr x
      | Some Unreadable \<Rightarrow> Inl (ValueError ''could not convert string to float'')
      | _ \<Rightarrow> Inr (Fin 0))"

text \<open>The dictionary \<open>insert_order\<close> receives; \<open>created_ts\<close> is the clock.\<close>

definition insert_paper_order :: "string \<Rightarrow> paper_order \<Rightarrow> paper_store \<Rightarrow> paper_store" where
  "insert_paper_order now row db =
     (if select_key po_order_id (po_order_id row) (pst_orders db) \<noteq> None \<or>
         select_key po_client_order_id (po_client_order_id row) (pst_orders db) \<noteq> None \<or> po_qty row = NaN
      then db
      else db\<lparr>pst_orders := pst_orders db @
             [row\<lparr>po_created_ts := now, po_limit_price := Option.bind (po_limit_price row) sql_real\<rparr>]\<rparr>)"

definition order_by_client_id :: "string \<Rightarrow> paper_store \<Rightarrow> paper_order option" where
  "order_by_client_id c db = select_key po_client_order_id c (pst_orders db)"

definition order_by_order_id :: "string \<Rightarrow> paper_store \<Rightarrow> paper_order option" where
  "order_by_order_id i db = select_key po_order_id i (pst_orders db)"

definition update_order_status :: "string \<Rightarrow> string \<Rightarrow> string option \<Rightarrow> paper_store \<Rightarrow> paper_store" where
  "update_order_status i st reason db =
     db\<lparr>pst_orders := upd_where (\<lambda>r. po_order_id r = i) (\<lambda>r. r\<lparr>po_status := st, po_reject_reason := reason\<rparr>)
          (pst_orders db)\<rparr>"

definition list_paper_orders :: "int \<Rightarrow> string option \<Rightarrow> paper_store \<Rightarrow> paper_order list" where
  "list_paper_orders limit status db =
     sql_limit limit (order_by_desc po_created_ts
       (if truthy status then filter (\<lambda>r. Some (po_status r) = status) (pst_orders db) else pst_orders db))"

text \<open>The answer is the row count of the insertion.\<close>

definition insert_paper_fill :: "paper_fill \<Rightarrow> paper_store \<Rightarrow> nat \<times> paper_store" where
  "insert_paper_fill f db =
     (if select_key pfl_fill_id (pfl_fill_id f) (pst_fills db) \<noteq> None \<or>
         pfl_price f = NaN \<or> pfl_qty f = NaN \<or> pfl_fee f = NaN
      then (0, db) else (1, db\<lparr>pst_fills := pst_fills db @ [f]\<rparr>))"

definition list_paper_fills :: "int \<Rightarrow> paper_store \<Rightarrow> paper_fill list" where
  "list_paper_fills limit db = sql_limit limit (order_by_desc pfl_ts (pst_fills db))"

definition list_fills_for_order :: "string \<Rightarrow> int \<Rightarrow> paper_store \<Rightarrow> paper_fill list" where
  "list_fills_for_order i limit db =
     sql_limit limit (sort_key pfl_ts (filter (\<lambda>f. pfl_order_id f = i) (pst_fills db)))"

text \<open>A \<open>NULL\<close> in a \<open>NOT NULL\<close> column without default aborts \<open>INSERT OR REPLACE\<close>.\<close>

definition upsert_paper_position ::
    "string \<Rightarrow> pyfloat \<Rightarrow> pyfloat \<Rightarrow> pyfloat \<Rightarrow> string \<Rightarrow> paper_store \<Rightarrow> exn + paper_store" where
  "upsert_paper_position symbol qty avg realized ts db =
     (if qty = NaN then Inl (not_null ''paper_positions.qty'')
      else if avg = NaN then Inl (not_null ''paper_positions.avg_price'')
      else if realized = NaN then Inl (not_null ''paper_positions.realized_pnl'')
      else Inr (db\<lparr>pst_positions := insert_or_replace pp_symbol
             \<lparr>pp_symbol = symbol, pp_qty = qty, pp_avg_price = avg, pp_realized_pnl = realized, pp_updated_ts = ts\<rparr>
             (pst_positions db)\<rparr>))"

definition get_paper_position :: "string \<Rightarrow> paper_store \<Rightarrow> paper_position option" where
  "get_paper_position symbol db = select_key pp_symbol symbol (pst_positions db)"

definition list_paper_positions :: "int \<Rightarrow> paper_store \<Rightarrow> paper_position list" where
  "list_paper_positions limit db = sql_limit limit (order_by_desc pp_updated_ts (pst_positions db))"

definition insert_equity :: "paper_equity \<Rightarrow> paper_store \<Rightarrow> exn + paper_store" where
  "insert_equity e db =
     (if pe_cash_quote e = NaN then Inl (not_null ''paper_equity.cash_quote'')
      else if pe_equity_quote e = NaN then Inl (not_null ''paper_equity.equity_quote'')
      else if pe_unrealized_pnl e = NaN then Inl (not_null ''paper_equity.unrealized_pnl'')
      else if pe_realized_pnl e = NaN then Inl (not_null ''paper_equity.realized_pnl'')
      else Inr (db\<lparr>pst_equity := insert_or_replace pe_ts e (pst_equity db)\<rparr>))"

definition list_equity :: "int \<Rightarrow> paper_store \<Rightarrow> paper_equity list" where
  "list_equity limit db = sql_limit limit (order_by_desc pe_ts (pst_equity db))"

section \<open>Booking a fill\<close>

definition cash_eps :: pyfloat where
  "cash_eps = mk_float (1 / 10 ^ 9)"

text \<open>What a fill reads and writes: quantity, average price and realised profit of the symbol, the cash
  balance and the total realised profit.\<close>

record paper_account =
  pa_qty :: pyfloat
  pa_avg :: pyfloat
  pa_pos_realized :: pyfloat
  pa_cash :: pyfloat
  pa_realized :: pyfloat

text \<open>The outcome of the accounting: the order is rejected, an exception, or the new account with the
  profit of this fill. Every side but \<open>buy\<close> is booked as a sale.\<close>

datatype booking = StepReject string | StepRaise exn | StepBook paper_account pyfloat

definition paper_buy :: "pyfloat \<Rightarrow> pyfloat \<Rightarrow> pyfloat \<Rightarrow> paper_account \<Rightarrow> booking" where
  "paper_buy price qty fee a =
     (let cost = fadd (fmul price qty) fee
      in if flt (fadd (pa_cash a) cash_eps) cost then StepReject ''insufficient_cash''
         else (let new_qty = fadd (pa_qty a) qty;
                   num = fadd (fadd (fmul (pa_avg a) (pa_qty a)) (fmul price qty)) fee;
                   new_avg = (if flt (Fin 0) new_qty then fdiv num new_qty else Some (Fin 0));
                   left = fsub (pa_cash a) cost;
                   new_cash = (if flt left (Fin 0) \<and> fle (fabs left) cash_eps then Fin 0 else left)
               in case new_avg of
                    None \<Rightarrow> StepRaise ZeroDivisionError
                  | Some avg \<Rightarrow> StepBook (a\<lparr>pa_qty := new_qty, pa_avg := avg, pa_cash := new_cash\<rparr>) (Fin 0)))"

definition paper_sell :: "pyfloat \<Rightarrow> pyfloat \<Rightarrow> pyfloat \<Rightarrow> paper_account \<Rightarrow> booking" where
  "paper_sell price qty fee a =
     (if flt (pa_qty a) qty then StepReject ''insufficient_position''
      else (let proceeds = fsub (fmul price qty) fee;
                pnl = fsub proceeds (fmul (pa_avg a) qty);
                new_qty = fsub (pa_qty a) qty
            in StepBook \<lparr>pa_qty = new_qty, pa_avg = (if flt (Fin 0) new_qty then pa_avg a else Fin 0),
                         pa_pos_realized = fadd (pa_pos_realized a) pnl,
                         pa_cash = fadd (pa_cash a) proceeds,
                         pa_realized = fadd (pa_realized a) pnl\<rparr> pnl))"

definition paper_fill_step :: "string \<Rightarrow> pyfloat \<Rightarrow> pyfloat \<Rightarrow> pyfloat \<Rightarrow> paper_account \<Rightarrow> booking" where
  "paper_fill_step side price qty fee a =
     (if side = ''buy'' then paper_buy price qty fee a else paper_sell price qty fee a)"

definition position_of :: "string \<Rightarrow> paper_store \<Rightarrow> pyfloat \<times> pyfloat \<times> pyfloat" where
  "position_of symbol db =
     (case get_paper_position symbol db of
        None \<Rightarrow> (Fin 0, Fin 0, Fin 0)
      | Some p \<Rightarrow> (pp_qty p, pp_avg_price p, pp_realized_pnl p))"

text \<open>The reads at the head of the accounting.\<close>

definition load_account :: "string \<Rightarrow> paper_store \<Rightarrow> exn + paper_account" where
  "load_account symbol db =
     (let (q, a, r) = position_of symbol db
      in case float_of_state (paper_state ''cash_quote'' db) of
           Inl e \<Rightarrow> Inl e
         | Inr cash \<Rightarrow>
        (case float_of_state (paper_state ''realized_pnl'' db) of
           Inl e \<Rightarrow> Inl e
         | Inr tot \<Rightarrow> Inr \<lparr>pa_qty = q, pa_avg = a, pa_pos_realized = r, pa_cash = cash, pa_realized = tot\<rparr>))"

datatype paper_fill_result =
    FillFailed string
  | FillIdempotent string pyfloat
  | FillApplied string pyfloat pyfloat

text \<open>The writes of an accepted fill, in the order of the code.\<close>

definition book_fill ::
    "paper_order \<Rightarrow> string \<Rightarrow> pyfloat \<Rightarrow> pyfloat \<Rightarrow> pyfloat \<Rightarrow> string \<Rightarrow> paper_account \<Rightarrow> pyfloat \<Rightarrow> paper_store \<Rightarrow>
     exn + paper_fill_result \<times> paper_store" where
  "book_fill od ts price qty fee ccy a pnl db =
     (let fill_id = paper_fill_id (po_order_id od) price qty
      in case upsert_paper_position (po_symbol od) (pa_qty a) (pa_avg a) (pa_pos_realized a) ts db of
           Inl e \<Rightarrow> Inl e
         | Inr db1 \<Rightarrow>
             (let db2 = set_paper_state ''cash_quote'' (Reads (pa_cash a)) db1;
                  db3 = set_paper_state ''realized_pnl'' (Reads (pa_realized a)) db2;
                  (n, db4) = insert_paper_fill \<lparr>pfl_fill_id = fill_id, pfl_order_id = po_order_id od, pfl_ts = ts,
                     pfl_price = price, pfl_qty = qty, pfl_fee = fee, pfl_fee_currency = ccy\<rparr> db3
              in if n \<noteq> 1 then Inl (RuntimeError ''paper_fill_insert_failed'')
                 else Inr (FillApplied fill_id fee pnl, update_order_status (po_order_id od) ''filled'' None db4)))"

definition paper_apply_fill ::
    "string \<Rightarrow> string \<Rightarrow> pyfloat \<Rightarrow> pyfloat \<Rightarrow> pyfloat \<Rightarrow> string \<Rightarrow> paper_store \<Rightarrow>
     exn + paper_fill_result \<times> paper_store" where
  "paper_apply_fill order_id ts price qty fee ccy db =
     (case order_by_order_id order_id db of
        None \<Rightarrow> Inr (FillFailed ''order_not_found'', db)
      | Some od \<Rightarrow>
          (let side = lower (strip (po_side od));
               status = lower (strip (po_status od))
           in if status = ''filled''
              then Inr (FillIdempotent (paper_fill_id (po_order_id od) price qty) fee, db)
              else if status \<in> {''rejected'', ''canceled'', ''cancelled''} then Inr (FillFailed status, db)
              else case load_account (po_symbol od) db of
                     Inl e \<Rightarrow> Inl e
                   | Inr a \<Rightarrow>
                  (case paper_fill_step side price qty fee a of
                     StepReject why \<Rightarrow>
                       Inr (FillFailed why, update_order_status (po_order_id od) ''rejected'' (Some why) db)
                   | StepRaise e \<Rightarrow> Inl e
                   | StepBook a' pnl \<Rightarrow> book_fill od ts price qty fee ccy a' pnl db)))"

section \<open>Fill ids determine their orders\<close>

lemma paper_fill_id_inj:
  assumes "paper_fill_id i p q = paper_fill_id j p' q'"
  shows "i = j"
proof -
  have "(i @ colon # fixed_text 12 p) @ colon # fixed_text 12 q = (j @ colon # fixed_text 12 p') @ colon # fixed_text 12 q'"
    using assms by (simp add: paper_fill_id_def)
  then have "i @ colon # fixed_text 12 p = j @ colon # fixed_text 12 p'"
    using append_colon_eq[OF fixed_text_no_colon fixed_text_no_colon] by blast
  then show ?thesis using append_colon_eq[OF fixed_text_no_colon fixed_text_no_colon] by blast
qed

section \<open>Tables\<close>

lemma select_key_filter_other:
  "k \<noteq> k' \<Longrightarrow> select_key key k (filter (\<lambda>x. key x \<noteq> k') t) = select_key key k t"
  by (induction t) (auto simp: select_key_Cons)

lemma select_key_filter_same: "select_key key k (filter (\<lambda>x. key x \<noteq> k) t) = None"
  by (auto simp: tbl)

lemma select_insert_or_replace [tbl]:
  "select_key key k (insert_or_replace key r t) = (if k = key r then Some r else select_key key k t)"
  by (auto simp: insert_or_replace_def select_key_append select_key_filter_same select_key_filter_other select_key_Cons
      split: option.splits)

lemma distinct_insert_or_replace:
  "distinct (map key t) \<Longrightarrow> distinct (map key (insert_or_replace key r t))"
  by (auto simp: insert_or_replace_def distinct_map_filter)

lemma set_order_by_desc [simp]: "set (order_by_desc key t) = set t"
  by (simp add: order_by_desc_def)

lemma paper_state_set [simp]:
  "paper_state k (set_paper_state k' v db) = (if k = k' then Some v else paper_state k db)"
  by (auto simp: paper_state_def set_paper_state_def tbl)

lemma position_of_upsert:
  assumes "upsert_paper_position y q a r ts db = Inr db'"
  shows "position_of y' db' = (if y' = y then (q, a, r) else position_of y' db)"
    "pst_state db' = pst_state db" "pst_orders db' = pst_orders db" "pst_fills db' = pst_fills db"
    "q \<noteq> NaN" "a \<noteq> NaN" "r \<noteq> NaN"
  using assms by (auto simp: upsert_paper_position_def position_of_def get_paper_position_def tbl split: if_splits)

section \<open>What a fill changes\<close>

definition open_status :: "string \<Rightarrow> bool" where
  "open_status s \<longleftrightarrow> lower (strip s) \<notin> {''filled'', ''rejected'', ''canceled'', ''cancelled''}"

lemma book_fill_effect:
  assumes "book_fill od ts p q fee ccy a pnl db = Inr (res, db')"
  shows "res = FillApplied (paper_fill_id (po_order_id od) p q) fee pnl"
    "pst_orders db' = upd_where (\<lambda>r. po_order_id r = po_order_id od)
       (\<lambda>r. r\<lparr>po_status := ''filled'', po_reject_reason := None\<rparr>) (pst_orders db)"
    "pst_fills db' = pst_fills db @ [\<lparr>pfl_fill_id = paper_fill_id (po_order_id od) p q, pfl_order_id = po_order_id od,
       pfl_ts = ts, pfl_price = p, pfl_qty = q, pfl_fee = fee, pfl_fee_currency = ccy\<rparr>]"
    "paper_state k db' = (if k = ''realized_pnl'' then Some (Reads (pa_realized a))
       else if k = ''cash_quote'' then Some (Reads (pa_cash a)) else paper_state k db)"
    "position_of y db' = (if y = po_symbol od then (pa_qty a, pa_avg a, pa_pos_realized a) else position_of y db)"
    "select_key pfl_fill_id (paper_fill_id (po_order_id od) p q) (pst_fills db) = None"
    "pa_qty a \<noteq> NaN" "pa_avg a \<noteq> NaN" "pa_pos_realized a \<noteq> NaN"
    "distinct (map pp_symbol (pst_positions db)) \<Longrightarrow> distinct (map pp_symbol (pst_positions db'))"
    "pst_equity db' = pst_equity db" "p \<noteq> NaN" "q \<noteq> NaN" "fee \<noteq> NaN"
proof -
  obtain db1 where db1: "upsert_paper_position (po_symbol od) (pa_qty a) (pa_avg a) (pa_pos_realized a) ts db = Inr db1"
    using assms by (auto simp: book_fill_def Let_def split: sum.splits)
  let ?db3 = "set_paper_state ''realized_pnl'' (Reads (pa_realized a)) (set_paper_state ''cash_quote'' (Reads (pa_cash a)) db1)"
  let ?f = "\<lparr>pfl_fill_id = paper_fill_id (po_order_id od) p q, pfl_order_id = po_order_id od,
       pfl_ts = ts, pfl_price = p, pfl_qty = q, pfl_fee = fee, pfl_fee_currency = ccy\<rparr>"
  have fresh: "select_key pfl_fill_id (paper_fill_id (po_order_id od) p q) (pst_fills ?db3) = None"
    and res: "res = FillApplied (paper_fill_id (po_order_id od) p q) fee pnl"
    and db': "db' = update_order_status (po_order_id od) ''filled'' None (?db3\<lparr>pst_fills := pst_fills ?db3 @ [?f]\<rparr>)"
    and num: "p \<noteq> NaN" "q \<noteq> NaN" "fee \<noteq> NaN"
    using assms db1 by (auto simp: book_fill_def Let_def insert_paper_fill_def split: if_splits)
  have keep: "pst_orders ?db3 = pst_orders db" "pst_fills ?db3 = pst_fills db"
    using position_of_upsert[OF db1] by (simp_all add: set_paper_state_def)
  show "p \<noteq> NaN" "q \<noteq> NaN" "fee \<noteq> NaN" using num .
  show "res = FillApplied (paper_fill_id (po_order_id od) p q) fee pnl" by (rule res)
  show "pst_orders db' = upd_where (\<lambda>r. po_order_id r = po_order_id od)
       (\<lambda>r. r\<lparr>po_status := ''filled'', po_reject_reason := None\<rparr>) (pst_orders db)"
    using keep by (simp add: db' update_order_status_def)
  show "pst_fills db' = pst_fills db @ [?f]" using keep by (simp add: db' update_order_status_def)
  have st: "paper_state k db1 = paper_state k db" using position_of_upsert(2)[OF db1] by (simp add: paper_state_def)
  have "paper_state k db' = paper_state k ?db3" by (simp add: db' update_order_status_def paper_state_def)
  then show "paper_state k db' = (if k = ''realized_pnl'' then Some (Reads (pa_realized a))
       else if k = ''cash_quote'' then Some (Reads (pa_cash a)) else paper_state k db)"
    using st by simp
  have "position_of y db' = position_of y db1"
    by (simp add: db' update_order_status_def position_of_def get_paper_position_def set_paper_state_def)
  then show "position_of y db' = (if y = po_symbol od then (pa_qty a, pa_avg a, pa_pos_realized a) else position_of y db)"
    using position_of_upsert(1)[OF db1] by simp
  show "select_key pfl_fill_id (paper_fill_id (po_order_id od) p q) (pst_fills db) = None" using fresh keep by simp
  show "pa_qty a \<noteq> NaN" "pa_avg a \<noteq> NaN" "pa_pos_realized a \<noteq> NaN" using position_of_upsert[OF db1] by simp_all
  have "pst_positions db' = pst_positions db1" by (simp add: db' update_order_status_def set_paper_state_def)
  moreover have "distinct (map pp_symbol (pst_positions db)) \<Longrightarrow> distinct (map pp_symbol (pst_positions db1))"
    using db1 distinct_insert_or_replace[of pp_symbol "pst_positions db"]
    by (auto simp: upsert_paper_position_def split: if_splits)
  ultimately show "distinct (map pp_symbol (pst_positions db)) \<Longrightarrow> distinct (map pp_symbol (pst_positions db'))"
    by simp
  have "pst_equity db1 = pst_equity db" using db1 by (auto simp: upsert_paper_position_def split: if_splits)
  then show "pst_equity db' = pst_equity db" by (simp add: db' update_order_status_def set_paper_state_def)
qed

lemma paper_apply_fill_cases:
  assumes "paper_apply_fill i ts p q fee ccy db = Inr (res, db')"
  obtains (unchanged) "db' = db" "\<nexists>fid f pnl. res = FillApplied fid f pnl"
  | (rejected) od a why where "order_by_order_id i db = Some od" "open_status (po_status od)"
      "load_account (po_symbol od) db = Inr a"
      "paper_fill_step (lower (strip (po_side od))) p q fee a = StepReject why"
      "db' = update_order_status i ''rejected'' (Some why) db" "res = FillFailed why"
  | (booked) od a a' pnl where "order_by_order_id i db = Some od" "open_status (po_status od)"
      "load_account (po_symbol od) db = Inr a"
      "paper_fill_step (lower (strip (po_side od))) p q fee a = StepBook a' pnl"
      "book_fill od ts p q fee ccy a' pnl db = Inr (res, db')"
proof (cases "order_by_order_id i db")
  case None
  then show ?thesis using assms unchanged by (auto simp: paper_apply_fill_def)
next
  case (Some od)
  have i: "po_order_id od = i" using Some select_key_Some_mem by (fastforce simp: order_by_order_id_def)
  show ?thesis
  proof (cases "open_status (po_status od)")
    case False
    then show ?thesis using assms Some unchanged
      by (auto simp: paper_apply_fill_def Let_def open_status_def split: if_splits)
  next
    case True
    then obtain a where a: "load_account (po_symbol od) db = Inr a"
      using assms Some by (auto simp: paper_apply_fill_def Let_def open_status_def split: sum.splits)
    show ?thesis
    proof (cases "paper_fill_step (lower (strip (po_side od))) p q fee a")
      case (StepReject why)
      then show ?thesis using rejected[OF Some True a] assms Some True a i
        by (auto simp: paper_apply_fill_def Let_def open_status_def)
    next
      case (StepRaise e)
      then show ?thesis using assms Some True a by (auto simp: paper_apply_fill_def Let_def open_status_def)
    next
      case (StepBook a' pnl)
      then show ?thesis using booked[OF Some True a] assms Some True a
        by (auto simp: paper_apply_fill_def Let_def open_status_def)
    qed
  qed
qed

section \<open>Well-formedness\<close>

definition known_status :: "string \<Rightarrow> bool" where
  "known_status s \<longleftrightarrow> s = ''new'' \<or> s = ''filled'' \<or> s = ''rejected'' \<or> s = ''canceled''"

definition order_wf :: "paper_order \<Rightarrow> bool" where
  "order_wf r \<longleftrightarrow> known_status (po_status r) \<and> (po_side r = ''buy'' \<or> po_side r = ''sell'') \<and>
     flt (Fin 0) (po_qty r) \<and> isfinite (po_qty r)"

definition fill_of :: "paper_order list \<Rightarrow> paper_fill \<Rightarrow> bool" where
  "fill_of orders f \<longleftrightarrow> (\<exists>r p q. r \<in> set orders \<and> po_order_id r = pfl_order_id f \<and> po_status r = ''filled'' \<and>
     pfl_fill_id f = paper_fill_id (po_order_id r) p q)"

text \<open>Keys are unique, every order has one of the four statuses, a side and a positive finite
  quantity, and the fills are in one-to-one correspondence with the filled orders.\<close>

definition paper_wf :: "paper_store \<Rightarrow> bool" where
  "paper_wf db \<longleftrightarrow>
     distinct (map po_order_id (pst_orders db)) \<and> distinct (map po_client_order_id (pst_orders db)) \<and>
     distinct (map pp_symbol (pst_positions db)) \<and>
     list_all order_wf (pst_orders db) \<and>
     distinct (map pfl_order_id (pst_fills db)) \<and> list_all (fill_of (pst_orders db)) (pst_fills db) \<and>
     (\<forall>r \<in> set (pst_orders db). po_status r = ''filled'' \<longrightarrow> po_order_id r \<in> pfl_order_id ` set (pst_fills db))"

lemma norm_words:
  "lower (strip ''new'') = ''new''" "lower (strip ''filled'') = ''filled''" "lower (strip ''rejected'') = ''rejected''"
  "lower (strip ''canceled'') = ''canceled''" "lower (strip ''buy'') = ''buy''" "lower (strip ''sell'') = ''sell''"
  by code_simp+

lemma norm_known: "known_status s \<Longrightarrow> lower (strip s) = s"
  unfolding known_status_def by (elim disjE; hypsubst; rule norm_words)

lemma norm_side: "s = ''buy'' \<or> s = ''sell'' \<Longrightarrow> lower (strip s) = s"
  by (elim disjE; hypsubst; rule norm_words)

lemma open_known: "known_status s \<Longrightarrow> open_status s \<longleftrightarrow> s = ''new''"
  using norm_known[of s] by (auto simp: open_status_def known_status_def)

lemma empty_paper_wf: "paper_wf empty_paper_store"
  by (simp add: paper_wf_def empty_paper_store_def)

lemma order_wf_mem: "paper_wf db \<Longrightarrow> r \<in> set (pst_orders db) \<Longrightarrow> order_wf r"
  by (auto simp: paper_wf_def list_all_iff)

lemma order_by_order_id_mem:
  "order_by_order_id i db = Some r \<Longrightarrow> r \<in> set (pst_orders db) \<and> po_order_id r = i"
  unfolding order_by_order_id_def by (rule select_key_Some_mem)

lemma order_unique:
  "paper_wf db \<Longrightarrow> r \<in> set (pst_orders db) \<Longrightarrow> s \<in> set (pst_orders db) \<Longrightarrow> po_order_id r = po_order_id s \<Longrightarrow> r = s"
  by (auto simp: paper_wf_def distinct_map inj_on_def)

lemma set_upd_where: "set (upd_where P f t) = (\<lambda>r. if P r then f r else r) ` set t"
  by (simp add: upd_where_def)

text \<open>A new order that leaves the status \<open>new\<close>, without and with a fill.\<close>

abbreviation restatus :: "string \<Rightarrow> string \<Rightarrow> string option \<Rightarrow> paper_order list \<Rightarrow> paper_order list" where
  "restatus i st why t \<equiv> upd_where (\<lambda>r. po_order_id r = i) (\<lambda>r. r\<lparr>po_status := st, po_reject_reason := why\<rparr>) t"

lemma restatus_keys:
  "map po_order_id (restatus i st why t) = map po_order_id t"
  "map po_client_order_id (restatus i st why t) = map po_client_order_id t"
  by (rule map_key_upd_where, simp)+

lemma restatus_fill_of:
  assumes wf: "paper_wf db" and od: "od \<in> set (pst_orders db)" "po_order_id od = i" "po_status od = ''new''"
    and f: "fill_of (pst_orders db) f"
  shows "fill_of (restatus i st why (pst_orders db)) f"
proof -
  obtain r p q where r: "r \<in> set (pst_orders db)" "po_order_id r = pfl_order_id f" "po_status r = ''filled''"
      "pfl_fill_id f = paper_fill_id (po_order_id r) p q"
    using f by (auto simp: fill_of_def)
  have "po_order_id r \<noteq> i" using order_unique[OF wf r(1) od(1)] od r by auto
  then have "r \<in> set (restatus i st why (pst_orders db))" using r(1) by (force simp: set_upd_where)
  then show ?thesis unfolding fill_of_def using r by blast
qed

lemma restatus_order_wf:
  "list_all order_wf t \<Longrightarrow> known_status st \<Longrightarrow> list_all order_wf (restatus i st why t)"
  by (auto simp: list_all_iff set_upd_where order_wf_def)

lemma close_unfilled_wf:
  assumes wf: "paper_wf db" and od: "order_by_order_id i db = Some od" "po_status od = ''new''"
    and st: "st = ''rejected'' \<or> st = ''canceled''"
  shows "paper_wf (update_order_status i st why db)"
proof -
  have m: "od \<in> set (pst_orders db)" "po_order_id od = i" using order_by_order_id_mem[OF od(1)] by auto
  have nf: "st \<noteq> ''filled''" and ks: "known_status st" using st by (auto simp: known_status_def)
  have "list_all (fill_of (restatus i st why (pst_orders db))) (pst_fills db)"
    using restatus_fill_of[OF wf m od(2)] wf by (auto simp: paper_wf_def list_all_iff)
  moreover have "\<forall>r \<in> set (restatus i st why (pst_orders db)). po_status r = ''filled'' \<longrightarrow>
      po_order_id r \<in> pfl_order_id ` set (pst_fills db)"
    using wf nf by (auto simp: paper_wf_def set_upd_where)
  ultimately show ?thesis
    using wf restatus_order_wf[OF _ ks] unfolding paper_wf_def by (simp add: update_order_status_def restatus_keys)
qed

lemma fresh_fill_order:
  assumes "paper_wf db" "order_by_order_id i db = Some od" "po_status od = ''new''"
  shows "i \<notin> pfl_order_id ` set (pst_fills db)"
proof
  assume "i \<in> pfl_order_id ` set (pst_fills db)"
  then obtain f where "f \<in> set (pst_fills db)" "pfl_order_id f = i" by auto
  then obtain r where "r \<in> set (pst_orders db)" "po_order_id r = i" "po_status r = ''filled''"
    using assms(1) by (auto simp: paper_wf_def list_all_iff fill_of_def)
  then show False using order_unique[OF assms(1), of r od] order_by_order_id_mem[OF assms(2)] assms(3) by auto
qed

lemma close_filled_wf:
  assumes wf: "paper_wf db" and od: "order_by_order_id i db = Some od" "po_status od = ''new''"
    and o': "pst_orders db' = restatus i ''filled'' None (pst_orders db)"
    and f': "pst_fills db' = pst_fills db @ [f]" "pfl_order_id f = i" "pfl_fill_id f = paper_fill_id i p q"
    and p': "distinct (map pp_symbol (pst_positions db'))"
  shows "paper_wf db'"
proof -
  have m: "od \<in> set (pst_orders db)" "po_order_id od = i" using order_by_order_id_mem[OF od(1)] by auto
  have "list_all (fill_of (pst_orders db')) (pst_fills db)"
    using restatus_fill_of[OF wf m od(2)] wf by (auto simp: paper_wf_def list_all_iff o')
  moreover have "od\<lparr>po_status := ''filled'', po_reject_reason := None\<rparr> \<in> set (pst_orders db')"
    using m by (force simp: o' set_upd_where)
  then have "fill_of (pst_orders db') f"
    unfolding fill_of_def using m f'
    by (intro exI[of _ "od\<lparr>po_status := ''filled'', po_reject_reason := None\<rparr>"] exI[of _ p] exI[of _ q]) simp
  moreover have "\<forall>r \<in> set (pst_orders db'). po_status r = ''filled'' \<longrightarrow> po_order_id r \<in> pfl_order_id ` set (pst_fills db')"
    using wf f' by (auto simp: paper_wf_def set_upd_where o')
  moreover have "list_all order_wf (pst_orders db')"
    using wf restatus_order_wf[of "pst_orders db" "''filled''"] by (simp add: paper_wf_def o' known_status_def)
  ultimately show ?thesis
    using wf p' fresh_fill_order[OF wf od] f' unfolding paper_wf_def by (simp add: o' restatus_keys)
qed

lemma apply_fill_wf:
  assumes wf: "paper_wf db" and ap: "paper_apply_fill i ts p q fee ccy db = Inr (res, db')"
  shows "paper_wf db'"
  using ap
proof (cases rule: paper_apply_fill_cases)
  case unchanged
  then show ?thesis using wf by simp
next
  case (rejected od a why)
  have "po_status od = ''new''"
    using order_wf_mem[OF wf] order_by_order_id_mem[OF rejected(1)] rejected(2) open_known by (auto simp: order_wf_def)
  then show ?thesis using close_unfilled_wf[OF wf rejected(1)] rejected(5) by simp
next
  case (booked od a a' pnl)
  have nw: "po_status od = ''new''" and i: "po_order_id od = i"
    using order_wf_mem[OF wf] order_by_order_id_mem[OF booked(1)] booked(2) open_known by (auto simp: order_wf_def)
  note e = book_fill_effect[OF booked(5)]
  show ?thesis
    using close_filled_wf[OF wf booked(1) nw, of db'] e(2,3,10) i wf by (simp add: paper_wf_def)
qed

text \<open>On a well-formed store the insertion of the fill never fails: the order has no fill yet, and a fill id
  determines its order.\<close>

lemma fill_id_fresh:
  assumes "paper_wf db" "order_by_order_id i db = Some od" "po_status od = ''new''"
  shows "select_key pfl_fill_id (paper_fill_id i p q) (pst_fills db) = None"
proof (rule ccontr)
  assume "select_key pfl_fill_id (paper_fill_id i p q) (pst_fills db) \<noteq> None"
  then obtain f where f: "f \<in> set (pst_fills db)" "pfl_fill_id f = paper_fill_id i p q"
    by (auto simp: tbl)
  then have "pfl_order_id f = i"
    using assms(1) paper_fill_id_inj by (auto simp: paper_wf_def list_all_iff fill_of_def)
  then show False using fresh_fill_order[OF assms] f by auto
qed

end
