(* ===== verification/Paper_Ledger.thy ===== *)
theory Paper_Ledger
  imports Paper_Trading_Store
begin

text \<open>
  The abstract account of paper trading: cash, realised profit and one position per symbol, changed by
  a list of ledger entries. The store of Paper\_Trading\_Store refines it: its account is what the ledger
  makes of the fills table, and a fill is accepted exactly when the ledger accepts its entry. The second
  half bounds the cash balance and the positions.
\<close>

section \<open>The ledger\<close>

record paper_ledger =
  lg_cash :: pyfloat
  lg_realized :: pyfloat
  lg_pos :: "string \<Rightarrow> pyfloat \<times> pyfloat \<times> pyfloat"

record ledger_entry =
  le_symbol :: string
  le_side :: string
  le_price :: pyfloat
  le_qty :: pyfloat
  le_fee :: pyfloat

definition ledger_account :: "string \<Rightarrow> paper_ledger \<Rightarrow> paper_account" where
  "ledger_account y L =
     (let (q, a, r) = lg_pos L y
      in \<lparr>pa_qty = q, pa_avg = a, pa_pos_realized = r, pa_cash = lg_cash L, pa_realized = lg_realized L\<rparr>)"

definition ledger_put :: "string \<Rightarrow> paper_account \<Rightarrow> paper_ledger \<Rightarrow> paper_ledger" where
  "ledger_put y a L =
     \<lparr>lg_cash = pa_cash a, lg_realized = pa_realized a,
      lg_pos = (lg_pos L)(y := (pa_qty a, pa_avg a, pa_pos_realized a))\<rparr>"

definition ledger_step :: "ledger_entry \<Rightarrow> paper_ledger \<Rightarrow> paper_ledger option" where
  "ledger_step e L =
     (case paper_fill_step (le_side e) (le_price e) (le_qty e) (le_fee e) (ledger_account (le_symbol e) L) of
        StepBook a _ \<Rightarrow> Some (ledger_put (le_symbol e) a L) | _ \<Rightarrow> None)"

text \<open>The account after a list of entries; None as soon as one is refused.\<close>

fun ledger_run :: "ledger_entry list \<Rightarrow> paper_ledger \<Rightarrow> paper_ledger option" where
  "ledger_run [] L = Some L"
| "ledger_run (e # es) L = Option.bind (ledger_step e L) (ledger_run es)"

definition ledger_open :: "pyfloat \<Rightarrow> paper_ledger" where
  "ledger_open cash = \<lparr>lg_cash = cash, lg_realized = Fin 0, lg_pos = (\<lambda>_. (Fin 0, Fin 0, Fin 0))\<rparr>"

lemma ledger_run_snoc: "ledger_run (es @ [e]) L = Option.bind (ledger_run es L) (ledger_step e)"
  by (induction es arbitrary: L) (auto split: Option.bind_splits)

section \<open>The store as a ledger\<close>

definition state_float :: "string \<Rightarrow> paper_store \<Rightarrow> pyfloat" where
  "state_float k db = (case float_of_state (paper_state k db) of Inl _ \<Rightarrow> NaN | Inr x \<Rightarrow> x)"

definition ledger_of :: "paper_store \<Rightarrow> paper_ledger" where
  "ledger_of db = \<lparr>lg_cash = state_float ''cash_quote'' db, lg_realized = state_float ''realized_pnl'' db,
     lg_pos = (\<lambda>y. position_of y db)\<rparr>"

text \<open>A fill with the symbol and the side of its order.\<close>

definition entry_of :: "paper_order list \<Rightarrow> paper_fill \<Rightarrow> ledger_entry" where
  "entry_of orders f =
     (case select_key po_order_id (pfl_order_id f) orders of
        None \<Rightarrow> \<lparr>le_symbol = '''', le_side = '''', le_price = pfl_price f, le_qty = pfl_qty f, le_fee = pfl_fee f\<rparr>
      | Some r \<Rightarrow> \<lparr>le_symbol = po_symbol r, le_side = lower (strip (po_side r)), le_price = pfl_price f,
                  le_qty = pfl_qty f, le_fee = pfl_fee f\<rparr>)"

definition ledger_inv :: "pyfloat \<Rightarrow> paper_store \<Rightarrow> bool" where
  "ledger_inv cash db \<longleftrightarrow>
     ledger_run (map (entry_of (pst_orders db)) (pst_fills db)) (ledger_open cash) = Some (ledger_of db)"

lemma load_account_ledger: "load_account y db = Inr a \<Longrightarrow> a = ledger_account y (ledger_of db)"
  by (auto simp: load_account_def ledger_account_def ledger_of_def state_float_def Let_def
      split: prod.splits sum.splits)

lemma entry_of_restatus: "entry_of (restatus i st why t) = entry_of t"
proof
  fix f :: paper_fill
  have "select_key po_order_id (pfl_order_id f) (restatus i st why t) =
      map_option (\<lambda>r. if po_order_id r = i then r\<lparr>po_status := st, po_reject_reason := why\<rparr> else r)
        (select_key po_order_id (pfl_order_id f) t)"
    by (rule select_key_upd_where) simp
  then show "entry_of (restatus i st why t) f = entry_of t f"
    by (simp add: entry_of_def split: option.splits)
qed

lemma entry_of_append:
  "select_key po_order_id (pfl_order_id f) t \<noteq> None \<Longrightarrow> entry_of (t @ u) f = entry_of t f"
  by (auto simp: entry_of_def select_key_append split: option.splits)

lemma ledger_of_cong:
  "pst_state db' = pst_state db \<Longrightarrow> pst_positions db' = pst_positions db \<Longrightarrow> ledger_of db' = ledger_of db"
  by (simp add: ledger_of_def state_float_def paper_state_def position_of_def get_paper_position_def)

lemma ledger_inv_restatus: "ledger_inv c db \<Longrightarrow> ledger_inv c (update_order_status i st why db)"
  using ledger_of_cong[of "update_order_status i st why db" db]
  by (simp add: ledger_inv_def update_order_status_def entry_of_restatus)

lemma ledger_of_booked:
  assumes "book_fill od ts p q fee ccy a pnl db = Inr (res, db')"
  shows "ledger_of db' = ledger_put (po_symbol od) a (ledger_of db)"
  using book_fill_effect(4,5)[OF assms]
  by (auto simp: ledger_of_def ledger_put_def state_float_def float_of_state_def fun_eq_iff)

lemma ledger_inv_apply_fill:
  assumes inv: "ledger_inv c db" and ap: "paper_apply_fill i ts p q fee ccy db = Inr (res, db')"
  shows "ledger_inv c db'"
  using ap
proof (cases rule: paper_apply_fill_cases)
  case unchanged then show ?thesis using inv by simp
next
  case (rejected od a why) then show ?thesis using ledger_inv_restatus[OF inv] by simp
next
  case (booked od a a' pnl)
  note e = book_fill_effect[OF booked(5)]
  have sel: "select_key po_order_id i (pst_orders db) = Some od" using booked(1) by (simp add: order_by_order_id_def)
  have i: "po_order_id od = i" using order_by_order_id_mem[OF booked(1)] by simp
  have "ledger_step (entry_of (pst_orders db) (last (pst_fills db'))) (ledger_of db) = Some (ledger_of db')"
    using booked(4) load_account_ledger[OF booked(3)] ledger_of_booked[OF booked(5)]
    by (simp add: e(3) entry_of_def i sel ledger_step_def)
  then show ?thesis
    using inv unfolding ledger_inv_def e(2,3) entry_of_restatus by (simp add: ledger_run_snoc e(3))
qed

lemma ledger_inv_insert:
  assumes wf: "paper_wf db" and inv: "ledger_inv c db"
  shows "ledger_inv c (insert_paper_order now r db)"
proof -
  have "select_key po_order_id (pfl_order_id f) (pst_orders db) \<noteq> None" if "f \<in> set (pst_fills db)" for f
  proof -
    have "fill_of (pst_orders db) f" using wf that by (simp add: paper_wf_def list_all_iff)
    then show ?thesis unfolding fill_of_def select_key_None by force
  qed
  then have m: "map (entry_of (pst_orders db @ u)) (pst_fills db) = map (entry_of (pst_orders db)) (pst_fills db)" for u
    using entry_of_append by auto
  then show ?thesis
    using inv ledger_of_cong[of "insert_paper_order now r db" db]
    by (auto simp: ledger_inv_def insert_paper_order_def m simp del: map_eq_conv)
qed

section \<open>Bounds\<close>

lemma rnd64_double:
  assumes "rnd64 x = x"
  shows "rnd64 (2 * x) = 2 * x"
proof -
  have "representable 2 53 (- 1074) x"
    using round_sig_representable[of 2 53 "- 1074" x] assms by (simp add: rnd64_def)
  then obtain m e where x: "x = of_int m * 2 powi e" "\<bar>m\<bar> \<le> 2 ^ 53" "- 1074 \<le> e" by (auto simp: representable_def)
  have "2 * x = of_int m * 2 powi (e + 1)" using x(1) by (simp add: power_int_add)
  then have "representable 2 53 (- 1074) (2 * x)"
    unfolding representable_def using x by (intro exI[of _ m] exI[of _ "e + 1"]) simp
  then show ?thesis unfolding rnd64_def by (intro round_sig_exact) auto
qed

definition eps_rat :: rat where
  "eps_rat = rnd64 (1 / 10 ^ 9)"

lemma eps_rat: "0 \<le> eps_rat" "rnd64 eps_rat = eps_rat" "rnd64 (- (2 * eps_rat)) = - (2 * eps_rat)"
  using f64.nonneg[of "1 / 10 ^ 9"] rnd64_double[of eps_rat] by (simp_all add: eps_rat_def f64.idem f64.odd)

lemma cash_eps_Fin: "cash_eps = Fin eps_rat"
proof -
  have "eps_rat \<le> 1" unfolding eps_rat_def
    using f64.le_exact[of "1 / 10 ^ 9" 1] mk_float_of_int[of 1] mk_float_Fin[of 1 1] by simp
  then have "\<not> 2 ^ 1024 \<le> eps_rat" "\<not> eps_rat \<le> - (2 ^ 1024)" using eps_rat(1) by simp_all
  then show ?thesis unfolding cash_eps_def mk_float_def Let_def eps_rat_def by (simp only: if_False)
qed

lemma mk_float_Fin_wf: "mk_float x = Fin r \<Longrightarrow> r = rnd64 x \<and> \<bar>r\<bar> < 2 ^ 1024"
  using mk_float_Fin[of x r] wf_mk_float[of x] by simp

lemma fsub_Fin_D: "fsub x y = Fin r \<Longrightarrow> \<exists>a b. x = Fin a \<and> y = Fin b \<and> mk_float (a - b) = Fin r"
  by (cases x; cases y) (auto simp: fsub_def)

lemma fadd_Fin_D: "fadd x y = Fin r \<Longrightarrow> \<exists>a b. x = Fin a \<and> y = Fin b \<and> mk_float (a + b) = Fin r"
  by (cases x; cases y) auto

text \<open>The tolerance check lets a cost through that exceeds the balance by at most twice the tolerance.\<close>

lemma cash_check_slack:
  assumes c: "wf_float (Fin c)" and k: "\<bar>k\<bar> < 2 ^ 1024" and ok: "\<not> flt (fadd (Fin c) cash_eps) (Fin k)"
  shows "k \<le> c + 2 * eps_rat"
proof -
  have up: "rnd64 (c + eps_rat) \<le> c + 2 * eps_rat" using c eps_rat(1) by (intro rnd64_add_le) auto
  show ?thesis
  proof (cases "mk_float (c + eps_rat)")
    case (Fin r)
    then have "k \<le> r" using ok by (simp add: cash_eps_Fin)
    then show ?thesis using up mk_float_Fin[OF Fin] by simp
  next
    case PInf
    then have "2 ^ 1024 \<le> rnd64 (c + eps_rat)" by (auto simp: mk_float_def Let_def split: if_splits)
    then show ?thesis using up k by linarith
  qed (use ok in \<open>auto simp: cash_eps_Fin\<close>)
qed

definition cash_floor :: "pyfloat \<Rightarrow> bool" where
  "cash_floor x \<longleftrightarrow> wf_float x \<and> (\<forall>c. x = Fin c \<longrightarrow> - (2 * eps_rat) \<le> c)"

lemma paper_buy_floor:
  assumes b: "paper_buy p q fee a = StepBook a' pnl" and c: "cash_floor (pa_cash a)"
  shows "cash_floor (pa_cash a')"
proof -
  let ?cost = "fadd (fmul p q) fee"
  let ?left = "fsub (pa_cash a) ?cost"
  have ok: "\<not> flt (fadd (pa_cash a) cash_eps) ?cost"
    and a': "pa_cash a' = (if flt ?left (Fin 0) \<and> fle (fabs ?left) cash_eps then Fin 0 else ?left)"
    using b by (auto simp: paper_buy_def Let_def split: if_splits option.splits)
  have "- (2 * eps_rat) \<le> l" if l: "?left = Fin l" for l
  proof -
    obtain x k where xk: "pa_cash a = Fin x" "?cost = Fin k" "mk_float (x - k) = Fin l"
      using fsub_Fin_D[OF l] by blast
    have "k \<le> x + 2 * eps_rat"
      using cash_check_slack[of x k] ok c xk(1,2) wf_fadd[of "fmul p q" fee] by (simp add: cash_floor_def)
    then have "- (2 * eps_rat) \<le> rnd64 (x - k)" using eps_rat(3) by (intro f64.ge_exact) auto
    then show ?thesis using mk_float_Fin[OF xk(3)] by simp
  qed
  then show ?thesis using a' eps_rat(1) by (auto simp: cash_floor_def f64.zero)
qed

lemma paper_sell_floor:
  assumes b: "paper_sell p q fee a = StepBook a' pnl" and c: "cash_floor (pa_cash a)"
    and fee: "fle fee (fmul p q)"
  shows "cash_floor (pa_cash a')"
proof -
  let ?pro = "fsub (fmul p q) fee"
  have a': "pa_cash a' = fadd (pa_cash a) ?pro"
    using b by (auto simp: paper_sell_def Let_def split: if_splits)
  have "- (2 * eps_rat) \<le> l" if l: "fadd (pa_cash a) ?pro = Fin l" for l
  proof -
    obtain x r where xr: "pa_cash a = Fin x" "?pro = Fin r" "mk_float (x + r) = Fin l"
      using fadd_Fin_D[OF l] by blast
    obtain u v where uv: "fmul p q = Fin u" "fee = Fin v" "mk_float (u - v) = Fin r"
      using fsub_Fin_D[OF xr(2)] by blast
    have "0 \<le> r" using mk_float_Fin[OF uv(3)] fee uv by (simp add: f64.nonneg)
    then have "- (2 * eps_rat) \<le> rnd64 (x + r)" using eps_rat(3) c xr(1) by (intro f64.ge_exact) (auto simp: cash_floor_def)
    then show ?thesis using mk_float_Fin[OF xr(3)] by simp
  qed
  then show ?thesis using a' by (simp add: cash_floor_def)
qed

text \<open>A position never goes below zero.\<close>

lemma paper_buy_qty: "paper_buy p q fee a = StepBook a' pnl \<Longrightarrow> pa_qty a' = fadd (pa_qty a) q"
  by (auto simp: paper_buy_def Let_def split: if_splits option.splits)

lemma paper_sell_qty:
  "paper_sell p q fee a = StepBook a' pnl \<Longrightarrow> pa_qty a' = fsub (pa_qty a) q \<and> \<not> flt (pa_qty a) q"
  by (auto simp: paper_sell_def Let_def split: if_splits)

lemma fsub_ge_zero: "fle (Fin 0) x \<Longrightarrow> isfinite y \<Longrightarrow> \<not> flt x y \<Longrightarrow> fle (Fin 0) (fsub x y)"
  by (cases x; cases y) (auto simp: fsub_def mk_float_nonneg)

definition entry_ok :: "ledger_entry \<Rightarrow> bool" where
  "entry_ok e \<longleftrightarrow> flt (Fin 0) (le_qty e) \<and> isfinite (le_qty e) \<and> fle (le_fee e) (fmul (le_price e) (le_qty e))"

definition ledger_ok :: "paper_ledger \<Rightarrow> bool" where
  "ledger_ok L \<longleftrightarrow> cash_floor (lg_cash L) \<and> (\<forall>y. fle (Fin 0) (fst (lg_pos L y)))"

lemma ledger_step_ok:
  assumes L: "ledger_ok L" and e: "entry_ok e" and s: "ledger_step e L = Some L'"
  shows "ledger_ok L'"
proof -
  let ?a = "ledger_account (le_symbol e) L"
  obtain a pnl where a: "paper_fill_step (le_side e) (le_price e) (le_qty e) (le_fee e) ?a = StepBook a pnl"
    and L': "L' = ledger_put (le_symbol e) a L"
    using s by (auto simp: ledger_step_def split: booking.splits)
  have cash: "cash_floor (pa_cash ?a)" and q0: "fle (Fin 0) (pa_qty ?a)"
    using L spec[of "\<lambda>y. fle (Fin 0) (fst (lg_pos L y))" "le_symbol e"]
    by (auto simp: ledger_ok_def ledger_account_def Let_def split_beta)
  have "cash_floor (pa_cash a) \<and> fle (Fin 0) (pa_qty a)"
  proof (cases "le_side e = ''buy''")
    case True
    then have b: "paper_buy (le_price e) (le_qty e) (le_fee e) ?a = StepBook a pnl" using a by (simp add: paper_fill_step_def)
    show ?thesis
      using paper_buy_floor[OF b cash] paper_buy_qty[OF b] fadd_nonneg[OF q0 flt_imp_fle] e by (simp add: entry_ok_def)
  next
    case False
    then have b: "paper_sell (le_price e) (le_qty e) (le_fee e) ?a = StepBook a pnl" using a by (simp add: paper_fill_step_def)
    show ?thesis
      using paper_sell_floor[OF b cash] paper_sell_qty[OF b] fsub_ge_zero[OF q0] e by (simp add: entry_ok_def)
  qed
  then show ?thesis using L by (simp add: L' ledger_put_def ledger_ok_def)
qed

lemma ledger_run_ok:
  "ledger_ok L \<Longrightarrow> list_all entry_ok es \<Longrightarrow> ledger_run es L = Some L' \<Longrightarrow> ledger_ok L'"
proof (induction es arbitrary: L)
  case (Cons e es)
  then obtain M where "ledger_step e L = Some M" "ledger_run es M = Some L'" by (auto split: Option.bind_splits)
  then show ?case using Cons ledger_step_ok by auto
qed simp

lemma ledger_open_ok: "wf_float c \<Longrightarrow> fle (Fin 0) c \<Longrightarrow> ledger_ok (ledger_open c)"
  using eps_rat(1) by (auto simp: ledger_ok_def ledger_open_def cash_floor_def)

text \<open>\<open>fee = (price * qty) * (fee_bps / 10000.0)\<close> with a rate between zero and one is at most the turnover.\<close>

lemma fee_le_turnover:
  assumes "wf_float t" "fle (Fin 0) t" "fle (Fin 0) rate" "fle rate (Fin 1)" "isfinite t"
  shows "fle (fmul t rate) t"
proof -
  obtain x where x: "t = Fin x" "0 \<le> x" "rnd64 x = x" "\<bar>x\<bar> < 2 ^ 1024" using assms by (cases t) auto
  obtain r where r: "rate = Fin r" "0 \<le> r" "r \<le> 1" using assms by (cases rate) auto
  have "x * r \<le> x" using x(2) r by (simp add: mult_left_le)
  then have "rnd64 (x * r) \<le> x" using x(3) by (intro f64.le_exact)
  moreover have "0 \<le> rnd64 (x * r)" using x(2) r(2) by (intro f64.nonneg) simp
  ultimately show ?thesis using x r by (simp add: mk_float_def Let_def)
qed

end
