(* ===== verification/Market_Guards.thy ===== *)
theory Market_Guards
  imports Py_Format
begin

text \<open>
  The checks a paper order passes before it is recorded: the age of the market snapshot
  (services/risk/staleness\_guard.py), the quality of the quote (services/risk/market\_quality\_guard.py with
  \<open>mid_price\<close> of services/market\_data/tick\_reader.py) and the daily safety gates
  (services/execution/safety.py over storage/execution\_guard\_store\_sqlite.py). The snapshot file, the
  quote read from it, the configuration and the clock are arguments; timestamps are below \<open>2 ^ 1023\<close>.
\<close>

section \<open>Quotes\<close>

text \<open>A price of a quote is a JSON number, or a text, of which \<open>float\<close> makes a number or not.\<close>

datatype quote_num = QNum pyfloat | QText "pyfloat option"

definition float_of_quote :: "quote_num \<Rightarrow> pyfloat option" where
  "float_of_quote v = (case v of QNum x \<Rightarrow> Some x | QText x \<Rightarrow> x)"

record quote =
  q_ts_ms :: int
  q_bid :: "quote_num option"
  q_ask :: "quote_num option"
  q_last :: "quote_num option"

text \<open>\<open>(b + a) / 2.0\<close>; the divisor is not zero, so the division does not raise.\<close>

definition half_sum :: "pyfloat \<Rightarrow> pyfloat \<Rightarrow> pyfloat" where
  "half_sum b a = (case fdiv (fadd b a) (Fin 2) of Some m \<Rightarrow> m | None \<Rightarrow> NaN)"

definition mid_price :: "quote \<Rightarrow> pyfloat option" where
  "mid_price q =
     (case (q_bid q, q_ask q) of
        (Some b, Some a) \<Rightarrow>
          (case (float_of_quote b, float_of_quote a) of (Some x, Some y) \<Rightarrow> Some (half_sum x y) | _ \<Rightarrow> None)
      | _ \<Rightarrow> (case q_last q of None \<Rightarrow> None | Some l \<Rightarrow> float_of_quote l))"

section \<open>Snapshot age\<close>

text \<open>The snapshot file: absent, unreadable (with the name of the exception), or its \<open>ts_ms\<close> (0 when
  missing).\<close>

datatype snapshot_file = NoFile | BadFile string | SnapTs int

text \<open>\<open>(time.time() * 1000 - ts_ms) / 1000\<close>\<close>

definition age_seconds :: "pyfloat \<Rightarrow> int \<Rightarrow> pyfloat" where
  "age_seconds now ts =
     (case fdiv (fsub (fmul now (Fin 1000)) (mk_float (of_int ts))) (Fin 1000) of Some a \<Rightarrow> a | None \<Rightarrow> NaN)"

definition is_snapshot_fresh :: "pyfloat \<Rightarrow> pyfloat \<Rightarrow> snapshot_file \<Rightarrow> bool \<times> string option" where
  "is_snapshot_fresh now max_age_sec f =
     (case f of
        NoFile \<Rightarrow> (False, Some ''snapshot_missing'')
      | BadFile e \<Rightarrow> (False, Some (''parse_error:'' @ e))
      | SnapTs ts \<Rightarrow>
          if ts = 0 then (False, Some ''no_ts_ms'')
          else (let age = age_seconds now ts
                in if flt max_age_sec age then (False, Some (''stale:'' @ fixed_text 1 age @ ''s'')) else (True, None)))"

section \<open>Market quality\<close>

record mq_cfg =
  mc_enabled :: bool
  mc_max_tick_age_sec :: "quote_num option"
  mc_max_spread_bps :: "quote_num option"
  mc_require_bid_ask :: bool
  mc_block_when_unknown :: bool

record mq_result =
  mq_ok :: bool
  mq_reason :: "string option"
  mq_age_sec :: "pyfloat option"
  mq_spread_bps :: "pyfloat option"
  mq_last :: "quote_num option"
  mq_price_used :: "quote_num option"

definition mq_plain :: "bool \<Rightarrow> string \<Rightarrow> mq_result" where
  "mq_plain ok reason = \<lparr>mq_ok = ok, mq_reason = Some reason, mq_age_sec = None, mq_spread_bps = None,
     mq_last = None, mq_price_used = None\<rparr>"

text \<open>A threshold is usable when \<open>float\<close> accepts it and it is finite and positive.\<close>

definition usable_threshold :: "quote_num option \<Rightarrow> pyfloat option" where
  "usable_threshold v =
     (case Option.bind v float_of_quote of
        None \<Rightarrow> None
      | Some x \<Rightarrow> if \<not> isfinite x \<or> fle x (Fin 0) then None else Some x)"

text \<open>The mid price when both sides are there, \<open>last\<close> otherwise; the first component is False when the two
  sides do not convert.\<close>

definition guard_price :: "quote \<Rightarrow> bool \<times> quote_num option" where
  "guard_price q =
     (case (q_bid q, q_ask q) of
        (Some b, Some a) \<Rightarrow>
          (case (float_of_quote b, float_of_quote a) of
             (Some x, Some y) \<Rightarrow> (True, Some (QNum (half_sum x y))) | _ \<Rightarrow> (False, q_last q))
      | _ \<Rightarrow> (True, q_last q))"

text \<open>\<open>((ask - bid) / bid) * 10000\<close>: Some None when there is no bid or no ask, None when the computation
  raises.\<close>

definition guard_spread :: "quote \<Rightarrow> pyfloat option option" where
  "guard_spread q =
     (case (q_bid q, q_ask q) of
        (Some b, Some a) \<Rightarrow>
          (case (float_of_quote a, float_of_quote b) of
             (Some y, Some x) \<Rightarrow>
               (case fdiv (fsub y x) x of None \<Rightarrow> None | Some r \<Rightarrow> Some (Some (fmul r (Fin 10000))))
           | _ \<Rightarrow> None)
      | _ \<Rightarrow> Some None)"

text \<open>\<open>price is None or price <= 0\<close>; comparing a text with a number raises.\<close>

definition unusable_price :: "quote_num option \<Rightarrow> exn + bool" where
  "unusable_price v =
     (case v of None \<Rightarrow> Inr True | Some (QNum x) \<Rightarrow> Inr (fle x (Fin 0))
      | Some (QText _) \<Rightarrow> Inl (TypeError ''<= not supported between str and int''))"

definition mq_quote_check :: "pyfloat \<Rightarrow> mq_cfg \<Rightarrow> pyfloat \<Rightarrow> pyfloat \<Rightarrow> quote \<Rightarrow> exn + mq_result" where
  "mq_quote_check now cfg max_age max_spread q =
     (let fail = (\<lambda>reason. (mq_plain False reason)\<lparr>mq_last := q_last q\<rparr>);
          age = age_seconds now (q_ts_ms q);
          (converted, price) = guard_price q
      in if mc_require_bid_ask cfg \<and> (q_bid q = None \<or> q_ask q = None) then Inr (fail ''missing_bid_ask'')
         else if \<not> converted \<and> mc_block_when_unknown cfg then Inr (fail ''invalid_bid_ask'')
         else case unusable_price price of
                Inl e \<Rightarrow> Inl e
              | Inr True \<Rightarrow>
                  Inr (if mc_block_when_unknown cfg then fail ''no_usable_price'' else mq_plain True ''no_usable_price'')
              | Inr False \<Rightarrow>
             (let spread = guard_spread q
              in if spread = None \<and> mc_block_when_unknown cfg then Inr (fail ''spread_calc_failed'')
                 else if (case spread of Some (Some s) \<Rightarrow> flt max_spread s | _ \<Rightarrow> False)
                      then Inr (mq_plain False ''spread_too_wide'')
                 else if 0 < q_ts_ms q \<and> flt max_age age
                      then Inr ((mq_plain False ''stale_tick'')\<lparr>mq_age_sec := Some age\<rparr>)
                 else Inr \<lparr>mq_ok = True, mq_reason = None, mq_age_sec = (if 0 < q_ts_ms q then Some age else None),
                           mq_spread_bps = Option.bind spread id, mq_last = q_last q, mq_price_used = price\<rparr>))"

text \<open>\<open>check\<close>: the thresholds of the symbol (\<open>per\<close>) override the general ones; the quote is None when
  \<open>get_best_bid_ask_last\<close> finds none.\<close>

definition mq_check ::
    "pyfloat \<Rightarrow> mq_cfg \<Rightarrow> (quote_num option \<times> quote_num option) option \<Rightarrow> quote option \<Rightarrow> exn + mq_result" where
  "mq_check now cfg per quote =
     (let (age_cfg, spread_cfg) =
        (case per of None \<Rightarrow> (mc_max_tick_age_sec cfg, mc_max_spread_bps cfg)
         | Some (a, s) \<Rightarrow> (coalesce a (mc_max_tick_age_sec cfg), coalesce s (mc_max_spread_bps cfg)))
      in if \<not> mc_enabled cfg then Inr (mq_plain True ''guard_disabled'')
         else case usable_threshold age_cfg of
                None \<Rightarrow> Inr (mq_plain False ''invalid_threshold:max_tick_age_sec'')
              | Some max_age \<Rightarrow>
             (case usable_threshold spread_cfg of
                None \<Rightarrow> Inr (mq_plain False ''invalid_threshold:max_spread_bps'')
              | Some max_spread \<Rightarrow>
             (case quote of
                None \<Rightarrow> Inr (mq_plain (\<not> mc_block_when_unknown cfg) ''no_quote_data'')
              | Some q \<Rightarrow> mq_quote_check now cfg max_age max_spread q)))"

text \<open>The historical \<open>(ok, reason)\<close> answer.\<close>

definition check_market_quality ::
    "pyfloat \<Rightarrow> mq_cfg \<Rightarrow> (quote_num option \<times> quote_num option) option \<Rightarrow> quote option \<Rightarrow> exn + bool \<times> string" where
  "check_market_quality now cfg per quote =
     (case mq_check now cfg per quote of Inl e \<Rightarrow> Inl e | Inr r \<Rightarrow> Inr (mq_ok r, opt_str_or (mq_reason r) ''ok''))"

section \<open>Daily safety gates\<close>

record day_metrics =
  dm_day :: string
  dm_trades :: int
  dm_approx_realized_pnl :: pyfloat
  dm_updated_ts :: string

record guard_event =
  ge_ts :: string
  ge_venue :: string
  ge_symbol :: string
  ge_side :: string
  ge_qty :: pyfloat
  ge_price :: pyfloat
  ge_notional :: pyfloat

record guard_store =
  gs_days :: "day_metrics list"
  gs_events :: "guard_event list"

definition bump_day :: "string \<Rightarrow> string \<Rightarrow> int \<Rightarrow> pyfloat \<Rightarrow> (pyfloat \<Rightarrow> pyfloat) \<Rightarrow> guard_store \<Rightarrow> exn + guard_store" where
  "bump_day day now n first pnl gs =
     (case select_key dm_day day (gs_days gs) of
        None \<Rightarrow>
          if first = NaN then Inl (IntegrityError ''NOT NULL constraint failed: day_metrics.approx_realized_pnl'')
          else Inr (gs\<lparr>gs_days := gs_days gs @ [\<lparr>dm_day = day, dm_trades = n, dm_approx_realized_pnl = first, dm_updated_ts = now\<rparr>]\<rparr>)
      | Some r \<Rightarrow>
          if pnl (dm_approx_realized_pnl r) = NaN
          then Inl (IntegrityError ''NOT NULL constraint failed: day_metrics.approx_realized_pnl'')
          else Inr (gs\<lparr>gs_days := upd_where (\<lambda>d. dm_day d = day)
                 (\<lambda>d. d\<lparr>dm_trades := dm_trades r + n, dm_approx_realized_pnl := pnl (dm_approx_realized_pnl r), dm_updated_ts := now\<rparr>)
                 (gs_days gs)\<rparr>))"

definition record_trade_attempt :: "string \<Rightarrow> string \<Rightarrow> guard_store \<Rightarrow> exn + guard_store" where
  "record_trade_attempt day now gs = bump_day day now 1 (Fin 0) id gs"

definition guard_add_realized_pnl :: "string \<Rightarrow> string \<Rightarrow> pyfloat \<Rightarrow> guard_store \<Rightarrow> exn + guard_store" where
  "guard_add_realized_pnl day now delta gs = bump_day day now 0 delta (\<lambda>p. fadd p delta) gs"

text \<open>A stored profit is not \<open>NULL\<close>, so the update of the day after the insertion of the event does not fail.\<close>

definition guard_record_order ::
    "string \<Rightarrow> string \<Rightarrow> string \<Rightarrow> string \<Rightarrow> string \<Rightarrow> pyfloat \<Rightarrow> pyfloat \<Rightarrow> guard_store \<Rightarrow> exn + guard_store" where
  "guard_record_order day now venue symbol side qty price gs =
     (let notional = fmul qty price
      in if qty = NaN \<or> price = NaN \<or> notional = NaN then Inl (IntegrityError ''NOT NULL constraint failed: events'')
         else bump_day day now 1 (Fin 0) id
                (gs\<lparr>gs_events := gs_events gs @ [\<lparr>ge_ts = now, ge_venue = venue, ge_symbol = symbol, ge_side = side,
                    ge_qty = qty, ge_price = price, ge_notional = notional\<rparr>]\<rparr>))"

definition get_today_metrics :: "string \<Rightarrow> guard_store \<Rightarrow> int \<times> pyfloat" where
  "get_today_metrics day gs =
     (case select_key dm_day day (gs_days gs) of
        None \<Rightarrow> (0, Fin 0) | Some r \<Rightarrow> (dm_trades r, dm_approx_realized_pnl r))"

record safety_gates =
  sg_min_order_notional :: pyfloat
  sg_max_trades_per_day :: int
  sg_max_daily_loss :: pyfloat
  sg_prefer_journal_pnl :: bool

definition should_allow_order ::
    "string \<Rightarrow> pyfloat \<Rightarrow> pyfloat \<Rightarrow> safety_gates \<Rightarrow> guard_store \<Rightarrow> bool \<times> string" where
  "should_allow_order day qty price gates gs =
     (let notional = fmul qty price;
          (trades, pnl) = get_today_metrics day gs
      in if sg_min_order_notional gates \<noteq> Fin 0 \<and> flt notional (sg_min_order_notional gates)
           then (False, ''min_order_notional'')
         else if sg_max_trades_per_day gates \<noteq> 0 \<and> sg_max_trades_per_day gates \<le> trades
           then (False, ''max_trades_per_day'')
         else if sg_max_daily_loss gates \<noteq> Fin 0 \<and> flt (Fin 0) (sg_max_daily_loss gates) \<and>
                 fle pnl (fneg (sg_max_daily_loss gates))
           then (False, ''max_daily_loss'')
         else (True, ''ok''))"

section \<open>Properties\<close>

lemma usable_thresholdD: "usable_threshold v = Some x \<Longrightarrow> isfinite x \<and> flt (Fin 0) x"
  by (cases x) (auto simp: usable_threshold_def split: option.splits if_splits)

text \<open>The quote part of the check passes only with a price, and within both limits.\<close>

lemma mq_quote_check_pass:
  assumes "mq_quote_check now cfg max_age max_spread q = Inr r" "mq_ok r" "mc_block_when_unknown cfg"
  shows "\<exists>x. mq_price_used r = Some (QNum x) \<and> \<not> fle x (Fin 0) \<and>
     (0 < q_ts_ms q \<longrightarrow> \<not> flt max_age (age_seconds now (q_ts_ms q))) \<and>
     (q_bid q \<noteq> None \<and> q_ask q \<noteq> None \<longrightarrow> (\<exists>s. mq_spread_bps r = Some s \<and> \<not> flt max_spread s))"
proof -
  obtain conv price where gp: "guard_price q = (conv, price)" by (cases "guard_price q")
  have up: "unusable_price price = Inr False"
    using assms gp by (auto simp: mq_quote_check_def mq_plain_def Let_def split: if_splits sum.splits bool.splits)
  then obtain x where x: "price = Some (QNum x)" "\<not> fle x (Fin 0)"
    by (auto simp: unusable_price_def split: option.splits quote_num.splits)
  obtain sp where sp: "guard_spread q = Some sp"
    using assms gp up by (cases "guard_spread q") (auto simp: mq_quote_check_def mq_plain_def Let_def split: if_splits)
  have r: "mq_price_used r = price" "mq_spread_bps r = sp" "\<not> (0 < q_ts_ms q \<and> flt max_age (age_seconds now (q_ts_ms q)))"
      "\<not> (case sp of Some s \<Rightarrow> flt max_spread s | None \<Rightarrow> False)"
    using assms gp up sp by (auto simp: mq_quote_check_def mq_plain_def Let_def split: if_splits)
  have "sp \<noteq> None" if "q_bid q \<noteq> None" "q_ask q \<noteq> None"
    using sp that by (auto simp: guard_spread_def split: option.splits)
  then show ?thesis using r x by auto
qed

text \<open>With the guard enabled and \<open>block_when_unknown\<close> set, the market quality guard fails closed: it passes
  only with usable thresholds and a quote whose price is not zero or negative, whose tick is not older than
  the limit when it has a timestamp, and whose spread is not above the limit when both sides are quoted.
  Garbage thresholds, a missing quote and unconvertible prices are refused.\<close>

theorem market_quality_fails_closed:
  assumes "mq_check now cfg per quote = Inr r" "mq_ok r" "mc_enabled cfg" "mc_block_when_unknown cfg"
  shows "\<exists>q x max_age max_spread. quote = Some q \<and> mq_price_used r = Some (QNum x) \<and> \<not> fle x (Fin 0) \<and>
     isfinite max_age \<and> flt (Fin 0) max_age \<and> isfinite max_spread \<and> flt (Fin 0) max_spread \<and>
     (0 < q_ts_ms q \<longrightarrow> \<not> flt max_age (age_seconds now (q_ts_ms q))) \<and>
     (q_bid q \<noteq> None \<and> q_ask q \<noteq> None \<longrightarrow> (\<exists>s. mq_spread_bps r = Some s \<and> \<not> flt max_spread s))"
proof -
  obtain ac sc where cs: "(case per of None \<Rightarrow> (mc_max_tick_age_sec cfg, mc_max_spread_bps cfg)
       | Some (a, s) \<Rightarrow> (coalesce a (mc_max_tick_age_sec cfg), coalesce s (mc_max_spread_bps cfg))) = (ac, sc)"
    by (metis surj_pair)
  obtain ma ms q where t: "usable_threshold ac = Some ma" "usable_threshold sc = Some ms" "quote = Some q"
    and m: "mq_quote_check now cfg ma ms q = Inr r"
    using assms cs unfolding mq_check_def
    by (auto simp: mq_plain_def split: option.splits if_splits)
  show ?thesis
    using mq_quote_check_pass[OF m assms(2,4)] usable_thresholdD[OF t(1)] usable_thresholdD[OF t(2)] t(3) by blast
qed

lemma mk_float_small: "\<bar>numeral k :: int\<bar> \<le> 2 ^ 53 \<Longrightarrow> mk_float (numeral k) = Fin (numeral k)"
  using mk_float_of_int[of "numeral k"] by simp

lemma mk_float_one: "mk_float 1 = Fin 1"
  using mk_float_of_int[of 1] by simp

definition sample_mq_cfg :: mq_cfg where
  "sample_mq_cfg = \<lparr>mc_enabled = True, mc_max_tick_age_sec = Some (QNum (Fin 600)), mc_max_spread_bps = Some (QNum (Fin 500)),
     mc_require_bid_ask = False, mc_block_when_unknown = True\<rparr>"

definition sample_quote :: quote where
  "sample_quote = \<lparr>q_ts_ms = 1000, q_bid = Some (QNum (Fin 90)), q_ask = Some (QNum (Fin 90)), q_last = None\<rparr>"

lemma sample_age: "age_seconds (Fin 1) 1000 = Fin 0"
  by (simp add: age_seconds_def fsub_def mk_float_small)

lemma sample_mq: "mq_check (Fin 1) sample_mq_cfg None (Some sample_quote) =
  Inr \<lparr>mq_ok = True, mq_reason = None, mq_age_sec = Some (Fin 0), mq_spread_bps = Some (Fin 0), mq_last = None,
    mq_price_used = Some (QNum (Fin 90))\<rparr>"
  by (simp add: mq_check_def sample_mq_cfg_def sample_quote_def usable_threshold_def float_of_quote_def mq_quote_check_def
     guard_price_def guard_spread_def half_sum_def unusable_price_def sample_age fsub_def mk_float_small mq_plain_def Let_def)

theorem market_quality_fails_closed_witness:
  "\<exists>r x. mq_check (Fin 1) sample_mq_cfg None (Some sample_quote) = Inr r \<and> mq_price_used r = Some (QNum x) \<and> \<not> fle x (Fin 0)"
  using market_quality_fails_closed[OF sample_mq] sample_mq by (simp add: sample_mq_cfg_def)

text \<open>A tick from the future, however far, is never stale: its age is negative. The same holds of the snapshot.\<close>

lemma future_tick_never_stale:
  assumes "flt (fmul now (Fin 1000)) (mk_float (of_int ts))" "0 \<le> m"
  shows "\<not> flt (Fin m) (age_seconds now ts)"
proof -
  have "fle (fsub (fmul now (Fin 1000)) (mk_float (of_int ts))) (Fin 0) \<or> fsub (fmul now (Fin 1000)) (mk_float (of_int ts)) = NaN"
    using assms(1) by (cases "fmul now (Fin 1000)"; cases "mk_float (of_int ts)") (auto simp: fsub_def mk_float_nonpos)
  then have "fle (age_seconds now ts) (Fin 0) \<or> age_seconds now ts = NaN"
    by (cases "fsub (fmul now (Fin 1000)) (mk_float (of_int ts))")
      (auto simp: age_seconds_def inf_of_sign_def intro: mk_float_nonpos)
  then show ?thesis using assms(2) by (cases "age_seconds now ts") auto
qed

end
