(* ===== verification/Paper_Engine.thy ===== *)
theory Paper_Engine
  imports Paper_Ledger Market_Guards
begin

text \<open>
  services/execution/paper\_engine.py: the simulated exchange. \<open>submit_order\<close> records an order after the
  pre-submit gate, \<open>cancel_order\<close> cancels it, \<open>evaluate_open_orders\<close> fills open orders at the quoted
  prices, \<open>mark_to_market\<close> records the equity. The state is the store of Paper\_Trading\_Store; the
  configuration, the answers of the guards, the quotes, the clock and the fresh order id are arguments.
  Evidence logging (best effort, its exceptions are swallowed) and the closing of exchange handles are
  not modelled.
\<close>

section \<open>Configuration and state\<close>

record paper_cfg =
  pc_enabled :: bool
  pc_quote_currency :: string
  pc_starting_cash_quote :: pyfloat
  pc_fee_bps :: pyfloat
  pc_slippage_bps :: pyfloat
  pc_use_ccxt_fallback :: bool
  pc_max_order_qty :: pyfloat
  pc_strategy_id :: string

definition ensure_cash_initialized :: "paper_cfg \<Rightarrow> paper_store \<Rightarrow> paper_store" where
  "ensure_cash_initialized cfg db =
     (let db1 = (if paper_state ''cash_quote'' db = None
                 then set_paper_state ''cash_quote'' (Reads (pc_starting_cash_quote cfg)) db else db)
      in if paper_state ''realized_pnl'' db1 = None then set_paper_state ''realized_pnl'' (Reads (Fin 0)) db1 else db1)"

text \<open>\<open>cash_quote\<close> and \<open>realized_pnl\<close>: an unreadable text counts as zero.\<close>

definition read_state :: "string \<Rightarrow> paper_store \<Rightarrow> pyfloat" where
  "read_state k db = (case paper_state k db of Some (Reads x) \<Rightarrow> x | _ \<Rightarrow> Fin 0)"

definition cash_quote :: "paper_store \<Rightarrow> pyfloat" where
  "cash_quote db = read_state ''cash_quote'' db"

definition realized_pnl :: "paper_store \<Rightarrow> pyfloat" where
  "realized_pnl db = read_state ''realized_pnl'' db"

text \<open>The two setters; nothing in the engine calls them.\<close>

definition set_cash_quote :: "pyfloat \<Rightarrow> paper_store \<Rightarrow> paper_store" where
  "set_cash_quote x db = set_paper_state ''cash_quote'' (Reads x) db"

definition set_realized_pnl :: "pyfloat \<Rightarrow> paper_store \<Rightarrow> paper_store" where
  "set_realized_pnl x db = set_paper_state ''realized_pnl'' (Reads x) db"

lemma cash_quote_set: "cash_quote (set_cash_quote x db) = x" "realized_pnl (set_realized_pnl x db) = x"
  by (simp_all add: cash_quote_def set_cash_quote_def realized_pnl_def set_realized_pnl_def read_state_def)

text \<open>\<open>x / 10000.0\<close>; the divisor is not zero.\<close>

definition bps_rate :: "pyfloat \<Rightarrow> pyfloat" where
  "bps_rate x = (case fdiv x (Fin 10000) of Some r \<Rightarrow> r | None \<Rightarrow> NaN)"

text \<open>\<open>_price\<close>: the quote of the snapshot, else that of the exchange when the fallback is on; None when
  there is none. The exchange call may raise.\<close>

definition engine_price :: "paper_cfg \<Rightarrow> quote option \<Rightarrow> (exn + quote) \<Rightarrow> exn + quote option" where
  "engine_price cfg snapshot exchange =
     (case snapshot of
        Some q \<Rightarrow> Inr (Some q)
      | None \<Rightarrow>
          if \<not> pc_use_ccxt_fallback cfg then Inr None
          else case exchange of Inl e \<Rightarrow> Inl e | Inr q \<Rightarrow> Inr (Some q))"

section \<open>The pre-submit gate\<close>

text \<open>What the gate asks the rest of the system: the snapshot file, the master read-only switch, the
  inputs of the market quality guard, and the gates with their store (or the name of the exception that
  loading them raised).\<close>

record gate_env =
  ge_now :: pyfloat
  ge_day :: string
  ge_snapshot :: snapshot_file
  ge_read_only :: bool
  ge_mq_cfg :: mq_cfg
  ge_mq_per :: "(quote_num option \<times> quote_num option) option"
  ge_quote :: "quote option"
  ge_gates :: "string + safety_gates \<times> guard_store"

definition reference_price :: "pyfloat option \<Rightarrow> mq_result \<Rightarrow> pyfloat option" where
  "reference_price limit_price mq =
     (case (case limit_price of Some p \<Rightarrow> Some (QNum p) | None \<Rightarrow> coalesce (mq_price_used mq) (mq_last mq)) of
        None \<Rightarrow> None
      | Some v \<Rightarrow>
         (case float_of_quote v of
            None \<Rightarrow> None
          | Some x \<Rightarrow> if \<not> isfinite x \<or> fle x (Fin 0) then None else Some x))"

definition safety_answer :: "gate_env \<Rightarrow> pyfloat \<Rightarrow> pyfloat \<Rightarrow> bool \<times> string" where
  "safety_answer env qty ref =
     (case ge_gates env of
        Inl e \<Rightarrow> (False, ''safety_check_error_fail_closed:'' @ e)
      | Inr (gates, gs) \<Rightarrow> should_allow_order (ge_day env) qty ref gates gs)"

definition estimated_cost :: "paper_cfg \<Rightarrow> string \<Rightarrow> pyfloat option \<Rightarrow> pyfloat \<Rightarrow> pyfloat \<Rightarrow> pyfloat" where
  "estimated_cost cfg order_type limit_price ref qty =
     (let fill_price = (if order_type = ''limit'' then (case limit_price of Some p \<Rightarrow> p | None \<Rightarrow> Fin 0)
                        else fmul ref (fadd (Fin 1) (bps_rate (pc_slippage_bps cfg))))
      in fmul (fmul fill_price qty) (fadd (Fin 1) (bps_rate (pc_fee_bps cfg))))"

definition funds_check ::
    "paper_cfg \<Rightarrow> string \<Rightarrow> string \<Rightarrow> string \<Rightarrow> pyfloat \<Rightarrow> pyfloat option \<Rightarrow> pyfloat \<Rightarrow> paper_store \<Rightarrow> bool \<times> string option" where
  "funds_check cfg symbol order_type side qty limit_price ref db =
     (if side = ''buy''
      then if flt (cash_quote db) (estimated_cost cfg order_type limit_price ref qty)
           then (False, Some ''insufficient_cash'') else (True, None)
      else if side = ''sell''
      then if flt (fst (position_of (strip symbol) db)) qty then (False, Some ''insufficient_position'') else (True, None)
      else (True, None))"

definition pre_submit_gate ::
    "gate_env \<Rightarrow> paper_cfg \<Rightarrow> string \<Rightarrow> string \<Rightarrow> string \<Rightarrow> pyfloat \<Rightarrow> pyfloat option \<Rightarrow> paper_store \<Rightarrow>
     exn + bool \<times> string option" where
  "pre_submit_gate env cfg symbol order_type side qty limit_price db =
     (case is_snapshot_fresh (ge_now env) (Fin 5) (ge_snapshot env) of
        (False, why) \<Rightarrow> Inr (False, Some (''staleness:'' @ (case why of Some w \<Rightarrow> w | None \<Rightarrow> ''None'')))
      | (True, _) \<Rightarrow>
        if ge_read_only env then Inr (False, Some ''master_read_only'')
        else case mq_check (ge_now env) (ge_mq_cfg env) (ge_mq_per env) (ge_quote env) of
          Inl e \<Rightarrow> Inl e
        | Inr mq \<Rightarrow>
          if \<not> mq_ok mq then Inr (False, Some (''market_quality:'' @ opt_str_or (mq_reason mq) ''blocked''))
          else case reference_price limit_price mq of
            None \<Rightarrow> Inr (False, Some ''market_quality:no_reference_price'')
          | Some ref \<Rightarrow>
             (case safety_answer env qty ref of
                (False, why) \<Rightarrow> Inr (False, Some (''safety:'' @ why))
              | (True, _) \<Rightarrow> Inr (funds_check cfg symbol order_type side qty limit_price ref db)))"

section \<open>Submitting and cancelling\<close>

record submit_args =
  sa_client_order_id :: string
  sa_venue :: string
  sa_symbol :: string
  sa_side :: string
  sa_order_type :: string
  sa_qty :: pyfloat
  sa_limit_price :: "pyfloat option"
  sa_ts :: "string option"
  sa_strategy_id :: "string option"
  sa_meta :: "json option"

datatype submit_result =
    SubmitRefused string
  | SubmitExisting paper_order
  | SubmitNew "paper_order option"

text \<open>The checks on the arguments, in the order of the code.\<close>

definition bad_args :: "paper_cfg \<Rightarrow> submit_args \<Rightarrow> string option" where
  "bad_args cfg a =
     (let side = strip (lower (sa_side a));
          order_type = strip (lower (sa_order_type a));
          qty = sa_qty a
      in if side \<noteq> ''buy'' \<and> side \<noteq> ''sell'' then Some ''bad_side''
         else if order_type \<noteq> ''market'' \<and> order_type \<noteq> ''limit'' then Some ''bad_order_type''
         else if \<not> flt (Fin 0) qty \<or> \<not> isfinite qty then Some ''bad_qty''
         else if flt (pc_max_order_qty cfg) qty then Some ''qty_exceeds_max''
         else if order_type = ''limit''
           then (case sa_limit_price a of
                   None \<Rightarrow> Some ''missing_limit_price''
                 | Some p \<Rightarrow> if \<not> flt (Fin 0) p \<or> \<not> isfinite p then Some ''bad_limit_price'' else None)
         else None)"

definition order_of_args :: "paper_cfg \<Rightarrow> string \<Rightarrow> string \<Rightarrow> submit_args \<Rightarrow> paper_order" where
  "order_of_args cfg oid clock a =
     \<lparr>po_order_id = oid, po_client_order_id = sa_client_order_id a, po_created_ts = '''',
      po_ts = opt_str_or (sa_ts a) clock, po_venue = strip (lower (sa_venue a)), po_symbol = strip (sa_symbol a),
      po_side = strip (lower (sa_side a)), po_order_type = strip (lower (sa_order_type a)), po_qty = sa_qty a,
      po_limit_price = sa_limit_price a, po_status = ''new'', po_reject_reason = None,
      po_strategy_id = opt_or (sa_strategy_id a) (Some (pc_strategy_id cfg)), po_meta = sa_meta a\<rparr>"

text \<open>\<open>clock\<close> is the engine's clock, \<open>now\<close> the store's, \<open>oid\<close> the fresh uuid.\<close>

definition submit_paper_order ::
    "gate_env \<Rightarrow> paper_cfg \<Rightarrow> string \<Rightarrow> string \<Rightarrow> string \<Rightarrow> submit_args \<Rightarrow> paper_store \<Rightarrow>
     exn + submit_result \<times> paper_store" where
  "submit_paper_order env cfg oid clock now a db =
     (case order_by_client_id (sa_client_order_id a) db of
        Some r \<Rightarrow> Inr (SubmitExisting r, db)
      | None \<Rightarrow>
        (case bad_args cfg a of
           Some why \<Rightarrow> Inr (SubmitRefused why, db)
         | None \<Rightarrow>
           (case pre_submit_gate env cfg (sa_symbol a) (strip (lower (sa_order_type a))) (strip (lower (sa_side a)))
                   (sa_qty a) (sa_limit_price a) db of
              Inl e \<Rightarrow> Inl e
            | Inr (False, why) \<Rightarrow> Inr (SubmitRefused (opt_str_or why ''paper_submit_gate_blocked''), db)
            | Inr (True, _) \<Rightarrow>
                (let db' = insert_paper_order now (order_of_args cfg oid clock a) db
                 in Inr (SubmitNew (order_by_client_id (sa_client_order_id a) db'), db')))))"

datatype cancel_result = CancelNotFound | CancelFinal paper_order | CancelDone "paper_order option"

definition cancel_order :: "string \<Rightarrow> paper_store \<Rightarrow> cancel_result \<times> paper_store" where
  "cancel_order c db =
     (case order_by_client_id c db of
        None \<Rightarrow> (CancelNotFound, db)
      | Some r \<Rightarrow>
          if po_status r \<in> {''filled'', ''canceled'', ''rejected''} then (CancelFinal r, db)
          else (let db' = update_order_status (po_order_id r) ''canceled'' None db
                in (CancelDone (order_by_client_id c db'), db')))"

section \<open>Filling open orders\<close>

definition engine_apply_fill ::
    "paper_cfg \<Rightarrow> string \<Rightarrow> paper_order \<Rightarrow> pyfloat \<Rightarrow> pyfloat \<Rightarrow> paper_store \<Rightarrow> exn + paper_fill_result \<times> paper_store" where
  "engine_apply_fill cfg clock r price qty db =
     (let fee = fmul (fmul price qty) (bps_rate (pc_fee_bps cfg))
      in paper_apply_fill (po_order_id r) clock price qty fee (pc_quote_currency cfg) db)"

text \<open>The price at which a quote fills an order, if it does. Converting a bid or an ask may raise.\<close>

definition conv_side :: "quote_num option \<Rightarrow> pyfloat \<Rightarrow> exn + pyfloat" where
  "conv_side v m =
     (case v of None \<Rightarrow> Inr m
      | Some x \<Rightarrow> (case float_of_quote x of None \<Rightarrow> Inl (ValueError ''could not convert string to float'') | Some y \<Rightarrow> Inr y))"

definition fill_price :: "paper_cfg \<Rightarrow> paper_order \<Rightarrow> quote \<Rightarrow> pyfloat \<Rightarrow> exn + pyfloat option" where
  "fill_price cfg r q m =
     (let slip = bps_rate (pc_slippage_bps cfg)
      in if po_order_type r = ''market''
         then Inr (Some (if po_side r = ''buy'' then fmul m (fadd (Fin 1) slip) else fmul m (fsub (Fin 1) slip)))
         else case conv_side (q_bid q) m of
                Inl e \<Rightarrow> Inl e
              | Inr px_bid \<Rightarrow>
             (case conv_side (q_ask q) m of
                Inl e \<Rightarrow> Inl e
              | Inr px_ask \<Rightarrow>
                  (let lim = (case po_limit_price r of Some p \<Rightarrow> p | None \<Rightarrow> Fin 0)
                   in Inr (if po_side r = ''buy''
                           then if fle px_ask lim then Some (pymin lim px_ask) else None
                           else if fle lim px_bid then Some (pymax lim px_bid) else None))))"

record eval_report =
  ev_seen :: nat
  ev_filled :: nat
  ev_rejected :: nat
  ev_details :: "(string \<times> paper_fill_result) list"

text \<open>\<open>quotes\<close> answers \<open>_price\<close> for each order.\<close>

fun eval_orders ::
    "paper_cfg \<Rightarrow> string \<Rightarrow> (paper_order \<Rightarrow> exn + quote option) \<Rightarrow> paper_order list \<Rightarrow> eval_report \<Rightarrow> paper_store \<Rightarrow>
     (exn + eval_report) \<times> paper_store" where
  "eval_orders cfg clock quotes [] rep db = (Inr rep, db)"
| "eval_orders cfg clock quotes (r # rs) rep db =
     (case quotes r of
        Inl e \<Rightarrow> (Inl e, db)
      | Inr None \<Rightarrow> eval_orders cfg clock quotes rs rep db
      | Inr (Some q) \<Rightarrow>
     (case mid_price q of
        None \<Rightarrow> eval_orders cfg clock quotes rs rep db
      | Some m \<Rightarrow>
     (case fill_price cfg r q m of
        Inl e \<Rightarrow> (Inl e, db)
      | Inr None \<Rightarrow> eval_orders cfg clock quotes rs rep db
      | Inr (Some px) \<Rightarrow>
     (case engine_apply_fill cfg clock r px (po_qty r) db of
        Inl e \<Rightarrow> (Inl e, db)
      | Inr (res, db') \<Rightarrow>
          (let ok = (case res of FillFailed _ \<Rightarrow> False | _ \<Rightarrow> True)
           in eval_orders cfg clock quotes rs
                (rep\<lparr>ev_filled := ev_filled rep + (if ok then 1 else 0), ev_rejected := ev_rejected rep + (if ok then 0 else 1),
                     ev_details := ev_details rep @ [(po_client_order_id r, res)]\<rparr>) db')))))"

definition evaluate_open_orders ::
    "paper_cfg \<Rightarrow> string \<Rightarrow> (paper_order \<Rightarrow> exn + quote option) \<Rightarrow> paper_store \<Rightarrow> (exn + eval_report) \<times> paper_store" where
  "evaluate_open_orders cfg clock quotes db =
     (let orders = list_paper_orders 2000 (Some ''new'') db;
          (res, db') = eval_orders cfg clock quotes orders
             \<lparr>ev_seen = length orders, ev_filled = 0, ev_rejected = 0, ev_details = []\<rparr> db
      in (case res of Inl e \<Rightarrow> Inl e | Inr rep \<Rightarrow> Inr (rep\<lparr>ev_details := take 20 (ev_details rep)\<rparr>), db'))"

section \<open>Marking to market\<close>

definition mark_to_market ::
    "string \<Rightarrow> (exn + quote option) \<Rightarrow> string \<Rightarrow> paper_store \<Rightarrow> exn + paper_equity \<times> paper_store" where
  "mark_to_market now price symbol db =
     (case price of
        Inl e \<Rightarrow> Inl e
      | Inr q \<Rightarrow>
          (let m = Option.bind q mid_price;
               cash = cash_quote db;
               (qty, avg, _) = position_of symbol db;
               unreal = (case m of Some x \<Rightarrow> if qty \<noteq> Fin 0 then fmul (fsub x avg) qty else Fin 0 | None \<Rightarrow> Fin 0);
               equity = fadd cash (case m of Some x \<Rightarrow> fmul x qty | None \<Rightarrow> Fin 0);
               e = \<lparr>pe_ts = now, pe_cash_quote = cash, pe_equity_quote = equity, pe_unrealized_pnl = unreal,
                    pe_realized_pnl = realized_pnl db\<rparr>
           in case insert_equity e db of Inl x \<Rightarrow> Inl x | Inr db' \<Rightarrow> Inr (e, db')))"

section \<open>Runs of the engine\<close>

text \<open>What the engine does with its store, from an empty one: start (and restart) with a configuration,
  submissions, cancellations, evaluations of the open orders and marks. \<open>P\<close> holds of the quotes the
  evaluations see.\<close>

inductive engine_step :: "paper_cfg \<Rightarrow> (quote \<Rightarrow> bool) \<Rightarrow> paper_store \<Rightarrow> paper_store \<Rightarrow> bool" for cfg P db where
  step_restart: "engine_step cfg P db (ensure_cash_initialized cfg db)"
| step_submit: "submit_paper_order env cfg oid clock now a db = Inr (res, db') \<Longrightarrow> engine_step cfg P db db'"
| step_cancel: "cancel_order c db = (cres, db') \<Longrightarrow> engine_step cfg P db db'"
| step_evaluate: "(\<And>r q. quotes r = Inr (Some q) \<Longrightarrow> P q) \<Longrightarrow>
     evaluate_open_orders cfg clock quotes db = (eres, db') \<Longrightarrow> engine_step cfg P db db'"
| step_mark: "mark_to_market now price symbol db = Inr (eq, db') \<Longrightarrow> engine_step cfg P db db'"

inductive paper_reach :: "paper_cfg \<Rightarrow> (quote \<Rightarrow> bool) \<Rightarrow> paper_store \<Rightarrow> bool" for cfg P where
  reach_start: "paper_reach cfg P (ensure_cash_initialized cfg empty_paper_store)"
| reach_step: "paper_reach cfg P db \<Longrightarrow> engine_step cfg P db db' \<Longrightarrow> paper_reach cfg P db'"

text \<open>The terms of an order: everything but its status.\<close>

definition order_terms :: "paper_order \<Rightarrow> paper_order" where
  "order_terms r = r\<lparr>po_status := '''', po_reject_reason := None\<rparr>"

definition terms_at :: "string \<Rightarrow> paper_store \<Rightarrow> paper_order option" where
  "terms_at i db = map_option order_terms (order_by_order_id i db)"

text \<open>A fill is for the whole quantity of its order, at the price a quote gave, with the configured fee.\<close>

definition fill_terms :: "paper_cfg \<Rightarrow> (quote \<Rightarrow> bool) \<Rightarrow> paper_order \<Rightarrow> paper_fill \<Rightarrow> bool" where
  "fill_terms cfg P r f \<longleftrightarrow>
     pfl_qty f = po_qty r \<and> pfl_fee f = fmul (fmul (pfl_price f) (pfl_qty f)) (bps_rate (pc_fee_bps cfg)) \<and>
     pfl_price f \<noteq> NaN \<and> pfl_fee f \<noteq> NaN \<and>
     (\<exists>q m. P q \<and> mid_price q = Some m \<and> fill_price cfg r q m = Inr (Some (pfl_price f)))"

definition fill_priced :: "paper_cfg \<Rightarrow> (quote \<Rightarrow> bool) \<Rightarrow> paper_store \<Rightarrow> paper_fill \<Rightarrow> bool" where
  "fill_priced cfg P db f \<longleftrightarrow> (\<exists>r. terms_at (pfl_order_id f) db = Some r \<and> fill_terms cfg P r f)"

definition limit_terms :: "paper_order \<Rightarrow> bool" where
  "limit_terms r \<longleftrightarrow> po_order_type r = ''market'' \<or>
     (po_order_type r = ''limit'' \<and> (\<exists>p. po_limit_price r = Some p \<and> flt (Fin 0) p \<and> isfinite p))"

definition has_reading :: "string \<Rightarrow> paper_store \<Rightarrow> bool" where
  "has_reading k db \<longleftrightarrow> (\<exists>x. paper_state k db = Some (Reads x))"

definition engine_inv :: "paper_cfg \<Rightarrow> (quote \<Rightarrow> bool) \<Rightarrow> paper_store \<Rightarrow> bool" where
  "engine_inv cfg P db \<longleftrightarrow> paper_wf db \<and> ledger_inv (pc_starting_cash_quote cfg) db \<and>
     has_reading ''cash_quote'' db \<and> has_reading ''realized_pnl'' db \<and>
     list_all limit_terms (pst_orders db) \<and> list_all (fill_priced cfg P db) (pst_fills db)"

lemma order_terms_simps [simp]:
  "po_order_id (order_terms r) = po_order_id r" "po_qty (order_terms r) = po_qty r" "po_side (order_terms r) = po_side r"
  "po_symbol (order_terms r) = po_symbol r" "po_order_type (order_terms r) = po_order_type r"
  "po_limit_price (order_terms r) = po_limit_price r" "order_terms (r\<lparr>po_status := st, po_reject_reason := why\<rparr>) = order_terms r"
  by (simp_all add: order_terms_def)

lemma fill_price_terms [simp]: "fill_price cfg (order_terms r) q m = fill_price cfg r q m"
  unfolding fill_price_def order_terms_simps ..

lemma fill_terms_terms [simp]: "fill_terms cfg P (order_terms r) f = fill_terms cfg P r f"
  by (simp add: fill_terms_def)

lemma select_restatus:
  "select_key po_order_id j (restatus i st why t) =
     map_option (\<lambda>r. if po_order_id r = i then r\<lparr>po_status := st, po_reject_reason := why\<rparr> else r) (select_key po_order_id j t)"
  by (rule select_key_upd_where) simp

lemma terms_at_restatus: "pst_orders db' = restatus i st why (pst_orders db) \<Longrightarrow> terms_at j db' = terms_at j db"
  by (cases "select_key po_order_id j (pst_orders db)")
    (auto simp: terms_at_def order_by_order_id_def select_restatus)

lemma list_all_limit_restatus: "list_all limit_terms t \<Longrightarrow> list_all limit_terms (restatus i st why t)"
  by (auto simp: list_all_iff set_upd_where limit_terms_def)

lemma apply_fill_terms_at:
  assumes "paper_apply_fill i ts p q fee ccy db = Inr (res, db')"
  shows "terms_at j db' = terms_at j db"
  using assms
proof (cases rule: paper_apply_fill_cases)
  case (rejected od a why)
  then show ?thesis by (intro terms_at_restatus) (simp add: update_order_status_def)
next
  case (booked od a a' pnl)
  then show ?thesis using terms_at_restatus[OF book_fill_effect(2)[OF booked(5)]] by simp
qed simp

section \<open>The engine keeps its invariant\<close>

lemma engine_inv_start: "engine_inv cfg P (ensure_cash_initialized cfg empty_paper_store)"
proof -
  let ?db = "ensure_cash_initialized cfg empty_paper_store"
  have db: "?db = set_paper_state ''realized_pnl'' (Reads (Fin 0))
      (set_paper_state ''cash_quote'' (Reads (pc_starting_cash_quote cfg)) empty_paper_store)"
    by (simp add: ensure_cash_initialized_def Let_def) (simp add: paper_state_def empty_paper_store_def)
  have "ledger_of ?db = ledger_open (pc_starting_cash_quote cfg)"
    by (simp add: db ledger_of_def ledger_open_def state_float_def float_of_state_def)
      (simp add: position_of_def get_paper_position_def set_paper_state_def empty_paper_store_def)
  moreover have "pst_orders ?db = []" "pst_fills ?db = []" "pst_positions ?db = []"
    unfolding db by (simp_all add: set_paper_state_def empty_paper_store_def)
  ultimately show ?thesis
    by (simp add: engine_inv_def ledger_inv_def paper_wf_def) (simp add: db has_reading_def)
qed

lemma ensure_cash_id:
  "has_reading ''cash_quote'' db \<Longrightarrow> has_reading ''realized_pnl'' db \<Longrightarrow> ensure_cash_initialized cfg db = db"
  by (auto simp: ensure_cash_initialized_def Let_def has_reading_def)

text \<open>Changing only statuses.\<close>

lemma fill_priced_cong:
  "(\<And>j. terms_at j db' = terms_at j db) \<Longrightarrow> fill_priced cfg P db' f = fill_priced cfg P db f"
  by (simp add: fill_priced_def)

lemma engine_inv_close:
  assumes inv: "engine_inv cfg P db" and od: "order_by_order_id i db = Some od" "po_status od = ''new''"
    and st: "st = ''rejected'' \<or> st = ''canceled''"
  shows "engine_inv cfg P (update_order_status i st why db)"
proof -
  let ?db' = "update_order_status i st why db"
  have t: "terms_at j ?db' = terms_at j db" for j by (rule terms_at_restatus) (simp add: update_order_status_def)
  have "list_all limit_terms (pst_orders ?db')"
    using inv list_all_limit_restatus by (simp add: engine_inv_def update_order_status_def)
  moreover have "paper_state k ?db' = paper_state k db" "pst_fills ?db' = pst_fills db" for k
    by (simp_all add: update_order_status_def paper_state_def)
  ultimately show ?thesis
    using inv close_unfilled_wf[OF _ od st] ledger_inv_restatus fill_priced_cong[OF t]
    by (simp add: engine_inv_def list_all_iff has_reading_def)
qed

lemma bad_args_None:
  assumes "bad_args cfg a = None"
  shows "strip (lower (sa_side a)) = ''buy'' \<or> strip (lower (sa_side a)) = ''sell''"
    "flt (Fin 0) (sa_qty a)" "isfinite (sa_qty a)" "\<not> flt (pc_max_order_qty cfg) (sa_qty a)"
    "strip (lower (sa_order_type a)) = ''market'' \<or> (strip (lower (sa_order_type a)) = ''limit'' \<and>
       (\<exists>p. sa_limit_price a = Some p \<and> flt (Fin 0) p \<and> isfinite p))"
  using assms unfolding bad_args_def Let_def by (auto split: if_splits option.splits)

lemma insert_order_wf:
  assumes wf: "paper_wf db" and r: "order_wf r" "po_status r = ''new''"
  shows "paper_wf (insert_paper_order now r db)"
proof -
  have mono: "fill_of t f \<Longrightarrow> fill_of (t @ u) f" for t u f unfolding fill_of_def by auto
  have "order_wf (r\<lparr>po_created_ts := now, po_limit_price := lp\<rparr>)" for lp using r by (simp add: order_wf_def)
  then show ?thesis
    using wf r(2) mono by (auto simp: insert_paper_order_def paper_wf_def list_all_iff select_key_None)
qed

lemma terms_at_insert:
  "terms_at j db = Some r \<Longrightarrow> terms_at j (insert_paper_order now x db) = Some r"
  by (auto simp: terms_at_def order_by_order_id_def insert_paper_order_def select_key_append)

lemma engine_inv_insert:
  assumes inv: "engine_inv cfg P db" and a: "bad_args cfg a = None"
  shows "engine_inv cfg P (insert_paper_order now (order_of_args cfg oid clock a) db)"
proof -
  let ?r = "order_of_args cfg oid clock a"
  let ?db' = "insert_paper_order now ?r db"
  note n = bad_args_None[OF a]
  have "order_wf ?r" using n by (simp add: order_wf_def order_of_args_def known_status_def)
  then have "paper_wf ?db'" using inv insert_order_wf[of db ?r] by (simp add: engine_inv_def order_of_args_def)
  moreover have "ledger_inv (pc_starting_cash_quote cfg) ?db'" using inv ledger_inv_insert by (simp add: engine_inv_def)
  moreover have "list_all limit_terms (pst_orders ?db')"
  proof -
    have "limit_terms (?r\<lparr>po_created_ts := now, po_limit_price := Option.bind (po_limit_price ?r) sql_real\<rparr>)"
      using n(5) by (auto simp: limit_terms_def order_of_args_def sql_real_def)
    then show ?thesis using inv by (simp add: engine_inv_def insert_paper_order_def)
  qed
  moreover have "paper_state k ?db' = paper_state k db" "pst_fills ?db' = pst_fills db" for k
    by (simp_all add: insert_paper_order_def paper_state_def)
  moreover have "list_all (fill_priced cfg P ?db') (pst_fills db)"
    using inv terms_at_insert unfolding engine_inv_def list_all_iff fill_priced_def by blast
  ultimately show ?thesis using inv by (simp add: engine_inv_def has_reading_def)
qed

lemma engine_inv_submit:
  assumes inv: "engine_inv cfg P db" and s: "submit_paper_order env cfg oid clock now a db = Inr (res, db')"
  shows "engine_inv cfg P db'"
proof -
  have "db' = db \<or> (bad_args cfg a = None \<and> db' = insert_paper_order now (order_of_args cfg oid clock a) db)"
    using s by (auto simp: submit_paper_order_def Let_def split: option.splits sum.splits prod.splits bool.splits)
  then show ?thesis using inv engine_inv_insert by blast
qed

lemma cancel_effect:
  assumes wf: "paper_wf db" and c: "cancel_order c db = (res, db')"
  obtains (same) "db' = db"
  | (canceled) r where "order_by_order_id (po_order_id r) db = Some r" "po_status r = ''new''"
      "db' = update_order_status (po_order_id r) ''canceled'' None db"
proof (cases "db' = db")
  case False
  obtain r where r: "order_by_client_id c db = Some r" using c False by (auto simp: cancel_order_def split: option.splits)
  have st: "po_status r \<notin> {''filled'', ''canceled'', ''rejected''}"
    and db': "db' = update_order_status (po_order_id r) ''canceled'' None db"
    using c r False by (auto simp: cancel_order_def Let_def split: if_splits)
  have m: "r \<in> set (pst_orders db)" using select_key_Some_mem[OF r[unfolded order_by_client_id_def]] by simp
  have "known_status (po_status r)" using order_wf_mem[OF wf m] by (simp add: order_wf_def)
  then have new: "po_status r = ''new''" using st unfolding known_status_def by blast
  have "order_by_order_id (po_order_id r) db = Some r"
    unfolding order_by_order_id_def using wf m by (intro select_key_distinct) (auto simp: paper_wf_def)
  then show ?thesis using canceled new db' by blast
qed (rule same)

lemma engine_inv_cancel:
  assumes inv: "engine_inv cfg P db" and c: "cancel_order c db = (res, db')"
  shows "engine_inv cfg P db'"
proof -
  have "paper_wf db" using inv by (simp add: engine_inv_def)
  then show ?thesis using c
  proof (cases rule: cancel_effect)
    case (canceled r)
    then show ?thesis using engine_inv_close[OF inv] by simp
  qed (use inv in simp)
qed

lemma engine_inv_apply_fill:
  assumes inv: "engine_inv cfg P db" and r: "terms_at (po_order_id r) db = Some (order_terms r)"
    and q: "P q" "mid_price q = Some m" "fill_price cfg r q m = Inr (Some px)"
    and ap: "engine_apply_fill cfg clock r px (po_qty r) db = Inr (res, db')"
  shows "engine_inv cfg P db'"
proof -
  let ?fee = "fmul (fmul px (po_qty r)) (bps_rate (pc_fee_bps cfg))"
  have wf: "paper_wf db" using inv by (simp add: engine_inv_def)
  have ap': "paper_apply_fill (po_order_id r) clock px (po_qty r) ?fee (pc_quote_currency cfg) db = Inr (res, db')"
    using ap by (simp add: engine_apply_fill_def Let_def)
  have t: "terms_at j db' = terms_at j db" for j by (rule apply_fill_terms_at[OF ap'])
  show ?thesis using ap'
  proof (cases rule: paper_apply_fill_cases)
    case (rejected od a why)
    have "po_status od = ''new''"
      using order_wf_mem[OF wf] order_by_order_id_mem[OF rejected(1)] rejected(2) open_known by (auto simp: order_wf_def)
    then show ?thesis using engine_inv_close[OF inv rejected(1)] rejected(5) by simp
  next
    case (booked od a a' pnl)
    note e = book_fill_effect[OF booked(5)]
    have i: "po_order_id od = po_order_id r" using order_by_order_id_mem[OF booked(1)] by simp
    have "list_all (fill_priced cfg P db') (pst_fills db)"
      using inv fill_priced_cong[OF t] by (simp add: engine_inv_def list_all_iff)
    moreover have "fill_priced cfg P db' (last (pst_fills db'))"
      using r q e(12,14) by (auto simp: fill_priced_def t e(3) i fill_terms_def)
    moreover have "list_all limit_terms (pst_orders db')"
      using inv list_all_limit_restatus by (simp add: e(2) engine_inv_def)
    moreover have "has_reading ''cash_quote'' db'" "has_reading ''realized_pnl'' db'"
      by (simp_all add: e(4) has_reading_def)
    ultimately show ?thesis
      using apply_fill_wf[OF wf ap'] ledger_inv_apply_fill[OF _ ap'] inv by (simp add: engine_inv_def e(3))
  qed (use inv in simp)
qed

lemma apply_fill_terms_engine:
  "engine_apply_fill cfg clock r px qty db = Inr (res, db') \<Longrightarrow> terms_at j db' = terms_at j db"
  unfolding engine_apply_fill_def Let_def by (rule apply_fill_terms_at)

text \<open>The rule for the evaluation loop: what every single fill keeps, the loop keeps.\<close>

lemma eval_orders_rule:
  assumes "J db" "\<And>r q. quotes r = Inr (Some q) \<Longrightarrow> P q"
    and "\<And>d r q m px res d'. J d \<Longrightarrow> terms_at (po_order_id r) d = Some (order_terms r) \<Longrightarrow> P q \<Longrightarrow> mid_price q = Some m \<Longrightarrow>
      fill_price cfg r q m = Inr (Some px) \<Longrightarrow> engine_apply_fill cfg clock r px (po_qty r) d = Inr (res, d') \<Longrightarrow> J d'"
    and "\<forall>r \<in> set rs. terms_at (po_order_id r) db = Some (order_terms r)"
    and "eval_orders cfg clock quotes rs rep db = (res, db')"
  shows "J db'"
  using assms
proof (induction rs arbitrary: rep db)
  case (Cons r rs)
  note IH = Cons.IH[OF _ Cons.prems(2,3)]
  have same: ?case if "eval_orders cfg clock quotes rs rep db = (res, db')"
    by (rule IH[OF Cons.prems(1) _ _ _ _ _ _ _ _ that]) (use Cons.prems(4) in auto)
  show ?case
  proof (cases "quotes r")
    case (Inl e) then show ?thesis using Cons.prems by simp
  next
    case (Inr q0)
    show ?thesis
    proof (cases "Option.bind q0 mid_price")
      case None then show ?thesis using Cons.prems(5) Inr same by (cases q0) auto
    next
      case (Some m)
      then obtain q where q: "q0 = Some q" "mid_price q = Some m" by (cases q0) auto
      have P: "P q" using Cons.prems(2) Inr q by simp
      show ?thesis
      proof (cases "fill_price cfg r q m")
        case (Inl e) then show ?thesis using Cons.prems \<open>quotes r = Inr q0\<close> q by simp
      next
        case f: (Inr px0)
        show ?thesis
        proof (cases px0)
          case None then show ?thesis using Cons.prems(5) Inr q f same by simp
        next
          case px: (Some px)
          show ?thesis
          proof (cases "engine_apply_fill cfg clock r px (po_qty r) db")
            case (Inl e) then show ?thesis using Cons.prems Inr q f px by simp
          next
            case ap: (Inr rd)
            obtain rs1 db1 where rd: "rd = (rs1, db1)" by (cases rd)
            have i1: "J db1"
              using Cons.prems(3)[OF Cons.prems(1) _ P q(2)] Cons.prems(4) f px ap rd by auto
            have t: "terms_at j db1 = terms_at j db" for j using apply_fill_terms_engine ap rd by blast
            obtain rep' where ev: "eval_orders cfg clock quotes rs rep' db1 = (res, db')"
              using Cons.prems(5) Inr q f px ap rd by (simp add: Let_def)
            show ?thesis
              by (rule IH[OF i1 _ _ _ _ _ _ _ _ ev]) (use Cons.prems(4) t in auto)
          qed
        qed
      qed
    qed
  qed
qed simp

lemma listed_terms:
  assumes wf: "paper_wf db" and r: "r \<in> set (list_paper_orders n st db)"
  shows "terms_at (po_order_id r) db = Some (order_terms r)"
proof -
  have "r \<in> set (pst_orders db)"
    using r set_sql_limit by (fastforce simp: list_paper_orders_def split: if_splits)
  then have "order_by_order_id (po_order_id r) db = Some r"
    unfolding order_by_order_id_def using wf by (intro select_key_distinct) (auto simp: paper_wf_def)
  then show ?thesis by (simp add: terms_at_def)
qed

lemma engine_inv_evaluate:
  assumes inv: "engine_inv cfg P db" and P: "\<And>r q. quotes r = Inr (Some q) \<Longrightarrow> P q"
    and ev: "evaluate_open_orders cfg clock quotes db = (res, db')"
  shows "engine_inv cfg P db'"
proof -
  have wf: "paper_wf db" using inv by (simp add: engine_inv_def)
  obtain rep res1 where ev': "eval_orders cfg clock quotes (list_paper_orders 2000 (Some ''new'') db) rep db = (res1, db')"
    using ev unfolding evaluate_open_orders_def Let_def by (auto split: prod.splits)
  have t: "\<forall>r \<in> set (list_paper_orders 2000 (Some ''new'') db). terms_at (po_order_id r) db = Some (order_terms r)"
    using listed_terms[OF wf] by blast
  show ?thesis
  proof (rule eval_orders_rule[where J = "engine_inv cfg P" and P = P, OF inv _ _ t ev'])
    show "\<And>r q. quotes r = Inr (Some q) \<Longrightarrow> P q" by (rule P)
  qed (rule engine_inv_apply_fill)
qed

lemma engine_inv_mark:
  assumes inv: "engine_inv cfg P db" and m: "mark_to_market now price symbol db = Inr (e, db')"
  shows "engine_inv cfg P db'"
proof -
  have same: "pst_state db' = pst_state db" "pst_orders db' = pst_orders db" "pst_fills db' = pst_fills db"
      "pst_positions db' = pst_positions db"
    using m by (auto simp: mark_to_market_def insert_equity_def Let_def split: sum.splits prod.splits if_splits)
  then have "terms_at j db' = terms_at j db" for j by (simp add: terms_at_def order_by_order_id_def)
  then have "fill_priced cfg P db' f = fill_priced cfg P db f" for f by (rule fill_priced_cong)
  then show ?thesis
    using inv same ledger_of_cong[of db' db]
    by (simp add: engine_inv_def paper_wf_def ledger_inv_def paper_state_def has_reading_def list_all_iff)
qed

lemma engine_inv_step:
  assumes "engine_inv cfg P db" "engine_step cfg P db db'"
  shows "engine_inv cfg P db'"
  using assms(2)
proof cases
  case step_restart
  then show ?thesis using ensure_cash_id assms(1) by (simp add: engine_inv_def)
next
  case (step_submit env oid clock now a res)
  then show ?thesis using engine_inv_submit[OF assms(1)] by blast
next
  case (step_cancel c cres)
  then show ?thesis using engine_inv_cancel[OF assms(1)] by blast
next
  case (step_evaluate quotes clock eres)
  then show ?thesis using engine_inv_evaluate[OF assms(1)] by blast
next
  case (step_mark now price symbol eq)
  then show ?thesis using engine_inv_mark[OF assms(1)] by blast
qed

lemma paper_reach_inv: "paper_reach cfg P db \<Longrightarrow> engine_inv cfg P db"
  by (induction rule: paper_reach.induct) (auto intro: engine_inv_start engine_inv_step)

end
