(* ===== verification/Paper_Account.thy ===== *)
theory Paper_Account
  imports Paper_Engine
begin

text \<open>
  What holds of every account the paper engine can build up: the properties of Paper\_Engine over its
  runs, with concrete runs as witnesses.
\<close>

section \<open>Orders keep their terms\<close>

definition order_stays :: "paper_store \<Rightarrow> paper_store \<Rightarrow> bool" where
  "order_stays db db' \<longleftrightarrow> (\<forall>i r. order_by_order_id i db = Some r \<longrightarrow>
     (\<exists>r'. order_by_order_id i db' = Some r' \<and> order_terms r' = order_terms r \<and> (po_status r \<noteq> ''new'' \<longrightarrow> r' = r)))"

lemma order_stays_refl: "order_stays db db"
  by (simp add: order_stays_def)

lemma order_stays_trans: "order_stays a b \<Longrightarrow> order_stays b c \<Longrightarrow> order_stays a c"
  unfolding order_stays_def by metis

lemma order_stays_same: "pst_orders db' = pst_orders db \<Longrightarrow> order_stays db db'"
  by (simp add: order_stays_def order_by_order_id_def)

lemma order_stays_restatus:
  assumes od: "order_by_order_id i db = Some od" "po_status od = ''new''"
    and o': "pst_orders db' = restatus i st why (pst_orders db)"
  shows "order_stays db db'"
  unfolding order_stays_def
proof (intro allI impI)
  fix j r assume r: "order_by_order_id j db = Some r"
  let ?r' = "if po_order_id r = i then r\<lparr>po_status := st, po_reject_reason := why\<rparr> else r"
  have j: "po_order_id r = j" using order_by_order_id_mem[OF r] by simp
  have "order_by_order_id j db' = Some ?r'" using r o' by (simp add: order_by_order_id_def select_restatus)
  moreover have "po_status r \<noteq> ''new'' \<longrightarrow> ?r' = r" using od r j by auto
  moreover have "order_terms ?r' = order_terms r" by simp
  ultimately show "\<exists>r'. order_by_order_id j db' = Some r' \<and> order_terms r' = order_terms r \<and> (po_status r \<noteq> ''new'' \<longrightarrow> r' = r)"
    by blast
qed

lemma open_is_new:
  assumes "paper_wf db" "order_by_order_id i db = Some od" "open_status (po_status od)"
  shows "po_status od = ''new''"
  using order_wf_mem[OF assms(1)] order_by_order_id_mem[OF assms(2)] assms(3) open_known by (auto simp: order_wf_def)

lemma order_stays_apply_fill:
  assumes wf: "paper_wf db" and ap: "paper_apply_fill i ts p q fee ccy db = Inr (res, db')"
  shows "order_stays db db'"
  using ap
proof (cases rule: paper_apply_fill_cases)
  case (rejected od a why)
  show ?thesis
    using order_stays_restatus[OF rejected(1) open_is_new[OF wf rejected(1,2)]] rejected(5)
    by (simp add: update_order_status_def)
next
  case (booked od a a' pnl)
  have "po_order_id od = i" using order_by_order_id_mem[OF booked(1)] by simp
  then show ?thesis
    using order_stays_restatus[OF booked(1) open_is_new[OF wf booked(1,2)]] book_fill_effect(2)[OF booked(5)] by simp
qed (simp add: order_stays_refl)

lemma order_stays_insert: "order_stays db (insert_paper_order now x db)"
  by (auto simp: order_stays_def order_by_order_id_def insert_paper_order_def select_key_append)

lemma order_stays_evaluate:
  assumes inv: "engine_inv cfg P db" and P: "\<And>r q. quotes r = Inr (Some q) \<Longrightarrow> P q"
    and ev: "evaluate_open_orders cfg clock quotes db = (res, db')"
  shows "order_stays db db'"
proof -
  have wf: "paper_wf db" using inv by (simp add: engine_inv_def)
  obtain rep res1 where ev': "eval_orders cfg clock quotes (list_paper_orders 2000 (Some ''new'') db) rep db = (res1, db')"
    using ev unfolding evaluate_open_orders_def Let_def by (auto split: prod.splits)
  have t: "\<forall>r \<in> set (list_paper_orders 2000 (Some ''new'') db). terms_at (po_order_id r) db = Some (order_terms r)"
    using listed_terms[OF wf] by blast
  have "engine_inv cfg P db' \<and> order_stays db db'"
  proof (rule eval_orders_rule[where J = "\<lambda>d. engine_inv cfg P d \<and> order_stays db d" and P = P, OF _ _ _ t ev'])
    show "\<And>r q. quotes r = Inr (Some q) \<Longrightarrow> P q" by (rule P)
    show "engine_inv cfg P db \<and> order_stays db db" using inv order_stays_refl by blast
  next
    fix d r q m px res d'
    assume J: "engine_inv cfg P d \<and> order_stays db d" and a: "terms_at (po_order_id r) d = Some (order_terms r)" "P q"
      "mid_price q = Some m" "fill_price cfg r q m = Inr (Some px)"
      and ap: "engine_apply_fill cfg clock r px (po_qty r) d = Inr (res, d')"
    have "paper_wf d" using J by (simp add: engine_inv_def)
    then have "order_stays d d'" using ap unfolding engine_apply_fill_def Let_def by (rule order_stays_apply_fill)
    then show "engine_inv cfg P d' \<and> order_stays db d'"
      using engine_inv_apply_fill[OF conjunct1[OF J] a ap] J order_stays_trans by blast
  qed
  then show ?thesis by simp
qed

lemma order_stays_cancel:
  assumes inv: "engine_inv cfg P db" and c: "cancel_order c db = (res, db')"
  shows "order_stays db db'"
proof -
  have "paper_wf db" using inv by (simp add: engine_inv_def)
  then show ?thesis using c
  proof (cases rule: cancel_effect)
    case (canceled r)
    then show ?thesis using order_stays_restatus[OF canceled(1,2)] by (simp add: update_order_status_def)
  qed (simp add: order_stays_refl)
qed

lemma submit_effect:
  assumes "submit_paper_order env cfg oid clock now a db = Inr (res, db')"
  shows "db' = db \<or> db' = insert_paper_order now (order_of_args cfg oid clock a) db"
  using assms by (auto simp: submit_paper_order_def Let_def split: option.splits sum.splits prod.splits bool.splits)

lemma order_stays_step:
  assumes inv: "engine_inv cfg P db" and s: "engine_step cfg P db db'"
  shows "order_stays db db'"
  using s
proof cases
  case step_restart
  then show ?thesis using ensure_cash_id inv order_stays_refl by (simp add: engine_inv_def)
next
  case (step_submit env oid clock now a res)
  then show ?thesis using submit_effect order_stays_insert order_stays_refl by blast
next
  case (step_cancel c cres)
  then show ?thesis using order_stays_cancel[OF inv] by blast
next
  case (step_evaluate quotes clock eres)
  then show ?thesis using order_stays_evaluate[OF inv] by blast
next
  case (step_mark now price symbol eq)
  then show ?thesis
    by (intro order_stays_same)
      (auto simp: mark_to_market_def insert_equity_def Let_def split: sum.splits prod.splits if_splits)
qed

lemma order_stays_steps:
  assumes "paper_reach cfg P db" "(engine_step cfg P)\<^sup>*\<^sup>* db db'"
  shows "order_stays db db' \<and> paper_reach cfg P db'"
  using assms(2,1)
proof (induction rule: rtranclp_induct)
  case base
  then show ?case using order_stays_refl by blast
next
  case (step y z)
  then show ?case
    using order_stays_step[OF paper_reach_inv] order_stays_trans reach_step by blast
qed

section \<open>A sample run\<close>

text \<open>A limit order for one unit at 100, submitted with all guards on and filled at 90.\<close>

definition sample_paper_cfg :: paper_cfg where
  "sample_paper_cfg = \<lparr>pc_enabled = True, pc_quote_currency = ''USDT'', pc_starting_cash_quote = Fin 1000, pc_fee_bps = Fin 0,
     pc_slippage_bps = Fin 0, pc_use_ccxt_fallback = False, pc_max_order_qty = Fin 10, pc_strategy_id = ''s''\<rparr>"

definition sample_gate_env :: gate_env where
  "sample_gate_env = \<lparr>ge_now = Fin 1, ge_day = ''d'', ge_snapshot = SnapTs 1000, ge_read_only = False,
     ge_mq_cfg = sample_mq_cfg, ge_mq_per = None, ge_quote = Some sample_quote,
     ge_gates = Inr (\<lparr>sg_min_order_notional = Fin 0, sg_max_trades_per_day = 0, sg_max_daily_loss = Fin 0,
       sg_prefer_journal_pnl = False\<rparr>,
       \<lparr>gs_days = [], gs_events = []\<rparr>)\<rparr>"

definition sample_submit_args :: submit_args where
  "sample_submit_args = \<lparr>sa_client_order_id = ''c1'', sa_venue = ''v'', sa_symbol = ''BTC/USDT'', sa_side = ''buy'',
     sa_order_type = ''limit'', sa_qty = Fin 1, sa_limit_price = Some (Fin 100), sa_ts = None, sa_strategy_id = None,
     sa_meta = None\<rparr>"

definition sample_db0 :: paper_store where
  "sample_db0 = ensure_cash_initialized sample_paper_cfg empty_paper_store"

definition sample_db1 :: paper_store where
  "sample_db1 = insert_paper_order ''t1'' (order_of_args sample_paper_cfg ''o1'' ''t1'' sample_submit_args) sample_db0"

lemma sample_words: "strip (lower ''buy'') = ''buy''" "strip (lower ''limit'') = ''limit''" "strip (lower ''v'') = ''v''"
  "strip ''BTC/USDT'' = ''BTC/USDT''"
  by code_simp+

lemma sample_db0: "paper_state ''cash_quote'' sample_db0 = Some (Reads (Fin 1000))" "paper_state ''realized_pnl'' sample_db0 = Some (Reads (Fin 0))"
  "pst_orders sample_db0 = []" "pst_fills sample_db0 = []" "pst_positions sample_db0 = []"
  by (simp_all add: sample_db0_def ensure_cash_initialized_def Let_def)
    (simp_all add: paper_state_def empty_paper_store_def set_paper_state_def sample_paper_cfg_def insert_or_replace_def select_key_Cons)

lemma sample_gate: "pre_submit_gate sample_gate_env sample_paper_cfg ''BTC/USDT'' ''limit'' ''buy'' (Fin 1) (Some (Fin 100)) sample_db0
   = Inr (True, None)"
  using sample_mq
  by (simp add: pre_submit_gate_def is_snapshot_fresh_def reference_price_def float_of_quote_def safety_answer_def
      should_allow_order_def get_today_metrics_def funds_check_def estimated_cost_def cash_quote_def read_state_def sample_db0
      bps_rate_def mk_float_small mk_float_one Let_def sample_age sample_gate_env_def sample_paper_cfg_def)

lemma sample_submit: "submit_paper_order sample_gate_env sample_paper_cfg ''o1'' ''t1'' ''t1'' sample_submit_args sample_db0 =
  Inr (SubmitNew (order_by_client_id ''c1'' sample_db1), sample_db1)"
  using sample_gate unfolding sample_db1_def
  by (simp add: submit_paper_order_def sample_submit_args_def order_by_client_id_def sample_db0 bad_args_def sample_words sample_paper_cfg_def Let_def)

definition sample_paper_order :: paper_order where
  "sample_paper_order = \<lparr>po_order_id = ''o1'', po_client_order_id = ''c1'', po_created_ts = ''t1'', po_ts = ''t1'', po_venue = ''v'',
     po_symbol = ''BTC/USDT'', po_side = ''buy'', po_order_type = ''limit'', po_qty = Fin 1, po_limit_price = Some (Fin 100),
     po_status = ''new'', po_reject_reason = None, po_strategy_id = Some ''s'', po_meta = None\<rparr>"

lemma sample_db1: "pst_orders sample_db1 = [sample_paper_order]" "pst_fills sample_db1 = []" "pst_positions sample_db1 = []"
  "paper_state k sample_db1 = paper_state k sample_db0"
  by (simp_all add: sample_db1_def insert_paper_order_def sample_db0 order_of_args_def sample_submit_args_def sample_paper_order_def
      sample_words sql_real_def opt_str_or_def sample_paper_cfg_def)
    (simp add: paper_state_def)

definition sample_fill :: paper_fill where
  "sample_fill = \<lparr>pfl_fill_id = paper_fill_id ''o1'' (Fin 90) (Fin 1), pfl_order_id = ''o1'', pfl_ts = ''t2'', pfl_price = Fin 90,
    pfl_qty = Fin 1, pfl_fee = Fin 0, pfl_fee_currency = ''USDT''\<rparr>"

lemma sample_account: "load_account ''BTC/USDT'' sample_db1 =
   Inr \<lparr>pa_qty = Fin 0, pa_avg = Fin 0, pa_pos_realized = Fin 0, pa_cash = Fin 1000, pa_realized = Fin 0\<rparr>"
  by (simp add: load_account_def position_of_def get_paper_position_def sample_db1 sample_db0 float_of_state_def Let_def)

lemma sample_step: "paper_fill_step ''buy'' (Fin 90) (Fin 1) (Fin 0)
    \<lparr>pa_qty = Fin 0, pa_avg = Fin 0, pa_pos_realized = Fin 0, pa_cash = Fin 1000, pa_realized = Fin 0\<rparr> =
   StepBook \<lparr>pa_qty = Fin 1, pa_avg = Fin 90, pa_pos_realized = Fin 0, pa_cash = Fin 910, pa_realized = Fin 0\<rparr> (Fin 0)"
proof -
  have "\<not> flt (fadd (Fin 1000) cash_eps) (Fin 90)"
  proof
    assume "flt (fadd (Fin 1000) cash_eps) (Fin 90)"
    moreover have "fle (mk_float 1000) (fadd (Fin 1000) cash_eps)"
      using eps_rat(1) by (simp only: cash_eps_Fin fadd.simps) (rule mk_float_mono, simp)
    ultimately have "flt (mk_float 1000) (Fin 90)" by (rule fle_flt_trans[rotated])
    then show False by (simp add: mk_float_small)
  qed
  then show ?thesis
    by (simp add: paper_fill_step_def paper_buy_def Let_def fsub_def mk_float_small mk_float_one)
qed

lemma sample_evaluate: "\<exists>rep db2. evaluate_open_orders sample_paper_cfg ''t2'' (\<lambda>_. Inr (Some sample_quote)) sample_db1 = (Inr rep, db2) \<and>
   ev_filled rep = 1 \<and> pst_fills db2 = [sample_fill] \<and> pst_orders db2 = [sample_paper_order\<lparr>po_status := ''filled''\<rparr>] \<and>
   cash_quote db2 = Fin 910"
proof -
  have l: "list_paper_orders 2000 (Some ''new'') sample_db1 = [sample_paper_order]"
    by (simp add: list_paper_orders_def sample_db1 sample_paper_order_def truthy_def order_by_desc_def sql_limit_def)
  have r: "order_by_order_id ''o1'' sample_db1 = Some sample_paper_order"
    by (simp add: order_by_order_id_def sample_db1 sample_paper_order_def select_key_Cons)
  have w: "lower (strip ''buy'') = ''buy''" "lower (strip ''new'') = ''new''" by (rule norm_words)+
  have m: "mid_price sample_quote = Some (Fin 90)"
    by (simp add: mid_price_def sample_quote_def float_of_quote_def half_sum_def mk_float_small)
  have fp: "fill_price sample_paper_cfg sample_paper_order sample_quote (Fin 90) = Inr (Some (Fin 90))"
    by (simp add: fill_price_def sample_paper_order_def sample_quote_def conv_side_def float_of_quote_def Let_def pymin_def)
  let ?a = "\<lparr>pa_qty = Fin 1, pa_avg = Fin 90, pa_pos_realized = Fin 0, pa_cash = Fin 910, pa_realized = Fin 0\<rparr>"
  have "engine_apply_fill sample_paper_cfg ''t2'' sample_paper_order (Fin 90) (Fin 1) sample_db1 =
     book_fill sample_paper_order ''t2'' (Fin 90) (Fin 1) (Fin 0) ''USDT'' ?a (Fin 0) sample_db1"
    using r sample_account sample_step w
    by (simp add: engine_apply_fill_def sample_paper_order_def paper_apply_fill_def Let_def bps_rate_def sample_paper_cfg_def mk_float_small)
  moreover obtain res db2 where b: "book_fill sample_paper_order ''t2'' (Fin 90) (Fin 1) (Fin 0) ''USDT'' ?a (Fin 0) sample_db1 = Inr (res, db2)"
    by (simp add: book_fill_def Let_def upsert_paper_position_def insert_paper_fill_def set_paper_state_def sample_db1)
  ultimately have ap: "engine_apply_fill sample_paper_cfg ''t2'' sample_paper_order (Fin 90) (Fin 1) sample_db1 = Inr (res, db2)" by simp
  note e = book_fill_effect[OF b]
  have "pst_fills db2 = [sample_fill]" by (simp add: e(3) sample_db1 sample_fill_def sample_paper_order_def)
  moreover have "pst_orders db2 = [sample_paper_order\<lparr>po_status := ''filled''\<rparr>]" by (simp add: e(2) sample_db1 upd_where_def sample_paper_order_def)
  moreover have "cash_quote db2 = Fin 910" by (simp add: cash_quote_def read_state_def e(4))
  moreover have "po_qty sample_paper_order = Fin 1" by (simp add: sample_paper_order_def)
  ultimately show ?thesis using l m fp ap e(1) by (simp add: evaluate_open_orders_def Let_def)
qed

definition sample_db2 :: paper_store where
  "sample_db2 = snd (evaluate_open_orders sample_paper_cfg ''t2'' (\<lambda>_. Inr (Some sample_quote)) sample_db1)"

lemma sample_db2: "pst_fills sample_db2 = [sample_fill]" "pst_orders sample_db2 = [sample_paper_order\<lparr>po_status := ''filled''\<rparr>]"
  "cash_quote sample_db2 = Fin 910"
  using sample_evaluate by (auto simp: sample_db2_def)

lemma sample_reach:
  assumes "P sample_quote"
  shows "paper_reach sample_paper_cfg P sample_db1" "paper_reach sample_paper_cfg P sample_db2"
    "engine_step sample_paper_cfg P sample_db1 sample_db2"
proof -
  have "paper_reach sample_paper_cfg P sample_db0" unfolding sample_db0_def by (rule reach_start)
  then show r1: "paper_reach sample_paper_cfg P sample_db1" using step_submit[OF sample_submit] by (rule reach_step)
  obtain e where "evaluate_open_orders sample_paper_cfg ''t2'' (\<lambda>_. Inr (Some sample_quote)) sample_db1 = (e, sample_db2)"
    unfolding sample_db2_def by (metis prod.collapse)
  then show st: "engine_step sample_paper_cfg P sample_db1 sample_db2"
    by (rule step_evaluate[rotated]) (use assms in auto)
  show "paper_reach sample_paper_cfg P sample_db2" using r1 st by (rule reach_step)
qed

section \<open>Prices and fees\<close>

definition nonneg_quote_num :: "quote_num option \<Rightarrow> bool" where
  "nonneg_quote_num v = (case Option.bind v float_of_quote of None \<Rightarrow> True | Some x \<Rightarrow> \<not> flt x (Fin 0))"

definition quote_nonneg :: "quote \<Rightarrow> bool" where
  "quote_nonneg q \<longleftrightarrow> nonneg_quote_num (q_bid q) \<and> nonneg_quote_num (q_ask q) \<and> nonneg_quote_num (q_last q)"

text \<open>A rate in basis points between 0 and 10000, and a starting balance that is not negative.\<close>

definition bps_ok :: "pyfloat \<Rightarrow> bool" where
  "bps_ok x \<longleftrightarrow> fle (Fin 0) x \<and> fle x (Fin 10000)"

definition cfg_ok :: "paper_cfg \<Rightarrow> bool" where
  "cfg_ok cfg \<longleftrightarrow> bps_ok (pc_fee_bps cfg) \<and> bps_ok (pc_slippage_bps cfg) \<and>
     wf_float (pc_starting_cash_quote cfg) \<and> fle (Fin 0) (pc_starting_cash_quote cfg)"

lemma bps_rate_unit: "bps_ok x \<Longrightarrow> \<exists>r. bps_rate x = Fin r \<and> 0 \<le> r \<and> r \<le> 1"
proof -
  assume "bps_ok x"
  then obtain b where b: "x = Fin b" "0 \<le> b" "b \<le> 10000" by (cases x) (auto simp: bps_ok_def)
  have lo: "fle (Fin 0) (mk_float (b / 10000))" using b by (intro mk_float_nonneg) simp
  have hi: "fle (mk_float (b / 10000)) (Fin 1)" using b mk_float_mono[of "b / 10000" 1] by (simp add: mk_float_one)
  obtain r where "mk_float (b / 10000) = Fin r" using lo hi by (cases "mk_float (b / 10000)") auto
  then show ?thesis using lo hi b by (simp add: bps_rate_def)
qed

lemma not_neg_mk: "0 \<le> x \<Longrightarrow> \<not> flt (mk_float x) (Fin 0)"
  using mk_float_nonneg[of x] by (cases "mk_float x") auto

lemma not_neg_fadd: "\<not> flt x (Fin 0) \<Longrightarrow> \<not> flt y (Fin 0) \<Longrightarrow> \<not> flt (fadd x y) (Fin 0)"
  by (cases x; cases y) (auto simp: not_neg_mk)

lemma not_neg_fmul: "\<not> flt x (Fin 0) \<Longrightarrow> \<not> flt y (Fin 0) \<Longrightarrow> \<not> flt (fmul x y) (Fin 0)"
  by (cases x; cases y) (auto simp: not_neg_mk inf_of_sign_def sgn_if)

lemma not_neg_half: "\<not> flt x (Fin 0) \<Longrightarrow> \<not> flt y (Fin 0) \<Longrightarrow> \<not> flt (half_sum x y) (Fin 0)"
  using not_neg_fadd[of x y] by (cases "fadd x y") (auto simp: half_sum_def not_neg_mk inf_of_sign_def)

lemma mid_price_nonneg: "quote_nonneg q \<Longrightarrow> mid_price q = Some m \<Longrightarrow> \<not> flt m (Fin 0)"
  by (auto simp: quote_nonneg_def mid_price_def nonneg_quote_num_def not_neg_half split: option.splits)

lemma conv_side_nonneg:
  "nonneg_quote_num v \<Longrightarrow> \<not> flt m (Fin 0) \<Longrightarrow> conv_side v m = Inr x \<Longrightarrow> \<not> flt x (Fin 0)"
  by (auto simp: conv_side_def nonneg_quote_num_def split: option.splits)

lemma not_neg_limit:
  "fle a l \<Longrightarrow> \<not> flt a (Fin 0) \<Longrightarrow> \<not> flt (pymin l a) (Fin 0)"
  "fle l b \<Longrightarrow> \<not> flt b (Fin 0) \<Longrightarrow> \<not> flt (pymax l b) (Fin 0)"
  by (cases l; cases a; auto simp: pymin_def) (cases l; cases b; auto simp: pymax_def)

lemma pymin_limit: "fle a l \<Longrightarrow> fle (pymin l a) l"
  by (cases l; cases a; auto simp: pymin_def)

lemma pymax_limit: "fle l b \<Longrightarrow> fle l (pymax l b)"
  by (cases l; cases b; auto simp: pymax_def)

lemma fill_price_nonneg:
  assumes q: "quote_nonneg q" and m: "mid_price q = Some m" and cfg: "bps_ok (pc_slippage_bps cfg)"
    and f: "fill_price cfg r q m = Inr (Some px)" and px: "px \<noteq> NaN"
  shows "fle (Fin 0) px"
proof -
  obtain s where s: "bps_rate (pc_slippage_bps cfg) = Fin s" "0 \<le> s" "s \<le> 1" using bps_rate_unit[OF cfg] by blast
  have m0: "\<not> flt m (Fin 0)" by (rule mid_price_nonneg[OF q m])
  have "\<not> flt px (Fin 0)"
  proof (cases "po_order_type r = ''market''")
    case True
    then have "px = fmul m (mk_float (1 + s)) \<or> px = fmul m (mk_float (1 - s))"
      using f s by (auto simp: fill_price_def Let_def fsub_def split: if_splits)
    then show ?thesis using not_neg_fmul[OF m0 not_neg_mk] s by auto
  next
    case False
    obtain b a where ba: "conv_side (q_bid q) m = Inr b" "conv_side (q_ask q) m = Inr a"
      using f False by (auto simp: fill_price_def Let_def split: sum.splits)
    have nn: "\<not> flt b (Fin 0)" "\<not> flt a (Fin 0)" using conv_side_nonneg[OF _ m0] ba q by (auto simp: quote_nonneg_def)
    obtain lim where "(fle a lim \<and> px = pymin lim a) \<or> (fle lim b \<and> px = pymax lim b)"
      using f False ba by (auto simp: fill_price_def Let_def split: if_splits)
    then show ?thesis using nn not_neg_limit by blast
  qed
  then show ?thesis using px not_flt_iff_fle[of px "Fin 0"] by simp
qed

lemma fee_le:
  assumes "fle (Fin 0) t" "wf_float t" "bps_ok b" "fmul t (bps_rate b) \<noteq> NaN"
  shows "fle (fmul t (bps_rate b)) t"
proof -
  obtain r where r: "bps_rate b = Fin r" "0 \<le> r" "r \<le> 1" using bps_rate_unit[OF assms(3)] by blast
  show ?thesis
  proof (cases t)
    case (Fin x)
    then show ?thesis using fee_le_turnover[of t "Fin r"] assms r by simp
  next
    case PInf
    then show ?thesis using assms(4) r by (auto simp: inf_of_sign_def split: if_splits)
  qed (use assms in auto)
qed

lemma turnover_nonneg: "fle (Fin 0) p \<Longrightarrow> flt (Fin 0) q \<Longrightarrow> isfinite q \<Longrightarrow> fle (Fin 0) (fmul p q)"
  by (cases p; cases q) (auto simp: mk_float_nonneg inf_of_sign_def)

lemma entries_ok:
  assumes inv: "engine_inv cfg quote_nonneg db" and cfg: "cfg_ok cfg"
  shows "list_all entry_ok (map (entry_of (pst_orders db)) (pst_fills db))"
proof -
  have "entry_ok (entry_of (pst_orders db) f)" if f: "f \<in> set (pst_fills db)" for f
  proof -
    obtain r where r: "terms_at (pfl_order_id f) db = Some r" "fill_terms cfg quote_nonneg r f"
      using inv f by (auto simp: engine_inv_def list_all_iff fill_priced_def)
    obtain r0 where r0: "order_by_order_id (pfl_order_id f) db = Some r0" "r = order_terms r0"
      using r(1) by (auto simp: terms_at_def)
    have "order_wf r0" using inv order_by_order_id_mem[OF r0(1)] order_wf_mem by (auto simp: engine_inv_def)
    then have q: "flt (Fin 0) (pfl_qty f)" "isfinite (pfl_qty f)" using r(2) r0(2) by (auto simp: order_wf_def fill_terms_def)
    obtain qt m where "quote_nonneg qt" "mid_price qt = Some m" "fill_price cfg r qt m = Inr (Some (pfl_price f))"
      using r(2) by (auto simp: fill_terms_def)
    then have "fle (Fin 0) (pfl_price f)" using fill_price_nonneg cfg r(2) by (auto simp: cfg_ok_def fill_terms_def)
    then have t: "fle (Fin 0) (fmul (pfl_price f) (pfl_qty f))" using turnover_nonneg q by blast
    have fe: "pfl_fee f = fmul (fmul (pfl_price f) (pfl_qty f)) (bps_rate (pc_fee_bps cfg))" "pfl_fee f \<noteq> NaN"
      using r(2) unfolding fill_terms_def by blast+
    have "bps_ok (pc_fee_bps cfg)" using cfg by (simp add: cfg_ok_def)
    then have "fle (pfl_fee f) (fmul (pfl_price f) (pfl_qty f))"
      using fee_le[OF t wf_fmul] fe by metis
    then show ?thesis
      using q r0 by (simp add: entry_ok_def entry_of_def order_by_order_id_def)
  qed
  then show ?thesis by (simp add: list_all_iff)
qed

lemma ledger_of_reads:
  "has_reading ''cash_quote'' db \<Longrightarrow> lg_cash (ledger_of db) = cash_quote db"
  "has_reading ''realized_pnl'' db \<Longrightarrow> lg_realized (ledger_of db) = realized_pnl db"
  by (auto simp: ledger_of_def state_float_def float_of_state_def has_reading_def cash_quote_def realized_pnl_def read_state_def)

section \<open>Properties\<close>

text \<open>C6. The paper account refines the ledger: after any run of the engine, whatever the quotes were, the cash
  balance, the realised profit and every position are exactly what the ledger computes from the starting
  balance and the fills table, entry by entry in the order of the fills, and the ledger accepts each of
  them.\<close>

theorem paper_account_is_ledger:
  assumes "paper_reach cfg P db"
  shows "\<exists>L. ledger_run (map (entry_of (pst_orders db)) (pst_fills db)) (ledger_open (pc_starting_cash_quote cfg)) = Some L \<and>
     lg_cash L = cash_quote db \<and> lg_realized L = realized_pnl db \<and> (\<forall>y. lg_pos L y = position_of y db)"
proof -
  have inv: "engine_inv cfg P db" using assms by (rule paper_reach_inv)
  then have "ledger_inv (pc_starting_cash_quote cfg) db" by (simp add: engine_inv_def)
  moreover have "lg_pos (ledger_of db) y = position_of y db" for y by (simp add: ledger_of_def)
  ultimately show ?thesis
    using ledger_of_reads[of db] inv unfolding ledger_inv_def engine_inv_def by blast
qed

theorem paper_account_is_ledger_witness:
  "\<exists>db L. cash_quote db = Fin 910 \<and> ledger_run (map (entry_of (pst_orders db)) (pst_fills db)) (ledger_open (Fin 1000)) = Some L \<and>
     lg_cash L = Fin 910"
  using paper_account_is_ledger[OF sample_reach(2)[of "\<lambda>_. True"]] sample_db2(3)
  by (auto simp: sample_paper_cfg_def)

text \<open>C28. With fee and slippage rates between 0 and 10000 basis points, a starting balance that is not negative and
  quotes that are not negative, no position is ever negative, and the cash balance, as long as it is
  finite, is at least minus twice the tolerance \<open>FLOAT_CASH_EPSILON\<close> of the balance check (as binary64).\<close>

theorem paper_cash_bounded:
  assumes "paper_reach cfg quote_nonneg db" "cfg_ok cfg"
  shows "(\<forall>c. cash_quote db = Fin c \<longrightarrow> - (2 * eps_rat) \<le> c) \<and> (\<forall>y. fle (Fin 0) (fst (position_of y db)))"
proof -
  have inv: "engine_inv cfg quote_nonneg db" using assms(1) by (rule paper_reach_inv)
  have run: "ledger_run (map (entry_of (pst_orders db)) (pst_fills db)) (ledger_open (pc_starting_cash_quote cfg)) = Some (ledger_of db)"
    using inv by (simp add: engine_inv_def ledger_inv_def)
  have "ledger_ok (ledger_of db)"
    using ledger_run_ok[OF ledger_open_ok entries_ok[OF inv assms(2)] run] assms(2) by (simp add: cfg_ok_def)
  moreover have "lg_cash (ledger_of db) = cash_quote db" using inv ledger_of_reads by (simp add: engine_inv_def)
  moreover have "lg_pos (ledger_of db) y = position_of y db" for y by (simp add: ledger_of_def)
  ultimately show ?thesis unfolding ledger_ok_def cash_floor_def by metis
qed

theorem paper_cash_bounded_witness:
  "\<exists>db c. cash_quote db = Fin c \<and> - (2 * eps_rat) \<le> c \<and> pst_fills db = [sample_fill]"
proof -
  have "quote_nonneg sample_quote" by (simp add: quote_nonneg_def nonneg_quote_num_def sample_quote_def float_of_quote_def)
  moreover have "cfg_ok sample_paper_cfg"
    using mk_float_small[of "num.Bit0 (num.Bit0 num.One)"] wf_mk_float[of 1000]
    by (simp add: cfg_ok_def sample_paper_cfg_def bps_ok_def mk_float_small del: wf_float.simps wf_mk_float)
  ultimately show ?thesis
    using paper_cash_bounded[OF sample_reach(2)] sample_db2 by blast
qed

text \<open>C30. The paper store is well-formed: order ids and client order ids are unique, every order is new, filled,
  rejected or canceled, and the fills correspond one to one to the filled orders.\<close>

theorem paper_store_well_formed:
  assumes "paper_reach cfg P db"
  shows "distinct (map po_order_id (pst_orders db)) \<and> distinct (map po_client_order_id (pst_orders db)) \<and>
     (\<forall>r \<in> set (pst_orders db). known_status (po_status r)) \<and> distinct (map pfl_order_id (pst_fills db)) \<and>
     pfl_order_id ` set (pst_fills db) = po_order_id ` {r \<in> set (pst_orders db). po_status r = ''filled''}"
proof -
  have wf: "paper_wf db" using paper_reach_inv[OF assms] by (simp add: engine_inv_def)
  have "pfl_order_id f \<in> po_order_id ` {r \<in> set (pst_orders db). po_status r = ''filled''}" if "f \<in> set (pst_fills db)" for f
  proof -
    have "fill_of (pst_orders db) f" using wf that by (simp add: paper_wf_def list_all_iff)
    then obtain r where "r \<in> set (pst_orders db)" "po_order_id r = pfl_order_id f" "po_status r = ''filled''"
      unfolding fill_of_def by blast
    then show ?thesis by (intro image_eqI[of _ _ r]) simp_all
  qed
  then show ?thesis using wf by (auto simp: paper_wf_def list_all_iff order_wf_def)
qed

theorem paper_store_well_formed_witness:
  "\<exists>db :: paper_store. length (pst_fills db) = 1 \<and> distinct (map po_order_id (pst_orders db)) \<and>
     pfl_order_id ` set (pst_fills db) = po_order_id ` {r \<in> set (pst_orders db). po_status r = ''filled''}"
  by (rule exI[of _ sample_db2])
    (use paper_store_well_formed[OF sample_reach(2)[of "\<lambda>_. True", OF TrueI]] sample_db2(1) in simp)

text \<open>C29. An order is filled at most once, in full, and at terms it accepts: a fill of a limit order is never above the
  limit of a purchase nor below the limit of a sale, and its fee is the configured rate on the turnover.\<close>

theorem limit_orders_respected:
  assumes "paper_reach cfg P db" "f \<in> set (pst_fills db)"
  shows "\<exists>r. order_by_order_id (pfl_order_id f) db = Some r \<and> pfl_qty f = po_qty r \<and>
     pfl_fee f = fmul (fmul (pfl_price f) (pfl_qty f)) (bps_rate (pc_fee_bps cfg)) \<and>
     (po_order_type r = ''limit'' \<longrightarrow> (\<exists>lim. po_limit_price r = Some lim \<and>
        (po_side r = ''buy'' \<longrightarrow> fle (pfl_price f) lim) \<and> (po_side r \<noteq> ''buy'' \<longrightarrow> fle lim (pfl_price f))))"
proof -
  have inv: "engine_inv cfg P db" using assms(1) by (rule paper_reach_inv)
  obtain t where t: "terms_at (pfl_order_id f) db = Some t" "fill_terms cfg P t f"
    using inv assms(2) by (auto simp: engine_inv_def list_all_iff fill_priced_def)
  obtain r where r: "order_by_order_id (pfl_order_id f) db = Some r" "t = order_terms r"
    using t(1) by (auto simp: terms_at_def)
  have ft: "fill_terms cfg P r f" using t(2) r(2) by simp
  have "limit_terms r" using inv order_by_order_id_mem[OF r(1)] by (auto simp: engine_inv_def list_all_iff)
  then have lim: "\<exists>lim. po_limit_price r = Some lim" if "po_order_type r = ''limit''"
    using that by (auto simp: limit_terms_def)
  obtain q m where fp: "fill_price cfg r q m = Inr (Some (pfl_price f))" using ft by (auto simp: fill_terms_def)
  have "(po_side r = ''buy'' \<longrightarrow> fle (pfl_price f) l) \<and> (po_side r \<noteq> ''buy'' \<longrightarrow> fle l (pfl_price f))"
    if l: "po_order_type r = ''limit''" "po_limit_price r = Some l" for l
    using fp l by (auto simp: fill_price_def Let_def split: sum.splits if_splits dest: pymin_limit pymax_limit)
  then show ?thesis using r(1) ft lim unfolding fill_terms_def by blast
qed

theorem limit_orders_respected_witness:
  "\<exists>db r. order_by_order_id ''o1'' db = Some r \<and> pst_fills db = [sample_fill] \<and> pfl_qty sample_fill = po_qty r"
proof -
  have "sample_fill \<in> set (pst_fills sample_db2)" by (simp add: sample_db2)
  from limit_orders_respected[OF sample_reach(2)[of "\<lambda>_. True", OF TrueI] this] show ?thesis
    using sample_db2(1) by (auto simp: sample_fill_def)
qed

text \<open>Over any further run an order keeps its terms and never disappears, and once it is filled, rejected or
  canceled its row never changes again.\<close>

theorem paper_orders_final:
  assumes "paper_reach cfg P db" "(engine_step cfg P)\<^sup>*\<^sup>* db db'" "order_by_order_id i db = Some r"
  shows "\<exists>r'. order_by_order_id i db' = Some r' \<and> order_terms r' = order_terms r \<and> (po_status r \<noteq> ''new'' \<longrightarrow> r' = r)"
  using order_stays_steps[OF assms(1,2)] assms(3) by (simp add: order_stays_def)

theorem paper_orders_final_witness:
  "\<exists>db r. order_by_order_id ''o1'' db = Some r \<and> po_status r = ''filled'' \<and> order_terms r = order_terms sample_paper_order"
proof -
  have s: "(engine_step sample_paper_cfg (\<lambda>_. True))\<^sup>*\<^sup>* sample_db1 sample_db2" by (rule r_into_rtranclp[of "engine_step sample_paper_cfg (\<lambda>_. True)", OF sample_reach(3)]) simp
  have r: "order_by_order_id ''o1'' sample_db1 = Some sample_paper_order"
    by (simp add: order_by_order_id_def sample_db1 sample_paper_order_def select_key_Cons)
  obtain r' where "order_by_order_id ''o1'' sample_db2 = Some r'" "order_terms r' = order_terms sample_paper_order"
    using paper_orders_final[OF sample_reach(1)[of "\<lambda>_. True", OF TrueI] s r] by blast
  moreover have "order_by_order_id ''o1'' sample_db2 = Some (sample_paper_order\<lparr>po_status := ''filled''\<rparr>)"
    by (simp add: order_by_order_id_def sample_db2 sample_paper_order_def select_key_Cons)
  moreover have "po_status (sample_paper_order\<lparr>po_status := ''filled''\<rparr>) = ''filled''" by simp
  ultimately show ?thesis by (metis option.inject)
qed

text \<open>\<open>submit_order\<close> is idempotent in the client order id: after an accepted submission with a fresh order id the
  order is recorded as new with the submitted terms, no fill, position or balance has changed, and every
  later submission under the same client order id, whatever its arguments and the state of the guards,
  returns the recorded order and changes nothing.\<close>

theorem submit_idempotent:
  assumes s: "submit_paper_order env cfg oid clock now a db = Inr (SubmitNew x, db')"
    and fresh: "order_by_order_id oid db = None"
    and again: "sa_client_order_id a' = sa_client_order_id a"
  shows "\<exists>r. x = Some r \<and> order_by_order_id oid db' = Some r \<and> po_status r = ''new'' \<and> po_qty r = sa_qty a \<and>
     po_side r = strip (lower (sa_side a)) \<and> pst_orders db' = pst_orders db @ [r] \<and> pst_fills db' = pst_fills db \<and>
     pst_positions db' = pst_positions db \<and> pst_state db' = pst_state db \<and>
     submit_paper_order env' cfg' oid' clock' now' a' db' = Inr (SubmitExisting r, db')"
proof -
  have none: "order_by_client_id (sa_client_order_id a) db = None" and bad: "bad_args cfg a = None"
    and db': "db' = insert_paper_order now (order_of_args cfg oid clock a) db"
    and x: "x = order_by_client_id (sa_client_order_id a) db'"
    using s by (auto simp: submit_paper_order_def Let_def split: option.splits sum.splits prod.splits bool.splits)
  let ?o = "order_of_args cfg oid clock a"
  let ?r = "?o\<lparr>po_created_ts := now, po_limit_price := Option.bind (po_limit_price ?o) sql_real\<rparr>"
  have q: "sa_qty a \<noteq> NaN" using bad_args_None(3)[OF bad] by auto
  have orders: "pst_orders db' = pst_orders db @ [?r]"
    using none fresh q by (simp add: db' insert_paper_order_def order_by_client_id_def order_by_order_id_def order_of_args_def)
  have c: "order_by_client_id (sa_client_order_id a) db' = Some ?r"
    using none by (simp add: order_by_client_id_def orders select_key_append select_key_Cons order_of_args_def)
  moreover have "order_by_order_id oid db' = Some ?r"
    using fresh by (simp add: order_by_order_id_def orders select_key_append select_key_Cons order_of_args_def)
  moreover have "pst_fills db' = pst_fills db" "pst_positions db' = pst_positions db" "pst_state db' = pst_state db"
    by (simp_all add: db' insert_paper_order_def)
  moreover have "submit_paper_order env' cfg' oid' clock' now' a' db' = Inr (SubmitExisting ?r, db')"
    using c again by (simp add: submit_paper_order_def)
  ultimately show ?thesis using x orders by (intro exI[of _ ?r]) (simp add: order_of_args_def)
qed

theorem submit_idempotent_witness:
  "\<exists>r. submit_paper_order sample_gate_env sample_paper_cfg ''o2'' ''t9'' ''t9'' sample_submit_args sample_db1 =
     Inr (SubmitExisting r, sample_db1) \<and> po_status r = ''new''"
proof -
  have "order_by_order_id ''o1'' sample_db0 = None" by (simp add: order_by_order_id_def sample_db0)
  from submit_idempotent[OF sample_submit this refl] show ?thesis by blast
qed

text \<open>The pre-submit gate opens exactly when the snapshot is fresh, the system is not read-only, the market quality
  guard passes, there is a finite positive reference price, the safety gates could be loaded and allow the
  order, and the account can pay for a purchase or holds what is to be sold; a failure to load the safety
  gates closes it.\<close>

theorem pre_submit_gate_iff:
  "pre_submit_gate env cfg symbol order_type side qty limit_price db = Inr (True, why) \<longleftrightarrow>
     fst (is_snapshot_fresh (ge_now env) (Fin 5) (ge_snapshot env)) \<and> \<not> ge_read_only env \<and>
     (\<exists>mq ref gates gs. mq_check (ge_now env) (ge_mq_cfg env) (ge_mq_per env) (ge_quote env) = Inr mq \<and> mq_ok mq \<and>
        reference_price limit_price mq = Some ref \<and> isfinite ref \<and> flt (Fin 0) ref \<and>
        ge_gates env = Inr (gates, gs) \<and> fst (should_allow_order (ge_day env) qty ref gates gs) \<and> why = None \<and>
        (side = ''buy'' \<and> \<not> flt (cash_quote db) (estimated_cost cfg order_type limit_price ref qty) \<or>
         side = ''sell'' \<and> \<not> flt (fst (position_of (strip symbol) db)) qty \<or> side \<noteq> ''buy'' \<and> side \<noteq> ''sell''))"
    (is "?gate \<longleftrightarrow> ?fresh \<and> ?rw \<and> ?rest")
proof -
  have ref: "isfinite x \<and> flt (Fin 0) x" if "reference_price limit_price mq = Some x" for mq x
    using that by (cases x) (auto simp: reference_price_def split: option.splits if_splits)
  have funds: "funds_check cfg symbol order_type side qty limit_price r db = (True, w) \<longleftrightarrow> w = None \<and>
     (side = ''buy'' \<and> \<not> flt (cash_quote db) (estimated_cost cfg order_type limit_price r qty) \<or>
         side = ''sell'' \<and> \<not> flt (fst (position_of (strip symbol) db)) qty \<or> side \<noteq> ''buy'' \<and> side \<noteq> ''sell'')" for r w
    unfolding funds_check_def by (cases "side = ''buy''"; cases "side = ''sell''") (simp_all, auto)
  have safe: "fst (safety_answer env qty r) \<longleftrightarrow>
      (\<exists>gates gs. ge_gates env = Inr (gates, gs) \<and> fst (should_allow_order (ge_day env) qty r gates gs))" for r
    by (auto simp: safety_answer_def split: sum.splits prod.splits)
  have "?gate \<longleftrightarrow> ?fresh \<and> ?rw \<and> (\<exists>mq r. mq_check (ge_now env) (ge_mq_cfg env) (ge_mq_per env) (ge_quote env) = Inr mq \<and>
     mq_ok mq \<and> reference_price limit_price mq = Some r \<and> fst (safety_answer env qty r) \<and>
     funds_check cfg symbol order_type side qty limit_price r db = (True, why))"
    unfolding pre_submit_gate_def
    by (auto split: prod.splits bool.splits sum.splits option.splits)
  then show ?thesis unfolding funds safe using ref by blast
qed

section \<open>What the code does not prevent\<close>

lemma representable_64: "\<bar>m\<bar> \<le> 2 ^ 53 \<Longrightarrow> - 1074 \<le> e \<Longrightarrow> rnd64 (of_int m * 2 powi e) = of_int m * 2 powi e"
  unfolding rnd64_def by (rule round_sig_exact) (auto simp: representable_def)

definition ulp_cost :: rat where
  "ulp_cost = 2 ^ 23 + 1 / 2 ^ 29"

lemma ulp_cost_float: "mk_float ulp_cost = Fin ulp_cost" "mk_float (2 ^ 23 - ulp_cost) = Fin (- (1 / 2 ^ 29))"
proof -
  have "ulp_cost = of_int (2 ^ 52 + 1) * 2 powi (- 29)" by (simp add: ulp_cost_def power_int_def power_one_over)
  moreover have "rnd64 (of_int (2 ^ 52 + 1) * 2 powi (- 29)) = of_int (2 ^ 52 + 1) * 2 powi (- 29)"
    by (rule representable_64) simp_all
  ultimately have "rnd64 ulp_cost = ulp_cost" by (simp only:)
  then show "mk_float ulp_cost = Fin ulp_cost" by (rule mk_float_exact) (simp add: ulp_cost_def)
  have "rnd64 (- (1 / 2 ^ 29)) = - (1 / 2 ^ 29)" using representable_64[of "- 1" "- 29"] by (simp add: power_int_def power_one_over)
  then have "mk_float (- (1 / 2 ^ 29)) = Fin (- (1 / 2 ^ 29))" by (rule mk_float_exact) simp
  then show "mk_float (2 ^ 23 - ulp_cost) = Fin (- (1 / 2 ^ 29))" by (simp add: ulp_cost_def)
qed

lemma eps_bounds: "1 / 2 ^ 30 < eps_rat" "eps_rat < 1 / 2 ^ 29"
proof -
  have r: "rnd64 (of_int m / 2 ^ 33) = of_int m / 2 ^ 33" if "\<bar>m\<bar> \<le> 2 ^ 53" for m
    using representable_64[OF that, of "- 33"] by (simp add: power_int_def field_simps)
  have "eps_rat \<le> of_int 15 / 2 ^ 33" unfolding eps_rat_def using r[of 15] by (intro f64.le_exact) simp_all
  then show "eps_rat < 1 / 2 ^ 29" by simp
  have "rnd64 (of_int 17 / 2 ^ 34) = of_int 17 / 2 ^ 34"
    using representable_64[of 17 "- 34"] by (simp add: power_int_def field_simps)
  then have "of_int 17 / 2 ^ 34 \<le> eps_rat" unfolding eps_rat_def by (intro f64.ge_exact) simp_all
  then show "1 / 2 ^ 30 < eps_rat" by simp
qed

lemma balance_check_overshoots: "fadd (Fin (2 ^ 23)) cash_eps = Fin ulp_cost"
proof -
  let ?x = "2 ^ 23 + eps_rat"
  have x: "0 < ?x" using eps_rat(1) by (simp add: add_pos_nonneg)
  have "ilog 2 ?x = 23" by (rule ilog_unique) (use eps_bounds in \<open>simp_all add: power_int_def\<close>)
  then have u: "unit_exp 2 53 (- 1074) ?x = - 29" using x by (simp add: unit_exp_def)
  have s: "?x / 2 powi (- 29) = of_int (2 ^ 52) + 2 ^ 29 * eps_rat"
    by (simp add: power_int_def power_one_over field_simps)
  have "1 / 2 < 2 ^ 29 * eps_rat" "2 ^ 29 * eps_rat < 1" using eps_bounds by simp_all
  moreover then have "\<lfloor>of_int (2 ^ 52) + 2 ^ 29 * eps_rat\<rfloor> = 2 ^ 52" by linarith
  ultimately have "round_half_even (?x / 2 powi (- 29)) = 2 ^ 52 + 1"
    unfolding s round_half_even_def Let_def by simp
  then have "rnd64 ?x = of_int (2 ^ 52 + 1) * 2 powi (- 29)" using round_sig_pos[OF x, of 2 53 "- 1074"] u
    by (simp add: rnd64_def)
  also have "\<dots> = ulp_cost" by (simp add: ulp_cost_def power_int_def power_one_over)
  finally have "rnd64 ?x = ulp_cost" .
  moreover have "\<not> 2 ^ 1024 \<le> ulp_cost" "\<not> ulp_cost \<le> - (2 ^ 1024)" by (simp_all add: ulp_cost_def)
  ultimately have "mk_float ?x = Fin ulp_cost" unfolding mk_float_def Let_def by (simp only: if_False)
  then show ?thesis by (simp only: cash_eps_Fin fadd.simps)
qed

text \<open>The tolerance of the balance check can be overshot: the sum of balance and tolerance is rounded, and with a
  balance of \<open>2 ^ 23\<close> a cost one unit in the last place above it is accepted; the balance that is left is
  negative and larger in size than the tolerance, so it is not reset to zero.\<close>

theorem paper_cash_can_go_negative:
  "\<exists>a'. paper_buy (Fin ulp_cost) (Fin 1) (Fin 0)
      \<lparr>pa_qty = Fin 0, pa_avg = Fin 0, pa_pos_realized = Fin 0, pa_cash = Fin (2 ^ 23), pa_realized = Fin 0\<rparr> = StepBook a' (Fin 0) \<and>
     pa_cash a' = Fin (- (1 / 2 ^ 29))"
proof -
  have "\<not> 1 / 2 ^ 29 \<le> eps_rat" using eps_bounds(2) by simp
  then show ?thesis
    using balance_check_overshoots ulp_cost_float
    by (simp add: paper_buy_def Let_def fsub_def cash_eps_Fin mk_float_one)
qed

text \<open>
  \<open>cancel_order\<close> reads the status and writes \<open>canceled\<close> in two transactions. When another process fills the
  order in between, the order ends as canceled although its fill is booked.
\<close>

theorem cancel_overwrites_concurrent_fill:
  "\<exists>db r. order_by_client_id ''c1'' sample_db1 = Some r \<and> po_status r = ''new'' \<and>
     engine_step sample_paper_cfg (\<lambda>_. True) sample_db1 sample_db2 \<and>
     db = update_order_status (po_order_id r) ''canceled'' None sample_db2 \<and>
     pfl_order_id ` set (pst_fills db) = {''o1''} \<and> map po_status (pst_orders db) = [''canceled'']"
  using sample_reach(3)[of "\<lambda>_. True"]
  by (simp add: order_by_client_id_def sample_db1 sample_db2 sample_paper_order_def select_key_Cons update_order_status_def upd_where_def
      sample_fill_def)

end
