(* ===== verification/Py_Json.thy ===== *)
theory Py_Json
  imports Py_Prelude
begin

text \<open>
  Dictionaries that arrive as JSON (exchange orders and trades, fill reports): \<open>d.get(k)\<close>, truthiness and
  \<open>or\<close>, \<open>str(v)\<close> with \<open>repr\<close> of nested values, \<open>float(v)\<close> with the grammar of Python's float literals,
  \<open>json.dumps(..., sort_keys=True)\<close> as the value with its keys in order, and \<open>math.isclose\<close>.
\<close>

section \<open>Lookup and truth\<close>

definition jget :: "string \<Rightarrow> dict \<Rightarrow> json" where
  "jget k d = (case map_of d k of None \<Rightarrow> JNull | Some v \<Rightarrow> v)"

fun jtruthy :: "json \<Rightarrow> bool" where
  "jtruthy JNull = False"
| "jtruthy (JBool b) = b"
| "jtruthy (JInt n) = (n \<noteq> 0)"
| "jtruthy (JFloat f) = (f \<noteq> Fin 0)"
| "jtruthy (JStr s) = (s \<noteq> '''')"
| "jtruthy (JList xs) = (xs \<noteq> [])"
| "jtruthy (JObj d) = (d \<noteq> [])"

definition jor :: "json \<Rightarrow> json \<Rightarrow> json" where
  "jor v w = (if jtruthy v then v else w)"

text \<open>The dictionary of a value that is one, \<open>isinstance(v, dict)\<close>.\<close>

definition jdict :: "json \<Rightarrow> dict option" where
  "jdict v = (case v of JObj d \<Rightarrow> Some d | _ \<Rightarrow> None)"

text \<open>The first truthy value under the keys.\<close>

fun first_truthy :: "string list \<Rightarrow> dict \<Rightarrow> json option" where
  "first_truthy [] d = None"
| "first_truthy (k # ks) d = (if jtruthy (jget k d) then Some (jget k d) else first_truthy ks d)"

text \<open>\<open>s.upper()\<close>: a sharp s becomes two letters; the micro sign and y with diaeresis, whose capitals lie above 255,
  stay as they are.\<close>

definition upper :: "string \<Rightarrow> string" where
  "upper s = concat (map (\<lambda>c. let n = (of_char c :: nat)
     in if (97 \<le> n \<and> n \<le> 122) \<or> (224 \<le> n \<and> n \<le> 254 \<and> n \<noteq> 247) then [char_of (n - 32)]
        else if n = 223 then ''SS'' else [c]) s)"

text \<open>The text after the first occurrence of a token, and the first word of a text.\<close>

fun after_token :: "string \<Rightarrow> string \<Rightarrow> string option" where
  "after_token tok [] = (if tok = [] then Some [] else None)"
| "after_token tok (c # cs) =
     (if take (length tok) (c # cs) = tok then Some (drop (length tok) (c # cs)) else after_token tok cs)"

definition first_word :: "string \<Rightarrow> string" where
  "first_word s = takeWhile (\<lambda>c. \<not> is_space c) (lstrip s)"

section \<open>Text of values\<close>

text \<open>\<open>repr\<close> of a float: the shortest digits, plain between \<open>1e-4\<close> and \<open>1e16\<close>, scientific outside.\<close>

fun drop_zeros :: "nat \<Rightarrow> nat \<Rightarrow> nat" where
  "drop_zeros 0 m = m"
| "drop_zeros (Suc k) m = (if m mod 10 = 0 \<and> m \<noteq> 0 then drop_zeros k (m div 10) else m)"

definition sig_digits :: "rat \<Rightarrow> string" where
  "sig_digits d = nat_text (drop_zeros 17 (nat \<lfloor>d * 10 powi (17 - ilog 10 d)\<rfloor>))"

definition pad_right :: "nat \<Rightarrow> string \<Rightarrow> string" where
  "pad_right n s = s @ replicate (n - length s) (CHR ''0'')"

definition exp_text :: "int \<Rightarrow> string" where
  "exp_text e = (if e < 0 then ''e-'' else ''e+'') @
     (if \<bar>e\<bar> < 10 then ''0'' else '''') @ nat_text (nat \<bar>e\<bar>)"

definition pos_repr :: "rat \<Rightarrow> string" where
  "pos_repr d =
     (let ds = sig_digits d; e = ilog 10 d
      in if - 4 \<le> e \<and> e < 16 then
           (if e < 0 then ''0.'' @ replicate (nat (- e - 1)) (CHR ''0'') @ ds
            else (let n = Suc (nat e); p = pad_right n ds
                  in take n p @ ''.'' @ str_or (drop n p) ''0''))
         else take 1 ds @ (if length ds \<le> 1 then '''' else ''.'' @ drop 1 ds) @ exp_text e)"

definition float_repr :: "pyfloat \<Rightarrow> string" where
  "float_repr f =
     (case f of
        Fin x \<Rightarrow> if x = 0 then ''0.0''
                 else (if x < 0 then ''-'' else '''') @ pos_repr \<bar>repr_rat x\<bar>
      | PInf \<Rightarrow> ''inf'' | NInf \<Rightarrow> ''-inf'' | NaN \<Rightarrow> ''nan'')"

definition hex_digit :: "nat \<Rightarrow> char" where
  "hex_digit n = (if n < 10 then char_of (48 + n) else char_of (87 + n))"

definition repr_char :: "char \<Rightarrow> char \<Rightarrow> string" where
  "repr_char quote c =
     (let n = (of_char c :: nat)
      in if c = quote \<or> n = 92 then [char_of (92 :: nat), c]
         else if n = 9 then [char_of (92 :: nat), CHR ''t'']
         else if n = 10 then [char_of (92 :: nat), CHR ''n'']
         else if n = 13 then [char_of (92 :: nat), CHR ''r'']
         else if n < 32 \<or> (127 \<le> n \<and> n \<le> 160) \<or> n = 173
           then [char_of (92 :: nat), CHR ''x'', hex_digit (n div 16), hex_digit (n mod 16)]
         else [c])"

definition str_repr :: "string \<Rightarrow> string" where
  "str_repr s =
     (let q = (if char_of (39 :: nat) \<in> set s \<and> char_of (34 :: nat) \<notin> set s
               then char_of (34 :: nat) else char_of (39 :: nat))
      in [q] @ concat (map (repr_char q) s) @ [q])"

fun comma_sep :: "string list \<Rightarrow> string" where
  "comma_sep [] = ''''"
| "comma_sep [s] = s"
| "comma_sep (s # ss) = s @ '', '' @ comma_sep ss"

fun json_repr :: "json \<Rightarrow> string" where
  "json_repr JNull = ''None''"
| "json_repr (JBool b) = (if b then ''True'' else ''False'')"
| "json_repr (JInt n) = int_text n"
| "json_repr (JFloat f) = float_repr f"
| "json_repr (JStr s) = str_repr s"
| "json_repr (JList xs) = ''['' @ comma_sep (map json_repr xs) @ '']''"
| "json_repr (JObj d) = ''{'' @ comma_sep (map (\<lambda>(k, v). str_repr k @ '': '' @ json_repr v) d) @ ''}''"

definition json_str :: "json \<Rightarrow> string" where
  "json_str v = (case v of JStr s \<Rightarrow> s | _ \<Rightarrow> json_repr v)"

lemma json_str_JStr [simp]: "json_str (JStr s) = s"
  by (simp add: json_str_def)

section \<open>Numbers of values\<close>

text \<open>Digits with single underscores between them; \<open>None\<close> for anything else. The answer is the value and the
  number of digits.\<close>

definition is_digit :: "char \<Rightarrow> bool" where
  "is_digit c = (48 \<le> (of_char c :: nat) \<and> (of_char c :: nat) \<le> 57)"

definition digit_value :: "char \<Rightarrow> nat" where
  "digit_value c = of_char c - 48"

fun read_digits :: "nat \<Rightarrow> nat \<Rightarrow> string \<Rightarrow> (nat \<times> nat) option" where
  "read_digits v n [] = (if n = 0 then None else Some (v, n))"
| "read_digits v n (c # cs) =
     (if is_digit c then read_digits (10 * v + digit_value c) (Suc n) cs
      else if c = CHR ''_'' \<and> n \<noteq> 0 \<and> cs \<noteq> [] \<and> is_digit (hd cs) then read_digits v n cs
      else None)"

definition split_sign :: "string \<Rightarrow> int \<times> string" where
  "split_sign s = (case s of
     c # cs \<Rightarrow> if c = CHR ''-'' then (- 1, cs) else if c = CHR ''+'' then (1, cs) else (1, s)
   | [] \<Rightarrow> (1, s))"

text \<open>The text before the first character satisfying \<open>P\<close>, and what follows that character.\<close>

definition split_at :: "(char \<Rightarrow> bool) \<Rightarrow> string \<Rightarrow> string \<times> string option" where
  "split_at P s = (let r = dropWhile (\<lambda>c. \<not> P c) s
     in (takeWhile (\<lambda>c. \<not> P c) s, if r = [] then None else Some (tl r)))"

definition read_mantissa :: "string \<Rightarrow> rat option" where
  "read_mantissa s =
     (case split_at (\<lambda>c. c = CHR ''.'') s of
        (a, None) \<Rightarrow> map_option (\<lambda>(v, n). of_nat v) (read_digits 0 0 a)
      | (a, Some b) \<Rightarrow>
          if a = '''' \<and> b = '''' then None
          else (case (if a = '''' then Some (0, 0) else read_digits 0 0 a,
                      if b = '''' then Some (0, 0) else read_digits 0 0 b) of
                  (Some (v, _), Some (w, m)) \<Rightarrow> Some (of_nat v + of_nat w / 10 ^ m)
                | _ \<Rightarrow> None))"

definition read_exponent :: "string option \<Rightarrow> int option" where
  "read_exponent e =
     (case e of None \<Rightarrow> Some 0
      | Some s \<Rightarrow> (let (sg, ds) = split_sign s in map_option (\<lambda>(v, n). sg * int v) (read_digits 0 0 ds)))"

definition float_of_text :: "string \<Rightarrow> pyfloat option" where
  "float_of_text raw =
     (let (sg, s) = split_sign (lower (strip raw))
      in if s = ''nan'' then Some NaN
         else if s = ''inf'' \<or> s = ''infinity'' then Some (if sg < 0 then NInf else PInf)
         else (case split_at (\<lambda>c. c = CHR ''e'') s of
                 (m, e) \<Rightarrow>
                   (case (read_mantissa m, read_exponent e) of
                      (Some x, Some k) \<Rightarrow> Some (mk_float (of_int sg * x * 10 powi k))
                    | _ \<Rightarrow> None)))"

text \<open>\<open>float(v)\<close>: \<open>OverflowError\<close> for an integer beyond the double range.\<close>

fun json_float :: "json \<Rightarrow> exn + pyfloat" where
  "json_float JNull = Inl (TypeError ''float'')"
| "json_float (JBool b) = Inr (Fin (if b then 1 else 0))"
| "json_float (JInt n) = (let f = mk_float (of_int n) in if isfinite f then Inr f else Inl OverflowError)"
| "json_float (JFloat f) = Inr f"
| "json_float (JStr s) = (case float_of_text s of None \<Rightarrow> Inl (ValueError ''float'') | Some f \<Rightarrow> Inr f)"
| "json_float (JList _) = Inl (TypeError ''float'')"
| "json_float (JObj _) = Inl (TypeError ''float'')"

text \<open>\<open>int(v)\<close> of a number or an integer literal.\<close>

definition float_int :: "pyfloat \<Rightarrow> exn + int" where
  "float_int f = (case f of Fin x \<Rightarrow> Inr (trunc_rat x) | NaN \<Rightarrow> Inl (ValueError ''int'') | _ \<Rightarrow> Inl OverflowError)"

definition int_of_text :: "string \<Rightarrow> int option" where
  "int_of_text raw = (let (sg, ds) = split_sign (strip raw) in map_option (\<lambda>(v, n). sg * int v) (read_digits 0 0 ds))"

fun json_int :: "json \<Rightarrow> exn + int" where
  "json_int JNull = Inl (TypeError ''int'')"
| "json_int (JBool b) = Inr (if b then 1 else 0)"
| "json_int (JInt n) = Inr n"
| "json_int (JFloat f) = float_int f"
| "json_int (JStr s) = (case int_of_text s of None \<Rightarrow> Inl (ValueError ''int'') | Some n \<Rightarrow> Inr n)"
| "json_int (JList _) = Inl (TypeError ''int'')"
| "json_int (JObj _) = Inl (TypeError ''int'')"

section \<open>Sorted dumps\<close>

text \<open>\<open>json.dumps(v, sort_keys=True, allow_nan=False)\<close> identifies a value up to the order of its keys and refuses
  NaN and the infinities; the text is kept as the value with sorted keys.\<close>

fun dumps_sorted :: "json \<Rightarrow> exn + json" and dumps_list :: "json list \<Rightarrow> exn + json list"
  and dumps_fields :: "(string \<times> json) list \<Rightarrow> exn + (string \<times> json) list" where
  "dumps_sorted (JFloat f) = (if isfinite f then Inr (JFloat f) else Inl (ValueError ''Out of range float values are not JSON compliant''))"
| "dumps_sorted (JList xs) = (case dumps_list xs of Inl e \<Rightarrow> Inl e | Inr ys \<Rightarrow> Inr (JList ys))"
| "dumps_sorted (JObj d) = (case dumps_fields d of Inl e \<Rightarrow> Inl e | Inr ys \<Rightarrow> Inr (JObj (sort_key fst ys)))"
| "dumps_sorted v = Inr v"
| "dumps_list [] = Inr []"
| "dumps_list (x # xs) =
     (case dumps_sorted x of Inl e \<Rightarrow> Inl e
      | Inr y \<Rightarrow> (case dumps_list xs of Inl e \<Rightarrow> Inl e | Inr ys \<Rightarrow> Inr (y # ys)))"
| "dumps_fields [] = Inr []"
| "dumps_fields ((k, x) # xs) =
     (case dumps_sorted x of Inl e \<Rightarrow> Inl e
      | Inr y \<Rightarrow> (case dumps_fields xs of Inl e \<Rightarrow> Inl e | Inr ys \<Rightarrow> Inr ((k, y) # ys)))"

definition dumps_dict :: "dict \<Rightarrow> exn + dict" where
  "dumps_dict d = map_sum id (sort_key fst) (dumps_fields d)"

section \<open>Closeness\<close>

text \<open>\<open>math.isclose(a, b, rel_tol=rel, abs_tol=tol)\<close>\<close>

definition isclose :: "pyfloat \<Rightarrow> pyfloat \<Rightarrow> pyfloat \<Rightarrow> pyfloat \<Rightarrow> bool" where
  "isclose rel tol a b =
     (if a = b \<and> a \<noteq> NaN then True
      else if \<not> isfinite a \<or> \<not> isfinite b then False
      else (let diff = fabs (fsub b a)
            in fle diff (fabs (fmul rel b)) \<or> fle diff (fabs (fmul rel a)) \<or> fle diff tol))"

text \<open>Sorted dumps keep the text fields of a dictionary.\<close>

lemma dumps_fields_keys: "dumps_fields d = Inr d' \<Longrightarrow> map fst d' = map fst d"
  by (induction d arbitrary: d') (auto split: sum.splits)

lemma dumps_fields_get:
  "dumps_fields d = Inr d' \<Longrightarrow> map_of d k = Some (JStr x) \<Longrightarrow> map_of d' k = Some (JStr x)"
  by (induction d arbitrary: d') (auto split: sum.splits if_splits)

lemma map_of_sort_key:
  assumes "distinct (map fst d)"
  shows "map_of (sort_key fst d) k = map_of d k"
proof (rule option.expand, goal_cases)
  case 1
  have "fst ` set (sort_key fst d) = fst ` set d" by simp
  then show ?case by (simp add: map_of_eq_None_iff)
next
  case 2
  have s: "distinct (map fst (sort_key fst d))"
    using assms by (simp add: distinct_map inj_on_def)
  obtain v where v: "map_of d k = Some v" using 2 by auto
  then have "map_of (sort_key fst d) k = Some v" using s assms by (simp add: map_of_eq_Some_iff)
  then show ?case using v by simp
qed

lemma jget_dumps:
  assumes "dumps_dict d = Inr p" "distinct (map fst d)" "jget k d = JStr x"
  shows "jget k p = JStr x"
proof -
  obtain d' where d': "dumps_fields d = Inr d'" "p = sort_key fst d'"
    using assms(1) by (cases "dumps_fields d") (auto simp: dumps_dict_def)
  have "map_of d k = Some (JStr x)" using assms(3) by (auto simp: jget_def split: option.splits)
  then have "map_of d' k = Some (JStr x)" using dumps_fields_get d'(1) by blast
  moreover have "distinct (map fst d')" using dumps_fields_keys[OF d'(1)] assms(2) by simp
  ultimately show ?thesis by (simp add: jget_def d'(2) map_of_sort_key)
qed

text \<open>\<open>Decimal(str(v))\<close> of a value.\<close>

definition decimal_of_text :: "string \<Rightarrow> num_arg" where
  "decimal_of_text raw =
     (let (sg, s) = split_sign (lower (strip raw))
      in if s = ''inf'' \<or> s = ''infinity'' \<or> take 3 s = ''nan'' \<and> list_all is_digit (drop 3 s) \<or>
            take 4 s = ''snan'' \<and> list_all is_digit (drop 4 s) then NumNonFinite
         else (case split_at (\<lambda>c. c = CHR ''e'') s of
                 (m, e) \<Rightarrow>
                   (case (read_mantissa m, read_exponent e) of
                      (Some x, Some k) \<Rightarrow> NumFin (of_int sg * x * 10 powi k)
                    | _ \<Rightarrow> NumInvalid)))"

definition json_num :: "json \<Rightarrow> num_arg" where
  "json_num v = (case v of JInt n \<Rightarrow> NumFin (of_int n) | JFloat f \<Rightarrow> num_of_float f | JStr s \<Rightarrow> decimal_of_text s | _ \<Rightarrow> NumInvalid)"

end
