(* ===== verification/Paper_Reconciler.thy ===== *)
theory Paper_Reconciler
  imports Paper_Account State_Authority Claim_Once Py_Json
begin

text \<open>
  services/execution/intent\_reconciler.py with storage/trade\_journal\_sqlite.py: the process that carries the
  outcome of paper orders back to the paper intent queue and journals their fills. \<open>reconcile_once\<close> reads
  the paper store, writes the queue through the state authority and appends to the journal, whose
  \<open>INSERT OR IGNORE\<close> keeps one row per fill id. Every database call and the log of strategy outcomes can raise, as can the
  conversion of an intent's metadata; nothing catches these exceptions but that of reading a state value, so each other one stops the pass where it is. What the log of
  outcomes holds, the lock, stop and status files, the polling loop and other writers of the queue during a pass are not
  modelled; the clock is an argument.
\<close>

section \<open>The trade journal\<close>

record journal_fill =
  jf_fill_id :: string
  jf_journal_ts :: string
  jf_intent_id :: "string option"
  jf_source :: "string option"
  jf_strategy_id :: "string option"
  jf_client_order_id :: "string option"
  jf_order_id :: string
  jf_fill_ts :: string
  jf_venue :: string
  jf_symbol :: string
  jf_side :: string
  jf_qty :: pyfloat
  jf_price :: pyfloat
  jf_fee :: pyfloat
  jf_fee_currency :: string
  jf_cash_quote :: "pyfloat option"
  jf_pos_qty :: "pyfloat option"
  jf_pos_avg_price :: "pyfloat option"
  jf_realized_pnl_total :: "pyfloat option"

definition journal_insert_fill :: "journal_fill \<Rightarrow> journal_fill list \<Rightarrow> journal_fill list" where
  "journal_insert_fill f j =
     (if select_key jf_fill_id (jf_fill_id f) j \<noteq> None \<or> jf_qty f = NaN \<or> jf_price f = NaN \<or> jf_fee f = NaN
      then j
      else j @ [f\<lparr>jf_cash_quote := Option.bind (jf_cash_quote f) sql_real, jf_pos_qty := Option.bind (jf_pos_qty f) sql_real,
                  jf_pos_avg_price := Option.bind (jf_pos_avg_price f) sql_real,
                  jf_realized_pnl_total := Option.bind (jf_realized_pnl_total f) sql_real\<rparr>])"

definition journal_list_fills :: "int \<Rightarrow> journal_fill list \<Rightarrow> journal_fill list" where
  "journal_list_fills limit j = sql_limit limit (order_by_desc jf_journal_ts j)"

definition journal_count :: "journal_fill list \<Rightarrow> nat" where
  "journal_count j = length j"

section \<open>One pass\<close>

definition reconciler_ctx :: live_state_context where
  "reconciler_ctx = \<lparr>ctx_authority = RECONCILER, ctx_origin = ''intent_reconciler''\<rparr>"

definition intent_snap :: "paper_intent \<Rightarrow> intent_snapshot" where
  "intent_snap x = \<lparr>snap_intent_id = Some (pi_intent_id x), snap_status = Some (pi_status x)\<rparr>"

text \<open>What stops a pass: a violation the state authority raises, or another exception.\<close>

datatype reconcile_stop = Violated state_violation | Raised exn

text \<open>The exceptions of a pass: of listing the submitted intents and of counting the journal; for an intent, of looking up its order, of reading its
  fills and position and of its status write; for a fill, of its journal write and of \<open>log_strategy_outcome\<close>, which appends to a file; and of reading a
  state value, which alone is caught.\<close>

record reconcile_faults =
  rf_list :: "exn option"
  rf_count :: "exn option"
  rf_order :: "string \<Rightarrow> exn option"
  rf_fills :: "string \<Rightarrow> exn option"
  rf_status :: "string \<Rightarrow> exn option"
  rf_journal :: "string \<Rightarrow> exn option"
  rf_log :: "string \<Rightarrow> exn option"
  rf_state :: "string \<Rightarrow> exn option"

text \<open>\<open>float(v or "0.0")\<close>, None when it or the read of the value raises.\<close>

definition journal_state :: "reconcile_faults \<Rightarrow> string \<Rightarrow> paper_store \<Rightarrow> pyfloat option" where
  "journal_state rf k pdb =
     (if rf_state rf k \<noteq> None then None else case float_of_state (paper_state k pdb) of Inl _ \<Rightarrow> None | Inr v \<Rightarrow> Some v)"

definition journal_row :: "reconcile_faults \<Rightarrow> string \<Rightarrow> paper_store \<Rightarrow> paper_intent \<Rightarrow> string \<Rightarrow> paper_order \<Rightarrow> paper_fill \<Rightarrow> journal_fill" where
  "journal_row rf now pdb x oid r f =
     \<lparr>jf_fill_id = pfl_fill_id f, jf_journal_ts = now, jf_intent_id = Some (pi_intent_id x), jf_source = Some (pi_source x),
      jf_strategy_id = pi_strategy_id x, jf_client_order_id = pi_client_order_id x, jf_order_id = oid, jf_fill_ts = pfl_ts f,
      jf_venue = po_venue r, jf_symbol = po_symbol r, jf_side = po_side r, jf_qty = pfl_qty f, jf_price = pfl_price f,
      jf_fee = pfl_fee f, jf_fee_currency = pfl_fee_currency f, jf_cash_quote = journal_state rf ''cash_quote'' pdb,
      jf_pos_qty = map_option pp_qty (get_paper_position (po_symbol r) pdb),
      jf_pos_avg_price = map_option pp_avg_price (get_paper_position (po_symbol r) pdb),
      jf_realized_pnl_total = journal_state rf ''realized_pnl'' pdb\<rparr>"

text \<open>\<open>dict(v)\<close> of a decoded JSON value: a mapping is copied; a sequence must hold pairs with a hashable first part.\<close>

definition dict_pair :: "json \<Rightarrow> exn + json \<times> json" where
  "dict_pair v =
     (case v of
        JList [JList _, _] \<Rightarrow> Inl (TypeError ''unhashable type'')
      | JList [JObj _, _] \<Rightarrow> Inl (TypeError ''unhashable type'')
      | JList [a, b] \<Rightarrow> Inr (a, b)
      | JStr [a, b] \<Rightarrow> Inr (JStr [a], JStr [b])
      | JObj [(a, _), (b, _)] \<Rightarrow> Inr (JStr a, JStr b)
      | JList _ \<Rightarrow> Inl (ValueError ''dictionary update sequence element'')
      | JStr _ \<Rightarrow> Inl (ValueError ''dictionary update sequence element'')
      | JObj _ \<Rightarrow> Inl (ValueError ''dictionary update sequence element'')
      | _ \<Rightarrow> Inl (TypeError ''cannot convert dictionary update sequence element''))"

fun dict_pairs :: "json list \<Rightarrow> exn + (json \<times> json) list" where
  "dict_pairs [] = Inr []"
| "dict_pairs (v # vs) =
     (case dict_pair v of
        Inl e \<Rightarrow> Inl e
      | Inr p \<Rightarrow> (case dict_pairs vs of Inl e \<Rightarrow> Inl e | Inr ps \<Rightarrow> Inr (p # ps)))"

definition py_dict :: "json \<Rightarrow> exn + (json \<times> json) list" where
  "py_dict v =
     (case v of
        JObj d \<Rightarrow> Inr (map (\<lambda>(k, x). (JStr k, x)) d)
      | JList vs \<Rightarrow> dict_pairs vs
      | JStr cs \<Rightarrow> dict_pairs (map (\<lambda>c. JStr [c]) cs)
      | _ \<Rightarrow> Inl (TypeError ''object is not iterable''))"

text \<open>\<open>dict(it.get("meta") or {})\<close>\<close>

definition intent_meta :: "paper_intent \<Rightarrow> exn + (json \<times> json) list" where
  "intent_meta x = py_dict (jor (case pi_meta x of None \<Rightarrow> JNull | Some v \<Rightarrow> v) (JObj []))"

text \<open>The loop over the fills: each is journaled, then logged.\<close>

fun journal_fills ::
    "reconcile_faults \<Rightarrow> (paper_fill \<Rightarrow> journal_fill) \<Rightarrow> paper_fill list \<Rightarrow> journal_fill list \<Rightarrow> exn option \<times> journal_fill list" where
  "journal_fills rf row [] j = (None, j)"
| "journal_fills rf row (f # fs) j =
     (case rf_journal rf (pfl_fill_id f) of
        Some e \<Rightarrow> (Some e, j)
      | None \<Rightarrow>
          (case rf_log rf (pfl_fill_id f) of
             Some e \<Rightarrow> (Some e, journal_insert_fill (row f) j)
           | None \<Rightarrow> journal_fills rf row fs (journal_insert_fill (row f) j)))"

definition reconcile_status ::
    "reconcile_faults \<Rightarrow> string \<Rightarrow> paper_intent \<Rightarrow> string \<Rightarrow> string option \<Rightarrow> string \<Rightarrow> paper_queue \<Rightarrow> reconcile_stop + paper_queue" where
  "reconcile_status rf now x st last_error oid q =
     (case paper_queue_status now (intent_snap x) (Some st) (Some reconciler_ctx) last_error (pi_client_order_id x) (Some oid) q of
        Inl e \<Rightarrow> Inl (Violated e)
      | Inr q' \<Rightarrow> (case rf_status rf (pi_intent_id x) of Some e \<Rightarrow> Inl (Raised e) | None \<Rightarrow> Inr q'))"

text \<open>The body of the loop: the counts of updated intents and journaled fills, or what stops the
  pass, with the queue and the journal.\<close>

type_synonym 'a reconcile_result = "(reconcile_stop + 'a) \<times> paper_queue \<times> journal_fill list"

definition reconcile_filled ::
    "reconcile_faults \<Rightarrow> string \<Rightarrow> paper_store \<Rightarrow> paper_intent \<Rightarrow> string \<Rightarrow> paper_order \<Rightarrow> paper_queue \<Rightarrow> journal_fill list \<Rightarrow> (nat \<times> nat) reconcile_result" where
  "reconcile_filled rf now pdb x oid r q j =
     (case rf_fills rf (pi_intent_id x) of
        Some e \<Rightarrow> (Inl (Raised e), q, j)
      | None \<Rightarrow>
          (case intent_meta x of
             Inl e \<Rightarrow> (Inl (Raised e), q, j)
           | Inr meta \<Rightarrow>
               (let fills = list_fills_for_order oid 5000 pdb
                in case journal_fills rf (journal_row rf now pdb x oid r) fills j of
                     (Some e, j') \<Rightarrow> (Inl (Raised e), q, j')
                   | (None, j') \<Rightarrow>
                       (case reconcile_status rf now x ''filled'' None oid q of
                          Inl e \<Rightarrow> (Inl e, q, j') | Inr q' \<Rightarrow> (Inr (1, length fills), q', j')))))"

definition reconcile_intent ::
    "reconcile_faults \<Rightarrow> string \<Rightarrow> paper_store \<Rightarrow> paper_intent \<Rightarrow> paper_queue \<Rightarrow> journal_fill list \<Rightarrow> (nat \<times> nat) reconcile_result" where
  "reconcile_intent rf now pdb x q j =
     (let oid = strip (opt_str_or (pi_linked_order_id x) '''')
      in if oid = '''' then (Inr (0, 0), q, j)
         else case rf_order rf (pi_intent_id x) of
                Some e \<Rightarrow> (Inl (Raised e), q, j)
              | None \<Rightarrow>
             (case order_by_order_id oid pdb of
                None \<Rightarrow> (Inr (0, 0), q, j)
              | Some r \<Rightarrow>
             (let st = strip (lower (po_status r))
              in if st = ''new'' then (Inr (0, 0), q, j)
                 else if st = ''rejected'' \<or> st = ''canceled'' then
                   (case reconcile_status rf now x st (po_reject_reason r) oid q of
                      Inl e \<Rightarrow> (Inl e, q, j) | Inr q' \<Rightarrow> (Inr (1, 0), q', j))
                 else if st = ''filled'' then reconcile_filled rf now pdb x oid r q j
                 else (Inr (0, 0), q, j))))"

fun reconcile_intents ::
    "reconcile_faults \<Rightarrow> string \<Rightarrow> paper_store \<Rightarrow> paper_intent list \<Rightarrow> nat \<Rightarrow> nat \<Rightarrow> paper_queue \<Rightarrow> journal_fill list \<Rightarrow> (nat \<times> nat) reconcile_result" where
  "reconcile_intents rf now pdb [] u n q j = (Inr (u, n), q, j)"
| "reconcile_intents rf now pdb (x # xs) u n q j =
     (case reconcile_intent rf now pdb x q j of
        (Inl e, q', j') \<Rightarrow> (Inl e, q', j')
      | (Inr (du, dn), q', j') \<Rightarrow> reconcile_intents rf now pdb xs (u + du) (n + dn) q' j')"

record reconcile_report =
  rr_submitted_checked :: nat
  rr_intents_updated :: nat
  rr_fills_journaled :: nat
  rr_journal_count :: nat

definition reconcile_once ::
    "reconcile_faults \<Rightarrow> string \<Rightarrow> int \<Rightarrow> paper_store \<Rightarrow> paper_queue \<Rightarrow> journal_fill list \<Rightarrow> reconcile_report reconcile_result" where
  "reconcile_once rf now max_intents pdb q j =
     (case rf_list rf of
        Some e \<Rightarrow> (Inl (Raised e), q, j)
      | None \<Rightarrow>
          (let submitted = paper_list_intents max_intents (Some ''submitted'') q
           in case reconcile_intents rf now pdb submitted 0 0 q j of
                (Inl e, q', j') \<Rightarrow> (Inl e, q', j')
              | (Inr (u, n), q', j') \<Rightarrow>
                  (case rf_count rf of
                     Some e \<Rightarrow> (Inl (Raised e), q', j')
                   | None \<Rightarrow>
                       (Inr \<lparr>rr_submitted_checked = length submitted, rr_intents_updated = u, rr_fills_journaled = n,
                             rr_journal_count = journal_count j'\<rparr>, q', j'))))"

section \<open>The journal\<close>

text \<open>Inserting keeps what is there and keeps fill ids unique.\<close>

definition journal_grows :: "journal_fill list \<Rightarrow> journal_fill list \<Rightarrow> bool" where
  "journal_grows j j' \<longleftrightarrow> (\<exists>new. j' = j @ new) \<and> (distinct (map jf_fill_id j) \<longrightarrow> distinct (map jf_fill_id j'))"

lemma journal_grows_refl: "journal_grows j j"
  by (simp add: journal_grows_def)

lemma journal_grows_trans: "journal_grows a b \<Longrightarrow> journal_grows b c \<Longrightarrow> journal_grows a c"
  by (auto simp: journal_grows_def)

lemma journal_insert_grows: "journal_grows j (journal_insert_fill f j)"
  by (auto simp: journal_grows_def journal_insert_fill_def select_key_None)

lemma journal_fills_grows: "journal_fills rf row fs j = (e, j') \<Longrightarrow> journal_grows j j'"
  by (induction fs arbitrary: j)
    (auto intro: journal_grows_refl journal_grows_trans journal_insert_grows split: option.splits)

lemma journal_insert_has:
  "jf_qty f \<noteq> NaN \<Longrightarrow> jf_price f \<noteq> NaN \<Longrightarrow> jf_fee f \<noteq> NaN \<Longrightarrow> jf_fill_id f \<in> jf_fill_id ` set (journal_insert_fill f j)"
  by (auto simp: journal_insert_fill_def select_key_None)

lemma journal_grows_mem: "journal_grows j j' \<Longrightarrow> i \<in> jf_fill_id ` set j \<Longrightarrow> i \<in> jf_fill_id ` set j'"
  by (auto simp: journal_grows_def)

text \<open>The journal is a claim-once store under the fill id: of all insertions of one fill only one adds a row.\<close>

definition journal_claim :: "string \<Rightarrow> journal_fill \<Rightarrow> journal_fill list \<Rightarrow> bool \<times> journal_fill list" where
  "journal_claim k f j = (let j' = journal_insert_fill (f\<lparr>jf_fill_id := k\<rparr>) j in (j' \<noteq> j, j'))"

interpretation journal_once: claim_once journal_claim "(=)" "\<lambda>k j. k \<in> jf_fill_id ` set j"
  by unfold_locales
    (auto simp: journal_claim_def Let_def journal_insert_fill_def select_key_None split: if_splits)

lemma journal_one_row_per_fill:
  "journal_once.history j h j' \<Longrightarrow> length (filter (\<lambda>e. e = (k, True)) h) \<le> 1"
  by (rule journal_once.at_most_one_insert)

lemma journal_fills_has:
  assumes "journal_fills rf (journal_row rf now pdb x oid r) fs j = (None, j')" "f \<in> set fs"
    "\<forall>f \<in> set fs. pfl_qty f \<noteq> NaN \<and> pfl_price f \<noteq> NaN \<and> pfl_fee f \<noteq> NaN"
  shows "pfl_fill_id f \<in> jf_fill_id ` set j'"
  using assms
proof (induction fs arbitrary: j)
  case (Cons g fs)
  let ?j = "journal_insert_fill (journal_row rf now pdb x oid r g) j"
  have rest: "journal_fills rf (journal_row rf now pdb x oid r) fs ?j = (None, j')"
    using Cons.prems(1) by (simp split: option.splits)
  show ?case
  proof (cases "f = g")
    case True
    have "jf_fill_id (journal_row rf now pdb x oid r g) \<in> jf_fill_id ` set ?j"
      using Cons.prems(3) by (intro journal_insert_has) (simp_all add: journal_row_def)
    then show ?thesis using True journal_grows_mem[OF journal_fills_grows[OF rest]] by (simp add: journal_row_def)
  qed (use Cons rest in auto)
qed simp

lemma journal_fills_quiet:
  "(\<And>i. rf_journal rf i = None) \<Longrightarrow> (\<And>i. rf_log rf i = None) \<Longrightarrow> fst (journal_fills rf row fs j) = None"
  by (induction fs arbitrary: j) simp_all

section \<open>What a pass does to one intent\<close>

definition linked_id :: "paper_intent \<Rightarrow> string" where
  "linked_id x = strip (opt_str_or (pi_linked_order_id x) '''')"

text \<open>The final status of the order an intent is linked to, if it has one.\<close>

definition settled :: "paper_store \<Rightarrow> paper_intent \<Rightarrow> string option" where
  "settled pdb x =
     (if linked_id x = '''' then None
      else case order_by_order_id (linked_id x) pdb of
             None \<Rightarrow> None | Some r \<Rightarrow> if po_status r = ''new'' then None else Some (po_status r))"

definition settled_fills :: "paper_store \<Rightarrow> paper_intent \<Rightarrow> string set" where
  "settled_fills pdb x =
     (if settled pdb x = Some ''filled'' then pfl_fill_id ` {f \<in> set (pst_fills pdb). pfl_order_id f = linked_id x} else {})"

definition intent_id_ok :: "paper_intent \<Rightarrow> bool" where
  "intent_id_ok x \<longleftrightarrow> pi_intent_id x \<noteq> '''' \<and> strip (pi_intent_id x) = pi_intent_id x"

definition final_word :: "string \<Rightarrow> bool" where
  "final_word s \<longleftrightarrow> s = ''filled'' \<or> s = ''rejected'' \<or> s = ''canceled''"

lemma final_word_norm: "final_word s \<Longrightarrow> lower (strip s) = s"
  using norm_known[of s] by (auto simp: final_word_def known_status_def)

lemma guard_submitted: "final_word s \<Longrightarrow> paper_status_guard ''submitted'' s"
  unfolding final_word_def by (elim disjE) (simp_all add: paper_status_guard_def)

lemma length_filter_key: "distinct (map key t) \<Longrightarrow> length (filter (\<lambda>r. key r = i) t) \<le> 1"
proof (induction t)
  case (Cons r t)
  then show ?case by (cases "key r = i") (auto simp: filter_empty_conv image_iff)
qed simp

lemma fills_for_order_all:
  assumes "paper_wf pdb"
  shows "set (list_fills_for_order i 5000 pdb) = {f \<in> set (pst_fills pdb). pfl_order_id f = i}"
proof -
  have "length (filter (\<lambda>f. pfl_order_id f = i) (pst_fills pdb)) \<le> 1"
    using assms by (intro length_filter_key) (simp add: paper_wf_def)
  then show ?thesis by (auto simp: list_fills_for_order_def sql_limit_def)
qed

lemma fills_not_NaN:
  assumes "engine_inv cfg P pdb" "f \<in> set (pst_fills pdb)"
  shows "pfl_qty f \<noteq> NaN \<and> pfl_price f \<noteq> NaN \<and> pfl_fee f \<noteq> NaN"
proof -
  obtain t where t: "terms_at (pfl_order_id f) pdb = Some t" "fill_terms cfg P t f"
    using assms by (auto simp: engine_inv_def list_all_iff fill_priced_def)
  obtain r where r: "order_by_order_id (pfl_order_id f) pdb = Some r" "t = order_terms r"
    using t(1) by (auto simp: terms_at_def)
  have "order_wf r" using assms(1) order_wf_mem order_by_order_id_mem[OF r(1)] by (auto simp: engine_inv_def)
  then have "po_qty r \<noteq> NaN" by (auto simp: order_wf_def)
  then show ?thesis using t(2) r(2) by (auto simp: fill_terms_def)
qed

lemma paper_status_write:
  assumes x: "paper_get_intent (pi_intent_id x) q = Some x" "pi_status x = ''submitted''" "intent_id_ok x" and s: "final_word s"
  obtains q' x' where "paper_queue_status now (intent_snap x) (Some s) (Some reconciler_ctx) le co lo q = Inr q'"
    "paper_get_intent (pi_intent_id x) q' = Some x'" "pi_status x' = s"
    "\<And>i. i \<noteq> pi_intent_id x \<Longrightarrow> paper_get_intent i q' = paper_get_intent i q"
proof -
  let ?q' = "snd (paper_update_status now (pi_intent_id x) (Some s) le co lo q)"
  have iid: "strip (opt_str_or (snap_intent_id (intent_snap x)) '''') = pi_intent_id x"
    using x(3) by (simp add: intent_snap_def opt_str_or_def str_or_def intent_id_ok_def)
  have w: "paper_queue_status now (intent_snap x) (Some s) (Some reconciler_ctx) le co lo q = Inr ?q'"
    unfolding paper_queue_status_def Let_def iid using x(3)
    by (simp add: intent_id_ok_def authorize_state_write_def reconciler_ctx_def)
  have n: "normalize_live_queue_status (Some s) = s"
    using final_word_norm[OF s] s by (auto simp: normalize_live_queue_status_def opt_str_or_def str_or_def final_word_def)
  have get: "paper_get_intent i ?q' = map_option (\<lambda>y. if pi_intent_id y = pi_intent_id x \<and> paper_status_guard (pi_status y) s
       then y\<lparr>pi_status := s, pi_last_error := le, pi_client_order_id := coalesce co (pi_client_order_id y),
            pi_linked_order_id := coalesce lo (pi_linked_order_id y), pi_updated_ts := now\<rparr> else y) (paper_get_intent i q)" for i
    unfolding paper_update_status_def Let_def n paper_get_intent_def by (simp add: select_key_upd_where)
  have "paper_get_intent i ?q' = paper_get_intent i q" if "i \<noteq> pi_intent_id x" for i
  proof (cases "paper_get_intent i q")
    case (Some y)
    have "pi_intent_id y = i" using select_key_Some_mem[OF Some[unfolded paper_get_intent_def]] by simp
    then show ?thesis using that Some by (simp add: get)
  qed (simp add: get)
  moreover have "\<exists>x'. paper_get_intent (pi_intent_id x) ?q' = Some x' \<and> pi_status x' = s"
    using x guard_submitted[OF s] by (simp add: get)
  ultimately show ?thesis using w that by blast
qed

text \<open>An intent has the final status of its order, and the fills of a filled order are in the journal.\<close>

definition carried :: "paper_store \<Rightarrow> paper_intent \<Rightarrow> journal_fill list \<Rightarrow> paper_intent \<Rightarrow> bool" where
  "carried pdb x j x' \<longleftrightarrow> settled pdb x = Some (pi_status x') \<and> settled_fills pdb x \<subseteq> jf_fill_id ` set j"

definition reconcile_quiet :: "reconcile_faults \<Rightarrow> bool" where
  "reconcile_quiet rf \<longleftrightarrow>
     rf_list rf = None \<and> rf_count rf = None \<and>
     (\<forall>i. rf_order rf i = None \<and> rf_fills rf i = None \<and> rf_status rf i = None \<and> rf_journal rf i = None \<and> rf_log rf i = None)"

text \<open>What an intent that is processed leaves, whatever fails.\<close>

definition intent_step ::
    "reconcile_faults \<Rightarrow> paper_store \<Rightarrow> paper_intent \<Rightarrow> paper_queue \<Rightarrow> journal_fill list \<Rightarrow> 'a reconcile_result \<Rightarrow> bool" where
  "intent_step rf pdb x q j res \<longleftrightarrow>
     (case res of (out, q', j') \<Rightarrow>
        (\<exists>x'. paper_get_intent (pi_intent_id x) q' = Some x' \<and> (x' = x \<or> carried pdb x j' x') \<and>
           ((\<exists>d. out = Inr d) \<longrightarrow> settled pdb x \<noteq> None \<longrightarrow> carried pdb x j' x')) \<and>
        (\<forall>i. i \<noteq> pi_intent_id x \<longrightarrow> paper_get_intent i q' = paper_get_intent i q) \<and> journal_grows j j' \<and>
        (\<forall>v. out \<noteq> Inl (Violated v)) \<and>
        (reconcile_quiet rf \<and> (settled pdb x = Some ''filled'' \<longrightarrow> (\<exists>m. intent_meta x = Inr m)) \<longrightarrow> (\<exists>d. out = Inr d)))"

lemma intent_step_stopped:
  assumes "paper_get_intent (pi_intent_id x) q = Some x" "journal_grows j j'"
    "\<not> reconcile_quiet rf \<or> settled pdb x = Some ''filled'' \<and> (\<exists>e. intent_meta x = Inl e)"
  shows "intent_step rf pdb x q j (Inl (Raised e), q, j')"
  using assms by (auto simp: intent_step_def)

lemma intent_step_written:
  assumes x: "paper_get_intent (pi_intent_id x) q = Some x" "pi_status x = ''submitted''" "intent_id_ok x"
    and s: "final_word s" "settled pdb x = Some s" and j: "journal_grows j j'" "settled_fills pdb x \<subseteq> jf_fill_id ` set j'"
  shows "intent_step rf pdb x q j (case reconcile_status rf now x s le oid q of Inl e \<Rightarrow> (Inl e, q, j') | Inr q' \<Rightarrow> (Inr d, q', j'))"
proof -
  obtain q' x' where w: "paper_queue_status now (intent_snap x) (Some s) (Some reconciler_ctx) le (pi_client_order_id x) (Some oid) q = Inr q'"
      "paper_get_intent (pi_intent_id x) q' = Some x'" "pi_status x' = s"
      "\<And>i. i \<noteq> pi_intent_id x \<Longrightarrow> paper_get_intent i q' = paper_get_intent i q"
    using paper_status_write[OF x s(1)] by blast
  show ?thesis
  proof (cases "rf_status rf (pi_intent_id x)")
    case None
    then have "reconcile_status rf now x s le oid q = Inr q'" by (simp add: reconcile_status_def w(1))
    then show ?thesis using w(2-4) s(2) j by (simp add: intent_step_def carried_def)
  next
    case (Some e)
    then have "reconcile_status rf now x s le oid q = Inl (Raised e)" by (simp add: reconcile_status_def w(1))
    moreover have "\<not> reconcile_quiet rf" using Some by (auto simp: reconcile_quiet_def)
    ultimately show ?thesis using intent_step_stopped[OF x(1) j(1) disjI1] by simp
  qed
qed

text \<open>The effect of the loop body.\<close>

lemma reconcile_intent_effect:
  assumes pdb: "engine_inv cfg P pdb"
    and x: "paper_get_intent (pi_intent_id x) q = Some x" "pi_status x = ''submitted''" "intent_id_ok x"
  shows "intent_step rf pdb x q j (reconcile_intent rf now pdb x q j)"
proof (cases "linked_id x \<noteq> '''' \<and> rf_order rf (pi_intent_id x) \<noteq> None")
  case True
  then obtain e where e: "rf_order rf (pi_intent_id x) = Some e" by auto
  then have "\<not> reconcile_quiet rf" by (auto simp: reconcile_quiet_def)
  moreover have "reconcile_intent rf now pdb x q j = (Inl (Raised e), q, j)"
    using True e by (simp add: reconcile_intent_def linked_id_def Let_def)
  ultimately show ?thesis using intent_step_stopped[OF x(1) journal_grows_refl disjI1] by simp
next
  case found: False
  show ?thesis
  proof (cases "settled pdb x")
    case None
    then have "reconcile_intent rf now pdb x q j = (Inr (0, 0), q, j)"
      using found norm_words(1) by (auto simp: settled_def linked_id_def reconcile_intent_def Let_def strip_lower split: option.splits if_splits)
    then show ?thesis using x(1) None journal_grows_refl by (simp add: intent_step_def)
  next
    case (Some s)
    then obtain r where r: "linked_id x \<noteq> ''''" "order_by_order_id (linked_id x) pdb = Some r" "po_status r = s" "s \<noteq> ''new''"
      by (auto simp: settled_def split: option.splits if_splits)
    have read: "rf_order rf (pi_intent_id x) = None" using found r(1) by simp
    have wf: "paper_wf pdb" using pdb by (simp add: engine_inv_def)
    have "known_status s" using order_wf_mem[OF wf] order_by_order_id_mem[OF r(2)] r(3) by (auto simp: order_wf_def)
    then have f: "final_word s" and st: "strip (lower s) = s"
      using r(4) norm_known by (auto simp: final_word_def known_status_def strip_lower)
    show ?thesis
    proof (cases "s = ''filled''")
      case False
      have rc: "s = ''rejected'' \<or> s = ''canceled''" using f False by (simp add: final_word_def)
      have "reconcile_intent rf now pdb x q j =
          (case reconcile_status rf now x s (po_reject_reason r) (linked_id x) q of Inl e \<Rightarrow> (Inl e, q, j) | Inr q' \<Rightarrow> (Inr (1, 0), q', j))"
        using r st rc read unfolding reconcile_intent_def Let_def linked_id_def[symmetric] by simp
      then show ?thesis
        using intent_step_written[OF x f Some journal_grows_refl] Some False by (simp add: settled_fills_def)
    next
      case True
      let ?fills = "list_fills_for_order (linked_id x) 5000 pdb"
      have e: "reconcile_intent rf now pdb x q j = reconcile_filled rf now pdb x (linked_id x) r q j"
        using r st True read unfolding reconcile_intent_def Let_def linked_id_def[symmetric] by simp
      obtain fe j' where jf: "journal_fills rf (journal_row rf now pdb x (linked_id x) r) ?fills j = (fe, j')" by fastforce
      have grows: "journal_grows j j'" by (rule journal_fills_grows[OF jf])
      consider (fills) a where "rf_fills rf (pi_intent_id x) = Some a" | (meta) a where "rf_fills rf (pi_intent_id x) = None" "intent_meta x = Inl a"
        | (lost) m a where "rf_fills rf (pi_intent_id x) = None" "intent_meta x = Inr m" "fe = Some a"
        | (journaled) m where "rf_fills rf (pi_intent_id x) = None" "intent_meta x = Inr m" "fe = None"
        by (cases "rf_fills rf (pi_intent_id x)"; cases "intent_meta x"; cases fe) auto
      then show ?thesis
      proof cases
        case fills
        then have "\<not> reconcile_quiet rf" by (auto simp: reconcile_quiet_def)
        then show ?thesis using intent_step_stopped[OF x(1) journal_grows_refl disjI1] fills by (simp add: e reconcile_filled_def)
      next
        case meta
        then show ?thesis using intent_step_stopped[OF x(1) journal_grows_refl disjI2] Some True by (simp add: e reconcile_filled_def)
      next
        case lost
        then have "\<not> reconcile_quiet rf"
          using journal_fills_quiet[of rf "journal_row rf now pdb x (linked_id x) r" ?fills j] jf by (auto simp: reconcile_quiet_def)
        then show ?thesis using intent_step_stopped[OF x(1) grows disjI1] lost by (simp add: e reconcile_filled_def jf)
      next
        case journaled
        have "settled_fills pdb x \<subseteq> jf_fill_id ` set j'"
          using journal_fills_has[OF jf[unfolded journaled(3)]] fills_not_NaN[OF pdb] fills_for_order_all[OF wf] by (auto simp: settled_fills_def)
        from intent_step_written[OF x f Some grows this, where rf = rf and now = now and le = None and oid = "linked_id x" and d = "(1, length ?fills)"]
        show ?thesis using journaled True by (simp add: e reconcile_filled_def jf)
      qed
    qed
  qed
qed

lemma carried_grows: "carried pdb x j x' \<Longrightarrow> journal_grows j j' \<Longrightarrow> carried pdb x j' x'"
  using journal_grows_mem by (auto simp: carried_def)

text \<open>What the loop leaves of its intents.\<close>

definition intents_step ::
    "reconcile_faults \<Rightarrow> paper_store \<Rightarrow> paper_intent list \<Rightarrow> paper_queue \<Rightarrow> journal_fill list \<Rightarrow> 'a reconcile_result \<Rightarrow> bool" where
  "intents_step rf pdb xs q j res \<longleftrightarrow>
     (case res of (out, q', j') \<Rightarrow>
        (\<forall>x \<in> set xs. \<exists>x'. paper_get_intent (pi_intent_id x) q' = Some x' \<and> (x' = x \<or> carried pdb x j' x') \<and>
           ((\<exists>d. out = Inr d) \<longrightarrow> settled pdb x \<noteq> None \<longrightarrow> carried pdb x j' x')) \<and>
        (\<forall>i. i \<notin> pi_intent_id ` set xs \<longrightarrow> paper_get_intent i q' = paper_get_intent i q) \<and> journal_grows j j' \<and>
        (\<forall>v. out \<noteq> Inl (Violated v)) \<and>
        (reconcile_quiet rf \<and> (\<forall>x \<in> set xs. settled pdb x = Some ''filled'' \<longrightarrow> (\<exists>m. intent_meta x = Inr m)) \<longrightarrow> (\<exists>d. out = Inr d)))"

lemma reconcile_intents_effect:
  assumes pdb: "engine_inv cfg P pdb" and d: "distinct (map pi_intent_id xs)"
    and xs: "\<forall>x \<in> set xs. paper_get_intent (pi_intent_id x) q = Some x \<and> pi_status x = ''submitted'' \<and> intent_id_ok x"
  shows "intents_step rf pdb xs q j (reconcile_intents rf now pdb xs u n q j)"
  using d xs
proof (induction xs arbitrary: u n q j)
  case Nil
  then show ?case using journal_grows_refl by (simp add: intents_step_def)
next
  case (Cons x xs)
  obtain o1 q1 j1 where s: "reconcile_intent rf now pdb x q j = (o1, q1, j1)" by (cases "reconcile_intent rf now pdb x q j")
  have "intent_step rf pdb x q j (o1, q1, j1)"
    using reconcile_intent_effect[OF pdb, of x q rf j now] Cons.prems(2) s by simp
  then obtain x1 where x1: "paper_get_intent (pi_intent_id x) q1 = Some x1" "x1 = x \<or> carried pdb x j1 x1"
      "(\<exists>d. o1 = Inr d) \<Longrightarrow> settled pdb x \<noteq> None \<Longrightarrow> carried pdb x j1 x1"
      "\<And>i. i \<noteq> pi_intent_id x \<Longrightarrow> paper_get_intent i q1 = paper_get_intent i q" "journal_grows j j1" "\<And>v. o1 \<noteq> Inl (Violated v)"
      "reconcile_quiet rf \<Longrightarrow> settled pdb x = Some ''filled'' \<longrightarrow> (\<exists>m. intent_meta x = Inr m) \<Longrightarrow> \<exists>d. o1 = Inr d"
    unfolding intent_step_def by auto
  have other: "pi_intent_id y \<noteq> pi_intent_id x" if "y \<in> set xs" for y using Cons.prems(1) imageI[OF that, of pi_intent_id] by auto
  have kept: "\<forall>y \<in> set xs. paper_get_intent (pi_intent_id y) q1 = Some y \<and> pi_status y = ''submitted'' \<and> intent_id_ok y"
    using Cons.prems(2) x1(4) other by auto
  show ?case
  proof (cases o1)
    case (Inl e)
    then have "reconcile_intents rf now pdb (x # xs) u n q j = (Inl e, q1, j1)" by (simp add: s)
    then show ?thesis using Inl x1 kept by (auto simp: intents_step_def)
  next
    case (Inr dd)
    obtain out q' j' where r: "reconcile_intents rf now pdb xs (u + fst dd) (n + snd dd) q1 j1 = (out, q', j')"
      by (cases "reconcile_intents rf now pdb xs (u + fst dd) (n + snd dd) q1 j1")
    have run: "reconcile_intents rf now pdb (x # xs) u n q j = (out, q', j')" using s r Inr by (cases dd) simp
    have ih: "intents_step rf pdb xs q1 j1 (out, q', j')"
      using Cons.IH[OF _ kept, of j1 "u + fst dd" "n + snd dd"] Cons.prems(1) r by simp
    then have grows: "journal_grows j1 j'" by (simp add: intents_step_def)
    have "pi_intent_id x \<notin> pi_intent_id ` set xs" using other by fastforce
    then have g: "paper_get_intent (pi_intent_id x) q' = Some x1" using ih x1(1) by (simp add: intents_step_def)
    have all: "\<forall>y \<in> set (x # xs). \<exists>x'. paper_get_intent (pi_intent_id y) q' = Some x' \<and> (x' = y \<or> carried pdb y j' x') \<and>
           ((\<exists>d. out = Inr d) \<longrightarrow> settled pdb y \<noteq> None \<longrightarrow> carried pdb y j' x')"
      using ih g x1(2,3) Inr carried_grows[OF _ grows] unfolding intents_step_def by auto
    moreover have "\<forall>i. i \<notin> pi_intent_id ` set (x # xs) \<longrightarrow> paper_get_intent i q' = paper_get_intent i q"
      using ih x1(4) by (simp add: intents_step_def)
    moreover have "journal_grows j j'" by (rule journal_grows_trans[OF x1(5) grows])
    ultimately show ?thesis using ih unfolding run intents_step_def by simp
  qed
qed

lemma listed_intents:
  assumes "paper_inv q" "x \<in> set (paper_list_intents n (Some ''submitted'') q)"
  shows "paper_get_intent (pi_intent_id x) q = Some x" "pi_status x = ''submitted''"
proof -
  have m: "x \<in> set (pq_intents q) \<and> pi_status x = ''submitted''"
    using assms(2) set_sql_limit unfolding paper_list_intents_def by (fastforce simp: truthy_def)
  then show "pi_status x = ''submitted''" by simp
  show "paper_get_intent (pi_intent_id x) q = Some x"
    unfolding paper_get_intent_def using assms(1) m by (intro select_key_distinct) (auto simp: paper_inv_def)
qed

lemma listed_distinct: "paper_inv q \<Longrightarrow> distinct (map pi_intent_id (paper_list_intents n st q))"
  unfolding paper_list_intents_def
  by (rule distinct_sql_limit) (auto simp: paper_inv_def distinct_map inj_on_def)

section \<open>Properties\<close>

text \<open>C16. A reconciler pass over a paper store the engine has built settles the queue. When no database call and no outcome log raises and the metadata of every listed
  intent of a filled order converts to a dictionary, the pass completes; and whenever it completes, every listed submitted intent linked to a filled, rejected or canceled
  order has the status of that order, and every fill of a filled order is journaled. When an exception stops the pass anywhere, each listed
  intent either keeps its row or has the status of its order with its fills in the journal. Never does the state authority refuse a write, any other
  intent change, or the journal lose a row or hold two rows for one fill, so repeating a stopped pass journals nothing twice. Nobody else writes the queue during the pass.\<close>

theorem reconcile_settles_intents:
  assumes pdb: "paper_reach cfg P pdb" and q: "paper_inv q" and ids: "list_all intent_id_ok (pq_intents q)"
    and pass: "reconcile_once rf now max_intents pdb q j = (out, q', j')"
  shows "(reconcile_quiet rf \<and> (\<forall>x \<in> set (paper_list_intents max_intents (Some ''submitted'') q).
          settled pdb x = Some ''filled'' \<longrightarrow> (\<exists>m. intent_meta x = Inr m)) \<longrightarrow> (\<exists>rep. out = Inr rep)) \<and>
     (\<forall>x \<in> set (paper_list_intents max_intents (Some ''submitted'') q).
        \<exists>x'. paper_get_intent (pi_intent_id x) q' = Some x' \<and> (x' = x \<or> carried pdb x j' x') \<and>
          ((\<exists>rep. out = Inr rep) \<longrightarrow> settled pdb x \<noteq> None \<longrightarrow> carried pdb x j' x')) \<and>
     (\<forall>v. out \<noteq> Inl (Violated v)) \<and>
     (\<forall>i. i \<notin> pi_intent_id ` set (paper_list_intents max_intents (Some ''submitted'') q) \<longrightarrow>
        paper_get_intent i q' = paper_get_intent i q) \<and>
     (\<exists>new. j' = j @ new) \<and> (distinct (map jf_fill_id j) \<longrightarrow> distinct (map jf_fill_id j'))"
proof (cases "rf_list rf")
  case (Some e)
  then have "out = Inl (Raised e)" "q' = q" "j' = j" "\<not> reconcile_quiet rf"
    using pass by (simp_all add: reconcile_once_def reconcile_quiet_def)
  then show ?thesis using listed_intents[OF q] by auto
next
  case None
  let ?xs = "paper_list_intents max_intents (Some ''submitted'') q"
  have "intent_id_ok x" if "x \<in> set ?xs" for x
    using ids select_key_Some_mem[OF listed_intents(1)[OF q that, unfolded paper_get_intent_def]] by (auto simp: list_all_iff)
  then have listed: "\<forall>x \<in> set ?xs. paper_get_intent (pi_intent_id x) q = Some x \<and> pi_status x = ''submitted'' \<and> intent_id_ok x"
    using listed_intents[OF q] by blast
  obtain o1 q1 j1 where r: "reconcile_intents rf now pdb ?xs 0 0 q j = (o1, q1, j1)" by (cases "reconcile_intents rf now pdb ?xs 0 0 q j")
  have step: "intents_step rf pdb ?xs q j (o1, q1, j1)"
    using reconcile_intents_effect[OF paper_reach_inv[OF pdb] listed_distinct[OF q] listed, of rf j now 0 0] r by simp
  have same: "q' = q1" "j' = j1" and ok: "(\<exists>rep. out = Inr rep) \<longrightarrow> (\<exists>d. o1 = Inr d)" and viol: "(\<exists>v. out = Inl (Violated v)) \<longrightarrow> (\<exists>v. o1 = Inl (Violated v))"
    and fin: "reconcile_quiet rf \<Longrightarrow> (\<exists>d. o1 = Inr d) \<Longrightarrow> \<exists>rep. out = Inr rep"
    using pass None r by (auto simp: reconcile_once_def Let_def reconcile_quiet_def split: sum.splits option.splits prod.splits)
  note st = step[unfolded intents_step_def prod.case]
  note kept = st[THEN conjunct2, THEN conjunct1] and grows = st[THEN conjunct2, THEN conjunct2, THEN conjunct1, unfolded journal_grows_def]
    and allowed = st[THEN conjunct2, THEN conjunct2, THEN conjunct2, THEN conjunct1] and finishes = st[THEN conjunct2, THEN conjunct2, THEN conjunct2, THEN conjunct2]
  have intents: "\<forall>x \<in> set ?xs. \<exists>x'. paper_get_intent (pi_intent_id x) q' = Some x' \<and> (x' = x \<or> carried pdb x j' x') \<and>
      ((\<exists>rep. out = Inr rep) \<longrightarrow> settled pdb x \<noteq> None \<longrightarrow> carried pdb x j' x')"
    unfolding same by (rule ballI, drule st[THEN conjunct1, rule_format], elim exE) (use ok in blast)
  show ?thesis using intents finishes fin allowed viol kept grows unfolding same by simp
qed

text \<open>An intent of a filled order whose metadata is a number, say, stops every pass that reaches it, before its fills are journaled.\<close>

lemma bad_metadata_stops_pass:
  assumes "linked_id x \<noteq> ''''" "order_by_order_id (linked_id x) pdb = Some r" "strip (lower (po_status r)) = ''filled''"
    and "pi_meta x = Some (JInt k)" "k \<noteq> 0"
  shows "\<exists>e. reconcile_intents rf now pdb (x # xs) u n q j = (Inl (Raised e), q, j)"
  using assms by (simp add: reconcile_intent_def reconcile_filled_def linked_id_def Let_def intent_meta_def jor_def py_dict_def split: option.splits)

definition sample_paper_intent :: paper_intent where
  "sample_paper_intent = \<lparr>pi_intent_id = ''i1'', pi_created_ts = ''t0'', pi_ts = ''t0'', pi_source = ''s'', pi_strategy_id = None,
     pi_action = None, pi_venue = ''v'', pi_symbol = ''BTC/USDT'', pi_side = ''buy'', pi_order_type = ''limit'', pi_qty = Fin 1,
     pi_limit_price = Some (Fin 100), pi_status = ''submitted'', pi_last_error = None, pi_client_order_id = Some ''c1'',
     pi_linked_order_id = Some ''o1'', pi_meta = None, pi_updated_ts = ''t1''\<rparr>"

definition sample_paper_queue :: paper_queue where
  "sample_paper_queue = \<lparr>pq_intents = [sample_paper_intent], pq_state = []\<rparr>"

definition no_reconcile_faults :: reconcile_faults where
  "no_reconcile_faults =
     \<lparr>rf_list = None, rf_count = None, rf_order = (\<lambda>_. None), rf_fills = (\<lambda>_. None), rf_status = (\<lambda>_. None), rf_journal = (\<lambda>_. None), rf_log = (\<lambda>_. None),
      rf_state = (\<lambda>_. None)\<rparr>"

theorem reconcile_settles_intents_witness:
  "\<exists>rep q' j' x'. reconcile_once no_reconcile_faults ''t3'' 50 sample_db2 sample_paper_queue [] = (Inr rep, q', j') \<and>
     paper_get_intent ''i1'' q' = Some x' \<and> pi_status x' = ''filled'' \<and> pfl_fill_id sample_fill \<in> jf_fill_id ` set j'"
proof -
  have w: "strip ''i1'' = ''i1''" "strip ''o1'' = ''o1''" "norm_status ''submitted'' = ''submitted''" by code_simp+
  have q: "paper_inv sample_paper_queue"
    by (simp add: paper_inv_def sample_paper_queue_def paper_row_ok_def sample_paper_intent_def w)
  have ids: "list_all intent_id_ok (pq_intents sample_paper_queue)"
    by (simp add: sample_paper_queue_def intent_id_ok_def sample_paper_intent_def w)
  have l: "paper_list_intents 50 (Some ''submitted'') sample_paper_queue = [sample_paper_intent]"
    by (simp add: paper_list_intents_def truthy_def sample_paper_queue_def sample_paper_intent_def sql_limit_def)
  have o1: "order_by_order_id ''o1'' sample_db2 = Some (sample_paper_order\<lparr>po_status := ''filled''\<rparr>)"
    by (simp add: order_by_order_id_def sample_db2 sample_paper_order_def select_key_Cons)
  have li: "linked_id sample_paper_intent = ''o1''" by (simp add: linked_id_def sample_paper_intent_def opt_str_or_def str_or_def w)
  have st: "settled sample_db2 sample_paper_intent = Some ''filled''" by (simp add: settled_def li o1)
  have sf: "settled_fills sample_db2 sample_paper_intent = {pfl_fill_id sample_fill}"
  proof -
    have "{f \<in> set (pst_fills sample_db2). pfl_order_id f = ''o1''} = {sample_fill}"
      unfolding sample_db2 by (auto simp: sample_fill_def)
    then show ?thesis by (simp only: settled_fills_def st li refl if_True image_insert image_empty)
  qed
  have id1: "pi_intent_id sample_paper_intent = ''i1''" by (simp add: sample_paper_intent_def)
  have meta: "\<exists>m. intent_meta sample_paper_intent = Inr m" by (simp add: intent_meta_def sample_paper_intent_def jor_def py_dict_def)
  have quiet: "reconcile_quiet no_reconcile_faults" by (simp add: reconcile_quiet_def no_reconcile_faults_def)
  obtain out q' j' where p: "reconcile_once no_reconcile_faults ''t3'' 50 sample_db2 sample_paper_queue [] = (out, q', j')"
    by (cases "reconcile_once no_reconcile_faults ''t3'' 50 sample_db2 sample_paper_queue []")
  from reconcile_settles_intents[OF sample_reach(2)[of "\<lambda>_. True", OF TrueI] q ids p]
  obtain rep x' where "out = Inr rep" "paper_get_intent ''i1'' q' = Some x'" "carried sample_db2 sample_paper_intent j' x'"
    unfolding l using quiet meta by (auto simp: st id1)
  then show ?thesis using p by (auto simp: carried_def st sf)
qed

end
