(* ===== verification/Canonical_Journal.thy ===== *)
theory Canonical_Journal
  imports Claim_Once
begin

text \<open>
  services/journal/canonical\_execdb.py: the canonical fill journal, a table of the execution database with
  primary key \<open>(venue, fill_id)\<close>. The table is \<open>None\<close> until \<open>ensure_schema\<close> creates it; rows are never deleted, so
  the list order is the rowid order. The column \<open>raw_json\<close> keeps the value that \<open>json.dumps\<close> writes; nothing
  reads it back, and its truncation to 200000 characters is not represented.
\<close>

section \<open>Definitions\<close>

record canonical_row =
  cf_venue :: string
  cf_fill_id :: string
  cf_symbol :: string
  cf_side :: string
  cf_qty :: pyfloat
  cf_price :: pyfloat
  cf_ts :: string
  cf_fee_usd :: pyfloat
  cf_realized_pnl_usd :: "pyfloat option"
  cf_client_order_id :: string
  cf_order_id :: string
  cf_raw_json :: "dict option"
  cf_created_at :: string

type_synonym journal_table = "canonical_row list option"

definition canonical_key :: "canonical_row \<Rightarrow> string \<times> string" where
  "canonical_key r = (cf_venue r, cf_fill_id r)"

definition journal_rows :: "journal_table \<Rightarrow> canonical_row list" where
  "journal_rows t = (case t of None \<Rightarrow> [] | Some rs \<Rightarrow> rs)"

definition journal_ensure_schema :: "journal_table \<Rightarrow> journal_table" where
  "journal_ensure_schema t = Some (journal_rows t)"

text \<open>\<open>INSERT OR IGNORE\<close> skips a row whose key is taken and a row that would put \<open>NULL\<close> (a NaN) into a \<open>NOT NULL\<close>
  column. The nullable profit column stores a NaN as \<open>NULL\<close>.\<close>

definition record_fill :: "canonical_row \<Rightarrow> journal_table \<Rightarrow> journal_table" where
  "record_fill r t =
     (let rows = journal_rows (journal_ensure_schema t)
      in Some (if cf_qty r = NaN \<or> cf_price r = NaN \<or> cf_fee_usd r = NaN \<or>
                  select_key canonical_key (canonical_key r) rows \<noteq> None
               then rows
               else rows @ [r\<lparr>cf_realized_pnl_usd := Option.bind (cf_realized_pnl_usd r) sql_real\<rparr>]))"

section \<open>The journal records a fill once\<close>

definition journalled :: "string \<times> string \<Rightarrow> journal_table \<Rightarrow> bool" where
  "journalled k t \<longleftrightarrow> k \<in> canonical_key ` set (journal_rows t)"

lemma journal_rows_simps [simp]:
  "journal_rows None = []" "journal_rows (Some rs) = rs"
  by (simp_all add: journal_rows_def)

lemma record_fill_cases:
  obtains (ignored) "journal_rows (record_fill r t) = journal_rows t"
  | (recorded) r' where "\<not> journalled (canonical_key r) t" "journal_rows (record_fill r t) = journal_rows t @ [r']"
      "canonical_key r' = canonical_key r" "cf_symbol r' = cf_symbol r"
proof (cases "cf_qty r = NaN \<or> cf_price r = NaN \<or> cf_fee_usd r = NaN \<or> journalled (canonical_key r) t")
  case True
  then show ?thesis
    by (intro ignored) (auto simp: record_fill_def journal_ensure_schema_def journalled_def Let_def tbl)
next
  case False
  then show ?thesis
    by (intro recorded[of "r\<lparr>cf_realized_pnl_usd := Option.bind (cf_realized_pnl_usd r) sql_real\<rparr>"])
      (auto simp: record_fill_def journal_ensure_schema_def journalled_def canonical_key_def Let_def tbl)
qed

lemma record_fill_distinct:
  "distinct (map canonical_key (journal_rows t)) \<Longrightarrow> distinct (map canonical_key (journal_rows (record_fill r t)))"
  by (cases rule: record_fill_cases[of r t]) (auto simp: journalled_def image_iff)

lemma record_fill_keeps: "journalled k t \<Longrightarrow> journalled k (record_fill r t)"
  by (cases rule: record_fill_cases[of r t]) (auto simp: journalled_def)

lemma record_fill_prefix: "\<exists>ys. journal_rows (record_fill r t) = journal_rows t @ ys"
  by (cases rule: record_fill_cases[of r t]) auto

text \<open>A fill with numbers is in the journal after \<open>record_fill\<close>, whether it was new or not.\<close>

lemma record_fill_present:
  assumes "cf_qty r \<noteq> NaN" "cf_price r \<noteq> NaN" "cf_fee_usd r \<noteq> NaN"
  shows "journalled (canonical_key r) (record_fill r t)"
  using assms by (auto simp: record_fill_def journal_ensure_schema_def journalled_def canonical_key_def Let_def tbl)

definition journal_claim_row :: "string \<times> string \<Rightarrow> canonical_row \<Rightarrow> journal_table \<Rightarrow> bool \<times> journal_table" where
  "journal_claim_row k r t =
     (let r' = r\<lparr>cf_venue := fst k, cf_fill_id := snd k\<rparr>; t' = record_fill r' t
      in (length (journal_rows t) < length (journal_rows t'), t'))"

interpretation canonical_once: claim_once journal_claim_row "(=)" journalled
proof (unfold_locales, goal_cases)
  case (1 k r t)
  let ?r = "r\<lparr>cf_venue := fst k, cf_fill_id := snd k\<rparr>"
  have k: "canonical_key ?r = k" by (simp add: canonical_key_def)
  show ?case
    using 1 k by (cases rule: record_fill_cases[of ?r t])
      (auto simp: journal_claim_row_def Let_def journalled_def)
next
  case (2 j t k r)
  then show ?case by (simp add: journal_claim_row_def Let_def record_fill_keeps)
qed simp

end
