(* ===== verification/Execution_Store.thy ===== *)
theory Execution_Store
  imports Intent_Lifecycle Canonical_Journal Py_Json "HOL-Library.Sublist"
begin

text \<open>
  storage/execution\_store\_sqlite.py: the store of the executor lane. Its tables, with the journal table that
  lives in the same database file, are the record \<open>exec_store\<close>; every method of \<open>ExecutionStore\<close> is one
  definition. A method that raises inside its transaction leaves the store unchanged. The clock
  (\<open>_now_ms()\<close>) is an argument; JSON columns hold the value.

  Three contracts live here: the intent status table with its guarded transitions, the outbox of fills that
  wait for canonical accounting (\<open>reconcile_fill_deliveries\<close>), and the per-symbol counter of
  consecutive losses with its locks.
\<close>

section \<open>State\<close>

record exec_intent =
  xi_intent_id :: string
  xi_ts_ms :: int
  xi_mode :: string
  xi_exchange :: string
  xi_symbol :: string
  xi_side :: string
  xi_order_type :: string
  xi_qty :: pyfloat
  xi_limit_price :: "pyfloat option"
  xi_status :: string
  xi_reason :: "string option"
  xi_meta :: dict

record exec_fill =
  xf_id :: nat
  xf_intent_id :: string
  xf_ts_ms :: int
  xf_price :: pyfloat
  xf_qty :: pyfloat
  xf_fee :: pyfloat
  xf_fee_ccy :: string
  xf_meta :: dict
  xf_trade_id :: "string option"

record symbol_lock =
  sl_symbol :: string
  sl_locked_until_ms :: int
  sl_loss_count :: int
  sl_reason :: string
  sl_created_ts_ms :: int

record loss_event =
  ev_venue :: string
  ev_fill_id :: string
  ev_symbol :: string
  ev_pnl :: pyfloat
  ev_loss_count :: int

record delivery =
  dv_intent_id :: string
  dv_venue :: string
  dv_fill_id :: string
  dv_payload :: dict
  dv_completed :: bool

record exec_store =
  es_intents :: "exec_intent list"
  es_fills :: "exec_fill list"
  es_fill_seq :: nat
  es_locks :: "symbol_lock list"
  es_loss_events :: "loss_event list"
  es_cutover :: "int option"
  es_legacy :: "(string \<times> string) list"
  es_deliveries :: "delivery list"
  es_journal :: journal_table

definition empty_exec_store :: exec_store where
  "empty_exec_store = \<lparr>es_intents = [], es_fills = [], es_fill_seq = 0, es_locks = [], es_loss_events = [],
     es_cutover = None, es_legacy = [], es_deliveries = [], es_journal = None\<rparr>"

section \<open>Intents\<close>

text \<open>SQLite's \<open>TRIM\<close> removes spaces only and its \<open>LOWER\<close> folds ASCII only.\<close>

definition sql_trim :: "string \<Rightarrow> string" where
  "sql_trim s = (let sp = (\<lambda>c. c = CHR '' '') in rev (dropWhile sp (rev (dropWhile sp s))))"

definition sql_lower :: "string \<Rightarrow> string" where
  "sql_lower s = map (\<lambda>c. let n = (of_char c :: nat) in if 65 \<le> n \<and> n \<le> 90 then char_of (n + 32) else c) s"

definition store_list_intents ::
    "string \<Rightarrow> string \<Rightarrow> string \<Rightarrow> string \<Rightarrow> int \<Rightarrow> exec_store \<Rightarrow> exec_intent list" where
  "store_list_intents mode exchange symbol status limit s =
     sql_limit limit (rev (sort_key xi_ts_ms (filter (\<lambda>r. xi_mode r = mode \<and> xi_exchange r = exchange \<and>
       xi_symbol r = symbol \<and> xi_status r = status) (es_intents s))))"

definition allowed_from :: "string \<Rightarrow> string list" where
  "allowed_from nxt = map fst (filter (\<lambda>p. nxt \<in> set (snd p)) execution_store_status_transitions) @ [nxt]"

definition status_write_ok :: "string \<Rightarrow> string \<Rightarrow> exec_intent \<Rightarrow> bool" where
  "status_write_ok iid nxt r \<longleftrightarrow>
     xi_intent_id r = iid \<and> sql_lower (sql_trim (xi_status r)) \<in> set (allowed_from nxt)"

definition set_intent_status :: "string \<Rightarrow> string \<Rightarrow> string option \<Rightarrow> exec_store \<Rightarrow> bool \<times> exec_store" where
  "set_intent_status iid status reason s =
     (let nxt = normalize_execution_store_status (Some status); P = status_write_ok iid nxt
      in (0 < rowcount P (es_intents s),
          s\<lparr>es_intents := upd_where P (\<lambda>r. r\<lparr>xi_status := nxt, xi_reason := reason\<rparr>) (es_intents s)\<rparr>))"

text \<open>The dictionary \<open>upsert_intent\<close> receives, after \<open>row["intent_id"]\<close> and the conversions of its fields; \<open>None\<close>
  stands for an absent field.\<close>

record intent_input =
  ii_intent_id :: string
  ii_ts_ms :: "int option"
  ii_mode :: "string option"
  ii_exchange :: "string option"
  ii_symbol :: "string option"
  ii_side :: "string option"
  ii_order_type :: "string option"
  ii_qty :: "pyfloat option"
  ii_limit_price :: "pyfloat option"
  ii_status :: "string option"
  ii_reason :: "string option"
  ii_meta :: "dict option"

definition exec_intent_of :: "int \<Rightarrow> intent_input \<Rightarrow> exec_intent" where
  "exec_intent_of now i =
     \<lparr>xi_intent_id = ii_intent_id i,
      xi_ts_ms = (case ii_ts_ms i of None \<Rightarrow> now | Some t \<Rightarrow> if t = 0 then now else t),
      xi_mode = opt_str_or (ii_mode i) ''paper'', xi_exchange = opt_str_or (ii_exchange i) '''',
      xi_symbol = opt_str_or (ii_symbol i) '''', xi_side = opt_str_or (ii_side i) '''',
      xi_order_type = opt_str_or (ii_order_type i) ''market'',
      xi_qty = (case ii_qty i of None \<Rightarrow> Fin 0 | Some q \<Rightarrow> q),
      xi_limit_price = Option.bind (ii_limit_price i) sql_real,
      xi_status = opt_str_or (ii_status i) ''pending'', xi_reason = ii_reason i,
      xi_meta = (case ii_meta i of None \<Rightarrow> [] | Some d \<Rightarrow> d)\<rparr>"

definition store_upsert_intent :: "int \<Rightarrow> intent_input \<Rightarrow> exec_store \<Rightarrow> exn + exec_store" where
  "store_upsert_intent now i s =
     (let r = exec_intent_of now i
      in if xi_qty r = NaN then Inl (IntegrityError ''NOT NULL constraint failed: intents.qty'')
         else Inr (if select_key xi_intent_id (xi_intent_id r) (es_intents s) = None
                   then s\<lparr>es_intents := es_intents s @ [r]\<rparr>
                   else s\<lparr>es_intents := upd_where (\<lambda>x. xi_intent_id x = xi_intent_id r) (\<lambda>_. r) (es_intents s)\<rparr>))"

section \<open>Fills and their deliveries\<close>

definition trade_id_keys :: "string list" where
  "trade_id_keys = [''trade_id'', ''tradeId'', ''fill_id'', ''fillId'', ''id'']"

text \<open>The first truthy value under the keys whose stripped text is not empty.\<close>

fun first_trade_id :: "string list \<Rightarrow> dict \<Rightarrow> string option" where
  "first_trade_id [] d = None"
| "first_trade_id (k # ks) d =
     (if jtruthy (jget k d) \<and> strip (json_str (jget k d)) \<noteq> '''' then Some (strip (json_str (jget k d)))
      else first_trade_id ks d)"

definition trade_id_from_meta :: "dict option \<Rightarrow> string option" where
  "trade_id_from_meta meta =
     (case meta of
        None \<Rightarrow> None
      | Some d \<Rightarrow>
          (case first_trade_id trade_id_keys d of
             Some t \<Rightarrow> Some t
           | None \<Rightarrow> (case jget ''raw_trade'' d of JObj r \<Rightarrow> first_trade_id trade_id_keys r | _ \<Rightarrow> None)))"

record fill_args =
  fa_intent_id :: string
  fa_ts_ms :: int
  fa_price :: pyfloat
  fa_qty :: pyfloat
  fa_fee :: pyfloat
  fa_fee_ccy :: string
  fa_meta :: "dict option"
  fa_canonical_fill :: "dict option"
  fa_max_recorded_qty :: "pyfloat option"

text \<open>The sum of the recorded quantities and whether the trade is among them.\<close>

fun sum_recorded :: "string option \<Rightarrow> exec_fill list \<Rightarrow> pyfloat \<Rightarrow> bool \<Rightarrow> exn + pyfloat \<times> bool" where
  "sum_recorded tid [] t dup = Inr (t, dup)"
| "sum_recorded tid (r # rs) t dup =
     (if \<not> isfinite (xf_qty r) \<or> fle (xf_qty r) (Fin 0) then Inl (ValueError ''invalid recorded fill quantity'')
      else sum_recorded tid rs (fadd t (xf_qty r)) (dup \<or> (tid \<noteq> None \<and> xf_trade_id r = tid)))"

definition rel_tol :: pyfloat where
  "rel_tol = mk_float (1 / 10 ^ 9)"

definition abs_tol :: pyfloat where
  "abs_tol = mk_float (1 / 10 ^ 12)"

text \<open>The bound on the recorded quantity: nothing beyond what the exchange reports as filled.\<close>

definition quantity_guard :: "string option \<Rightarrow> fill_args \<Rightarrow> exec_store \<Rightarrow> exn + unit" where
  "quantity_guard tid a s =
     (case fa_max_recorded_qty a of
        None \<Rightarrow> Inr ()
      | Some maximum \<Rightarrow>
          if \<not> isfinite maximum \<or> flt maximum (Fin 0) then Inl (ValueError ''invalid reported filled quantity'')
          else (case sum_recorded tid (filter (\<lambda>r. xf_intent_id r = fa_intent_id a) (es_fills s)) (Fin 0) False of
                  Inl e \<Rightarrow> Inl e
                | Inr (tot, duplicate) \<Rightarrow>
                    if \<not> isfinite (fa_qty a) \<or> fle (fa_qty a) (Fin 0)
                    then Inl (ValueError ''invalid proposed fill quantity'')
                    else (let after = (if duplicate then tot else fadd tot (fa_qty a))
                          in if flt maximum after \<and> \<not> isclose rel_tol abs_tol after maximum
                             then Inl (ValueError ''recorded fills exceed reported filled quantity'')
                             else Inr ())))"

definition delivery_key :: "delivery \<Rightarrow> string \<times> string" where
  "delivery_key d = (dv_venue d, dv_fill_id d)"

text \<open>The delivery row of a canonical fill: refused when the same fill was promised differently, ignored when
  either unique key is taken.\<close>

definition put_delivery :: "string \<Rightarrow> string \<Rightarrow> string \<Rightarrow> dict \<Rightarrow> exec_store \<Rightarrow> exn + exec_store" where
  "put_delivery iid venue tid payload s =
     (case select_key delivery_key (venue, tid) (es_deliveries s) of
        Some d \<Rightarrow> if dv_intent_id d \<noteq> iid \<or> dv_payload d \<noteq> payload
                  then Inl (ValueError ''conflicting reconcile fill delivery'') else Inr s
      | None \<Rightarrow>
          Inr (if list_ex (\<lambda>d. dv_intent_id d = iid \<and> dv_fill_id d = tid) (es_deliveries s) then s
               else s\<lparr>es_deliveries := es_deliveries s @
                 [\<lparr>dv_intent_id = iid, dv_venue = venue, dv_fill_id = tid, dv_payload = payload, dv_completed = False\<rparr>]\<rparr>))"

text \<open>\<open>INSERT OR IGNORE INTO fills\<close>: ignored on a taken \<open>(intent_id, trade_id)\<close> or a \<open>NULL\<close> in a \<open>NOT NULL\<close>
  column.\<close>

definition put_fill :: "string option \<Rightarrow> fill_args \<Rightarrow> exec_store \<Rightarrow> exec_store" where
  "put_fill tid a s =
     (if fa_price a = NaN \<or> fa_qty a = NaN \<or> fa_fee a = NaN \<or>
         (tid \<noteq> None \<and> list_ex (\<lambda>r. xf_intent_id r = fa_intent_id a \<and> xf_trade_id r = tid) (es_fills s))
      then s
      else s\<lparr>es_fills := es_fills s @
               [\<lparr>xf_id = Suc (es_fill_seq s), xf_intent_id = fa_intent_id a, xf_ts_ms = fa_ts_ms a,
                 xf_price = fa_price a, xf_qty = fa_qty a, xf_fee = fa_fee a, xf_fee_ccy = fa_fee_ccy a,
                 xf_meta = (case fa_meta a of None \<Rightarrow> [] | Some m \<Rightarrow> m), xf_trade_id = tid\<rparr>],
             es_fill_seq := Suc (es_fill_seq s)\<rparr>)"

definition canonical_payload :: "string option \<Rightarrow> dict option \<Rightarrow> exn + dict option" where
  "canonical_payload tid cf =
     (case cf of
        None \<Rightarrow> Inr None
      | Some d \<Rightarrow>
          if \<not> truthy tid \<or> json_str (jor (jget ''fill_id'' d) (JStr '''')) \<noteq> the tid \<or> \<not> jtruthy (jget ''venue'' d)
          then Inl (ValueError ''invalid reconcile fill identity'')
          else map_sum id Some (dumps_dict d))"

definition add_fill :: "fill_args \<Rightarrow> exec_store \<Rightarrow> exn + exec_store" where
  "add_fill a s =
     (let tid = trade_id_from_meta (fa_meta a)
      in case canonical_payload tid (fa_canonical_fill a) of
           Inl e \<Rightarrow> Inl e
         | Inr payload \<Rightarrow>
        (case quantity_guard tid a s of
           Inl e \<Rightarrow> Inl e
         | Inr _ \<Rightarrow>
        (case (payload, fa_canonical_fill a) of
           (Some p, Some d) \<Rightarrow>
             (case put_delivery (fa_intent_id a) (json_str (jget ''venue'' d)) (the tid) p s of
                Inl e \<Rightarrow> Inl e | Inr s' \<Rightarrow> Inr (put_fill tid a s'))
         | _ \<Rightarrow> Inr (put_fill tid a s))))"

definition pending_reconcile_fills :: "string \<Rightarrow> exec_store \<Rightarrow> dict list" where
  "pending_reconcile_fills iid s =
     map dv_payload (filter (\<lambda>d. dv_intent_id d = iid \<and> \<not> dv_completed d) (es_deliveries s))"

definition complete_reconcile_fill :: "string \<Rightarrow> string \<Rightarrow> exec_store \<Rightarrow> exn + exec_store" where
  "complete_reconcile_fill venue fid s =
     (let P = (\<lambda>d. delivery_key d = (venue, fid))
      in if rowcount P (es_deliveries s) \<noteq> 1 then Inl (RuntimeError ''missing reconcile fill delivery'')
         else Inr (s\<lparr>es_deliveries := upd_where P (\<lambda>d. d\<lparr>dv_completed := True\<rparr>) (es_deliveries s)\<rparr>))"

text \<open>The delivery a fill row is joined with, and whether it is completed.\<close>

definition joined_completed :: "exec_store \<Rightarrow> exec_fill \<Rightarrow> bool" where
  "joined_completed s r =
     (case List.find (\<lambda>d. dv_intent_id d = xf_intent_id r \<and> Some (dv_fill_id d) = xf_trade_id r) (es_deliveries s) of
        None \<Rightarrow> False | Some d \<Rightarrow> dv_completed d)"

fun coverage_of :: "exec_store \<Rightarrow> exec_fill list \<Rightarrow> pyfloat \<Rightarrow> bool \<Rightarrow> exn + pyfloat \<times> bool" where
  "coverage_of s [] q c = Inr (q, c)"
| "coverage_of s (r # rs) q c =
     (if \<not> isfinite (xf_qty r) \<or> fle (xf_qty r) (Fin 0) then Inl (ValueError ''invalid recorded fill quantity'')
      else coverage_of s rs (fadd q (xf_qty r)) (c \<and> joined_completed s r))"

definition reconcile_fill_coverage :: "string \<Rightarrow> exec_store \<Rightarrow> exn + pyfloat \<times> bool" where
  "reconcile_fill_coverage iid s = coverage_of s (filter (\<lambda>r. xf_intent_id r = iid) (es_fills s)) (Fin 0) True"

definition fill_row_trade_id :: "exec_fill \<Rightarrow> string" where
  "fill_row_trade_id r =
     (let tid = strip (opt_str_or (xf_trade_id r) '''')
      in if tid \<noteq> '''' then tid else strip (json_str (jor (jget ''trade_id'' (xf_meta r)) (JStr ''''))))"

definition list_fill_trade_ids :: "string \<Rightarrow> int \<Rightarrow> exec_store \<Rightarrow> string list" where
  "list_fill_trade_ids iid limit s =
     filter (\<lambda>t. t \<noteq> '''') (map fill_row_trade_id
       (sql_limit limit (rev (sort_key xf_id (filter (\<lambda>r. xf_intent_id r = iid) (es_fills s))))))"

section \<open>Symbol locks and the loss counter\<close>

definition get_symbol_lock :: "int \<Rightarrow> string \<Rightarrow> exec_store \<Rightarrow> symbol_lock option" where
  "get_symbol_lock now symbol s =
     (case select_key sl_symbol symbol (es_locks s) of
        None \<Rightarrow> None | Some r \<Rightarrow> if sl_locked_until_ms r \<le> now then None else Some r)"

definition put_lock :: "symbol_lock \<Rightarrow> symbol_lock list \<Rightarrow> symbol_lock list" where
  "put_lock l t =
     (if select_key sl_symbol (sl_symbol l) t = None then t @ [l]
      else upd_where (\<lambda>r. sl_symbol r = sl_symbol l) (\<lambda>_. l) t)"

definition set_symbol_lock :: "int \<Rightarrow> string \<Rightarrow> int \<Rightarrow> int \<Rightarrow> string \<Rightarrow> exec_store \<Rightarrow> exec_store" where
  "set_symbol_lock now symbol until n reason s =
     s\<lparr>es_locks := put_lock \<lparr>sl_symbol = symbol, sl_locked_until_ms = until, sl_loss_count = n, sl_reason = reason,
                            sl_created_ts_ms = now\<rparr> (es_locks s)\<rparr>"

definition loss_count_of :: "string \<Rightarrow> exec_store \<Rightarrow> int" where
  "loss_count_of symbol s =
     (case select_key sl_symbol symbol (es_locks s) of None \<Rightarrow> 0 | Some r \<Rightarrow> sl_loss_count r)"

definition increment_symbol_loss :: "int \<Rightarrow> string \<Rightarrow> int \<Rightarrow> int \<Rightarrow> exec_store \<Rightarrow> int \<times> exec_store" where
  "increment_symbol_loss now symbol loss_limit lock_ms s =
     (let n = loss_count_of symbol s + 1
      in (n,
          if loss_limit \<le> n
          then s\<lparr>es_locks := put_lock \<lparr>sl_symbol = symbol, sl_locked_until_ms = now + lock_ms, sl_loss_count = n,
                   sl_reason = ''consecutive_losses='' @ int_text n, sl_created_ts_ms = now\<rparr> (es_locks s)\<rparr>
          else s\<lparr>es_locks :=
                 (if select_key sl_symbol symbol (es_locks s) = None
                  then es_locks s @ [\<lparr>sl_symbol = symbol, sl_locked_until_ms = 0, sl_loss_count = n,
                         sl_reason = ''loss_count='' @ int_text n, sl_created_ts_ms = now\<rparr>]
                  else upd_where (\<lambda>r. sl_symbol r = symbol)
                         (\<lambda>r. r\<lparr>sl_loss_count := n, sl_reason := ''loss_count='' @ int_text n\<rparr>) (es_locks s))\<rparr>))"

definition loss_event_key :: "loss_event \<Rightarrow> string \<times> string" where
  "loss_event_key e = (ev_venue e, ev_fill_id e)"

definition unapplied_keys :: "exec_store \<Rightarrow> (string \<times> string) list" where
  "unapplied_keys s =
     filter (\<lambda>k. k \<notin> loss_event_key ` set (es_loss_events s)) (map canonical_key (journal_rows (es_journal s)))"

definition activate_symbol_loss_cutover :: "int \<Rightarrow> exec_store \<Rightarrow> exn + int \<times> exec_store" where
  "activate_symbol_loss_cutover now s =
     (case es_cutover s of
        Some t \<Rightarrow> Inr (t, s)
      | None \<Rightarrow>
          if list_ex (\<lambda>k. k \<in> set (es_legacy s)) (unapplied_keys s)
          then Inl (IntegrityError ''UNIQUE constraint failed: symbol_loss_legacy_fills'')
          else Inr (now, s\<lparr>es_legacy := es_legacy s @ unapplied_keys s, es_cutover := Some now\<rparr>))"

text \<open>The rows before the given fill in the journal.\<close>

definition rows_before :: "string \<times> string \<Rightarrow> canonical_row list \<Rightarrow> canonical_row list" where
  "rows_before k rows = takeWhile (\<lambda>r. canonical_key r \<noteq> k) rows"

definition earlier_unapplied :: "string \<times> string \<Rightarrow> string \<Rightarrow> exec_store \<Rightarrow> bool" where
  "earlier_unapplied k symbol s =
     list_ex (\<lambda>r. cf_symbol r = symbol \<and> canonical_key r \<notin> set (es_legacy s) \<and>
                 canonical_key r \<notin> loss_event_key ` set (es_loss_events s))
       (rows_before k (journal_rows (es_journal s)))"

definition journal_order_check :: "string \<times> string \<Rightarrow> string \<Rightarrow> exec_store \<Rightarrow> exn option" where
  "journal_order_check k symbol s =
     (case select_key canonical_key k (journal_rows (es_journal s)) of
        None \<Rightarrow> Some (ValueError ''missing or conflicting journal loss identity'')
      | Some r \<Rightarrow>
          if cf_symbol r \<noteq> symbol then Some (ValueError ''missing or conflicting journal loss identity'')
          else if earlier_unapplied k symbol s then Some (RuntimeError ''earlier journal loss event remains unapplied'')
          else None)"

text \<open>The counter and the lock of a symbol after a fill with profit \<open>pnl\<close>.\<close>

definition next_loss_count :: "pyfloat \<Rightarrow> int \<Rightarrow> int" where
  "next_loss_count pnl n = (if flt pnl (Fin 0) then n + 1 else 0)"

definition loss_lock :: "int \<Rightarrow> string \<Rightarrow> pyfloat \<Rightarrow> int \<Rightarrow> int \<Rightarrow> exec_store \<Rightarrow> symbol_lock" where
  "loss_lock now symbol pnl loss_limit lock_ms s =
     (let row = select_key sl_symbol symbol (es_locks s);
          n = next_loss_count pnl (loss_count_of symbol s)
      in \<lparr>sl_symbol = symbol,
          sl_locked_until_ms =
            (if loss_limit \<le> n then now + lock_ms
             else if flt pnl (Fin 0) then (case row of None \<Rightarrow> 0 | Some r \<Rightarrow> sl_locked_until_ms r) else 0),
          sl_loss_count = n,
          sl_reason = (if loss_limit \<le> n then ''consecutive_losses='' @ int_text n
                       else if flt pnl (Fin 0) then ''loss_count='' @ int_text n else ''reset_on_profit''),
          sl_created_ts_ms = now\<rparr>)"

definition apply_symbol_loss_fill_once ::
    "int \<Rightarrow> string \<Rightarrow> string \<Rightarrow> string \<Rightarrow> pyfloat \<Rightarrow> int \<Rightarrow> int \<Rightarrow> bool \<Rightarrow> exec_store \<Rightarrow> exn + int \<times> exec_store" where
  "apply_symbol_loss_fill_once now venue fid symbol pnl loss_limit lock_ms require_order s =
     (if venue = '''' \<or> fid = '''' \<or> symbol = '''' \<or> \<not> isfinite pnl then Inl (ValueError ''invalid symbol loss fill'')
      else if loss_limit < 1 \<or> lock_ms < 0 then Inl (ValueError ''invalid symbol loss policy'')
      else if es_cutover s = None then Inl (RuntimeError ''symbol loss cutover not activated'')
      else if (venue, fid) \<in> set (es_legacy s) then Inr (loss_count_of symbol s, s)
      else (case select_key loss_event_key (venue, fid) (es_loss_events s) of
        Some e \<Rightarrow>
          if ev_symbol e \<noteq> symbol \<or> ev_pnl e \<noteq> pnl then Inl (ValueError ''conflicting symbol loss fill replay'')
          else Inr (ev_loss_count e, s)
      | None \<Rightarrow>
          (case (if require_order then journal_order_check (venue, fid) symbol s else None) of
             Some e \<Rightarrow> Inl e
           | None \<Rightarrow>
               (let l = loss_lock now symbol pnl loss_limit lock_ms s
                in Inr (sl_loss_count l,
                     s\<lparr>es_locks := put_lock l (es_locks s),
                       es_loss_events := es_loss_events s @
                         [\<lparr>ev_venue = venue, ev_fill_id = fid, ev_symbol = symbol, ev_pnl = pnl,
                           ev_loss_count = sl_loss_count l\<rparr>]\<rparr>)))))"

section \<open>The loss counter follows the journal\<close>

text \<open>The tables the loss counter reads and writes, and the steps of the store seen from them: creating the journal
  table, activating the cutover, recording a journal row, applying a fill in journal order, and anything that leaves these tables
  alone.\<close>

definition loss_view :: "exec_store \<Rightarrow> symbol_lock list \<times> loss_event list \<times> int option \<times> (string \<times> string) list \<times> journal_table" where
  "loss_view s = (es_locks s, es_loss_events s, es_cutover s, es_legacy s, es_journal s)"

inductive loss_step :: "exec_store \<Rightarrow> exec_store \<Rightarrow> bool" where
  schema: "loss_step s (s\<lparr>es_journal := journal_ensure_schema (es_journal s)\<rparr>)"
| cutover: "activate_symbol_loss_cutover now s = Inr (t, s') \<Longrightarrow> loss_step s s'"
| journal: "loss_step s (s\<lparr>es_journal := record_fill r (es_journal s)\<rparr>)"
| counted: "apply_symbol_loss_fill_once now v f y p lmt dur True s = Inr (n, s') \<Longrightarrow> loss_step s s'"
| frame: "loss_view s' = loss_view s \<Longrightarrow> loss_step s s'"

inductive loss_reach :: "exec_store \<Rightarrow> exec_store \<Rightarrow> bool" where
  start: "loss_reach s s"
| step: "loss_reach s t \<Longrightarrow> loss_step t u \<Longrightarrow> loss_reach s u"

definition symbol_events :: "string \<Rightarrow> exec_store \<Rightarrow> loss_event list" where
  "symbol_events y s = filter (\<lambda>e. ev_symbol e = y) (es_loss_events s)"

text \<open>The fills of a symbol that count, in journal order: all but those recorded before the cutover.\<close>

definition counted_fills :: "string \<Rightarrow> exec_store \<Rightarrow> (string \<times> string) list" where
  "counted_fills y s =
     map canonical_key (filter (\<lambda>r. cf_symbol r = y \<and> canonical_key r \<notin> set (es_legacy s)) (journal_rows (es_journal s)))"

definition streak :: "int \<Rightarrow> pyfloat list \<Rightarrow> int" where
  "streak n ps = foldl (\<lambda>k p. next_loss_count p k) n ps"

definition journal_start :: "exec_store \<Rightarrow> bool" where
  "journal_start s \<longleftrightarrow> es_loss_events s = [] \<and> es_cutover s = None \<and> es_legacy s = [] \<and>
     distinct (map canonical_key (journal_rows (es_journal s)))"

definition loss_inv :: "(string \<Rightarrow> int) \<Rightarrow> exec_store \<Rightarrow> bool" where
  "loss_inv base s \<longleftrightarrow>
     distinct (map canonical_key (journal_rows (es_journal s))) \<and>
     (\<forall>e \<in> set (es_loss_events s). \<exists>r \<in> set (journal_rows (es_journal s)).
        canonical_key r = loss_event_key e \<and> cf_symbol r = ev_symbol e) \<and>
     (\<forall>k \<in> set (es_legacy s). journalled k (es_journal s)) \<and>
     (es_cutover s = None \<longrightarrow> es_loss_events s = [] \<and> es_legacy s = []) \<and>
     (\<forall>y. prefix (map loss_event_key (symbol_events y s)) (counted_fills y s)) \<and>
     (\<forall>y. loss_count_of y s = streak (base y) (map ev_pnl (symbol_events y s)))"

lemma select_key_put_lock:
  "select_key sl_symbol y (put_lock l t) = (if y = sl_symbol l then Some l else select_key sl_symbol y t)"
proof (cases "select_key sl_symbol (sl_symbol l) t")
  case None
  then show ?thesis
    by (simp add: put_lock_def select_key_append select_key_Cons split: option.split)
next
  case (Some r)
  have "select_key sl_symbol y (put_lock l t) =
      map_option (\<lambda>r. if sl_symbol r = sl_symbol l then l else r) (select_key sl_symbol y t)"
    unfolding put_lock_def Some by (simp add: select_key_upd_where)
  moreover have "sl_symbol x = y" if "select_key sl_symbol y t = Some x" for x
    using select_key_Some_mem[OF that] by simp
  ultimately show ?thesis using Some by (cases "select_key sl_symbol y t") auto
qed

lemma loss_count_put_lock:
  "loss_count_of y (s\<lparr>es_locks := put_lock l (es_locks s), es_loss_events := evs\<rparr>) =
     (if y = sl_symbol l then sl_loss_count l else loss_count_of y s)"
  by (simp add: loss_count_of_def select_key_put_lock)

text \<open>The two ways a fill is accepted: nothing changes (legacy or replay), or it is the next fill of its symbol.\<close>

lemma apply_loss_cases:
  assumes "apply_symbol_loss_fill_once now v f y p lmt dur True s = Inr (n, s')"
  obtains (legacy) "(v, f) \<in> set (es_legacy s)" "s' = s"
  | (replay) e where "select_key loss_event_key (v, f) (es_loss_events s) = Some e" "ev_symbol e = y" "s' = s"
  | (counted) r where "(v, f) \<notin> set (es_legacy s)" "select_key loss_event_key (v, f) (es_loss_events s) = None"
      "select_key canonical_key (v, f) (journal_rows (es_journal s)) = Some r" "cf_symbol r = y"
      "\<not> earlier_unapplied (v, f) y s" "es_cutover s \<noteq> None" "isfinite p"
      "n = next_loss_count p (loss_count_of y s)"
      "s' = s\<lparr>es_locks := put_lock (loss_lock now y p lmt dur s) (es_locks s),
              es_loss_events := es_loss_events s @
                [\<lparr>ev_venue = v, ev_fill_id = f, ev_symbol = y, ev_pnl = p, ev_loss_count = n\<rparr>]\<rparr>"
proof -
  have g: "isfinite p" "es_cutover s \<noteq> None"
    using assms unfolding apply_symbol_loss_fill_once_def by (auto split: if_splits)
  show ?thesis
  proof (cases "(v, f) \<in> set (es_legacy s)")
    case True
    then have "s' = s" using assms unfolding apply_symbol_loss_fill_once_def by (auto split: if_splits)
    then show ?thesis using legacy True by blast
  next
    case nl: False
    show ?thesis
    proof (cases "select_key loss_event_key (v, f) (es_loss_events s)")
      case (Some e)
      then have "s' = s \<and> ev_symbol e = y"
        using assms nl unfolding apply_symbol_loss_fill_once_def by (auto split: if_splits)
      then show ?thesis using replay Some by blast
    next
      case None
      have j: "journal_order_check (v, f) y s = None"
        using assms nl None unfolding apply_symbol_loss_fill_once_def
        by (auto split: if_splits option.splits)
      then obtain r where r: "select_key canonical_key (v, f) (journal_rows (es_journal s)) = Some r"
        "cf_symbol r = y" "\<not> earlier_unapplied (v, f) y s"
        unfolding journal_order_check_def by (auto split: option.splits if_splits)
      show ?thesis
        by (rule counted[OF nl None r g(2,1)])
          (use assms nl None j in \<open>auto simp: apply_symbol_loss_fill_once_def loss_lock_def Let_def split: if_splits\<close>)
    qed
  qed
qed

lemma prefix_next:
  assumes "prefix xs (ys @ k # zs)" "k \<notin> set xs" "set ys \<subseteq> set xs" "distinct (ys @ k # zs)"
  shows "xs = ys"
proof -
  have le: "prefix xs ys"
  proof (rule ccontr)
    assume "\<not> prefix xs ys"
    then obtain us where "xs = ys @ us" "us \<noteq> []" "prefix us (k # zs)"
      using assms(1) by (auto simp: prefix_append)
    then show False using assms(2) by (cases us) auto
  qed
  then obtain us where us: "ys = xs @ us" by (auto simp: prefix_def)
  then have "us = []" using assms(3,4) by (cases us) auto
  then show ?thesis using us by simp
qed

lemma select_key_split:
  assumes "select_key key k t = Some r"
  shows "\<exists>B. t = takeWhile (\<lambda>x. key x \<noteq> k) t @ r # B \<and> key r = k"
  using assms by (induction t) (auto simp: select_key_Cons split: if_splits)

lemma journalled_key: "select_key canonical_key k (journal_rows t) = Some r \<Longrightarrow> journalled k t"
  using select_key_Some_mem[of canonical_key k "journal_rows t" r] by (auto simp: journalled_def)

lemma streak_snoc: "streak n (ps @ [p]) = next_loss_count p (streak n ps)"
  by (simp add: streak_def)

lemma loss_inv_start:
  assumes "journal_start s"
  shows "loss_inv (\<lambda>y. loss_count_of y s) s"
  using assms by (simp add: journal_start_def loss_inv_def symbol_events_def streak_def)

lemma loss_inv_cutover:
  assumes inv: "loss_inv base s" and act: "activate_symbol_loss_cutover now s = Inr (t, s')"
  shows "loss_inv base s'"
proof (cases "es_cutover s")
  case (Some u)
  then show ?thesis using assms by (simp add: activate_symbol_loss_cutover_def)
next
  case None
  have e: "es_loss_events s = []" "es_legacy s = []" using inv None by (simp_all add: loss_inv_def)
  have s': "s' = s\<lparr>es_legacy := unapplied_keys s, es_cutover := Some now\<rparr>"
    using act None e by (auto simp: activate_symbol_loss_cutover_def split: if_splits)
  have "loss_count_of y s = base y" for y using inv e by (simp add: loss_inv_def symbol_events_def streak_def)
  then show ?thesis using inv e unfolding s'
    by (simp add: loss_inv_def unapplied_keys_def journalled_def symbol_events_def streak_def loss_count_of_def)
qed

lemma loss_inv_schema: "loss_inv base s \<Longrightarrow> loss_inv base (s\<lparr>es_journal := journal_ensure_schema (es_journal s)\<rparr>)"
  by (simp add: loss_inv_def journal_ensure_schema_def journalled_def symbol_events_def counted_fills_def loss_count_of_def)

lemma loss_inv_journal:
  assumes inv: "loss_inv base s"
  shows "loss_inv base (s\<lparr>es_journal := record_fill r (es_journal s)\<rparr>)" (is "loss_inv base ?s")
proof -
  obtain ys where ys: "journal_rows (record_fill r (es_journal s)) = journal_rows (es_journal s) @ ys"
    using record_fill_prefix by blast
  have "prefix (counted_fills y s) (counted_fills y ?s)" for y
    by (simp add: counted_fills_def ys)
  moreover have "symbol_events y ?s = symbol_events y s" "loss_count_of y ?s = loss_count_of y s" for y
    by (simp_all add: symbol_events_def loss_count_of_def)
  ultimately show ?thesis using inv record_fill_distinct[of "es_journal s" r] record_fill_keeps
    unfolding loss_inv_def by (auto simp: ys intro: prefix_order.trans)
qed

lemma loss_inv_counted:
  assumes inv: "loss_inv base s" and ap: "apply_symbol_loss_fill_once now v f y p lmt dur True s = Inr (n, s')"
  shows "loss_inv base s'"
  using ap
proof (cases rule: apply_loss_cases)
  case (counted r)
  let ?k = "(v, f)" and ?J = "journal_rows (es_journal s)"
  let ?e = "\<lparr>ev_venue = v, ev_fill_id = f, ev_symbol = y, ev_pnl = p, ev_loss_count = n\<rparr>"
  let ?leg = "set (es_legacy s)"
  have evs: "symbol_events y' s' = symbol_events y' s @ (if y' = y then [?e] else [])" for y'
    by (simp add: counted symbol_events_def)
  have cf: "counted_fills y' s' = counted_fills y' s" for y' by (simp add: counted counted_fills_def)
  obtain A B where J: "?J = A @ r # B" and A: "A = rows_before ?k ?J" and rk: "canonical_key r = ?k"
    using select_key_split[OF counted(3)] by (auto simp: rows_before_def)
  let ?fA = "map canonical_key (filter (\<lambda>r. cf_symbol r = y \<and> canonical_key r \<notin> ?leg) A)"
  let ?fB = "map canonical_key (filter (\<lambda>r. cf_symbol r = y \<and> canonical_key r \<notin> ?leg) B)"
  have Z: "counted_fills y s = ?fA @ ?k # ?fB" using counted(1,4) rk by (simp add: counted_fills_def J)
  have dj: "distinct (map canonical_key ?J)" using inv by (simp add: loss_inv_def)
  have ej: "\<exists>x \<in> set ?J. canonical_key x = loss_event_key e \<and> cf_symbol x = ev_symbol e"
    if "e \<in> set (es_loss_events s)" for e
    using inv that by (simp add: loss_inv_def)
  have sub: "set ?fA \<subseteq> set (map loss_event_key (symbol_events y s))"
  proof
    fix k assume "k \<in> set ?fA"
    then obtain a where a: "a \<in> set A" "cf_symbol a = y" "k = canonical_key a" "k \<notin> ?leg" by auto
    then obtain e where e: "e \<in> set (es_loss_events s)" "loss_event_key e = k"
      using counted(5) A by (auto simp: earlier_unapplied_def list_ex_iff)
    obtain x where x: "x \<in> set ?J" "canonical_key x = k" "cf_symbol x = ev_symbol e" using ej[OF e(1)] e(2) by auto
    have "a \<in> set ?J" using a(1) J by simp
    then have "x = a" using dj x(1,2) a(3) by (auto simp: distinct_map dest: inj_onD)
    then show "k \<in> set (map loss_event_key (symbol_events y s))"
      using e x(3) a(2) by (auto simp: symbol_events_def)
  qed
  have "?k \<notin> set (map loss_event_key (symbol_events y s))"
    using counted(2) by (auto simp: tbl symbol_events_def)
  moreover have "distinct (counted_fills y s)" using dj by (simp add: counted_fills_def distinct_map_filter)
  moreover have "prefix (map loss_event_key (symbol_events y s)) (counted_fills y s)" using inv by (simp add: loss_inv_def)
  ultimately have eq: "map loss_event_key (symbol_events y s) = ?fA"
    using prefix_next[OF _ _ sub] unfolding Z by blast
  have pre: "prefix (map loss_event_key (symbol_events y' s')) (counted_fills y' s')" for y'
    using inv eq Z by (auto simp: evs cf loss_inv_def loss_event_key_def)
  have "loss_count_of y' s' = (if y' = y then n else loss_count_of y' s)" for y'
    unfolding counted(9) loss_count_put_lock by (simp add: loss_lock_def Let_def counted(8))
  then have cnt: "loss_count_of y' s' = streak (base y') (map ev_pnl (symbol_events y' s'))" for y'
    using inv by (simp add: evs streak_snoc loss_inv_def counted(8))
  have "r \<in> set ?J" using J by simp
  then show ?thesis using inv pre cnt counted(6) rk counted(4) unfolding loss_inv_def
    by (simp add: counted(9) loss_event_key_def) blast
qed (use inv in simp_all)

lemma loss_inv_frame: "loss_view s' = loss_view s \<Longrightarrow> loss_inv base s \<Longrightarrow> loss_inv base s'"
  by (simp add: loss_view_def loss_inv_def symbol_events_def counted_fills_def loss_count_of_def)

lemma loss_inv_reach:
  assumes "loss_reach s0 s" "journal_start s0"
  shows "loss_inv (\<lambda>y. loss_count_of y s0) s"
  using assms
proof (induction rule: loss_reach.induct)
  case (step s t u)
  from step.hyps(2) step.IH[OF step.prems] show ?case
    by (cases rule: loss_step.cases)
      (auto intro: loss_inv_schema loss_inv_cutover loss_inv_journal loss_inv_counted loss_inv_frame)
qed (rule loss_inv_start)

text \<open>The other methods of the store leave the loss tables alone.\<close>

lemma put_fill_view: "loss_view (put_fill tid a s) = loss_view s"
  by (simp add: put_fill_def loss_view_def)

lemma put_delivery_view: "put_delivery i v t p s = Inr s' \<Longrightarrow> loss_view s' = loss_view s"
  by (auto simp: put_delivery_def loss_view_def split: option.splits if_splits)

lemma other_methods_view:
  "loss_view (snd (set_intent_status iid st why s)) = loss_view s"
  "store_upsert_intent now i s = Inr s' \<Longrightarrow> loss_view s' = loss_view s"
  "add_fill a s = Inr s' \<Longrightarrow> loss_view s' = loss_view s"
  "complete_reconcile_fill v f s = Inr s' \<Longrightarrow> loss_view s' = loss_view s"
proof -
  show "loss_view (snd (set_intent_status iid st why s)) = loss_view s"
    by (simp add: set_intent_status_def Let_def loss_view_def)
  show "store_upsert_intent now i s = Inr s' \<Longrightarrow> loss_view s' = loss_view s"
    by (auto simp: store_upsert_intent_def Let_def loss_view_def split: if_splits)
  show "complete_reconcile_fill v f s = Inr s' \<Longrightarrow> loss_view s' = loss_view s"
    by (auto simp: complete_reconcile_fill_def Let_def loss_view_def split: if_splits)
  assume "add_fill a s = Inr s'"
  then show "loss_view s' = loss_view s"
    unfolding add_fill_def Let_def
    by (auto simp: put_fill_view dest: put_delivery_view split: sum.splits option.splits)
qed

text \<open>The specification of the counter: the losses at the end of a sequence of profits, continuing the old count
  when there was nothing but losses.\<close>

definition is_loss :: "pyfloat \<Rightarrow> bool" where
  "is_loss p \<longleftrightarrow> flt p (Fin 0)"

definition consecutive_losses :: "int \<Rightarrow> pyfloat list \<Rightarrow> int" where
  "consecutive_losses base ps =
     (if list_all is_loss ps then base else 0) + int (length (takeWhile is_loss (rev ps)))"

lemma streak_is_consecutive: "streak n ps = consecutive_losses n ps"
  by (induction ps rule: rev_induct)
    (auto simp: streak_def consecutive_losses_def next_loss_count_def is_loss_def)

section \<open>Properties\<close>

text \<open>C14. The loss counter is a fold over the canonical journal: whatever calls arrive, in whatever order and
  however often they are repeated, the fills of a symbol that have been counted are the first ones of
  the journal (leaving out those recorded before the cutover) in journal order, each once, and the
  counter of the symbol is the number of consecutive losses at their end.\<close>

theorem loss_counter_follows_journal:
  assumes "journal_start s0" "loss_reach s0 s"
  shows "prefix (map loss_event_key (symbol_events y s)) (counted_fills y s) \<and>
    loss_count_of y s = consecutive_losses (loss_count_of y s0) (map ev_pnl (symbol_events y s))"
  using loss_inv_reach[OF assms(2,1)] unfolding loss_inv_def streak_is_consecutive by blast

lemma get_symbol_lock_put:
  "get_symbol_lock t (sl_symbol l) (s\<lparr>es_locks := put_lock l (es_locks s), es_loss_events := evs\<rparr>) =
     (if sl_locked_until_ms l \<le> t then None else Some l)"
  by (simp add: get_symbol_lock_def select_key_put_lock)

text \<open>The lock follows the counter: when a fill is counted the answer is one more than the old count after
  a loss and zero otherwise; at the limit the symbol is locked for exactly the lock duration, below it a
  loss keeps whatever lock there was, and a fill without loss releases the symbol.\<close>

theorem symbol_lock_policy:
  assumes ap: "apply_symbol_loss_fill_once now v f y p lmt dur True s = Inr (n, s')"
    and new: "(v, f) \<notin> set (es_legacy s)" "select_key loss_event_key (v, f) (es_loss_events s) = None"
    and t: "0 \<le> t"
  shows "n = next_loss_count p (loss_count_of y s) \<and> loss_count_of y s' = n \<and>
    (get_symbol_lock t y s' \<noteq> None \<longleftrightarrow>
      (if lmt \<le> n then t < now + dur else flt p (Fin 0) \<and> get_symbol_lock t y s \<noteq> None))"
  using ap
proof (cases rule: apply_loss_cases)
  case (counted r)
  have y: "sl_symbol (loss_lock now y p lmt dur s) = y" by (simp add: loss_lock_def Let_def)
  have c: "sl_loss_count (loss_lock now y p lmt dur s) = n" by (simp add: loss_lock_def Let_def counted(8))
  have u: "sl_locked_until_ms (loss_lock now y p lmt dur s) =
      (if lmt \<le> n then now + dur else if flt p (Fin 0)
       then (case select_key sl_symbol y (es_locks s) of None \<Rightarrow> 0 | Some r \<Rightarrow> sl_locked_until_ms r) else 0)"
    by (simp add: loss_lock_def Let_def counted(8))
  have "loss_count_of y s' = n" unfolding counted(9) loss_count_put_lock using y c by simp
  moreover have "get_symbol_lock t y s' \<noteq> None \<longleftrightarrow> \<not> sl_locked_until_ms (loss_lock now y p lmt dur s) \<le> t"
    unfolding counted(9) using get_symbol_lock_put[of t "loss_lock now y p lmt dur s", unfolded y] by simp
  ultimately show ?thesis
    using t unfolding u by (auto simp: counted(8) get_symbol_lock_def split: option.splits)
qed (use new in simp_all)

section \<open>The outbox of fills\<close>

definition intent_fills :: "string \<Rightarrow> exec_store \<Rightarrow> exec_fill list" where
  "intent_fills iid s = filter (\<lambda>r. xf_intent_id r = iid) (es_fills s)"

definition recorded_qty :: "string \<Rightarrow> exec_store \<Rightarrow> pyfloat" where
  "recorded_qty iid s = foldl fadd (Fin 0) (map xf_qty (intent_fills iid s))"

definition usable_qty :: "pyfloat \<Rightarrow> bool" where
  "usable_qty q \<longleftrightarrow> isfinite q \<and> \<not> fle q (Fin 0)"

lemma sum_recorded_sum:
  "sum_recorded tid rs t dup = Inr (t', dup') \<Longrightarrow>
     t' = foldl fadd t (map xf_qty rs) \<and> (dup' \<longleftrightarrow> dup \<or> (tid \<noteq> None \<and> (\<exists>r \<in> set rs. xf_trade_id r = tid))) \<and>
     (\<forall>r \<in> set rs. usable_qty (xf_qty r))"
  by (induction rs arbitrary: t dup) (auto simp: usable_qty_def split: if_splits)

lemma foldl_fadd_nonneg:
  "fle (Fin 0) t \<Longrightarrow> \<forall>q \<in> set qs. usable_qty q \<Longrightarrow> fle (Fin 0) (foldl fadd t qs)"
proof (induction qs arbitrary: t)
  case (Cons q qs)
  have "fle (Fin 0) q" using Cons.prems(2) by (cases q) (auto simp: usable_qty_def)
  then show ?case using Cons fadd_nonneg by simp
qed simp

lemma put_delivery_fills: "put_delivery i v t p s = Inr s' \<Longrightarrow> es_fills s' = es_fills s \<and> es_fill_seq s' = es_fill_seq s"
  by (auto simp: put_delivery_def split: option.splits if_splits)

text \<open>What a successful \<open>add_fill\<close> did to the fills.\<close>

lemma add_fill_put:
  assumes "add_fill a s = Inr s'"
  obtains s1 where "quantity_guard (trade_id_from_meta (fa_meta a)) a s = Inr ()" "es_fills s1 = es_fills s"
    "s' = put_fill (trade_id_from_meta (fa_meta a)) a s1"
proof -
  let ?tid = "trade_id_from_meta (fa_meta a)"
  have "\<exists>s1. quantity_guard ?tid a s = Inr () \<and> es_fills s1 = es_fills s \<and> s' = put_fill ?tid a s1"
    using assms unfolding add_fill_def Let_def
    by (auto dest: put_delivery_fills split: sum.splits option.splits)
  then show ?thesis using that by blast
qed

lemma put_fill_intent_fills:
  assumes "fa_price a \<noteq> NaN" "fa_qty a \<noteq> NaN" "fa_fee a \<noteq> NaN"
  shows "map xf_qty (intent_fills (fa_intent_id a) (put_fill tid a s)) =
    map xf_qty (intent_fills (fa_intent_id a) s) @
      (if tid \<noteq> None \<and> (\<exists>r \<in> set (intent_fills (fa_intent_id a) s). xf_trade_id r = tid) then [] else [fa_qty a])"
  using assms by (auto simp: put_fill_def intent_fills_def list_ex_iff)

text \<open>Recorded fills never exceed what the exchange reports: when \<open>add_fill\<close> accepts a fill against the reported
  quantity, the recorded quantities of the intent, this fill included, add up to at most that quantity
  or are within the tolerance of \<open>math.isclose\<close>; a repeated trade id adds nothing.\<close>

theorem add_fill_within_reported:
  assumes ok: "add_fill a s = Inr s'" and m: "fa_max_recorded_qty a = Some m"
    and num: "fa_price a \<noteq> NaN" "fa_fee a \<noteq> NaN"
  shows "(fle (recorded_qty (fa_intent_id a) s') m \<or> isclose rel_tol abs_tol (recorded_qty (fa_intent_id a) s') m) \<and>
    (trade_id_from_meta (fa_meta a) \<noteq> None \<and>
       (\<exists>r \<in> set (intent_fills (fa_intent_id a) s). xf_trade_id r = trade_id_from_meta (fa_meta a)) \<longrightarrow>
     recorded_qty (fa_intent_id a) s' = recorded_qty (fa_intent_id a) s)"
proof -
  let ?i = "fa_intent_id a" and ?tid = "trade_id_from_meta (fa_meta a)"
  obtain s1 where g: "quantity_guard ?tid a s = Inr ()" and s1: "es_fills s1 = es_fills s" and s': "s' = put_fill ?tid a s1"
    using ok by (rule add_fill_put)
  obtain t dup where sr: "sum_recorded ?tid (intent_fills ?i s) (Fin 0) False = Inr (t, dup)"
    and mm: "isfinite m" and q: "usable_qty (fa_qty a)"
    and le: "\<not> (flt m (if dup then t else fadd t (fa_qty a)) \<and> \<not> isclose rel_tol abs_tol (if dup then t else fadd t (fa_qty a)) m)"
    using g m by (auto simp: quantity_guard_def Let_def usable_qty_def intent_fills_def split: if_splits sum.splits)
  note sum = sum_recorded_sum[OF sr]
  have same: "intent_fills ?i s1 = intent_fills ?i s" by (simp add: intent_fills_def s1)
  have qn: "fa_qty a \<noteq> NaN" using q by (auto simp: usable_qty_def)
  have r: "recorded_qty ?i s' = (if dup then t else fadd t (fa_qty a))"
    using sum put_fill_intent_fills[OF num(1) qn num(2), of ?tid s1]
    by (auto simp: recorded_qty_def s' same split: if_splits)
  have "fle (Fin 0) t" using sum foldl_fadd_nonneg[of "Fin 0" "map xf_qty (intent_fills ?i s)"] by simp
  moreover have "fle (Fin 0) (fa_qty a)" using q by (cases "fa_qty a") (auto simp: usable_qty_def)
  ultimately have "fle (Fin 0) (recorded_qty ?i s')" unfolding r using fadd_nonneg by simp
  then have "recorded_qty ?i s' \<noteq> NaN" by auto
  moreover have "m \<noteq> NaN" using mm by auto
  ultimately have "fle (recorded_qty ?i s') m \<or> isclose rel_tol abs_tol (recorded_qty ?i s') m"
    using le r not_flt_iff_fle[of m "recorded_qty ?i s'"] by auto
  moreover have "recorded_qty ?i s' = recorded_qty ?i s"
    if "?tid \<noteq> None \<and> (\<exists>r \<in> set (intent_fills ?i s). xf_trade_id r = ?tid)"
    using that r sum by (auto simp: recorded_qty_def)
  ultimately show ?thesis by blast
qed

text \<open>A complete coverage: every recorded fill of the intent is usable and has a completed delivery, and the
  quantity is the sum.\<close>

lemma coverage_of_sum:
  "coverage_of s rs q c = Inr (q', c') \<Longrightarrow>
     q' = foldl fadd q (map xf_qty rs) \<and> (c' \<longrightarrow> c \<and> (\<forall>r \<in> set rs. joined_completed s r)) \<and>
     (\<forall>r \<in> set rs. usable_qty (xf_qty r))"
  by (induction rs arbitrary: q c) (auto simp: usable_qty_def split: if_splits)

lemma coverage_complete:
  assumes "reconcile_fill_coverage iid s = Inr (q, c)"
  shows "q = recorded_qty iid s \<and> (c \<longrightarrow> (\<forall>r \<in> set (intent_fills iid s). joined_completed s r)) \<and>
    (\<forall>r \<in> set (intent_fills iid s). usable_qty (xf_qty r))"
  using coverage_of_sum[of s "intent_fills iid s" "Fin 0" True q c] assms
  by (auto simp: reconcile_fill_coverage_def intent_fills_def recorded_qty_def)

section \<open>Witnesses\<close>

definition loss_sample_row :: canonical_row where
  "loss_sample_row = \<lparr>cf_venue = ''v'', cf_fill_id = ''f'', cf_symbol = ''S'', cf_side = ''sell'', cf_qty = Fin 1,
     cf_price = Fin 1, cf_ts = '''', cf_fee_usd = Fin 0, cf_realized_pnl_usd = None, cf_client_order_id = '''',
     cf_order_id = '''', cf_raw_json = None, cf_created_at = ''''\<rparr>"

definition loss_sample :: exec_store where
  "loss_sample = empty_exec_store\<lparr>es_cutover := Some 1, es_journal := Some [loss_sample_row]\<rparr>"

lemma loss_sample_reach: "loss_reach empty_exec_store loss_sample"
proof -
  let ?s = "empty_exec_store\<lparr>es_cutover := Some 1\<rparr>"
  have 1: "activate_symbol_loss_cutover 1 empty_exec_store = Inr (1, ?s)"
    by (simp add: activate_symbol_loss_cutover_def empty_exec_store_def unapplied_keys_def)
  have 2: "?s\<lparr>es_journal := record_fill loss_sample_row (es_journal ?s)\<rparr> = loss_sample"
    by (simp add: loss_sample_def empty_exec_store_def record_fill_def journal_ensure_schema_def loss_sample_row_def)
  show ?thesis
    using loss_reach.step[OF loss_reach.step[OF loss_reach.start loss_step.cutover[OF 1]] loss_step.journal[of _ loss_sample_row]]
    unfolding 2 .
qed

lemma loss_sample_counted:
  "\<exists>s. apply_symbol_loss_fill_once 7 ''v'' ''f'' ''S'' (Fin (- 1)) 1 1000 True loss_sample = Inr (1, s) \<and>
     map loss_event_key (symbol_events ''S'' s) = [(''v'', ''f'')]"
  by (simp add: apply_symbol_loss_fill_once_def loss_sample_def loss_sample_row_def empty_exec_store_def
      journal_order_check_def select_key_Cons canonical_key_def earlier_unapplied_def rows_before_def loss_lock_def
      next_loss_count_def loss_count_of_def symbol_events_def loss_event_key_def Let_def)

theorem loss_counter_follows_journal_witness:
  "\<exists>s. prefix [(''v'', ''f'')] (counted_fills ''S'' s) \<and>
     loss_count_of ''S'' s = consecutive_losses 0 (map ev_pnl (symbol_events ''S'' s))"
proof -
  obtain s where s: "apply_symbol_loss_fill_once 7 ''v'' ''f'' ''S'' (Fin (- 1)) 1 1000 True loss_sample = Inr (1, s)"
    "map loss_event_key (symbol_events ''S'' s) = [(''v'', ''f'')]" using loss_sample_counted by (elim exE conjE) (rule that)
  have st: "journal_start empty_exec_store" by (simp add: journal_start_def empty_exec_store_def)
  have r: "loss_reach empty_exec_store s" by (rule loss_reach.step[OF loss_sample_reach loss_step.counted[OF s(1)]])
  have "loss_count_of ''S'' empty_exec_store = 0" by (simp add: loss_count_of_def empty_exec_store_def)
  with loss_counter_follows_journal[OF st r, of "''S''"] s(2) show ?thesis by (intro exI[of _ s]) simp
qed

theorem symbol_lock_policy_witness:
  "\<exists>s. loss_count_of ''S'' s = 1 \<and> get_symbol_lock 8 ''S'' s \<noteq> None"
proof -
  obtain s where s: "apply_symbol_loss_fill_once 7 ''v'' ''f'' ''S'' (Fin (- 1)) 1 1000 True loss_sample = Inr (1, s)"
    using loss_sample_counted by (elim exE conjE) (rule that)
  have "(''v'', ''f'') \<notin> set (es_legacy loss_sample)" "select_key loss_event_key (''v'', ''f'') (es_loss_events loss_sample) = None"
    by (simp_all add: loss_sample_def empty_exec_store_def)
  from symbol_lock_policy[OF s this, of 8] show ?thesis by auto
qed

definition fill_sample :: fill_args where
  "fill_sample = \<lparr>fa_intent_id = ''i'', fa_ts_ms = 1, fa_price = Fin 1, fa_qty = Fin 1, fa_fee = Fin 0, fa_fee_ccy = ''USD'',
     fa_meta = None, fa_canonical_fill = None, fa_max_recorded_qty = Some (Fin 2)\<rparr>"

theorem add_fill_within_reported_witness:
  "\<exists>s. add_fill fill_sample empty_exec_store = Inr s \<and>
     (fle (recorded_qty ''i'' s) (Fin 2) \<or> isclose rel_tol abs_tol (recorded_qty ''i'' s) (Fin 2))"
proof -
  have "mk_float 1 = Fin 1" using mk_float_of_int[of 1] by simp
  then obtain s where s: "add_fill fill_sample empty_exec_store = Inr s"
    by (simp add: add_fill_def fill_sample_def trade_id_from_meta_def canonical_payload_def quantity_guard_def
        empty_exec_store_def Let_def)
  from add_fill_within_reported[OF s, of "Fin 2"] s show ?thesis by (auto simp: fill_sample_def)
qed

end
