(* ===== verification/Fill_Sink.thy ===== *)
theory Fill_Sink
  imports Execution_Store Live_Positions Risk_Daily
begin

text \<open>
  services/journal/fill\_sink.py and \<open>_on_fill\<close> of services/execution/\_executor\_shared.py: the one place where a
  live fill becomes accounting. \<open>CanonicalFillSink.on_fill\<close> writes the journal, the position store, the
  daily risk rollup and the symbol loss counter, in this order and in separate transactions, and
  raises the flag file \<open>risk_sink_failed.flag\<close> on any failure it sees. The record \<open>account_db\<close> holds the four
  stores and the flag.

  A fill is a dictionary (the branch for other objects is not modelled; every caller passes a dictionary). The
  outside is \<open>sink_env\<close>: the clocks, two environment variables, and which of the database steps raises
  instead of running. The text of an error is kept as the error itself.
\<close>

section \<open>State\<close>

datatype sink_error = SinkExn exn | PositionNotOk position_error

record sink_flag =
  fg_venue :: string
  fg_fill_id :: string
  fg_symbol :: string
  fg_error :: sink_error

record account_db =
  ac_store :: exec_store
  ac_positions :: position_store
  ac_risk :: risk_db
  ac_flag :: "sink_flag option"

definition empty_account :: account_db where
  "empty_account = \<lparr>ac_store = empty_exec_store, ac_positions = empty_position_store, ac_risk = empty_risk_db,
     ac_flag = None\<rparr>"

text \<open>\<open>sf_risk_txn\<close>: the transaction inside \<open>apply_fill_once\<close> raises, so the method rolls back and answers \<open>False\<close>. The
  other faults are exceptions that reach the sink.\<close>

record sink_faults =
  sf_cutover :: "exn option"
  sf_journal :: "exn option"
  sf_position :: "exn option"
  sf_risk :: "exn option"
  sf_risk_txn :: bool
  sf_loss :: "exn option"

definition no_faults :: sink_faults where
  "no_faults = \<lparr>sf_cutover = None, sf_journal = None, sf_position = None, sf_risk = None, sf_risk_txn = False,
     sf_loss = None\<rparr>"

record sink_env =
  se_now_ms :: int
  se_now :: string
  se_today :: string
  se_loss_limit :: "string option"
  se_lock_minutes :: "string option"
  se_faults :: sink_faults

datatype sink_reason =
    MissingRequiredFields
  | RecordFailed exn
  | PositionStoreFailed exn
  | PositionStoreNotOk position_error
  | RiskDailyApplyFailed exn
  | SymbolLossUpdateFailed exn

datatype sink_result = SinkOk | SinkFailed sink_reason

section \<open>The sink\<close>

text \<open>The payload of the flag file, from a dictionary with the keys \<open>venue\<close>, \<open>fill_id\<close>, \<open>id\<close> and \<open>symbol\<close>.\<close>

definition write_risk_sink_failed :: "dict \<Rightarrow> sink_error \<Rightarrow> account_db \<Rightarrow> account_db" where
  "write_risk_sink_failed fill e db =
     db\<lparr>ac_flag := Some
       \<lparr>fg_venue = json_str (jor (jget ''venue'' fill) (JStr ''unknown'')),
        fg_fill_id = json_str (jor (jor (jget ''fill_id'' fill) (jget ''id'' fill)) (JStr ''unknown'')),
        fg_symbol = json_str (jor (jget ''symbol'' fill) (JStr ''unknown'')),
        fg_error = e\<rparr>\<rparr>"

text \<open>What the sink reads from the dictionary before it converts numbers.\<close>

definition sink_venue :: "dict \<Rightarrow> json" where
  "sink_venue fill = jor (jor (jget ''venue'' fill) (jget ''exchange'' fill)) (JStr ''unknown'')"

definition sink_fid :: "dict \<Rightarrow> json" where
  "sink_fid fill = jor (jor (jget ''fill_id'' fill) (jget ''id'' fill)) (JStr '''')"

definition sink_symbol :: "dict \<Rightarrow> json" where
  "sink_symbol fill = jor (jget ''symbol'' fill) (JStr '''')"

definition sink_side :: "dict \<Rightarrow> json" where
  "sink_side fill = jor (jget ''side'' fill) (JStr '''')"

definition sink_num :: "string \<Rightarrow> dict \<Rightarrow> exn + pyfloat" where
  "sink_num k fill = json_float (jor (jget k fill) (JInt 0))"

text \<open>\<open>realized_pnl_usd\<close> is used when it is present, also when it is zero.\<close>

definition sink_pnl :: "dict \<Rightarrow> exn + pyfloat option" where
  "sink_pnl fill = (case jget ''realized_pnl_usd'' fill of JNull \<Rightarrow> Inr None | v \<Rightarrow> map_sum id Some (json_float v))"

definition sink_ids :: "dict \<Rightarrow> dict" where
  "sink_ids fill = [(''venue'', sink_venue fill), (''fill_id'', sink_fid fill), (''symbol'', sink_symbol fill)]"

definition record_failed :: "dict \<Rightarrow> exn \<Rightarrow> account_db \<Rightarrow> sink_result \<times> account_db" where
  "record_failed fill e db = (SinkFailed (RecordFailed e), write_risk_sink_failed (sink_ids fill) (SinkExn e) db)"

text \<open>The journal row of a fill; the arguments are converted in the order of the call.\<close>

definition sink_row :: "sink_env \<Rightarrow> dict \<Rightarrow> pyfloat \<Rightarrow> exn + canonical_row" where
  "sink_row env fill fee =
     (case sink_num ''qty'' fill of
        Inl e \<Rightarrow> Inl e
      | Inr qty \<Rightarrow>
     (case sink_num ''price'' fill of
        Inl e \<Rightarrow> Inl e
      | Inr price \<Rightarrow>
     (case sink_pnl fill of
        Inl e \<Rightarrow> Inl e
      | Inr pnl \<Rightarrow>
        Inr \<lparr>cf_venue = json_str (sink_venue fill), cf_fill_id = json_str (sink_fid fill),
             cf_symbol = json_str (sink_symbol fill), cf_side = json_str (sink_side fill),
             cf_qty = qty, cf_price = price, cf_ts = json_str (jor (jget ''ts'' fill) (JStr '''')),
             cf_fee_usd = fee, cf_realized_pnl_usd = pnl,
             cf_client_order_id = json_str (jor (jget ''client_order_id'' fill) (JStr '''')),
             cf_order_id = json_str (jor (jget ''order_id'' fill) (JStr '''')),
             cf_raw_json = Some fill, cf_created_at = se_now env\<rparr>)))"

text \<open>The profit of the fill: the exchange's, or the one the position store computes.\<close>

definition sink_position ::
    "sink_env \<Rightarrow> dict \<Rightarrow> canonical_row \<Rightarrow> account_db \<Rightarrow> (sink_reason + pyfloat) \<times> account_db" where
  "sink_position env fill r db =
     (case cf_realized_pnl_usd r of
        Some p \<Rightarrow> (Inr p, db)
      | None \<Rightarrow>
          (case sf_position (se_faults env) of
             Some e \<Rightarrow> (Inl (PositionStoreFailed e), write_risk_sink_failed fill (SinkExn e) db)
           | None \<Rightarrow>
               (case apply_fill (se_now env) (cf_venue r) (cf_symbol r) (cf_fill_id r) (cf_side r)
                       (num_of_float (cf_qty r)) (num_of_float (cf_price r)) (ac_positions db) of
                  Inl e \<Rightarrow> (Inl (PositionStoreNotOk e), write_risk_sink_failed fill (PositionNotOk e) db)
                | Inr (res, ps) \<Rightarrow> (Inr (fr_realized_pnl_usd res), db\<lparr>ac_positions := ps\<rparr>))))"

text \<open>The daily totals. The answer of \<open>apply_fill_once\<close> is not looked at.\<close>

definition sink_risk :: "sink_env \<Rightarrow> dict \<Rightarrow> canonical_row \<Rightarrow> pyfloat \<Rightarrow> account_db \<Rightarrow> sink_reason option \<times> account_db" where
  "sink_risk env fill r pnl db =
     (case sf_risk (se_faults env) of
        Some e \<Rightarrow> (Some (RiskDailyApplyFailed e), write_risk_sink_failed fill (SinkExn e) db)
      | None \<Rightarrow>
          (None, if sf_risk_txn (se_faults env) then db
                 else db\<lparr>ac_risk := snd (apply_fill_once (se_now env) (se_today env) (Some (cf_venue r))
                           (Some (cf_fill_id r)) (Some (num_of_float pnl)) (Some (num_of_float (cf_fee_usd r)))
                           None (ac_risk db))\<rparr>))"

definition env_int :: "string option \<Rightarrow> string \<Rightarrow> exn + int" where
  "env_int raw dflt = (case int_of_text (opt_str_or raw dflt) of None \<Rightarrow> Inl (ValueError ''int'') | Some n \<Rightarrow> Inr n)"

definition sink_loss_apply :: "sink_env \<Rightarrow> canonical_row \<Rightarrow> pyfloat \<Rightarrow> exec_store \<Rightarrow> exn + int \<times> exec_store" where
  "sink_loss_apply env r pnl s =
     (case env_int (se_loss_limit env) ''3'' of
        Inl e \<Rightarrow> Inl e
      | Inr lmt \<Rightarrow>
     (case env_int (se_lock_minutes env) ''60'' of
        Inl e \<Rightarrow> Inl e
      | Inr mins \<Rightarrow>
     (case sf_loss (se_faults env) of
        Some e \<Rightarrow> Inl e
      | None \<Rightarrow> apply_symbol_loss_fill_once (se_now_ms env) (cf_venue r) (cf_fill_id r) (cf_symbol r) pnl
                  lmt (mins * 60 * 1000) True s)))"

definition sink_loss :: "sink_env \<Rightarrow> dict \<Rightarrow> canonical_row \<Rightarrow> pyfloat \<Rightarrow> account_db \<Rightarrow> sink_result \<times> account_db" where
  "sink_loss env fill r pnl db =
     (case sink_loss_apply env r pnl (ac_store db) of
        Inl e \<Rightarrow> (SinkFailed (SymbolLossUpdateFailed e), write_risk_sink_failed (sink_ids fill) (SinkExn e) db)
      | Inr (n, s) \<Rightarrow> (SinkOk, db\<lparr>ac_store := s\<rparr>))"

text \<open>The accounting after the journal, for a fill that has an id.\<close>

definition sink_account :: "sink_env \<Rightarrow> dict \<Rightarrow> canonical_row \<Rightarrow> account_db \<Rightarrow> sink_result \<times> account_db" where
  "sink_account env fill r db =
     (case sink_position env fill r db of
        (Inl why, db1) \<Rightarrow> (SinkFailed why, db1)
      | (Inr pnl, db1) \<Rightarrow>
          (case sink_risk env fill r pnl db1 of
             (Some why, db2) \<Rightarrow> (SinkFailed why, db2)
           | (None, db2) \<Rightarrow> sink_loss env fill r pnl db2))"

definition sink_on_fill :: "sink_env \<Rightarrow> dict \<Rightarrow> account_db \<Rightarrow> sink_result \<times> account_db" where
  "sink_on_fill env fill db =
     (case sink_num ''fee_usd'' fill of
        Inl e \<Rightarrow> record_failed fill e db
      | Inr fee \<Rightarrow>
        if \<not> jtruthy (sink_symbol fill) \<or> \<not> jtruthy (sink_side fill) then (SinkFailed MissingRequiredFields, db)
        else (case (case sf_cutover (se_faults env) of
                      Some e \<Rightarrow> Inl e | None \<Rightarrow> activate_symbol_loss_cutover (se_now_ms env) (ac_store db)) of
                Inl e \<Rightarrow> record_failed fill e db
              | Inr (_, s) \<Rightarrow>
             (let db1 = db\<lparr>ac_store := s\<rparr>
              in case (case sink_row env fill fee of Inl e \<Rightarrow> Inl e
                       | Inr r \<Rightarrow> (case sf_journal (se_faults env) of Some e \<Rightarrow> Inl e | None \<Rightarrow> Inr r)) of
                   Inl e \<Rightarrow> record_failed fill e db1
                 | Inr r \<Rightarrow>
                     (let db2 = db1\<lparr>ac_store := s\<lparr>es_journal := record_fill r (es_journal s)\<rparr>\<rparr>
                      in if jtruthy (sink_fid fill) then sink_account env fill r db2 else (SinkOk, db2)))))"

text \<open>\<open>_on_fill\<close>: a new sink creates the journal table (errors there are swallowed) and handles the fill.\<close>

definition executor_on_fill :: "sink_env \<Rightarrow> dict \<Rightarrow> account_db \<Rightarrow> sink_result \<times> account_db" where
  "executor_on_fill env fill db =
     sink_on_fill env fill (db\<lparr>ac_store := (ac_store db)\<lparr>es_journal := journal_ensure_schema (es_journal (ac_store db))\<rparr>\<rparr>)"

section \<open>Composite and accounting sinks\<close>

text \<open>What a sink's \<open>on_fill\<close> does: raise, answer a dictionary whose \<open>ok\<close> is \<open>False\<close>, or answer anything else.\<close>

datatype 'r sink_answer = AnsRaised | AnsNotOk | AnsOther 'r

text \<open>One turn of the loop over the sinks, on the state and \<open>(any_failed, last_out)\<close>.\<close>

fun composite_loop ::
    "('s \<Rightarrow> 'r sink_answer \<times> 's) list \<Rightarrow> bool \<Rightarrow> 'r option \<Rightarrow> 's \<Rightarrow> ('r option sink_answer) \<times> 's" where
  "composite_loop [] failed out st = (if failed then AnsNotOk else AnsOther out, st)"
| "composite_loop (f # fs) failed out st =
     (case f st of
        (AnsOther r, st') \<Rightarrow> composite_loop fs failed (Some r) st'
      | (_, st') \<Rightarrow> composite_loop fs True out st')"

definition composite_on_fill :: "('s \<Rightarrow> 'r sink_answer \<times> 's) list \<Rightarrow> 's \<Rightarrow> ('r option sink_answer) \<times> 's" where
  "composite_on_fill sinks st = composite_loop sinks False None st"

section \<open>What an accepted fill has gone through\<close>

definition sink_key :: "dict \<Rightarrow> string \<times> string" where
  "sink_key fill = (json_str (sink_venue fill), json_str (sink_fid fill))"

lemma sink_row_key:
  assumes "sink_row env fill fee = Inr r"
  shows "canonical_key r = sink_key fill" "cf_venue r = json_str (sink_venue fill)"
    "cf_fill_id r = json_str (sink_fid fill)" "cf_symbol r = json_str (sink_symbol fill)"
    "sink_pnl fill = Inr (cf_realized_pnl_usd r)"
  using assms by (auto simp: sink_row_def canonical_key_def sink_key_def split: sum.splits)

text \<open>The state after the journal entry.\<close>

definition journal_entry :: "exec_store \<Rightarrow> canonical_row \<Rightarrow> account_db \<Rightarrow> account_db" where
  "journal_entry s r db = db\<lparr>ac_store := s\<lparr>es_journal := record_fill r (es_journal s)\<rparr>\<rparr>"

lemma sink_on_fill_cases:
  obtains (failed) e db1 where "sink_on_fill env fill db = record_failed fill e db1"
      "db1 = db \<or> (\<exists>t s. activate_symbol_loss_cutover (se_now_ms env) (ac_store db) = Inr (t, s) \<and> db1 = db\<lparr>ac_store := s\<rparr>)"
  | (missing) "sink_on_fill env fill db = (SinkFailed MissingRequiredFields, db)"
      "\<not> jtruthy (sink_symbol fill) \<or> \<not> jtruthy (sink_side fill)"
  | (entered) t s fee r where "activate_symbol_loss_cutover (se_now_ms env) (ac_store db) = Inr (t, s)"
      "sink_num ''fee_usd'' fill = Inr fee" "sink_row env fill fee = Inr r"
      "sink_on_fill env fill db =
         (if jtruthy (sink_fid fill) then sink_account env fill r (journal_entry s r db)
          else (SinkOk, journal_entry s r db))"
      "jtruthy (sink_symbol fill)" "jtruthy (sink_side fill)"
proof (cases "sink_num ''fee_usd'' fill")
  case (Inl e)
  then show ?thesis by (intro failed) (auto simp: sink_on_fill_def)
next
  case fee: (Inr fee)
  show ?thesis
  proof (cases "\<not> jtruthy (sink_symbol fill) \<or> \<not> jtruthy (sink_side fill)")
    case True
    then show ?thesis by (intro missing) (auto simp: sink_on_fill_def fee)
  next
    case ids: False
    let ?act = "case sf_cutover (se_faults env) of
        Some e \<Rightarrow> Inl e | None \<Rightarrow> activate_symbol_loss_cutover (se_now_ms env) (ac_store db)"
    show ?thesis
    proof (cases ?act)
      case (Inl e)
      then show ?thesis using ids by (intro failed) (auto simp: sink_on_fill_def fee)
    next
      case (Inr ts)
      then obtain t s where ts: "?act = Inr (t, s)" by (cases ts) auto
      have act: "activate_symbol_loss_cutover (se_now_ms env) (ac_store db) = Inr (t, s)"
        using ts by (auto split: option.splits)
      let ?row = "case sink_row env fill fee of Inl e \<Rightarrow> Inl e
          | Inr r \<Rightarrow> (case sf_journal (se_faults env) of Some e \<Rightarrow> Inl e | None \<Rightarrow> Inr r)"
      show ?thesis
      proof (cases ?row)
        case (Inl e)
        then show ?thesis using ids ts act
          by (intro failed[of e "db\<lparr>ac_store := s\<rparr>"]) (auto simp: sink_on_fill_def fee Let_def)
      next
        case (Inr r)
        then have r: "sink_row env fill fee = Inr r" by (auto split: sum.splits option.splits)
        show ?thesis using ids ts Inr
          by (intro entered[OF act fee r]) (auto simp: sink_on_fill_def fee Let_def journal_entry_def)
      qed
    qed
  qed
qed

lemma sink_account_ok:
  assumes "sink_account env fill r db = (SinkOk, db')"
  obtains (ok) pnl ps risk lmt mins n s where
      "sink_position env fill r db = (Inr pnl, db\<lparr>ac_positions := ps\<rparr>)"
      "risk = ac_risk db \<or> risk = snd (apply_fill_once (se_now env) (se_today env) (Some (cf_venue r))
         (Some (cf_fill_id r)) (Some (num_of_float pnl)) (Some (num_of_float (cf_fee_usd r))) None (ac_risk db))"
      "sf_risk_txn (se_faults env) = (risk = ac_risk db \<and> sf_risk_txn (se_faults env))"
      "apply_symbol_loss_fill_once (se_now_ms env) (cf_venue r) (cf_fill_id r) (cf_symbol r) pnl
         lmt (mins * 60 * 1000) True (ac_store db) = Inr (n, s)"
      "db' = db\<lparr>ac_store := s, ac_positions := ps, ac_risk := risk\<rparr>"
proof -
  obtain pnl db1 where p: "sink_position env fill r db = (Inr pnl, db1)"
    using assms unfolding sink_account_def by (auto split: prod.splits sum.splits)
  obtain ps where ps: "db1 = db\<lparr>ac_positions := ps\<rparr>"
  proof -
    have "\<exists>ps. db1 = db\<lparr>ac_positions := ps\<rparr>"
      using p unfolding sink_position_def
      by (auto split: option.splits sum.splits prod.splits intro: exI[of _ "ac_positions db"])
    then show ?thesis using that by blast
  qed
  obtain db2 where k: "sink_risk env fill r pnl db1 = (None, db2)"
    using assms p unfolding sink_account_def by (auto split: prod.splits option.splits)
  let ?risk = "if sf_risk_txn (se_faults env) then ac_risk db
     else snd (apply_fill_once (se_now env) (se_today env) (Some (cf_venue r))
         (Some (cf_fill_id r)) (Some (num_of_float pnl)) (Some (num_of_float (cf_fee_usd r))) None (ac_risk db))"
  have db2: "db2 = db\<lparr>ac_positions := ps, ac_risk := ?risk\<rparr>"
    using k ps unfolding sink_risk_def by (auto split: option.splits)
  obtain n s where l: "sink_loss_apply env r pnl (ac_store db) = Inr (n, s)" "db' = db2\<lparr>ac_store := s\<rparr>"
    using assms p k db2 unfolding sink_account_def sink_loss_def by (auto split: sum.splits)
  obtain lmt mins where ap: "apply_symbol_loss_fill_once (se_now_ms env) (cf_venue r) (cf_fill_id r) (cf_symbol r) pnl
         lmt (mins * 60 * 1000) True (ac_store db) = Inr (n, s)"
    using l(1) unfolding sink_loss_apply_def by (auto split: sum.splits option.splits)
  show ?thesis
    by (rule ok[OF p[unfolded ps], where risk = ?risk, OF _ _ ap]) (auto simp: l(2) db2)
qed

lemma apply_loss_accounted:
  assumes "loss_inv base s" "apply_symbol_loss_fill_once now v f y p lmt dur True s = Inr (n, s')"
  shows "journalled (v, f) (es_journal s') \<and>
    ((v, f) \<in> set (es_legacy s') \<or> (v, f) \<in> loss_event_key ` set (es_loss_events s'))"
  using assms(2)
proof (cases rule: apply_loss_cases)
  case legacy
  then show ?thesis using assms(1) by (simp add: loss_inv_def)
next
  case (replay e)
  have e: "e \<in> set (es_loss_events s)" "loss_event_key e = (v, f)" using select_key_Some_mem[OF replay(1)] by simp_all
  then obtain r where r: "r \<in> set (journal_rows (es_journal s))" "canonical_key r = (v, f)"
    using assms(1) unfolding loss_inv_def by metis
  have "journalled (v, f) (es_journal s)" unfolding journalled_def using r by (metis imageI)
  moreover have "(v, f) \<in> loss_event_key ` set (es_loss_events s)" using e by (metis imageI)
  ultimately show ?thesis by (simp add: replay(3))
next
  case (counted r)
  then show ?thesis using journalled_key[OF counted(3)] by (simp add: loss_event_key_def)
qed

text \<open>Every sink call moves the loss tables by the steps of the store.\<close>

lemma apply_loss_step_reach:
  "apply_symbol_loss_fill_once now v f y p lmt dur True s = Inr (n, s') \<Longrightarrow> loss_reach s0 s \<Longrightarrow> loss_reach s0 s'"
  by (blast intro: loss_reach.step loss_step.counted)

lemma cutover_reach:
  "activate_symbol_loss_cutover now s = Inr (t, s') \<Longrightarrow> loss_reach s0 s \<Longrightarrow> loss_reach s0 s'"
  by (blast intro: loss_reach.step loss_step.cutover)

lemma apply_fill_recorded:
  assumes "apply_fill now v y i side q p s = Inr (res, s')"
  shows "(v, i) \<in> fill_key ` set (ps_fills s')"
  using assms
proof (cases rule: apply_fill_cases)
  case (duplicate f)
  then show ?thesis using select_key_Some_mem[OF duplicate(1)] by (metis imageI)
qed (simp add: fill_key_def)

lemma journal_entry_reach:
  assumes "loss_reach s0 (ac_store db)" "activate_symbol_loss_cutover now (ac_store db) = Inr (t, s)"
  shows "loss_reach s0 (ac_store (journal_entry s r db))"
  using loss_reach.step[OF loss_reach.step[OF assms(1) loss_step.cutover[OF assms(2)]] loss_step.journal[of s r]]
  by (simp add: journal_entry_def)

lemma flag_store [simp]:
  "ac_store (write_risk_sink_failed d e db) = ac_store db"
  "ac_positions (write_risk_sink_failed d e db) = ac_positions db"
  "ac_risk (write_risk_sink_failed d e db) = ac_risk db"
  "ac_flag (write_risk_sink_failed d e db) \<noteq> None"
  by (simp_all add: write_risk_sink_failed_def)

lemma sink_position_store: "ac_store (snd (sink_position env fill r db)) = ac_store db"
  by (auto simp: sink_position_def split: option.splits sum.splits)

lemma sink_risk_store: "ac_store (snd (sink_risk env fill r p db)) = ac_store db"
  by (auto simp: sink_risk_def split: option.splits)

lemma sink_loss_reach:
  assumes "loss_reach s0 (ac_store db)"
  shows "loss_reach s0 (ac_store (snd (sink_loss env fill r p db)))"
proof (cases "sink_loss_apply env r p (ac_store db)")
  case (Inr ns)
  obtain n s where ns: "ns = (n, s)" by (cases ns)
  have "loss_reach s0 s"
    using Inr ns assms unfolding sink_loss_apply_def
    by (auto split: sum.splits option.splits intro: apply_loss_step_reach)
  then show ?thesis using Inr ns by (simp add: sink_loss_def)
qed (use assms in \<open>simp add: sink_loss_def\<close>)

lemma sink_account_reach:
  assumes "loss_reach s0 (ac_store db)"
  shows "loss_reach s0 (ac_store (snd (sink_account env fill r db)))"
proof -
  obtain a db1 where p: "sink_position env fill r db = (a, db1)" by fastforce
  have 1: "ac_store db1 = ac_store db" using sink_position_store[of env fill r db] p by simp
  show ?thesis
  proof (cases a)
    case (Inr pnl)
    obtain b db2 where k: "sink_risk env fill r pnl db1 = (b, db2)" by fastforce
    have "ac_store db2 = ac_store db" using sink_risk_store[of env fill r pnl db1] k 1 by simp
    then show ?thesis using assms sink_loss_reach[of s0 db2 env fill r pnl]
      by (cases b) (simp_all add: sink_account_def p k Inr)
  qed (use assms in \<open>simp add: sink_account_def p 1\<close>)
qed

lemma sink_reach:
  assumes "loss_reach s0 (ac_store db)"
  shows "loss_reach s0 (ac_store (snd (sink_on_fill env fill db)))"
proof (cases rule: sink_on_fill_cases[of env fill db])
  case (failed e db1)
  from failed(2) have "loss_reach s0 (ac_store db1)"
    using assms by (auto intro: cutover_reach)
  then show ?thesis by (simp add: failed(1) record_failed_def)
next
  case missing
  then show ?thesis using assms by simp
next
  case (entered t s fee r)
  from journal_entry_reach[OF assms entered(1), of r] show ?thesis
    by (simp add: entered(4) sink_account_reach)
qed

section \<open>Accounting and failure\<close>

lemma sink_accounted:
  assumes start: "journal_start s0" "loss_reach s0 (ac_store db)"
    and ok: "sink_on_fill env fill db = (SinkOk, db')" and id: "jtruthy (sink_fid fill)"
  shows "journalled (sink_key fill) (es_journal (ac_store db')) \<and>
    (sink_key fill \<in> set (es_legacy (ac_store db')) \<or>
     sink_key fill \<in> loss_event_key ` set (es_loss_events (ac_store db'))) \<and>
    (sink_pnl fill = Inr None \<longrightarrow> sink_key fill \<in> fill_key ` set (ps_fills (ac_positions db'))) \<and>
    ac_flag db' = ac_flag db"
proof (cases rule: sink_on_fill_cases[of env fill db])
  case (entered t s fee r)
  let ?db = "journal_entry s r db"
  have reach: "loss_reach s0 (ac_store ?db)" using journal_entry_reach[OF start(2) entered(1)] .
  have acc: "sink_account env fill r ?db = (SinkOk, db')" using ok id entered(4) by simp
  note k = sink_row_key[OF entered(3)]
  have key: "sink_key fill = (cf_venue r, cf_fill_id r)" using k(1) by (simp add: canonical_key_def)
  from acc show ?thesis
  proof (cases rule: sink_account_ok)
    case (ok pnl ps risk lmt mins n s')
    note accd = apply_loss_accounted[OF loss_inv_reach[OF reach start(1)] ok(4)]
    have "sink_key fill \<in> fill_key ` set (ps_fills ps)" if "sink_pnl fill = Inr None"
    proof -
      have n: "cf_realized_pnl_usd r = None" using that k(5) by simp
      obtain res where a: "apply_fill (se_now env) (cf_venue r) (cf_symbol r) (cf_fill_id r) (cf_side r)
          (num_of_float (cf_qty r)) (num_of_float (cf_price r)) (ac_positions ?db) = Inr (res, ps)"
        using ok(1) n unfolding sink_position_def by (auto split: option.splits sum.splits prod.splits dest: arg_cong[of _ _ ac_positions])
      from apply_fill_recorded[OF a] show ?thesis by (simp add: key)
    qed
    then show ?thesis using accd by (simp add: ok(5) key journal_entry_def)
  qed
qed (use ok in \<open>simp_all add: record_failed_def\<close>)

lemma sink_account_failed:
  assumes "sink_account env fill r db = (SinkFailed why, db')"
  shows "ac_flag db' \<noteq> None \<and> why \<noteq> MissingRequiredFields \<and> ac_store db' = ac_store db"
proof -
  obtain a db1 where p: "sink_position env fill r db = (a, db1)" by fastforce
  have 1: "ac_store db1 = ac_store db" using sink_position_store[of env fill r db] p by simp
  show ?thesis
  proof (cases a)
    case (Inl w)
    then have "why = w" "db' = db1" using assms p by (simp_all add: sink_account_def)
    moreover have "ac_flag db1 \<noteq> None \<and> w \<noteq> MissingRequiredFields"
      using p Inl unfolding sink_position_def
      by (auto simp: write_risk_sink_failed_def split: option.splits sum.splits prod.splits)
    ultimately show ?thesis using 1 by simp
  next
    case (Inr pnl)
    obtain b db2 where k: "sink_risk env fill r pnl db1 = (b, db2)" by fastforce
    have 2: "ac_store db2 = ac_store db" using sink_risk_store[of env fill r pnl db1] k 1 by simp
    show ?thesis
    proof (cases b)
      case (Some w)
      then have "why = w" "db' = db2" using assms p k Inr by (simp_all add: sink_account_def)
      moreover have "ac_flag db2 \<noteq> None \<and> w \<noteq> MissingRequiredFields"
        using k Some unfolding sink_risk_def by (auto simp: write_risk_sink_failed_def split: option.splits)
      ultimately show ?thesis using 2 by simp
    next
      case None
      then show ?thesis using assms p k Inr 2 unfolding sink_account_def sink_loss_def
        by (auto simp: write_risk_sink_failed_def split: sum.splits)
    qed
  qed
qed

lemma cutover_counts: "activate_symbol_loss_cutover now s = Inr (t, s') \<Longrightarrow>
    es_loss_events s' = es_loss_events s \<and> es_locks s' = es_locks s \<and> es_journal s' = es_journal s"
  by (auto simp: activate_symbol_loss_cutover_def split: option.splits if_splits)

lemma sink_failed:
  assumes bad: "sink_on_fill env fill db = (SinkFailed why, db')"
  shows "(if why = MissingRequiredFields then db' = db else ac_flag db' \<noteq> None) \<and>
    es_loss_events (ac_store db') = es_loss_events (ac_store db) \<and> es_locks (ac_store db') = es_locks (ac_store db)"
proof (cases rule: sink_on_fill_cases[of env fill db])
  case (failed e db1)
  then show ?thesis using bad by (auto simp: record_failed_def dest: cutover_counts)
next
  case missing
  then show ?thesis using bad by simp
next
  case (entered t s fee r)
  then have acc: "sink_account env fill r (journal_entry s r db) = (SinkFailed why, db')"
    using bad by (simp split: if_splits)
  show ?thesis using sink_account_failed[OF acc] cutover_counts[OF entered(1)] by (simp add: journal_entry_def)
qed

section \<open>Properties\<close>

text \<open>C3. A fill the sink accepts is accounted for: when \<open>on_fill\<close> answers ok for a fill with an id, the fill is in
  the canonical journal, it has been counted by the symbol's loss counter (or was recorded before
  the cutover), and, when the exchange gave no profit, the position store holds it; the failure flag is
  untouched. The hypothesis is met by every database reached through the sink.\<close>

theorem sink_ok_accounted:
  assumes "journal_start s0" "loss_reach s0 (ac_store db)"
    and "sink_on_fill env fill db = (SinkOk, db')" and "jtruthy (sink_fid fill)"
  shows "journalled (sink_key fill) (es_journal (ac_store db')) \<and>
    (sink_key fill \<in> set (es_legacy (ac_store db')) \<or>
     sink_key fill \<in> loss_event_key ` set (es_loss_events (ac_store db'))) \<and>
    (sink_pnl fill = Inr None \<longrightarrow> sink_key fill \<in> fill_key ` set (ps_fills (ac_positions db'))) \<and>
    ac_flag db' = ac_flag db"
  using assms by (rule sink_accounted)

text \<open>C31. The sink fails closed: when \<open>on_fill\<close> answers not ok, the flag that blocks new orders is set, unless the
  fill lacks its symbol or side, in which case nothing was done; and in every case the fill has not been
  counted by the loss counter, so the journal order keeps later fills of the symbol waiting for
  it.\<close>

theorem sink_fails_closed:
  assumes "sink_on_fill env fill db = (SinkFailed why, db')"
  shows "(if why = MissingRequiredFields then db' = db else ac_flag db' \<noteq> None) \<and>
    es_loss_events (ac_store db') = es_loss_events (ac_store db) \<and> es_locks (ac_store db') = es_locks (ac_store db)"
  using assms by (rule sink_failed)

text \<open>A rolled-back risk transaction is silent: \<open>apply_fill_once\<close> answers \<open>False\<close> when its transaction fails (a
  locked database, for instance), and the sink does not look at the answer. Whatever fill the sink accepts it
  accepts as well when that transaction fails, with the daily totals untouched and no flag.\<close>

theorem risk_rollback_is_silent:
  assumes "sink_on_fill env fill db = (SinkOk, db')"
  shows "sink_on_fill (env\<lparr>se_faults := (se_faults env)\<lparr>sf_risk_txn := True\<rparr>\<rparr>) fill db =
    (SinkOk, db'\<lparr>ac_risk := ac_risk db\<rparr>)"
proof -
  let ?env = "env\<lparr>se_faults := (se_faults env)\<lparr>sf_risk_txn := True\<rparr>\<rparr>"
  have row: "sink_row ?env f x = sink_row env f x" for f x by (simp add: sink_row_def split: sum.split)
  have pos: "sink_position ?env f r d = sink_position env f r d" for f r d
    by (simp add: sink_position_def split: option.split)
  have los: "sink_loss_apply ?env r p s = sink_loss_apply env r p s" for r p s
    by (simp add: sink_loss_apply_def split: sum.split option.split)
  have acc: "sink_account ?env fill r d = (SinkOk, d'\<lparr>ac_risk := ac_risk d\<rparr>)"
    if a: "sink_account env fill r d = (SinkOk, d')" for r d d'
  proof -
    obtain p d1 where p: "sink_position env fill r d = (Inr p, d1)"
      using a unfolding sink_account_def by (auto split: prod.splits sum.splits)
    have k: "ac_risk d1 = ac_risk d" using p unfolding sink_position_def
      by (auto split: option.splits sum.splits prod.splits)
    show ?thesis using a p k
      by (auto simp: sink_account_def pos sink_risk_def sink_loss_def los split: option.splits sum.splits if_splits)
  qed
  have ent: "ac_risk (journal_entry s r db) = ac_risk db" for s r by (simp add: journal_entry_def)
  show ?thesis
    using assms acc ent
    by (auto simp: sink_on_fill_def row Let_def record_failed_def journal_entry_def
        split: sum.splits if_splits option.splits prod.splits)
qed

lemma apply_fill_replay:
  assumes "apply_fill now v y i side q p s = Inr (res, s')"
  shows "\<exists>res'. apply_fill now' v y i side q p s' = Inr (res', s') \<and> fr_realized_pnl_usd res' = fr_realized_pnl_usd res"
proof -
  obtain f where f: "select_key fill_key (v, i) (ps_fills s') = Some f" "pf_realized_pnl f = fr_realized_pnl_usd res"
    using assms
  proof (cases rule: apply_fill_cases)
    case (duplicate f)
    then show ?thesis by (intro that[of f]) simp_all
  next
    case (applied qf pf q' a' r)
    then show ?thesis by (intro that) (auto simp: select_key_append select_key_Cons fill_key_def)
  qed
  show ?thesis using assms f unfolding apply_fill_def Let_def
    by (auto split: sum.splits if_splits option.splits prod.splits)
qed

text \<open>Once a fill is counted, the counter's answer to the same fill is a replay.\<close>

lemma apply_loss_replay:
  assumes "apply_symbol_loss_fill_once now v f y p lmt dur True s = Inr (n, s')" "1 \<le> lmt'" "0 \<le> dur'"
  shows "\<exists>m. apply_symbol_loss_fill_once now' v f y p lmt' dur' True s' = Inr (m, s')"
proof -
  have g: "v \<noteq> ''''" "f \<noteq> ''''" "y \<noteq> ''''" "isfinite p" "es_cutover s \<noteq> None"
    using assms(1) unfolding apply_symbol_loss_fill_once_def by (auto split: if_splits)
  from assms(1) show ?thesis
  proof (cases rule: apply_loss_cases)
    case legacy
    then show ?thesis using g assms(2,3) by (auto simp: apply_symbol_loss_fill_once_def)
  next
    case (replay e)
    have "ev_pnl e = p" if "(v, f) \<notin> set (es_legacy s)"
      using assms(1) g that replay unfolding apply_symbol_loss_fill_once_def by (auto split: if_splits)
    then show ?thesis using g assms(2,3) replay by (auto simp: apply_symbol_loss_fill_once_def)
  next
    case (counted r)
    then show ?thesis using g assms(2,3)
      by (auto simp: apply_symbol_loss_fill_once_def select_key_append select_key_Cons loss_event_key_def)
  qed
qed

lemma record_fill_again:
  assumes "journalled (canonical_key r) t" "t \<noteq> None"
  shows "record_fill r t = t"
  using assms by (auto simp: record_fill_def journal_ensure_schema_def journalled_def journal_rows_def Let_def tbl image_iff)

lemma apply_loss_frame:
  assumes "apply_symbol_loss_fill_once now v f y p lmt dur True s = Inr (n, s')"
  shows "es_cutover s' = es_cutover s \<and> es_legacy s' = es_legacy s \<and> es_journal s' = es_journal s"
  using assms by (cases rule: apply_loss_cases) auto

lemma cutover_set: "activate_symbol_loss_cutover now s = Inr (t, s') \<Longrightarrow> es_cutover s' \<noteq> None"
  by (auto simp: activate_symbol_loss_cutover_def split: option.splits if_splits)

lemma cutover_again: "es_cutover s \<noteq> None \<Longrightarrow> \<exists>t. activate_symbol_loss_cutover now s = Inr (t, s)"
  by (auto simp: activate_symbol_loss_cutover_def)

lemma sink_row_env:
  "sink_row env fill fee = Inr r \<Longrightarrow> sink_row env2 fill fee = Inr (r\<lparr>cf_created_at := se_now env2\<rparr>)"
  by (auto simp: sink_row_def split: sum.splits)

text \<open>The accounting of a fill that has been accounted: nothing but the daily totals can change, and those only
  when they had missed the fill.\<close>

lemma sink_account_replay:
  assumes acc: "sink_account env fill r db = (SinkOk, db')"
    and quiet: "se_faults env2 = no_faults"
    and policy: "env_int (se_loss_limit env2) ''3'' = Inr lmt" "1 \<le> lmt"
      "env_int (se_lock_minutes env2) ''60'' = Inr mins" "0 \<le> mins"
    and r2: "r2 = r\<lparr>cf_created_at := se_now env2\<rparr>"
  shows "\<exists>risk. sink_account env2 fill r2 db' = (SinkOk, db'\<lparr>ac_risk := risk\<rparr>) \<and>
    (fill_recorded (lower (strip (cf_venue r)), strip (cf_fill_id r)) (ac_risk db') \<longrightarrow> risk = ac_risk db')"
  using acc
proof (cases rule: sink_account_ok)
  case (ok pnl ps risk l m n s)
  have nf: "sf_position (se_faults env2) = None" "sf_risk (se_faults env2) = None" "sf_loss (se_faults env2) = None"
    "\<not> sf_risk_txn (se_faults env2)" using quiet by (simp_all add: no_faults_def)
  have db': "ac_positions db' = ps" "ac_store db' = s" by (simp_all add: ok(5))
  have pos: "sink_position env2 fill r2 db' = (Inr pnl, db')"
  proof (cases "cf_realized_pnl_usd r")
    case (Some p)
    then show ?thesis using ok(1) by (auto simp: sink_position_def r2)
  next
    case None
    obtain res where a: "apply_fill (se_now env) (cf_venue r) (cf_symbol r) (cf_fill_id r) (cf_side r)
          (num_of_float (cf_qty r)) (num_of_float (cf_price r)) (ac_positions db) = Inr (res, ps)"
        "fr_realized_pnl_usd res = pnl"
      using ok(1) None unfolding sink_position_def
      by (auto split: option.splits sum.splits prod.splits dest: arg_cong[of _ _ ac_positions])
    obtain res' where "apply_fill (se_now env2) (cf_venue r) (cf_symbol r) (cf_fill_id r) (cf_side r)
          (num_of_float (cf_qty r)) (num_of_float (cf_price r)) ps = Inr (res', ps)" "fr_realized_pnl_usd res' = pnl"
      using apply_fill_replay[OF a(1)] a(2) by blast
    then show ?thesis using None by (simp add: sink_position_def r2 nf db' ok(5))
  qed
  let ?ap = "apply_fill_once (se_now env2) (se_today env2) (Some (cf_venue r)) (Some (cf_fill_id r))
     (Some (num_of_float pnl)) (Some (num_of_float (cf_fee_usd r))) None (ac_risk db')"
  have rsk: "sink_risk env2 fill r2 pnl db' = (None, db'\<lparr>ac_risk := snd ?ap\<rparr>)"
    by (simp add: sink_risk_def nf r2)
  obtain k where k: "apply_symbol_loss_fill_once (se_now_ms env2) (cf_venue r) (cf_fill_id r) (cf_symbol r) pnl
      lmt (mins * 60 * 1000) True s = Inr (k, s)"
    using apply_loss_replay[OF ok(4) policy(2), of "mins * 60 * 1000"] policy(4) by auto
  have los: "sink_loss env2 fill r2 pnl (db'\<lparr>ac_risk := snd ?ap\<rparr>) = (SinkOk, db'\<lparr>ac_risk := snd ?ap\<rparr>)"
    using k by (simp add: sink_loss_def sink_loss_apply_def policy(1,3) nf r2 db' ok(5))
  have "snd ?ap = ac_risk db'" if "fill_recorded (lower (strip (cf_venue r)), strip (cf_fill_id r)) (ac_risk db')"
    using that by (auto simp: apply_fill_once_def opt_str_or_def str_or_def fill_recorded_def Let_def)
  then show ?thesis using pos rsk los by (intro exI[of _ "snd ?ap"]) (simp add: sink_account_def)
qed

text \<open>Reports of a fill may be repeated: a fill with an id that the sink has accepted is accepted again (when no
  database step fails and the loss policy in the environment is sensible), and the second report changes
  neither the journal, the positions, the loss counters nor the flag; it changes the daily totals only
  if they had missed the fill.\<close>

theorem sink_replay_harmless:
  assumes start: "journal_start s0" "loss_reach s0 (ac_store db)"
    and ok: "sink_on_fill env fill db = (SinkOk, db')" and id: "jtruthy (sink_fid fill)"
    and quiet: "se_faults env2 = no_faults"
    and policy: "env_int (se_loss_limit env2) ''3'' = Inr lmt" "1 \<le> lmt"
      "env_int (se_lock_minutes env2) ''60'' = Inr mins" "0 \<le> mins"
  shows "\<exists>risk. sink_on_fill env2 fill db' = (SinkOk, db'\<lparr>ac_risk := risk\<rparr>) \<and>
    (fill_recorded (lower (strip (fst (sink_key fill))), strip (snd (sink_key fill))) (ac_risk db') \<longrightarrow>
     risk = ac_risk db')"
proof (cases rule: sink_on_fill_cases[of env fill db])
  case (entered t s fee r)
  let ?db = "journal_entry s r db" and ?r2 = "r\<lparr>cf_created_at := se_now env2\<rparr>"
  note k = sink_row_key[OF entered(3)]
  have acc: "sink_account env fill r ?db = (SinkOk, db')" using ok id entered(4) by simp
  from sink_account_replay[OF acc quiet policy, of ?r2] obtain risk where
    again: "sink_account env2 fill ?r2 db' = (SinkOk, db'\<lparr>ac_risk := risk\<rparr>)"
    and risk: "fill_recorded (lower (strip (cf_venue r)), strip (cf_fill_id r)) (ac_risk db') \<longrightarrow> risk = ac_risk db'"
    by blast
  have same: "journal_entry (ac_store db') ?r2 db' = db' \<and> es_cutover (ac_store db') \<noteq> None"
  proof -
    from acc obtain p l m n s' where ap: "apply_symbol_loss_fill_once (se_now_ms env) (cf_venue r) (cf_fill_id r)
        (cf_symbol r) p l (m * 60 * 1000) True (ac_store ?db) = Inr (n, s')" and st: "ac_store db' = s'"
      by (cases rule: sink_account_ok) (simp add: that)
    have fr: "es_journal s' = record_fill r (es_journal s)" "es_cutover s' \<noteq> None"
      using apply_loss_frame[OF ap] cutover_set[OF entered(1)] by (simp_all add: journal_entry_def)
    have "journalled (canonical_key ?r2) (es_journal s')"
      using sink_accounted[OF start ok id] k(1) st by (simp add: canonical_key_def)
    moreover have "es_journal s' \<noteq> None" using fr(1) by (simp add: record_fill_def Let_def)
    ultimately show ?thesis using record_fill_again fr(2) st by (simp add: journal_entry_def)
  qed
  obtain u where u: "activate_symbol_loss_cutover (se_now_ms env2) (ac_store db') = Inr (u, ac_store db')"
    using cutover_again same by blast
  have "sink_on_fill env2 fill db' = sink_account env2 fill ?r2 (journal_entry (ac_store db') ?r2 db')"
    using entered(2,5,6) u id quiet sink_row_env[OF entered(3), of env2]
    by (simp add: sink_on_fill_def no_faults_def Let_def journal_entry_def)
  then show ?thesis using again risk same k by (auto simp: sink_key_def)
qed (use ok in \<open>simp_all add: record_failed_def\<close>)

text \<open>No counted fill has an empty id.\<close>

lemma events_have_ids:
  assumes "loss_reach s0 s" "es_loss_events s0 = []"
  shows "\<forall>e \<in> set (es_loss_events s). ev_fill_id e \<noteq> ''''"
  using assms
proof (induction rule: loss_reach.induct)
  case (step s t u)
  from step.hyps(2) step.IH[OF step.prems] show ?case
  proof (cases rule: loss_step.cases)
    case (counted now v f y p lmt dur n)
    have "f \<noteq> ''''" using counted unfolding apply_symbol_loss_fill_once_def by (auto split: if_splits)
    then show ?thesis using step.IH[OF step.prems] counted by (cases rule: apply_loss_cases[OF counted]) auto
  qed (auto simp: loss_view_def dest: cutover_counts)
qed simp

text \<open>A fill without an id blocks its symbol: the sink accepts such a fill and puts it into the journal, but
  never counts it, and the journal order then refuses every fill of that symbol that arrives later, with
  the failure flag set.\<close>

theorem idless_fill_blocks_symbol:
  assumes start: "journal_start s0" "loss_reach s0 (ac_store db)"
    and cut: "es_cutover (ac_store db) \<noteq> None"
    and r0: "r0 \<in> set (journal_rows (es_journal (ac_store db)))" "cf_fill_id r0 = ''''"
      "canonical_key r0 \<notin> set (es_legacy (ac_store db))"
    and fill: "jtruthy (sink_symbol fill)" "jtruthy (sink_side fill)" "json_str (sink_symbol fill) = cf_symbol r0"
      "jtruthy (sink_fid fill)" "\<not> journalled (sink_key fill) (es_journal (ac_store db))"
  shows "\<exists>why db'. sink_on_fill env fill db = (SinkFailed why, db') \<and> ac_flag db' \<noteq> None"
proof -
  obtain a db' where a: "sink_on_fill env fill db = (a, db')" by fastforce
  have "a \<noteq> SinkOk"
  proof
    assume ok: "a = SinkOk"
    show False
    proof (cases rule: sink_on_fill_cases[of env fill db])
      case (entered t s fee r)
      have s: "s = ac_store db" using entered(1) cut by (auto simp: activate_symbol_loss_cutover_def)
      note k = sink_row_key[OF entered(3)]
      have acc: "sink_account env fill r (journal_entry s r db) = (SinkOk, db')" using ok a fill(4) entered(4) by simp
      obtain p l m n s' where ap: "apply_symbol_loss_fill_once (se_now_ms env) (cf_venue r) (cf_fill_id r)
          (cf_symbol r) p l (m * 60 * 1000) True (ac_store (journal_entry s r db)) = Inr (n, s')"
        using acc by (cases rule: sink_account_ok) (simp add: that)
      let ?s = "ac_store (journal_entry s r db)"
      have key: "(cf_venue r, cf_fill_id r) = sink_key fill" using k by (simp add: sink_key_def)
      have inv: "loss_inv (\<lambda>y. loss_count_of y s0) (ac_store db)" by (rule loss_inv_reach[OF start(2,1)])
      have nl: "sink_key fill \<notin> set (es_legacy ?s)" using inv fill(5) s by (auto simp: loss_inv_def journal_entry_def)
      have ev: "\<exists>x \<in> set (journal_rows (es_journal (ac_store db))). canonical_key x = loss_event_key e"
        if "e \<in> set (es_loss_events (ac_store db))" for e
        using inv that unfolding loss_inv_def by blast
      have ne: "select_key loss_event_key (sink_key fill) (es_loss_events ?s) = None"
        using ev fill(5) s by (force simp: tbl journal_entry_def journalled_def)
      from ap show False
      proof (cases rule: apply_loss_cases)
        case (counted x)
        obtain ys where ys: "journal_rows (es_journal ?s) = journal_rows (es_journal (ac_store db)) @ ys"
          using record_fill_prefix[of r "es_journal s"] s by (auto simp: journal_entry_def)
        have "\<forall>z \<in> set (journal_rows (es_journal (ac_store db))). canonical_key z \<noteq> sink_key fill"
          using fill(5) unfolding journalled_def by (metis imageI)
        then have "r0 \<in> set (rows_before (sink_key fill) (journal_rows (es_journal ?s)))"
          unfolding rows_before_def ys using r0(1) by (subst takeWhile_append2) auto
        moreover have "canonical_key r0 \<notin> loss_event_key ` set (es_loss_events ?s)"
        proof
          assume "canonical_key r0 \<in> loss_event_key ` set (es_loss_events ?s)"
          then obtain e where "e \<in> set (es_loss_events (ac_store db))" "ev_fill_id e = ''''"
            using s r0(2) by (auto simp: journal_entry_def canonical_key_def loss_event_key_def)
          then show False using events_have_ids[OF start(2)] start(1) by (auto simp: journal_start_def)
        qed
        ultimately show False using counted(5) r0(3) s fill(3) k(4) unfolding key
          by (auto simp: earlier_unapplied_def list_ex_iff journal_entry_def)
      qed (use nl ne key in simp_all)
    qed (use a ok in \<open>simp_all add: record_failed_def\<close>)
  qed
  then obtain why where why: "a = SinkFailed why" by (cases a) auto
  have "why \<noteq> MissingRequiredFields"
  proof
    assume "why = MissingRequiredFields"
    then show False using a why fill(1,2)
      by (cases rule: sink_on_fill_cases[of env fill db])
        (auto simp: record_failed_def dest: sink_account_failed split: if_splits)
  qed
  then show ?thesis using sink_failed[OF a[unfolded why]] a why by auto
qed

section \<open>Witnesses\<close>

definition sink_sample :: "string \<Rightarrow> dict" where
  "sink_sample i = [(''venue'', JStr ''kraken''), (''fill_id'', JStr i), (''symbol'', JStr ''ETH/USD''),
     (''side'', JStr ''sell''), (''qty'', JInt 1), (''price'', JInt 2), (''realized_pnl_usd'', JInt 0)]"

definition sink_sample_env :: sink_env where
  "sink_sample_env = \<lparr>se_now_ms = 5, se_now = ''n'', se_today = ''d'', se_loss_limit = None, se_lock_minutes = None,
     se_faults = no_faults\<rparr>"

definition sink_sample_row :: "string \<Rightarrow> canonical_row" where
  "sink_sample_row i = \<lparr>cf_venue = ''kraken'', cf_fill_id = i, cf_symbol = ''ETH/USD'', cf_side = ''sell'',
     cf_qty = Fin 1, cf_price = Fin 2, cf_ts = '''', cf_fee_usd = Fin 0, cf_realized_pnl_usd = Some (Fin 0),
     cf_client_order_id = '''', cf_order_id = '''', cf_raw_json = Some (sink_sample i), cf_created_at = ''n''\<rparr>"

lemma sink_sample_parts:
  "sink_venue (sink_sample i) = JStr ''kraken''" "sink_fid (sink_sample i) = JStr i"
  "sink_symbol (sink_sample i) = JStr ''ETH/USD''" "sink_side (sink_sample i) = JStr ''sell''"
  "sink_num ''fee_usd'' (sink_sample i) = Inr (Fin 0)"
  "sink_pnl (sink_sample i) = Inr (Some (Fin 0))"
  "sink_row sink_sample_env (sink_sample i) (Fin 0) = Inr (sink_sample_row i)"
  by (auto simp: sink_venue_def sink_fid_def sink_symbol_def sink_side_def sink_num_def sink_pnl_def sink_row_def
      sink_sample_def sink_sample_row_def sink_sample_env_def jget_def jor_def mk_float_small)

lemma sink_sample_limits: "env_int None ''3'' = Inr 3" "env_int None ''60'' = Inr 60"
proof -
  have "int_of_text ''3'' = Some 3" "int_of_text ''60'' = Some 60" by code_simp+
  then show "env_int None ''3'' = Inr 3" "env_int None ''60'' = Inr 60" by (simp_all add: env_int_def opt_str_or_def)
qed

text \<open>The store after the first fill without an id, and after one with an id.\<close>

definition sink_sample_store :: "string \<Rightarrow> exec_store" where
  "sink_sample_store i = empty_exec_store\<lparr>es_cutover := Some 5, es_journal := Some [sink_sample_row i]\<rparr>"

lemma sink_sample_entry:
  "activate_symbol_loss_cutover 5 empty_exec_store = Inr (5, empty_exec_store\<lparr>es_cutover := Some 5\<rparr>)"
  "journal_entry (empty_exec_store\<lparr>es_cutover := Some 5\<rparr>) (sink_sample_row i) empty_account =
     empty_account\<lparr>ac_store := sink_sample_store i\<rparr>"
  by (simp_all add: activate_symbol_loss_cutover_def empty_exec_store_def unapplied_keys_def journal_entry_def
      empty_account_def sink_sample_store_def record_fill_def journal_ensure_schema_def sink_sample_row_def sql_real_def)

lemma sink_sample_idless:
  "sink_on_fill sink_sample_env (sink_sample '''') empty_account = (SinkOk, empty_account\<lparr>ac_store := sink_sample_store ''''\<rparr>)"
  using sink_sample_entry(1) sink_sample_entry(2)[of "''''"] sink_sample_parts[of "''''"]
  by (simp add: sink_on_fill_def empty_account_def sink_sample_env_def no_faults_def Let_def journal_entry_def)

lemma sink_sample_ok: "\<exists>db. sink_on_fill sink_sample_env (sink_sample ''f1'') empty_account = (SinkOk, db)"
proof -
  let ?db = "empty_account\<lparr>ac_store := sink_sample_store ''f1''\<rparr>"
  have ck: "canonical_key (sink_sample_row ''f1'') = (''kraken'', ''f1'')"
    by (simp add: canonical_key_def sink_sample_row_def)
  have ap: "\<exists>n s. apply_symbol_loss_fill_once 5 ''kraken'' ''f1'' ''ETH/USD'' (Fin 0) 3 (60 * 60 * 1000) True
      (sink_sample_store ''f1'') = Inr (n, s)"
    by (simp add: apply_symbol_loss_fill_once_def sink_sample_store_def empty_exec_store_def journal_order_check_def
        select_key_Cons ck earlier_unapplied_def rows_before_def loss_lock_def Let_def)
      (simp add: sink_sample_row_def)
  have env: "se_now_ms sink_sample_env = 5" "se_loss_limit sink_sample_env = None"
    "se_lock_minutes sink_sample_env = None" "se_faults sink_sample_env = no_faults"
    by (simp_all add: sink_sample_env_def)
  have row: "cf_venue (sink_sample_row ''f1'') = ''kraken''" "cf_fill_id (sink_sample_row ''f1'') = ''f1''"
    "cf_symbol (sink_sample_row ''f1'') = ''ETH/USD''" "cf_realized_pnl_usd (sink_sample_row ''f1'') = Some (Fin 0)"
    by (simp_all add: sink_sample_row_def)
  have los: "\<exists>n s. sink_loss_apply sink_sample_env (sink_sample_row ''f1'') (Fin 0) (sink_sample_store ''f1'') = Inr (n, s)"
    using ap by (simp add: sink_loss_apply_def env sink_sample_limits no_faults_def row)
  have "\<exists>db. sink_account sink_sample_env (sink_sample ''f1'') (sink_sample_row ''f1'') ?db = (SinkOk, db)"
    using los by (auto simp: sink_account_def sink_position_def row sink_risk_def env no_faults_def sink_loss_def)
  then show ?thesis
    using sink_sample_entry(1) sink_sample_entry(2)[of "''f1''"] sink_sample_parts[of "''f1''"]
    by (simp add: sink_on_fill_def empty_account_def env no_faults_def Let_def journal_entry_def)
qed

lemma sink_sample_start: "journal_start empty_exec_store" "loss_reach empty_exec_store (ac_store empty_account)"
  by (simp_all add: journal_start_def empty_exec_store_def empty_account_def loss_reach.start)

lemma sink_sample_id: "jtruthy (sink_fid (sink_sample ''f1''))"
  by (simp add: sink_sample_parts)

theorem sink_ok_accounted_witness:
  "\<exists>db. sink_on_fill sink_sample_env (sink_sample ''f1'') empty_account = (SinkOk, db) \<and>
     journalled (''kraken'', ''f1'') (es_journal (ac_store db))"
proof -
  obtain db where db: "sink_on_fill sink_sample_env (sink_sample ''f1'') empty_account = (SinkOk, db)"
    using sink_sample_ok by blast
  from sink_ok_accounted[OF sink_sample_start db sink_sample_id] db show ?thesis
    by (auto simp: sink_key_def sink_sample_parts)
qed

theorem sink_fails_closed_witness:
  "\<exists>db. ac_flag db \<noteq> None \<and> sink_on_fill (sink_sample_env\<lparr>se_faults := no_faults\<lparr>sf_cutover := Some OverflowError\<rparr>\<rparr>)
     (sink_sample ''f1'') empty_account = (SinkFailed (RecordFailed OverflowError), db)"
proof -
  let ?env = "sink_sample_env\<lparr>se_faults := no_faults\<lparr>sf_cutover := Some OverflowError\<rparr>\<rparr>"
  obtain db where db: "sink_on_fill ?env (sink_sample ''f1'') empty_account = (SinkFailed (RecordFailed OverflowError), db)"
    by (simp add: sink_on_fill_def sink_sample_parts record_failed_def)
  from sink_fails_closed[OF db] db show ?thesis by auto
qed

theorem risk_rollback_is_silent_witness:
  "\<exists>db. sink_on_fill (sink_sample_env\<lparr>se_faults := no_faults\<lparr>sf_risk_txn := True\<rparr>\<rparr>) (sink_sample ''f1'') empty_account =
     (SinkOk, db\<lparr>ac_risk := empty_risk_db\<rparr>)"
proof -
  obtain db where db: "sink_on_fill sink_sample_env (sink_sample ''f1'') empty_account = (SinkOk, db)"
    using sink_sample_ok by blast
  from risk_rollback_is_silent[OF db] show ?thesis by (auto simp: sink_sample_env_def empty_account_def)
qed

theorem sink_replay_harmless_witness:
  "\<exists>db risk. sink_on_fill sink_sample_env (sink_sample ''f1'') empty_account = (SinkOk, db) \<and>
     sink_on_fill sink_sample_env (sink_sample ''f1'') db = (SinkOk, db\<lparr>ac_risk := risk\<rparr>)"
proof -
  obtain db where db: "sink_on_fill sink_sample_env (sink_sample ''f1'') empty_account = (SinkOk, db)"
    using sink_sample_ok by blast
  have "se_faults sink_sample_env = no_faults" "env_int (se_loss_limit sink_sample_env) ''3'' = Inr 3"
    "env_int (se_lock_minutes sink_sample_env) ''60'' = Inr 60"
    by (simp_all add: sink_sample_env_def sink_sample_limits)
  from sink_replay_harmless[OF sink_sample_start db sink_sample_id this(1,2) _ this(3)] db show ?thesis by auto
qed

theorem idless_fill_blocks_symbol_witness:
  "\<exists>db why db'. sink_on_fill sink_sample_env (sink_sample '''') empty_account = (SinkOk, db) \<and>
     sink_on_fill sink_sample_env (sink_sample ''f1'') db = (SinkFailed why, db') \<and> ac_flag db' \<noteq> None"
proof -
  let ?db = "empty_account\<lparr>ac_store := sink_sample_store ''''\<rparr>" and ?r = "sink_sample_row ''''"
  have reach: "loss_reach empty_exec_store (ac_store ?db)"
    using sink_reach[OF sink_sample_start(2), of sink_sample_env "sink_sample ''''"] sink_sample_idless by simp
  have st: "es_cutover (sink_sample_store '''') = Some 5" "journal_rows (es_journal (sink_sample_store '''')) = [?r]"
    "es_legacy (sink_sample_store '''') = []"
    by (simp_all add: sink_sample_store_def empty_exec_store_def)
  have "\<exists>why db'. sink_on_fill sink_sample_env (sink_sample ''f1'') ?db = (SinkFailed why, db') \<and> ac_flag db' \<noteq> None"
    by (rule idless_fill_blocks_symbol[OF sink_sample_start(1) reach, of ?r])
      (simp_all add: st sink_sample_parts journalled_def sink_key_def, simp_all add: sink_sample_row_def canonical_key_def)
  then show ?thesis using sink_sample_idless by blast
qed

section \<open>The composite sink\<close>

fun sink_answers :: "('s \<Rightarrow> 'r sink_answer \<times> 's) list \<Rightarrow> 's \<Rightarrow> 'r sink_answer list" where
  "sink_answers [] st = []"
| "sink_answers (f # fs) st = fst (f st) # sink_answers fs (snd (f st))"

text \<open>Every sink sees the fill, whatever the others did, and one failure makes the answer not ok.\<close>

lemma composite_loop_answers:
  "snd (composite_loop fs failed out st) = fold (\<lambda>f st. snd (f st)) fs st \<and>
   (fst (composite_loop fs failed out st) = AnsNotOk \<longleftrightarrow>
      failed \<or> AnsRaised \<in> set (sink_answers fs st) \<or> AnsNotOk \<in> set (sink_answers fs st))"
  by (induction fs arbitrary: failed out st) (auto split: prod.splits sink_answer.splits)

lemma composite_reports_failure:
  "snd (composite_on_fill fs st) = fold (\<lambda>f st. snd (f st)) fs st \<and>
   (fst (composite_on_fill fs st) = AnsNotOk \<longleftrightarrow>
      AnsRaised \<in> set (sink_answers fs st) \<or> AnsNotOk \<in> set (sink_answers fs st))"
  unfolding composite_on_fill_def using composite_loop_answers[of fs False None st] by simp

section \<open>What the sink leaves alone\<close>

definition outbox :: "exec_store \<Rightarrow> exec_intent list \<times> exec_fill list \<times> delivery list" where
  "outbox s = (es_intents s, es_fills s, es_deliveries s)"

lemma apply_loss_outbox:
  assumes "apply_symbol_loss_fill_once now v f y p lmt dur True s = Inr (n, s')"
  shows "outbox s' = outbox s"
  using assms by (cases rule: apply_loss_cases) (auto simp: outbox_def)

lemma cutover_outbox: "activate_symbol_loss_cutover now s = Inr (t, s') \<Longrightarrow> outbox s' = outbox s"
  by (auto simp: activate_symbol_loss_cutover_def outbox_def split: option.splits if_splits)

lemma sink_account_outbox:
  "outbox (ac_store (snd (sink_account env fill r db))) = outbox (ac_store db) \<and>
   es_journal (ac_store (snd (sink_account env fill r db))) = es_journal (ac_store db)"
proof (cases "sink_account env fill r db")
  case (Pair a db')
  show ?thesis
  proof (cases a)
    case SinkOk
    then have "sink_account env fill r db = (SinkOk, db')" using Pair by simp
    then show ?thesis
    proof (cases rule: sink_account_ok)
      case (ok pnl ps risk lmt mins n s)
      then show ?thesis using apply_loss_outbox[OF ok(4)] apply_loss_frame[OF ok(4)] Pair by simp
    qed
  next
    case (SinkFailed why)
    then show ?thesis using Pair sink_account_failed[of env fill r db why db'] by simp
  qed
qed

text \<open>A sink call keeps the outbox and every journal entry.\<close>

lemma sink_outbox:
  "outbox (ac_store (snd (sink_on_fill env fill db))) = outbox (ac_store db) \<and>
   (journalled k (es_journal (ac_store db)) \<longrightarrow> journalled k (es_journal (ac_store (snd (sink_on_fill env fill db)))))"
proof (cases rule: sink_on_fill_cases[of env fill db])
  case (failed e db1)
  then show ?thesis by (auto simp: record_failed_def dest: cutover_outbox cutover_counts)
next
  case (entered t s fee r)
  let ?db = "journal_entry s r db"
  have o: "outbox (ac_store ?db) = outbox (ac_store db)"
    using cutover_outbox[OF entered(1)] by (simp add: journal_entry_def outbox_def)
  have "journalled k (es_journal (ac_store ?db))" if "journalled k (es_journal (ac_store db))"
    using record_fill_keeps that cutover_counts[OF entered(1)] by (simp add: journal_entry_def)
  then show ?thesis using o sink_account_outbox[of env fill r ?db] by (simp add: entered(4))
qed simp

text \<open>The same for \<open>_on_fill\<close>, with what it establishes when it answers ok.\<close>

lemma executor_on_fill_effect:
  assumes start: "journal_start s0" "loss_reach s0 (ac_store db)" and call: "executor_on_fill env fill db = (a, db')"
  shows "loss_reach s0 (ac_store db')" "outbox (ac_store db') = outbox (ac_store db)"
    "journalled k (es_journal (ac_store db)) \<Longrightarrow> journalled k (es_journal (ac_store db'))"
    "a = SinkOk \<Longrightarrow> jtruthy (sink_fid fill) \<Longrightarrow> journalled (sink_key fill) (es_journal (ac_store db'))"
proof -
  let ?s = "(ac_store db)\<lparr>es_journal := journal_ensure_schema (es_journal (ac_store db))\<rparr>"
  let ?db = "db\<lparr>ac_store := ?s\<rparr>"
  have c: "sink_on_fill env fill ?db = (a, db')" using call by (simp add: executor_on_fill_def)
  have r: "loss_reach s0 (ac_store ?db)"
    using loss_reach.step[OF start(2) loss_step.schema] by simp
  show "loss_reach s0 (ac_store db')" using sink_reach[OF r, of env fill] c by simp
  show "outbox (ac_store db') = outbox (ac_store db)"
    using sink_outbox[of env fill ?db] c by (simp add: outbox_def)
  show "journalled k (es_journal (ac_store db'))" if "journalled k (es_journal (ac_store db))"
    using sink_outbox[of env fill ?db k] c that by (simp add: journalled_def journal_ensure_schema_def)
  show "journalled (sink_key fill) (es_journal (ac_store db'))" if "a = SinkOk" "jtruthy (sink_fid fill)"
    using sink_accounted[OF start(1) r c[unfolded that(1)] that(2)] by blast
qed

text \<open>A report that names its venue and fill in plain text.\<close>

definition names_fill :: "string \<Rightarrow> string \<Rightarrow> dict \<Rightarrow> bool" where
  "names_fill v f d \<longleftrightarrow> v \<noteq> '''' \<and> f \<noteq> '''' \<and> jget ''venue'' d = JStr v \<and> jget ''fill_id'' d = JStr f"

lemma names_fill_key: "names_fill v f d \<Longrightarrow> sink_key d = (v, f) \<and> jtruthy (sink_fid d)"
  by (auto simp: names_fill_def sink_key_def sink_venue_def sink_fid_def jor_def)

end
