(* ===== verification/Exchange_Trades.thy ===== *)
theory Exchange_Trades
  imports Py_Json
begin

text \<open>
  Reading the orders and trades an exchange reports: the helpers of services/execution/\_executor\_reconcile.py and
  services/execution/live\_reconciler.py that take a trade dictionary apart. Exchanges disagree on key names, so
  each reader tries several keys and then the nested dictionary \<open>info\<close>.
\<close>

section \<open>Identifiers\<close>

text \<open>The text of the first truthy value under the keys, else under the keys of \<open>info\<close>, else empty.\<close>

definition id_under :: "string list \<Rightarrow> string list \<Rightarrow> dict \<Rightarrow> string" where
  "id_under keys info_keys t =
     (case first_truthy keys t of
        Some v \<Rightarrow> json_str v
      | None \<Rightarrow>
          (case jget ''info'' t of
             JObj i \<Rightarrow> (case first_truthy info_keys i of Some v \<Rightarrow> json_str v | None \<Rightarrow> '''')
           | _ \<Rightarrow> ''''))"

definition trade_id :: "dict \<Rightarrow> string" where
  "trade_id t = strip (id_under [''id'', ''tradeId'', ''trade_id'', ''fillId'', ''fill_id'']
     [''trade_id'', ''tradeId'', ''fill_id'', ''fillId'', ''id''] t)"

definition trade_order_id :: "dict \<Rightarrow> string" where
  "trade_order_id t = strip (id_under [''order'', ''orderId'', ''order_id'']
     [''order_id'', ''orderId'', ''order'', ''order_id_str''] t)"

definition trade_client_id :: "dict \<Rightarrow> string" where
  "trade_client_id t = strip (id_under [''clientOrderId'', ''client_order_id'', ''clientId'', ''client_id'', ''text'']
     [''clientOrderId'', ''client_order_id'', ''client_id'', ''clientId'', ''text''] t)"

definition extract_client_id :: "dict \<Rightarrow> string" where
  "extract_client_id o' = id_under [''clientOrderId'', ''client_order_id'', ''text'']
     [''clientOrderId'', ''client_order_id'', ''text'', ''client_id''] o'"

definition trade_matches_intent :: "string option \<Rightarrow> string option \<Rightarrow> dict \<Rightarrow> bool" where
  "trade_matches_intent remote_id client_id t =
     (let remote = strip (opt_str_or remote_id ''''); client = strip (opt_str_or client_id '''')
      in (remote \<noteq> '''' \<and> trade_order_id t = remote) \<or> (client \<noteq> '''' \<and> trade_client_id t = client))"

text \<open>The same readers in the live reconciler, which tries the keys of \<open>info\<close> in another order.\<close>

definition live_trade_order_id :: "dict \<Rightarrow> string" where
  "live_trade_order_id t = strip (id_under [''order'', ''orderId'', ''order_id'']
     [''order'', ''orderId'', ''order_id'', ''order_id_str''] t)"

definition live_trade_client_order_id :: "dict \<Rightarrow> string" where
  "live_trade_client_order_id t = strip (id_under
     [''clientOrderId'', ''client_order_id'', ''clientId'', ''client_id'', ''text'']
     [''clientOrderId'', ''client_order_id'', ''clientId'', ''client_id'', ''text''] t)"

definition trade_matches_order :: "string \<Rightarrow> string \<Rightarrow> dict \<Rightarrow> bool" where
  "trade_matches_order exchange_order_id client_order_id t =
     (let ex_oid = strip exchange_order_id; cid = strip client_order_id
      in (ex_oid \<noteq> '''' \<and> live_trade_order_id t = ex_oid) \<or> (cid \<noteq> '''' \<and> live_trade_client_order_id t = cid))"

section \<open>Numbers\<close>

definition trade_ts_ms :: "int \<Rightarrow> dict \<Rightarrow> int" where
  "trade_ts_ms now t =
     (case jget ''timestamp'' t of
        JNull \<Rightarrow> now
      | v \<Rightarrow> (case json_float v of
                Inl _ \<Rightarrow> now
              | Inr f \<Rightarrow> (case float_int f of Inl _ \<Rightarrow> now | Inr n \<Rightarrow> n)))"

text \<open>The default currency is USD.\<close>

definition trade_fee_parts :: "dict \<Rightarrow> exn + pyfloat \<times> string" where
  "trade_fee_parts t =
     (case jget ''fee'' t of
        JObj f \<Rightarrow>
          (case json_float (jor (jget ''cost'' f) (JInt 0)) of
             Inl e \<Rightarrow> Inl e
           | Inr c \<Rightarrow> Inr (c, str_or (upper (json_str (jor (jget ''currency'' f) (JStr ''USD'')))) ''USD''))
      | _ \<Rightarrow> Inr (Fin 0, ''USD''))"

definition dollar_currency :: "string \<Rightarrow> bool" where
  "dollar_currency c \<longleftrightarrow> c \<in> {''USD'', ''USDT'', ''USDC''}"

definition fee_usd :: "pyfloat \<Rightarrow> string \<Rightarrow> pyfloat" where
  "fee_usd cost currency = (if dollar_currency (strip (upper currency)) then cost else Fin 0)"

definition trade_fee_usd :: "dict \<Rightarrow> exn + pyfloat" where
  "trade_fee_usd t =
     (case jget ''fee'' t of
        JObj f \<Rightarrow>
          if \<not> dollar_currency (strip (upper (json_str (jor (jget ''currency'' f) (JStr ''''))))) then Inr (Fin 0)
          else (case json_float (jor (jget ''cost'' f) (JInt 0)) of
                  Inl OverflowError \<Rightarrow> Inl OverflowError
                | Inl _ \<Rightarrow> Inr (Fin 0)
                | Inr c \<Rightarrow> Inr c)
      | _ \<Rightarrow> Inr (Fin 0))"

text \<open>\<open>TypeError\<close> and \<open>ValueError\<close> of \<open>float\<close> are caught, \<open>OverflowError\<close> is not.\<close>

fun first_present :: "string list \<Rightarrow> dict \<Rightarrow> json option" where
  "first_present [] d = None"
| "first_present (k # ks) d = (if jget k d \<noteq> JNull then Some (jget k d) else first_present ks d)"

definition pnl_keys :: "string list" where
  "pnl_keys = [''realized_pnl_usd'', ''realized_pnl'', ''realizedPnl'', ''pnl_usd'', ''pnl'']"

definition caught_float :: "json \<Rightarrow> exn + pyfloat option" where
  "caught_float v = (case json_float v of
     Inr f \<Rightarrow> Inr (Some f) | Inl OverflowError \<Rightarrow> Inl OverflowError | Inl _ \<Rightarrow> Inr None)"

definition realized_pnl_of :: "dict \<Rightarrow> exn + pyfloat option" where
  "realized_pnl_of t =
     (case first_present pnl_keys t of
        Some v \<Rightarrow> caught_float v
      | None \<Rightarrow>
          (case jget ''info'' t of
             JObj i \<Rightarrow> (case first_present pnl_keys i of Some v \<Rightarrow> caught_float v | None \<Rightarrow> Inr None)
           | _ \<Rightarrow> Inr None))"

section \<open>The reason text of an intent\<close>

text \<open>\<open>s.split(token, 1)[-1].split()[0]\<close>: an \<open>IndexError\<close> when nothing follows the token.\<close>

definition word_after :: "string \<Rightarrow> exn + string option" where
  "word_after rest = (if first_word rest = '''' then Inl (IndexError ''list index out of range'') else Inr (Some (first_word rest)))"

definition remote_id_from_reason :: "string \<Rightarrow> exn + string option" where
  "remote_id_from_reason reason =
     (case after_token ''remote_id='' (strip reason) of None \<Rightarrow> Inr None | Some rest \<Rightarrow> word_after rest)"

definition client_id_from_reason :: "string \<Rightarrow> exn + string option" where
  "client_id_from_reason reason =
     (case after_token ''client_id='' (strip reason) of
        Some rest \<Rightarrow> word_after rest
      | None \<Rightarrow>
          (case after_token ''client_order_id='' (strip reason) of None \<Rightarrow> Inr None | Some rest \<Rightarrow> word_after rest))"

end
