(* ===== verification/Executor_Reconcile.thy ===== *)
theory Executor_Reconcile
  imports Fill_Sink Exchange_Trades Order_Dedupe
begin

text \<open>
  services/execution/\_executor\_reconcile.py: how the executor lane turns what the exchange reports into fills and
  final statuses. A fill is first put into the outbox together with the report the fill sink will get
  (\<open>add_fill\<close>), then delivered to the sink and marked completed (\<open>_retry_canonical_fills\<close>); an intent becomes
  final only when \<open>_reconcile_accounting_ready\<close> finds every recorded fill delivered and the recorded
  quantity equal to the reported one.

  The state \<open>lane\<close> is the execution database with the sink's stores, the dedupe table, the report of the pass and a
  counter of outside reads. Exchange answers, clocks and the sink's environment are functions of that
  counter, so that every read may give a different answer. Latency metrics, logging and the session handling
  are not modelled.
\<close>

section \<open>State\<close>

record lane_report =
  rp_checked :: nat
  rp_fills_added :: nat
  rp_trade_fills_added :: nat
  rp_incomplete :: "string list"

record lane =
  ln_db :: account_db
  ln_dedupe :: dedupe_db
  ln_tick :: nat
  ln_report :: lane_report

record lane_cfg =
  lc_exchange_id :: string
  lc_symbol :: string
  lc_reconcile_limit :: int
  lc_reconcile_trades :: bool

text \<open>\<open>None\<close> as the trades stands for a failed fetch or an answer that is not a list.\<close>

record lane_env =
  lv_sink :: "nat \<Rightarrow> sink_env"
  lv_now_ms :: "nat \<Rightarrow> int"
  lv_order :: "nat \<Rightarrow> string \<Rightarrow> string \<Rightarrow> dict option"
  lv_trades :: "nat \<Rightarrow> string \<Rightarrow> dict list option"

definition tick :: "lane \<Rightarrow> lane" where
  "tick w = w\<lparr>ln_tick := Suc (ln_tick w)\<rparr>"

definition lane_store :: "lane \<Rightarrow> exec_store" where
  "lane_store w = ac_store (ln_db w)"

definition set_store :: "exec_store \<Rightarrow> lane \<Rightarrow> lane" where
  "set_store s w = w\<lparr>ln_db := (ln_db w)\<lparr>ac_store := s\<rparr>\<rparr>"

definition note_incomplete :: "string \<Rightarrow> lane \<Rightarrow> lane" where
  "note_incomplete iid w = w\<lparr>ln_report := (ln_report w)\<lparr>rp_incomplete := rp_incomplete (ln_report w) @ [iid]\<rparr>\<rparr>"

definition note_fill :: "bool \<Rightarrow> lane \<Rightarrow> lane" where
  "note_fill from_trade w =
     w\<lparr>ln_report := (ln_report w)\<lparr>rp_fills_added := Suc (rp_fills_added (ln_report w)),
        rp_trade_fills_added := (if from_trade then Suc (rp_trade_fills_added (ln_report w))
                                 else rp_trade_fills_added (ln_report w))\<rparr>\<rparr>"

section \<open>Delivery\<close>

definition emit_canonical_fill :: "lane_env \<Rightarrow> dict \<Rightarrow> lane \<Rightarrow> bool \<times> lane" where
  "emit_canonical_fill env fill w =
     (case executor_on_fill (lv_sink env (ln_tick w)) fill (ln_db w) of
        (r, db) \<Rightarrow> (r = SinkOk, tick (w\<lparr>ln_db := db\<rparr>)))"

text \<open>The loop over the pending fills read at its start; any exception ends it with \<open>False\<close>.\<close>

fun deliver_all :: "lane_env \<Rightarrow> dict list \<Rightarrow> lane \<Rightarrow> bool \<times> lane" where
  "deliver_all env [] w = (True, w)"
| "deliver_all env (fill # fills) w =
     (case emit_canonical_fill env fill w of
        (ok, w1) \<Rightarrow>
          if \<not> ok then (False, w1)
          else if map_of fill ''venue'' = None \<or> map_of fill ''fill_id'' = None then (False, w1)
          else (case complete_reconcile_fill (json_str (jget ''venue'' fill)) (json_str (jget ''fill_id'' fill))
                       (lane_store w1) of
                  Inl _ \<Rightarrow> (False, w1)
                | Inr s \<Rightarrow> deliver_all env fills (set_store s w1)))"

definition retry_canonical_fills :: "lane_env \<Rightarrow> string \<Rightarrow> lane \<Rightarrow> bool \<times> lane" where
  "retry_canonical_fills env iid w = deliver_all env (pending_reconcile_fills iid (lane_store w)) w"

definition accounting_complete :: "string \<Rightarrow> pyfloat \<Rightarrow> exec_store \<Rightarrow> bool" where
  "accounting_complete iid filled s =
     (case reconcile_fill_coverage iid s of
        Inl _ \<Rightarrow> False
      | Inr (q, all_done) \<Rightarrow> all_done \<and> isclose rel_tol abs_tol q filled)"

definition reconcile_accounting_ready :: "lane_env \<Rightarrow> string \<Rightarrow> pyfloat \<Rightarrow> lane \<Rightarrow> bool \<times> lane" where
  "reconcile_accounting_ready env iid filled w =
     (case retry_canonical_fills env iid w of
        (ok, w1) \<Rightarrow> (ok \<and> accounting_complete iid filled (lane_store w1), w1))"

definition existing_trade_ids :: "string \<Rightarrow> exec_store \<Rightarrow> string set" where
  "existing_trade_ids iid s = set (list_fill_trade_ids iid 2000 s)"

definition persist_reconcile_fill :: "fill_args \<Rightarrow> lane \<Rightarrow> bool \<times> lane" where
  "persist_reconcile_fill a w =
     (case add_fill a (lane_store w) of Inl _ \<Rightarrow> (False, w) | Inr s \<Rightarrow> (True, set_store s w))"

section \<open>Fills from trades\<close>

definition opt_json :: "string option \<Rightarrow> json" where
  "opt_json v = (case v of None \<Rightarrow> JNull | Some s \<Rightarrow> JStr s)"

definition with_pnl :: "pyfloat option \<Rightarrow> dict \<Rightarrow> dict" where
  "with_pnl p d = d @ (case p of None \<Rightarrow> [] | Some x \<Rightarrow> [(''realized_pnl_usd'', JFloat x)])"

text \<open>The report for the sink, from a trade or from a closed order.\<close>

definition sink_report ::
    "lane_cfg \<Rightarrow> exec_intent \<Rightarrow> string \<Rightarrow> string option \<Rightarrow> string \<Rightarrow> string \<Rightarrow> pyfloat \<Rightarrow> pyfloat \<Rightarrow> int \<Rightarrow> pyfloat \<Rightarrow>
     string \<times> json \<Rightarrow> pyfloat option \<Rightarrow> dict" where
  "sink_report cfg it remote cid fid side qty px ts fee raw pnl =
     with_pnl pnl
       [(''venue'', JStr (lc_exchange_id cfg)), (''fill_id'', JStr fid), (''symbol'', JStr (xi_symbol it)),
        (''side'', JStr side), (''qty'', JFloat qty), (''price'', JFloat px), (''ts'', JStr (int_text ts)),
        (''fee_usd'', JFloat fee), (''client_order_id'', opt_json cid), (''order_id'', JStr remote),
        (''exchange_order_id'', JStr remote), raw]"

definition trade_meta :: "string \<Rightarrow> string \<Rightarrow> string \<Rightarrow> dict \<Rightarrow> dict" where
  "trade_meta remote status tid tr =
     [(''remote_order_id'', JStr remote), (''status'', JStr status), (''trade_id'', JStr tid),
      (''raw_trade'', JObj [(''id'', jget ''id'' tr), (''order'', jget ''order'' tr),
         (''timestamp'', jget ''timestamp'' tr), (''price'', jget ''price'' tr),
         (''amount'', jget ''amount'' tr), (''fee'', jget ''fee'' tr)])]"

text \<open>The fill record of a trade, or the exception its conversion raises.\<close>

definition trade_fill ::
    "lane_cfg \<Rightarrow> exec_intent \<Rightarrow> string \<Rightarrow> string option \<Rightarrow> string \<Rightarrow> pyfloat \<Rightarrow> int \<Rightarrow> dict \<Rightarrow> pyfloat \<Rightarrow> pyfloat \<Rightarrow>
     exn + fill_args" where
  "trade_fill cfg it remote cid status filled now tr qty px =
     (case trade_fee_parts tr of
        Inl e \<Rightarrow> Inl e
      | Inr (cost, ccy) \<Rightarrow>
     (case realized_pnl_of tr of
        Inl e \<Rightarrow> Inl e
      | Inr pnl \<Rightarrow>
        (let ts = trade_ts_ms now tr;
             side = lower (json_str (jor (jor (jget ''side'' tr) (JStr (xi_side it))) (JStr '''')))
         in Inr \<lparr>fa_intent_id = xi_intent_id it, fa_ts_ms = ts, fa_price = px, fa_qty = qty, fa_fee = cost,
                 fa_fee_ccy = ccy, fa_meta = Some (trade_meta remote status (trade_id tr) tr),
                 fa_canonical_fill = Some (sink_report cfg it remote cid (trade_id tr) side qty px ts
                   (fee_usd cost ccy) (''raw_trade'', JObj tr) pnl),
                 fa_max_recorded_qty = Some filled\<rparr>)))"

definition trade_qty :: "dict \<Rightarrow> exn + pyfloat" where
  "trade_qty tr = json_float (jor (jor (jget ''amount'' tr) (jget ''qty'' tr)) (JInt 0))"

definition trade_price :: "dict \<Rightarrow> exn + pyfloat" where
  "trade_price tr = json_float (jor (jget ''price'' tr) (JInt 0))"

definition usable_pair :: "pyfloat \<Rightarrow> pyfloat \<Rightarrow> bool" where
  "usable_pair q p \<longleftrightarrow> isfinite q \<and> isfinite p \<and> \<not> fle q (Fin 0) \<and> \<not> fle p (Fin 0)"

text \<open>The loop over the fetched trades: an uncaught exception, or whether a write failed and the quantity of the
  matching trades.\<close>

fun reconcile_trades ::
    "lane_env \<Rightarrow> lane_cfg \<Rightarrow> exec_intent \<Rightarrow> string \<Rightarrow> string option \<Rightarrow> string \<Rightarrow> pyfloat \<Rightarrow> dict list \<Rightarrow> string set \<Rightarrow>
     pyfloat \<Rightarrow> lane \<Rightarrow> (exn + bool \<times> pyfloat) \<times> lane" where
  "reconcile_trades env cfg it remote cid status filled [] known tot w = (Inr (False, tot), w)"
| "reconcile_trades env cfg it remote cid status filled (tr # trs) known tot w =
     (if \<not> trade_matches_intent (Some remote) cid tr
      then reconcile_trades env cfg it remote cid status filled trs known tot w
      else case trade_qty tr of
        Inl e \<Rightarrow> (Inl e, w)
      | Inr qty \<Rightarrow>
     (case trade_price tr of
        Inl e \<Rightarrow> (Inl e, w)
      | Inr px \<Rightarrow>
        if \<not> usable_pair qty px
        then reconcile_trades env cfg it remote cid status filled trs known tot w
        else if trade_id tr = '''' \<or> trade_id tr \<in> known
        then reconcile_trades env cfg it remote cid status filled trs known (fadd tot qty) w
        else (case trade_fill cfg it remote cid status filled (lv_now_ms env (ln_tick w)) tr qty px of
                Inl e \<Rightarrow> (Inl e, tick w)
              | Inr a \<Rightarrow>
                  (case persist_reconcile_fill a (tick w) of
                     (False, w1) \<Rightarrow> (Inr (True, fadd tot qty), w1)
                   | (True, w1) \<Rightarrow>
                       reconcile_trades env cfg it remote cid status filled trs (insert (trade_id tr) known)
                         (fadd tot qty) (note_fill True w1)))))"

section \<open>One intent\<close>

text \<open>The order report: \<open>None\<close> when the filled quantity is unusable.\<close>

definition reported_filled :: "dict \<Rightarrow> pyfloat option" where
  "reported_filled ord =
     (case jget ''filled'' ord of
        JNull \<Rightarrow> None
      | JBool _ \<Rightarrow> None
      | v \<Rightarrow> (case json_float v of
                Inl _ \<Rightarrow> None
              | Inr f \<Rightarrow> if \<not> isfinite f \<or> flt f (Fin 0) then None else Some f))"

text \<open>\<open>o.get("fee") or {}\<close>, and its cost and currency.\<close>

definition order_fee :: "dict \<Rightarrow> exn + pyfloat \<times> string" where
  "order_fee ord =
     (case jor (jget ''fee'' ord) (JObj []) of
        JObj f \<Rightarrow>
          (case json_float (jor (jget ''cost'' f) (JInt 0)) of
             Inl e \<Rightarrow> Inl e
           | Inr c \<Rightarrow> Inr (c, str_or (upper (json_str (jor (jget ''currency'' f) (JStr '''')))) ''USD''))
      | _ \<Rightarrow> Inl (AttributeError ''get''))"

definition order_average :: "dict \<Rightarrow> pyfloat" where
  "order_average ord = (case json_float (jor (jget ''average'' ord) (JInt 0)) of Inl _ \<Rightarrow> Fin 0 | Inr f \<Rightarrow> f)"

definition closed_fill_id :: "string \<Rightarrow> string" where
  "closed_fill_id remote = ''order:'' @ remote @ '':closed''"

text \<open>The synthetic fill of a closed order without trades.\<close>

definition closed_fill ::
    "lane_cfg \<Rightarrow> exec_intent \<Rightarrow> string \<Rightarrow> string option \<Rightarrow> string \<Rightarrow> pyfloat \<Rightarrow> int \<Rightarrow> dict \<Rightarrow> pyfloat \<Rightarrow> pyfloat \<times> string \<Rightarrow>
     exn + fill_args" where
  "closed_fill cfg it remote cid status filled now ord avg fee =
     (case realized_pnl_of ord of
        Inl e \<Rightarrow> Inl e
      | Inr pnl \<Rightarrow>
        (let side = lower (json_str (jor (jor (jget ''side'' ord) (JStr (xi_side it))) (JStr '''')))
         in Inr \<lparr>fa_intent_id = xi_intent_id it, fa_ts_ms = now, fa_price = avg, fa_qty = filled, fa_fee = fst fee,
                 fa_fee_ccy = snd fee,
                 fa_meta = Some [(''trade_id'', JStr (closed_fill_id remote)), (''remote_order_id'', JStr remote),
                   (''status'', JStr status), (''raw_order'', JObj [(''id'', jget ''id'' ord), (''filled'', JFloat filled),
                      (''average'', JFloat avg), (''fee'', jor (jget ''fee'' ord) (JObj []))])],
                 fa_canonical_fill = Some (sink_report cfg it remote cid (closed_fill_id remote) side filled avg now
                   (fee_usd (fst fee) (snd fee)) (''raw_order'', JObj ord) pnl),
                 fa_max_recorded_qty = Some filled\<rparr>))"

text \<open>The final status, written only when the accounting is complete.\<close>

definition finish_intent ::
    "lane_env \<Rightarrow> lane_cfg \<Rightarrow> string \<Rightarrow> pyfloat \<Rightarrow> string \<Rightarrow> string \<Rightarrow> string \<Rightarrow> lane \<Rightarrow> lane" where
  "finish_intent env cfg iid filled final why status w =
     (case reconcile_accounting_ready env iid filled w of
        (False, w1) \<Rightarrow> note_incomplete iid w1
      | (True, w1) \<Rightarrow>
          (let w2 = set_store (snd (set_intent_status iid final (Some why) (lane_store w1))) w1
           in tick (w2\<lparr>ln_dedupe := mark_terminal (lv_now_ms env (ln_tick w2)) (lc_exchange_id cfg) iid status (ln_dedupe w2)\<rparr>)))"

definition close_filled ::
    "lane_env \<Rightarrow> lane_cfg \<Rightarrow> exec_intent \<Rightarrow> string \<Rightarrow> string option \<Rightarrow> string \<Rightarrow> pyfloat \<Rightarrow> dict \<Rightarrow> pyfloat \<times> string \<Rightarrow>
     pyfloat \<Rightarrow> lane \<Rightarrow> exn option \<times> lane" where
  "close_filled env cfg it remote cid status filled ord fee tot w =
     (let iid = xi_intent_id it; avg = order_average ord;
          finish = finish_intent env cfg iid filled ''filled'' (''remote_id='' @ remote) status
      in case reconcile_fill_coverage iid (lane_store w) of
           Inl e \<Rightarrow> (Some e, w)
         | Inr (q, _) \<Rightarrow>
             if fle tot (Fin 0) \<and> q = Fin 0 then
               (if \<not> isfinite avg \<or> fle avg (Fin 0) then (None, note_incomplete iid w)
                else case closed_fill cfg it remote cid status filled (lv_now_ms env (ln_tick w)) ord avg fee of
                       Inl e \<Rightarrow> (Some e, tick w)
                     | Inr a \<Rightarrow>
                         (case persist_reconcile_fill a (tick w) of
                            (False, w1) \<Rightarrow> (None, note_incomplete iid w1)
                          | (True, w1) \<Rightarrow> (None, finish (note_fill False w1))))
             else (None, finish w))"

definition final_statuses :: "string list" where
  "final_statuses = [''canceled'', ''cancelled'', ''rejected'', ''expired'']"

definition settle_intent ::
    "lane_env \<Rightarrow> lane_cfg \<Rightarrow> exec_intent \<Rightarrow> string \<Rightarrow> string option \<Rightarrow> string \<Rightarrow> pyfloat \<Rightarrow> dict \<Rightarrow> pyfloat \<times> string \<Rightarrow>
     pyfloat \<Rightarrow> lane \<Rightarrow> exn option \<times> lane" where
  "settle_intent env cfg it remote cid status filled ord fee tot w =
     (let iid = xi_intent_id it
      in if (status = ''closed'' \<or> status = ''filled'') \<and> flt (Fin 0) filled
         then close_filled env cfg it remote cid status filled ord fee tot w
         else if status \<in> set final_statuses
         then (None, finish_intent env cfg iid filled ''canceled'' (''remote_id='' @ remote @ '':'' @ status) status w)
         else (case retry_canonical_fills env iid w of
                 (True, w1) \<Rightarrow> (None, w1) | (False, w1) \<Rightarrow> (None, note_incomplete iid w1)))"

definition partial_status_write :: "string \<Rightarrow> string \<Rightarrow> string \<Rightarrow> pyfloat \<Rightarrow> pyfloat \<Rightarrow> lane \<Rightarrow> lane" where
  "partial_status_write iid remote status filled qty w =
     (if (status = ''open'' \<or> status = ''partially_filled'') \<and> flt (Fin 0) filled \<and> flt filled qty
      then set_store (snd (set_intent_status iid ''partially_filled''
             (Some (''remote_id='' @ remote @ '' filled='' @ float_repr filled @ ''/'' @ float_repr qty)) (lane_store w))) w
      else w)"

definition process_order ::
    "lane_env \<Rightarrow> lane_cfg \<Rightarrow> exec_intent \<Rightarrow> string \<Rightarrow> string option \<Rightarrow> string set \<Rightarrow> dict \<Rightarrow> lane \<Rightarrow> exn option \<times> lane" where
  "process_order env cfg it remote cid known ord w =
     (let iid = xi_intent_id it; status = lower (json_str (jor (jget ''status'' ord) (JStr '''')))
      in case reported_filled ord of
           None \<Rightarrow> (None, note_incomplete iid w)
         | Some filled \<Rightarrow>
        (let w1 = partial_status_write iid remote status filled (xi_qty it) w
         in case order_fee ord of
              Inl e \<Rightarrow> (Some e, w1)
            | Inr fee \<Rightarrow>
                if lc_reconcile_trades cfg then
                  (let trs = (case lv_trades env (ln_tick w1) (xi_symbol it) of None \<Rightarrow> [] | Some t \<Rightarrow> t)
                   in case reconcile_trades env cfg it remote cid status filled trs known (Fin 0) (tick w1) of
                        (Inl e, w2) \<Rightarrow> (Some e, w2)
                      | (Inr (True, tot), w2) \<Rightarrow> (None, note_incomplete iid w2)
                      | (Inr (False, tot), w2) \<Rightarrow> settle_intent env cfg it remote cid status filled ord fee tot w2)
                else settle_intent env cfg it remote cid status filled ord fee (Fin 0) w1))"

text \<open>The identifiers of the order at the exchange, from the reason text or the dedupe table.\<close>

definition remote_of_intent :: "lane_cfg \<Rightarrow> exec_intent \<Rightarrow> dedupe_db \<Rightarrow> exn + string option" where
  "remote_of_intent cfg it d =
     (case remote_id_from_reason (opt_str_or (xi_reason it) '''') of
        Inl e \<Rightarrow> Inl e
      | Inr r \<Rightarrow> Inr (if truthy r then r
                     else (case get_by_intent (lc_exchange_id cfg) (xi_intent_id it) d of
                             None \<Rightarrow> None | Some row \<Rightarrow> opt_or (dr_remote_order_id row) None)))"

definition client_of_intent :: "lane_cfg \<Rightarrow> exec_intent \<Rightarrow> dedupe_db \<Rightarrow> exn + string option" where
  "client_of_intent cfg it d =
     (let c = (case get_by_intent (lc_exchange_id cfg) (xi_intent_id it) d of None \<Rightarrow> '''' | Some row \<Rightarrow> strip (dr_client_order_id row))
      in if c \<noteq> '''' then Inr (Some c) else client_id_from_reason (opt_str_or (xi_reason it) ''''))"

definition reconcile_lane_intent :: "lane_env \<Rightarrow> lane_cfg \<Rightarrow> exec_intent \<Rightarrow> lane \<Rightarrow> exn option \<times> lane" where
  "reconcile_lane_intent env cfg it w =
     (let iid = xi_intent_id it
      in case retry_canonical_fills env iid w of
           (False, w1) \<Rightarrow> (None, note_incomplete iid w1)
         | (True, w1) \<Rightarrow>
        (case reconcile_fill_coverage iid (lane_store w1) of
           Inl _ \<Rightarrow> (None, note_incomplete iid w1)
         | Inr _ \<Rightarrow>
        (case remote_of_intent cfg it (ln_dedupe w1) of
           Inl e \<Rightarrow> (Some e, w1)
         | Inr None \<Rightarrow> (None, w1)
         | Inr (Some remote) \<Rightarrow>
        (case client_of_intent cfg it (ln_dedupe w1) of
           Inl e \<Rightarrow> (Some e, w1)
         | Inr cid \<Rightarrow>
             (case lv_order env (ln_tick w1) (xi_symbol it) remote of
                None \<Rightarrow> (None, tick w1)
              | Some ord \<Rightarrow> process_order env cfg it remote cid (existing_trade_ids iid (lane_store w1)) ord (tick w1))))))"

section \<open>One pass\<close>

definition list_intents_any :: "string \<Rightarrow> string \<Rightarrow> string \<Rightarrow> string list \<Rightarrow> nat \<Rightarrow> exec_store \<Rightarrow> exec_intent list" where
  "list_intents_any mode exchange symbol statuses limit s =
     (let out = concat (map (\<lambda>st. store_list_intents mode exchange symbol st (int limit) s) statuses)
      in take limit (rev (sort_key xi_ts_ms (rev out))))"

fun reconcile_intents_loop :: "lane_env \<Rightarrow> lane_cfg \<Rightarrow> exec_intent list \<Rightarrow> lane \<Rightarrow> exn option \<times> lane" where
  "reconcile_intents_loop env cfg [] w = (None, w)"
| "reconcile_intents_loop env cfg (it # its) w =
     (if lc_reconcile_limit cfg \<le> int (rp_checked (ln_report w)) then (None, w)
      else case reconcile_lane_intent env cfg it
                  (w\<lparr>ln_report := (ln_report w)\<lparr>rp_checked := Suc (rp_checked (ln_report w))\<rparr>\<rparr>) of
             (Some e, w1) \<Rightarrow> (Some e, w1)
           | (None, w1) \<Rightarrow> reconcile_intents_loop env cfg its w1)"

text \<open>The pass after the hard-off guard said yes; the answer is \<open>ok\<close> exactly when no intent is incomplete.\<close>

definition reconcile_live :: "lane_env \<Rightarrow> lane_cfg \<Rightarrow> lane \<Rightarrow> (exn + bool) \<times> lane" where
  "reconcile_live env cfg w =
     (let its = list_intents_any ''live'' (lc_exchange_id cfg) (lc_symbol cfg) [''submitted'', ''pending'', ''partially_filled'']
                  200 (lane_store w);
          w0 = w\<lparr>ln_report := \<lparr>rp_checked = 0, rp_fills_added = 0, rp_trade_fills_added = 0, rp_incomplete = []\<rparr>\<rparr>
      in case reconcile_intents_loop env cfg its w0 of
           (Some e, w1) \<Rightarrow> (Inl e, w1)
         | (None, w1) \<Rightarrow> (Inr (rp_incomplete (ln_report w1) = []), w1))"

lemma lane_simps [simp]:
  "lane_store (tick w) = lane_store w" "lane_store (set_store s w) = s" "lane_store (note_incomplete i w) = lane_store w"
  "lane_store (note_fill b w) = lane_store w" "lane_store (w\<lparr>ln_dedupe := d\<rparr>) = lane_store w"
  "lane_store (w\<lparr>ln_report := r\<rparr>) = lane_store w" "lane_store (w\<lparr>ln_db := db\<rparr>) = ac_store db"
  by (simp_all add: lane_store_def tick_def set_store_def note_incomplete_def note_fill_def)

section \<open>The outbox invariant\<close>

definition delivery_ok :: "journal_table \<Rightarrow> delivery \<Rightarrow> bool" where
  "delivery_ok j d \<longleftrightarrow> names_fill (dv_venue d) (dv_fill_id d) (dv_payload d) \<and>
     (dv_completed d \<longrightarrow> journalled (delivery_key d) j)"

definition lane_inv :: "exec_store \<Rightarrow> exec_store \<Rightarrow> bool" where
  "lane_inv s0 s \<longleftrightarrow> journal_start s0 \<and> loss_reach s0 s \<and>
     (\<forall>d \<in> set (es_deliveries s). delivery_ok (es_journal s) d)"

lemma lane_inv_frame:
  assumes "lane_inv s0 s" "loss_view s' = loss_view s" "es_deliveries s' = es_deliveries s"
  shows "lane_inv s0 s'"
  using assms loss_reach.step[of s0 s s'] loss_step.frame[of s' s]
  by (auto simp: lane_inv_def loss_view_def)

lemma complete_inv:
  assumes inv: "lane_inv s0 s" and j: "journalled (v, f) (es_journal s)"
    and c: "complete_reconcile_fill v f s = Inr s'"
  shows "lane_inv s0 s'"
proof -
  have s': "es_deliveries s' = upd_where (\<lambda>d. delivery_key d = (v, f)) (\<lambda>d. d\<lparr>dv_completed := True\<rparr>) (es_deliveries s)"
    and e: "es_journal s' = es_journal s"
    using c by (auto simp: complete_reconcile_fill_def Let_def split: if_splits)
  have "loss_reach s0 s'"
    using inv loss_reach.step[OF _ loss_step.frame[OF other_methods_view(4)[OF c]]] by (simp add: lane_inv_def)
  moreover have "delivery_ok (es_journal s') d" if "d \<in> set (es_deliveries s')" for d
    using that inv j by (auto simp: s' e upd_where_def lane_inv_def delivery_ok_def delivery_key_def)
  ultimately show ?thesis using inv by (simp add: lane_inv_def)
qed

lemma deliver_all_inv:
  assumes "lane_inv s0 (lane_store w)" "\<forall>d \<in> set fills. \<exists>v f. names_fill v f d"
    and "deliver_all env fills w = (ok, w')"
  shows "lane_inv s0 (lane_store w') \<and> es_intents (lane_store w') = es_intents (lane_store w) \<and>
    es_fills (lane_store w') = es_fills (lane_store w) \<and> ln_dedupe w' = ln_dedupe w"
  using assms
proof (induction fills arbitrary: w)
  case (Cons fill fills)
  obtain a db' where x: "executor_on_fill (lv_sink env (ln_tick w)) fill (ln_db w) = (a, db')" by fastforce
  let ?w1 = "tick (w\<lparr>ln_db := db'\<rparr>)"
  have em: "emit_canonical_fill env fill w = (a = SinkOk, ?w1)" by (simp add: emit_canonical_fill_def x)
  have start: "journal_start s0" "loss_reach s0 (ac_store (ln_db w))"
    using Cons.prems(1) by (simp_all add: lane_inv_def lane_store_def)
  note eff = executor_on_fill_effect[OF start x]
  have st: "lane_store ?w1 = ac_store db'" by simp
  have box: "outbox (ac_store db') = outbox (lane_store w)" using eff(2) by (simp add: lane_store_def)
  have ok1: "delivery_ok (es_journal (ac_store db')) d" if "d \<in> set (es_deliveries (ac_store db'))" for d
    using that Cons.prems(1) eff(3) box by (auto simp: lane_inv_def delivery_ok_def outbox_def lane_store_def)
  have inv1: "lane_inv s0 (lane_store ?w1)" using eff(1) start(1) ok1 by (simp add: lane_inv_def st)
  have keep: "es_intents (lane_store ?w1) = es_intents (lane_store w)" "es_fills (lane_store ?w1) = es_fills (lane_store w)"
    "ln_dedupe ?w1 = ln_dedupe w"
    using box unfolding st by (simp_all add: outbox_def tick_def)
  show ?case
  proof (cases "a = SinkOk \<and> map_of fill ''venue'' \<noteq> None \<and> map_of fill ''fill_id'' \<noteq> None")
    case False
    then have "w' = ?w1" using Cons.prems(3) by (auto simp: em split: if_splits)
    then show ?thesis using inv1 keep by simp
  next
    case True
    obtain v f where vf: "names_fill v f fill" using Cons.prems(2) by auto
    have j: "journalled (v, f) (es_journal (lane_store ?w1))"
      using eff(4) names_fill_key[OF vf] True st by auto
    have get: "json_str (jget ''venue'' fill) = v" "json_str (jget ''fill_id'' fill) = f" using vf by (simp_all add: names_fill_def)
    show ?thesis
    proof (cases "complete_reconcile_fill v f (lane_store ?w1)")
      case (Inl e)
      then have "w' = ?w1" using Cons.prems(3) True by (simp add: em get)
      then show ?thesis using inv1 keep by simp
    next
      case (Inr s)
      let ?w2 = "set_store s ?w1"
      have s2: "lane_store ?w2 = s" "ln_dedupe ?w2 = ln_dedupe ?w1" by (simp_all add: set_store_def)
      have fr: "es_intents s = es_intents (lane_store ?w1)" "es_fills s = es_fills (lane_store ?w1)"
        using Inr by (auto simp: complete_reconcile_fill_def Let_def split: if_splits)
      have d: "deliver_all env fills ?w2 = (ok, w')" using Cons.prems(3) True Inr by (simp add: em get)
      have "lane_inv s0 (lane_store ?w2)" using complete_inv[OF inv1 j Inr] by (simp add: s2)
      from Cons.IH[OF this _ d] Cons.prems(2) show ?thesis using keep fr s2 by simp
    qed
  qed
qed simp

lemma retry_inv:
  assumes inv: "lane_inv s0 (lane_store w)" and r: "retry_canonical_fills env iid w = (ok, w')"
  shows "lane_inv s0 (lane_store w') \<and> es_intents (lane_store w') = es_intents (lane_store w)"
proof -
  have "\<forall>d \<in> set (pending_reconcile_fills iid (lane_store w)). \<exists>v f. names_fill v f d"
    using inv by (auto simp: pending_reconcile_fills_def lane_inv_def delivery_ok_def)
  from deliver_all_inv[OF inv this] r show ?thesis by (simp add: retry_canonical_fills_def)
qed

lemma add_fill_inv:
  assumes inv: "lane_inv s0 s" and ok: "add_fill a s = Inr s'"
    and rep: "fa_canonical_fill a = Some d" "distinct (map fst d)" "jget ''venue'' d = JStr v" "jget ''fill_id'' d = JStr f"
  shows "lane_inv s0 s' \<and> es_intents s' = es_intents s"
proof -
  let ?tid = "trade_id_from_meta (fa_meta a)"
  obtain p s1 where p: "canonical_payload ?tid (Some d) = Inr (Some p)"
    and pd: "put_delivery (fa_intent_id a) v (the ?tid) p s = Inr s1" and s': "s' = put_fill ?tid a s1"
    using ok unfolding add_fill_def rep(1) Let_def
    by (auto simp: rep(3) canonical_payload_def map_sum_def split: sum.splits if_splits option.splits)
  have dp: "dumps_dict d = Inr p" and tid: "the ?tid = f" "f \<noteq> ''''" and v: "v \<noteq> ''''"
    using p rep(3,4) by (auto simp: canonical_payload_def jor_def truthy_def map_sum_def split: if_splits sum.splits)
  have n: "names_fill v f p"
    using jget_dumps[OF dp rep(2)] rep(3,4) tid v by (simp add: names_fill_def)
  have fr: "es_intents s1 = es_intents s" "es_journal s1 = es_journal s"
    using pd by (auto simp: put_delivery_def split: option.splits if_splits)
  have dl: "es_deliveries s' = es_deliveries s1" "es_intents s' = es_intents s1" "es_journal s' = es_journal s1"
    by (simp_all add: s' put_fill_def)
  have new: "delivery_ok (es_journal s') x" if x: "x \<in> set (es_deliveries s')" for x
  proof -
    have "x \<in> set (es_deliveries s) \<or> x = \<lparr>dv_intent_id = fa_intent_id a, dv_venue = v, dv_fill_id = f, dv_payload = p, dv_completed = False\<rparr>"
      using pd x tid(1) by (auto simp: put_delivery_def dl split: option.splits if_splits)
    then show ?thesis using inv n by (auto simp: lane_inv_def delivery_ok_def dl fr)
  qed
  have "loss_reach s0 s'"
    using inv loss_reach.step[OF _ loss_step.frame[OF other_methods_view(3)[OF ok]]] by (simp add: lane_inv_def)
  then show ?thesis using inv new dl fr by (simp add: lane_inv_def)
qed

lemma sink_report_names:
  assumes "fst raw = ''raw_trade'' \<or> fst raw = ''raw_order''"
  shows "distinct (map fst (sink_report cfg it remote cid fid side qty px ts fee raw pnl))"
    "jget ''venue'' (sink_report cfg it remote cid fid side qty px ts fee raw pnl) = JStr (lc_exchange_id cfg)"
    "jget ''fill_id'' (sink_report cfg it remote cid fid side qty px ts fee raw pnl) = JStr fid"
  using assms by (auto simp: sink_report_def with_pnl_def jget_def split: option.splits)

lemma persist_inv:
  assumes inv: "lane_inv s0 (lane_store w)" and p: "persist_reconcile_fill a w = (ok, w')"
    and rep: "fa_canonical_fill a = Some (sink_report cfg it remote cid fid side qty px ts fee raw pnl)"
      "fst raw = ''raw_trade'' \<or> fst raw = ''raw_order''"
  shows "lane_inv s0 (lane_store w') \<and> es_intents (lane_store w') = es_intents (lane_store w)"
proof (cases "add_fill a (lane_store w)")
  case (Inl e)
  then show ?thesis using p inv by (simp add: persist_reconcile_fill_def)
next
  case (Inr s)
  then have "w' = set_store s w" using p by (simp add: persist_reconcile_fill_def)
  then show ?thesis using add_fill_inv[OF inv Inr rep(1) sink_report_names[OF rep(2)]] by simp
qed

lemma trade_fill_report:
  assumes "trade_fill cfg it remote cid status filled now tr qty px = Inr a"
  shows "\<exists>fid side ts fee pnl. fa_canonical_fill a =
    Some (sink_report cfg it remote cid fid side qty px ts fee (''raw_trade'', JObj tr) pnl)"
  using assms unfolding trade_fill_def Let_def by (auto split: sum.splits) (intro exI, rule refl)

lemma closed_fill_report:
  assumes "closed_fill cfg it remote cid status filled now ord avg fee = Inr a"
  shows "\<exists>fid side ts c pnl. fa_canonical_fill a =
    Some (sink_report cfg it remote cid fid side filled avg ts c (''raw_order'', JObj ord) pnl)"
  using assms unfolding closed_fill_def Let_def by (auto split: sum.splits) (intro exI, rule refl)

lemma reconcile_trades_inv:
  assumes "lane_inv s0 (lane_store w)"
    and "reconcile_trades env cfg it remote cid status filled trs known tot w = (res, w')"
  shows "lane_inv s0 (lane_store w') \<and> es_intents (lane_store w') = es_intents (lane_store w)"
  using assms
proof (induction trs arbitrary: known tot w)
  case (Cons tr trs)
  show ?case
  proof (cases "trade_matches_intent (Some remote) cid tr")
    case False
    then show ?thesis using Cons by simp
  next
    case m: True
    show ?thesis
    proof (cases "trade_qty tr")
      case (Inl e)
      then show ?thesis using Cons.prems m by simp
    next
      case q: (Inr qty)
      show ?thesis
      proof (cases "trade_price tr")
        case (Inl e)
        then show ?thesis using Cons.prems m q by simp
      next
        case p: (Inr px)
        show ?thesis
        proof (cases "\<not> usable_pair qty px \<or> trade_id tr = '''' \<or> trade_id tr \<in> known")
          case True
          then show ?thesis using Cons m q p by (auto split: if_splits)
        next
          case u: False
          show ?thesis
          proof (cases "trade_fill cfg it remote cid status filled (lv_now_ms env (ln_tick w)) tr qty px")
            case (Inl e)
            then show ?thesis using Cons.prems m q p u by auto
          next
            case (Inr a)
            obtain ok w1 where pr: "persist_reconcile_fill a (tick w) = (ok, w1)" by fastforce
            obtain fid side ts fee pnl where rep: "fa_canonical_fill a =
                Some (sink_report cfg it remote cid fid side qty px ts fee (''raw_trade'', JObj tr) pnl)"
              using trade_fill_report[OF Inr] by blast
            have 1: "lane_inv s0 (lane_store w1) \<and> es_intents (lane_store w1) = es_intents (lane_store w)"
              using persist_inv[OF _ pr rep] Cons.prems(1) by simp
            show ?thesis
            proof (cases ok)
              case False
              then show ?thesis using Cons.prems(2) m q p u Inr pr 1 by simp
            next
              case True
              then have "reconcile_trades env cfg it remote cid status filled trs (insert (trade_id tr) known)
                  (fadd tot qty) (note_fill True w1) = (res, w')"
                using Cons.prems(2) m q p u Inr pr by simp
              from Cons.IH[OF _ this] 1 show ?thesis by simp
            qed
          qed
        qed
      qed
    qed
  qed
qed simp

section \<open>Final statuses\<close>

definition exec_status :: "string \<Rightarrow> exec_store \<Rightarrow> string option" where
  "exec_status iid s = map_option xi_status (select_key xi_intent_id iid (es_intents s))"

text \<open>Every recorded fill of the intent has been delivered and is in the canonical journal, and the recorded
  quantity is the reported one up to the tolerance.\<close>

definition intent_settled :: "string \<Rightarrow> pyfloat \<Rightarrow> exec_store \<Rightarrow> bool" where
  "intent_settled iid filled s \<longleftrightarrow>
     isclose rel_tol abs_tol (recorded_qty iid s) filled \<and>
     (\<forall>r \<in> set (intent_fills iid s). \<exists>d \<in> set (es_deliveries s).
        dv_intent_id d = iid \<and> xf_trade_id r = Some (dv_fill_id d) \<and> dv_completed d \<and>
        journalled (delivery_key d) (es_journal s))"

lemma accounting_settled:
  assumes inv: "lane_inv s0 s" and ac: "accounting_complete iid filled s"
  shows "intent_settled iid filled s"
proof -
  obtain q where q: "reconcile_fill_coverage iid s = Inr (q, True)" and cl: "isclose rel_tol abs_tol q filled"
    using ac by (auto simp: accounting_complete_def split: sum.splits)
  have c: "q = recorded_qty iid s" "\<forall>r \<in> set (intent_fills iid s). joined_completed s r"
    using coverage_complete[OF q] by auto
  have "\<exists>d \<in> set (es_deliveries s). dv_intent_id d = iid \<and> xf_trade_id r = Some (dv_fill_id d) \<and> dv_completed d \<and>
      journalled (delivery_key d) (es_journal s)" if r: "r \<in> set (intent_fills iid s)" for r
  proof -
    obtain d where d: "List.find (\<lambda>d. dv_intent_id d = xf_intent_id r \<and> Some (dv_fill_id d) = xf_trade_id r) (es_deliveries s) = Some d"
      "dv_completed d"
      using c(2) r by (auto simp: joined_completed_def split: option.splits)
    have m: "d \<in> set (es_deliveries s)" "dv_intent_id d = xf_intent_id r" "Some (dv_fill_id d) = xf_trade_id r"
      using d(1) by (auto simp: find_Some_iff)
    then show ?thesis using d(2) inv r by (auto simp: lane_inv_def delivery_ok_def intent_fills_def)
  qed
  then show ?thesis using cl c(1) by (simp add: intent_settled_def)
qed

lemma set_status_effect:
  assumes "exec_status i (snd (set_intent_status iid st why s)) \<noteq> exec_status i s"
  shows "i = iid \<and> exec_status i (snd (set_intent_status iid st why s)) = Some (normalize_execution_store_status (Some st))"
proof -
  let ?n = "normalize_execution_store_status (Some st)"
  have e: "exec_status i (snd (set_intent_status iid st why s)) =
      map_option (\<lambda>r. if status_write_ok iid ?n r then ?n else xi_status r) (select_key xi_intent_id i (es_intents s))"
    by (cases "select_key xi_intent_id i (es_intents s)")
      (auto simp: exec_status_def set_intent_status_def Let_def select_key_upd_where status_write_ok_def)
  then obtain r where r: "select_key xi_intent_id i (es_intents s) = Some r" "status_write_ok iid ?n r"
    using assms by (cases "select_key xi_intent_id i (es_intents s)") (auto simp: exec_status_def split: if_splits)
  then show ?thesis using e select_key_Some_mem[OF r(1)] by (auto simp: status_write_ok_def)
qed

lemma set_status_inv:
  assumes "lane_inv s0 s"
  shows "lane_inv s0 (snd (set_intent_status iid st why s))"
  using lane_inv_frame[OF assms other_methods_view(1)] by (simp add: set_intent_status_def Let_def)

lemma set_status_settled [simp]:
  "intent_settled i q (snd (set_intent_status iid st why s)) = intent_settled i q s"
  by (simp add: intent_settled_def set_intent_status_def Let_def recorded_qty_def intent_fills_def)

text \<open>What the exchange reported for the intent during the pass.\<close>

definition reported :: "lane_env \<Rightarrow> exec_intent \<Rightarrow> pyfloat \<Rightarrow> bool" where
  "reported env it filled \<longleftrightarrow>
     (\<exists>n remote ord. lv_order env n (xi_symbol it) remote = Some ord \<and> reported_filled ord = Some filled)"

definition step_sound :: "lane_env \<Rightarrow> exec_intent \<Rightarrow> exec_store \<Rightarrow> exec_store \<Rightarrow> bool" where
  "step_sound env it s s' \<longleftrightarrow>
     (\<forall>i. exec_status i s' \<noteq> exec_status i s \<longrightarrow>
        i = xi_intent_id it \<and>
        (exec_status i s' = Some ''partially_filled'' \<or>
         (\<exists>filled. reported env it filled \<and> intent_settled i filled s')))"

lemma step_sound_same: "es_intents s' = es_intents s \<Longrightarrow> step_sound env it s s'"
  by (simp add: step_sound_def exec_status_def)

lemma step_sound_cong: "es_intents s1 = es_intents s \<Longrightarrow> step_sound env it s1 s2 \<Longrightarrow> step_sound env it s s2"
  by (simp add: step_sound_def exec_status_def)

lemma finish_sound:
  assumes inv: "lane_inv s0 (lane_store w)" and rep: "reported env it filled"
  shows "lane_inv s0 (lane_store (finish_intent env cfg (xi_intent_id it) filled final why status w)) \<and>
    step_sound env it (lane_store w) (lane_store (finish_intent env cfg (xi_intent_id it) filled final why status w))"
proof -
  let ?i = "xi_intent_id it"
  obtain ok w1 where r: "retry_canonical_fills env ?i w = (ok, w1)" by fastforce
  have i1: "lane_inv s0 (lane_store w1)" "es_intents (lane_store w1) = es_intents (lane_store w)"
    using retry_inv[OF inv r] by simp_all
  show ?thesis
  proof (cases "ok \<and> accounting_complete ?i filled (lane_store w1)")
    case False
    then have "finish_intent env cfg ?i filled final why status w = note_incomplete ?i w1"
      using r by (auto simp: finish_intent_def reconcile_accounting_ready_def)
    then show ?thesis using i1 by (simp add: step_sound_same)
  next
    case True
    let ?s = "snd (set_intent_status ?i final (Some why) (lane_store w1))"
    have st: "lane_store (finish_intent env cfg ?i filled final why status w) = ?s"
      using True r by (simp add: finish_intent_def reconcile_accounting_ready_def Let_def)
    have settled: "intent_settled ?i filled ?s" using accounting_settled[OF i1(1)] True by simp
    have "step_sound env it (lane_store w1) ?s"
      unfolding step_sound_def using set_status_effect rep settled by blast
    then show ?thesis using st set_status_inv[OF i1(1)] step_sound_cong[OF i1(2)] by simp
  qed
qed

lemma close_filled_sound:
  assumes inv: "lane_inv s0 (lane_store w)" and rep: "reported env it filled"
    and c: "close_filled env cfg it remote cid status filled ord fee tot w = (e, w')"
  shows "lane_inv s0 (lane_store w') \<and> step_sound env it (lane_store w) (lane_store w')"
proof -
  let ?i = "xi_intent_id it" and ?avg = "order_average ord"
  have same: ?thesis if "w' = w \<or> w' = tick w \<or> w' = note_incomplete ?i w"
    using that inv by (auto simp: step_sound_same)
  show ?thesis
  proof (cases "reconcile_fill_coverage ?i (lane_store w)")
    case (Inl x)
    then show ?thesis using c same by (simp add: close_filled_def)
  next
    case (Inr qc)
    obtain q b where qc: "qc = (q, b)" by (cases qc)
    show ?thesis
    proof (cases "fle tot (Fin 0) \<and> q = Fin 0")
      case False
      then have "w' = finish_intent env cfg ?i filled ''filled'' (''remote_id='' @ remote) status w"
        using c Inr qc by (auto simp: close_filled_def Let_def)
      then show ?thesis using finish_sound[OF inv rep] by simp
    next
      case empty: True
      show ?thesis
      proof (cases "\<not> isfinite ?avg \<or> fle ?avg (Fin 0)")
        case True
        then show ?thesis using c Inr qc empty same by (auto simp: close_filled_def Let_def)
      next
        case avg: False
        show ?thesis
        proof (cases "closed_fill cfg it remote cid status filled (lv_now_ms env (ln_tick w)) ord ?avg fee")
          case (Inl x)
          then show ?thesis using c Inr qc empty avg same by (auto simp: close_filled_def Let_def)
        next
          case a: (Inr a)
          obtain ok w1 where p: "persist_reconcile_fill a (tick w) = (ok, w1)" by fastforce
          obtain fid side ts fe pnl where rp: "fa_canonical_fill a =
              Some (sink_report cfg it remote cid fid side filled ?avg ts fe (''raw_order'', JObj ord) pnl)"
            using closed_fill_report[OF a] by blast
          have 1: "lane_inv s0 (lane_store w1)" "es_intents (lane_store w1) = es_intents (lane_store w)"
            using persist_inv[OF _ p rp] inv by simp_all
          show ?thesis
          proof (cases ok)
            case False
            then have "w' = note_incomplete ?i w1" using c Inr qc empty avg a p by (auto simp: close_filled_def Let_def)
            then show ?thesis using 1 by (simp add: step_sound_same)
          next
            case True
            then have "w' = finish_intent env cfg ?i filled ''filled'' (''remote_id='' @ remote) status (note_fill False w1)"
              using c Inr qc empty avg a p by (auto simp: close_filled_def Let_def)
            then show ?thesis
              using finish_sound[OF _ rep, of s0 "note_fill False w1"] 1 step_sound_cong[OF 1(2)] by simp
          qed
        qed
      qed
    qed
  qed
qed

lemma settle_sound:
  assumes inv: "lane_inv s0 (lane_store w)" and rep: "reported env it filled"
    and c: "settle_intent env cfg it remote cid status filled ord fee tot w = (e, w')"
  shows "lane_inv s0 (lane_store w') \<and> step_sound env it (lane_store w) (lane_store w')"
proof -
  obtain ok w1 where r: "retry_canonical_fills env (xi_intent_id it) w = (ok, w1)" by fastforce
  consider (closed) "close_filled env cfg it remote cid status filled ord fee tot w = (e, w')"
    | (final) why where "w' = finish_intent env cfg (xi_intent_id it) filled ''canceled'' why status w"
    | (other) "w' = w1 \<or> w' = note_incomplete (xi_intent_id it) w1"
    using c r unfolding settle_intent_def Let_def by (auto split: if_splits bool.splits)
  then show ?thesis
  proof cases
    case closed
    then show ?thesis using close_filled_sound[OF inv rep] by blast
  next
    case final
    then show ?thesis using finish_sound[OF inv rep] by simp
  next
    case other
    then show ?thesis using retry_inv[OF inv r] by (auto simp: step_sound_same)
  qed
qed

lemma partial_write_sound:
  assumes inv: "lane_inv s0 (lane_store w)"
  shows "lane_inv s0 (lane_store (partial_status_write (xi_intent_id it) remote status filled qty w)) \<and>
    (\<forall>i. exec_status i (lane_store (partial_status_write (xi_intent_id it) remote status filled qty w)) \<noteq> exec_status i (lane_store w) \<longrightarrow>
       i = xi_intent_id it \<and>
       exec_status i (lane_store (partial_status_write (xi_intent_id it) remote status filled qty w)) = Some ''partially_filled'')"
proof -
  have n: "normalize_execution_store_status (Some ''partially_filled'') = ''partially_filled''" by code_simp
  show ?thesis using inv set_status_inv[OF inv] set_status_effect[of _ "xi_intent_id it" "''partially_filled''" _ "lane_store w"]
    by (auto simp: partial_status_write_def n)
qed

lemma step_sound_after_partial:
  assumes "\<forall>i. exec_status i s1 \<noteq> exec_status i s \<longrightarrow> i = xi_intent_id it \<and> exec_status i s1 = Some ''partially_filled''"
    and "step_sound env it s1 s2"
  shows "step_sound env it s s2"
  unfolding step_sound_def
proof (intro allI impI)
  fix i assume d: "exec_status i s2 \<noteq> exec_status i s"
  show "i = xi_intent_id it \<and> (exec_status i s2 = Some ''partially_filled'' \<or>
      (\<exists>filled. reported env it filled \<and> intent_settled i filled s2))"
  proof (cases "exec_status i s2 = exec_status i s1")
    case True
    then show ?thesis using d assms(1) by simp
  next
    case False
    then show ?thesis using assms(2) by (simp add: step_sound_def)
  qed
qed

lemma process_order_sound:
  assumes inv: "lane_inv s0 (lane_store w)" and ord: "lv_order env n (xi_symbol it) remote = Some ord"
    and c: "process_order env cfg it remote cid known ord w = (e, w')"
  shows "lane_inv s0 (lane_store w') \<and> step_sound env it (lane_store w) (lane_store w')"
proof (cases "reported_filled ord")
  case None
  then show ?thesis using c inv by (auto simp: process_order_def step_sound_same)
next
  case (Some filled)
  let ?st = "lower (json_str (jor (jget ''status'' ord) (JStr '''')))"
  let ?w1 = "partial_status_write (xi_intent_id it) remote ?st filled (xi_qty it) w"
  have rep: "reported env it filled" using ord Some unfolding reported_def by blast
  have i1: "lane_inv s0 (lane_store ?w1)" using partial_write_sound[OF inv] by blast
  note chain = step_sound_after_partial[OF partial_write_sound[OF inv, THEN conjunct2]]
  have stop: ?thesis if "es_intents (lane_store w') = es_intents (lane_store ?w1)" "lane_inv s0 (lane_store w')"
    using chain[OF step_sound_same[OF that(1)]] that(2) by blast
  have go: ?thesis if s: "settle_intent env cfg it remote cid ?st filled ord fee tot w2 = (e, w')"
    and w2: "lane_inv s0 (lane_store w2)" "es_intents (lane_store w2) = es_intents (lane_store ?w1)" for fee tot w2
    using settle_sound[OF w2(1) rep s] chain[OF step_sound_cong[OF w2(2)]] by blast
  show ?thesis
  proof (cases "order_fee ord")
    case (Inl x)
    then show ?thesis using c Some stop i1 by (auto simp: process_order_def Let_def)
  next
    case fee: (Inr fee)
    show ?thesis
    proof (cases "lc_reconcile_trades cfg")
      case False
      then have "settle_intent env cfg it remote cid ?st filled ord fee (Fin 0) ?w1 = (e, w')"
        using c Some fee by (simp add: process_order_def Let_def)
      then show ?thesis using go i1 by blast
    next
      case tr: True
      let ?trs = "case lv_trades env (ln_tick ?w1) (xi_symbol it) of None \<Rightarrow> [] | Some t \<Rightarrow> t"
      obtain res w2 where t: "reconcile_trades env cfg it remote cid ?st filled ?trs known (Fin 0) (tick ?w1) = (res, w2)"
        by fastforce
      have i2: "lane_inv s0 (lane_store w2)" "es_intents (lane_store w2) = es_intents (lane_store ?w1)"
        using reconcile_trades_inv[OF _ t] i1 by simp_all
      consider "w' = w2 \<or> w' = note_incomplete (xi_intent_id it) w2"
        | tot where "settle_intent env cfg it remote cid ?st filled ord fee tot w2 = (e, w')"
        using c Some fee tr t by (auto simp: process_order_def Let_def split: sum.splits bool.splits)
      then show ?thesis
      proof cases
        case 1
        then show ?thesis using stop i2 by auto
      next
        case 2
        then show ?thesis using go i2 by blast
      qed
    qed
  qed
qed

lemma reconcile_lane_intent_sound:
  assumes inv: "lane_inv s0 (lane_store w)" and c: "reconcile_lane_intent env cfg it w = (e, w')"
  shows "lane_inv s0 (lane_store w') \<and> step_sound env it (lane_store w) (lane_store w')"
proof -
  let ?i = "xi_intent_id it"
  obtain ok w1 where r: "retry_canonical_fills env ?i w = (ok, w1)" by fastforce
  have i1: "lane_inv s0 (lane_store w1)" "es_intents (lane_store w1) = es_intents (lane_store w)"
    using retry_inv[OF inv r] by simp_all
  consider "w' = w1 \<or> w' = tick w1 \<or> w' = note_incomplete ?i w1"
    | remote cid ord where "lv_order env (ln_tick w1) (xi_symbol it) remote = Some ord"
      "process_order env cfg it remote cid (existing_trade_ids ?i (lane_store w1)) ord (tick w1) = (e, w')"
    using c r unfolding reconcile_lane_intent_def Let_def
    by (auto split: bool.splits sum.splits option.splits)
  then show ?thesis
  proof cases
    case 1
    then show ?thesis using i1 by (auto simp: step_sound_same)
  next
    case 2
    then show ?thesis using process_order_sound[OF _ 2] i1 step_sound_cong[OF i1(2)] by simp
  qed
qed

section \<open>Lanes that occur\<close>

text \<open>From a database without deliveries, by reconcile steps with arbitrary outside answers, by new or rewritten
  intents, by other status writes and by fills that other callers give to the sink.\<close>

inductive lane_reach :: "lane \<Rightarrow> bool" where
  start: "journal_start (lane_store w) \<Longrightarrow> es_deliveries (lane_store w) = [] \<Longrightarrow> lane_reach w"
| intent: "lane_reach w \<Longrightarrow> reconcile_lane_intent env cfg it w = (e, w') \<Longrightarrow> lane_reach w'"
| upsert: "lane_reach w \<Longrightarrow> store_upsert_intent now i (lane_store w) = Inr s \<Longrightarrow> lane_reach (set_store s w)"
| status: "lane_reach w \<Longrightarrow> lane_reach (set_store (snd (set_intent_status iid st why (lane_store w))) w)"
| fill: "lane_reach w \<Longrightarrow> executor_on_fill env fill (ln_db w) = (a, db) \<Longrightarrow> lane_reach (w\<lparr>ln_db := db\<rparr>)"
| report: "lane_reach w \<Longrightarrow> lane_reach (w\<lparr>ln_report := r\<rparr>)"

lemma lane_reach_inv: "lane_reach w \<Longrightarrow> \<exists>s0. lane_inv s0 (lane_store w)"
proof (induction rule: lane_reach.induct)
  case (start w)
  then have "lane_inv (lane_store w) (lane_store w)" by (simp add: lane_inv_def loss_reach.start)
  then show ?case by blast
next
  case (intent w env cfg it e w')
  then show ?case using reconcile_lane_intent_sound by blast
next
  case (upsert w now i s)
  then obtain s0 where inv: "lane_inv s0 (lane_store w)" by blast
  have "es_deliveries s = es_deliveries (lane_store w)"
    using upsert.hyps(2) by (auto simp: store_upsert_intent_def Let_def split: if_splits)
  then show ?case using lane_inv_frame[OF inv other_methods_view(2)[OF upsert.hyps(2)]] by auto
next
  case (status w iid st why)
  then show ?case using set_status_inv by (metis lane_simps(2))
next
  case (fill w env fill a db)
  then obtain s0 where inv: "lane_inv s0 (ac_store (ln_db w))" by (auto simp: lane_store_def)
  then have start: "journal_start s0" "loss_reach s0 (ac_store (ln_db w))" by (simp_all add: lane_inv_def)
  note eff = executor_on_fill_effect[OF start fill.hyps(2)]
  have "delivery_ok (es_journal (ac_store db)) d" if "d \<in> set (es_deliveries (ac_store db))" for d
    using that inv eff(2,3) by (auto simp: lane_inv_def delivery_ok_def outbox_def)
  then have "lane_inv s0 (ac_store db)" using eff(1) start(1) by (simp add: lane_inv_def)
  then show ?case by auto
next
  case (report w r)
  then show ?case by simp
qed

text \<open>A pass of \<open>reconcile_live\<close> is a sequence of such steps.\<close>

lemma reconcile_loop_reach:
  "lane_reach w \<Longrightarrow> reconcile_intents_loop env cfg its w = (e, w') \<Longrightarrow> lane_reach w'"
proof (induction its arbitrary: w)
  case (Cons it its)
  let ?w0 = "w\<lparr>ln_report := (ln_report w)\<lparr>rp_checked := Suc (rp_checked (ln_report w))\<rparr>\<rparr>"
  obtain x w1 where c: "reconcile_lane_intent env cfg it ?w0 = (x, w1)" by fastforce
  have "lane_reach w1" using lane_reach.intent[OF lane_reach.report[OF Cons.prems(1)] c] .
  then show ?case using Cons.prems Cons.IH[of w1] c by (auto split: if_splits option.splits)
qed simp

lemma reconcile_live_reach: "lane_reach w \<Longrightarrow> reconcile_live env cfg w = (res, w') \<Longrightarrow> lane_reach w'"
  by (auto simp: reconcile_live_def Let_def split: prod.splits option.splits
      dest: reconcile_loop_reach[OF lane_reach.report])

section \<open>Properties\<close>

text \<open>C18. The executor lane closes an intent only with complete accounting: whatever the exchange answers and
  whichever database step fails, handling an intent changes the status of no other intent, and when it
  changes this one's to anything but \<open>partially_filled\<close>, every fill recorded for it has been delivered to the
  fill sink and is in the canonical journal, and the recorded quantity agrees with the filled quantity
  the exchange reported in this pass.\<close>

theorem executor_final_status_settled:
  assumes "lane_reach w" "reconcile_lane_intent env cfg it w = (e, w')"
    and "exec_status i (lane_store w') \<noteq> exec_status i (lane_store w)"
    and "exec_status i (lane_store w') \<noteq> Some ''partially_filled''"
  shows "i = xi_intent_id it \<and> (\<exists>filled. reported env it filled \<and> intent_settled i filled (lane_store w'))"
proof -
  obtain s0 where "lane_inv s0 (lane_store w)" using lane_reach_inv[OF assms(1)] by blast
  then have "step_sound env it (lane_store w) (lane_store w')" using reconcile_lane_intent_sound[OF _ assms(2)] by blast
  then show ?thesis using assms(3,4) unfolding step_sound_def by blast
qed

definition lane_sample_intent :: exec_intent where
  "lane_sample_intent = \<lparr>xi_intent_id = ''i1'', xi_ts_ms = 1, xi_mode = ''live'', xi_exchange = ''kraken'',
     xi_symbol = ''ETH/USD'', xi_side = ''buy'', xi_order_type = ''market'', xi_qty = Fin 1, xi_limit_price = None,
     xi_status = ''submitted'', xi_reason = Some ''remote_id=R1'', xi_meta = []\<rparr>"

definition lane_sample :: lane where
  "lane_sample = \<lparr>ln_db = empty_account\<lparr>ac_store := empty_exec_store\<lparr>es_intents := [lane_sample_intent]\<rparr>\<rparr>,
     ln_dedupe = empty_dedupe, ln_tick = 0,
     ln_report = \<lparr>rp_checked = 0, rp_fills_added = 0, rp_trade_fills_added = 0, rp_incomplete = []\<rparr>\<rparr>"

definition lane_sample_cfg :: lane_cfg where
  "lane_sample_cfg = \<lparr>lc_exchange_id = ''kraken'', lc_symbol = ''ETH/USD'', lc_reconcile_limit = 25, lc_reconcile_trades = False\<rparr>"

definition lane_sample_env :: lane_env where
  "lane_sample_env = \<lparr>lv_sink = (\<lambda>_. sink_sample_env), lv_now_ms = (\<lambda>_. 9),
     lv_order = (\<lambda>_ _ _. Some [(''status'', JStr ''canceled''), (''filled'', JInt 0)]), lv_trades = (\<lambda>_ _. None)\<rparr>"

theorem executor_final_status_settled_witness:
  "\<exists>w. reconcile_lane_intent lane_sample_env lane_sample_cfg lane_sample_intent lane_sample = (None, w) \<and>
     exec_status ''i1'' (lane_store w) = Some ''canceled'' \<and>
     (\<exists>filled. reported lane_sample_env lane_sample_intent filled \<and> intent_settled ''i1'' filled (lane_store w))"
proof -
  have st: "lane_store lane_sample = empty_exec_store\<lparr>es_intents := [lane_sample_intent]\<rparr>"
    by (simp add: lane_store_def lane_sample_def)
  have reach: "lane_reach lane_sample"
    by (rule lane_reach.start) (simp_all add: st journal_start_def empty_exec_store_def)
  have rem: "remote_id_from_reason ''remote_id=R1'' = Inr (Some ''R1'')" by code_simp
  have cli: "client_id_from_reason ''remote_id=R1'' = Inr None" by code_simp
  have words: "lower ''canceled'' = ''canceled''" "normalize_execution_store_status (Some ''canceled'') = ''canceled''"
    "sql_lower (sql_trim ''submitted'') \<in> set (allowed_from ''canceled'')" by code_simp+
  have retry: "retry_canonical_fills lane_sample_env ''i1'' v = (True, v)"
    if "es_deliveries (lane_store v) = []" for v
    using that by (simp add: retry_canonical_fills_def pending_reconcile_fills_def)
  have fills: "es_deliveries (lane_store lane_sample) = []" "es_fills (lane_store lane_sample) = []"
    by (simp_all add: st empty_exec_store_def)
  have cov: "reconcile_fill_coverage ''i1'' (lane_store lane_sample) = Inr (Fin 0, True)"
    by (simp add: reconcile_fill_coverage_def fills)
  have ready: "reconcile_accounting_ready lane_sample_env ''i1'' (Fin 0) (tick lane_sample) = (True, tick lane_sample)"
    by (simp add: reconcile_accounting_ready_def retry fills accounting_complete_def cov isclose_def)
  have it: "xi_intent_id lane_sample_intent = ''i1''" "xi_reason lane_sample_intent = Some ''remote_id=R1''"
    "xi_status lane_sample_intent = ''submitted''" by (simp_all add: lane_sample_intent_def)
  have cfg: "lc_reconcile_trades lane_sample_cfg = False" by (simp add: lane_sample_cfg_def)
  let ?ord = "[(''status'', JStr ''canceled''), (''filled'', JInt 0)]"
  have ord: "lv_order lane_sample_env n y r = Some ?ord" for n y r by (simp add: lane_sample_env_def)
  have dd: "ln_dedupe lane_sample = empty_dedupe" by (simp add: lane_sample_def)
  have po: "\<exists>w. process_order lane_sample_env lane_sample_cfg lane_sample_intent ''R1'' None known ?ord (tick lane_sample) = (None, w) \<and>
      lane_store w = snd (set_intent_status ''i1'' ''canceled'' (Some ''remote_id=R1:canceled'') (lane_store lane_sample))" for known
    by (simp add: process_order_def it cfg reported_filled_def order_fee_def jget_def jor_def words partial_status_write_def
        settle_intent_def final_statuses_def finish_intent_def ready Let_def)
  have "\<exists>w. reconcile_lane_intent lane_sample_env lane_sample_cfg lane_sample_intent lane_sample = (None, w) \<and>
      lane_store w = snd (set_intent_status ''i1'' ''canceled'' (Some ''remote_id=R1:canceled'') (lane_store lane_sample))"
    using po[of "existing_trade_ids ''i1'' (lane_store lane_sample)"]
    by (simp add: reconcile_lane_intent_def it retry fills cov remote_of_intent_def opt_str_or_def str_or_def rem truthy_def
        client_of_intent_def cli get_by_intent_def dd empty_dedupe_def ord)
  then obtain w where w: "reconcile_lane_intent lane_sample_env lane_sample_cfg lane_sample_intent lane_sample = (None, w)"
    and s: "lane_store w = snd (set_intent_status ''i1'' ''canceled'' (Some ''remote_id=R1:canceled'') (lane_store lane_sample))"
    by blast
  have new: "exec_status ''i1'' (lane_store w) = Some ''canceled''"
    using words by (simp add: s exec_status_def set_intent_status_def st upd_where_def status_write_ok_def Let_def
        select_key_Cons it)
  have old: "exec_status ''i1'' (lane_store lane_sample) = Some ''submitted''"
    by (simp add: exec_status_def st select_key_Cons it)
  from executor_final_status_settled[OF reach w, of "''i1''"] new old w show ?thesis by auto
qed

end
