(* ===== verification/Exchange_Adapter.thy ===== *)
theory Exchange_Adapter
  imports Py_Json
begin

text \<open>
  services/market\_data/symbol\_router.py: the spelling of venues and symbols; and \<open>find_order_by_client_oid\<close> of
  services/execution/live\_exchange\_adapter.py, the lookup that decides what happened to an ambiguous submit. The
  configured symbol map and what the exchange answers (\<open>fetch_open_orders\<close>, \<open>fetch_closed_orders\<close>: a list or an
  exception) are arguments.
\<close>

section \<open>Venues and symbols\<close>

definition venue_aliases :: "(string \<times> string) list" where
  "venue_aliases = [(''gate.io'', ''gateio''), (''gate'', ''gateio''), (''gateio'', ''gateio''),
     (''binance'', ''binance''), (''coinbase'', ''coinbase''), (''coinbasepro'', ''coinbase'')]"

definition normalize_venue :: "string \<Rightarrow> string" where
  "normalize_venue venue =
     (let v = lower (strip venue) in case map_of venue_aliases v of None \<Rightarrow> v | Some a \<Rightarrow> a)"

definition slash :: char where "slash = CHR ''/''"
definition dash :: char where "dash = CHR ''-''"

text \<open>\<open>s.split(c)\<close>\<close>

fun split_on :: "char \<Rightarrow> string \<Rightarrow> string list" where
  "split_on c [] = [[]]"
| "split_on c (x # xs) =
     (if x = c then [] # split_on c xs
      else (case split_on c xs of [] \<Rightarrow> [[x]] | p # ps \<Rightarrow> (x # p) # ps))"

definition normalize_symbol :: "string \<Rightarrow> string" where
  "normalize_symbol symbol =
     (let s0 = strip symbol;
          s = (if dash \<in> set s0 \<and> slash \<notin> set s0 then map (\<lambda>c. if c = dash then slash else c) s0 else s0)
      in case split_on slash s of [a, b] \<Rightarrow> upper a @ [slash] @ upper b | _ \<Rightarrow> upper s)"

text \<open>Putting the two parts in capitals separately is the same as putting the whole in capitals.\<close>

lemma split_on_nonempty: "split_on c s \<noteq> []"
  by (cases s) (auto split: list.splits)

lemma split_on_one: "split_on c s = [a] \<Longrightarrow> s = a"
  by (induction s arbitrary: a) (auto simp: split_on_nonempty split: if_splits list.splits)

lemma split_on_two: "split_on c s = [a, b] \<Longrightarrow> s = a @ c # b"
proof (induction s arbitrary: a)
  case (Cons x xs)
  then show ?case by (auto dest: split_on_one split: if_splits list.splits)
qed simp

lemma upper_slash: "upper (s @ slash # t) = upper s @ slash # upper t"
  by (simp add: upper_def slash_def Let_def)

lemma normalize_symbol_upper:
  "normalize_symbol symbol =
     upper (if dash \<in> set (strip symbol) \<and> slash \<notin> set (strip symbol)
            then map (\<lambda>c. if c = dash then slash else c) (strip symbol) else strip symbol)"
  unfolding normalize_symbol_def Let_def
  by (auto simp: upper_slash dest!: split_on_two split: list.splits)

definition map_symbol :: "dict \<Rightarrow> string \<Rightarrow> string \<Rightarrow> string" where
  "map_symbol cfg venue symbol =
     (let sym = normalize_symbol symbol
      in case jget sym cfg of
           JObj per \<Rightarrow>
             (let mapped = jget (normalize_venue venue) per
              in if jtruthy mapped then normalize_symbol (json_str mapped) else sym)
         | _ \<Rightarrow> sym)"

lemma normalize_venue_idem: "normalize_venue (normalize_venue v) = normalize_venue v"
proof (cases "map_of venue_aliases (lower (strip v))")
  case None
  then show ?thesis by (simp add: normalize_venue_def Let_def strip_lower)
next
  case (Some a)
  then have "a \<in> {''gateio'', ''binance'', ''coinbase''}" by (auto simp: venue_aliases_def split: if_splits)
  moreover have "normalize_venue ''gateio'' = ''gateio''" "normalize_venue ''binance'' = ''binance''"
    "normalize_venue ''coinbase'' = ''coinbase''" by code_simp+
  ultimately show ?thesis using Some by (auto simp: normalize_venue_def[of v] Let_def)
qed

section \<open>Looking an order up by its client id\<close>

definition order_client_oid :: "dict \<Rightarrow> string" where
  "order_client_oid ord =
     (let info = (case jget ''info'' ord of JObj i \<Rightarrow> i | _ \<Rightarrow> [])
      in json_str (jor (jor (jor (jor (jor (jget ''clientOrderId'' ord) (jget ''client_order_id'' ord))
           (jget ''clientOrderId'' info)) (jget ''client_order_id'' info)) (jget ''text'' info)) (JStr '''')))"

fun find_by_oid :: "string \<Rightarrow> json list \<Rightarrow> dict option" where
  "find_by_oid oid [] = None"
| "find_by_oid oid (JObj d # os) = (if order_client_oid d = oid then Some d else find_by_oid oid os)"
| "find_by_oid oid (_ # os) = find_by_oid oid os"

text \<open>One listing: an exception is swallowed, an empty dictionary is no answer.\<close>

definition lookup_in :: "string \<Rightarrow> exn + json list \<Rightarrow> dict option" where
  "lookup_in oid answer =
     (case answer of Inl _ \<Rightarrow> None
      | Inr os \<Rightarrow> (case find_by_oid oid os of None \<Rightarrow> None | Some d \<Rightarrow> if d = [] then None else Some d))"

text \<open>\<open>fetch_closed_orders\<close> may be missing.\<close>

definition find_order_by_client_oid ::
    "exn + json list \<Rightarrow> (exn + json list) option \<Rightarrow> string \<Rightarrow> dict option" where
  "find_order_by_client_oid open_orders closed_orders oid =
     (case lookup_in oid open_orders of
        Some d \<Rightarrow> Some d
      | None \<Rightarrow> (case closed_orders of None \<Rightarrow> None | Some a \<Rightarrow> lookup_in oid a))"

text \<open>An answer is an order of one of the listings with that client id; no answer may also mean that the
  exchange could not be asked.\<close>

lemma find_by_oid_Some: "find_by_oid oid os = Some d \<Longrightarrow> JObj d \<in> set os \<and> order_client_oid d = oid"
  by (induction oid os rule: find_by_oid.induct) (auto split: if_splits)

lemma find_order_sound:
  assumes "find_order_by_client_oid a b oid = Some d"
  shows "order_client_oid d = oid \<and> (\<exists>os. (a = Inr os \<or> b = Some (Inr os)) \<and> JObj d \<in> set os)"
  using assms by (auto simp: find_order_by_client_oid_def lookup_in_def dest: find_by_oid_Some
      split: option.splits sum.splits if_splits)

lemma find_order_outage: "find_order_by_client_oid (Inl e) (map_option Inl f) oid = None"
  by (cases f) (simp_all add: find_order_by_client_oid_def lookup_in_def)

end
