(* ===== verification/Live_Reconciler.thy ===== *)
theory Live_Reconciler
  imports State_Authority Live_Trading_Store Intent_TTL Fill_Sink Exchange_Trades Exchange_Adapter
begin

text \<open>
  services/execution/live\_reconciler.py: the process that follows submitted live orders. For every intent in
  \<open>submitted\<close> or \<open>submit_unknown\<close> it asks the exchange for the order and its trades, gives each trade to the fill
  sink, advances the per-symbol trade cursor, and writes the resulting status through the reconciler
  authority. An intent without an exchange order id is looked up by its client order id.

  The state \<open>rworld\<close> is the live queue, the live order table, the accounting database and a counter of
  outside reads; clocks, exchange answers and the sink's environment are functions of that counter. An
  effect returns or raises; what was written before stays written. Files, logging, heartbeat, the process lock and
  sleeping are not modelled.
\<close>

section \<open>World, effects and answers\<close>

datatype rexn = RPy exn | RState state_violation

record rworld =
  rw_queue :: live_queue
  rw_orders :: live_trading
  rw_db :: account_db
  rw_tick :: nat
  rw_fills_seen :: nat

type_synonym 'a ract = "rworld \<Rightarrow> (rexn + 'a) \<times> rworld"

definition rret :: "'a \<Rightarrow> 'a ract" where
  "rret x w = (Inr x, w)"

definition rthrow :: "rexn \<Rightarrow> 'a ract" where
  "rthrow e w = (Inl e, w)"

definition rbnd :: "'a ract \<Rightarrow> ('a \<Rightarrow> 'b ract) \<Rightarrow> 'b ract" where
  "rbnd m f w = (case m w of (Inl e, w') \<Rightarrow> (Inl e, w') | (Inr x, w') \<Rightarrow> f x w')"

definition rtry :: "'a ract \<Rightarrow> (rexn \<Rightarrow> 'a ract) \<Rightarrow> 'a ract" where
  "rtry m h w = (case m w of (Inl e, w') \<Rightarrow> h e w' | (Inr x, w') \<Rightarrow> (Inr x, w'))"

definition rtick :: "rworld \<Rightarrow> rworld" where
  "rtick w = w\<lparr>rw_tick := Suc (rw_tick w)\<rparr>"

text \<open>\<open>rv_fromiso\<close> is \<open>datetime.fromisoformat(...).timestamp()\<close>; \<open>rv_order\<close> and \<open>rv_trades\<close> are the exchange's answers
  through the adapter, \<open>rv_open\<close> and \<open>rv_closed\<close> its two order listings; \<open>rv_adapter\<close> says that the adapter
  cannot be built.\<close>

record renv =
  rv_now :: "nat \<Rightarrow> string"
  rv_now_ms :: "nat \<Rightarrow> int"
  rv_fromiso :: "string \<Rightarrow> pyfloat option"
  rv_err_text :: "rexn \<Rightarrow> string"
  rv_stale_ms :: "string option"
  rv_overlap_ms :: "string option"
  rv_terminal_ms :: env_num
  rv_min_obs :: env_num
  rv_symbol_map :: dict
  rv_adapter :: "nat \<Rightarrow> string \<Rightarrow> exn option"
  rv_order :: "nat \<Rightarrow> string \<Rightarrow> string \<Rightarrow> exn + dict option"
  rv_trades :: "nat \<Rightarrow> string \<Rightarrow> int option \<Rightarrow> exn + dict list"
  rv_open :: "nat \<Rightarrow> string \<Rightarrow> exn + json list"
  rv_closed :: "nat \<Rightarrow> string \<Rightarrow> (exn + json list) option"
  rv_sink :: "nat \<Rightarrow> sink_env"

section \<open>Helpers\<close>

definition replace_Z :: "string \<Rightarrow> string" where
  "replace_Z s = concat (map (\<lambda>c. if c = CHR ''Z'' then ''+00:00'' else [c]) s)"

definition ts_to_ms :: "(string \<Rightarrow> pyfloat option) \<Rightarrow> string \<Rightarrow> int" where
  "ts_to_ms fromiso v =
     (let txt = strip v
      in if txt = '''' then 0
         else if list_all is_digit txt then (case int_of_text txt of None \<Rightarrow> 0 | Some n \<Rightarrow> n)
         else (case fromiso (replace_Z txt) of
                 None \<Rightarrow> 0
               | Some t \<Rightarrow> (case float_int (fmul t (Fin 1000)) of Inl _ \<Rightarrow> 0 | Inr n \<Rightarrow> n)))"

definition live_reconciler_ctx :: live_state_context where
  "live_reconciler_ctx = \<lparr>ctx_authority = RECONCILER, ctx_origin = ''live_reconciler''\<rparr>"

definition live_snap :: "live_intent \<Rightarrow> intent_snapshot" where
  "live_snap it = \<lparr>snap_intent_id = Some (li_intent_id it), snap_status = Some (li_status it)\<rparr>"

definition rq_write :: "renv \<Rightarrow> live_intent \<Rightarrow> string \<Rightarrow> write_args \<Rightarrow> bool ract" where
  "rq_write env it status a w =
     (case update_live_queue_status_as_reconciler (rv_now env (rw_tick w)) (live_snap it) (Some status)
             (Some live_reconciler_ctx) a (rw_queue w) of
        Inl v \<Rightarrow> (Inl (RState v), rtick w)
      | Inr (ok, q) \<Rightarrow> (Inr ok, rtick (w\<lparr>rw_queue := q\<rparr>)))"

definition reason_args :: "string option \<Rightarrow> string \<Rightarrow> string \<Rightarrow> dict \<Rightarrow> write_args" where
  "reason_args err action reason meta =
     \<lparr>wa_last_error = err, wa_client_order_id = None, wa_exchange_order_id = None, wa_event_action = Some action,
      wa_event_reason = Some reason, wa_event_meta = Some meta\<rparr>"

definition rorder_write ::
    "renv \<Rightarrow> live_intent \<Rightarrow> string \<Rightarrow> string \<Rightarrow> string \<Rightarrow> string option \<Rightarrow> string \<Rightarrow> string option \<Rightarrow> unit ract" where
  "rorder_write env it venue symbol coid eoid status err w =
     (case upsert_order (rv_now env (rw_tick w))
             \<lparr>or_client_order_id = coid, or_created_ts = None, or_venue = venue, or_symbol = symbol,
              or_side = li_side it, or_order_type = li_order_type it, or_qty = Some (num_of_float (li_qty it)),
              or_limit_price = map_option num_of_float (li_limit_price it), or_exchange_order_id = eoid,
              or_status = status, or_last_error = err\<rparr> (rw_orders w) of
        Inl e \<Rightarrow> (Inl (RPy e), rtick w)
      | Inr l \<Rightarrow> (Inr (), rtick (w\<lparr>rw_orders := l\<rparr>)))"

definition client_or_default :: "live_intent \<Rightarrow> string" where
  "client_or_default it = opt_str_or (li_client_order_id it) (''live_intent_'' @ li_intent_id it)"

definition accounted_fills_for_order :: "journal_table \<Rightarrow> string \<Rightarrow> string \<Rightarrow> string \<Rightarrow> nat" where
  "accounted_fills_for_order j venue client_order_id exchange_order_id =
     (let cid = strip client_order_id; ex_oid = strip exchange_order_id
      in if cid = '''' \<and> ex_oid = '''' then 0
         else length (filter (\<lambda>r. cf_venue r = venue \<and>
                ((cf_order_id r \<noteq> '''' \<and> cf_order_id r = ex_oid) \<or>
                 (cf_client_order_id r \<noteq> '''' \<and> cf_client_order_id r = cid))) (journal_rows j)))"

section \<open>Ambiguous submits\<close>

definition su_not_found_terminal_ms :: "env_num \<Rightarrow> pyfloat" where
  "su_not_found_terminal_ms raw = positive_override (Fin 900000) raw"

definition su_not_found_min_obs :: "env_num \<Rightarrow> int" where
  "su_not_found_min_obs raw =
     (case raw of
        EnvFloat v \<Rightarrow> (case float_int v of Inl _ \<Rightarrow> 3 | Inr n \<Rightarrow> if n < 1 then 3 else n)
      | _ \<Rightarrow> 3)"

definition su_key :: "string \<Rightarrow> string" where
  "su_key iid = ''su_not_found:'' @ iid"

text \<open>The stored observation record; anything unreadable restarts the window.\<close>

definition su_state :: "int \<Rightarrow> db_text option \<Rightarrow> int \<times> int" where
  "su_state now raw =
     (case raw of
        Some (TxJson d) \<Rightarrow>
          (if (case jget ''first_ms'' d of JInt _ \<Rightarrow> True | JFloat _ \<Rightarrow> True | JBool _ \<Rightarrow> True | _ \<Rightarrow> False)
           then (case (json_int (jget ''first_ms'' d), json_int (jor (jget ''count'' d) (JInt 0))) of
                   (Inr f, Inr c) \<Rightarrow> (f, c) | _ \<Rightarrow> (now, 0))
           else (now, 0))
      | _ \<Rightarrow> (now, 0))"

definition su_text :: "int \<times> int \<Rightarrow> db_text" where
  "su_text st = TxJson [(''first_ms'', JInt (fst st)), (''count'', JInt (snd st))]"

definition record_su_not_found :: "string \<Rightarrow> int \<Rightarrow> live_queue \<Rightarrow> (int \<times> int) \<times> live_queue" where
  "record_su_not_found iid now q =
     (let (f, c) = su_state now (live_get_state (su_key iid) q); st = (f, c + 1)
      in (st, case live_set_state (su_key iid) (su_text st) q of Inl _ \<Rightarrow> q | Inr q' \<Rightarrow> q'))"

definition clear_su_not_found :: "string \<Rightarrow> live_queue \<Rightarrow> live_queue" where
  "clear_su_not_found iid q = (case live_set_state (su_key iid) (TxStr '''') q of Inl _ \<Rightarrow> q | Inr q' \<Rightarrow> q')"

definition su_disposable :: "renv \<Rightarrow> int \<Rightarrow> int \<times> int \<Rightarrow> bool" where
  "su_disposable env now st \<longleftrightarrow>
     su_not_found_min_obs (rv_min_obs env) \<le> snd st \<and>
     fle (su_not_found_terminal_ms (rv_terminal_ms env)) (Fin (of_int (max 0 (now - fst st))))"

definition clear_act :: "live_intent \<Rightarrow> unit ract" where
  "clear_act it w = (Inr (), w\<lparr>rw_queue := clear_su_not_found (li_intent_id it) (rw_queue w)\<rparr>)"

definition su_not_found ::
    "renv \<Rightarrow> live_intent \<Rightarrow> string \<Rightarrow> string \<Rightarrow> string \<Rightarrow> bool ract" where
  "su_not_found env it venue symbol coid w =
     (let now = rv_now_ms env (rw_tick w);
          (st, q) = record_su_not_found (li_intent_id it) now (rw_queue w);
          w1 = rtick (w\<lparr>rw_queue := q\<rparr>);
          reason = ''submit_unknown_not_found_terminal:obs='' @ int_text (snd st) @ '':age_ms='' @ int_text (max 0 (now - fst st))
      in if su_disposable env now st
         then rbnd (rq_write env it ''error''
                 (reason_args (Some reason) ''submit_unknown_not_found_terminal'' ''venue_client_order_lookup_not_found''
                    [(''client_order_id'', JStr coid)]))
              (\<lambda>ok. if ok then rbnd (rorder_write env it venue symbol coid None ''error'' (Some reason))
                               (\<lambda>_. rbnd (clear_act it) (\<lambda>_. rret True))
                    else rret False) w1
         else (Inr False, w1))"

definition su_found :: "renv \<Rightarrow> live_intent \<Rightarrow> string \<Rightarrow> string \<Rightarrow> string \<Rightarrow> dict \<Rightarrow> bool ract" where
  "su_found env it venue symbol coid ord =
     (let ex_oid = strip (json_str (jor (jor (jget ''id'' ord) (jget ''orderId'' ord)) (JStr '''')))
      in if ex_oid = '''' then rret False
         else rbnd (rq_write env it ''submitted''
                \<lparr>wa_last_error = None, wa_client_order_id = Some coid, wa_exchange_order_id = Some ex_oid,
                 wa_event_action = Some ''submit_unknown_recovered'', wa_event_reason = Some ''venue_client_order_lookup_found'',
                 wa_event_meta = Some [(''client_order_id'', JStr coid), (''exchange_order_id'', JStr ex_oid)]\<rparr>)
              (\<lambda>ok. if ok then rbnd (rorder_write env it venue symbol coid (Some ex_oid) ''submitted'' None)
                               (\<lambda>_. rbnd (clear_act it) (\<lambda>_. rret True))
                    else rret False))"

definition recover_submit_unknown :: "renv \<Rightarrow> live_intent \<Rightarrow> string \<Rightarrow> string \<Rightarrow> bool ract" where
  "recover_submit_unknown env it venue symbol w =
     (let coid = strip (opt_str_or (li_client_order_id it) '''')
      in if lower (strip (li_status it)) \<noteq> ''submit_unknown'' \<or> coid = '''' then (Inr False, w)
         else (let sym = map_symbol (rv_symbol_map env) venue symbol;
                   found = find_order_by_client_oid (rv_open env (rw_tick w) sym) (rv_closed env (rw_tick w) sym) coid;
                   w1 = rtick w
               in case found of
                    None \<Rightarrow> su_not_found env it venue symbol coid w1
                  | Some ord \<Rightarrow> su_found env it venue symbol coid ord w1))"

section \<open>Trades\<close>

record trade_acc =
  ta_max :: int
  ta_blocked :: bool
  ta_count :: nat

definition live_trade_tid :: "dict \<Rightarrow> string" where
  "live_trade_tid tr = json_str (jor (jor (jget ''id'' tr) (jget ''tradeId'' tr)) (JStr ''''))"

text \<open>\<open>int(ts) if ts else 0\<close>\<close>

definition live_trade_ts :: "dict \<Rightarrow> exn + int" where
  "live_trade_ts tr = (if jtruthy (jget ''timestamp'' tr) then json_int (jget ''timestamp'' tr) else Inr 0)"

definition trade_fee_field :: "string \<Rightarrow> dict \<Rightarrow> json" where
  "trade_fee_field k tr = (case jget ''fee'' tr of JObj f \<Rightarrow> jget k f | _ \<Rightarrow> JNull)"

definition live_fill_row_of ::
    "live_intent \<Rightarrow> string \<Rightarrow> string \<Rightarrow> string \<Rightarrow> string \<Rightarrow> dict \<Rightarrow> pyfloat \<Rightarrow> pyfloat \<Rightarrow> live_fill_row" where
  "live_fill_row_of it venue symbol ex_oid now tr qty price =
     \<lparr>flr_trade_id = live_trade_tid tr, flr_ts = json_str (jor (jget ''datetime'' tr) (JStr now)), flr_venue = venue,
      flr_symbol = symbol, flr_side = lower (json_str (jor (jget ''side'' tr) (JStr (li_side it)))),
      flr_qty = Some (num_of_float qty), flr_price = Some (num_of_float price),
      flr_fee = (case trade_fee_field ''cost'' tr of JNull \<Rightarrow> None | v \<Rightarrow> Some (json_num v)),
      flr_fee_currency = (case trade_fee_field ''currency'' tr of JNull \<Rightarrow> None | v \<Rightarrow> Some (json_str v)),
      flr_client_order_id = li_client_order_id it, flr_exchange_order_id = Some ex_oid\<rparr>"

definition live_sink_report ::
    "live_intent \<Rightarrow> live_fill_row \<Rightarrow> string \<Rightarrow> dict \<Rightarrow> pyfloat \<Rightarrow> pyfloat \<Rightarrow> pyfloat \<Rightarrow> pyfloat option \<Rightarrow> dict" where
  "live_sink_report it r ex_oid tr qty price fee pnl =
     [(''venue'', JStr (flr_venue r)), (''fill_id'', JStr (flr_trade_id r)), (''symbol'', JStr (flr_symbol r)),
      (''side'', JStr (flr_side r)), (''qty'', JFloat qty), (''price'', JFloat price), (''ts'', JStr (flr_ts r)),
      (''fee_usd'', JFloat fee), (''client_order_id'', jopt (li_client_order_id it)), (''order_id'', JStr ex_oid),
      (''exchange_order_id'', JStr ex_oid), (''raw_trade'', JObj tr)] @
     (case pnl of None \<Rightarrow> [] | Some x \<Rightarrow> [(''realized_pnl_usd'', JFloat x)])"

text \<open>The conversions of a trade that may raise, in order.\<close>

definition trade_numbers :: "dict \<Rightarrow> exn + pyfloat \<times> pyfloat" where
  "trade_numbers tr =
     (case json_float (jor (jor (jget ''amount'' tr) (jget ''qty'' tr)) (JInt 0)) of
        Inl e \<Rightarrow> Inl e
      | Inr q \<Rightarrow> (case json_float (jor (jget ''price'' tr) (JInt 0)) of Inl e \<Rightarrow> Inl e | Inr p \<Rightarrow> Inr (q, p)))"

definition emit_live_fill :: "renv \<Rightarrow> dict \<Rightarrow> bool ract" where
  "emit_live_fill env fill w =
     (case executor_on_fill (rv_sink env (rw_tick w)) fill (rw_db w) of
        (r, db) \<Rightarrow> (Inr (r = SinkOk), rtick (w\<lparr>rw_db := db\<rparr>)))"

definition count_fill :: "int \<Rightarrow> trade_acc \<Rightarrow> trade_acc" where
  "count_fill ts acc =
     acc\<lparr>ta_count := Suc (ta_count acc),
         ta_max := (if ts \<noteq> 0 \<and> \<not> ta_blocked acc then max (ta_max acc) ts else ta_max acc)\<rparr>"

definition live_insert_fill :: "live_fill_row \<Rightarrow> unit ract" where
  "live_insert_fill r w =
     (case insert_fill r (rw_orders w) of Inl e \<Rightarrow> (Inl (RPy e), w) | Inr l \<Rightarrow> (Inr (), w\<lparr>rw_orders := l\<rparr>))"

definition lift :: "exn + 'a \<Rightarrow> 'a ract" where
  "lift x w = (map_sum RPy id x, w)"

definition handle_trade ::
    "renv \<Rightarrow> live_intent \<Rightarrow> string \<Rightarrow> string \<Rightarrow> string \<Rightarrow> dict \<Rightarrow> trade_acc \<Rightarrow> trade_acc ract" where
  "handle_trade env it venue symbol ex_oid tr acc =
     (if \<not> trade_matches_order ex_oid (opt_str_or (li_client_order_id it) '''') tr then rret acc
      else rbnd (lift (live_trade_ts tr)) (\<lambda>ts.
        if live_trade_tid tr = '''' then rret acc
        else rbnd (lift (trade_numbers tr)) (\<lambda>(qty, price).
          rbnd (\<lambda>w. (Inr (rv_now env (rw_tick w)), rtick w)) (\<lambda>now.
            let r = live_fill_row_of it venue symbol ex_oid now tr qty price
            in rbnd (live_insert_fill r) (\<lambda>_.
              rbnd (lift (trade_fee_usd tr)) (\<lambda>fee.
                rbnd (lift (realized_pnl_of tr)) (\<lambda>pnl.
                  rbnd (emit_live_fill env (live_sink_report it r ex_oid tr qty price fee pnl)) (\<lambda>ok.
                    if ok then (\<lambda>w. (Inr (count_fill ts acc), w\<lparr>rw_fills_seen := Suc (rw_fills_seen w)\<rparr>))
                    else rret (acc\<lparr>ta_blocked := True\<rparr>)))))))))"

fun handle_trades ::
    "renv \<Rightarrow> live_intent \<Rightarrow> string \<Rightarrow> string \<Rightarrow> string \<Rightarrow> dict list \<Rightarrow> trade_acc \<Rightarrow> trade_acc ract" where
  "handle_trades env it venue symbol ex_oid [] acc = rret acc"
| "handle_trades env it venue symbol ex_oid (tr # trs) acc =
     rbnd (handle_trade env it venue symbol ex_oid tr acc) (handle_trades env it venue symbol ex_oid trs)"

definition start_acc :: trade_acc where
  "start_acc = \<lparr>ta_max = 0, ta_blocked = False, ta_count = 0\<rparr>"

section \<open>The cursor\<close>

definition cursor_key :: "string \<Rightarrow> string \<Rightarrow> string" where
  "cursor_key venue symbol = ''trades_since_ms:'' @ venue @ '':'' @ symbol"

text \<open>\<open>int(float(get_state(key) or "0"))\<close>\<close>

definition read_cursor :: "string \<Rightarrow> string \<Rightarrow> live_queue \<Rightarrow> exn + int" where
  "read_cursor venue symbol q =
     (case live_get_state (cursor_key venue symbol) q of
        None \<Rightarrow> Inr 0
      | Some t \<Rightarrow> if t = TxStr '''' then Inr 0
                  else (case text_int t of None \<Rightarrow> Inl (ValueError ''float'') | Some n \<Rightarrow> Inr n))"

definition since_of :: "int \<Rightarrow> int \<Rightarrow> int option" where
  "since_of cursor overlap = (let s = max 0 (cursor - overlap) in if s = 0 then None else Some s)"

definition write_cursor :: "string \<Rightarrow> string \<Rightarrow> int \<Rightarrow> unit ract" where
  "write_cursor venue symbol m w =
     (if m = 0 then (Inr (), w)
      else case live_set_state (cursor_key venue symbol) (TxNum (of_int (m + 1))) (rw_queue w) of
             Inl e \<Rightarrow> (Inl (RPy e), w) | Inr q \<Rightarrow> (Inr (), w\<lparr>rw_queue := q\<rparr>))"

section \<open>One order\<close>

text \<open>What the order status leads to: leave the intent, or go on to its trades with or without a pending
  \<open>filled\<close> transition.\<close>

datatype order_route = Leave | OnWith bool

definition stale_now :: "int \<Rightarrow> int \<Rightarrow> int \<Rightarrow> bool" where
  "stale_now ts age stale \<longleftrightarrow> ts \<noteq> 0 \<and> stale \<le> age"

definition ms_text :: "int \<Rightarrow> string" where
  "ms_text n = int_text n @ ''ms''"

definition route_order ::
    "renv \<Rightarrow> live_intent \<Rightarrow> string \<Rightarrow> string \<Rightarrow> string \<Rightarrow> int \<Rightarrow> int \<Rightarrow> int \<Rightarrow> dict \<Rightarrow> order_route ract" where
  "route_order env it venue symbol ex_oid ts age stale ord =
     (let st = str_or (strip (lower (json_str (jor (jget ''status'' ord) (JStr ''''))))) ''unknown'';
          meta = [(''exchange_order_id'', JStr ex_oid), (''venue_status'', JStr st)];
          go = (\<lambda>ok. if ok then rret (OnWith False) else rret Leave)
      in if st = ''closed'' \<or> st = ''filled'' then rret (OnWith True)
         else if st = ''canceled'' \<or> st = ''cancelled'' then
           rbnd (rq_write env it ''canceled'' (reason_args None ''venue_order_canceled'' ''venue_order_reconcile'' meta)) go
         else if st = ''rejected'' then
           rbnd (rq_write env it ''rejected''
             (reason_args (Some (json_str (jor (jor (jget ''rejectReason'' ord) (jget ''info'' ord)) (JStr ''rejected''))))
                ''venue_order_rejected'' ''venue_order_reconcile'' meta)) go
         else if (st = ''open'' \<or> st = ''new'' \<or> st = ''partially_filled'' \<or> st = ''partiallyfilled'') \<and> stale_now ts age stale then
           rbnd (rq_write env it ''error'' (reason_args (Some (''stale_open_order:'' @ ms_text age)) ''venue_order_open_stale''
             ''venue_order_reconcile'' [(''exchange_order_id'', JStr ex_oid), (''age_ms'', JInt age), (''venue_status'', JStr st)]))
             (\<lambda>ok. if \<not> ok then rret Leave
                   else rbnd (rorder_write env it venue symbol (client_or_default it) (Some ex_oid) ''error''
                                (Some (''stale_open_order:'' @ ms_text age))) (\<lambda>_. rret (OnWith False)))
         else rret (OnWith False))"

definition filled_transition ::
    "renv \<Rightarrow> live_intent \<Rightarrow> string \<Rightarrow> string \<Rightarrow> string \<Rightarrow> string \<Rightarrow> nat \<Rightarrow> unit ract" where
  "filled_transition env it venue symbol ex_oid action n =
     rbnd (rq_write env it ''filled'' (reason_args None action ''venue_trade_reconcile''
             [(''exchange_order_id'', JStr ex_oid), (''accounted_fills'', JInt (int n))]))
       (\<lambda>ok. if ok then rorder_write env it venue symbol (client_or_default it) (Some ex_oid) ''filled'' None else rret ())"

definition finish_filled ::
    "renv \<Rightarrow> live_intent \<Rightarrow> string \<Rightarrow> string \<Rightarrow> string \<Rightarrow> nat \<Rightarrow> unit ract" where
  "finish_filled env it venue symbol ex_oid n w =
     (if 0 < n then filled_transition env it venue symbol ex_oid ''venue_fill_accounted'' n w
      else (let back = accounted_fills_for_order (es_journal (ac_store (rw_db w))) venue
                         (opt_str_or (li_client_order_id it) '''') ex_oid
            in if 0 < back then filled_transition env it venue symbol ex_oid ''venue_fill_accounted_lookback'' back w
               else rbnd (rq_write env it ''submitted'' (reason_args (Some ''filled_deferred:zero_accounted_fills'')
                      ''venue_fill_deferred'' ''venue_trade_reconcile''
                      [(''exchange_order_id'', JStr ex_oid), (''accounted_fills'', JInt 0)])) (\<lambda>_. rret ()) w))"

definition follow_trades ::
    "renv \<Rightarrow> live_intent \<Rightarrow> string \<Rightarrow> string \<Rightarrow> string \<Rightarrow> bool \<Rightarrow> unit ract" where
  "follow_trades env it venue symbol ex_oid pending =
     rbnd (\<lambda>w. (map_sum RPy id (read_cursor venue symbol (rw_queue w)), w)) (\<lambda>cursor.
       rbnd (lift (env_int (rv_overlap_ms env) ''60000'')) (\<lambda>overlap.
         rbnd (\<lambda>w. (map_sum RPy id (rv_trades env (rw_tick w) symbol (since_of cursor overlap)), rtick w)) (\<lambda>trs.
           rbnd (handle_trades env it venue symbol ex_oid trs start_acc) (\<lambda>acc.
             rbnd (write_cursor venue symbol (ta_max acc)) (\<lambda>_.
               if pending then finish_filled env it venue symbol ex_oid (ta_count acc) else rret ())))))"

definition adapter_act :: "renv \<Rightarrow> string \<Rightarrow> unit ract" where
  "adapter_act env venue w =
     (case rv_adapter env (rw_tick w) venue of Some e \<Rightarrow> (Inl (RPy e), rtick w) | None \<Rightarrow> (Inr (), rtick w))"

text \<open>The body of the \<open>try\<close> statement.\<close>

definition reconcile_order ::
    "renv \<Rightarrow> live_intent \<Rightarrow> string \<Rightarrow> string \<Rightarrow> string \<Rightarrow> int \<Rightarrow> int \<Rightarrow> int \<Rightarrow> unit ract" where
  "reconcile_order env it venue symbol ex_oid ts age stale =
     rbnd (adapter_act env venue) (\<lambda>_.
       rbnd (\<lambda>w. (map_sum RPy id (rv_order env (rw_tick w) symbol ex_oid), rtick w)) (\<lambda>o'.
         if (o' = None \<or> o' = Some []) \<and> stale_now ts age stale then
           rbnd (rq_write env it ''error'' (reason_args (Some ''stale_order_not_found'') ''venue_order_not_found_stale''
                   ''venue_order_reconcile'' [(''exchange_order_id'', JStr ex_oid), (''age_ms'', JInt age)]))
             (\<lambda>ok. if ok then rorder_write env it venue symbol (client_or_default it) (Some ex_oid) ''error''
                               (Some ''stale_order_not_found'') else rret ())
         else (case o' of
                 None \<Rightarrow> rthrow (RPy (AttributeError ''get''))
               | Some ord \<Rightarrow>
                   rbnd (route_order env it venue symbol ex_oid ts age stale ord) (\<lambda>r.
                     case r of Leave \<Rightarrow> rret () | OnWith pending \<Rightarrow> follow_trades env it venue symbol ex_oid pending))))"

text \<open>The \<open>except\<close> clause.\<close>

definition order_failed ::
    "renv \<Rightarrow> live_intent \<Rightarrow> string \<Rightarrow> string \<Rightarrow> string \<Rightarrow> int \<Rightarrow> int \<Rightarrow> int \<Rightarrow> rexn \<Rightarrow> unit ract" where
  "order_failed env it venue symbol ex_oid ts age stale e =
     (let err = ''stale_order_fetch_error:'' @ rv_err_text env e
      in if stale_now ts age stale then
           rbnd (rq_write env it ''error'' (reason_args (Some err) ''venue_order_fetch_error_stale'' ''venue_order_reconcile''
                   [(''exchange_order_id'', JStr ex_oid), (''age_ms'', JInt age)]))
             (\<lambda>ok. if ok then rorder_write env it venue symbol (client_or_default it) (Some ex_oid) ''error'' (Some err)
                   else rret ())
         else rret ())"

text \<open>One intent. The recovery of an ambiguous submit stands outside the \<open>try\<close> statement, and an unreadable stale
  limit leaves its variable unbound for the \<open>except\<close> clause, which reads it only when the intent has a time.\<close>

definition reconcile_live_intent :: "renv \<Rightarrow> live_intent \<Rightarrow> unit ract" where
  "reconcile_live_intent env it =
     (let venue = normalize_venue (li_venue it); symbol = normalize_symbol (li_symbol it);
          ex_oid = strip (opt_str_or (li_exchange_order_id it) '''')
      in if ex_oid = ''''
         then rbnd (adapter_act env venue) (\<lambda>_. rbnd (recover_submit_unknown env it venue symbol) (\<lambda>_. rret ()))
         else (let ts = ts_to_ms (rv_fromiso env) (str_or (li_updated_ts it) (li_created_ts it))
               in case env_int (rv_stale_ms env) ''300000'' of
                    Inl e \<Rightarrow> if ts = 0 then rret () else rthrow (RPy (RuntimeError ''UnboundLocalError''))
                  | Inr stale \<Rightarrow>
                      (\<lambda>w. let age = (if ts = 0 then 0 else max 0 (rv_now_ms env (rw_tick w) - ts))
                           in rtry (reconcile_order env it venue symbol ex_oid ts age stale)
                                (order_failed env it venue symbol ex_oid ts age stale) (rtick w))))"

section \<open>One pass\<close>

fun reconcile_each :: "renv \<Rightarrow> live_intent list \<Rightarrow> unit ract" where
  "reconcile_each env [] = rret ()"
| "reconcile_each env (it # its) = rbnd (reconcile_live_intent env it) (\<lambda>_. reconcile_each env its)"

definition reconcile_pass :: "renv \<Rightarrow> unit ract" where
  "reconcile_pass env w =
     reconcile_each env (live_list_intents 60 (Some ''submitted'') (rw_queue w) @
       live_list_intents 60 (Some ''submit_unknown'') (rw_queue w)) w"

section \<open>Invariants of a pass\<close>

text \<open>The trade is one the exchange reports for the intent's symbol and attributes to its order.\<close>

definition reported_trade :: "renv \<Rightarrow> live_intent \<Rightarrow> dict \<Rightarrow> bool" where
  "reported_trade env it tr \<longleftrightarrow>
     (\<exists>n since trs. rv_trades env n (normalize_symbol (li_symbol it)) since = Inr trs \<and> tr \<in> set trs) \<and>
     trade_matches_order (strip (opt_str_or (li_exchange_order_id it) '''')) (opt_str_or (li_client_order_id it) '''') tr \<and>
     live_trade_tid tr \<noteq> ''''"

definition plain_status :: "string \<Rightarrow> bool" where
  "plain_status s \<longleftrightarrow> s \<in> {''submitted'', ''canceled'', ''rejected'', ''error''}"

lemma plain_statuses [simp]:
  "plain_status ''submitted''" "plain_status ''canceled''" "plain_status ''rejected''" "plain_status ''error''"
  by (simp_all add: plain_status_def)

text \<open>What the reconciler relies on to keep an invariant \<open>I\<close> of the queue and the accounting database over one pass:
  the queue's writes keep it, the sink keeps it, and a \<open>filled\<close> status is written only under the evidence \<open>ev\<close> that
  an accepted delivery or the journal lookback gives.\<close>

locale pass_invariant =
  fixes env :: renv and its :: "live_intent list"
    and I :: "live_queue \<Rightarrow> account_db \<Rightarrow> bool" and ev :: "live_intent \<Rightarrow> account_db \<Rightarrow> bool"
  assumes status_kept: "I q db \<Longrightarrow> it \<in> set its \<Longrightarrow> plain_status s \<or> s = ''filled'' \<and> ev it db \<Longrightarrow>
      update_live_queue_status_as_reconciler now (live_snap it) (Some s) (Some live_reconciler_ctx) a q = Inr (b, q') \<Longrightarrow> I q' db"
    and state_kept: "I q db \<Longrightarrow> live_set_state k v q = Inr q' \<Longrightarrow> I q' db"
    and sink_kept: "I q db \<Longrightarrow> executor_on_fill e fill db = (x, db') \<Longrightarrow> I q db'"
    and ev_kept: "I q db \<Longrightarrow> ev it db \<Longrightarrow> executor_on_fill e fill db = (x, db') \<Longrightarrow> ev it db'"
    and ev_fill: "I q db \<Longrightarrow> reported_trade env it tr \<Longrightarrow> flr_venue r = normalize_venue (li_venue it) \<Longrightarrow>
      flr_trade_id r = live_trade_tid tr \<Longrightarrow>
      executor_on_fill e (live_sink_report it r ex_oid tr qty price fee pnl) db = (SinkOk, db') \<Longrightarrow> ev it db'"
    and ev_lookback: "I q db \<Longrightarrow> 0 < accounted_fills_for_order (es_journal (ac_store db)) (normalize_venue (li_venue it))
      (opt_str_or (li_client_order_id it) '''') (strip (opt_str_or (li_exchange_order_id it) '''')) \<Longrightarrow> ev it db"
begin

text \<open>From a world with the invariant and the precondition, the invariant holds after the effect whatever its
  outcome, and the postcondition when it returns.\<close>

definition triple :: "(account_db \<Rightarrow> bool) \<Rightarrow> 'a ract \<Rightarrow> ('a \<Rightarrow> account_db \<Rightarrow> bool) \<Rightarrow> bool" where
  "triple P m Q \<longleftrightarrow> (\<forall>w r w'. I (rw_queue w) (rw_db w) \<and> P (rw_db w) \<and> m w = (r, w') \<longrightarrow>
     I (rw_queue w') (rw_db w') \<and> (\<forall>x. r = Inr x \<longrightarrow> Q x (rw_db w')))"

abbreviation holds :: "'a ract \<Rightarrow> bool" where
  "holds m \<equiv> triple (\<lambda>_. True) m (\<lambda>_ _. True)"

lemma tripleI:
  assumes "\<And>w r w'. I (rw_queue w) (rw_db w) \<Longrightarrow> P (rw_db w) \<Longrightarrow> m w = (r, w') \<Longrightarrow>
     I (rw_queue w') (rw_db w') \<and> (\<forall>x. r = Inr x \<longrightarrow> Q x (rw_db w'))"
  shows "triple P m Q"
  using assms unfolding triple_def by blast

lemma tripleD:
  "triple P m Q \<Longrightarrow> I (rw_queue w) (rw_db w) \<Longrightarrow> P (rw_db w) \<Longrightarrow> m w = (r, w') \<Longrightarrow>
     I (rw_queue w') (rw_db w') \<and> (\<forall>x. r = Inr x \<longrightarrow> Q x (rw_db w'))"
  unfolding triple_def by blast

lemma triple_ret: "(\<And>db. P db \<Longrightarrow> Q x db) \<Longrightarrow> triple P (rret x) Q"
  by (rule tripleI) (auto simp: rret_def)

lemma triple_throw: "triple P (rthrow e) Q"
  by (rule tripleI) (auto simp: rthrow_def)

lemma triple_bnd:
  assumes m: "triple P m Q" and f: "\<And>x. triple (Q x) (f x) R"
  shows "triple P (rbnd m f) R"
proof (rule tripleI)
  fix w r w'
  assume 1: "I (rw_queue w) (rw_db w)" "P (rw_db w)" "rbnd m f w = (r, w')"
  obtain y w1 where y: "m w = (y, w1)" by fastforce
  note 2 = tripleD[OF m 1(1,2) y]
  show "I (rw_queue w') (rw_db w') \<and> (\<forall>x. r = Inr x \<longrightarrow> R x (rw_db w'))"
  proof (cases y)
    case (Inl e)
    then show ?thesis using 1(3) 2 y by (auto simp: rbnd_def)
  next
    case (Inr x)
    then have "f x w1 = (r, w')" using 1(3) y by (simp add: rbnd_def)
    then show ?thesis using tripleD[OF f] 2 Inr by blast
  qed
qed

lemma triple_weaken: "triple P m Q \<Longrightarrow> (\<And>db. P' db \<Longrightarrow> P db) \<Longrightarrow> (\<And>x db. Q x db \<Longrightarrow> Q' x db) \<Longrightarrow> triple P' m Q'"
  unfolding triple_def by blast

lemma holds_try:
  assumes m: "holds m" and h: "\<And>e. holds (h e)"
  shows "holds (rtry m h)"
proof (rule tripleI)
  fix w r w'
  assume 1: "I (rw_queue w) (rw_db w)" "rtry m h w = (r, w')"
  obtain y w1 where y: "m w = (y, w1)" by fastforce
  note 2 = tripleD[OF m 1(1) TrueI y]
  show "I (rw_queue w') (rw_db w') \<and> (\<forall>x. r = Inr x \<longrightarrow> True)"
  proof (cases y)
    case (Inl e)
    then have "h e w1 = (r, w')" using 1(2) y by (simp add: rtry_def)
    then show ?thesis using tripleD[OF h] 2 by blast
  next
    case (Inr x)
    then show ?thesis using 1(2) 2 y by (simp add: rtry_def)
  qed
qed

lemmas holds_bnd = triple_bnd[where P = "\<lambda>_. True" and Q = "\<lambda>_ _. True" and R = "\<lambda>_ _. True"]

text \<open>An effect that leaves the queue and the database alone.\<close>

lemma triple_quiet:
  assumes "\<And>w. rw_queue (snd (m w)) = rw_queue w" "\<And>w. rw_db (snd (m w)) = rw_db w"
  shows "triple P m (\<lambda>_. P)"
proof (rule tripleI)
  fix w r w'
  assume "I (rw_queue w) (rw_db w)" "P (rw_db w)" "m w = (r, w')"
  then show "I (rw_queue w') (rw_db w') \<and> (\<forall>x. r = Inr x \<longrightarrow> P (rw_db w'))"
    using assms[of w] by simp
qed

lemma quiet_effects:
  "triple P (lift x) (\<lambda>_. P)" "triple P (rorder_write env it venue symbol coid eoid st err) (\<lambda>_. P)"
  "triple P (live_insert_fill r) (\<lambda>_. P)" "triple P (adapter_act env venue) (\<lambda>_. P)"
  "triple P (\<lambda>w. (f w, rtick w)) (\<lambda>_. P)" "triple P (\<lambda>w. (f w, w)) (\<lambda>_. P)"
  "triple P (\<lambda>w. (f w, w\<lparr>rw_fills_seen := n w\<rparr>)) (\<lambda>_. P)"
  by (rule triple_quiet; simp add: lift_def rorder_write_def live_insert_fill_def adapter_act_def rtick_def split: sum.split option.split)+

lemma holds_status:
  assumes "it \<in> set its" "\<And>db. P db \<Longrightarrow> plain_status s \<or> s = ''filled'' \<and> ev it db"
  shows "triple P (rq_write env it s a) (\<lambda>_. P)"
proof (rule tripleI)
  fix w r w'
  assume 1: "I (rw_queue w) (rw_db w)" "P (rw_db w)" "rq_write env it s a w = (r, w')"
  show "I (rw_queue w') (rw_db w') \<and> (\<forall>x. r = Inr x \<longrightarrow> P (rw_db w'))"
  proof (cases "update_live_queue_status_as_reconciler (rv_now env (rw_tick w)) (live_snap it) (Some s)
      (Some live_reconciler_ctx) a (rw_queue w)")
    case (Inl v)
    then show ?thesis using 1 by (auto simp: rq_write_def rtick_def)
  next
    case (Inr p)
    then obtain b q' where p: "p = (b, q')" by (cases p)
    have "I q' (rw_db w)" using status_kept[OF 1(1) assms(1) assms(2)[OF 1(2)]] Inr p by blast
    then show ?thesis using 1 Inr p by (auto simp: rq_write_def rtick_def)
  qed
qed

lemma holds_plain: "it \<in> set its \<Longrightarrow> plain_status s \<Longrightarrow> triple P (rq_write env it s a) (\<lambda>_. P)"
  by (rule holds_status) simp_all

lemma holds_clear: "holds (clear_act it)"
proof (rule tripleI)
  fix w r w'
  assume 1: "I (rw_queue w) (rw_db w)" "clear_act it w = (r, w')"
  have "I (clear_su_not_found (li_intent_id it) (rw_queue w)) (rw_db w)"
    using state_kept[OF 1(1)] 1(1) by (simp add: clear_su_not_found_def split: sum.split)
  then show "I (rw_queue w') (rw_db w') \<and> (\<forall>x. r = Inr x \<longrightarrow> True)" using 1(2) by (auto simp: clear_act_def)
qed

lemma record_kept: "I q db \<Longrightarrow> I (snd (record_su_not_found iid now q)) db"
  using state_kept by (simp add: record_su_not_found_def Let_def split: prod.split sum.split)

lemma holds_not_found:
  assumes it: "it \<in> set its"
  shows "holds (su_not_found env it venue symbol coid)"
proof (rule tripleI)
  fix w r w'
  assume 1: "I (rw_queue w) (rw_db w)" "su_not_found env it venue symbol coid w = (r, w')"
  obtain st q where p: "record_su_not_found (li_intent_id it) (rv_now_ms env (rw_tick w)) (rw_queue w) = (st, q)" by fastforce
  let ?w1 = "rtick (w\<lparr>rw_queue := q\<rparr>)"
  have i1: "I (rw_queue ?w1) (rw_db ?w1)" using record_kept[OF 1(1)] p by (metis rtick_def snd_conv rworld.select_convs(1,3) rworld.update_convs(1,4) rworld.surjective)
  have k: "holds (rbnd (rq_write env it ''error'' a) (\<lambda>ok. if ok then rbnd (rorder_write env it venue symbol coid None ''error'' e)
      (\<lambda>_. rbnd (clear_act it) (\<lambda>_. rret True)) else rret False))" for a e
    by (intro holds_bnd holds_plain[OF it] quiet_effects holds_clear) (auto intro: triple_ret holds_bnd quiet_effects holds_clear)
  show "I (rw_queue w') (rw_db w') \<and> (\<forall>x. r = Inr x \<longrightarrow> True)"
    using 1(2) i1 tripleD[OF k i1 TrueI] by (auto simp: su_not_found_def p Let_def split: if_splits)
qed

lemma holds_found:
  assumes it: "it \<in> set its"
  shows "holds (su_found env it venue symbol coid ord)"
  unfolding su_found_def Let_def
  by (auto intro!: triple_ret holds_bnd holds_plain[OF it] quiet_effects holds_clear)

lemma holds_recover:
  assumes it: "it \<in> set its"
  shows "holds (recover_submit_unknown env it venue symbol)"
proof (rule tripleI)
  fix w r w'
  assume 1: "I (rw_queue w) (rw_db w)" "recover_submit_unknown env it venue symbol w = (r, w')"
  have t: "I (rw_queue (rtick w)) (rw_db (rtick w))" using 1(1) by (simp add: rtick_def)
  show "I (rw_queue w') (rw_db w') \<and> (\<forall>x. r = Inr x \<longrightarrow> True)"
    using 1 tripleD[OF holds_not_found[OF it] t TrueI] tripleD[OF holds_found[OF it] t TrueI]
    by (auto simp: recover_submit_unknown_def Let_def split: if_splits option.splits)
qed

text \<open>Counted fills are evidence.\<close>

definition counted :: "live_intent \<Rightarrow> trade_acc \<Rightarrow> account_db \<Rightarrow> bool" where
  "counted it acc db \<longleftrightarrow> (0 < ta_count acc \<longrightarrow> ev it db)"

lemma triple_emit:
  assumes "reported_trade env it tr" "flr_venue r = normalize_venue (li_venue it)" "flr_trade_id r = live_trade_tid tr"
  shows "triple (counted it acc) (emit_live_fill env (live_sink_report it r ex_oid tr qty price fee pnl))
    (\<lambda>ok db. counted it acc db \<and> (ok \<longrightarrow> ev it db))"
proof (rule tripleI)
  fix w x w'
  let ?f = "live_sink_report it r ex_oid tr qty price fee pnl"
  assume 1: "I (rw_queue w) (rw_db w)" "counted it acc (rw_db w)" "emit_live_fill env ?f w = (x, w')"
  obtain y db' where y: "executor_on_fill (rv_sink env (rw_tick w)) ?f (rw_db w) = (y, db')" by fastforce
  have x: "x = Inr (y = SinkOk)" "rw_queue w' = rw_queue w" "rw_db w' = db'"
    using 1(3) y by (auto simp: emit_live_fill_def rtick_def)
  have "ev it db'" if "y = SinkOk" using ev_fill[OF 1(1) assms] y that by blast
  then show "I (rw_queue w') (rw_db w') \<and> (\<forall>z. x = Inr z \<longrightarrow> counted it acc (rw_db w') \<and> (z \<longrightarrow> ev it (rw_db w')))"
    using sink_kept[OF 1(1) y] ev_kept[OF 1(1) _ y] 1(2) by (simp add: x counted_def)
qed

lemma triple_counted_result:
  "triple (\<lambda>db. counted it acc db \<and> (ok \<longrightarrow> ev it db))
     (if ok then (\<lambda>w. (Inr (count_fill ts acc), w\<lparr>rw_fills_seen := Suc (rw_fills_seen w)\<rparr>)) else rret (acc\<lparr>ta_blocked := True\<rparr>))
     (counted it)"
  by (rule tripleI) (auto simp: counted_def rret_def split: if_splits)

lemma triple_handle_trade:
  assumes it: "\<exists>n since trs. rv_trades env n (normalize_symbol (li_symbol it)) since = Inr trs \<and> tr \<in> set trs"
  shows "triple (counted it acc)
    (handle_trade env it (normalize_venue (li_venue it)) symbol (strip (opt_str_or (li_exchange_order_id it) '''')) tr acc) (counted it)"
proof (cases "trade_matches_order (strip (opt_str_or (li_exchange_order_id it) '''')) (opt_str_or (li_client_order_id it) '''') tr
    \<and> live_trade_tid tr \<noteq> ''''")
  case True
  then have rep: "reported_trade env it tr" using it by (simp add: reported_trade_def)
  show ?thesis
    unfolding handle_trade_def Let_def using True
    by (auto intro!: triple_bnd[OF quiet_effects(1)] triple_bnd[OF quiet_effects(5)] triple_bnd[OF quiet_effects(3)]
        triple_bnd[OF triple_emit[OF rep]] triple_counted_result split: prod.split simp: live_fill_row_of_def simp del: if_split)
next
  case False
  then show ?thesis
    unfolding handle_trade_def by (auto intro!: triple_ret triple_bnd[OF quiet_effects(1)])
qed

lemma triple_handle_trades:
  assumes "\<And>tr. tr \<in> set trs \<Longrightarrow> \<exists>n since trs. rv_trades env n (normalize_symbol (li_symbol it)) since = Inr trs \<and> tr \<in> set trs"
  shows "triple (counted it acc)
    (handle_trades env it (normalize_venue (li_venue it)) symbol (strip (opt_str_or (li_exchange_order_id it) '''')) trs acc) (counted it)"
  using assms
proof (induction trs arbitrary: acc)
  case Nil
  then show ?case by (simp add: triple_ret)
next
  case (Cons tr trs)
  have "triple (counted it acc)
    (handle_trade env it (normalize_venue (li_venue it)) symbol (strip (opt_str_or (li_exchange_order_id it) '''')) tr acc) (counted it)"
    by (rule triple_handle_trade) (rule Cons.prems, simp)
  then show ?case using Cons.IH Cons.prems by (auto intro: triple_bnd)
qed

lemma holds_cursor: "triple P (write_cursor venue symbol m) (\<lambda>_. P)"
proof (rule tripleI)
  fix w r w'
  assume 1: "I (rw_queue w) (rw_db w)" "P (rw_db w)" "write_cursor venue symbol m w = (r, w')"
  show "I (rw_queue w') (rw_db w') \<and> (\<forall>x. r = Inr x \<longrightarrow> P (rw_db w'))"
  proof (cases "live_set_state (cursor_key venue symbol) (TxNum (of_int (m + 1))) (rw_queue w)")
    case (Inl e)
    then show ?thesis using 1 by (auto simp: write_cursor_def split: if_splits)
  next
    case (Inr q)
    then show ?thesis using 1 state_kept[OF 1(1) Inr] by (auto simp: write_cursor_def split: if_splits)
  qed
qed

lemma triple_filled:
  assumes it: "it \<in> set its"
  shows "triple (ev it) (filled_transition env it venue symbol ex_oid action n) (\<lambda>_ _. True)"
  unfolding filled_transition_def
  by (rule triple_bnd[OF holds_status[OF it]]) (auto intro: triple_ret triple_weaken[OF quiet_effects(2)])

lemma triple_finish:
  assumes it: "it \<in> set its"
  shows "triple (counted it acc)
    (finish_filled env it (normalize_venue (li_venue it)) symbol (strip (opt_str_or (li_exchange_order_id it) '''')) (ta_count acc))
    (\<lambda>_ _. True)"
proof (rule tripleI)
  fix w r w'
  let ?m = "finish_filled env it (normalize_venue (li_venue it)) symbol (strip (opt_str_or (li_exchange_order_id it) '''')) (ta_count acc)"
  assume 1: "I (rw_queue w) (rw_db w)" "counted it acc (rw_db w)" "?m w = (r, w')"
  note f = tripleD[OF triple_filled[OF it] 1(1)]
  have d: "holds (rbnd (rq_write env it ''submitted'' a) (\<lambda>_. rret ()))" for a
    by (intro holds_bnd holds_plain[OF it] triple_ret) simp_all
  show "I (rw_queue w') (rw_db w') \<and> (\<forall>x. r = Inr x \<longrightarrow> True)"
  proof (cases "0 < ta_count acc")
    case True
    then show ?thesis using 1 f by (auto simp: finish_filled_def counted_def)
  next
    case False
    show ?thesis using 1(3) False f ev_lookback[OF 1(1)] tripleD[OF d 1(1) TrueI]
      by (auto simp: finish_filled_def Let_def split: if_splits)
  qed
qed

lemma triple_fetch:
  "triple P (\<lambda>w. (map_sum RPy id (rv_trades env (rw_tick w) symbol since), rtick w))
    (\<lambda>trs db. P db \<and> (\<exists>n. rv_trades env n symbol since = Inr trs))"
proof (rule tripleI)
  fix w r w'
  assume 1: "I (rw_queue w) (rw_db w)" "P (rw_db w)"
    "(map_sum RPy id (rv_trades env (rw_tick w) symbol since), rtick w) = (r, w')"
  have w': "w' = rtick w" "r = map_sum RPy id (rv_trades env (rw_tick w) symbol since)" using 1(3) by auto
  have "rv_trades env (rw_tick w) symbol since = Inr x" if "r = Inr x" for x
    using that w'(2) by (cases "rv_trades env (rw_tick w) symbol since") auto
  then show "I (rw_queue w') (rw_db w') \<and>
      (\<forall>x. r = Inr x \<longrightarrow> P (rw_db w') \<and> (\<exists>n. rv_trades env n symbol since = Inr x))"
    using 1 by (auto simp: w'(1) rtick_def)
qed

lemma triple_handle_fetched:
  "triple (\<lambda>db. counted it acc db \<and> (\<exists>n. rv_trades env n (normalize_symbol (li_symbol it)) since = Inr trs))
    (handle_trades env it (normalize_venue (li_venue it)) symbol (strip (opt_str_or (li_exchange_order_id it) '''')) trs acc) (counted it)"
proof (cases "\<exists>n. rv_trades env n (normalize_symbol (li_symbol it)) since = Inr trs")
  case True
  have "triple (counted it acc)
    (handle_trades env it (normalize_venue (li_venue it)) symbol (strip (opt_str_or (li_exchange_order_id it) '''')) trs acc) (counted it)"
    using True by (intro triple_handle_trades) blast
  then show ?thesis by (rule triple_weaken) simp_all
next
  case False
  then show ?thesis by (simp add: triple_def)
qed

lemma holds_follow:
  assumes it: "it \<in> set its"
  shows "holds (follow_trades env it (normalize_venue (li_venue it)) (normalize_symbol (li_symbol it))
    (strip (opt_str_or (li_exchange_order_id it) '''')) pending)"
proof -
  have c0: "counted it start_acc db" for db by (simp add: counted_def start_acc_def)
  have fetch: "triple (\<lambda>_. True) (\<lambda>w. (map_sum RPy id (rv_trades env (rw_tick w) (normalize_symbol (li_symbol it)) since), rtick w))
    (\<lambda>trs db. counted it start_acc db \<and> (\<exists>n. rv_trades env n (normalize_symbol (li_symbol it)) since = Inr trs))" for since
    by (rule triple_weaken[OF triple_fetch]) (use c0 in auto)
  show ?thesis
    unfolding follow_trades_def
    by (rule triple_bnd[OF quiet_effects(6)], rule triple_bnd[OF quiet_effects(1)], rule triple_bnd[OF fetch],
        rule triple_bnd[OF triple_handle_fetched], rule triple_bnd[OF holds_cursor])
      (simp add: triple_finish[OF it] triple_ret)
qed

lemma holds_route:
  assumes it: "it \<in> set its"
  shows "holds (route_order env it venue symbol ex_oid ts age stale ord)"
  unfolding route_order_def Let_def
  by (auto intro!: triple_ret holds_bnd holds_plain[OF it] quiet_effects(2))

lemma holds_order_failed:
  assumes it: "it \<in> set its"
  shows "holds (order_failed env it venue symbol ex_oid ts age stale e)"
  unfolding order_failed_def Let_def
  by (auto intro!: triple_ret holds_bnd holds_plain[OF it] quiet_effects(2))

lemma holds_order:
  assumes it: "it \<in> set its"
  shows "holds (reconcile_order env it (normalize_venue (li_venue it)) (normalize_symbol (li_symbol it))
    (strip (opt_str_or (li_exchange_order_id it) '''')) ts age stale)"
  unfolding reconcile_order_def
  by (intro holds_bnd quiet_effects(4,5))
    (auto intro!: triple_ret triple_throw holds_bnd holds_plain[OF it] holds_route[OF it] holds_follow[OF it] quiet_effects(2)
      split: option.split order_route.split)

lemma holds_intent:
  assumes it: "it \<in> set its"
  shows "holds (reconcile_live_intent env it)"
proof -
  let ?go = "\<lambda>ts stale age. rtry (reconcile_order env it (normalize_venue (li_venue it)) (normalize_symbol (li_symbol it))
    (strip (opt_str_or (li_exchange_order_id it) '''')) ts age stale)
    (order_failed env it (normalize_venue (li_venue it)) (normalize_symbol (li_symbol it))
      (strip (opt_str_or (li_exchange_order_id it) '''')) ts age stale)"
  have go: "holds (?go ts stale age)" for ts stale age
    by (rule holds_try[OF holds_order[OF it] holds_order_failed[OF it]])
  have t: "holds (\<lambda>w. ?go ts stale (age w) (rtick w))" for ts stale and age :: "rworld \<Rightarrow> int"
  proof (rule tripleI)
    fix w r w'
    assume 1: "I (rw_queue w) (rw_db w)" "?go ts stale (age w) (rtick w) = (r, w')"
    have "I (rw_queue (rtick w)) (rw_db (rtick w))" using 1(1) by (simp add: rtick_def)
    from tripleD[OF go this TrueI 1(2)] show "I (rw_queue w') (rw_db w') \<and> (\<forall>x. r = Inr x \<longrightarrow> True)" .
  qed
  show ?thesis
    unfolding reconcile_live_intent_def Let_def
    by (auto intro!: triple_ret triple_throw holds_bnd quiet_effects(4) holds_recover[OF it] t split: sum.split)
qed

lemma holds_each: "set xs \<subseteq> set its \<Longrightarrow> holds (reconcile_each env xs)"
  by (induction xs) (auto intro!: triple_ret holds_bnd holds_intent)

lemma pass_kept:
  assumes "reconcile_each env its w = (r, w')" "I (rw_queue w) (rw_db w)"
  shows "I (rw_queue w') (rw_db w')"
  using tripleD[OF holds_each[OF subset_refl] assms(2) TrueI assms(1)] by blast

end

section \<open>A pass only takes queue steps\<close>

lemma reconciler_write_step:
  "update_live_queue_status_as_reconciler now snap s c a q = Inr (b, q') \<Longrightarrow> live_queue_step q q'"
  by (auto simp: update_live_queue_status_as_reconciler_def Let_def split: if_splits sum.splits dest: arg_cong[of _ _ snd])
    (metis live_queue_step.update snd_conv)

interpretation pass_steps: pass_invariant env its "\<lambda>q db. live_queue_step\<^sup>*\<^sup>* q0 q" "\<lambda>it db. True" for env its q0
  by unfold_locales (auto intro: rtranclp.rtrancl_into_rtrancl reconciler_write_step live_queue_step.state)

lemma queue_run_inv: "live_queue_step\<^sup>*\<^sup>* q q' \<Longrightarrow> live_queue_inv q \<Longrightarrow> live_queue_inv q'"
  by (induction rule: rtranclp_induct) (auto intro: live_queue_step_inv)

text \<open>C23. A reconcile pass moves intents along the lifecycle only. Whatever the exchange, the sink and the databases do, also
  when the pass ends with an exception, the queue keeps its invariant, every intent stays in the queue, its status goes along
  lifecycle steps, and a terminal status stays.\<close>

theorem reconcile_pass_lifecycle:
  assumes "live_queue_inv (rw_queue w)" "reconcile_pass env w = (r, w')" "status_of i (rw_queue w) = Some s"
  shows "live_queue_inv (rw_queue w') \<and>
    (\<exists>s'. status_of i (rw_queue w') = Some s' \<and> lifecycle_step\<^sup>*\<^sup>* s s' \<and> (s \<in> set live_queue_terminal_statuses \<longrightarrow> s' = s))"
proof -
  have steps: "live_queue_step\<^sup>*\<^sup>* (rw_queue w) (rw_queue w')"
    using pass_steps.pass_kept[OF assms(2)[unfolded reconcile_pass_def]] by simp
  show ?thesis
    using queue_run_inv[OF steps assms(1)] live_lifecycle.run_status[OF steps assms(1,3)]
      live_lifecycle.terminal_final[OF steps assms(1,3)] by auto
qed

section \<open>A filled intent is in the journal\<close>

lemma executor_on_fill_rows:
  assumes "executor_on_fill env fill db = (a, db')"
  shows "\<exists>ys. journal_rows (es_journal (ac_store db')) = journal_rows (es_journal (ac_store db)) @ ys"
proof -
  let ?s = "(ac_store db)\<lparr>es_journal := journal_ensure_schema (es_journal (ac_store db))\<rparr>"
  let ?db = "db\<lparr>ac_store := ?s\<rparr>"
  have c: "sink_on_fill env fill ?db = (a, db')" using assms by (simp add: executor_on_fill_def)
  have "\<exists>ys. journal_rows (es_journal (ac_store db')) = journal_rows (es_journal (ac_store ?db)) @ ys"
  proof (cases rule: sink_on_fill_cases[of env fill ?db])
    case (failed e db1)
    then show ?thesis using c by (auto simp: record_failed_def dest: cutover_counts)
  next
    case missing
    then show ?thesis using c by simp
  next
    case (entered t s fee r)
    have j: "es_journal s = es_journal (ac_store ?db)" using cutover_counts[OF entered(1)] by simp
    have "es_journal (ac_store db') = record_fill r (es_journal s)"
      using c entered(4) sink_account_outbox[of env fill r "journal_entry s r ?db"]
      by (auto simp: journal_entry_def split: if_splits)
    then show ?thesis using record_fill_prefix[of r "es_journal s"] j by simp
  qed
  then show ?thesis by (simp add: journal_ensure_schema_def)
qed

text \<open>The venue the sink journals a report of this intent under, and the evidence for its \<open>filled\<close> status: a trade the
  exchange reported for its order, or a row that carries one of its order ids.\<close>

definition live_journal_venue :: "live_intent \<Rightarrow> string" where
  "live_journal_venue it = str_or (normalize_venue (li_venue it)) ''unknown''"

definition fill_backed :: "renv \<Rightarrow> live_intent \<Rightarrow> journal_table \<Rightarrow> bool" where
  "fill_backed env it j \<longleftrightarrow>
     (\<exists>tr. reported_trade env it tr \<and> journalled (live_journal_venue it, live_trade_tid tr) j) \<or>
     0 < accounted_fills_for_order j (normalize_venue (li_venue it)) (opt_str_or (li_client_order_id it) '''')
           (strip (opt_str_or (li_exchange_order_id it) ''''))"

lemma live_report_key:
  assumes "live_trade_tid tr \<noteq> ''''" "flr_venue r = normalize_venue (li_venue it)" "flr_trade_id r = live_trade_tid tr"
  shows "sink_key (live_sink_report it r ex_oid tr qty price fee pnl) = (live_journal_venue it, live_trade_tid tr)"
    "jtruthy (sink_fid (live_sink_report it r ex_oid tr qty price fee pnl))"
  using assms by (simp_all add: sink_key_def sink_venue_def sink_fid_def live_sink_report_def jget_def jor_def
      live_journal_venue_def str_or_def split: option.split)

lemma fill_backed_kept:
  assumes "fill_backed env it (es_journal (ac_store db))" "executor_on_fill e fill db = (a, db')"
  shows "fill_backed env it (es_journal (ac_store db'))"
proof -
  obtain ys where "journal_rows (es_journal (ac_store db')) = journal_rows (es_journal (ac_store db)) @ ys"
    using executor_on_fill_rows[OF assms(2)] by blast
  then show ?thesis using assms(1)
    by (auto simp: fill_backed_def journalled_def accounted_fills_for_order_def Let_def split: if_splits)
qed

definition filled_backed :: "renv \<Rightarrow> live_intent list \<Rightarrow> live_queue \<Rightarrow> exec_store \<Rightarrow> live_queue \<Rightarrow> account_db \<Rightarrow> bool" where
  "filled_backed env its q0 s0 q db \<longleftrightarrow> live_queue_inv q \<and> journal_start s0 \<and> loss_reach s0 (ac_store db) \<and>
     (\<forall>i. status_of i q = Some ''filled'' \<longrightarrow> status_of i q0 = Some ''filled'' \<or>
        (\<exists>it \<in> set its. strip (li_intent_id it) = i \<and> fill_backed env it (es_journal (ac_store db))))"

lemma status_after_update:
  assumes "status_of i (snd (live_update_status now j st a q)) = Some s"
  shows "status_of i q = Some s \<or> i = j \<and> s = normalize_live_queue_status st"
proof (cases "select_key li_intent_id i (lq_intents q)")
  case None
  then show ?thesis using assms
    by (auto simp: live_update_status_def Let_def status_of_def select_key_upd_where split: if_splits)
next
  case (Some x)
  then show ?thesis using assms select_key_Some_mem[OF Some]
    by (auto simp: live_update_status_def Let_def status_of_def select_key_upd_where split: if_splits)
qed

lemma normalize_literals:
  "normalize_live_queue_status (Some ''submitted'') = ''submitted''" "normalize_live_queue_status (Some ''canceled'') = ''canceled''"
  "normalize_live_queue_status (Some ''rejected'') = ''rejected''" "normalize_live_queue_status (Some ''error'') = ''error''"
  by code_simp+

lemma plain_not_filled: "plain_status s \<Longrightarrow> normalize_live_queue_status (Some s) \<noteq> ''filled''"
  by (auto simp: plain_status_def normalize_literals)

lemma filled_backed_write:
  assumes inv: "filled_backed env its q0 s0 q db" and it: "it \<in> set its"
    and s: "plain_status s \<or> s = ''filled'' \<and> fill_backed env it (es_journal (ac_store db))"
    and w: "update_live_queue_status_as_reconciler now (live_snap it) (Some s) c a q = Inr (b, q')"
  shows "filled_backed env its q0 s0 q' db"
proof -
  let ?i = "strip (li_intent_id it)"
  obtain r a' where v: "validate_reconciler_live_queue_transition (Some (li_status it)) (Some s) = Inr r"
    and u: "live_update_status now ?i (Some r) a' q = (b, q')"
    using w by (auto simp: update_live_queue_status_as_reconciler_def validated_reconciler_live_queue_status_def
        live_snap_def opt_str_or_def str_or_def Let_def split: if_splits sum.splits)
  have q': "q' = snd (live_update_status now ?i (Some r) a' q)" using u by simp
  have st: "normalize_live_queue_status (Some r) = normalize_live_queue_status (Some s)"
    using validators_return_normal(1)[OF v] by simp
  have "status_of i q = Some ''filled'' \<or> i = ?i \<and> fill_backed env it (es_journal (ac_store db))"
    if "status_of i q' = Some ''filled''" for i
    using status_after_update[OF that[unfolded q']] s plain_not_filled st by fastforce
  moreover have "live_queue_inv q'"
    using live_queue_step_inv[OF reconciler_write_step[OF w]] inv by (simp add: filled_backed_def)
  ultimately show ?thesis using inv it unfolding filled_backed_def by blast
qed

interpretation pass_filled: pass_invariant env its "filled_backed env its q0 s0"
  "\<lambda>it db. fill_backed env it (es_journal (ac_store db))" for env its q0 s0
proof (unfold_locales, goal_cases)
  case (1 q db it s now a b q')
  then show ?case by (rule filled_backed_write)
next
  case (2 q db k v q')
  then show ?case by (auto simp: filled_backed_def live_set_state_def split: if_splits)
next
  case (3 q db e fill x db')
  then have "loss_reach s0 (ac_store db')" by (auto simp: filled_backed_def intro: executor_on_fill_effect(1))
  then show ?case using 3 fill_backed_kept[OF _ 3(2)] unfolding filled_backed_def by blast
next
  case (4 q db it e fill x db')
  then show ?case by (blast intro: fill_backed_kept)
next
  case (5 q db it tr r e ex_oid qty price fee pnl db')
  have s: "journal_start s0" "loss_reach s0 (ac_store db)" using 5(1) by (simp_all add: filled_backed_def)
  have t: "live_trade_tid tr \<noteq> ''''" using 5(2) by (simp add: reported_trade_def)
  note k = live_report_key[OF t 5(3,4)]
  have "journalled (live_journal_venue it, live_trade_tid tr) (es_journal (ac_store db'))"
    using executor_on_fill_effect(4)[OF s 5(5) refl k(2)] by (simp add: k(1))
  then show ?case using 5(2) unfolding fill_backed_def by blast
next
  case (6 q db it)
  then show ?case by (simp add: fill_backed_def)
qed

text \<open>C4. The live reconciler writes \<open>filled\<close> only for fills that are in the books. Whatever the exchange answers,
  whichever delivery or database write fails and whether the pass ends normally or with an exception: an
  intent that is \<open>filled\<close> after a pass and was not before has a fill in the canonical journal, either a trade the exchange
  reported for its order or a row that carries one of its order ids.\<close>

theorem live_filled_is_journalled:
  assumes "live_queue_inv (rw_queue w)" "journal_start s0" "loss_reach s0 (ac_store (rw_db w))"
    and "reconcile_pass env w = (r, w')" "status_of i (rw_queue w') = Some ''filled''"
    and "status_of i (rw_queue w) \<noteq> Some ''filled''"
  shows "\<exists>it \<in> set (live_list_intents 60 (Some ''submitted'') (rw_queue w) @ live_list_intents 60 (Some ''submit_unknown'') (rw_queue w)).
     strip (li_intent_id it) = i \<and> fill_backed env it (es_journal (ac_store (rw_db w')))"
proof -
  let ?its = "live_list_intents 60 (Some ''submitted'') (rw_queue w) @ live_list_intents 60 (Some ''submit_unknown'') (rw_queue w)"
  have "filled_backed env ?its (rw_queue w) s0 (rw_queue w) (rw_db w)" using assms by (simp add: filled_backed_def)
  from pass_filled.pass_kept[OF assms(4)[unfolded reconcile_pass_def] this]
  show ?thesis using assms(5,6) unfolding filled_backed_def by blast
qed

section \<open>A sample world\<close>

definition live_sample_write :: "string \<Rightarrow> string option \<Rightarrow> status_write" where
  "live_sample_write c x = \<lparr>sw_last_error = None, sw_client_order_id = Some c, sw_exchange_order_id = x,
     sw_event_actor = None, sw_event_action = None, sw_event_reason = None, sw_event_meta = None\<rparr>"

text \<open>The sample intent after its submit, with the exchange's order id or with an unknown outcome.\<close>

definition live_sample_queue :: "string \<Rightarrow> string option \<Rightarrow> live_queue" where
  "live_sample_queue st x = snd (live_update_status ''n3'' ''i1'' (Some st) (live_sample_write ''c1'' x) sample_queue_queued)"

lemma live_sample_reachable: "live_queue_reachable (live_sample_queue st x)"
  unfolding live_sample_queue_def by (rule live_queue_reachable.step[OF sample_queued_reachable live_queue_step.update])

definition live_sample_row :: canonical_row where
  "live_sample_row = (sink_sample_row ''f1'')\<lparr>cf_venue := ''coinbase'', cf_order_id := ''x1''\<rparr>"

definition live_sample_db :: account_db where
  "live_sample_db = empty_account\<lparr>ac_store := empty_exec_store\<lparr>es_journal := record_fill live_sample_row None\<rparr>\<rparr>"

lemma live_sample_db_reach: "loss_reach empty_exec_store (ac_store live_sample_db)"
proof -
  have "ac_store live_sample_db = empty_exec_store\<lparr>es_journal := record_fill live_sample_row (es_journal empty_exec_store)\<rparr>"
    by (simp add: live_sample_db_def empty_exec_store_def)
  then show ?thesis using loss_reach.step[OF loss_reach.start loss_step.journal, of empty_exec_store live_sample_row] by simp
qed

definition live_sample_world :: "live_queue \<Rightarrow> rworld" where
  "live_sample_world q = \<lparr>rw_queue = q, rw_orders = empty_live_trading, rw_db = live_sample_db, rw_tick = 0, rw_fills_seen = 0\<rparr>"

text \<open>An exchange that reports the order as closed and lists no trades and no orders.\<close>

definition live_sample_env :: "exn + json list \<Rightarrow> renv" where
  "live_sample_env listing = \<lparr>rv_now = (\<lambda>n. ''n''), rv_now_ms = (\<lambda>n. 2000000), rv_fromiso = (\<lambda>s. None), rv_err_text = (\<lambda>e. ''err''),
     rv_stale_ms = Some ''60'', rv_overlap_ms = Some ''60'', rv_terminal_ms = EnvUnset, rv_min_obs = EnvUnset, rv_symbol_map = [],
     rv_adapter = (\<lambda>n v. None), rv_order = (\<lambda>n y x. Inr (Some [(''status'', JStr ''closed'')])),
     rv_trades = (\<lambda>n y s. Inr []), rv_open = (\<lambda>n y. listing), rv_closed = (\<lambda>n y. Some listing),
     rv_sink = (\<lambda>n. sink_sample_env)\<rparr>"

definition live_sample_intent :: "string \<Rightarrow> string option \<Rightarrow> live_intent" where
  "live_sample_intent st x = (live_intent_of_row ''n1'' (Fin 1) None sample_row)\<lparr>li_status := st, li_last_error := None,
     li_client_order_id := Some ''c1'', li_exchange_order_id := x, li_updated_ts := ''n3''\<rparr>"

lemma live_sample_intent_fields [simp]:
  "li_intent_id (live_sample_intent st x) = ''i1''" "li_status (live_sample_intent st x) = st"
  "li_venue (live_sample_intent st x) = ''coinbase''" "li_symbol (live_sample_intent st x) = ''BTC/USD''"
  "li_client_order_id (live_sample_intent st x) = Some ''c1''" "li_exchange_order_id (live_sample_intent st x) = x"
  "li_updated_ts (live_sample_intent st x) = ''n3''" "li_qty (live_sample_intent st x) = Fin 1"
  "li_limit_price (live_sample_intent st x) = None"
  by (simp_all add: live_sample_intent_def live_intent_of_row_def sample_row_def opt_str_or_def)

lemma live_sample_intents:
  "lq_intents (live_sample_queue ''submitted'' x) = [live_sample_intent ''submitted'' x]"
  "lq_intents (live_sample_queue ''submit_unknown'' x) = [live_sample_intent ''submit_unknown'' x]"
  by (simp_all add: live_sample_queue_def live_update_status_def Let_def sample_queued_intents rowcount_def upd_where_def
      live_sample_write_def live_status_guard_def live_intent_of_row_def sample_row_def live_sample_intent_def coalesce_def
      split: option.split)

lemma live_sample_listed:
  "live_list_intents 60 (Some ''submitted'') (live_sample_queue ''submitted'' x) = [live_sample_intent ''submitted'' x]"
  "live_list_intents 60 (Some ''submit_unknown'') (live_sample_queue ''submitted'' x) = []"
  "live_list_intents 60 (Some ''submitted'') (live_sample_queue ''submit_unknown'' x) = []"
  "live_list_intents 60 (Some ''submit_unknown'') (live_sample_queue ''submit_unknown'' x) = [live_sample_intent ''submit_unknown'' x]"
  by (simp_all add: live_list_intents_def live_sample_intents sql_limit_def truthy_def)

text \<open>A write the validator and the queue's guard accept.\<close>

lemma reconciler_write_done:
  assumes inv: "live_queue_inv q" and st: "status_of (strip (li_intent_id it)) q = Some s" "strip (li_intent_id it) \<noteq> ''''"
    and v: "validate_reconciler_live_queue_transition (Some (li_status it)) (Some t) = Inr t" and g: "live_status_guard s t"
  shows "\<exists>q'. update_live_queue_status_as_reconciler now (live_snap it) (Some t) (Some live_reconciler_ctx) a q = Inr (True, q') \<and>
    status_of (strip (li_intent_id it)) q' = Some t"
proof -
  let ?i = "strip (li_intent_id it)"
  have n: "normalize_live_queue_status (Some t) = t" using validators_return_normal(1)[OF v] by simp
  obtain x where x: "select_key li_intent_id ?i (lq_intents q) = Some x" "li_status x = s"
    using st by (auto simp: status_of_def)
  have d: "distinct (map li_intent_id (lq_intents q))" using inv by (simp add: live_queue_inv_def)
  have rc: "rowcount (\<lambda>y. li_intent_id y = ?i \<and> live_status_guard (li_status y) t) (lq_intents q) = 1"
    using rowcount_key[OF d, of ?i "\<lambda>y. live_status_guard (li_status y) t"] x g by simp
  have id: "str_or (li_intent_id it) [] = li_intent_id it" by (simp add: str_or_def)
  show ?thesis
    using st x g v rc select_key_Some_mem[OF x(1)]
    by (auto simp: update_live_queue_status_as_reconciler_def validated_reconciler_live_queue_status_def authorize_state_write_def
        live_reconciler_ctx_def live_snap_def opt_str_or_def id Let_def live_update_status_def n status_of_def select_key_upd_where)
qed

lemma live_sample_values:
  "normalize_venue ''coinbase'' = ''coinbase''" "normalize_symbol ''BTC/USD'' = ''BTC/USD''" "strip ''x1'' = ''x1''"
  "strip ''i1'' = ''i1''" "strip ''c1'' = ''c1''" "ts_to_ms (\<lambda>s. None) ''n3'' = 0"
  by code_simp+

lemma live_sample_env_fields:
  "rv_adapter (live_sample_env l) n v = None" "rv_order (live_sample_env l) n y x = Inr (Some [(''status'', JStr ''closed'')])"
  "rv_trades (live_sample_env l) n y since = Inr []" "rv_open (live_sample_env l) n y = l" "rv_closed (live_sample_env l) n y = Some l"
  "rv_fromiso (live_sample_env l) = (\<lambda>s. None)" "rv_now_ms (live_sample_env l) n = 2000000" "rv_symbol_map (live_sample_env l) = []"
  "env_int (rv_stale_ms (live_sample_env l)) d = Inr 60" "env_int (rv_overlap_ms (live_sample_env l)) d = Inr 60"
proof -
  have "int_of_text ''60'' = Some 60" by code_simp
  then show "env_int (rv_stale_ms (live_sample_env l)) d = Inr 60" "env_int (rv_overlap_ms (live_sample_env l)) d = Inr 60"
    by (simp_all add: env_int_def opt_str_or_def live_sample_env_def str_or_def)
qed (simp_all add: live_sample_env_def)

lemma live_sample_status: "status_of ''i1'' (live_sample_queue ''submitted'' x) = Some ''submitted''"
  "status_of ''i1'' (live_sample_queue ''submit_unknown'' x) = Some ''submit_unknown''"
  by (simp_all add: status_of_def live_sample_intents select_key_Cons)

lemma live_sample_state: "live_get_state k (live_sample_queue st x) = None"
  by (simp add: live_get_state_def live_sample_queue_def live_update_status_def Let_def sample_queue_queued_def
      live_upsert_intent_def live_finite_real_input_def sample_row_def empty_live_queue_def decimal_value_def
      insert_intent_event_def)

lemma live_sample_lookback:
  "accounted_fills_for_order (es_journal (ac_store live_sample_db)) ''coinbase'' ''c1'' ''x1'' = 1"
  by (simp add: accounted_fills_for_order_def live_sample_db_def record_fill_def journal_ensure_schema_def live_sample_row_def
      sink_sample_row_def live_sample_values Let_def)

lemma live_sample_filled:
  "\<exists>r w'. reconcile_pass (live_sample_env l) (live_sample_world (live_sample_queue ''submitted'' (Some ''x1''))) = (r, w') \<and>
     status_of ''i1'' (rw_queue w') = Some ''filled''"
proof -
  let ?q = "live_sample_queue ''submitted'' (Some ''x1'')"
  let ?it = "live_sample_intent ''submitted'' (Some ''x1'')"
  have v: "validate_reconciler_live_queue_transition (Some ''submitted'') (Some ''filled'') = Inr ''filled''" by code_simp
  have "\<exists>q'. update_live_queue_status_as_reconciler now (live_snap ?it) (Some ''filled'') (Some live_reconciler_ctx) a ?q = Inr (True, q') \<and>
      status_of ''i1'' q' = Some ''filled''" for now a
    using reconciler_write_done[OF live_queue_reachable_inv[OF live_sample_reachable], of ?it "''submitted''" "Some ''x1''" "''submitted''" "''filled''" now a]
      live_sample_status v by (simp add: live_sample_values live_status_guard_def)
  then obtain q' where w: "\<And>now a. update_live_queue_status_as_reconciler now (live_snap ?it) (Some ''filled'')
      (Some live_reconciler_ctx) a ?q = Inr (True, q' now a)" "\<And>now a. status_of ''i1'' (q' now a) = Some ''filled''"
    by metis
  let ?e = "live_sample_env l"
  define w where "w = rtick (rtick (rtick (live_sample_world ?q)))"
  have wq: "rw_queue w = ?q" "rw_db w = live_sample_db" by (simp_all add: w_def rtick_def live_sample_world_def)
  have fin: "status_of ''i1'' (rw_queue (snd (finish_filled ?e ?it ''coinbase'' ''BTC/USD'' ''x1'' 0 (rtick w)))) = Some ''filled''"
    by (simp add: finish_filled_def wq rtick_def opt_str_or_def str_or_def live_sample_lookback filled_transition_def rbnd_def rq_write_def
        w rorder_write_def split: sum.split)
  have fol: "follow_trades ?e ?it ''coinbase'' ''BTC/USD'' ''x1'' True w = finish_filled ?e ?it ''coinbase'' ''BTC/USD'' ''x1'' 0 (rtick w)"
    by (simp add: follow_trades_def rbnd_def read_cursor_def wq live_sample_state lift_def live_sample_env_fields rret_def start_acc_def
        write_cursor_def)
  have rt: "route_order ?e ?it ''coinbase'' ''BTC/USD'' ''x1'' 0 0 60 [(''status'', JStr ''closed'')] w = (Inr (OnWith True), w)"
  proof -
    have "strip (lower ''closed'') = ''closed''" by code_simp
    then show ?thesis by (simp add: route_order_def Let_def jget_def jor_def str_or_def rret_def)
  qed
  have ord: "reconcile_order ?e ?it ''coinbase'' ''BTC/USD'' ''x1'' 0 0 60 (rtick (live_sample_world ?q)) =
      finish_filled ?e ?it ''coinbase'' ''BTC/USD'' ''x1'' 0 (rtick w)"
    by (simp add: reconcile_order_def rbnd_def adapter_act_def live_sample_env_fields stale_now_def rt[unfolded w_def] fol[unfolded w_def] w_def)
  have int: "reconcile_live_intent ?e ?it (live_sample_world ?q) = rtry (reconcile_order ?e ?it ''coinbase'' ''BTC/USD'' ''x1'' 0 0 60)
      (order_failed ?e ?it ''coinbase'' ''BTC/USD'' ''x1'' 0 0 60) (rtick (live_sample_world ?q))"
    by (simp add: reconcile_live_intent_def Let_def live_sample_values opt_str_or_def str_or_def live_sample_env_fields)
  have "status_of ''i1'' (rw_queue (snd (reconcile_live_intent ?e ?it (live_sample_world ?q)))) = Some ''filled''"
    unfolding int rtry_def ord using fin
    by (auto simp: order_failed_def stale_now_def rret_def split: prod.split sum.split)
  then show ?thesis
    by (auto simp: reconcile_pass_def live_sample_world_def live_sample_listed rbnd_def rret_def split: prod.split sum.split)
qed

theorem live_filled_is_journalled_witness:
  "\<exists>it r w'. reconcile_pass (live_sample_env (Inr [])) (live_sample_world (live_sample_queue ''submitted'' (Some ''x1''))) = (r, w') \<and>
     strip (li_intent_id it) = ''i1'' \<and> fill_backed (live_sample_env (Inr [])) it (es_journal (ac_store (rw_db w')))"
proof -
  obtain r w' where w': "reconcile_pass (live_sample_env (Inr [])) (live_sample_world (live_sample_queue ''submitted'' (Some ''x1''))) = (r, w')"
    "status_of ''i1'' (rw_queue w') = Some ''filled''"
    using live_sample_filled[of "Inr []"] by blast
  show ?thesis
    using live_filled_is_journalled[OF _ sink_sample_start(1) _ w'] live_queue_reachable_inv[OF live_sample_reachable]
      live_sample_db_reach live_sample_status w'(1)
    by (fastforce simp: live_sample_world_def)
qed

section \<open>The trade cursor\<close>

text \<open>What one turn of the trade loop does to the accumulator: nothing, count the trade, or block the cursor.\<close>

lemma emit_returns: "\<exists>ok w'. emit_live_fill env fill w = (Inr ok, w')"
  by (cases "executor_on_fill (rv_sink env (rw_tick w)) fill (rw_db w)") (simp add: emit_live_fill_def)

lemma handle_trade_cases:
  assumes "handle_trade env it venue symbol ex_oid tr acc w = (Inr acc', w')"
  obtains (skipped) "acc' = acc" "rw_db w' = rw_db w"
      "\<not> trade_matches_order ex_oid (opt_str_or (li_client_order_id it) '''') tr \<or> live_trade_tid tr = ''''"
  | (emitted) ts r qty price fee pnl w1 ok w2 where "live_trade_ts tr = Inr ts" "rw_db w1 = rw_db w"
      "trade_matches_order ex_oid (opt_str_or (li_client_order_id it) '''') tr" "live_trade_tid tr \<noteq> ''''"
      "flr_venue r = venue" "flr_trade_id r = live_trade_tid tr"
      "emit_live_fill env (live_sink_report it r ex_oid tr qty price fee pnl) w1 = (Inr ok, w2)" "rw_db w' = rw_db w2"
      "acc' = (if ok then count_fill ts acc else acc\<lparr>ta_blocked := True\<rparr>)"
proof (cases "trade_matches_order ex_oid (opt_str_or (li_client_order_id it) '''') tr")
  case False
  then show ?thesis using assms by (intro skipped) (auto simp: handle_trade_def rret_def)
next
  case m: True
  obtain ts where ts: "live_trade_ts tr = Inr ts"
    using assms m by (cases "live_trade_ts tr") (auto simp: handle_trade_def rbnd_def lift_def)
  show ?thesis
  proof (cases "live_trade_tid tr = ''''")
    case True
    then show ?thesis using assms m ts by (intro skipped) (auto simp: handle_trade_def rbnd_def lift_def rret_def)
  next
    case t: False
    obtain qty price where n: "trade_numbers tr = Inr (qty, price)"
      using assms m ts t by (cases "trade_numbers tr") (auto simp: handle_trade_def rbnd_def lift_def)
    let ?r = "live_fill_row_of it venue symbol ex_oid (rv_now env (rw_tick w)) tr qty price"
    obtain l where l: "live_insert_fill ?r (rtick w) = (Inr (), (rtick w)\<lparr>rw_orders := l\<rparr>)"
      using assms m ts t n
      by (cases "insert_fill ?r (rw_orders (rtick w))") (auto simp: handle_trade_def rbnd_def lift_def live_insert_fill_def Let_def)
    obtain fee where f: "trade_fee_usd tr = Inr fee"
      using assms m ts t n l by (cases "trade_fee_usd tr") (auto simp: handle_trade_def rbnd_def lift_def Let_def)
    obtain pnl where p: "realized_pnl_of tr = Inr pnl"
      using assms m ts t n l f by (cases "realized_pnl_of tr") (auto simp: handle_trade_def rbnd_def lift_def Let_def)
    let ?w1 = "(rtick w)\<lparr>rw_orders := l\<rparr>"
    obtain ok w2 where e: "emit_live_fill env (live_sink_report it ?r ex_oid tr qty price fee pnl) ?w1 = (Inr ok, w2)"
      using emit_returns by blast
    have "acc' = (if ok then count_fill ts acc else acc\<lparr>ta_blocked := True\<rparr>)" "rw_db w' = rw_db w2"
      using assms m ts t n l f p e by (auto simp: handle_trade_def rbnd_def lift_def Let_def rret_def split: if_splits)
    then show ?thesis
      using emitted[OF ts _ m t _ _ e] by (simp add: live_fill_row_of_def rtick_def)
  qed
qed

lemma handle_trades_blocked:
  assumes "handle_trades env it venue symbol ex_oid trs acc w = (Inr acc', w')" "ta_blocked acc"
  shows "ta_max acc' = ta_max acc"
  using assms
proof (induction trs arbitrary: acc w)
  case (Cons tr trs)
  obtain acc1 w1 where h: "handle_trade env it venue symbol ex_oid tr acc w = (Inr acc1, w1)"
    and t: "handle_trades env it venue symbol ex_oid trs acc1 w1 = (Inr acc', w')"
    using Cons.prems(1) by (auto simp: rbnd_def split: prod.splits sum.splits)
  have "ta_blocked acc1 \<and> ta_max acc1 = ta_max acc"
    using h Cons.prems(2) by (cases rule: handle_trade_cases) (auto simp: count_fill_def)
  then show ?case using Cons.IH[OF t] by simp
qed (simp add: rret_def)

text \<open>The trades of an answer are in time order.\<close>

definition trade_time :: "dict \<Rightarrow> int" where
  "trade_time tr = (case live_trade_ts tr of Inl _ \<Rightarrow> 0 | Inr n \<Rightarrow> n)"

lemma handle_trades_append:
  "handle_trades env it venue symbol ex_oid (xs @ ys) acc =
     rbnd (handle_trades env it venue symbol ex_oid xs acc) (handle_trades env it venue symbol ex_oid ys)"
proof (induction xs arbitrary: acc)
  case (Cons x xs)
  then show ?case by (rule_tac ext) (simp add: rbnd_def split: prod.split sum.split)
qed (rule ext, simp add: rbnd_def rret_def)

text \<open>What a turn leaves in the journal: an accepted trade is journalled.\<close>

lemma emit_live_journals:
  assumes s: "journal_start s0" "loss_reach s0 (ac_store (rw_db w))"
    and e: "emit_live_fill env fill w = (Inr ok, w')"
  shows "loss_reach s0 (ac_store (rw_db w'))"
    "journalled k (es_journal (ac_store (rw_db w))) \<Longrightarrow> journalled k (es_journal (ac_store (rw_db w')))"
    "ok \<Longrightarrow> jtruthy (sink_fid fill) \<Longrightarrow> journalled (sink_key fill) (es_journal (ac_store (rw_db w')))"
proof -
  obtain a db where x: "executor_on_fill (rv_sink env (rw_tick w)) fill (rw_db w) = (a, db)" by fastforce
  have w': "rw_db w' = db" "ok = (a = SinkOk)" using e x by (auto simp: emit_live_fill_def rtick_def)
  note eff = executor_on_fill_effect[OF s x]
  show "loss_reach s0 (ac_store (rw_db w'))" using eff(1) by (simp add: w')
  show "journalled k (es_journal (ac_store (rw_db w')))" if "journalled k (es_journal (ac_store (rw_db w)))"
    using eff(3)[OF that] by (simp add: w')
  show "journalled (sink_key fill) (es_journal (ac_store (rw_db w')))" if "ok" "jtruthy (sink_fid fill)"
    using eff(4) that by (simp add: w')
qed

lemma handle_trade_journals:
  assumes s: "journal_start s0" "loss_reach s0 (ac_store (rw_db w))"
    and h: "handle_trade env it (normalize_venue (li_venue it)) symbol ex_oid tr acc w = (Inr acc', w')"
  shows "loss_reach s0 (ac_store (rw_db w')) \<and>
    (journalled k (es_journal (ac_store (rw_db w))) \<longrightarrow> journalled k (es_journal (ac_store (rw_db w')))) \<and>
    (trade_matches_order ex_oid (opt_str_or (li_client_order_id it) '''') tr \<and> live_trade_tid tr \<noteq> '''' \<and> \<not> ta_blocked acc' \<longrightarrow>
       journalled (live_journal_venue it, live_trade_tid tr) (es_journal (ac_store (rw_db w'))))"
  using h
proof (cases rule: handle_trade_cases)
  case skipped
  then show ?thesis using s by auto
next
  case (emitted ts r qty price fee pnl w1 ok w2)
  note e = emit_live_journals[OF s(1) s(2)[folded emitted(2)] emitted(7)]
  note k = live_report_key[OF emitted(4,5,6)]
  show ?thesis using e(1) e(2)[of k] e(3) emitted(2,8,9) by (simp add: k split: if_splits)
qed

lemma handle_trades_journals:
  assumes "journal_start s0" "loss_reach s0 (ac_store (rw_db w))"
    and "handle_trades env it (normalize_venue (li_venue it)) symbol ex_oid trs acc w = (Inr acc', w')"
  shows "loss_reach s0 (ac_store (rw_db w')) \<and>
    (journalled k (es_journal (ac_store (rw_db w))) \<longrightarrow> journalled k (es_journal (ac_store (rw_db w'))))"
  using assms
proof (induction trs arbitrary: acc w)
  case (Cons tr trs)
  obtain acc1 w1 where h: "handle_trade env it (normalize_venue (li_venue it)) symbol ex_oid tr acc w = (Inr acc1, w1)"
    and t: "handle_trades env it (normalize_venue (li_venue it)) symbol ex_oid trs acc1 w1 = (Inr acc', w')"
    using Cons.prems(3) by (auto simp: rbnd_def split: prod.splits sum.splits)
  show ?case using handle_trade_journals[OF Cons.prems(1,2) h, of k] Cons.IH[OF Cons.prems(1) _ t] by blast
qed (simp add: rret_def)

text \<open>What a turn does to the world, and whether the sink refuses the trade, does not depend on the accumulator.\<close>

lemma handle_trade_acc:
  assumes "handle_trade env it venue symbol ex_oid tr start_acc w = (x0, w0)" "handle_trade env it venue symbol ex_oid tr acc w = (x, w1)"
  shows "w1 = w0 \<and> (case x0 of Inl e \<Rightarrow> x = Inl e | Inr a0 \<Rightarrow> \<exists>a. x = Inr a \<and> ta_blocked a = (ta_blocked acc \<or> ta_blocked a0))"
  using assms unfolding handle_trade_def
  by (auto simp: rbnd_def lift_def rret_def Let_def count_fill_def start_acc_def split: if_splits sum.splits prod.splits)

text \<open>The trades of an answer that the sink refuses, in the world in which each is delivered.\<close>

fun refused_trades :: "renv \<Rightarrow> live_intent \<Rightarrow> string \<Rightarrow> string \<Rightarrow> string \<Rightarrow> dict list \<Rightarrow> rworld \<Rightarrow> dict list" where
  "refused_trades env it venue symbol ex_oid [] w = []"
| "refused_trades env it venue symbol ex_oid (tr # trs) w =
     (case handle_trade env it venue symbol ex_oid tr start_acc w of
        (Inl e, w1) \<Rightarrow> []
      | (Inr a, w1) \<Rightarrow> (if ta_blocked a then [tr] else []) @ refused_trades env it venue symbol ex_oid trs w1)"

lemma refused_member: "tr \<in> set (refused_trades env it venue symbol ex_oid trs w) \<Longrightarrow> tr \<in> set trs"
  by (induction trs arbitrary: w) (auto split: prod.splits sum.splits if_splits)

text \<open>The cursor of a call stops at each refused trade.\<close>

lemma handle_trades_refused:
  assumes "handle_trades env it venue symbol ex_oid trs acc w = (Inr acc', w')" "tr \<in> set (refused_trades env it venue symbol ex_oid trs w)"
    "sorted (map trade_time trs)" "ta_max acc \<le> trade_time tr"
  shows "ta_max acc' \<le> trade_time tr"
  using assms
proof (induction trs arbitrary: acc w)
  case (Cons t trs)
  obtain acc1 w1 where h: "handle_trade env it venue symbol ex_oid t acc w = (Inr acc1, w1)"
    and rest: "handle_trades env it venue symbol ex_oid trs acc1 w1 = (Inr acc', w')"
    using Cons.prems(1) by (auto simp: rbnd_def split: prod.splits sum.splits)
  obtain x0 w0 where h0: "handle_trade env it venue symbol ex_oid t start_acc w = (x0, w0)" by fastforce
  obtain a0 where a0: "x0 = Inr a0" "w0 = w1" "ta_blocked acc1 = (ta_blocked acc \<or> ta_blocked a0)"
    using handle_trade_acc[OF h0 h] by (auto split: sum.splits)
  have le: "ta_max acc1 = ta_max acc \<or> ta_max acc1 = max (ta_max acc) (trade_time t)"
    using h by (cases rule: handle_trade_cases) (auto simp: count_fill_def trade_time_def)
  show ?case
  proof (cases "ta_blocked a0 \<and> t = tr")
    case True
    then have "ta_max acc1 \<le> trade_time tr" using le Cons.prems(4) by auto
    then show ?thesis using handle_trades_blocked[OF rest] a0(3) True by simp
  next
    case False
    then have m: "tr \<in> set (refused_trades env it venue symbol ex_oid trs w1)"
      using Cons.prems(2) h0 a0 by (auto split: if_splits)
    then have "trade_time t \<le> trade_time tr" using Cons.prems(3) refused_member[OF m] by auto
    then show ?thesis using Cons.IH[OF rest m] Cons.prems(3,4) le by auto
  qed
qed simp

text \<open>A trade of the order that is not in the journal after the call was refused.\<close>

lemma unjournalled_refused:
  assumes "journal_start s0" "loss_reach s0 (ac_store (rw_db w))"
    and "handle_trades env it (normalize_venue (li_venue it)) symbol ex_oid trs acc w = (Inr acc', w')"
    and "tr \<in> set trs" "trade_matches_order ex_oid (opt_str_or (li_client_order_id it) '''') tr" "live_trade_tid tr \<noteq> ''''"
    and "\<not> journalled (live_journal_venue it, live_trade_tid tr) (es_journal (ac_store (rw_db w')))"
  shows "tr \<in> set (refused_trades env it (normalize_venue (li_venue it)) symbol ex_oid trs w)"
  using assms
proof (induction trs arbitrary: acc w)
  case (Cons t trs)
  let ?k = "(live_journal_venue it, live_trade_tid tr)"
  obtain acc1 w1 where h: "handle_trade env it (normalize_venue (li_venue it)) symbol ex_oid t acc w = (Inr acc1, w1)"
    and rest: "handle_trades env it (normalize_venue (li_venue it)) symbol ex_oid trs acc1 w1 = (Inr acc', w')"
    using Cons.prems(3) by (auto simp: rbnd_def split: prod.splits sum.splits)
  obtain x0 w0 where h0: "handle_trade env it (normalize_venue (li_venue it)) symbol ex_oid t start_acc w = (x0, w0)" by fastforce
  obtain a0 where a0: "x0 = Inr a0" "w0 = w1" using handle_trade_acc[OF h0 h] by (auto split: sum.splits)
  note j = handle_trade_journals[OF Cons.prems(1,2) h0[unfolded a0], of ?k]
  have keep: "journalled ?k (es_journal (ac_store (rw_db w1))) \<Longrightarrow> journalled ?k (es_journal (ac_store (rw_db w')))"
    using handle_trades_journals[OF Cons.prems(1) _ rest, of ?k] j by blast
  show ?case
  proof (cases "tr = t")
    case True
    then have "ta_blocked a0" using j keep Cons.prems(5-7) by blast
    then show ?thesis using True h0 a0 by simp
  next
    case False
    then have "tr \<in> set (refused_trades env it (normalize_venue (li_venue it)) symbol ex_oid trs w1)"
      using Cons.IH[OF Cons.prems(1) _ rest] j Cons.prems(4-7) by auto
    then show ?thesis using h0 a0 by simp
  qed
qed simp

text \<open>The stored cursor after the trades of one order: the status write that follows leaves it alone.\<close>

lemma rbnd_keeps:
  assumes "\<And>w. g (snd (m w)) = g w" "\<And>x w. g (snd (f x w)) = g w"
  shows "g (snd (rbnd m f w)) = g w"
proof -
  obtain x v where "m w = (x, v)" by fastforce
  then show ?thesis using assms(1)[of w] assms(2) by (cases x) (simp_all add: rbnd_def)
qed

lemma rret_keeps: "g (snd (rret x w)) = g w"
  by (simp add: rret_def)

lemma rq_write_state: "live_get_state k (rw_queue (snd (rq_write env it s a w))) = live_get_state k (rw_queue w)"
  by (auto simp: rq_write_def rtick_def update_live_queue_status_as_reconciler_def live_update_status_def insert_intent_event_def live_get_state_def
      Let_def split: sum.split prod.split)

lemma rorder_write_keeps: "rw_queue (snd (rorder_write env it venue symbol coid x st err w)) = rw_queue w"
    "rw_db (snd (rorder_write env it venue symbol coid x st err w)) = rw_db w"
  by (simp_all add: rorder_write_def rtick_def split: sum.split)

lemma finish_filled_keeps:
  assumes wr: "\<And>s a w. g (snd (rq_write env it s a w)) = g w" and ord: "\<And>coid x st err w. g (snd (rorder_write env it venue symbol coid x st err w)) = g w"
  shows "g (snd (finish_filled env it venue symbol ex_oid n w)) = g w"
proof -
  have "g (snd (filled_transition env it venue symbol ex_oid act m w)) = g w" for act m
    unfolding filled_transition_def by (rule rbnd_keeps[of g, OF wr]) (simp add: ord rret_keeps)
  moreover have "g (snd (rbnd (rq_write env it s a) (\<lambda>_. rret ()) w)) = g w" for s a
    by (rule rbnd_keeps[of g, OF wr rret_keeps])
  ultimately show ?thesis by (simp add: finish_filled_def Let_def)
qed

lemma finish_filled_state: "live_get_state k (rw_queue (snd (finish_filled env it venue symbol ex_oid n w))) = live_get_state k (rw_queue w)"
  by (rule finish_filled_keeps[of "\<lambda>w. live_get_state k (rw_queue w)"]) (simp_all add: rq_write_state rorder_write_keeps)

lemma rq_write_db: "rw_db (snd (rq_write env it s a w)) = rw_db w"
  by (simp add: rq_write_def rtick_def split: sum.split prod.split)

lemma finish_filled_db: "rw_db (snd (finish_filled env it venue symbol ex_oid n w)) = rw_db w"
  by (rule finish_filled_keeps[of rw_db]) (simp_all add: rq_write_db rorder_write_keeps)

text \<open>The parts of a call that reads its cursor and gets an answer.\<close>

definition answered :: "renv \<Rightarrow> string \<Rightarrow> string \<Rightarrow> rworld \<Rightarrow> int \<Rightarrow> int \<Rightarrow> dict list \<Rightarrow> bool" where
  "answered env venue symbol w cursor overlap trs \<longleftrightarrow>
     read_cursor venue symbol (rw_queue w) = Inr cursor \<and> env_int (rv_overlap_ms env) ''60000'' = Inr overlap \<and>
     rv_trades env (rw_tick w) symbol (since_of cursor overlap) = Inr trs"

lemma follow_trades_answered:
  assumes "answered env venue symbol w c ov trs"
  shows "follow_trades env it venue symbol ex_oid pending w =
    rbnd (handle_trades env it venue symbol ex_oid trs start_acc) (\<lambda>acc. rbnd (write_cursor venue symbol (ta_max acc))
      (\<lambda>_. if pending then finish_filled env it venue symbol ex_oid (ta_count acc) else rret ())) (rtick w)"
  using assms by (simp add: answered_def follow_trades_def rbnd_def lift_def)

lemma handle_trade_queue: "rw_queue (snd (handle_trade env it venue symbol ex_oid tr acc w)) = rw_queue w"
  by (auto simp: handle_trade_def rbnd_def lift_def rret_def Let_def live_insert_fill_def emit_live_fill_def rtick_def split: sum.split prod.split)

lemma handle_trades_queue: "rw_queue (snd (handle_trades env it venue symbol ex_oid trs acc w)) = rw_queue w"
proof (induction trs arbitrary: acc w)
  case (Cons t trs)
  then show ?case using handle_trade_queue[of env it venue symbol ex_oid t acc w]
    by (auto simp: rbnd_def split: prod.split sum.split)
qed (simp add: rret_def)

lemma write_cursor_stores:
  "m = 0 \<Longrightarrow> write_cursor venue symbol m w = (Inr (), w)"
  "m \<noteq> 0 \<Longrightarrow> write_cursor venue symbol m w = (Inr (), w\<lparr>rw_queue := put_state (cursor_key venue symbol) (TxNum (of_int (m + 1))) (rw_queue w)\<rparr>)"
  by (simp_all add: write_cursor_def live_set_state_def cursor_key_def)

lemma read_cursor_state: "live_get_state (cursor_key venue symbol) q' = live_get_state (cursor_key venue symbol) q \<Longrightarrow>
    read_cursor venue symbol q' = read_cursor venue symbol q"
  by (simp add: read_cursor_def)

lemma read_cursor_written: "0 \<le> m \<Longrightarrow> m < 2 ^ 53 \<Longrightarrow>
    read_cursor venue symbol (put_state (cursor_key venue symbol) (TxNum (of_int (m + 1))) q) = Inr (m + 1)"
  using mk_float_of_int[of "m + 1"] by (simp add: read_cursor_def text_int_def trunc_rat_def)

lemma handle_trades_max_grows:
  "handle_trades env it venue symbol ex_oid trs acc w = (Inr acc', w') \<Longrightarrow> ta_max acc \<le> ta_max acc'"
proof (induction trs arbitrary: acc w)
  case (Cons tr trs)
  obtain acc1 w1 where h: "handle_trade env it venue symbol ex_oid tr acc w = (Inr acc1, w1)"
    and t: "handle_trades env it venue symbol ex_oid trs acc1 w1 = (Inr acc', w')"
    using Cons.prems by (auto simp: rbnd_def split: prod.splits sum.splits)
  have "ta_max acc \<le> ta_max acc1" using h by (cases rule: handle_trade_cases) (auto simp: count_fill_def)
  then show ?case using Cons.IH[OF t] by simp
qed (simp add: rret_def)

lemma follow_trades_cursor:
  assumes a: "answered env venue symbol w c ov trs" and f: "follow_trades env it venue symbol ex_oid pending w = (r, w')"
    and h: "handle_trades env it venue symbol ex_oid trs start_acc (rtick w) = (x, v)"
  shows "live_get_state (cursor_key venue symbol) (rw_queue w') =
    (case x of Inr acc \<Rightarrow> if ta_max acc = 0 then live_get_state (cursor_key venue symbol) (rw_queue w) else Some (TxNum (of_int (ta_max acc + 1)))
     | Inl e \<Rightarrow> live_get_state (cursor_key venue symbol) (rw_queue w))"
proof -
  have q: "rw_queue v = rw_queue w" using handle_trades_queue[of env it venue symbol ex_oid trs start_acc "rtick w"] h by (simp add: rtick_def)
  have w': "w' = snd (follow_trades env it venue symbol ex_oid pending w)" using f by simp
  show ?thesis
  proof (cases x)
    case (Inl e)
    then show ?thesis using h q by (simp add: w' follow_trades_answered[OF a] rbnd_def)
  next
    case (Inr acc)
    have k: "live_get_state k (rw_queue (snd ((if pending then finish_filled env it venue symbol ex_oid n else rret ()) v1))) = live_get_state k (rw_queue v1)" for k n v1
      by (simp add: finish_filled_state rret_def)
    show ?thesis
    proof (cases "ta_max acc = 0")
      case True
      then show ?thesis using h q k Inr by (simp add: w' follow_trades_answered[OF a] rbnd_def write_cursor_stores(1))
    next
      case False
      then show ?thesis using h q k Inr by (simp add: w' follow_trades_answered[OF a] rbnd_def write_cursor_stores(2))
    qed
  qed
qed

text \<open>C17. Following an order never moves the stored cursor past one of its fills that the sink refused. After the trades of one order were followed, whether the call
  returned or raised, and when the exchange listed the trades of its answer in time order, the cursor of the symbol is what it was before, or, for each refused
  trade, at most one millisecond after it; with a positive overlap the next pass then asks for trades from a time not after that trade. The cursor is one per
  symbol: another order of the symbol that is followed later writes its own value.\<close>

theorem cursor_covers_unaccounted:
  assumes run: "follow_trades env it venue symbol ex_oid pending w = (r, w')" "answered env venue symbol w cursor overlap trs"
    and order: "sorted (map trade_time trs)" and tr: "tr \<in> set (refused_trades env it venue symbol ex_oid trs (rtick w))"
    and time: "0 \<le> trade_time tr" "trade_time tr < 2 ^ 53"
  shows "read_cursor venue symbol (rw_queue w') = Inr cursor \<or>
    (\<exists>c. read_cursor venue symbol (rw_queue w') = Inr c \<and> c \<le> trade_time tr + 1 \<and>
       (\<forall>since. 0 < overlap \<and> since_of c overlap = Some since \<longrightarrow> since \<le> trade_time tr))"
proof -
  obtain x v where h: "handle_trades env it venue symbol ex_oid trs start_acc (rtick w) = (x, v)" by fastforce
  note st = follow_trades_cursor[OF run(2,1) h]
  have old: "read_cursor venue symbol (rw_queue w) = Inr cursor" using run(2) by (simp add: answered_def)
  show ?thesis
  proof (cases "\<exists>acc. x = Inr acc \<and> ta_max acc \<noteq> 0")
    case False
    then have "live_get_state (cursor_key venue symbol) (rw_queue w') = live_get_state (cursor_key venue symbol) (rw_queue w)"
      using st by (auto split: sum.splits if_splits)
    then show ?thesis using old read_cursor_state by metis
  next
    case True
    then obtain acc where acc: "x = Inr acc" "ta_max acc \<noteq> 0" by blast
    have le: "ta_max acc \<le> trade_time tr" using handle_trades_refused[OF h[unfolded acc] tr order] time(1) by (simp add: start_acc_def)
    have ge: "0 \<le> ta_max acc" using handle_trades_max_grows[OF h[unfolded acc]] by (simp add: start_acc_def)
    have "live_get_state (cursor_key venue symbol) (rw_queue w') =
        live_get_state (cursor_key venue symbol) (put_state (cursor_key venue symbol) (TxNum (of_int (ta_max acc + 1))) (rw_queue w))"
      using st acc by simp
    then have "read_cursor venue symbol (rw_queue w') = Inr (ta_max acc + 1)"
      using read_cursor_state read_cursor_written[OF ge] le time(2) by (metis order_le_less_trans)
    then show ?thesis using le time(1) by (auto simp: since_of_def Let_def split: if_splits)
  qed
qed

text \<open>What is stored after the trades of an order were followed depends on these trades alone: whatever the cursor was, it can move past a refused fill of another
  order of the symbol.\<close>

lemma cursor_from_own_trades:
  assumes "answered env venue symbol w cursor overlap trs" "follow_trades env it venue symbol ex_oid pending w = (r, w')"
    and "handle_trades env it venue symbol ex_oid trs start_acc (rtick w) = (Inr acc, v)" "ta_max acc \<noteq> 0" "ta_max acc < 2 ^ 53"
  shows "read_cursor venue symbol (rw_queue w') = Inr (ta_max acc + 1)"
proof -
  have ge: "0 \<le> ta_max acc" using handle_trades_max_grows[OF assms(3)] by (simp add: start_acc_def)
  have "live_get_state (cursor_key venue symbol) (rw_queue w') =
      live_get_state (cursor_key venue symbol) (put_state (cursor_key venue symbol) (TxNum (of_int (ta_max acc + 1))) (rw_queue w))"
    using follow_trades_cursor[OF assms(1-3)] assms(4) by simp
  then show ?thesis using read_cursor_state read_cursor_written[OF ge assms(5)] by metis
qed

text \<open>The first fill of a fresh accounting database, with the exchange's profit.\<close>

lemma sink_first_fill:
  assumes row: "sink_num ''fee_usd'' fill = Inr fee" "sink_row sink_sample_env fill fee = Inr r" "cf_realized_pnl_usd r = Some (Fin p)"
    and nums: "cf_qty r \<noteq> NaN" "cf_price r \<noteq> NaN" "cf_fee_usd r \<noteq> NaN"
    and ids: "cf_venue r \<noteq> ''''" "cf_fill_id r \<noteq> ''''" "cf_symbol r \<noteq> ''''" "jtruthy (sink_side fill)" "jtruthy (sink_symbol fill)" "jtruthy (sink_fid fill)"
  shows "\<exists>db. executor_on_fill sink_sample_env fill empty_account = (SinkOk, db) \<and>
    map canonical_key (journal_rows (es_journal (ac_store db))) = [canonical_key r]"
proof -
  define rr where "rr = r\<lparr>cf_realized_pnl_usd := Option.bind (cf_realized_pnl_usd r) sql_real\<rparr>"
  define s1 where "s1 = empty_exec_store\<lparr>es_cutover := Some 5, es_journal := Some [rr]\<rparr>"
  have env: "se_now_ms sink_sample_env = 5" "se_loss_limit sink_sample_env = None"
    "se_lock_minutes sink_sample_env = None" "se_faults sink_sample_env = no_faults"
    by (simp_all add: sink_sample_env_def)
  have k: "canonical_key rr = (cf_venue r, cf_fill_id r)" "cf_symbol rr = cf_symbol r" "canonical_key r = (cf_venue r, cf_fill_id r)"
    by (simp_all add: rr_def canonical_key_def)
  have ap: "\<exists>n s. apply_symbol_loss_fill_once 5 (cf_venue r) (cf_fill_id r) (cf_symbol r) (Fin p) 3 (60 * 60 * 1000) True s1 = Inr (n, s)
      \<and> es_journal s = Some [rr]"
    using ids by (simp add: apply_symbol_loss_fill_once_def s1_def empty_exec_store_def journal_order_check_def
        select_key_Cons k earlier_unapplied_def rows_before_def loss_lock_def Let_def)
  then obtain n s where los: "sink_loss_apply sink_sample_env r (Fin p) s1 = Inr (n, s)" and js: "es_journal s = Some [rr]"
    by (auto simp: sink_loss_apply_def env sink_sample_limits no_faults_def)
  have "\<exists>db. sink_account sink_sample_env fill r (empty_account\<lparr>ac_store := s1\<rparr>) = (SinkOk, db) \<and>
      map canonical_key (journal_rows (es_journal (ac_store db))) = [(cf_venue r, cf_fill_id r)]"
    using los js by (auto simp: k sink_account_def sink_position_def row(3) sink_risk_def env no_faults_def sink_loss_def)
  moreover have "activate_symbol_loss_cutover 5 (empty_exec_store\<lparr>es_journal := Some []\<rparr>) =
      Inr (5, empty_exec_store\<lparr>es_cutover := Some 5, es_journal := Some []\<rparr>)"
    by (simp add: activate_symbol_loss_cutover_def empty_exec_store_def unapplied_keys_def)
  ultimately show ?thesis
    using row ids nums
    by (simp add: executor_on_fill_def sink_on_fill_def empty_account_def env no_faults_def Let_def record_fill_def journal_ensure_schema_def
        s1_def rr_def empty_exec_store_def k[unfolded rr_def])
qed

text \<open>A sink whose database cannot be opened.\<close>

definition broken_sink :: sink_env where
  "broken_sink = sink_sample_env\<lparr>se_faults := no_faults\<lparr>sf_cutover := Some (RuntimeError ''database is locked'')\<rparr>\<rparr>"

lemma broken_sink_refuses:
  assumes "executor_on_fill broken_sink fill db = (a, db')"
  shows "a \<noteq> SinkOk" "journal_rows (es_journal (ac_store db')) = journal_rows (es_journal (ac_store db))"
  using assms by (auto simp: executor_on_fill_def sink_on_fill_def broken_sink_def record_failed_def write_risk_sink_failed_def
      journal_ensure_schema_def split: sum.splits if_splits)

text \<open>An order with two fills, of which the sink accepts the first and not the second.\<close>

definition two_fill_trade :: "string \<Rightarrow> int \<Rightarrow> dict" where
  "two_fill_trade f t = [(''id'', JStr f), (''order'', JStr ''x1''), (''timestamp'', JInt t), (''datetime'', JStr ''d''),
     (''side'', JStr ''sell''), (''amount'', JInt 1), (''price'', JInt 2), (''realized_pnl_usd'', JInt 0)]"

definition two_fill_env :: renv where
  "two_fill_env = (live_sample_env (Inr []))\<lparr>
     rv_trades := (\<lambda>n y since. Inr [two_fill_trade ''f1'' 5000, two_fill_trade ''f2'' 6000]),
     rv_sink := (\<lambda>n. if n < 6 then sink_sample_env else broken_sink)\<rparr>"

definition two_fill_world :: rworld where
  "two_fill_world = (live_sample_world (live_sample_queue ''submitted'' (Some ''x1'')))\<lparr>rw_db := empty_account\<rparr>"

lemma two_fill_trade_parts:
  "trade_matches_order ''x1'' c (two_fill_trade f t)" "live_trade_tid (two_fill_trade f t) = f" "t \<noteq> 0 \<Longrightarrow> live_trade_ts (two_fill_trade f t) = Inr t"
  "trade_numbers (two_fill_trade f t) = Inr (Fin 1, Fin 2)" "trade_fee_usd (two_fill_trade f t) = Inr (Fin 0)"
  "realized_pnl_of (two_fill_trade f t) = Inr (Some (Fin 0))"
proof -
  show "trade_matches_order ''x1'' c (two_fill_trade f t)"
    by (simp add: trade_matches_order_def live_trade_order_id_def id_under_def two_fill_trade_def jget_def live_sample_values)
  show "live_trade_tid (two_fill_trade f t) = f" by (simp add: live_trade_tid_def two_fill_trade_def jget_def jor_def)
  show "t \<noteq> 0 \<Longrightarrow> live_trade_ts (two_fill_trade f t) = Inr t" by (simp add: live_trade_ts_def two_fill_trade_def jget_def)
  show "trade_numbers (two_fill_trade f t) = Inr (Fin 1, Fin 2)"
    by (simp add: trade_numbers_def two_fill_trade_def jget_def jor_def mk_float_small)
  show "trade_fee_usd (two_fill_trade f t) = Inr (Fin 0)" by (simp add: trade_fee_usd_def two_fill_trade_def jget_def)
  show "realized_pnl_of (two_fill_trade f t) = Inr (Some (Fin 0))"
    by (simp add: realized_pnl_of_def two_fill_trade_def jget_def mk_float_small pnl_keys_def caught_float_def)
qed

definition two_fill_row :: "live_intent \<Rightarrow> string \<Rightarrow> live_fill_row" where
  "two_fill_row it f = \<lparr>flr_trade_id = f, flr_ts = ''d'', flr_venue = ''coinbase'', flr_symbol = ''BTC/USD'', flr_side = ''sell'',
     flr_qty = Some (num_of_float (Fin 1)), flr_price = Some (num_of_float (Fin 2)), flr_fee = None, flr_fee_currency = None,
     flr_client_order_id = li_client_order_id it, flr_exchange_order_id = Some ''x1''\<rparr>"

lemma two_fill_row:
  "live_fill_row_of it ''coinbase'' ''BTC/USD'' ''x1'' n (two_fill_trade f t) (Fin 1) (Fin 2) = two_fill_row it f"
proof -
  have "lower ''sell'' = ''sell''" by code_simp
  then show ?thesis
    by (simp add: live_fill_row_of_def two_fill_trade_parts two_fill_row_def) (simp add: two_fill_trade_def jget_def jor_def trade_fee_field_def)
qed

lemma two_fill_insert: "\<exists>l. live_insert_fill (two_fill_row it f) w = (Inr (), w\<lparr>rw_orders := l\<rparr>)"
proof -
  have r: "mk_float (repr_rat 1) = Fin 1" "mk_float (repr_rat 2) = Fin 2"
    using mk_float_repr[of 1] mk_float_repr[of 2] wf_mk_float[of 1] wf_mk_float[of 2] mk_float_of_int[of 1] mk_float_of_int[of 2]
    by (simp_all del: wf_float.simps wf_mk_float)
  have w: "\<exists>l. w = w\<lparr>rw_orders := l\<rparr>" by (rule exI[of _ "rw_orders w"]) simp
  then show ?thesis
    by (auto simp: live_insert_fill_def insert_fill_def two_fill_row_def trading_finite_real_input_def num_of_float_def decimal_value_def
        r split: option.split)
qed

lemma two_fill_turn:
  assumes "t \<noteq> 0" "f \<noteq> ''''"
  shows "\<exists>l. handle_trade env it ''coinbase'' ''BTC/USD'' ''x1'' (two_fill_trade f t) acc w =
    rbnd (emit_live_fill env (live_sink_report it (two_fill_row it f) ''x1'' (two_fill_trade f t) (Fin 1) (Fin 2) (Fin 0) (Some (Fin 0))))
      (\<lambda>ok. if ok then (\<lambda>w. (Inr (count_fill t acc), w\<lparr>rw_fills_seen := Suc (rw_fills_seen w)\<rparr>))
            else rret (acc\<lparr>ta_blocked := True\<rparr>)) ((rtick w)\<lparr>rw_orders := l\<rparr>)"
proof -
  obtain l where "live_insert_fill (two_fill_row it f) (rtick w) = (Inr (), (rtick w)\<lparr>rw_orders := l\<rparr>)"
    using two_fill_insert by blast
  then show ?thesis
    using assms
    by (intro exI[of _ l]) (simp add: handle_trade_def two_fill_trade_parts rbnd_def[of "lift x" for x] rbnd_def[of "live_insert_fill x" for x]
        rbnd_def[of "\<lambda>w. (f w, g w)" for f g] lift_def two_fill_row Let_def)
qed

lemma two_fill_sink:
  fixes t :: int
  assumes "it = live_sample_intent st x"
  defines "fill \<equiv> live_sink_report it (two_fill_row it ''f1'') ''x1'' (two_fill_trade ''f1'' t) (Fin 1) (Fin 2) (Fin 0) (Some (Fin 0))"
  shows "\<exists>db. executor_on_fill sink_sample_env fill empty_account = (SinkOk, db) \<and>
    map canonical_key (journal_rows (es_journal (ac_store db))) = [(''coinbase'', ''f1'')]"
proof -
  have g: "jget ''venue'' fill = JStr ''coinbase''" "jget ''fill_id'' fill = JStr ''f1''" "jget ''symbol'' fill = JStr ''BTC/USD''"
    "jget ''side'' fill = JStr ''sell''" "jget ''qty'' fill = JFloat (Fin 1)" "jget ''price'' fill = JFloat (Fin 2)"
    "jget ''fee_usd'' fill = JFloat (Fin 0)" "jget ''realized_pnl_usd'' fill = JFloat (Fin 0)"
    by (simp_all add: fill_def live_sink_report_def two_fill_row_def jget_def)
  have p: "sink_venue fill = JStr ''coinbase''" "sink_fid fill = JStr ''f1''" "sink_symbol fill = JStr ''BTC/USD''" "sink_side fill = JStr ''sell''"
    "sink_num ''fee_usd'' fill = Inr (Fin 0)" "sink_num ''qty'' fill = Inr (Fin 1)" "sink_num ''price'' fill = Inr (Fin 2)"
    "sink_pnl fill = Inr (Some (Fin 0))"
    by (simp_all add: sink_venue_def sink_fid_def sink_symbol_def sink_side_def sink_num_def sink_pnl_def g jor_def)
  obtain r where r: "sink_row sink_sample_env fill (Fin 0) = Inr r" "cf_qty r = Fin 1" "cf_price r = Fin 2" "cf_fee_usd r = Fin 0"
    by (simp add: sink_row_def p)
  note k = sink_row_key[OF r(1)]
  have "cf_realized_pnl_usd r = Some (Fin 0)" using k(5) p by simp
  from sink_first_fill[OF p(5) r(1) this] show ?thesis using r k p by (simp add: sink_key_def)
qed

lemma two_fill_handled:
  assumes w: "rw_tick w = 4" "rw_db w = empty_account" and it: "it = live_sample_intent st x"
  shows "\<exists>acc w'. handle_trades two_fill_env it ''coinbase'' ''BTC/USD'' ''x1'' [two_fill_trade ''f1'' 5000, two_fill_trade ''f2'' 6000] start_acc w = (Inr acc, w') \<and>
     ta_count acc = 1 \<and> ta_max acc = 5000 \<and> rw_queue w' = rw_queue w \<and>
     map canonical_key (journal_rows (es_journal (ac_store (rw_db w')))) = [(''coinbase'', ''f1'')]"
proof -
  let ?rep = "\<lambda>f t. live_sink_report it (two_fill_row it f) ''x1'' (two_fill_trade f t) (Fin 1) (Fin 2) (Fin 0) (Some (Fin 0))"
  have n: "(5000 :: int) \<noteq> 0" "(6000 :: int) \<noteq> 0" "''f1'' \<noteq> ''''" "''f2'' \<noteq> ''''" by simp_all
  have snk: "rv_sink two_fill_env 5 = sink_sample_env" "rv_sink two_fill_env 7 = broken_sink" by (simp_all add: two_fill_env_def)
  obtain l1 where h1: "handle_trade two_fill_env it ''coinbase'' ''BTC/USD'' ''x1'' (two_fill_trade ''f1'' 5000) start_acc w =
      rbnd (emit_live_fill two_fill_env (?rep ''f1'' 5000))
      (\<lambda>ok. if ok then (\<lambda>w. (Inr (count_fill 5000 start_acc), w\<lparr>rw_fills_seen := Suc (rw_fills_seen w)\<rparr>))
            else rret (start_acc\<lparr>ta_blocked := True\<rparr>)) ((rtick w)\<lparr>rw_orders := l1\<rparr>)"
    using two_fill_turn[OF n(1,3), where env = two_fill_env and it = it and acc = start_acc and w = w] by (elim exE) (rule that)
  obtain db1 where d1: "executor_on_fill sink_sample_env (?rep ''f1'' 5000) empty_account = (SinkOk, db1)"
    "map canonical_key (journal_rows (es_journal (ac_store db1))) = [(''coinbase'', ''f1'')]"
    using two_fill_sink[OF it, of 5000] by (elim exE conjE) (rule that)
  define acc1 where "acc1 = count_fill 5000 start_acc"
  obtain w1 where w1: "handle_trade two_fill_env it ''coinbase'' ''BTC/USD'' ''x1'' (two_fill_trade ''f1'' 5000) start_acc w = (Inr acc1, w1)"
    "rw_tick w1 = 6" "rw_db w1 = db1" "rw_queue w1 = rw_queue w"
    using h1 d1(1) w snk by (simp add: rbnd_def emit_live_fill_def rtick_def acc1_def)
  obtain l2 where h2: "handle_trade two_fill_env it ''coinbase'' ''BTC/USD'' ''x1'' (two_fill_trade ''f2'' 6000) acc1 w1 =
      rbnd (emit_live_fill two_fill_env (?rep ''f2'' 6000))
      (\<lambda>ok. if ok then (\<lambda>w. (Inr (count_fill 6000 acc1), w\<lparr>rw_fills_seen := Suc (rw_fills_seen w)\<rparr>))
            else rret (acc1\<lparr>ta_blocked := True\<rparr>)) ((rtick w1)\<lparr>rw_orders := l2\<rparr>)"
    using two_fill_turn[OF n(2,4), where env = two_fill_env and it = it and acc = acc1 and w = w1] by (elim exE) (rule that)
  obtain a db2 where d2: "executor_on_fill broken_sink (?rep ''f2'' 6000) db1 = (a, db2)" by fastforce
  note bs = broken_sink_refuses[OF d2]
  obtain w2 where w2: "handle_trade two_fill_env it ''coinbase'' ''BTC/USD'' ''x1'' (two_fill_trade ''f2'' 6000) acc1 w1 =
      (Inr (acc1\<lparr>ta_blocked := True\<rparr>), w2)" "rw_db w2 = db2" "rw_queue w2 = rw_queue w"
    using h2 d2 w1 snk bs(1) by (simp add: rbnd_def emit_live_fill_def rtick_def rret_def)
  show ?thesis
    using w1 w2 d1(2) bs(2) by (simp add: rbnd_def rret_def acc1_def count_fill_def start_acc_def)
qed

lemma two_fill_answered:
  assumes "rw_queue w = live_sample_queue ''submitted'' (Some ''x1'')"
  shows "answered two_fill_env ''coinbase'' ''BTC/USD'' w 0 60 [two_fill_trade ''f1'' 5000, two_fill_trade ''f2'' 6000]"
  using live_sample_env_fields(10)[of "Inr []"]
  by (simp add: answered_def read_cursor_def assms live_sample_state two_fill_env_def)

text \<open>The second fill is refused.\<close>

lemma two_fill_refused:
  assumes w: "rw_tick w = 4" "rw_db w = empty_account"
  shows "two_fill_trade ''f2'' 6000 \<in> set (refused_trades two_fill_env (live_sample_intent ''submitted'' (Some ''x1'')) ''coinbase'' ''BTC/USD'' ''x1''
    [two_fill_trade ''f1'' 5000, two_fill_trade ''f2'' 6000] w)"
proof -
  let ?it = "live_sample_intent ''submitted'' (Some ''x1'')"
  obtain acc w' where h: "handle_trades two_fill_env ?it ''coinbase'' ''BTC/USD'' ''x1''
      [two_fill_trade ''f1'' 5000, two_fill_trade ''f2'' 6000] start_acc w = (Inr acc, w')"
    and j: "map canonical_key (journal_rows (es_journal (ac_store (rw_db w')))) = [(''coinbase'', ''f1'')]"
    using two_fill_handled[OF w refl, of "''submitted''" "Some ''x1''"] by (elim exE conjE) (rule that)
  have js: "canonical_key ` set (journal_rows (es_journal (ac_store (rw_db w')))) = {(''coinbase'', ''f1'')}"
    using arg_cong[OF j, of set] by simp
  have v: "normalize_venue (li_venue ?it) = ''coinbase''" by (simp add: live_sample_values)
  have l: "loss_reach empty_exec_store (ac_store (rw_db w))" using sink_sample_start(2) w(2) by simp
  show ?thesis
    by (rule unjournalled_refused[OF sink_sample_start(1) l h[folded v], unfolded v])
      (simp_all add: two_fill_trade_parts journalled_def js)
qed

theorem cursor_covers_unaccounted_witness:
  "\<exists>r w' c. follow_trades two_fill_env (live_sample_intent ''submitted'' (Some ''x1'')) ''coinbase'' ''BTC/USD'' ''x1'' True (two_fill_world\<lparr>rw_tick := 3\<rparr>) = (r, w') \<and>
    read_cursor ''coinbase'' ''BTC/USD'' (rw_queue w') = Inr c \<and> c \<le> trade_time (two_fill_trade ''f2'' 6000) + 1"
proof -
  let ?it = "live_sample_intent ''submitted'' (Some ''x1'')"
  let ?w = "two_fill_world\<lparr>rw_tick := 3\<rparr>"
  let ?trs = "[two_fill_trade ''f1'' 5000, two_fill_trade ''f2'' 6000]"
  obtain r w' where f: "follow_trades two_fill_env ?it ''coinbase'' ''BTC/USD'' ''x1'' True ?w = (r, w')" by fastforce
  have t: "trade_time (two_fill_trade ''f1'' 5000) = 5000" "trade_time (two_fill_trade ''f2'' 6000) = 6000"
    by (simp_all add: trade_time_def two_fill_trade_parts)
  have a: "answered two_fill_env ''coinbase'' ''BTC/USD'' ?w 0 60 ?trs"
    by (rule two_fill_answered) (simp add: two_fill_world_def live_sample_world_def)
  have ref: "two_fill_trade ''f2'' 6000 \<in> set (refused_trades two_fill_env ?it ''coinbase'' ''BTC/USD'' ''x1'' ?trs (rtick ?w))"
    by (rule two_fill_refused) (simp_all add: rtick_def two_fill_world_def)
  have "sorted (map trade_time ?trs)" by (simp add: t)
  from cursor_covers_unaccounted[OF f a this ref] show ?thesis using f by (auto simp: t)
qed

text \<open>The status of a \<open>filled\<close> intent stays, and no listing of a pass contains it.\<close>

lemma filled_never_listed:
  assumes "live_queue_inv q" "status_of i q = Some ''filled''" "live_queue_step\<^sup>*\<^sup>* q q'"
  shows "status_of i q' = Some ''filled''" "x \<in> set (live_list_intents n (Some s) q') \<Longrightarrow> s \<in> {''submitted'', ''submit_unknown''} \<Longrightarrow> li_intent_id x \<noteq> i"
proof -
  show st: "status_of i q' = Some ''filled''" using live_lifecycle.terminal_final[OF assms(3,1,2)] by (simp add: lifecycle_tables)
  have d: "distinct (map li_intent_id (lq_intents q'))" using queue_run_inv[OF assms(3,1)] by (simp add: live_queue_inv_def)
  show "li_intent_id x \<noteq> i" if "x \<in> set (live_list_intents n (Some s) q')" "s \<in> {''submitted'', ''submit_unknown''}"
  proof -
    have t: "truthy (Some s)" using that(2) by (auto simp: truthy_def)
    have "x \<in> set (lq_intents q')" "li_status x = s"
      using subsetD[OF set_sql_limit that(1)[unfolded live_list_intents_def]] by (simp_all add: t)
    then show ?thesis using that(2) st select_key_distinct[OF d] by (auto simp: status_of_def)
  qed
qed

lemma closed_order_filled:
  assumes q: "live_queue_inv (rw_queue w)" "status_of (strip (li_intent_id it)) (rw_queue w) = Some ''submitted''"
    and it: "li_status it = ''submitted''" "strip (li_intent_id it) \<noteq> ''''"
    and ord: "rv_adapter env (rw_tick w) venue = None" "rv_order env (Suc (rw_tick w)) symbol ex_oid = Inr (Some ord)"
      "strip (lower (json_str (jor (jget ''status'' ord) (JStr '''')))) \<in> {''closed'', ''filled''}"
    and trs: "answered env venue symbol (rtick (rtick w)) cursor overlap trs"
      "handle_trades env it venue symbol ex_oid trs start_acc (rtick (rtick (rtick w))) = (Inr acc, v)" "0 < ta_count acc"
    and run: "reconcile_order env it venue symbol ex_oid ts age stale w = (r, w')"
  shows "status_of (strip (li_intent_id it)) (rw_queue w') = Some ''filled'' \<and> rw_db w' = rw_db v"
proof -
  let ?w2 = "rtick (rtick w)"
  have "strip (lower '''') = ''''" by code_simp
  then have ne: "ord \<noteq> []" using ord(3) by (auto simp: jget_def jor_def)
  have rt: "route_order env it venue symbol ex_oid ts age stale ord u = (Inr (OnWith True), u)" for u
    using ord(3) by (auto simp: route_order_def Let_def str_or_def rret_def)
  have ro: "reconcile_order env it venue symbol ex_oid ts age stale w = follow_trades env it venue symbol ex_oid True ?w2"
    using ord(1,2) ne rt by (simp add: reconcile_order_def rbnd_def adapter_act_def rtick_def)
  have qv: "rw_queue v = rw_queue w" using handle_trades_queue[of env it venue symbol ex_oid trs start_acc "rtick ?w2"] trs(2) by (simp add: rtick_def)
  obtain q1 where c: "write_cursor venue symbol (ta_max acc) v = (Inr (), v\<lparr>rw_queue := q1\<rparr>)"
    and q1: "live_queue_inv q1" "status_of (strip (li_intent_id it)) q1 = Some ''submitted''"
  proof (cases "ta_max acc = 0")
    case True
    then show ?thesis using that[of "rw_queue v"] q qv by (simp add: write_cursor_stores(1))
  next
    case False
    then show ?thesis using that[OF write_cursor_stores(2)[OF False]] q qv by simp
  qed
  have w': "(r, w') = finish_filled env it venue symbol ex_oid (ta_count acc) (v\<lparr>rw_queue := q1\<rparr>)"
    using run ro trs(2) c by (simp add: follow_trades_answered[OF trs(1)] rbnd_def)
  have v: "validate_reconciler_live_queue_transition (Some (li_status it)) (Some ''filled'') = Inr ''filled''" unfolding it(1) by code_simp
  have wr: "\<exists>q2. rq_write env it ''filled'' a u = (Inr True, rtick (u\<lparr>rw_queue := q2\<rparr>)) \<and> status_of (strip (li_intent_id it)) q2 = Some ''filled''"
    if "rw_queue u = q1" for a u
    using reconciler_write_done[OF q1 it(2) v, of "rv_now env (rw_tick u)" a] that by (auto simp: rq_write_def live_status_guard_def)
  have "status_of (strip (li_intent_id it)) (rw_queue (snd (finish_filled env it venue symbol ex_oid (ta_count acc) (v\<lparr>rw_queue := q1\<rparr>)))) = Some ''filled''"
  proof -
    obtain q2 where q2: "rq_write env it ''filled'' (reason_args None ''venue_fill_accounted'' ''venue_trade_reconcile''
        [(''exchange_order_id'', JStr ex_oid), (''accounted_fills'', JInt (int (ta_count acc)))]) (v\<lparr>rw_queue := q1\<rparr>) =
      (Inr True, rtick (v\<lparr>rw_queue := q1\<rparr>\<lparr>rw_queue := q2\<rparr>))" "status_of (strip (li_intent_id it)) q2 = Some ''filled''"
      using wr[of "v\<lparr>rw_queue := q1\<rparr>"] by (simp del: rworld.update_convs) blast
    have "status_of (strip (li_intent_id it)) (rw_queue (rtick (v\<lparr>rw_queue := q1\<rparr>\<lparr>rw_queue := q2\<rparr>))) = Some ''filled''"
      using q2(2) by (simp add: rtick_def)
    then show ?thesis using trs(3) by (simp add: finish_filled_def filled_transition_def rbnd_def rorder_write_keeps q2(1) del: rworld.update_convs)
  qed
  then show ?thesis using w' finish_filled_db[of env it venue symbol ex_oid "ta_count acc" "v\<lparr>rw_queue := q1\<rparr>"] by (metis snd_conv rworld.select_convs(3) rworld.surjective rworld.update_convs(1))
qed

text \<open>C35. One accounted fill is enough for \<open>filled\<close>. When the exchange reports the order of a submitted intent as closed and the sink accepts at least one of
  its listed fills, the intent is \<open>filled\<close> after the pass over it, although another of its fills was refused and is not in the journal. Whatever the
  processes do afterwards, the intent stays \<open>filled\<close> and is in no listing of a pass, so its trades are not fetched again.\<close>

theorem filled_with_unaccounted_fill:
  assumes q: "live_queue_inv (rw_queue w)" "status_of (strip (li_intent_id it)) (rw_queue w) = Some ''submitted''"
    and it: "li_status it = ''submitted''" "strip (li_intent_id it) \<noteq> ''''" "strip (opt_str_or (li_exchange_order_id it) '''') = ex_oid" "ex_oid \<noteq> ''''"
      "normalize_venue (li_venue it) = venue" "normalize_symbol (li_symbol it) = symbol" "env_int (rv_stale_ms env) ''300000'' = Inr stale"
    and ord: "rv_adapter env (Suc (rw_tick w)) venue = None" "rv_order env (Suc (Suc (rw_tick w))) symbol ex_oid = Inr (Some ord)"
      "strip (lower (json_str (jor (jget ''status'' ord) (JStr '''')))) \<in> {''closed'', ''filled''}"
    and trs: "w3 = rtick (rtick (rtick w))" "answered env venue symbol w3 cursor overlap trs"
      "handle_trades env it venue symbol ex_oid trs start_acc (rtick w3) = (Inr acc, v)" "0 < ta_count acc"
    and tr: "tr \<in> set (refused_trades env it venue symbol ex_oid trs (rtick w3))"
      "\<not> journalled (live_journal_venue it, live_trade_tid tr) (es_journal (ac_store (rw_db v)))"
    and run: "reconcile_live_intent env it w = (r, w')"
  shows "status_of (strip (li_intent_id it)) (rw_queue w') = Some ''filled'' \<and> tr \<in> set trs \<and>
    \<not> journalled (live_journal_venue it, live_trade_tid tr) (es_journal (ac_store (rw_db w'))) \<and>
    (\<forall>q'. live_queue_step\<^sup>*\<^sup>* (rw_queue w') q' \<longrightarrow> status_of (strip (li_intent_id it)) q' = Some ''filled'' \<and>
       (\<forall>n. strip (li_intent_id it) \<notin> li_intent_id ` set (live_list_intents n (Some ''submitted'') q' @ live_list_intents n (Some ''submit_unknown'') q')))"
proof -
  let ?i = "strip (li_intent_id it)"
  let ?ts = "ts_to_ms (rv_fromiso env) (str_or (li_updated_ts it) (li_created_ts it))"
  let ?age = "if ?ts = 0 then 0 else max 0 (rv_now_ms env (rw_tick w) - ?ts)"
  obtain x w1 where o: "reconcile_order env it venue symbol ex_oid ?ts ?age stale (rtick w) = (x, w1)" by fastforce
  have q1: "live_queue_inv (rw_queue (rtick w))" "status_of ?i (rw_queue (rtick w)) = Some ''submitted''" using q by (simp_all add: rtick_def)
  have f: "status_of ?i (rw_queue w1) = Some ''filled''" "rw_db w1 = rw_db v"
    using closed_order_filled[OF q1 it(1,2) _ _ ord(3) trs(2,3)[unfolded trs(1)] trs(4) o] ord(1,2) by (simp_all add: rtick_def)
  have steps1: "live_queue_step\<^sup>*\<^sup>* (rw_queue (rtick w)) (rw_queue w1)"
    using pass_steps.tripleD[OF pass_steps.holds_order[of it "[it]"], of "rw_queue (rtick w)" "rtick w"] o it(3,5,6) by simp
  note inv1 = queue_run_inv[OF steps1 q1(1)]
  have w': "(r, w') = rtry (reconcile_order env it venue symbol ex_oid ?ts ?age stale) (order_failed env it venue symbol ex_oid ?ts ?age stale) (rtick w)"
    using run it(3-7) by (simp add: reconcile_live_intent_def Let_def)
  have steps2: "live_queue_step\<^sup>*\<^sup>* (rw_queue w1) (rw_queue w') \<and> rw_db w' = rw_db w1"
  proof (cases x)
    case (Inr y)
    then show ?thesis using w' o by (simp add: rtry_def)
  next
    case (Inl e)
    then have e: "order_failed env it venue symbol ex_oid ?ts ?age stale e w1 = (r, w')" using w' o by (simp add: rtry_def)
    have "rw_db (snd (order_failed env it venue symbol ex_oid ?ts ?age stale e w1)) = rw_db w1"
      by (auto simp: order_failed_def Let_def rret_def rorder_write_keeps intro!: rbnd_keeps[of rw_db] rq_write_db)
    then show ?thesis
      using pass_steps.tripleD[OF pass_steps.holds_order_failed[of it "[it]"], of "rw_queue w1" w1] e by simp
  qed
  note st = filled_never_listed[OF inv1 f(1)]
  have "status_of ?i q' = Some ''filled'' \<and>
      (\<forall>n. ?i \<notin> li_intent_id ` set (live_list_intents n (Some ''submitted'') q' @ live_list_intents n (Some ''submit_unknown'') q'))"
    if "live_queue_step\<^sup>*\<^sup>* (rw_queue w') q'" for q'
  proof -
    have s: "live_queue_step\<^sup>*\<^sup>* (rw_queue w1) q'" using steps2 that by (auto intro: rtranclp_trans)
    show ?thesis using st[OF s] by (auto dest: st(2)[OF s])
  qed
  then show ?thesis using steps2 f(2) tr(2) st(1) refused_member[OF tr(1)] by simp
qed

theorem filled_with_unaccounted_fill_witness:
  "\<exists>r w'. reconcile_live_intent two_fill_env (live_sample_intent ''submitted'' (Some ''x1'')) two_fill_world = (r, w') \<and>
     status_of ''i1'' (rw_queue w') = Some ''filled'' \<and> \<not> journalled (''coinbase'', ''f2'') (es_journal (ac_store (rw_db w')))"
proof -
  let ?it = "live_sample_intent ''submitted'' (Some ''x1'')"
  let ?e = two_fill_env
  let ?trs = "[two_fill_trade ''f1'' 5000, two_fill_trade ''f2'' 6000]"
  define w3 where "w3 = rtick (rtick (rtick two_fill_world))"
  have w: "rw_tick (rtick w3) = 4" "rw_db (rtick w3) = empty_account" "rw_queue w3 = live_sample_queue ''submitted'' (Some ''x1'')"
    by (simp_all add: w3_def rtick_def two_fill_world_def live_sample_world_def)
  obtain acc v where h: "handle_trades ?e ?it ''coinbase'' ''BTC/USD'' ''x1'' ?trs start_acc (rtick w3) = (Inr acc, v)" "ta_count acc = 1"
    and j: "map canonical_key (journal_rows (es_journal (ac_store (rw_db v)))) = [(''coinbase'', ''f1'')]"
    using two_fill_handled[OF w(1,2) refl, of "''submitted''" "Some ''x1''"] by (elim exE conjE) (rule that)
  have js: "canonical_key ` set (journal_rows (es_journal (ac_store (rw_db v)))) = {(''coinbase'', ''f1'')}"
    using arg_cong[OF j, of set] by simp
  have env: "rv_adapter ?e n s = None" "rv_order ?e n y x = Inr (Some [(''status'', JStr ''closed'')])" "env_int (rv_stale_ms ?e) d = Inr 60" for n s y x d
    using live_sample_env_fields[of "Inr []"] by (simp_all add: two_fill_env_def)
  have cl: "strip (lower ''closed'') = ''closed''" by code_simp
  have q: "rw_queue two_fill_world = live_sample_queue ''submitted'' (Some ''x1'')" by (simp add: two_fill_world_def live_sample_world_def)
  obtain r w' where run: "reconcile_live_intent ?e ?it two_fill_world = (r, w')" by fastforce
  have "status_of (strip (li_intent_id ?it)) (rw_queue w') = Some ''filled'' \<and> two_fill_trade ''f2'' 6000 \<in> set ?trs \<and>
    \<not> journalled (live_journal_venue ?it, live_trade_tid (two_fill_trade ''f2'' 6000)) (es_journal (ac_store (rw_db w'))) \<and>
    (\<forall>q'. live_queue_step\<^sup>*\<^sup>* (rw_queue w') q' \<longrightarrow> status_of (strip (li_intent_id ?it)) q' = Some ''filled'' \<and>
       (\<forall>n. strip (li_intent_id ?it) \<notin> li_intent_id ` set (live_list_intents n (Some ''submitted'') q' @ live_list_intents n (Some ''submit_unknown'') q')))"
    by (rule filled_with_unaccounted_fill[OF _ _ _ _ _ _ _ _ env(3) env(1) env(2) _ w3_def two_fill_answered[OF w(3)] h(1) _ two_fill_refused[OF w(1,2)] _ run])
      (simp_all add: q live_queue_reachable_inv[OF live_sample_reachable] live_sample_status live_sample_values opt_str_or_def str_or_def
        jget_def jor_def cl h(2) journalled_def js two_fill_trade_parts)
  then show ?thesis using run by (auto simp: live_sample_values two_fill_trade_parts live_journal_venue_def str_or_def)
qed

theorem reconcile_pass_lifecycle_witness:
  "\<exists>r w' s'. reconcile_pass two_fill_env two_fill_world = (r, w') \<and> status_of ''i1'' (rw_queue w') = Some s' \<and>
     lifecycle_step\<^sup>*\<^sup>* ''submitted'' s'"
proof -
  obtain r w' where p: "reconcile_pass two_fill_env two_fill_world = (r, w')" by fastforce
  have q: "rw_queue two_fill_world = live_sample_queue ''submitted'' (Some ''x1'')"
    by (simp add: two_fill_world_def live_sample_world_def)
  show ?thesis
    using reconcile_pass_lifecycle[OF _ p, of "''i1''" "''submitted''"] p live_sample_status
      live_queue_reachable_inv[OF live_sample_reachable] by (auto simp: q)
qed

section \<open>Ambiguous submits\<close>

lemma su_key_free: "live_set_state (su_key iid) v q = Inr (put_state (su_key iid) v q)"
  by (simp add: live_set_state_def su_key_def)

lemma su_state_text: "su_state now (Some (su_text (f, c))) = (f, c)"
  by (simp add: su_state_def su_text_def jget_def jor_def)

lemma su_record:
  "record_su_not_found iid now q =
     (let (f, c) = su_state now (live_get_state (su_key iid) q) in ((f, c + 1), put_state (su_key iid) (su_text (f, c + 1)) q))"
  by (simp add: record_su_not_found_def su_key_free Let_def split: prod.split)

definition su_fresh :: "string \<Rightarrow> live_queue \<Rightarrow> bool" where
  "su_fresh iid q \<longleftrightarrow> live_get_state (su_key iid) q = None \<or> live_get_state (su_key iid) q = Some (TxStr '''')"

text \<open>The queue after not-found answers at the given times since the window opened. Between two answers the processes may change everything but
  the intent's own observation record, which a recovery resets to the empty text.\<close>

inductive su_run :: "string \<Rightarrow> int list \<Rightarrow> live_queue \<Rightarrow> bool" for iid where
  opened: "su_fresh iid q \<Longrightarrow> su_run iid [] q"
| observed: "su_run iid ts q \<Longrightarrow> su_run iid (ts @ [t]) (snd (record_su_not_found iid t q))"
| elsewhere: "su_run iid ts q \<Longrightarrow> live_get_state (su_key iid) q' = live_get_state (su_key iid) q \<Longrightarrow> su_run iid ts q'"

lemma su_state_fresh: "su_fresh iid q \<Longrightarrow> su_state now (live_get_state (su_key iid) q) = (now, 0)"
  by (auto simp: su_fresh_def su_state_def)

lemma su_run_state:
  "su_run iid ts q \<Longrightarrow> (if ts = [] then su_fresh iid q else live_get_state (su_key iid) q = Some (su_text (hd ts, int (length ts))))"
proof (induction rule: su_run.induct)
  case (observed ts q t)
  then show ?case by (cases ts) (simp_all add: su_record su_state_fresh su_state_text)
qed (simp_all add: su_fresh_def split: if_splits)

text \<open>The window: the record of consecutive observations holds the first time and their number.\<close>

lemma su_window:
  assumes "su_run iid ts q"
  shows "fst (record_su_not_found iid t q) = (hd (ts @ [t]), int (length ts) + 1)"
  using su_run_state[OF assms] by (cases ts) (simp_all add: su_record su_state_fresh su_state_text)

lemma rq_write_status:
  assumes "status_of i (rw_queue (snd (rq_write env it s a w))) = Some t"
  shows "status_of i (rw_queue w) = Some t \<or> t = normalize_live_queue_status (Some s)"
proof (cases "update_live_queue_status_as_reconciler (rv_now env (rw_tick w)) (live_snap it) (Some s) (Some live_reconciler_ctx) a (rw_queue w)")
  case (Inl v)
  then show ?thesis using assms by (simp add: rq_write_def rtick_def)
next
  case (Inr p)
  obtain b q' where p: "p = (b, q')" by (cases p)
  obtain r a' where v: "validate_reconciler_live_queue_transition (Some (li_status it)) (Some s) = Inr r"
    and u: "live_update_status (rv_now env (rw_tick w)) (strip (li_intent_id it)) (Some r) a' (rw_queue w) = (b, q')"
    using Inr p by (auto simp: update_live_queue_status_as_reconciler_def validated_reconciler_live_queue_status_def
        live_snap_def opt_str_or_def str_or_def Let_def split: if_splits sum.splits)
  have "status_of i q' = Some t" using assms Inr p by (simp add: rq_write_def rtick_def)
  then show ?thesis
    using status_after_update[of i "rv_now env (rw_tick w)" "strip (li_intent_id it)" "Some r" a' "rw_queue w" t] u
      validators_return_normal(1)[OF v] by auto
qed

lemma rest_of_write_status:
  "status_of i (rw_queue (snd (rbnd (rq_write env it s a)
      (\<lambda>ok. if ok then rbnd (rorder_write env it venue symbol coid x st err) (\<lambda>_. rbnd (clear_act it) (\<lambda>_. rret True)) else rret False) w))) =
   status_of i (rw_queue (snd (rq_write env it s a w)))"
  by (simp add: rbnd_def rorder_write_def clear_act_def rret_def rtick_def clear_su_not_found_def su_key_free split: sum.split prod.split)

lemma record_status: "status_of i (snd (record_su_not_found iid t q)) = status_of i q"
  by (simp add: su_record Let_def split: prod.split)

lemma su_not_found_disposes:
  assumes "su_not_found env it venue symbol coid w = (r, w')" "status_of i (rw_queue w) \<noteq> Some ''error''"
    and "status_of i (rw_queue w') = Some ''error''"
  shows "su_disposable env (rv_now_ms env (rw_tick w)) (fst (record_su_not_found (li_intent_id it) (rv_now_ms env (rw_tick w)) (rw_queue w)))"
proof (rule ccontr)
  assume "\<not> ?thesis"
  then have "status_of i (rw_queue w') = status_of i (rw_queue w)"
    using assms(1) record_status[of i "li_intent_id it" "rv_now_ms env (rw_tick w)" "rw_queue w"]
    by (auto simp: su_not_found_def Let_def rtick_def split: prod.splits)
  then show False using assms(2,3) by simp
qed

lemma su_found_never_error:
  assumes "su_found env it venue symbol coid ord w = (r, w')" "status_of i (rw_queue w') = Some ''error''"
  shows "status_of i (rw_queue w) = Some ''error''"
proof (cases "strip (json_str (jor (jor (jget ''id'' ord) (jget ''orderId'' ord)) (JStr ''''))) = ''''")
  case True
  then show ?thesis using assms by (simp add: su_found_def Let_def rret_def)
next
  case False
  then show ?thesis using assms rq_write_status[of i env it "''submitted''" _ w "''error''"]
    by (auto simp: su_found_def Let_def normalize_literals rest_of_write_status
        dest!: arg_cong[of _ _ "\<lambda>x. status_of i (rw_queue (snd x))"])
qed

text \<open>C24. An ambiguous submit is written off late. After not-found answers at the times \<open>ts\<close> since the window opened, with any other
  changes of the queue in between, a lookup at time \<open>t\<close> turns the intent into \<open>error\<close> only when this lookup finds no listed order with its client id, at least
  \<open>min_obs\<close> answers have been counted and the window is at least as long as the terminal limit. A not-found answer is what the code counts as one: a lookup
  whose listings failed is counted too, against the docstring of the observation record (\<open>outage_writes_off_submit\<close>).\<close>

theorem submit_unknown_written_off_late:
  assumes "su_run (li_intent_id it) ts (rw_queue w)"
    and "recover_submit_unknown env it venue symbol w = (r, w')"
    and "status_of i (rw_queue w) \<noteq> Some ''error''" "status_of i (rw_queue w') = Some ''error''"
    and t: "t = rv_now_ms env (Suc (rw_tick w))"
  shows "find_order_by_client_oid (rv_open env (rw_tick w) (map_symbol (rv_symbol_map env) venue symbol))
      (rv_closed env (rw_tick w) (map_symbol (rv_symbol_map env) venue symbol)) (strip (opt_str_or (li_client_order_id it) '''')) = None \<and>
    su_not_found_min_obs (rv_min_obs env) \<le> int (length ts) + 1 \<and>
    fle (su_not_found_terminal_ms (rv_terminal_ms env)) (Fin (of_int (max 0 (t - hd (ts @ [t])))))"
proof -
  let ?found = "find_order_by_client_oid (rv_open env (rw_tick w) (map_symbol (rv_symbol_map env) venue symbol))
      (rv_closed env (rw_tick w) (map_symbol (rv_symbol_map env) venue symbol)) (strip (opt_str_or (li_client_order_id it) ''''))"
  have q: "rw_queue (rtick w) = rw_queue w" "rw_tick (rtick w) = Suc (rw_tick w)" by (simp_all add: rtick_def)
  have run: "(case ?found of None \<Rightarrow> su_not_found env it venue symbol (strip (opt_str_or (li_client_order_id it) '''')) (rtick w)
      | Some ord \<Rightarrow> su_found env it venue symbol (strip (opt_str_or (li_client_order_id it) '''')) ord (rtick w)) = (r, w')"
    using assms(2-4) by (auto simp: recover_submit_unknown_def Let_def split: if_splits)
  show ?thesis
  proof (cases ?found)
    case None
    then have "su_not_found env it venue symbol (strip (opt_str_or (li_client_order_id it) '''')) (rtick w) = (r, w')" using run by simp
    from su_not_found_disposes[OF this] have "su_disposable env t (fst (record_su_not_found (li_intent_id it) t (rw_queue w)))"
      using assms(3,4) by (simp add: q t)
    then show ?thesis
      using None su_window[OF assms(1), of t] by (simp add: su_disposable_def)
  next
    case (Some ord)
    then show ?thesis using run su_found_never_error[of env it venue symbol _ ord "rtick w" r w' i] assms(3,4) by (simp add: q)
  qed
qed

lemma su_disposed:
  assumes inv: "live_queue_inv (rw_queue w)" and st: "status_of (strip (li_intent_id it)) (rw_queue w) = Some ''submit_unknown''"
    and it: "li_status it = ''submit_unknown''" "strip (li_intent_id it) \<noteq> ''''" "strip (opt_str_or (li_client_order_id it) '''') \<noteq> ''''"
    and seen: "su_run (li_intent_id it) ts (rw_queue w)"
    and none: "find_order_by_client_oid (rv_open env (rw_tick w) (map_symbol (rv_symbol_map env) venue symbol))
      (rv_closed env (rw_tick w) (map_symbol (rv_symbol_map env) venue symbol)) (strip (opt_str_or (li_client_order_id it) '''')) = None"
    and t: "t = rv_now_ms env (Suc (rw_tick w))"
    and enough: "su_not_found_min_obs (rv_min_obs env) \<le> int (length ts) + 1"
      "fle (su_not_found_terminal_ms (rv_terminal_ms env)) (Fin (of_int (max 0 (t - hd (ts @ [t])))))"
  shows "status_of (strip (li_intent_id it)) (rw_queue (snd (recover_submit_unknown env it venue symbol w))) = Some ''error''"
proof -
  let ?c = "strip (opt_str_or (li_client_order_id it) '''')"
  have "lower (strip ''submit_unknown'') = ''submit_unknown''" by code_simp
  then have run: "recover_submit_unknown env it venue symbol w = su_not_found env it venue symbol ?c (rtick w)"
    using none it by (simp add: recover_submit_unknown_def Let_def)
  obtain f q where rec: "record_su_not_found (li_intent_id it) t (rw_queue w) = (f, q)" by fastforce
  have d: "su_disposable env t f"
    using enough su_window[OF seen, of t] rec by (simp add: su_disposable_def)
  have q: "live_queue_inv q" "status_of (strip (li_intent_id it)) q = Some ''submit_unknown''"
    using rec inv st record_status[of _ "li_intent_id it" t "rw_queue w"] by (auto simp: su_record Let_def split: prod.splits)
  have v: "validate_reconciler_live_queue_transition (Some ''submit_unknown'') (Some ''error'') = Inr ''error''" by code_simp
  have wr: "status_of (strip (li_intent_id it)) (rw_queue (snd (rq_write env it ''error'' a (w1\<lparr>rw_queue := q\<rparr>)))) = Some ''error''" for a w1
    using reconciler_write_done[OF q it(2) v[folded it(1)], of "rv_now env (rw_tick w1)" a]
    by (auto simp: rq_write_def rtick_def live_status_guard_def)
  have "rtick (rtick w\<lparr>rw_queue := q\<rparr>) = (rtick (rtick w))\<lparr>rw_queue := q\<rparr>" by (simp add: rtick_def)
  then show ?thesis
    unfolding run using rec d t wr
    by (simp add: su_not_found_def Let_def rtick_def[of w] rest_of_write_status) 
qed

text \<open>An outage of the exchange is counted as an answer. When both order listings raise, the lookup reports no order; the
  answers are counted like clean ones, and once the counts are reached the intent is written off as \<open>error\<close> although the exchange has never said that it
  does not know the order.\<close>

theorem outage_writes_off_submit:
  assumes "live_queue_inv (rw_queue w)" "status_of (strip (li_intent_id it)) (rw_queue w) = Some ''submit_unknown''"
    and "li_status it = ''submit_unknown''" "strip (li_intent_id it) \<noteq> ''''" "strip (opt_str_or (li_client_order_id it) '''') \<noteq> ''''"
    and "su_run (li_intent_id it) ts (rw_queue w)"
    and outage: "\<forall>n y. \<exists>e. rv_open env n y = Inl e" "\<forall>n y. \<exists>e. rv_closed env n y = Some (Inl e)"
    and "t = rv_now_ms env (Suc (rw_tick w))" "su_not_found_min_obs (rv_min_obs env) \<le> int (length ts) + 1"
      "fle (su_not_found_terminal_ms (rv_terminal_ms env)) (Fin (of_int (max 0 (t - hd (ts @ [t])))))"
  shows "status_of (strip (li_intent_id it)) (rw_queue (snd (recover_submit_unknown env it venue symbol w))) = Some ''error''"
proof -
  let ?y = "map_symbol (rv_symbol_map env) venue symbol"
  obtain e1 e2 where "rv_open env (rw_tick w) ?y = Inl e1" "rv_closed env (rw_tick w) ?y = Some (Inl e2)" using outage by blast
  then have "find_order_by_client_oid (rv_open env (rw_tick w) ?y) (rv_closed env (rw_tick w) ?y) (strip (opt_str_or (li_client_order_id it) '''')) = None"
    using find_order_outage[of e1 "Some e2"] by simp
  from su_disposed[OF assms(1-6) this assms(9-11)] show ?thesis .
qed

text \<open>Two not-found answers in the past and an outage now; between the two answers the trade cursor moves.\<close>

definition su_sample_queue :: live_queue where
  "su_sample_queue = snd (record_su_not_found ''i1'' 1500000 (put_state (cursor_key ''coinbase'' ''BTC/USD'') (TxNum 5001)
     (snd (record_su_not_found ''i1'' 1000000 (live_sample_queue ''submit_unknown'' None)))))"

definition su_sample_world :: rworld where
  "su_sample_world = live_sample_world su_sample_queue"

lemma record_inv: "live_queue_inv (snd (record_su_not_found iid t q)) = live_queue_inv q"
  by (simp add: su_record Let_def split: prod.split)

lemma su_sample_run: "su_run ''i1'' [1000000, 1500000] su_sample_queue"
proof -
  have "su_fresh ''i1'' (live_sample_queue ''submit_unknown'' None)" by (simp add: su_fresh_def live_sample_state)
  then have 1: "su_run ''i1'' ([] @ [1000000]) (snd (record_su_not_found ''i1'' 1000000 (live_sample_queue ''submit_unknown'' None)))"
    by (intro su_run.intros)
  have "su_run ''i1'' ([] @ [1000000]) (put_state (cursor_key ''coinbase'' ''BTC/USD'') (TxNum 5001)
      (snd (record_su_not_found ''i1'' 1000000 (live_sample_queue ''submit_unknown'' None))))"
    by (rule su_run.elsewhere[OF 1]) (simp add: cursor_key_def su_key_def)
  from su_run.observed[OF this, of 1500000] show ?thesis by (simp add: su_sample_queue_def)
qed

lemma su_sample:
  "live_queue_inv (rw_queue su_sample_world)" "status_of ''i1'' (rw_queue su_sample_world) = Some ''submit_unknown''"
  "su_run ''i1'' [1000000, 1500000] (rw_queue su_sample_world)"
  "su_not_found_min_obs (rv_min_obs (live_sample_env l)) = 3"
  "su_not_found_terminal_ms (rv_terminal_ms (live_sample_env l)) = Fin 900000"
  using live_queue_reachable_inv[OF live_sample_reachable] live_sample_status su_sample_run
  by (simp_all add: su_sample_world_def live_sample_world_def su_sample_queue_def record_inv record_status live_sample_env_def
      su_not_found_min_obs_def su_not_found_terminal_ms_def positive_override_def)

theorem outage_writes_off_submit_witness:
  "status_of ''i1'' (rw_queue (snd (recover_submit_unknown (live_sample_env (Inl (RuntimeError ''timeout'')))
     (live_sample_intent ''submit_unknown'' None) ''coinbase'' ''BTC/USD'' su_sample_world))) = Some ''error''"
proof -
  let ?it = "live_sample_intent ''submit_unknown'' None"
  let ?e = "live_sample_env (Inl (RuntimeError ''timeout''))"
  have q: "su_run (li_intent_id ?it) [1000000, 1500000] (rw_queue su_sample_world)" using su_sample(3) by simp
  have "status_of (strip (li_intent_id ?it)) (rw_queue (snd (recover_submit_unknown ?e ?it ''coinbase'' ''BTC/USD'' su_sample_world))) = Some ''error''"
    by (rule outage_writes_off_submit[OF su_sample(1) _ _ _ _ q, where t = 2000000])
      (simp_all add: su_sample live_sample_values opt_str_or_def str_or_def live_sample_env_fields)
  then show ?thesis by (simp add: live_sample_values)
qed

theorem submit_unknown_written_off_late_witness:
  "\<exists>r w'. recover_submit_unknown (live_sample_env (Inr [])) (live_sample_intent ''submit_unknown'' None) ''coinbase'' ''BTC/USD'' su_sample_world = (r, w') \<and>
     status_of ''i1'' (rw_queue w') = Some ''error'' \<and> fle (Fin 900000) (Fin (of_int (max 0 (2000000 - 1000000))))"
proof -
  let ?it = "live_sample_intent ''submit_unknown'' None"
  let ?e = "live_sample_env (Inr [])"
  have q: "su_run (li_intent_id ?it) [1000000, 1500000] (rw_queue su_sample_world)" using su_sample(3) by simp
  have f: "find_order_by_client_oid (Inr []) (Some (Inr [])) c = None" for c
    by (simp add: find_order_by_client_oid_def lookup_in_def)
  obtain r w' where w': "recover_submit_unknown ?e ?it ''coinbase'' ''BTC/USD'' su_sample_world = (r, w')" by fastforce
  have "status_of (strip (li_intent_id ?it)) (rw_queue (snd (recover_submit_unknown ?e ?it ''coinbase'' ''BTC/USD'' su_sample_world))) = Some ''error''"
    by (rule su_disposed[OF su_sample(1) _ _ _ _ q, where t = 2000000])
      (simp_all add: su_sample live_sample_values opt_str_or_def str_or_def live_sample_env_fields f)
  then have e: "status_of ''i1'' (rw_queue w') = Some ''error''" by (simp add: live_sample_values w')
  have "status_of ''i1'' (rw_queue su_sample_world) \<noteq> Some ''error''" using su_sample(2) by simp
  from submit_unknown_written_off_late[OF q w' this e refl]
  have "fle (Fin 900000) (Fin (of_int (max 0 (2000000 - 1000000))))" by (simp add: su_sample live_sample_env_fields)
  then show ?thesis using w' e by blast
qed

end
