(* ===== verification/System_Health.thy ===== *)
theory System_Health
  imports Fill_Sink Live_Trading_Store
begin

text \<open>
  services/risk/system\_health.py: the health check every order passes through. It looks for the halt flag
  and for the flag of the fill sink, compares the canonical journal with the daily risk table, and compares the live fill table with the
  journal. The reasons are values of \<open>health_reason\<close>, which keep the numbers and the exception of the texts.
  A missing file of live fills and a missing live fill table have the same answer and are both \<open>None\<close>.
\<close>

section \<open>Definitions\<close>

datatype health_reason =
    HaltedFlag string
  | HaltedFlagUnreadable exn
  | RiskSinkFailedFlag string string
  | RiskSinkFlagUnreadable exn
  | AccountingCheckFailed exn
  | AccountingViolated nat
  | LiveCheckFailed exn
  | LiveCanonicalGap nat

datatype health = HEALTHY | DEGRADED | HALTED

text \<open>The outside of the check: the halt flag with its text or the error of reading it, an error of reading the sink's flag, and errors of the
  two queries (a locked database, for instance). \<open>hs_risk_table\<close> says that the table of risk fills exists.\<close>

record health_state =
  hs_halt :: "(exn + string) option"
  hs_db :: account_db
  hs_flag_error :: "exn option"
  hs_risk_table :: bool
  hs_accounting_error :: "exn option"
  hs_live :: "live_trading option"
  hs_live_error :: "exn option"

definition check_halt_flag :: "health_state \<Rightarrow> health_reason option" where
  "check_halt_flag h =
     (case hs_halt h of
        None \<Rightarrow> None
      | Some (Inl e) \<Rightarrow> Some (HaltedFlagUnreadable e)
      | Some (Inr raw) \<Rightarrow> Some (HaltedFlag (str_or (strip raw) ''system_halted_flag_present'')))"

definition health_risk_sink_flag :: "health_state \<Rightarrow> health_reason option" where
  "health_risk_sink_flag h =
     (case ac_flag (hs_db h) of
        None \<Rightarrow> None
      | Some f \<Rightarrow> (case hs_flag_error h of
          Some e \<Rightarrow> Some (RiskSinkFlagUnreadable e)
        | None \<Rightarrow> Some (RiskSinkFailedFlag (str_or (fg_venue f) ''unknown'') (str_or (fg_fill_id f) ''unknown''))))"

text \<open>\<open>SELECT COUNT(*) FROM canonical_fills cf LEFT JOIN risk_daily_fills rdf ON ... WHERE rdf.fill_id IS NULL\<close>\<close>

definition risk_missing :: "journal_table \<Rightarrow> risk_db \<Rightarrow> nat" where
  "risk_missing j rdb =
     length (filter (\<lambda>r. \<not> (\<exists>f \<in> set (rdb_fills rdb). risk_fill_key f = canonical_key r)) (journal_rows j))"

definition check_accounting_invariant :: "health_state \<Rightarrow> health_reason option" where
  "check_accounting_invariant h =
     (case hs_accounting_error h of
        Some e \<Rightarrow> Some (AccountingCheckFailed e)
      | None \<Rightarrow>
          if es_journal (ac_store (hs_db h)) = None \<or> \<not> hs_risk_table h then None
          else (let missing = risk_missing (es_journal (ac_store (hs_db h))) (ac_risk (hs_db h))
                in if 0 < missing then Some (AccountingViolated missing) else None))"

definition live_missing :: "live_trading \<Rightarrow> journal_table \<Rightarrow> nat" where
  "live_missing l j =
     length (filter (\<lambda>f. lf_trade_id f \<noteq> '''' \<and> \<not> journalled (lf_venue f, lf_trade_id f) j) (lt_fills l))"

text \<open>Without a journal table every live fill with an id counts.\<close>

definition check_live_trading_vs_canonical :: "health_state \<Rightarrow> health_reason option" where
  "check_live_trading_vs_canonical h =
     (case hs_live h of
        None \<Rightarrow> None
      | Some l \<Rightarrow>
          (case hs_live_error h of
             Some e \<Rightarrow> Some (LiveCheckFailed e)
           | None \<Rightarrow> (let missing = live_missing l (es_journal (ac_store (hs_db h)))
                      in if 0 < missing then Some (LiveCanonicalGap missing) else None)))"

definition get_system_health :: "health_state \<Rightarrow> health \<times> health_reason list" where
  "get_system_health h =
     (case check_halt_flag h of
        Some r \<Rightarrow> (HALTED, [r])
      | None \<Rightarrow>
          (let reasons = opt_list (health_risk_sink_flag h) @ opt_list (check_accounting_invariant h) @
                 opt_list (check_live_trading_vs_canonical h)
           in if reasons \<noteq> [] then (DEGRADED, reasons) else (HEALTHY, [])))"

section \<open>What a healthy answer means\<close>

text \<open>The books agree: every journalled fill is in the daily risk table, and every live fill with an id is in the journal.\<close>

definition books_agree :: "account_db \<Rightarrow> live_trading \<Rightarrow> bool" where
  "books_agree db l \<longleftrightarrow>
     (\<forall>r \<in> set (journal_rows (es_journal (ac_store db))). \<exists>f \<in> set (rdb_fills (ac_risk db)). risk_fill_key f = canonical_key r) \<and>
     (\<forall>f \<in> set (lt_fills l). lf_trade_id f \<noteq> '''' \<longrightarrow> journalled (lf_venue f, lf_trade_id f) (es_journal (ac_store db)))"

lemma no_count: "length (filter P xs) = 0 \<longleftrightarrow> (\<forall>x \<in> set xs. \<not> P x)"
  by (simp add: filter_empty_conv)

lemma risk_missing_zero: "risk_missing j rdb = 0 \<longleftrightarrow> (\<forall>r \<in> set (journal_rows j). \<exists>f \<in> set (rdb_fills rdb). risk_fill_key f = canonical_key r)"
  unfolding risk_missing_def no_count by simp

lemma live_missing_zero:
  "live_missing l j = 0 \<longleftrightarrow> (\<forall>f \<in> set (lt_fills l). lf_trade_id f \<noteq> '''' \<longrightarrow> journalled (lf_venue f, lf_trade_id f) j)"
  unfolding live_missing_def no_count by auto

lemma health_healthy:
  "fst (get_system_health h) = HEALTHY \<longleftrightarrow>
     check_halt_flag h = None \<and> health_risk_sink_flag h = None \<and> check_accounting_invariant h = None \<and>
     check_live_trading_vs_canonical h = None"
  by (auto simp: get_system_health_def opt_list_def Let_def split: option.splits)

lemma check_none:
  "check_halt_flag h = None \<longleftrightarrow> hs_halt h = None"
  "health_risk_sink_flag h = None \<longleftrightarrow> ac_flag (hs_db h) = None"
  by (auto simp: check_halt_flag_def health_risk_sink_flag_def split: option.splits sum.splits)

text \<open>C19. A healthy answer means that the books agree. With the tables in place, the check answers \<open>HEALTHY\<close> exactly when
  there is no halt flag and no flag of the fill sink, both queries worked, every fill of the canonical journal is in the daily risk table,
  and every live fill with an id is in the journal.\<close>

theorem healthy_iff_books_agree:
  assumes "es_journal (ac_store (hs_db h)) \<noteq> None" "hs_risk_table h" "hs_live h = Some l"
  shows "fst (get_system_health h) = HEALTHY \<longleftrightarrow>
    hs_halt h = None \<and> ac_flag (hs_db h) = None \<and> hs_accounting_error h = None \<and> hs_live_error h = None \<and> books_agree (hs_db h) l"
proof -
  have a: "check_accounting_invariant h = None \<longleftrightarrow>
      hs_accounting_error h = None \<and> risk_missing (es_journal (ac_store (hs_db h))) (ac_risk (hs_db h)) = 0"
    using assms by (auto simp: check_accounting_invariant_def Let_def split: option.splits)
  have l: "check_live_trading_vs_canonical h = None \<longleftrightarrow>
      hs_live_error h = None \<and> live_missing l (es_journal (ac_store (hs_db h))) = 0"
    using assms by (auto simp: check_live_trading_vs_canonical_def Let_def split: option.splits)
  show ?thesis
    unfolding health_healthy check_none a l risk_missing_zero live_missing_zero books_agree_def by blast
qed

section \<open>Fills the check never finds\<close>

text \<open>The daily risk table stores venues in lower case without surrounding blanks, and only fills with an id.\<close>

definition risk_keys_normal :: "risk_db \<Rightarrow> bool" where
  "risk_keys_normal rdb \<longleftrightarrow> (\<forall>f \<in> set (rdb_fills rdb). lower (strip (rf_venue f)) = rf_venue f \<and> strip (rf_fill_id f) = rf_fill_id f \<and> rf_fill_id f \<noteq> '''')"

lemma risk_keys_apply:
  assumes "risk_keys_normal rdb"
  shows "risk_keys_normal (snd (apply_fill_once now today v i p f day rdb))"
proof (cases "fst (apply_fill_once now today v i p f day rdb)")
  case False
  then have "snd (apply_fill_once now today v i p f day rdb) = rdb"
    by (cases rule: apply_fill_once_cases[of now today v i p f day rdb]) simp_all
  then show ?thesis using assms by simp
next
  case True
  let ?v = "lower (strip (opt_str_or v ''''))" and ?i = "strip (opt_str_or i '''')"
  have ne: "?i \<noteq> ''''" using True by (auto simp: apply_fill_once_def Let_def split: if_splits)
  show ?thesis
  proof (cases rule: apply_fill_once_cases[of now today v i p f day rdb])
    case refused
    then show ?thesis using assms by simp
  next
    case (first db')
    then have "rdb_fills db' = rdb_fills rdb @ [\<lparr>rf_venue = ?v, rf_fill_id = ?i, rf_day = opt_str_or day today, rf_created_at = now\<rparr>]"
      by (auto dest!: apply_pnl_fills)
    then show ?thesis using assms ne first(1) by (auto simp: risk_keys_normal_def strip_lower)
  qed
qed

text \<open>Every database the risk module produces.\<close>

inductive risk_reachable :: "risk_db \<Rightarrow> bool" where
  "risk_reachable empty_risk_db"
| "risk_reachable db \<Longrightarrow> risk_reachable (snd (apply_fill_once now today v i p f day db))"
| "risk_reachable db \<Longrightarrow> risk_other db db' \<Longrightarrow> risk_reachable db'"

lemma risk_reachable_normal: "risk_reachable rdb \<Longrightarrow> risk_keys_normal rdb"
proof (induction rule: risk_reachable.induct)
  case 1
  then show ?case by (simp add: risk_keys_normal_def empty_risk_db_def)
next
  case (2 db now today v i p f day)
  show ?case by (rule risk_keys_apply[OF 2(2)])
next
  case (3 db db')
  then show ?case by (simp add: risk_keys_normal_def risk_other_fills)
qed

text \<open>C36. A fill whose key is not in the risk table's form locks the system. The journal stores the venue and the id of a fill
  as they were reported, the daily risk table stores them in lower case and stripped and takes no fill without an id, and the health check compares the two literally.
  One journalled fill with a capital letter or a surrounding blank in its venue, or without an id, makes every later health check answer \<open>DEGRADED\<close>
  or \<open>HALTED\<close>, whatever the risk module does.\<close>

theorem unnormalised_fill_degrades:
  assumes risk: "risk_reachable (ac_risk (hs_db h))" and r: "r \<in> set (journal_rows (es_journal (ac_store (hs_db h))))"
    and key: "lower (strip (cf_venue r)) \<noteq> cf_venue r \<or> strip (cf_fill_id r) \<noteq> cf_fill_id r \<or> cf_fill_id r = ''''"
    and tab: "hs_risk_table h"
  shows "fst (get_system_health h) \<noteq> HEALTHY"
proof -
  have "\<not> (\<exists>f \<in> set (rdb_fills (ac_risk (hs_db h))). risk_fill_key f = canonical_key r)"
    using risk_reachable_normal[OF risk] key by (auto simp: risk_keys_normal_def risk_fill_key_def canonical_key_def)
  then have "risk_missing (es_journal (ac_store (hs_db h))) (ac_risk (hs_db h)) \<noteq> 0" using r risk_missing_zero by blast
  moreover have "es_journal (ac_store (hs_db h)) \<noteq> None" using r by (cases "es_journal (ac_store (hs_db h))") simp_all
  ultimately have "check_accounting_invariant h \<noteq> None"
    using tab by (auto simp: check_accounting_invariant_def Let_def split: option.splits)
  then show ?thesis unfolding health_healthy by blast
qed

text \<open>With a rolled-back risk transaction the sink leaves the daily risk table alone.\<close>

lemma rollback_keeps_risk:
  assumes ok: "sink_on_fill env fill db = (SinkOk, db')" and txn: "sf_risk_txn (se_faults env)"
  shows "ac_risk db' = ac_risk db"
proof (cases rule: sink_on_fill_cases[of env fill db])
  case (entered t s fee r)
  have j: "ac_risk (journal_entry s r db) = ac_risk db" by (simp add: journal_entry_def)
  show ?thesis
  proof (cases "jtruthy (sink_fid fill)")
    case True
    then have "sink_account env fill r (journal_entry s r db) = (SinkOk, db')" using ok entered(4) by simp
    then show ?thesis
    proof (cases rule: sink_account_ok)
      case (ok pnl ps risk lmt mins n s')
      then show ?thesis using txn j by simp
    qed
  next
    case False
    then show ?thesis using ok entered(4) j by simp
  qed
qed (use ok in \<open>simp_all add: record_failed_def\<close>)

lemma rollback_caught:
  assumes start: "journal_start s0" "loss_reach s0 (ac_store db)"
    and ok: "sink_on_fill env fill db = (SinkOk, db')" and id: "jtruthy (sink_fid fill)" and txn: "sf_risk_txn (se_faults env)"
    and new: "\<forall>f \<in> set (rdb_fills (ac_risk db)). risk_fill_key f \<noteq> sink_key fill"
    and h: "hs_db h = db'" "hs_risk_table h"
  shows "fst (get_system_health h) \<noteq> HEALTHY"
proof -
  have "journalled (sink_key fill) (es_journal (ac_store db'))" using sink_accounted[OF start ok id] by blast
  then obtain r where r: "r \<in> set (journal_rows (es_journal (ac_store db')))" "canonical_key r = sink_key fill"
    by (auto simp: journalled_def)
  have "ac_risk db' = ac_risk db" using rollback_keeps_risk[OF ok txn] .
  then have "\<not> (\<exists>f \<in> set (rdb_fills (ac_risk db')). risk_fill_key f = canonical_key r)" using new r(2) by auto
  then have "risk_missing (es_journal (ac_store (hs_db h))) (ac_risk (hs_db h)) \<noteq> 0" using r(1) risk_missing_zero h(1) by blast
  moreover have "es_journal (ac_store (hs_db h)) \<noteq> None" using r(1) h(1) by (cases "es_journal (ac_store (hs_db h))") simp_all
  ultimately have "check_accounting_invariant h \<noteq> None"
    using h(2) by (auto simp: check_accounting_invariant_def Let_def split: option.splits)
  then show ?thesis unfolding health_healthy by blast
qed

text \<open>The sink does not notice a rolled-back risk transaction, the health check does. Whatever fill the sink accepts, it also accepts
  when \<open>apply_fill_once\<close> rolls back and answers \<open>False\<close>, with the daily totals untouched and no flag written. For a fill that the daily risk table
  does not hold yet, the next health check is then not \<open>HEALTHY\<close>.\<close>

theorem rollback_silent_but_caught:
  assumes start: "journal_start s0" "loss_reach s0 (ac_store db)"
    and ok: "sink_on_fill env fill db = (SinkOk, db')" and id: "jtruthy (sink_fid fill)"
    and new: "\<forall>f \<in> set (rdb_fills (ac_risk db)). risk_fill_key f \<noteq> sink_key fill"
    and h: "hs_db h = db'\<lparr>ac_risk := ac_risk db\<rparr>" "hs_risk_table h"
  shows "sink_on_fill (env\<lparr>se_faults := (se_faults env)\<lparr>sf_risk_txn := True\<rparr>\<rparr>) fill db = (SinkOk, hs_db h) \<and>
    ac_flag (hs_db h) = ac_flag db \<and> fst (get_system_health h) \<noteq> HEALTHY"
proof -
  note silent = risk_rollback_is_silent[OF ok, folded h(1)]
  show ?thesis
    using silent sink_accounted[OF start silent id] rollback_caught[OF start silent id _ new refl h(2)] by simp
qed

section \<open>Witnesses\<close>

definition health_sample :: "account_db \<Rightarrow> health_state" where
  "health_sample db = \<lparr>hs_halt = None, hs_db = db, hs_flag_error = None, hs_risk_table = True, hs_accounting_error = None,
     hs_live = Some empty_live_trading, hs_live_error = None\<rparr>"

definition health_sample_db :: "string \<Rightarrow> risk_db \<Rightarrow> account_db" where
  "health_sample_db v rdb = empty_account\<lparr>ac_store := empty_exec_store\<lparr>es_journal := Some [(sink_sample_row ''f1'')\<lparr>cf_venue := v\<rparr>]\<rparr>, ac_risk := rdb\<rparr>"

theorem healthy_iff_books_agree_witness:
  "fst (get_system_health (health_sample (health_sample_db ''kraken''
     \<lparr>rdb_daily = [], rdb_fills = [\<lparr>rf_venue = ''kraken'', rf_fill_id = ''f1'', rf_day = ''d'', rf_created_at = ''n''\<rparr>]\<rparr>))) = HEALTHY"
  using healthy_iff_books_agree[of "health_sample (health_sample_db ''kraken''
     \<lparr>rdb_daily = [], rdb_fills = [\<lparr>rf_venue = ''kraken'', rf_fill_id = ''f1'', rf_day = ''d'', rf_created_at = ''n''\<rparr>]\<rparr>)" empty_live_trading]
  by (simp add: health_sample_def health_sample_db_def empty_account_def books_agree_def empty_live_trading_def risk_fill_key_def
      canonical_key_def sink_sample_row_def)

theorem unnormalised_fill_degrades_witness:
  "fst (get_system_health (health_sample (health_sample_db ''Kraken'' empty_risk_db))) \<noteq> HEALTHY"
proof -
  have "lower (strip ''Kraken'') \<noteq> ''Kraken''" by code_simp
  then show ?thesis
    by (intro unnormalised_fill_degrades[of _ "(sink_sample_row ''f1'')\<lparr>cf_venue := ''Kraken''\<rparr>"])
      (simp_all add: health_sample_def health_sample_db_def risk_reachable.intros(1))
qed

theorem rollback_silent_but_caught_witness:
  "\<exists>db'. sink_on_fill (sink_sample_env\<lparr>se_faults := no_faults\<lparr>sf_risk_txn := True\<rparr>\<rparr>) (sink_sample ''f1'') empty_account = (SinkOk, db') \<and>
     fst (get_system_health (health_sample db')) \<noteq> HEALTHY"
proof -
  obtain db where db: "sink_on_fill sink_sample_env (sink_sample ''f1'') empty_account = (SinkOk, db)"
    using sink_sample_ok by blast
  let ?h = "health_sample (db\<lparr>ac_risk := ac_risk empty_account\<rparr>)"
  have f: "se_faults sink_sample_env = no_faults" by (simp add: sink_sample_env_def)
  have new: "\<forall>f \<in> set (rdb_fills (ac_risk empty_account)). risk_fill_key f \<noteq> sink_key (sink_sample ''f1'')"
    by (simp add: empty_account_def empty_risk_db_def)
  have h: "hs_db ?h = db\<lparr>ac_risk := ac_risk empty_account\<rparr>" "hs_risk_table ?h" by (simp_all add: health_sample_def)
  from rollback_silent_but_caught[OF sink_sample_start db sink_sample_id new h]
  show ?thesis unfolding f h(1) by blast
qed

end
