(* ===== verification/Market_Rules.thy ===== *)
theory Market_Rules
  imports Exchange_Adapter
begin

text \<open>
  services/markets/: the trading rules of a market (minimum notional, minimum quantity, quantity step), their cache
  (cache\_sqlite.py), the symbol forms (symbols.py) and the check of an order against them (rules.py, prereq.py). The three
  fetchers ask the exchanges over the network; their answers are arguments. The JSON text of a cached rule is the rule
  itself.
\<close>

section \<open>Symbol forms\<close>

text \<open>\<open>s.replace("--", "-")\<close>, repeated while it applies.\<close>

fun has_dd :: "string \<Rightarrow> bool" where
  "has_dd (c # d # s) \<longleftrightarrow> c = dash \<and> d = dash \<or> has_dd (d # s)"
| "has_dd _ \<longleftrightarrow> False"

fun replace_dd :: "string \<Rightarrow> string" where
  "replace_dd (c # d # s) = (if c = dash \<and> d = dash then dash # replace_dd s else c # replace_dd (d # s))"
| "replace_dd s = s"

lemma replace_dd_le: "length (replace_dd s) \<le> length s"
  by (induction s rule: replace_dd.induct) auto

lemma replace_dd_less: "has_dd s \<Longrightarrow> length (replace_dd s) < length s"
  by (induction s rule: replace_dd.induct) (auto intro: le_imp_less_Suc le_SucI replace_dd_le)

function collapse_dashes :: "string \<Rightarrow> string" where
  "collapse_dashes s = (if has_dd s then collapse_dashes (replace_dd s) else s)"
  by pat_completeness auto
termination
  by (relation "measure length") (auto simp: replace_dd_less)

declare collapse_dashes.simps [simp del]

definition underscore :: char where "underscore = CHR ''_''"

definition canonicalize :: "string \<Rightarrow> string" where
  "canonicalize symbol =
     collapse_dashes (map (\<lambda>c. if c = underscore then dash else c)
       (map (\<lambda>c. if c = slash then dash else c) (upper (strip symbol))))"

definition split_canonical :: "string \<Rightarrow> string \<times> string" where
  "split_canonical symbol =
     (let n = canonicalize symbol
      in if dash \<notin> set n then (n, '''') else (takeWhile (\<lambda>c. c \<noteq> dash) n, tl (dropWhile (\<lambda>c. c \<noteq> dash) n)))"

definition binance_native :: "string \<Rightarrow> string" where
  "binance_native symbol = (let (base, quote) = split_canonical symbol in if quote \<noteq> '''' then base @ quote else base)"

definition gate_native :: "string \<Rightarrow> string" where
  "gate_native symbol =
     (let (base, quote) = split_canonical symbol in if quote \<noteq> '''' then base @ [underscore] @ quote else base)"

definition coinbase_native :: "string \<Rightarrow> string" where
  "coinbase_native symbol = canonicalize symbol"

section \<open>Rules and their cache\<close>

record market_rules =
  mr_venue :: string
  mr_canonical_symbol :: string
  mr_native_symbol :: string
  mr_active :: bool
  mr_min_notional :: "num_arg option"
  mr_min_qty :: "num_arg option"
  mr_qty_step :: "num_arg option"
  mr_price_tick :: "num_arg option"
  mr_error :: "string option"

record rules_row =
  mc_venue :: string
  mc_symbol :: string
  mc_updated_ts :: pyfloat
  mc_rules :: market_rules

type_synonym rules_cache = "rules_row list"

definition rules_key :: "rules_row \<Rightarrow> string \<times> string" where
  "rules_key r = (mc_venue r, mc_symbol r)"

definition cache_upsert :: "pyfloat \<Rightarrow> market_rules \<Rightarrow> rules_cache \<Rightarrow> rules_cache" where
  "cache_upsert now r c =
     (let k = (mr_venue r, mr_canonical_symbol r)
      in if select_key rules_key k c = None
         then c @ [\<lparr>mc_venue = mr_venue r, mc_symbol = mr_canonical_symbol r, mc_updated_ts = now, mc_rules = r\<rparr>]
         else upd_where (\<lambda>x. rules_key x = k) (\<lambda>x. x\<lparr>mc_updated_ts := now, mc_rules := r\<rparr>) c)"

definition lookup_key :: "string \<Rightarrow> string \<Rightarrow> string \<times> string" where
  "lookup_key venue symbol = (strip (lower venue), strip (upper symbol))"

definition cache_get :: "string \<Rightarrow> string \<Rightarrow> rules_cache \<Rightarrow> market_rules option" where
  "cache_get venue symbol c = map_option mc_rules (select_key rules_key (lookup_key venue symbol) c)"

definition is_fresh :: "pyfloat \<Rightarrow> string \<Rightarrow> string \<Rightarrow> pyfloat \<Rightarrow> rules_cache \<Rightarrow> bool" where
  "is_fresh now venue symbol ttl c =
     (case select_key rules_key (lookup_key venue symbol) c of
        None \<Rightarrow> False | Some r \<Rightarrow> fle (fsub now (mc_updated_ts r)) ttl)"

text \<open>\<open>SELECT MAX(updated_ts)\<close>\<close>

fun newest :: "rules_cache \<Rightarrow> pyfloat option" where
  "newest [] = None"
| "newest (r # c) = (case newest c of None \<Rightarrow> Some (mc_updated_ts r) | Some m \<Rightarrow> Some (pymax m (mc_updated_ts r)))"

definition any_fresh :: "pyfloat \<Rightarrow> pyfloat \<Rightarrow> rules_cache \<Rightarrow> bool" where
  "any_fresh now ttl c = (case newest c of None \<Rightarrow> False | Some m \<Rightarrow> fle (fsub now m) ttl)"

text \<open>\<open>check_market_rules_prereq\<close>: an exception of the cache is an answer too.\<close>

definition check_market_rules_prereq :: "exn option \<Rightarrow> pyfloat \<Rightarrow> pyfloat \<Rightarrow> rules_cache \<Rightarrow> bool \<times> string" where
  "check_market_rules_prereq err now ttl c =
     (case err of
        Some e \<Rightarrow> (False, ''EXCEPTION'')
      | None \<Rightarrow> if any_fresh now ttl c then (True, ''OK'') else (False, ''MARKET_RULES_CACHE_STALE_OR_EMPTY''))"

text \<open>The answers of the three fetchers, by canonical symbol.\<close>

record rule_fetchers =
  ft_binance :: "string \<Rightarrow> exn + market_rules"
  ft_gate :: "string \<Rightarrow> exn + market_rules"
  ft_coinbase :: "string \<Rightarrow> exn + market_rules"

definition failed_rules :: "string \<Rightarrow> string \<Rightarrow> string \<Rightarrow> string \<Rightarrow> market_rules" where
  "failed_rules venue symbol native err =
     \<lparr>mr_venue = venue, mr_canonical_symbol = symbol, mr_native_symbol = native, mr_active = False, mr_min_notional = None,
      mr_min_qty = None, mr_qty_step = None, mr_price_tick = None, mr_error = Some err\<rparr>"

definition native_symbol :: "string \<Rightarrow> string \<Rightarrow> string" where
  "native_symbol v cs =
     (if v = ''binance'' then binance_native cs
      else if v = ''gate'' then gate_native cs
      else if v = ''coinbase'' \<or> v = ''coinbase_adv'' then coinbase_native cs else cs)"

definition fetch_and_cache :: "rule_fetchers \<Rightarrow> pyfloat \<Rightarrow> string \<Rightarrow> string \<Rightarrow> rules_cache \<Rightarrow> market_rules \<times> rules_cache" where
  "fetch_and_cache ft now venue symbol c =
     (let v = strip (lower venue); cs = canonicalize symbol; native = native_symbol v cs;
          answer = (if v = ''binance'' then ft_binance ft cs
                    else if v = ''gate'' then ft_gate ft cs
                    else if v = ''coinbase'' \<or> v = ''coinbase_adv'' then ft_coinbase ft cs
                    else Inr (failed_rules v cs native ''UNSUPPORTED_VENUE''));
          r = (case answer of Inl e \<Rightarrow> failed_rules v cs native ''FETCH_FAILED'' | Inr r \<Rightarrow> r)
      in (r, cache_upsert now r c))"

text \<open>The clock is read once for the freshness and once for the write.\<close>

definition get_rules ::
    "rule_fetchers \<Rightarrow> pyfloat \<Rightarrow> pyfloat \<Rightarrow> string \<Rightarrow> string \<Rightarrow> pyfloat \<Rightarrow> bool \<Rightarrow> rules_cache \<Rightarrow> market_rules option \<times> rules_cache" where
  "get_rules ft now now' venue symbol ttl refresh c =
     (let v = strip (lower venue); cs = canonicalize symbol
      in if is_fresh now v cs ttl c then (cache_get v cs c, c)
         else if refresh then (let (r, c') = fetch_and_cache ft now' v cs c in (Some r, c'))
         else (cache_get v cs c, c))"

section \<open>Checking an order\<close>

datatype rules_code =
    RULES_OK
  | MARKET_RULES_MISSING
  | MARKET_INACTIVE
  | INVALID_NOTIONAL
  | INVALID_QTY
  | INVALID_MARKET_RULES string
  | MIN_NOTIONAL
  | MIN_QTY
  | QTY_STEP

definition check_min_notional :: "market_rules \<Rightarrow> num_arg option \<Rightarrow> rules_code option" where
  "check_min_notional r notional =
     (case (notional, mr_min_notional r) of
        (Some n, Some m) \<Rightarrow>
          (case decimal_value ''notional'' n of
             Inl _ \<Rightarrow> Some INVALID_NOTIONAL
           | Inr nd \<Rightarrow>
          (case decimal_value ''min_notional'' m of
             Inl _ \<Rightarrow> Some (INVALID_MARKET_RULES ''min_notional'')
           | Inr md \<Rightarrow> if nd < md then Some MIN_NOTIONAL else None))
      | _ \<Rightarrow> None)"

definition check_min_qty :: "market_rules \<Rightarrow> rat \<Rightarrow> rules_code option" where
  "check_min_qty r qty =
     (case mr_min_qty r of
        None \<Rightarrow> None
      | Some m \<Rightarrow> (case decimal_value ''min_qty'' m of
          Inl _ \<Rightarrow> Some (INVALID_MARKET_RULES ''min_qty'')
        | Inr md \<Rightarrow> if qty < md then Some MIN_QTY else None))"

text \<open>Only \<open>ValueError\<close> is caught around the step test.\<close>

definition check_qty_step :: "market_rules \<Rightarrow> rat \<Rightarrow> exn + rules_code option" where
  "check_qty_step r qty =
     (case mr_qty_step r of
        None \<Rightarrow> Inr None
      | Some s \<Rightarrow> (case decimal_step_ok (NumFin qty) s of
          Inl (ValueError _) \<Rightarrow> Inr (Some (INVALID_MARKET_RULES ''qty_step''))
        | Inl e \<Rightarrow> Inl e
        | Inr ok \<Rightarrow> Inr (if ok then None else Some QTY_STEP)))"

definition check_qty :: "market_rules \<Rightarrow> num_arg option \<Rightarrow> exn + rules_code option" where
  "check_qty r qty =
     (case qty of
        None \<Rightarrow> Inr None
      | Some q \<Rightarrow> (case decimal_value ''qty'' q of
          Inl _ \<Rightarrow> Inr (Some INVALID_QTY)
        | Inr qd \<Rightarrow> (case check_min_qty r qd of Some c \<Rightarrow> Inr (Some c) | None \<Rightarrow> check_qty_step r qd)))"

definition rules_allow :: "market_rules \<Rightarrow> num_arg option \<Rightarrow> num_arg option \<Rightarrow> exn + rules_code" where
  "rules_allow r qty notional =
     (if \<not> mr_active r then Inr MARKET_INACTIVE
      else (case check_min_notional r notional of
              Some c \<Rightarrow> Inr c
            | None \<Rightarrow> (case check_qty r qty of
                Inl e \<Rightarrow> Inl e | Inr (Some c) \<Rightarrow> Inr c | Inr None \<Rightarrow> Inr RULES_OK)))"

definition validate ::
    "rule_fetchers \<Rightarrow> pyfloat \<Rightarrow> pyfloat \<Rightarrow> string \<Rightarrow> string \<Rightarrow> num_arg option \<Rightarrow> num_arg option \<Rightarrow> pyfloat \<Rightarrow> rules_cache \<Rightarrow>
     (exn + rules_code) \<times> rules_cache" where
  "validate ft now now' venue symbol qty notional ttl c =
     (let v = strip (lower venue); cs = canonicalize symbol; (r, c') = get_rules ft now now' v cs ttl True c
      in (case r of None \<Rightarrow> Inr MARKET_RULES_MISSING | Some r \<Rightarrow> rules_allow r qty notional, c'))"

section \<open>Properties\<close>

lemma check_min_notional_none:
  "check_min_notional r (Some (NumFin n)) = None \<longleftrightarrow> (\<forall>m. mr_min_notional r = Some m \<longrightarrow> (\<exists>d. m = NumFin d \<and> d \<le> n))"
  by (auto simp: check_min_notional_def decimal_value_def split: option.splits num_arg.splits)

lemma check_min_qty_none: "check_min_qty r q = None \<longleftrightarrow> (\<forall>m. mr_min_qty r = Some m \<longrightarrow> (\<exists>d. m = NumFin d \<and> d \<le> q))"
  by (auto simp: check_min_qty_def decimal_value_def split: option.splits num_arg.splits)

lemma check_qty_step_none:
  assumes "check_qty_step r q = Inr None" "mr_qty_step r = Some (NumFin s)" "0 < s"
  shows "\<exists>k::int. q = of_int k * s"
proof -
  have "decimal_step_ok (NumFin q) (NumFin s) = Inr True"
    using assms(1,2) by (auto simp: check_qty_step_def split: sum.splits exn.splits if_splits)
  from decimal_step_ok_iff[OF assms(3) this] show ?thesis by simp
qed

text \<open>C34. An order that passes the market rules respects them: the market is active, the notional reaches the minimum, the
  quantity reaches the minimum and is a whole number of steps.\<close>

theorem validated_order_respects_rules:
  assumes v: "validate ft now now' venue symbol (Some (NumFin q)) (Some (NumFin n)) ttl c = (Inr RULES_OK, c')"
  shows "\<exists>r. mr_active r \<and> (\<forall>d. mr_min_notional r = Some d \<longrightarrow> (\<exists>m. d = NumFin m \<and> m \<le> n)) \<and>
    (\<forall>d. mr_min_qty r = Some d \<longrightarrow> (\<exists>m. d = NumFin m \<and> m \<le> q)) \<and>
    (\<forall>s. mr_qty_step r = Some (NumFin s) \<and> 0 < s \<longrightarrow> (\<exists>k::int. q = of_int k * s)) \<and>
    fst (get_rules ft now now' (strip (lower venue)) (canonicalize symbol) ttl True c) = Some r"
proof -
  obtain r where r: "fst (get_rules ft now now' (strip (lower venue)) (canonicalize symbol) ttl True c) = Some r"
    and ok: "rules_allow r (Some (NumFin q)) (Some (NumFin n)) = Inr RULES_OK"
    using v by (auto simp: validate_def Let_def split: prod.splits option.splits)
  have a: "mr_active r" and mn: "check_min_notional r (Some (NumFin n)) = None" and cq: "check_qty r (Some (NumFin q)) = Inr None"
    using ok by (auto simp: rules_allow_def check_min_notional_def check_qty_def check_min_qty_def check_qty_step_def decimal_value_def
        split: if_splits option.splits sum.splits exn.splits)
  have mq: "check_min_qty r q = None" and st: "check_qty_step r q = Inr None"
    using cq by (auto simp: check_qty_def decimal_value_def split: option.splits)
  show ?thesis
    using r a mn[unfolded check_min_notional_none] mq[unfolded check_min_qty_none] check_qty_step_none[OF st] by blast
qed

text \<open>The canonical form has no double dash, and canonicalising it again changes nothing.\<close>

lemma collapse_no_dd: "\<not> has_dd (collapse_dashes s)"
  by (induction s rule: collapse_dashes.induct) (simp add: collapse_dashes.simps)

lemma collapse_id: "\<not> has_dd s \<Longrightarrow> collapse_dashes s = s"
  by (subst collapse_dashes.simps) simp

lemma replace_dd_set: "set (replace_dd s) \<subseteq> set s"
  by (induction s rule: replace_dd.induct) auto

lemma collapse_set: "set (collapse_dashes s) \<subseteq> set s"
proof (induction s rule: collapse_dashes.induct)
  case (1 s)
  then show ?case using replace_dd_set[of s] by (subst collapse_dashes.simps) auto
qed

lemma cache_upsert_get:
  "select_key rules_key (mr_venue r, mr_canonical_symbol r) (cache_upsert now r c) =
     Some (case select_key rules_key (mr_venue r, mr_canonical_symbol r) c of
             None \<Rightarrow> \<lparr>mc_venue = mr_venue r, mc_symbol = mr_canonical_symbol r, mc_updated_ts = now, mc_rules = r\<rparr>
           | Some x \<Rightarrow> x\<lparr>mc_updated_ts := now, mc_rules := r\<rparr>)"
proof (cases "select_key rules_key (mr_venue r, mr_canonical_symbol r) c")
  case None
  then show ?thesis by (simp add: cache_upsert_def Let_def select_key_append select_key_Cons rules_key_def)
next
  case (Some x)
  then show ?thesis
    using select_key_Some_mem[OF Some]
    by (auto simp: cache_upsert_def Let_def rules_key_def select_key_upd_where)
qed

text \<open>A symbol and a venue that the lookup leaves as they are.\<close>

definition lookup_normal :: "string \<Rightarrow> string \<Rightarrow> bool" where
  "lookup_normal v cs \<longleftrightarrow> strip (lower v) = v \<and> canonicalize cs = cs \<and> strip (upper cs) = cs"

text \<open>A failed fetch closes the market for the whole cache lifetime. The rules that a failed request leaves in the cache are inactive and count as
  fresh: until the lifetime is over every check of that market answers \<open>MARKET_INACTIVE\<close> without asking the exchange again, whatever the
  exchange would answer by then.\<close>

theorem failed_fetch_closes_market:
  assumes n: "lookup_normal venue symbol" and v: "venue \<in> {''binance'', ''gate'', ''coinbase'', ''coinbase_adv''}"
    and failed: "ft_binance ft symbol = Inl e" "ft_gate ft symbol = Inl e" "ft_coinbase ft symbol = Inl e"
    and stale: "\<not> is_fresh t0 venue symbol ttl c"
    and first: "validate ft t0 t1 venue symbol qty notional ttl c = (answer, c')"
    and later: "fle (fsub t2 t1) ttl"
  shows "answer = Inr MARKET_INACTIVE \<and> validate ft' t2 t3 venue symbol qty' notional' ttl c' = (Inr MARKET_INACTIVE, c')"
proof -
  have s: "strip (lower venue) = venue" "canonicalize symbol = symbol" "strip (upper symbol) = symbol"
    using n by (simp_all add: lookup_normal_def)
  let ?r = "failed_rules venue symbol (native_symbol venue symbol) ''FETCH_FAILED''"
  have f: "fetch_and_cache ft t1 venue symbol c = (?r, cache_upsert t1 ?r c)"
    using v failed by (auto simp: fetch_and_cache_def s Let_def)
  have one: "answer = Inr MARKET_INACTIVE" "c' = cache_upsert t1 ?r c"
    using first stale by (auto simp: validate_def get_rules_def s Let_def f rules_allow_def failed_rules_def)
  have k: "lookup_key venue symbol = (mr_venue ?r, mr_canonical_symbol ?r)" by (simp add: lookup_key_def s failed_rules_def)
  have g: "\<exists>x. select_key rules_key (lookup_key venue symbol) c' = Some x \<and> mc_updated_ts x = t1 \<and> mc_rules x = ?r"
    unfolding k one(2) cache_upsert_get by (simp split: option.split)
  then have "is_fresh t2 venue symbol ttl c'" "cache_get venue symbol c' = Some ?r"
    using later by (auto simp: is_fresh_def cache_get_def)
  then show ?thesis
    using one(1) by (simp add: validate_def get_rules_def s Let_def rules_allow_def failed_rules_def)
qed

section \<open>Witnesses\<close>

definition sample_rules :: market_rules where
  "sample_rules = \<lparr>mr_venue = ''gate'', mr_canonical_symbol = ''BTC-USDT'', mr_native_symbol = ''BTC_USDT'', mr_active = True,
     mr_min_notional = Some (NumFin 5), mr_min_qty = Some (NumFin 1), mr_qty_step = Some (NumFin 1), mr_price_tick = None, mr_error = None\<rparr>"

definition sample_fetchers :: "exn + market_rules \<Rightarrow> rule_fetchers" where
  "sample_fetchers a = \<lparr>ft_binance = (\<lambda>s. a), ft_gate = (\<lambda>s. a), ft_coinbase = (\<lambda>s. a)\<rparr>"

lemma sample_lookup: "lookup_normal ''gate'' ''BTC-USDT''"
proof -
  have "strip (lower ''gate'') = ''gate''" "strip ''BTC-USDT'' = ''BTC-USDT''" "upper ''BTC-USDT'' = ''BTC-USDT''" by code_simp+
  moreover have "\<not> has_dd ''BTC-USDT''" by (simp add: dash_def)
  ultimately show ?thesis
    by (simp add: lookup_normal_def canonicalize_def collapse_id underscore_def slash_def)
qed

theorem validated_order_respects_rules_witness:
  "\<exists>c' r. validate (sample_fetchers (Inr sample_rules)) (Fin 0) (Fin 0) ''gate'' ''BTC-USDT'' (Some (NumFin 2)) (Some (NumFin 9)) (Fin 60) [] =
      (Inr RULES_OK, c') \<and> mr_active (r :: market_rules)"
proof -
  have s: "strip (lower ''gate'') = ''gate''" "canonicalize ''BTC-USDT'' = ''BTC-USDT''" using sample_lookup by (simp_all add: lookup_normal_def)
  have d: "decimal_step_ok (NumFin 2) (NumFin 1) = Inr True" by code_simp
  obtain c' where c': "validate (sample_fetchers (Inr sample_rules)) (Fin 0) (Fin 0) ''gate'' ''BTC-USDT'' (Some (NumFin 2)) (Some (NumFin 9)) (Fin 60) [] =
      (Inr RULES_OK, c')"
    by (simp add: validate_def get_rules_def s Let_def is_fresh_def select_key_def fetch_and_cache_def sample_fetchers_def rules_allow_def
        check_min_notional_def check_qty_def check_min_qty_def check_qty_step_def sample_rules_def decimal_value_def d)
  then show ?thesis using validated_order_respects_rules[OF c'] by auto
qed

theorem failed_fetch_closes_market_witness:
  "\<exists>c'. snd (validate (sample_fetchers (Inl (RuntimeError ''timeout''))) (Fin 0) (Fin 0) ''gate'' ''BTC-USDT'' None None (Fin 60) []) = c' \<and>
     validate (sample_fetchers (Inr sample_rules)) (Fin 1) (Fin 1) ''gate'' ''BTC-USDT'' None None (Fin 60) c' = (Inr MARKET_INACTIVE, c')"
proof -
  let ?ft = "sample_fetchers (Inl (RuntimeError ''timeout''))"
  obtain a c' where v: "validate ?ft (Fin 0) (Fin 0) ''gate'' ''BTC-USDT'' None None (Fin 60) [] = (a, c')" by fastforce
  have "fle (fsub (Fin 1) (Fin 0)) (Fin 60)" using mk_float_of_int[of 1] by (simp add: fsub_def)
  from failed_fetch_closes_market[OF sample_lookup _ _ _ _ _ v this, of "RuntimeError ''timeout''" "sample_fetchers (Inr sample_rules)" "Fin 1" None None]
  show ?thesis using v by (simp add: sample_fetchers_def is_fresh_def select_key_def)
qed

end
