(* ===== verification/Place_Order.thy ===== *)
theory Place_Order
  imports System_Health Market_Rules Live_Risk_Gates
begin

text \<open>
  services/execution/place\_order.py: the one place that calls \<open>create_order\<close>, and the gates in front of it, with what they
  call: the kill switch (services/risk/killswitch.py, services/admin/kill\_switch.py), the gate signal of the ops system
  (services/ops/risk\_gate\_contract.py), the Coinbase portfolio guard (services/execution/coinbase\_portfolio\_guard.py) and the Binance
  guard (services/security/binance\_guard.py). Health, daily risk totals and market rules are the models of their own theories.

  \<open>order_env\<close> is the outside: environment variables, clocks, flag files, the exchange's answers and the errors of
  imports and databases. A refusal is a value of \<open>block_reason\<close>, any other exception is \<open>Raised\<close>. Calls are not atomic: \<open>place_checked\<close> is what follows the checks,
  and the runs of a day interleave other calls in between. Logging and the semaphore around \<open>create_order\<close> are not modelled; \<open>place_order_async\<close> has the same body.
\<close>

section \<open>Refusals\<close>

datatype block_reason =
    RiskDailyUpdateFailed
  | RiskSinkFlagUnreadable exn
  | SystemHealthCheckFailed exn
  | SystemHealth health
  | InvalidAmount
  | AmountNonFinite
  | AmountNonPositive
  | MissingLimitPrice
  | InvalidPrice
  | PriceNonFinite
  | PriceNonPositive
  | KillSwitchOn
  | NotArmed
  | OpsRiskGateMissing
  | OpsRiskGateInvalid
  | OpsRiskGate string
  | MissingLimitEnv string
  | InvalidLimitEnv string
  | MarketOrdersDisabled
  | PrecisionNormalizationFailed
  | InvalidNotional
  | OrderNotionalExceedsLimit
  | MissingRiskDailySnapshot
  | RiskDailyCorrupt
  | MaxTradesPerDay
  | MaxDailyLoss
  | MaxDailyNotional
  | MarketRulesPrereqFailed
  | MarketRulesInvalid
  | PortfolioUuidUnavailable
  | PortfolioAccountUnavailable string
  | UnsupportedSymbolFormat
  | FundingUnknownMarketBuy
  | FundingProbeFailed exn
  | InsufficientSpendableBalance

datatype order_error = Blocked block_reason | Raised exn

type_synonym 'a guarded = "order_error + 'a"

definition obind :: "'a guarded \<Rightarrow> ('a \<Rightarrow> 'b guarded) \<Rightarrow> 'b guarded" where
  "obind m f = (case m of Inl e \<Rightarrow> Inl e | Inr x \<Rightarrow> f x)"

definition raised :: "exn + 'a \<Rightarrow> 'a guarded" where
  "raised m = (case m of Inl e \<Rightarrow> Inl (Raised e) | Inr x \<Rightarrow> Inr x)"

definition guard :: "bool \<Rightarrow> block_reason \<Rightarrow> unit guarded" where
  "guard ok why = (if ok then Inr () else Inl (Blocked why))"

section \<open>Texts and numbers\<close>

definition env_truthy :: "string option \<Rightarrow> bool" where
  "env_truthy v =
     (case v of None \<Rightarrow> False
      | Some s \<Rightarrow> lower (strip s) \<in> {''1'', ''true'', ''yes'', ''y'', ''on''})"

definition boolish :: "json \<Rightarrow> bool" where
  "boolish v =
     (case v of JBool b \<Rightarrow> b | JNull \<Rightarrow> False
      | _ \<Rightarrow> lower (strip (json_str v)) \<in> {''1'', ''true'', ''yes'', ''y'', ''on''})"

definition is_reduce_only :: "dict \<Rightarrow> bool" where
  "is_reduce_only params \<longleftrightarrow> boolish (jget ''reduceOnly'' params) \<or> boolish (jget ''reduce_only'' params)"

definition float_or_none :: "json \<Rightarrow> pyfloat option" where
  "float_or_none v = (case json_float v of Inl _ \<Rightarrow> None | Inr x \<Rightarrow> if isfinite x then Some x else None)"

definition parse_order_amount :: "json \<Rightarrow> pyfloat guarded" where
  "parse_order_amount amount =
     (case json_float amount of
        Inl _ \<Rightarrow> Inl (Blocked InvalidAmount)
      | Inr x \<Rightarrow> if \<not> isfinite x then Inl (Blocked AmountNonFinite)
                 else if fle x (Fin 0) then Inl (Blocked AmountNonPositive) else Inr x)"

definition parse_order_price :: "json \<Rightarrow> string \<Rightarrow> pyfloat option guarded" where
  "parse_order_price price order_type =
     (if price = JNull
      then (if lower (strip order_type) = ''limit'' then Inl (Blocked MissingLimitPrice) else Inr None)
      else (case json_float price of
              Inl _ \<Rightarrow> Inl (Blocked InvalidPrice)
            | Inr x \<Rightarrow> if \<not> isfinite x then Inl (Blocked PriceNonFinite)
                       else if fle x (Fin 0) then Inl (Blocked PriceNonPositive) else Inr (Some x)))"

definition price_json :: "pyfloat option \<Rightarrow> json" where
  "price_json v = (case v of None \<Rightarrow> JNull | Some x \<Rightarrow> JFloat x)"

definition estimate_order_notional :: "pyfloat \<Rightarrow> pyfloat \<Rightarrow> rat guarded" where
  "estimate_order_notional amount price =
     (case decimal_product (num_of_float amount) (num_of_float price) of
        Inl (ValueError _) \<Rightarrow> Inl (Blocked InvalidNotional) | Inl e \<Rightarrow> Inl (Raised e) | Inr d \<Rightarrow> Inr d)"

definition decimal_order_value :: "pyfloat \<Rightarrow> rat guarded" where
  "decimal_order_value v =
     (case decimal_value ''value'' (num_of_float v) of
        Inl (ValueError _) \<Rightarrow> Inl (Blocked InvalidNotional) | Inl e \<Rightarrow> Inl (Raised e) | Inr d \<Rightarrow> Inr d)"

definition normalize_loss_limit :: "pyfloat \<Rightarrow> pyfloat" where
  "normalize_loss_limit x = fneg (fabs x)"

text \<open>The positional and keyword arguments of \<open>ccxt.create_order\<close>.\<close>

record order_args =
  oa_symbol :: string
  oa_type :: string
  oa_side :: string
  oa_amount :: json
  oa_price :: json
  oa_params :: dict

definition extract_create_order_args :: "json list \<Rightarrow> dict \<Rightarrow> order_args" where
  "extract_create_order_args args kwargs =
     (let arg = (\<lambda>n k. if n < length args then json_str (args ! n) else json_str (jor (jget k kwargs) (JStr '''')))
      in \<lparr>oa_symbol = arg 0 ''symbol'', oa_type = arg 1 ''type'', oa_side = arg 2 ''side'',
          oa_amount = (if 3 < length args then args ! 3 else jget ''amount'' kwargs),
          oa_price = (if 4 < length args then args ! 4 else jget ''price'' kwargs),
          oa_params = (case (if 5 < length args then args ! 5 else jget ''params'' kwargs) of JObj d \<Rightarrow> d | _ \<Rightarrow> [])\<rparr>)"

section \<open>Kill switch\<close>

text \<open>What the probes of the kill-switch module answer; a probe may be missing.\<close>

record ks_probe =
  kp_is_on :: "(exn + bool) option"
  kp_snapshot :: "(exn + json) option"

text \<open>services/admin/kill\_switch.py \<open>get_state\<close>: the file may be missing or unreadable.\<close>

definition admin_kill_state :: "(exn + json) option \<Rightarrow> json" where
  "admin_kill_state file =
     (case file of
        None \<Rightarrow> JObj [(''armed'', JBool True)]
      | Some (Inl _) \<Rightarrow> JObj [(''armed'', JBool True)]
      | Some (Inr v) \<Rightarrow> v)"

text \<open>services/risk/killswitch.py\<close>

definition admin_armed :: "json \<Rightarrow> bool" where
  "admin_armed state =
     (case state of
        JObj d \<Rightarrow> (case map_of d ''armed'' of None \<Rightarrow> True | Some v \<Rightarrow> jtruthy v) | _ \<Rightarrow> True)"

definition killswitch_is_on :: "(exn + json) option \<Rightarrow> exn + gate_db \<Rightarrow> bool" where
  "killswitch_is_on file db =
     (if admin_armed (admin_kill_state file) then True
      else (case db of Inl _ \<Rightarrow> False | Inr g \<Rightarrow> killswitch_on g))"

definition killswitch_snapshot :: "(exn + json) option \<Rightarrow> exn + gate_db \<Rightarrow> json" where
  "killswitch_snapshot file db = JObj [(''kill_switch'', JBool (killswitch_is_on file db)), (''cooldown_until'', JFloat (Fin 0))]"

definition killswitch_module :: "(exn + json) option \<Rightarrow> exn + gate_db \<Rightarrow> ks_probe" where
  "killswitch_module file db =
     \<lparr>kp_is_on = Some (Inr (killswitch_is_on file db)), kp_snapshot = Some (Inr (killswitch_snapshot file db))\<rparr>"

definition killswitch_fail_closed :: "string option \<Rightarrow> bool" where
  "killswitch_fail_closed raw =
     (case raw of None \<Rightarrow> True | Some s \<Rightarrow> if strip s = '''' then True else env_truthy raw)"

text \<open>\<open>Some\<close> answer of a probe, or \<open>None\<close> to go on.\<close>

definition probe_is_on :: "bool \<Rightarrow> (exn + bool) option \<Rightarrow> bool option" where
  "probe_is_on fail_closed p =
     (case p of None \<Rightarrow> None | Some (Inl _) \<Rightarrow> Some fail_closed | Some (Inr b) \<Rightarrow> if b then Some True else None)"

definition probe_snapshot :: "pyfloat \<Rightarrow> bool \<Rightarrow> (exn + json) option \<Rightarrow> bool option" where
  "probe_snapshot time fail_closed p =
     (case p of
        None \<Rightarrow> None
      | Some (Inl _) \<Rightarrow> Some fail_closed
      | Some (Inr (JObj d)) \<Rightarrow>
          (if jtruthy (jget ''kill_switch'' d) then Some True
           else (case float_or_none (jor (jget ''cooldown_until'' d) (JFloat (Fin 0))) of
                   None \<Rightarrow> Some fail_closed
                 | Some until \<Rightarrow> if flt time until then Some True else None))
      | Some (Inr _) \<Rightarrow> Some fail_closed)"

definition killswitch_state :: "(string \<Rightarrow> string option) \<Rightarrow> pyfloat \<Rightarrow> exn + ks_probe \<Rightarrow> bool" where
  "killswitch_state env time ks =
     (if env_truthy (env ''CBP_KILL_SWITCH'') then True
      else (let fail_closed = killswitch_fail_closed (env ''CBP_KILLSWITCH_FAIL_CLOSED'')
            in case ks of
                 Inl _ \<Rightarrow> fail_closed
               | Inr m \<Rightarrow>
                   (case probe_is_on fail_closed (kp_is_on m) of
                      Some b \<Rightarrow> b
                    | None \<Rightarrow> (case probe_snapshot time fail_closed (kp_snapshot m) of
                        Some b \<Rightarrow> b
                      | None \<Rightarrow> if kp_is_on m = None \<and> kp_snapshot m = None then fail_closed else False))))"

definition is_armed :: "(string \<Rightarrow> string option) \<Rightarrow> bool" where
  "is_armed env \<longleftrightarrow> env_truthy (env ''CBP_EXECUTION_ARMED'') \<or> env_truthy (env ''CBP_LIVE_ENABLED'') \<or>
     env_truthy (env ''CBP_EXECUTION_LIVE_ENABLED'')"

section \<open>The gate of the ops system\<close>

datatype gate_state = ALLOW_TRADING | ALLOW_ONLY_REDUCTIONS | HALT_NEW_POSITIONS | FULL_STOP

definition gate_state_of :: "string \<Rightarrow> gate_state option" where
  "gate_state_of s =
     map_of [(''ALLOW_TRADING'', ALLOW_TRADING), (''ALLOW_ONLY_REDUCTIONS'', ALLOW_ONLY_REDUCTIONS),
             (''HALT_NEW_POSITIONS'', HALT_NEW_POSITIONS), (''FULL_STOP'', FULL_STOP)] s"

definition stress_ok :: "dict \<Rightarrow> bool" where
  "stress_ok p =
     (case decimal_value ''system_stress'' (case map_of p ''system_stress'' of None \<Rightarrow> NumFin 0 | Some v \<Rightarrow> json_num v) of
        Inl _ \<Rightarrow> False
      | Inr d \<Rightarrow> isfinite (mk_float d) \<and> \<not> flt (mk_float d) (Fin 0) \<and> \<not> flt (Fin 1) (mk_float d))"

text \<open>\<open>[str(v) for v in x]\<close> works on lists, texts and dictionaries.\<close>

definition iterable :: "json \<Rightarrow> bool" where
  "iterable v = (case v of JList _ \<Rightarrow> True | JStr _ \<Rightarrow> True | JObj _ \<Rightarrow> True | _ \<Rightarrow> False)"

definition gate_from_dict :: "dict \<Rightarrow> gate_state option" where
  "gate_from_dict p =
     (if \<not> stress_ok p then None
      else (case gate_state_of (json_str (jor (jget ''gate_state'' p) (JStr ''ALLOW_TRADING''))) of
              None \<Rightarrow> None
            | Some g \<Rightarrow> if iterable (jor (jget ''hazards'' p) (JList [])) \<and> iterable (jor (jget ''reasons'' p) (JList []))
                        then Some g else None))"

definition evaluate_gate_for_order :: "gate_state \<Rightarrow> bool \<Rightarrow> bool \<times> string" where
  "evaluate_gate_for_order g reduce_only =
     (if g = FULL_STOP then (False, ''full_stop'')
      else if (g = ALLOW_ONLY_REDUCTIONS \<or> g = HALT_NEW_POSITIONS) \<and> \<not> reduce_only then (False, ''reductions_only'')
      else (True, ''ok''))"

definition enforce_ops_risk_gate :: "(string \<Rightarrow> string option) \<Rightarrow> dict option \<Rightarrow> dict \<Rightarrow> unit guarded" where
  "enforce_ops_risk_gate env payload params =
     (if \<not> env_truthy (env ''CBP_OPS_RISK_GATE_ENFORCE'') then Inr ()
      else (let fail_closed = env_truthy (env ''CBP_OPS_RISK_GATE_FAIL_CLOSED'')
            in if payload = None \<or> payload = Some [] then guard (\<not> fail_closed) OpsRiskGateMissing
               else (case gate_from_dict (the payload) of
                       None \<Rightarrow> guard (\<not> fail_closed) OpsRiskGateInvalid
                     | Some g \<Rightarrow> (case evaluate_gate_for_order g (is_reduce_only params) of
                         (allow, why) \<Rightarrow> guard allow (OpsRiskGate why)))))"

section \<open>Balances and funding\<close>

text \<open>\<open>x.get(k)\<close> of a value that may not be a dictionary.\<close>

definition attr_get :: "string \<Rightarrow> json \<Rightarrow> exn + json" where
  "attr_get k v = (case v of JObj d \<Rightarrow> Inr (jget k d) | _ \<Rightarrow> Inl (AttributeError ''get''))"

definition get_or :: "string \<Rightarrow> json \<Rightarrow> exn + json" where
  "get_or k v = attr_get k (jor v (JObj []))"

text \<open>The exchange object and its answers; \<open>ox_balance\<close> is read once by the portfolio guard and once by the funding gate.\<close>

record order_exchange =
  ox_id :: string
  ox_exchange_id :: string
  ox_amount_to_precision :: "(string \<Rightarrow> pyfloat \<Rightarrow> exn + pyfloat) option"
  ox_price_to_precision :: "(string \<Rightarrow> pyfloat \<Rightarrow> exn + pyfloat) option"
  ox_key_permissions :: "nat \<Rightarrow> exn + json"
  ox_balance :: "nat \<Rightarrow> exn + json"
  ox_create_order :: "string \<Rightarrow> string \<Rightarrow> string \<Rightarrow> pyfloat \<Rightarrow> pyfloat option \<Rightarrow> dict \<Rightarrow> exn + json"

definition exchange_name :: "order_exchange \<Rightarrow> string" where
  "exchange_name ex = str_or (ox_id ex) (ox_exchange_id ex)"

definition coinbase_portfolio_uuid :: "exn + json \<Rightarrow> string option" where
  "coinbase_portfolio_uuid resp =
     (case resp of
        Inr (JObj d) \<Rightarrow> (let out = strip (json_str (jor (jget ''portfolio_uuid'' d) (JStr ''''))) in if out = '''' then None else Some out)
      | _ \<Rightarrow> None)"

definition coinbase_row_currency_code :: "dict \<Rightarrow> string" where
  "coinbase_row_currency_code row =
     (case jget ''currency'' row of
        JObj cur \<Rightarrow> upper (json_str (jor (jget ''code'' cur) (JStr '''')))
      | cur \<Rightarrow> upper (json_str (jor cur (JStr ''''))))"

fun first_number :: "json list \<Rightarrow> pyfloat option" where
  "first_number [] = None"
| "first_number (v # vs) = (case float_or_none v of Some x \<Rightarrow> Some x | None \<Rightarrow> first_number vs)"

text \<open>All six candidates are evaluated before the first is tried.\<close>

definition coinbase_row_amount :: "dict \<Rightarrow> exn + pyfloat option" where
  "coinbase_row_amount row =
     (let av = jget ''available_balance'' row; bal = jget ''balance'' row
      in case get_or ''value'' av of Inl e \<Rightarrow> Inl e | Inr a1 \<Rightarrow>
        (case get_or ''amount'' av of Inl e \<Rightarrow> Inl e | Inr a2 \<Rightarrow>
        (case get_or ''amount'' bal of Inl e \<Rightarrow> Inl e | Inr b1 \<Rightarrow>
        (case get_or ''value'' bal of Inl e \<Rightarrow> Inl e | Inr b2 \<Rightarrow>
           Inr (first_number [a1, a2, av, b1, b2, bal])))))"

definition coinbase_row_trade_spendable :: "dict \<Rightarrow> bool" where
  "coinbase_row_trade_spendable row \<longleftrightarrow>
     take 7 (lower (strip (json_str (jor (jget ''name'' row) (JStr ''''))))) \<noteq> ''staked '' \<and>
     jget ''allow_withdrawals'' row \<noteq> JBool False \<and>
     \<not> (case jget ''currency'' row of JObj cur \<Rightarrow> jtruthy (jget ''rewards'' cur) | _ \<Rightarrow> False)"

definition coinbase_row_matches :: "string \<Rightarrow> string option \<Rightarrow> dict \<Rightarrow> bool" where
  "coinbase_row_matches asset uuid row \<longleftrightarrow>
     (let pid = strip (json_str (jor (jor (jget ''portfolio_id'' row) (jget ''portfolio_uuid'' row)) (JStr '''')))
      in (uuid = None \<or> pid = '''' \<or> Some pid = uuid) \<and> coinbase_row_currency_code row = upper asset)"

fun spendable_amounts :: "dict list \<Rightarrow> exn + pyfloat list" where
  "spendable_amounts [] = Inr []"
| "spendable_amounts (row # rows) =
     (if \<not> coinbase_row_trade_spendable row then spendable_amounts rows
      else case coinbase_row_amount row of
             Inl e \<Rightarrow> Inl e
           | Inr amt \<Rightarrow> (case spendable_amounts rows of
               Inl e \<Rightarrow> Inl e | Inr xs \<Rightarrow> Inr (case amt of None \<Rightarrow> xs | Some x \<Rightarrow> x # xs)))"

definition dict_rows :: "json list \<Rightarrow> dict list" where
  "dict_rows vs = concat (map (\<lambda>v. case v of JObj d \<Rightarrow> [d] | _ \<Rightarrow> []) vs)"

definition coinbase_spendable_from_info_rows :: "json \<Rightarrow> string \<Rightarrow> string option \<Rightarrow> exn + pyfloat option" where
  "coinbase_spendable_from_info_rows balance asset uuid =
     (case get_or ''info'' balance of Inl e \<Rightarrow> Inl e | Inr info \<Rightarrow>
     (case get_or ''data'' info of Inl e \<Rightarrow> Inl e | Inr data \<Rightarrow>
        (case jor data (JList []) of
           JList vs \<Rightarrow>
             (let matched = filter (coinbase_row_matches asset uuid) (dict_rows vs)
              in case spendable_amounts matched of
                   Inl e \<Rightarrow> Inl e
                 | Inr xs \<Rightarrow> if matched = [] then Inr None
                             else Inr (Some (if xs = [] then Fin 0 else foldl fadd (Fin 0) xs)))
         | _ \<Rightarrow> Inr None)))"

definition balance_cell :: "string \<Rightarrow> string \<Rightarrow> json \<Rightarrow> exn + pyfloat option" where
  "balance_cell part asset balance =
     (case get_or part balance of Inl e \<Rightarrow> Inl e | Inr cells \<Rightarrow>
     (case get_or asset cells of Inl e \<Rightarrow> Inl e | Inr v \<Rightarrow> Inr (float_or_none v)))"

definition extract_spendable_balance :: "order_exchange \<Rightarrow> json \<Rightarrow> string \<Rightarrow> exn + pyfloat" where
  "extract_spendable_balance ex balance asset =
     (let asset_u = upper asset
      in case balance_cell ''free'' asset_u balance of
           Inl e \<Rightarrow> Inl e
         | Inr free \<Rightarrow>
             (case (if strip (lower (exchange_name ex)) = ''coinbase''
                    then coinbase_spendable_from_info_rows balance asset_u (coinbase_portfolio_uuid (ox_key_permissions ex 1))
                    else Inr None) of
                Inl e \<Rightarrow> Inl e
              | Inr (Some row) \<Rightarrow> Inr (case free of None \<Rightarrow> row | Some f \<Rightarrow> pymin f row)
              | Inr None \<Rightarrow>
                  (case free of
                     Some f \<Rightarrow> Inr f
                   | None \<Rightarrow> (case balance_cell ''total'' asset_u balance of
                       Inl e \<Rightarrow> Inl e | Inr None \<Rightarrow> Inr (Fin 0) | Inr (Some x) \<Rightarrow> Inr x))))"

definition funding_fee_buffer_decimal :: "string option \<Rightarrow> rat" where
  "funding_fee_buffer_decimal raw =
     (case raw of
        None \<Rightarrow> 1 / 200
      | Some s \<Rightarrow>
          if strip s = '''' then 1 / 200
          else (case decimal_value ''funding_fee_buffer_fraction'' (decimal_of_text s) of
                  Inl _ \<Rightarrow> 1 / 200 | Inr d \<Rightarrow> if d < 0 then 1 / 200 else d))"

definition estimate_funding_required :: "string option \<Rightarrow> pyfloat \<Rightarrow> pyfloat \<Rightarrow> rat guarded" where
  "estimate_funding_required buffer amount price =
     obind (estimate_order_notional amount price) (\<lambda>n. Inr (rnd28 (n * rnd28 (1 + funding_fee_buffer_decimal buffer))))"

definition split_symbol :: "string \<Rightarrow> (string \<times> string) option" where
  "split_symbol symbol =
     (if slash \<notin> set symbol then None
      else Some (upper (takeWhile (\<lambda>c. c \<noteq> slash) symbol), upper (tl (dropWhile (\<lambda>c. c \<noteq> slash) symbol))))"

definition funding_required :: "string option \<Rightarrow> bool \<Rightarrow> pyfloat \<Rightarrow> pyfloat option \<Rightarrow> rat guarded" where
  "funding_required buffer buy amount price =
     (if buy then (case price of None \<Rightarrow> Inl (Blocked FundingUnknownMarketBuy) | Some p \<Rightarrow> estimate_funding_required buffer amount p)
      else raised (decimal_value ''funding_required'' (num_of_float amount)))"

definition enforce_funding_gate ::
    "(string \<Rightarrow> string option) \<Rightarrow> order_exchange \<Rightarrow> string \<Rightarrow> string \<Rightarrow> string \<Rightarrow> pyfloat \<Rightarrow> pyfloat option \<Rightarrow> unit guarded" where
  "enforce_funding_gate env ex symbol side order_type amount price =
     obind (parse_order_amount (JFloat amount)) (\<lambda>amount_f.
     obind (parse_order_price (price_json price) order_type) (\<lambda>price_f.
       (case split_symbol symbol of
          None \<Rightarrow> Inl (Blocked UnsupportedSymbolFormat)
        | Some (base, quote) \<Rightarrow>
            (let buy = lower (strip side) = ''buy''; asset = (if buy then quote else base)
             in obind (funding_required (env ''CBP_FUNDING_FEE_BUFFER_FRACTION'') buy amount_f price_f) (\<lambda>required.
                  (case ox_balance ex 1 of
                     Inl e \<Rightarrow> Inl (Blocked (FundingProbeFailed e))
                   | Inr balance \<Rightarrow>
                       obind (raised (extract_spendable_balance ex balance asset)) (\<lambda>spendable.
                       obind (raised (decimal_value ''spendable'' (num_of_float spendable))) (\<lambda>have.
                         guard (required \<le> have) InsufficientSpendableBalance))))))))"

section \<open>Venue guards\<close>

definition starts_with :: "string \<Rightarrow> string \<Rightarrow> bool" where
  "starts_with p s \<longleftrightarrow> take (length p) s = p"

definition allow_binance :: "(string \<Rightarrow> string option) \<Rightarrow> bool" where
  "allow_binance env \<longleftrightarrow>
     starts_with ''binance'' (strip (lower (opt_str_or (env ''CBP_VENUE'') ''''))) \<and> strip (opt_str_or (env ''CBP_ALLOW_BINANCE'') '''') = ''1''"

definition require_binance_allowed :: "(string \<Rightarrow> string option) \<Rightarrow> string \<Rightarrow> unit guarded" where
  "require_binance_allowed env v =
     (if starts_with ''binance'' (strip (lower v)) \<and> \<not> allow_binance env then Inl (Raised (RuntimeError ''Refusing Binance'')) else Inr ())"

definition venue_norm_for_market_rules :: "(string \<Rightarrow> string option) \<Rightarrow> order_exchange \<Rightarrow> string guarded" where
  "venue_norm_for_market_rules env ex =
     (let v = (if ox_id ex = '''' then ''unknown'' else lower (strip (ox_id ex)))
      in if v \<in> {''gateio'', ''gate.io'', ''gate''} then Inr ''gate''
         else obind (require_binance_allowed env v) (\<lambda>_.
           Inr (if starts_with ''binance'' v then ''binance''
                else if v \<in> {''coinbase'', ''coinbasepro'', ''coinbase_adv''} then ''coinbase'' else v)))"

text \<open>The currencies of the accounts of a portfolio.\<close>

fun portfolio_currencies :: "json \<Rightarrow> json list \<Rightarrow> exn + string list" where
  "portfolio_currencies uuid [] = Inr []"
| "portfolio_currencies uuid (acct # accts) =
     (case attr_get ''portfolio_id'' acct of
        Inl e \<Rightarrow> Inl e
      | Inr pid \<Rightarrow>
          (if pid \<noteq> uuid then portfolio_currencies uuid accts
           else (case attr_get ''currency'' acct of Inl e \<Rightarrow> Inl e | Inr c \<Rightarrow>
                (case get_or ''code'' c of
                   Inl e \<Rightarrow> Inl e
                 | Inr code \<Rightarrow>
                     (case code of
                        JStr s \<Rightarrow> (case portfolio_currencies uuid accts of
                                    Inl e \<Rightarrow> Inl e | Inr cs \<Rightarrow> Inr (if s = '''' then cs else upper s # cs))
                      | _ \<Rightarrow> if jtruthy code then Inl (AttributeError ''upper'') else portfolio_currencies uuid accts)))))"

definition get_portfolio_currencies :: "json \<Rightarrow> exn + json \<Rightarrow> exn + string list" where
  "get_portfolio_currencies uuid balance =
     (case balance of Inl e \<Rightarrow> Inl e | Inr bal \<Rightarrow>
     (case get_or ''info'' bal of Inl e \<Rightarrow> Inl e | Inr info \<Rightarrow>
     (case get_or ''data'' info of Inl e \<Rightarrow> Inl e | Inr data \<Rightarrow>
        (case jor data (JList []) of
           JList vs \<Rightarrow> portfolio_currencies uuid vs
         | JStr _ \<Rightarrow> Inl (AttributeError ''get'')
         | JObj _ \<Rightarrow> Inl (AttributeError ''get'')
         | _ \<Rightarrow> Inl (TypeError ''not iterable'')))))"

definition enforce_coinbase_quote_account_available :: "order_exchange \<Rightarrow> string \<Rightarrow> unit guarded" where
  "enforce_coinbase_quote_account_available ex symbol =
     (if lower (exchange_name ex) \<noteq> ''coinbase'' then Inr ()
      else obind (raised (case ox_key_permissions ex 0 of Inl e \<Rightarrow> Inl e | Inr resp \<Rightarrow> attr_get ''portfolio_uuid'' resp)) (\<lambda>uuid.
        if \<not> jtruthy uuid then Inl (Blocked PortfolioUuidUnavailable)
        else obind (raised (get_portfolio_currencies uuid (ox_balance ex 0))) (\<lambda>currencies.
          (case split_symbol symbol of
             None \<Rightarrow> Inl (Raised (ValueError ''Unsupported symbol format''))
           | Some (base, quote) \<Rightarrow> guard (quote \<in> set currencies) (PortfolioAccountUnavailable quote)))))"

section \<open>The gates\<close>

text \<open>The world the gates read and write: the accounting database with its flag, the market rules cache, and the orders that were
  created.\<close>

record created_order =
  co_symbol :: string
  co_type :: string
  co_side :: string
  co_amount :: pyfloat
  co_price :: "pyfloat option"

record order_world =
  pw_db :: account_db
  pw_cache :: rules_cache
  pw_created :: "created_order list"

text \<open>\<open>oe_health\<close> holds the parts of the health check that are not in the accounting database; \<open>oe_flag_error\<close> is an error of reading the sink's
  flag, and \<open>oe_attempt_error\<close> a database error while the order is counted towards the day.\<close>

record order_env =
  oe_env :: "string \<Rightarrow> string option"
  oe_now :: string
  oe_today :: string
  oe_time :: pyfloat
  oe_flag_error :: "exn option"
  oe_health_error :: "exn option"
  oe_health :: health_state
  oe_killswitch :: "exn + ks_probe"
  oe_ops_gate :: "dict option"
  oe_snapshot_error :: "exn option"
  oe_prereq_error :: "exn option"
  oe_rules_error :: "exn option"
  oe_fetchers :: rule_fetchers
  oe_exchange :: order_exchange
  oe_attempt_error :: "exn option"

definition check_risk_sink_flag :: "order_env \<Rightarrow> order_world \<Rightarrow> unit guarded" where
  "check_risk_sink_flag env w =
     (if ac_flag (pw_db w) = None then Inr ()
      else (case oe_flag_error env of
              Some e \<Rightarrow> Inl (Blocked (RiskSinkFlagUnreadable e)) | None \<Rightarrow> Inl (Blocked RiskDailyUpdateFailed)))"

definition enforce_system_health :: "order_env \<Rightarrow> order_world \<Rightarrow> unit guarded" where
  "enforce_system_health env w =
     (case oe_health_error env of
        Some e \<Rightarrow> Inl (Blocked (SystemHealthCheckFailed e))
      | None \<Rightarrow> (let state = fst (get_system_health ((oe_health env)\<lparr>hs_db := pw_db w\<rparr>))
                 in guard (state \<noteq> DEGRADED \<and> state \<noteq> HALTED) (SystemHealth state)))"

definition require_env_float :: "(string \<Rightarrow> string option) \<Rightarrow> string \<Rightarrow> pyfloat guarded" where
  "require_env_float env name =
     (case env name of
        None \<Rightarrow> Inl (Blocked (MissingLimitEnv name))
      | Some v \<Rightarrow>
          if strip v = '''' then Inl (Blocked (MissingLimitEnv name))
          else (case float_of_text (strip v) of
                  None \<Rightarrow> Inl (Blocked (InvalidLimitEnv name))
                | Some x \<Rightarrow> if isfinite x then Inr x else Inl (Blocked (InvalidLimitEnv name))))"

definition apply_precision :: "(string \<Rightarrow> pyfloat \<Rightarrow> exn + pyfloat) option \<Rightarrow> string \<Rightarrow> pyfloat \<Rightarrow> pyfloat guarded" where
  "apply_precision f symbol x =
     (case f of None \<Rightarrow> Inr x
      | Some g \<Rightarrow> (case g symbol x of Inl _ \<Rightarrow> Inl (Blocked PrecisionNormalizationFailed) | Inr y \<Rightarrow> Inr y))"

definition normalize_order_precision ::
    "order_exchange \<Rightarrow> string \<Rightarrow> string \<Rightarrow> pyfloat \<Rightarrow> pyfloat option \<Rightarrow> (pyfloat \<times> pyfloat option) guarded" where
  "normalize_order_precision ex symbol order_type amount price =
     obind (parse_order_amount (JFloat amount)) (\<lambda>a0.
     obind (parse_order_price (price_json price) order_type) (\<lambda>p0.
     obind (apply_precision (ox_amount_to_precision ex) symbol a0) (\<lambda>a1.
     obind (case p0 of None \<Rightarrow> Inr None | Some p \<Rightarrow> obind (apply_precision (ox_price_to_precision ex) symbol p) (\<lambda>x. Inr (Some x))) (\<lambda>p1.
     obind (parse_order_amount (JFloat a1)) (\<lambda>a2.
     obind (parse_order_price (price_json p1) order_type) (\<lambda>p2. Inr (a2, p2)))))))"

record order_limits =
  ol_max_trades :: pyfloat
  ol_max_loss :: pyfloat
  ol_max_daily_notional :: pyfloat
  ol_max_order_notional :: pyfloat

definition order_limits_of :: "(string \<Rightarrow> string option) \<Rightarrow> order_limits guarded" where
  "order_limits_of env =
     obind (require_env_float env ''CBP_MAX_TRADES_PER_DAY'') (\<lambda>t.
     obind (require_env_float env ''CBP_MAX_DAILY_LOSS'') (\<lambda>l.
     obind (require_env_float env ''CBP_MAX_DAILY_NOTIONAL'') (\<lambda>d.
     obind (require_env_float env ''CBP_MAX_ORDER_NOTIONAL'') (\<lambda>n.
       Inr \<lparr>ol_max_trades = t, ol_max_loss = normalize_loss_limit l, ol_max_daily_notional = d, ol_max_order_notional = n\<rparr>))))"

definition notional_of :: "pyfloat \<Rightarrow> pyfloat option \<Rightarrow> rat option guarded" where
  "notional_of amount price =
     (case price of None \<Rightarrow> Inr None | Some p \<Rightarrow> obind (estimate_order_notional amount p) (\<lambda>n. Inr (Some n)))"

record checked_order =
  ck_amount :: pyfloat
  ck_price :: "pyfloat option"
  ck_notional :: "rat option"
  ck_limits :: order_limits

text \<open>Gates 0 to 5, which only read.\<close>

definition enforce_static :: "order_env \<Rightarrow> order_args \<Rightarrow> order_world \<Rightarrow> checked_order guarded" where
  "enforce_static env a w =
     obind (check_risk_sink_flag env w) (\<lambda>_.
     obind (enforce_system_health env w) (\<lambda>_.
     obind (parse_order_amount (oa_amount a)) (\<lambda>amount_f.
     obind (parse_order_price (oa_price a) (oa_type a)) (\<lambda>price_f.
     obind (guard (\<not> killswitch_state (oe_env env) (oe_time env) (oe_killswitch env)) KillSwitchOn) (\<lambda>_.
     obind (guard (is_armed (oe_env env)) NotArmed) (\<lambda>_.
     obind (enforce_ops_risk_gate (oe_env env) (oe_ops_gate env) (oa_params a)) (\<lambda>_.
     obind (order_limits_of (oe_env env)) (\<lambda>lm.
     obind (guard (price_f \<noteq> None \<or> env_truthy (oe_env env ''CBP_ALLOW_MARKET_ORDERS'')) MarketOrdersDisabled) (\<lambda>_.
     obind (normalize_order_precision (oe_exchange env) (oa_symbol a) (oa_type a) amount_f price_f) (\<lambda>(amount_n, price_n).
     obind (notional_of amount_n price_n) (\<lambda>notional.
     obind (case notional of None \<Rightarrow> Inr ()
            | Some n \<Rightarrow> obind (decimal_order_value (ol_max_order_notional lm)) (\<lambda>m. guard (n \<le> m) OrderNotionalExceedsLimit)) (\<lambda>_.
       Inr \<lparr>ck_amount = amount_n, ck_price = price_n, ck_notional = notional, ck_limits = lm\<rparr>))))))))))))"

text \<open>Gate 6, on the snapshot of the day.\<close>

definition enforce_daily :: "order_limits \<Rightarrow> rat option \<Rightarrow> risk_snapshot \<Rightarrow> unit guarded" where
  "enforce_daily lm notional s =
     obind (guard (rs_corrupt_fields s = []) RiskDailyCorrupt) (\<lambda>_.
     obind (decimal_order_value (rs_notional s)) (\<lambda>daily.
     obind (guard (\<not> fle (ol_max_trades lm) (mk_float (of_int (rs_trades s)))) MaxTradesPerDay) (\<lambda>_.
     obind (guard (\<not> fle (rs_pnl s) (ol_max_loss lm)) MaxDailyLoss) (\<lambda>_.
       (case notional of
          None \<Rightarrow> Inr ()
        | Some n \<Rightarrow> obind (decimal_order_value (ol_max_daily_notional lm)) (\<lambda>m. guard (rnd28 (daily + n) \<le> m) MaxDailyNotional))))))"

text \<open>\<open>float(os.environ.get("CBP_MARKET_RULES_TTL_S") or 6 * 3600.0)\<close>\<close>

definition rules_ttl :: "string option \<Rightarrow> pyfloat guarded" where
  "rules_ttl raw =
     (if truthy raw then (case float_of_text (the raw) of None \<Rightarrow> Inl (Raised (ValueError ''float'')) | Some x \<Rightarrow> Inr x)
      else Inr (Fin 21600))"

text \<open>Gate 7; the cache may change.\<close>

definition enforce_rules :: "order_env \<Rightarrow> string \<Rightarrow> checked_order \<Rightarrow> rules_cache \<Rightarrow> unit guarded \<times> rules_cache" where
  "enforce_rules env symbol k c =
     (case obind (venue_norm_for_market_rules (oe_env env) (oe_exchange env)) (\<lambda>venue.
           obind (rules_ttl (oe_env env ''CBP_MARKET_RULES_TTL_S'')) (\<lambda>ttl.
           obind (guard (fst (check_market_rules_prereq (oe_prereq_error env) (oe_time env) ttl c)) MarketRulesPrereqFailed) (\<lambda>_.
             Inr (venue, ttl)))) of
        Inl e \<Rightarrow> (Inl e, c)
      | Inr (venue, ttl) \<Rightarrow>
          (case oe_rules_error env of
             Some e \<Rightarrow> (Inl (Blocked MarketRulesInvalid), c)
           | None \<Rightarrow>
               (case validate (oe_fetchers env) (oe_time env) (oe_time env) venue symbol (Some (num_of_float (ck_amount k)))
                       (map_option (\<lambda>n. num_of_float (mk_float n)) (ck_notional k)) ttl c of
                  (Inr RULES_OK, c') \<Rightarrow> (Inr (), c')
                | (_, c') \<Rightarrow> (Inl (Blocked MarketRulesInvalid), c'))))"

definition enforce_fail_closed :: "order_env \<Rightarrow> order_args \<Rightarrow> order_world \<Rightarrow> checked_order guarded \<times> order_world" where
  "enforce_fail_closed env a w =
     (case enforce_static env a w of
        Inl e \<Rightarrow> (Inl e, w)
      | Inr k \<Rightarrow>
          (if oe_snapshot_error env \<noteq> None then (Inl (Blocked MissingRiskDailySnapshot), w)
           else case risk_snapshot_today (oe_now env) (oe_today env) (ac_risk (pw_db w)) of
                  (None, risk) \<Rightarrow> (Inl (Blocked MissingRiskDailySnapshot), w\<lparr>pw_db := (pw_db w)\<lparr>ac_risk := risk\<rparr>\<rparr>)
                | (Some s, risk) \<Rightarrow>
                    (let w1 = w\<lparr>pw_db := (pw_db w)\<lparr>ac_risk := risk\<rparr>\<rparr>
                     in case enforce_daily (ck_limits k) (ck_notional k) s of
                          Inl e \<Rightarrow> (Inl e, w1)
                        | Inr _ \<Rightarrow>
                            (case enforce_rules env (oa_symbol a) k (pw_cache w1) of
                               (Inl e, c) \<Rightarrow> (Inl e, w1\<lparr>pw_cache := c\<rparr>)
                             | (Inr _, c) \<Rightarrow> (Inr k, w1\<lparr>pw_cache := c\<rparr>)))))"

section \<open>\<open>place_order\<close>\<close>

definition created_of :: "order_args \<Rightarrow> checked_order \<Rightarrow> created_order" where
  "created_of a k = \<lparr>co_symbol = oa_symbol a, co_type = oa_type a, co_side = oa_side a, co_amount = ck_amount k, co_price = ck_price k\<rparr>"

text \<open>The exchange may have created the order when \<open>create_order\<close> raises; the world counts every call. An order that is returned is counted towards the
  day, unless that fails, which is swallowed.\<close>

definition submit_order :: "order_env \<Rightarrow> order_args \<Rightarrow> checked_order \<Rightarrow> order_world \<Rightarrow> json guarded \<times> order_world" where
  "submit_order env a k w =
     (let w1 = w\<lparr>pw_created := pw_created w @ [created_of a k]\<rparr>
      in case ox_create_order (oe_exchange env) (oa_symbol a) (oa_type a) (oa_side a) (ck_amount k) (ck_price k) (oa_params a) of
           Inl e \<Rightarrow> (Inl (Raised e), w1)
         | Inr ord \<Rightarrow>
             (Inr ord, w1\<lparr>pw_db := (pw_db w1)\<lparr>ac_risk := record_order_attempt (oe_attempt_error env) (oe_now env) (oe_today env)
                (map_option (\<lambda>n. num_of_float (mk_float n)) (ck_notional k)) (ac_risk (pw_db w1))\<rparr>\<rparr>))"

text \<open>What follows \<open>_enforce_fail_closed\<close>; other calls can run between the two.\<close>

definition place_checked :: "order_env \<Rightarrow> order_args \<Rightarrow> checked_order \<Rightarrow> order_world \<Rightarrow> json guarded \<times> order_world" where
  "place_checked env a k w =
     (case obind (enforce_coinbase_quote_account_available (oe_exchange env) (oa_symbol a)) (\<lambda>_.
           enforce_funding_gate (oe_env env) (oe_exchange env) (oa_symbol a) (oa_side a) (oa_type a) (ck_amount k) (ck_price k)) of
        Inl e \<Rightarrow> (Inl e, w)
      | Inr _ \<Rightarrow> submit_order env a k w)"

definition place_order :: "order_env \<Rightarrow> json list \<Rightarrow> dict \<Rightarrow> order_world \<Rightarrow> json guarded \<times> order_world" where
  "place_order env args kwargs w =
     (let a = extract_create_order_args args kwargs
      in case enforce_fail_closed env a w of
           (Inl e, w1) \<Rightarrow> (Inl e, w1)
         | (Inr k, w1) \<Rightarrow> place_checked env a k w1)"

section \<open>What a created order has passed\<close>

lemma obind_Inr [simp]: "obind m f = Inr y \<longleftrightarrow> (\<exists>x. m = Inr x \<and> f x = Inr y)"
  by (cases m) (auto simp: obind_def)

lemma obind_simps [simp]: "obind (Inr x) f = f x" "obind (Inl e) f = Inl e"
  by (simp_all add: obind_def)

lemma guard_Inr [simp]: "guard ok why = Inr u \<longleftrightarrow> ok"
  by (simp add: guard_def)

lemma raised_Inr [simp]: "raised m = Inr x \<longleftrightarrow> m = Inr x"
  by (cases m) (auto simp: raised_def)

lemma parse_order_amount_ok: "parse_order_amount v = Inr x \<Longrightarrow> isfinite x \<and> flt (Fin 0) x"
  by (cases x) (auto simp: parse_order_amount_def split: sum.splits if_splits)

lemma parse_order_price_ok: "parse_order_price v t = Inr (Some x) \<Longrightarrow> isfinite x \<and> flt (Fin 0) x"
  by (cases x) (auto simp: parse_order_price_def split: sum.splits if_splits)

lemma normalize_precision_ok:
  assumes "normalize_order_precision ex symbol t amount price = Inr (a, p)"
  shows "isfinite a \<and> flt (Fin 0) a \<and> (\<forall>x. p = Some x \<longrightarrow> isfinite x \<and> flt (Fin 0) x)"
  using assms by (auto simp: normalize_order_precision_def dest: parse_order_amount_ok parse_order_price_ok)

lemma decimal_order_value_Inr: "decimal_order_value v = Inr d \<longleftrightarrow> num_of_float v = NumFin d"
  by (auto simp: decimal_order_value_def decimal_value_def split: num_arg.splits)

lemma estimate_notional_Inr:
  "estimate_order_notional a p = Inr n \<longleftrightarrow> (\<exists>x y. num_of_float a = NumFin x \<and> num_of_float p = NumFin y \<and> n = rnd28 (x * y))"
  by (auto simp: estimate_order_notional_def decimal_product_def decimal_value_def split: num_arg.splits)

text \<open>The money side of a checked order: with a price, the notional is within the limit of one order, and with the day's
  notional within the limit of the day.\<close>

definition within_notional_limits :: "order_limits \<Rightarrow> pyfloat \<Rightarrow> pyfloat option \<Rightarrow> pyfloat \<Rightarrow> bool" where
  "within_notional_limits lm amount price daily \<longleftrightarrow>
     (\<forall>p. price = Some p \<longrightarrow> (\<exists>x y d m1 m2. num_of_float amount = NumFin x \<and> num_of_float p = NumFin y \<and> num_of_float daily = NumFin d \<and>
        num_of_float (ol_max_order_notional lm) = NumFin m1 \<and> num_of_float (ol_max_daily_notional lm) = NumFin m2 \<and>
        rnd28 (x * y) \<le> m1 \<and> rnd28 (d + rnd28 (x * y)) \<le> m2))"

definition static_passed :: "order_env \<Rightarrow> order_args \<Rightarrow> order_world \<Rightarrow> bool" where
  "static_passed env a w \<longleftrightarrow>
     ac_flag (pw_db w) = None \<and> fst (get_system_health ((oe_health env)\<lparr>hs_db := pw_db w\<rparr>)) = HEALTHY \<and>
     \<not> killswitch_state (oe_env env) (oe_time env) (oe_killswitch env) \<and> is_armed (oe_env env) \<and>
     enforce_ops_risk_gate (oe_env env) (oe_ops_gate env) (oa_params a) = Inr () \<and>
     (oa_price a \<noteq> JNull \<or> env_truthy (oe_env env ''CBP_ALLOW_MARKET_ORDERS''))"

lemma health_states: "(h :: health) \<noteq> DEGRADED \<and> h \<noteq> HALTED \<longleftrightarrow> h = HEALTHY"
  by (cases h) auto

lemma enforce_static_passed:
  assumes s: "enforce_static env a w = Inr k"
  shows "static_passed env a w"
    "order_limits_of (oe_env env) = Inr (ck_limits k)" "notional_of (ck_amount k) (ck_price k) = Inr (ck_notional k)"
    "isfinite (ck_amount k) \<and> flt (Fin 0) (ck_amount k)"
    "\<forall>n. ck_notional k = Some n \<longrightarrow> (\<exists>m. num_of_float (ol_max_order_notional (ck_limits k)) = NumFin m \<and> n \<le> m)"
    "\<forall>p. ck_price k = Some p \<longrightarrow> isfinite p \<and> flt (Fin 0) p"
proof -
  obtain lm amount_f price_f amount_n price_n notional where
      p: "check_risk_sink_flag env w = Inr ()" "enforce_system_health env w = Inr ()"
         "parse_order_price (oa_price a) (oa_type a) = Inr price_f"
         "\<not> killswitch_state (oe_env env) (oe_time env) (oe_killswitch env)" "is_armed (oe_env env)"
         "enforce_ops_risk_gate (oe_env env) (oe_ops_gate env) (oa_params a) = Inr ()"
         "order_limits_of (oe_env env) = Inr lm" "price_f \<noteq> None \<or> env_truthy (oe_env env ''CBP_ALLOW_MARKET_ORDERS'')"
         "normalize_order_precision (oe_exchange env) (oa_symbol a) (oa_type a) amount_f price_f = Inr (amount_n, price_n)"
         "notional_of amount_n price_n = Inr notional"
         "\<forall>n. notional = Some n \<longrightarrow> (\<exists>m. num_of_float (ol_max_order_notional lm) = NumFin m \<and> n \<le> m)"
    and k: "k = \<lparr>ck_amount = amount_n, ck_price = price_n, ck_notional = notional, ck_limits = lm\<rparr>"
    using s unfolding enforce_static_def obind_Inr guard_Inr
    by (auto simp: decimal_order_value_Inr split: option.splits prod.splits)
  have "ac_flag (pw_db w) = None" using p(1) by (auto simp: check_risk_sink_flag_def split: if_splits option.splits)
  moreover have "fst (get_system_health ((oe_health env)\<lparr>hs_db := pw_db w\<rparr>)) = HEALTHY"
    using p(2) health_states by (auto simp: enforce_system_health_def Let_def split: option.splits)
  moreover have "oa_price a = JNull \<Longrightarrow> price_f = None" using p(3) by (auto simp: parse_order_price_def split: if_splits)
  ultimately show "static_passed env a w" using p by (auto simp: static_passed_def)
  show "order_limits_of (oe_env env) = Inr (ck_limits k)" "notional_of (ck_amount k) (ck_price k) = Inr (ck_notional k)"
    "\<forall>n. ck_notional k = Some n \<longrightarrow> (\<exists>m. num_of_float (ol_max_order_notional (ck_limits k)) = NumFin m \<and> n \<le> m)"
    "isfinite (ck_amount k) \<and> flt (Fin 0) (ck_amount k)" "\<forall>p. ck_price k = Some p \<longrightarrow> isfinite p \<and> flt (Fin 0) p"
    using p normalize_precision_ok[OF p(9)] by (simp_all add: k)
qed

lemma enforce_daily_passed:
  assumes "enforce_daily lm notional s = Inr ()"
  shows "rs_corrupt_fields s = []" "\<not> fle (ol_max_trades lm) (mk_float (of_int (rs_trades s)))" "\<not> fle (rs_pnl s) (ol_max_loss lm)"
    "\<forall>n. notional = Some n \<longrightarrow> (\<exists>d m. num_of_float (rs_notional s) = NumFin d \<and> num_of_float (ol_max_daily_notional lm) = NumFin m \<and> rnd28 (d + n) \<le> m)"
  using assms by (auto simp: enforce_daily_def decimal_order_value_Inr split: option.splits)

lemma enforce_fail_closed_passed:
  assumes e: "enforce_fail_closed env a w = (Inr k, w1)"
  shows "\<exists>s. enforce_static env a w = Inr k \<and> fst (risk_snapshot_today (oe_now env) (oe_today env) (ac_risk (pw_db w))) = Some s \<and>
    enforce_daily (ck_limits k) (ck_notional k) s = Inr () \<and>
    pw_db w1 = (pw_db w)\<lparr>ac_risk := snd (risk_snapshot_today (oe_now env) (oe_today env) (ac_risk (pw_db w)))\<rparr> \<and>
    pw_created w1 = pw_created w"
proof -
  obtain k' where s: "enforce_static env a w = Inr k'" using e by (cases "enforce_static env a w") (simp_all add: enforce_fail_closed_def)
  obtain o' risk where q: "risk_snapshot_today (oe_now env) (oe_today env) (ac_risk (pw_db w)) = (o', risk)" by fastforce
  obtain s' where o': "o' = Some s'" using e s q by (cases o') (auto simp: enforce_fail_closed_def split: if_splits)
  have "enforce_daily (ck_limits k') (ck_notional k') s' = Inr ()"
    using e s q o' by (cases "enforce_daily (ck_limits k') (ck_notional k') s'") (auto simp: enforce_fail_closed_def Let_def split: if_splits)
  then show ?thesis using e s q o' by (auto simp: enforce_fail_closed_def Let_def split: if_splits prod.splits sum.splits)
qed

lemma enforce_fail_closed_created: "pw_created (snd (enforce_fail_closed env a w)) = pw_created w"
  by (auto simp: enforce_fail_closed_def Let_def split: sum.split prod.split option.split)

lemma place_order_cases:
  assumes "place_order env args kwargs w = (r, w')"
  obtains (refused) e where "r = Inl e" "pw_created w' = pw_created w"
  | (submitted) k w1 where "enforce_fail_closed env (extract_create_order_args args kwargs) w = (Inr k, w1)"
      "enforce_funding_gate (oe_env env) (oe_exchange env) (oa_symbol (extract_create_order_args args kwargs))
         (oa_side (extract_create_order_args args kwargs)) (oa_type (extract_create_order_args args kwargs)) (ck_amount k) (ck_price k) = Inr ()"
      "submit_order env (extract_create_order_args args kwargs) k w1 = (r, w')"
proof -
  let ?a = "extract_create_order_args args kwargs"
  obtain x w1 where e: "enforce_fail_closed env ?a w = (x, w1)" by fastforce
  have cr: "pw_created w1 = pw_created w" using enforce_fail_closed_created[of env ?a w] e by simp
  let ?f = "obind (enforce_coinbase_quote_account_available (oe_exchange env) (oa_symbol ?a)) (\<lambda>_.
    enforce_funding_gate (oe_env env) (oe_exchange env) (oa_symbol ?a) (oa_side ?a) (oa_type ?a) (ck_amount (projr x)) (ck_price (projr x)))"
  show ?thesis
  proof (cases x)
    case (Inl er)
    then show ?thesis using assms e cr by (intro refused[of er]) (auto simp: place_order_def place_checked_def Let_def)
  next
    case (Inr k)
    show ?thesis
    proof (cases ?f)
      case (Inl er)
      then show ?thesis using assms e cr Inr by (intro refused[of er]) (auto simp: place_order_def place_checked_def Let_def)
    next
      case f: (Inr u)
      have "submit_order env ?a k w1 = (r, w')" using assms e f Inr by (simp add: place_order_def place_checked_def Let_def)
      then show ?thesis using f e Inr by (intro submitted[of k w1]) auto
    qed
  qed
qed

text \<open>C2. No order passes the gates by accident. When \<open>place_order\<close> calls \<open>create_order\<close>, then the fill sink has left no
  flag, the system is healthy, the kill switch is off, execution is armed, the ops gate lets the order through, market orders are priced or
  explicitly allowed, the day's books are not corrupt, the trade limit of the day is not reached, the loss limit of the day is not
  touched, a priced order is within the notional limits of one order and of the day, and the funding gate found the spendable
  balance sufficient. The order that is created is the checked one.\<close>

theorem created_order_passed_all_gates:
  assumes p: "place_order env args kwargs w = (r, w')" and new: "pw_created w' \<noteq> pw_created w"
  shows "\<exists>k s. pw_created w' = pw_created w @ [created_of (extract_create_order_args args kwargs) k] \<and>
    static_passed env (extract_create_order_args args kwargs) w \<and> order_limits_of (oe_env env) = Inr (ck_limits k) \<and>
    isfinite (ck_amount k) \<and> flt (Fin 0) (ck_amount k) \<and>
    fst (risk_snapshot_today (oe_now env) (oe_today env) (ac_risk (pw_db w))) = Some s \<and> rs_corrupt_fields s = [] \<and>
    \<not> fle (ol_max_trades (ck_limits k)) (mk_float (of_int (rs_trades s))) \<and> \<not> fle (rs_pnl s) (ol_max_loss (ck_limits k)) \<and>
    within_notional_limits (ck_limits k) (ck_amount k) (ck_price k) (rs_notional s) \<and>
    enforce_funding_gate (oe_env env) (oe_exchange env) (oa_symbol (extract_create_order_args args kwargs))
      (oa_side (extract_create_order_args args kwargs)) (oa_type (extract_create_order_args args kwargs)) (ck_amount k) (ck_price k) = Inr ()"
proof -
  let ?a = "extract_create_order_args args kwargs"
  from p new show ?thesis
  proof (cases rule: place_order_cases)
    case (submitted k w1)
    obtain s where s: "enforce_static env ?a w = Inr k" "fst (risk_snapshot_today (oe_now env) (oe_today env) (ac_risk (pw_db w))) = Some s"
      "enforce_daily (ck_limits k) (ck_notional k) s = Inr ()" "pw_created w1 = pw_created w"
      using enforce_fail_closed_passed[OF submitted(1)] by blast
    note st = enforce_static_passed[OF s(1)]
    note dy = enforce_daily_passed[OF s(3)]
    have n: "within_notional_limits (ck_limits k) (ck_amount k) (ck_price k) (rs_notional s)"
      unfolding within_notional_limits_def
    proof (intro allI impI)
      fix p
      assume "ck_price k = Some p"
      then obtain n where n: "ck_notional k = Some n" "estimate_order_notional (ck_amount k) p = Inr n"
        using st(3) by (cases "ck_notional k") (auto simp: notional_of_def)
      then show "\<exists>x y d m1 m2. num_of_float (ck_amount k) = NumFin x \<and> num_of_float p = NumFin y \<and> num_of_float (rs_notional s) = NumFin d \<and>
          num_of_float (ol_max_order_notional (ck_limits k)) = NumFin m1 \<and> num_of_float (ol_max_daily_notional (ck_limits k)) = NumFin m2 \<and>
          rnd28 (x * y) \<le> m1 \<and> rnd28 (d + rnd28 (x * y)) \<le> m2"
        using st(5) dy(4) by (auto simp: estimate_notional_Inr)
    qed
    have "pw_created w' = pw_created w @ [created_of ?a k]"
      using submitted(3) s(4) by (auto simp: submit_order_def Let_def split: sum.splits)
    then show ?thesis using st dy s(2) submitted(2) n by (intro exI[of _ k] exI[of _ s]) simp
  qed simp
qed

section \<open>The trade limit of the day\<close>

definition day_trades :: "string \<Rightarrow> risk_db \<Rightarrow> int" where
  "day_trades d rdb = (case select_key rr_day d (rdb_daily rdb) of None \<Rightarrow> 0 | Some r \<Rightarrow> rr_trades r)"

lemma ensure_day_row: "\<exists>r. select_key rr_day d (rdb_daily (ensure_day_conn now d rdb)) = Some r \<and> rr_trades r = day_trades d rdb \<and>
    (select_key rr_day d (rdb_daily rdb) = Some r \<or> rr_notional_usd r = Fin 0)"
  by (cases "select_key rr_day d (rdb_daily rdb)")
    (auto simp: ensure_day_conn_def day_trades_def select_key_append select_key_Cons)

lemma snapshot_day:
  assumes s: "risk_snapshot_today now d rdb = (Some s, rdb')" and d: "d \<noteq> ''''" and clean: "rs_corrupt_fields s = []"
  shows "rdb' = ensure_day_conn now d rdb" "day_trades d rdb' = day_trades d rdb"
    "\<exists>r. select_key rr_day d (rdb_daily rdb') = Some r \<and> isfinite (rr_notional_usd r)"
    "0 \<le> day_trades d rdb \<Longrightarrow> day_trades d rdb \<le> 2 ^ 53 \<Longrightarrow> rs_trades s = day_trades d rdb"
    "2 ^ 53 < day_trades d rdb \<Longrightarrow> 2 ^ 53 \<le> rs_trades s"
proof -
  obtain r where r: "select_key rr_day d (rdb_daily (ensure_day_conn now d rdb)) = Some r" "rr_trades r = day_trades d rdb"
    using ensure_day_row by blast
  have g: "rdb' = ensure_day_conn now d rdb" "s = snapshot_of_row r"
    using s r d by (auto simp: risk_snapshot_today_def risk_get_def Let_def opt_str_or_def get_day_conn_def str_or_def)
  show "rdb' = ensure_day_conn now d rdb" by (rule g)
  show "day_trades d rdb' = day_trades d rdb" using r by (simp add: g(1) day_trades_def)
  show "\<exists>r. select_key rr_day d (rdb_daily rdb') = Some r \<and> isfinite (rr_notional_usd r)"
    using r clean g by (auto simp: snapshot_of_row_def Let_def finite_float_field_def split: prod.splits if_splits)
  have tr: "rs_trades s = fst (finite_nonnegative_int_field ''trades'' (day_trades d rdb))"
    "snd (finite_nonnegative_int_field ''trades'' (day_trades d rdb)) = None"
    using g r clean by (auto simp: snapshot_of_row_def Let_def opt_list_def split: prod.splits option.splits)
  show "rs_trades s = day_trades d rdb" if "0 \<le> day_trades d rdb" "day_trades d rdb \<le> 2 ^ 53"
    using tr that mk_float_of_int[of "day_trades d rdb"] by (simp add: finite_nonnegative_int_field_def trunc_rat_def)
  show "2 ^ 53 \<le> rs_trades s" if "2 ^ 53 < day_trades d rdb"
  proof -
    obtain x where x: "mk_float (of_int (day_trades d rdb)) = Fin x"
      using tr(2) by (auto simp: finite_nonnegative_int_field_def split: pyfloat.splits if_splits)
    have "fle (mk_float (of_int (2 ^ 53))) (mk_float (of_int (day_trades d rdb)))" using that by (intro mk_float_mono) linarith
    then have "2 ^ 53 \<le> x" using mk_float_of_int[of "2 ^ 53"] x by simp
    then have "\<lfloor>x\<rfloor> \<ge> 2 ^ 53" "\<not> x < 0" by (simp_all add: le_floor_iff)
    then show ?thesis using tr x by (simp add: finite_nonnegative_int_field_def trunc_rat_def)
  qed
qed

lemma repr_rat_pos: "0 < x \<Longrightarrow> 0 < repr_rat x"
proof (cases "shortest_decimal \<bar>x\<bar>")
  case (Some d)
  assume x: "0 < x"
  have "mk_float d = Fin x" using shortest_decimal_reads_back[OF Some] x by simp
  then have "0 < d" using mk_float_nonpos[of d] x by (cases "d \<le> 0") auto
  then show ?thesis using Some x by (simp add: repr_rat_def)
qed (simp add: repr_rat_def)

lemma float_of_text_wf: "float_of_text t = Some x \<Longrightarrow> wf_float x"
  by (auto simp: float_of_text_def Let_def split: if_splits prod.splits option.splits)

lemma limits_wf: "order_limits_of env = Inr lm \<Longrightarrow> wf_float (ol_max_order_notional lm)"
  by (auto simp: order_limits_of_def require_env_float_def dest: float_of_text_wf split: option.splits if_splits)

text \<open>The notional of a checked order is a finite float.\<close>

lemma notional_finite:
  assumes s: "enforce_static env a w = Inr k" and n: "ck_notional k = Some n"
  shows "\<exists>x. mk_float n = Fin x"
proof -
  note st = enforce_static_passed[OF s]
  obtain m where m: "num_of_float (ol_max_order_notional (ck_limits k)) = NumFin m" "n \<le> m" using st(5) n by blast
  obtain y where y: "ol_max_order_notional (ck_limits k) = Fin y" using m(1) by (cases "ol_max_order_notional (ck_limits k)") (auto simp: num_of_float_def)
  have "mk_float m = Fin y" using num_of_float_back[of y m] limits_wf[OF st(2)] m(1) y by simp
  then have up: "fle (mk_float n) (Fin y)" using mk_float_mono[OF m(2)] by simp
  obtain p x z where p: "ck_price k = Some p" "num_of_float (ck_amount k) = NumFin x" "num_of_float p = NumFin z" "n = rnd28 (x * z)"
    using st(3) n by (auto simp: notional_of_def estimate_notional_Inr split: option.splits)
  have pos: "flt (Fin 0) p" using st(6) p(1) by simp
  have "0 < x" using st(4) p(2) by (cases "ck_amount k") (auto simp: num_of_float_def intro: repr_rat_pos)
  moreover have "0 < z" using pos p(3) by (cases p) (auto simp: num_of_float_def intro: repr_rat_pos)
  ultimately have "0 \<le> n" using d28.nonneg[of "x * z"] p(4) by simp
  then have "fle (Fin 0) (mk_float n)" by (rule mk_float_nonneg)
  then show ?thesis using up by (cases "mk_float n") auto
qed

text \<open>The day's notional is a number: its column is \<open>NOT NULL\<close>.\<close>

definition day_numeric :: "string \<Rightarrow> risk_db \<Rightarrow> bool" where
  "day_numeric d rdb \<longleftrightarrow> (case select_key rr_day d (rdb_daily rdb) of None \<Rightarrow> True | Some r \<Rightarrow> rr_notional_usd r \<noteq> NaN)"

text \<open>Counting an order of finite notional adds one, or the database failed and nothing changed.\<close>

lemma record_attempt_counts:
  assumes r: "day_numeric d rdb"
    and n: "notional = None \<or> (\<exists>x. notional = Some (num_of_float (Fin x)) \<and> isfinite (mk_float (repr_rat x)))"
  shows "day_trades d (record_order_attempt fault now d notional rdb) = day_trades d rdb + (if fault = None then 1 else 0) \<and>
    day_numeric d (record_order_attempt fault now d notional rdb)"
proof -
  obtain f where f: "risk_finite_float_input ''notional_usd'' notional = Inr f" "isfinite f"
    using n by (auto simp: risk_finite_float_input_def decimal_value_def num_of_float_def)
  show ?thesis
  proof (cases fault)
    case None
    obtain row where row: "select_key rr_day d (rdb_daily (ensure_day_conn now d rdb)) = Some row" "rr_trades row = day_trades d rdb"
        "rr_notional_usd row \<noteq> NaN"
      using ensure_day_row[of d now rdb] r by (auto simp: day_numeric_def)
    have nn: "fadd (rr_notional_usd row) f \<noteq> NaN" using row(3) f(2) by (cases "rr_notional_usd row"; cases f) auto
    have dr: "rr_day row = d" using select_key_Some_mem[OF row(1)] by simp
    have "select_key rr_day d (rdb_daily (record_order_attempt None now d notional rdb)) =
        Some (row\<lparr>rr_trades := rr_trades row + 1, rr_notional_usd := fadd (rr_notional_usd row) f, rr_updated_at := now\<rparr>)"
      using row f nn dr by (simp add: record_order_attempt_def update_day_def select_key_upd_where)
    then show ?thesis using None nn row(2) by (simp add: day_trades_def day_numeric_def)
  next
    case (Some e)
    then show ?thesis using f r by (simp add: record_order_attempt_def)
  qed
qed

lemma repr_rat_finite: "mk_float n = Fin x \<Longrightarrow> isfinite (mk_float (repr_rat x))"
  using num_of_float_back[of x "repr_rat x"] wf_mk_float[of n] by (simp add: num_of_float_def)

lemma enforce_fail_closed_count:
  assumes e: "enforce_fail_closed env a w = (q, w1)" and d: "oe_today env \<noteq> ''''"
  shows "day_trades (oe_today env) (ac_risk (pw_db w1)) = day_trades (oe_today env) (ac_risk (pw_db w)) \<and>
    (day_numeric (oe_today env) (ac_risk (pw_db w)) \<longrightarrow> day_numeric (oe_today env) (ac_risk (pw_db w1)))"
proof -
  have sn: "day_trades (oe_today env) (snd (risk_snapshot_today (oe_now env) (oe_today env) rdb)) = day_trades (oe_today env) rdb \<and>
      (day_numeric (oe_today env) rdb \<longrightarrow> day_numeric (oe_today env) (snd (risk_snapshot_today (oe_now env) (oe_today env) rdb)))" for rdb
    using ensure_day_row[of "oe_today env" "oe_now env" rdb] d
    by (auto simp: risk_snapshot_today_def risk_get_def Let_def opt_str_or_def get_day_conn_def str_or_def day_trades_def day_numeric_def split: option.splits)
  have "ac_risk (pw_db w1) = ac_risk (pw_db w) \<or>
      ac_risk (pw_db w1) = snd (risk_snapshot_today (oe_now env) (oe_today env) (ac_risk (pw_db w)))"
    using e by (auto simp: enforce_fail_closed_def Let_def split: sum.splits prod.splits option.splits if_splits)
  then show ?thesis using sn by auto
qed

lemma trades_below_limit:
  assumes nf: "\<not> fle (Fin T) (mk_float (of_int rs))" and T: "T \<le> 2 ^ 53" and t: "0 \<le> t"
    and eq: "0 \<le> t \<Longrightarrow> t \<le> 2 ^ 53 \<Longrightarrow> rs = t" and big: "2 ^ 53 < t \<Longrightarrow> 2 ^ 53 \<le> rs"
  shows "of_int t < T"
proof (cases "t \<le> 2 ^ 53")
  case True
  then show ?thesis using nf eq[OF t] t mk_float_of_int[of t] by simp
next
  case False
  then have "fle (mk_float (of_int (2 ^ 53))) (mk_float (of_int rs))" using big by (intro mk_float_mono) simp
  then have "fle (Fin (2 ^ 53)) (mk_float (of_int rs))" using mk_float_of_int[of "2 ^ 53"] by simp
  then have "fle (Fin T) (mk_float (of_int rs))" using T by (cases "mk_float (of_int rs)") auto
  then show ?thesis using nf by simp
qed

text \<open>A call that passes \<open>_enforce_fail_closed\<close> found the day's count below the limit, and its notional is finite.\<close>

definition notional_ok :: "checked_order \<Rightarrow> bool" where
  "notional_ok k \<longleftrightarrow> (\<forall>n. ck_notional k = Some n \<longrightarrow> (\<exists>x. mk_float n = Fin x))"

lemma passed_below_limit:
  assumes e: "enforce_fail_closed env a w = (Inr k, w1)" and d: "oe_today env = d" "d \<noteq> ''''"
    and lm: "\<forall>lm. order_limits_of (oe_env env) = Inr lm \<longrightarrow> fle (ol_max_trades lm) (Fin T)" and T: "T \<le> 2 ^ 53"
    and t0: "0 \<le> day_trades d (ac_risk (pw_db w))"
  shows "of_int (day_trades d (ac_risk (pw_db w))) < T \<and> notional_ok k"
proof -
  obtain s where s: "enforce_static env a w = Inr k" "fst (risk_snapshot_today (oe_now env) d (ac_risk (pw_db w))) = Some s"
      "enforce_daily (ck_limits k) (ck_notional k) s = Inr ()"
    using enforce_fail_closed_passed[OF e] d(1) by blast
  obtain rdb where sn: "risk_snapshot_today (oe_now env) d (ac_risk (pw_db w)) = (Some s, rdb)"
    using s(2) by (cases "risk_snapshot_today (oe_now env) d (ac_risk (pw_db w))") simp
  note day = snapshot_day[OF sn d(2) enforce_daily_passed(1)[OF s(3)]]
  have "fle (ol_max_trades (ck_limits k)) (Fin T)" using lm enforce_static_passed(2)[OF s(1)] by blast
  then have "\<not> fle (Fin T) (mk_float (of_int (rs_trades s)))"
    using enforce_daily_passed(2)[OF s(3)] fle_trans by blast
  then have "of_int (day_trades d (ac_risk (pw_db w))) < T" by (rule trades_below_limit[OF _ T t0 day(4,5)])
  then show ?thesis using notional_finite[OF s(1)] by (simp add: notional_ok_def)
qed

text \<open>The rest of the call counts the order it returns, unless the database fails then.\<close>

lemma place_checked_counts:
  assumes p: "place_checked env a k w = (r, w')" and d: "oe_today env = d" and k: "notional_ok k" and w: "day_numeric d (ac_risk (pw_db w))"
  shows "day_trades d (ac_risk (pw_db w')) = day_trades d (ac_risk (pw_db w)) + (if isl r \<or> oe_attempt_error env \<noteq> None then 0 else 1) \<and>
    day_numeric d (ac_risk (pw_db w'))"
proof (cases r)
  case (Inl e)
  then have "pw_db w' = pw_db w" using p by (auto simp: place_checked_def submit_order_def Let_def split: sum.splits)
  then show ?thesis using Inl w by simp
next
  case (Inr ord)
  let ?n = "map_option (\<lambda>n. num_of_float (mk_float n)) (ck_notional k)"
  have "ac_risk (pw_db w') = record_order_attempt (oe_attempt_error env) (oe_now env) d ?n (ac_risk (pw_db w))"
    using p Inr d by (auto simp: place_checked_def submit_order_def Let_def split: sum.splits)
  moreover have "?n = None \<or> (\<exists>x. ?n = Some (num_of_float (Fin x)) \<and> isfinite (mk_float (repr_rat x)))"
    using k repr_rat_finite by (cases "ck_notional k") (fastforce simp: notional_ok_def)+
  ultimately show ?thesis using record_attempt_counts[OF w] Inr by simp
qed

text \<open>A day of the program: up to \<open>m\<close> calls of \<open>place_order\<close> are open at a time, with any arguments, and run in any order between their check and their
  end; and between them the rest of the program changes the world without lowering the day's count. The first number counts the calls that returned an order, the second
  those of them whose counting failed.\<close>

inductive day_run :: "string \<Rightarrow> rat \<Rightarrow> nat \<Rightarrow> order_world \<Rightarrow> (order_args \<times> checked_order) list \<Rightarrow> nat \<Rightarrow> nat \<Rightarrow> order_world \<Rightarrow> bool"
  for d T m w0 where
  morning: "day_run d T m w0 [] 0 0 w0"
| checked: "\<lbrakk>day_run d T m w0 ps n l w; length ps < m; enforce_fail_closed env (extract_create_order_args args kwargs) w = (Inr k, w');
    oe_today env = d; \<forall>lm. order_limits_of (oe_env env) = Inr lm \<longrightarrow> fle (ol_max_trades lm) (Fin T)\<rbrakk>
    \<Longrightarrow> day_run d T m w0 ((extract_create_order_args args kwargs, k) # ps) n l w'"
| refused: "\<lbrakk>day_run d T m w0 ps n l w; enforce_fail_closed env (extract_create_order_args args kwargs) w = (Inl e, w'); oe_today env = d\<rbrakk>
    \<Longrightarrow> day_run d T m w0 ps n l w'"
| ended: "\<lbrakk>day_run d T m w0 (ps @ (a, k) # qs) n l w; place_checked env a k w = (r, w'); oe_today env = d\<rbrakk>
    \<Longrightarrow> day_run d T m w0 (ps @ qs) (if isl r then n else Suc n) (if isl r \<or> oe_attempt_error env = None then l else Suc l) w'"
| elsewhere: "\<lbrakk>day_run d T m w0 ps n l w; day_trades d (ac_risk (pw_db w)) \<le> day_trades d (ac_risk (pw_db w'));
    day_numeric d (ac_risk (pw_db w'))\<rbrakk> \<Longrightarrow> day_run d T m w0 ps n l w'"

text \<open>A call that nothing interrupts is a check and an end.\<close>

lemma day_run_place_order:
  assumes run: "day_run d T m w0 ps n l w" and m: "length ps < m" and p: "place_order env args kwargs w = (r, w')" and d: "oe_today env = d"
    and lm: "\<forall>lm. order_limits_of (oe_env env) = Inr lm \<longrightarrow> fle (ol_max_trades lm) (Fin T)"
  shows "day_run d T m w0 ps (if isl r then n else Suc n) (if isl r \<or> oe_attempt_error env = None then l else Suc l) w'"
proof -
  let ?a = "extract_create_order_args args kwargs"
  obtain q w1 where e: "enforce_fail_closed env ?a w = (q, w1)" by fastforce
  show ?thesis
  proof (cases q)
    case (Inl er)
    then have "r = Inl er" "w' = w1" using p e by (simp_all add: place_order_def Let_def)
    then show ?thesis using day_run.refused[OF run e[unfolded Inl] d] by simp
  next
    case (Inr k)
    then have c: "place_checked env ?a k w1 = (r, w')" using p e by (simp add: place_order_def Let_def)
    have "day_run d T m w0 ([] @ (?a, k) # ps) n l w1" using day_run.checked[OF run m e[unfolded Inr] d lm] by simp
    from day_run.ended[OF this c d] show ?thesis by simp
  qed
qed

text \<open>C20. The trade limit of the day holds over any number of calls, up to the calls open at once and the orders that were not counted: as long as the day does not change and no
  call sees a limit above \<open>T\<close>, the orders \<open>place_order\<close> returned that day, on top of those counted before, do not exceed \<open>T\<close> rounded up plus the number of
  returned orders whose counting failed in the database plus the number of calls that were open beside one another. So calls that follow each other with a working
  database never exceed the limit. A call of \<open>create_order\<close> that raises returns no order and is not counted, whatever the exchange did. The counter is a
  64-bit integer read back through a double, which is exact up to \<open>2 ^ 53\<close>.\<close>

theorem orders_per_day_capped:
  assumes run: "day_run d T m w0 ps n l w" and d: "d \<noteq> ''''" and T: "T \<le> 2 ^ 53"
    and t0: "0 \<le> day_trades d (ac_risk (pw_db w0))" "day_numeric d (ac_risk (pw_db w0))"
  shows "n = 0 \<or> day_trades d (ac_risk (pw_db w0)) + int n \<le> \<lceil>T\<rceil> + int l + int (m - 1)"
proof -
  let ?t0 = "day_trades d (ac_risk (pw_db w0))"
  have "?t0 \<le> day_trades d (ac_risk (pw_db w)) \<and> ?t0 + int n \<le> day_trades d (ac_risk (pw_db w)) + int l \<and> day_numeric d (ac_risk (pw_db w)) \<and>
      list_all (\<lambda>(a, k). notional_ok k) ps \<and> (n = 0 \<and> ps = [] \<or> 0 < m \<and> ?t0 + int n + int (length ps) \<le> \<lceil>T\<rceil> - 1 + int l + int m)"
    using run
  proof induction
    case morning
    then show ?case using t0 by simp
  next
    case (checked ps n l w env args kwargs k w')
    note ih = checked.IH
    have b: "of_int (day_trades d (ac_risk (pw_db w))) < T \<and> notional_ok k"
      using passed_below_limit[OF checked.hyps(3,4) d checked.hyps(5) T] ih t0 by linarith
    then have "day_trades d (ac_risk (pw_db w)) + 1 \<le> \<lceil>T\<rceil>" by (simp add: less_ceiling_iff add1_zle_eq)
    moreover have "day_trades d (ac_risk (pw_db w')) = day_trades d (ac_risk (pw_db w)) \<and> day_numeric d (ac_risk (pw_db w'))"
      using enforce_fail_closed_count[OF checked.hyps(3)] checked.hyps(4) d ih by simp
    ultimately show ?case using ih b checked.hyps(2) by simp
  next
    case (refused ps n l w env args kwargs e w')
    then show ?case using enforce_fail_closed_count[OF refused.hyps(2)] d by simp
  next
    case (ended ps a k qs n l w env r w')
    have "notional_ok k" using ended.IH by simp
    from place_checked_counts[OF ended.hyps(2,3) this] ended.IH
    show ?case by (cases "isl r"; cases "oe_attempt_error env") auto
  qed auto
  then show ?thesis by auto
qed

section \<open>A sample order\<close>

definition order_sample_env_vars :: "string \<Rightarrow> string option" where
  "order_sample_env_vars = map_of [(''CBP_EXECUTION_ARMED'', ''1''), (''CBP_MAX_TRADES_PER_DAY'', ''2''), (''CBP_MAX_DAILY_LOSS'', ''1''),
     (''CBP_MAX_DAILY_NOTIONAL'', ''9''), (''CBP_MAX_ORDER_NOTIONAL'', ''9'')]"

definition order_sample_exchange :: order_exchange where
  "order_sample_exchange = \<lparr>ox_id = ''gate'', ox_exchange_id = '''', ox_amount_to_precision = None, ox_price_to_precision = None,
     ox_key_permissions = (\<lambda>n. Inl (RuntimeError ''none'')), ox_balance = (\<lambda>n. Inr (JObj [(''free'', JObj [(''USDT'', JInt 9)])])),
     ox_create_order = (\<lambda>y t s a p d. Inr (JObj [(''id'', JStr ''x1'')]))\<rparr>"

definition order_sample_env :: order_env where
  "order_sample_env = \<lparr>oe_env = order_sample_env_vars, oe_now = ''n'', oe_today = ''d'', oe_time = Fin 0, oe_flag_error = None,
     oe_health_error = None, oe_health = (health_sample empty_account)\<lparr>hs_live := None\<rparr>,
     oe_killswitch = Inr (killswitch_module (Some (Inr (JObj [(''armed'', JBool False)]))) (Inr empty_gate_db)), oe_ops_gate = None,
     oe_snapshot_error = None, oe_prereq_error = None, oe_rules_error = None, oe_fetchers = sample_fetchers (Inr sample_rules),
     oe_exchange = order_sample_exchange, oe_attempt_error = None\<rparr>"

definition order_sample_world :: order_world where
  "order_sample_world = \<lparr>pw_db = empty_account, pw_cache = cache_upsert (Fin 0) sample_rules [], pw_created = []\<rparr>"

definition order_sample_args :: "json list" where
  "order_sample_args = [JStr ''BTC/USDT'', JStr ''limit'', JStr ''buy'', JFloat (Fin 1), JFloat (Fin 5), JObj []]"

definition order_sample_checked :: checked_order where
  "order_sample_checked = \<lparr>ck_amount = Fin 1, ck_price = Some (Fin 5), ck_notional = Some 5,
     ck_limits = \<lparr>ol_max_trades = Fin 2, ol_max_loss = Fin (- 1), ol_max_daily_notional = Fin 9, ol_max_order_notional = Fin 9\<rparr>\<rparr>"

definition order_sample_parsed :: order_args where
  "order_sample_parsed = \<lparr>oa_symbol = ''BTC/USDT'', oa_type = ''limit'', oa_side = ''buy'', oa_amount = JFloat (Fin 1), oa_price = JFloat (Fin 5), oa_params = []\<rparr>"

lemma order_sample_parsed: "extract_create_order_args order_sample_args [] = order_sample_parsed"
  by (simp add: extract_create_order_args_def order_sample_args_def order_sample_parsed_def Let_def jget_def)

lemma order_sample_numbers:
  "float_of_text (strip ''1'') = Some (Fin 1)" "float_of_text (strip ''2'') = Some (Fin 2)" "float_of_text (strip ''9'') = Some (Fin 9)"
  "num_of_float (Fin 1) = NumFin 1" "num_of_float (Fin 5) = NumFin 5" "num_of_float (Fin 9) = NumFin 9" "num_of_float (Fin 0) = NumFin 0"
  "rnd28 5 = 5" "rnd28 (5 * rnd28 (201 / 200)) = 201 / 40"
  by code_simp+

lemma order_sample_floats: "mk_float 5 = Fin 5" "mk_float 9 = Fin 9"
  using mk_float_of_int[of 5] mk_float_of_int[of 9] by simp_all

lemma order_sample_vars:
  "order_sample_env_vars ''CBP_KILL_SWITCH'' = None" "order_sample_env_vars ''CBP_KILLSWITCH_FAIL_CLOSED'' = None"
  "order_sample_env_vars ''CBP_EXECUTION_ARMED'' = Some ''1''" "order_sample_env_vars ''CBP_OPS_RISK_GATE_ENFORCE'' = None"
  "order_sample_env_vars ''CBP_MAX_TRADES_PER_DAY'' = Some ''2''" "order_sample_env_vars ''CBP_MAX_DAILY_LOSS'' = Some ''1''"
  "order_sample_env_vars ''CBP_MAX_DAILY_NOTIONAL'' = Some ''9''" "order_sample_env_vars ''CBP_MAX_ORDER_NOTIONAL'' = Some ''9''"
  "order_sample_env_vars ''CBP_FUNDING_FEE_BUFFER_FRACTION'' = None" "order_sample_env_vars ''CBP_MARKET_RULES_TTL_S'' = None"
  by (simp_all add: order_sample_env_vars_def)

lemma order_sample_env_fields:
  "oe_env order_sample_env = order_sample_env_vars" "oe_now order_sample_env = ''n''" "oe_today order_sample_env = ''d''"
  "oe_time order_sample_env = Fin 0" "oe_exchange order_sample_env = order_sample_exchange" "oe_ops_gate order_sample_env = None"
  "oe_snapshot_error order_sample_env = None" "oe_prereq_error order_sample_env = None" "oe_rules_error order_sample_env = None"
  "oe_fetchers order_sample_env = sample_fetchers (Inr sample_rules)"
  by (simp_all add: order_sample_env_def)

lemma order_sample_limits:
  "order_limits_of order_sample_env_vars = Inr (ck_limits order_sample_checked)"
proof -
  have s: "strip ''1'' \<noteq> ''''" "strip ''2'' \<noteq> ''''" "strip ''9'' \<noteq> ''''" by code_simp+
  show ?thesis
    by (simp add: order_limits_of_def require_env_float_def order_sample_vars s order_sample_numbers order_sample_checked_def normalize_loss_limit_def)
qed

lemma order_sample_killswitch: "\<not> killswitch_state order_sample_env_vars (Fin 0) (oe_killswitch order_sample_env)"
  by (simp add: killswitch_state_def order_sample_vars env_truthy_def order_sample_env_def killswitch_module_def killswitch_is_on_def
      admin_kill_state_def admin_armed_def killswitch_on_def empty_gate_db_def probe_is_on_def probe_snapshot_def killswitch_snapshot_def
      jget_def jor_def float_or_none_def)

lemma order_sample_health: "enforce_system_health order_sample_env order_sample_world = Inr ()"
  by (simp add: enforce_system_health_def order_sample_env_def get_system_health_def check_halt_flag_def health_risk_sink_flag_def
      check_accounting_invariant_def check_live_trading_vs_canonical_def health_sample_def order_sample_world_def empty_account_def
      empty_exec_store_def opt_list_def Let_def)

lemma order_sample_parse:
  "parse_order_amount (JFloat (Fin 1)) = Inr (Fin 1)" "parse_order_price (JFloat (Fin 5)) t = Inr (Some (Fin 5))"
  by (simp_all add: parse_order_amount_def parse_order_price_def mk_float_small order_sample_floats Let_def)

lemma order_sample_static: "enforce_static order_sample_env order_sample_parsed order_sample_world = Inr order_sample_checked"
proof -
  have a: "is_armed order_sample_env_vars"
  proof -
    have "lower (strip ''1'') = ''1''" by code_simp
    then show ?thesis by (simp add: is_armed_def order_sample_vars env_truthy_def)
  qed
  have f: "check_risk_sink_flag order_sample_env order_sample_world = Inr ()"
    by (simp add: check_risk_sink_flag_def order_sample_world_def empty_account_def)
  have g: "enforce_ops_risk_gate order_sample_env_vars None p = Inr ()" for p
    by (simp add: enforce_ops_risk_gate_def order_sample_vars env_truthy_def)
  have n: "normalize_order_precision order_sample_exchange y t (Fin 1) (Some (Fin 5)) = Inr (Fin 1, Some (Fin 5))" for y t
    by (simp add: normalize_order_precision_def price_json_def order_sample_parse apply_precision_def order_sample_exchange_def)
  have e: "notional_of (Fin 1) (Some (Fin 5)) = Inr (Some 5)"
    by (simp add: notional_of_def estimate_order_notional_def decimal_product_def order_sample_numbers decimal_value_def)
  show ?thesis
    using a order_sample_killswitch
    by (simp add: enforce_static_def f order_sample_health order_sample_parsed_def order_sample_parse order_sample_env_fields guard_def g
        order_sample_limits n e del: obind_Inr guard_Inr)
      (simp add: order_sample_checked_def decimal_order_value_def order_sample_numbers decimal_value_def)
qed

lemma order_sample_funding:
  "enforce_funding_gate order_sample_env_vars order_sample_exchange ''BTC/USDT'' ''buy'' ''limit'' (Fin 1) (Some (Fin 5)) = Inr ()"
proof -
  have s: "split_symbol ''BTC/USDT'' = Some (''BTC'', ''USDT'')" "lower (strip ''buy'') = ''buy''" "upper ''USDT'' = ''USDT''"
    "strip (lower ''gate'') = ''gate''" by code_simp+
  have b: "extract_spendable_balance order_sample_exchange (JObj [(''free'', JObj [(''USDT'', JInt 9)])]) ''USDT'' = Inr (Fin 9)"
    by (simp add: extract_spendable_balance_def balance_cell_def get_or_def attr_get_def jor_def jget_def s float_or_none_def order_sample_floats Let_def
        order_sample_exchange_def exchange_name_def str_or_def)
  show ?thesis
    by (simp add: enforce_funding_gate_def order_sample_parse price_json_def s funding_required_def estimate_funding_required_def
        estimate_order_notional_def decimal_product_def order_sample_numbers decimal_value_def funding_fee_buffer_decimal_def order_sample_vars
        order_sample_exchange_def[THEN arg_cong, of ox_balance] b raised_def guard_def)
qed

lemma order_sample_rules:
  "enforce_rules order_sample_env ''BTC/USDT'' order_sample_checked (cache_upsert (Fin 0) sample_rules []) =
     (Inr (), cache_upsert (Fin 0) sample_rules [])"
proof -
  have v: "venue_norm_for_market_rules order_sample_env_vars order_sample_exchange = Inr ''gate''"
  proof -
    have "lower (strip ''gate'') = ''gate''" by code_simp
    then show ?thesis by (simp add: venue_norm_for_market_rules_def order_sample_exchange_def Let_def)
  qed
  have c: "cache_upsert (Fin 0) sample_rules [] =
      [\<lparr>mc_venue = ''gate'', mc_symbol = ''BTC-USDT'', mc_updated_ts = Fin 0, mc_rules = sample_rules\<rparr>]"
    by (simp add: cache_upsert_def sample_rules_def Let_def select_key_def)
  have z: "fsub (Fin 0) (Fin 0) = Fin 0" by (simp add: fsub_def mk_float_small)
  have k: "strip (lower ''gate'') = ''gate''" "canonicalize ''BTC-USDT'' = ''BTC-USDT''" "strip (upper ''BTC-USDT'') = ''BTC-USDT''"
    using sample_lookup by (simp_all add: lookup_normal_def)
  have cs: "canonicalize ''BTC/USDT'' = ''BTC-USDT''"
  proof -
    have "upper (strip ''BTC/USDT'') = ''BTC/USDT''" by code_simp
    then show ?thesis by (simp add: canonicalize_def underscore_def slash_def dash_def collapse_id)
  qed
  have step: "decimal_step_ok (NumFin 1) (NumFin 1) = Inr True" by code_simp
  have al: "rules_allow sample_rules (Some (NumFin 1)) (Some (NumFin 5)) = Inr RULES_OK"
    by (simp add: rules_allow_def sample_rules_def check_min_notional_def check_qty_def check_min_qty_def check_qty_step_def decimal_value_def step)
  have "validate (sample_fetchers (Inr sample_rules)) (Fin 0) (Fin 0) ''gate'' ''BTC/USDT'' (Some (NumFin 1)) (Some (NumFin 5)) (Fin 21600)
      (cache_upsert (Fin 0) sample_rules []) = (Inr RULES_OK, cache_upsert (Fin 0) sample_rules [])"
    by (simp add: validate_def Let_def k cs get_rules_def is_fresh_def cache_get_def lookup_key_def c select_key_Cons rules_key_def z al)
  moreover have "fst (check_market_rules_prereq None (Fin 0) (Fin 21600) (cache_upsert (Fin 0) sample_rules []))"
    by (simp add: check_market_rules_prereq_def any_fresh_def c z)
  ultimately show ?thesis
    by (simp add: enforce_rules_def order_sample_env_fields v rules_ttl_def order_sample_vars truthy_def guard_def order_sample_checked_def
        order_sample_numbers order_sample_floats)
qed

lemma order_sample_placed:
  "\<exists>w'. place_order order_sample_env order_sample_args [] order_sample_world = (Inr (JObj [(''id'', JStr ''x1'')]), w') \<and>
     pw_created w' = [created_of order_sample_parsed order_sample_checked]"
proof -
  obtain s risk where s: "risk_snapshot_today ''n'' ''d'' empty_risk_db = (Some s, risk)" "rs_corrupt_fields s = []" "rs_notional s = Fin 0"
      "rs_trades s = 0" "rs_pnl s = Fin 0"
    by (simp add: risk_snapshot_today_def risk_get_def ensure_day_conn_def get_day_conn_def empty_risk_db_def opt_str_or_def select_key_def
        snapshot_of_row_def finite_nonnegative_int_field_def finite_float_field_def mk_float_small trunc_rat_def opt_list_def fsub_def Let_def)
  have z: "rnd28 5 = 5" using order_sample_numbers by simp
  have d: "enforce_daily (ck_limits order_sample_checked) (ck_notional order_sample_checked) s = Inr ()"
    by (simp add: enforce_daily_def s guard_def decimal_order_value_def order_sample_numbers decimal_value_def order_sample_checked_def
        mk_float_small z del: obind_Inr guard_Inr)
  have w: "ac_risk (pw_db order_sample_world) = empty_risk_db" "pw_cache order_sample_world = cache_upsert (Fin 0) sample_rules []"
    "pw_created order_sample_world = []"
    by (simp_all add: order_sample_world_def empty_account_def)
  have p: "oa_symbol order_sample_parsed = ''BTC/USDT''" "oa_side order_sample_parsed = ''buy''" "oa_type order_sample_parsed = ''limit''"
    by (simp_all add: order_sample_parsed_def)
  have k: "ck_amount order_sample_checked = Fin 1" "ck_price order_sample_checked = Some (Fin 5)" by (simp_all add: order_sample_checked_def)
  have g: "enforce_coinbase_quote_account_available order_sample_exchange y = Inr ()" for y
  proof -
    have "lower ''gate'' = ''gate''" by code_simp
    then show ?thesis by (simp add: enforce_coinbase_quote_account_available_def order_sample_exchange_def exchange_name_def str_or_def)
  qed
  obtain w1 where e: "enforce_fail_closed order_sample_env order_sample_parsed order_sample_world = (Inr order_sample_checked, w1)" "pw_created w1 = []"
    by (simp add: enforce_fail_closed_def order_sample_static order_sample_env_fields w s(1) d p order_sample_rules)
  have c: "ox_create_order order_sample_exchange y t b a q m = Inr (JObj [(''id'', JStr ''x1'')])" for y t b a q m
    by (simp add: order_sample_exchange_def)
  show ?thesis
    by (simp add: place_order_def order_sample_parsed e g order_sample_env_fields p k order_sample_funding place_checked_def submit_order_def c Let_def)
qed

theorem created_order_passed_all_gates_witness:
  "\<exists>(k :: checked_order) s. ol_max_trades (ck_limits k) = Fin 2 \<and> fst (risk_snapshot_today ''n'' ''d'' empty_risk_db) = Some s \<and>
     \<not> fle (Fin 2) (mk_float (of_int (rs_trades s))) \<and> within_notional_limits (ck_limits k) (ck_amount k) (ck_price k) (rs_notional s)"
proof -
  obtain w' where w': "place_order order_sample_env order_sample_args [] order_sample_world = (Inr (JObj [(''id'', JStr ''x1'')]), w')"
    "pw_created w' = [created_of order_sample_parsed order_sample_checked]" using order_sample_placed by blast
  have n: "pw_created w' \<noteq> pw_created order_sample_world" using w'(2) by (simp add: order_sample_world_def)
  have r: "ac_risk (pw_db order_sample_world) = empty_risk_db" by (simp add: order_sample_world_def empty_account_def)
  from created_order_passed_all_gates[OF w'(1) n]
  obtain k :: checked_order and s where ks: "order_limits_of order_sample_env_vars = Inr (ck_limits k)" "fst (risk_snapshot_today ''n'' ''d'' empty_risk_db) = Some s"
      "\<not> fle (ol_max_trades (ck_limits k)) (mk_float (of_int (rs_trades s)))"
      "within_notional_limits (ck_limits k) (ck_amount k) (ck_price k) (rs_notional s)"
    unfolding order_sample_env_fields r by (elim exE conjE) (rule that)
  have "ck_limits k = ck_limits order_sample_checked" using ks(1) order_sample_limits by simp
  then have "ol_max_trades (ck_limits k) = Fin 2" by (simp add: order_sample_checked_def)
  with ks show ?thesis by auto
qed

theorem orders_per_day_capped_witness:
  "\<exists>w'. day_run ''d'' 2 1 order_sample_world [] 1 0 w' \<and> day_trades ''d'' (ac_risk (pw_db order_sample_world)) + 1 \<le> 2"
proof -
  obtain w' where w': "place_order order_sample_env order_sample_args [] order_sample_world = (Inr (JObj [(''id'', JStr ''x1'')]), w')"
    using order_sample_placed by blast
  have lim: "oe_today order_sample_env = ''d''"
    "\<forall>lm. order_limits_of (oe_env order_sample_env) = Inr lm \<longrightarrow> fle (ol_max_trades lm) (Fin 2)"
    by (simp_all add: order_sample_env_fields order_sample_limits order_sample_checked_def)
  have none: "oe_attempt_error order_sample_env = None" by (simp add: order_sample_env_def)
  have run: "day_run ''d'' 2 1 order_sample_world [] 1 0 w'"
    using day_run_place_order[OF day_run.morning _ w' lim, where m = 1] none by simp
  have t: "day_trades ''d'' (ac_risk (pw_db order_sample_world)) = 0" "day_numeric ''d'' (ac_risk (pw_db order_sample_world))"
    by (simp_all add: day_trades_def day_numeric_def order_sample_world_def empty_account_def empty_risk_db_def select_key_def)
  show ?thesis using orders_per_day_capped[OF run] run t by auto
qed

section \<open>The kill switch behind the gate\<close>

text \<open>C38. With \<open>CBP_KILLSWITCH_FAIL_CLOSED\<close> unset the gate means an unreadable kill switch to be on: it is on when the module cannot be
  loaded or raises. But the module catches the exceptions of its own database, so when the admin switch is disarmed and the database that
  holds the execution kill switch cannot be read, the gate reads off.\<close>

theorem killswitch_db_error_reads_off:
  assumes "\<not> env_truthy (env ''CBP_KILL_SWITCH'')" "env ''CBP_KILLSWITCH_FAIL_CLOSED'' = None" "fle (Fin 0) now"
  shows "killswitch_state env now (Inl e) \<and> killswitch_state env now (Inr \<lparr>kp_is_on = Some (Inl e), kp_snapshot = p\<rparr>) \<and>
    \<not> killswitch_state env now (Inr (killswitch_module (Some (Inr (JObj [(''armed'', JBool False)]))) (Inl e)))"
  using assms
  by (cases now; simp add: killswitch_state_def killswitch_module_def killswitch_is_on_def killswitch_fail_closed_def
      admin_kill_state_def admin_armed_def probe_is_on_def probe_snapshot_def killswitch_snapshot_def
      jget_def jor_def float_or_none_def)

theorem killswitch_db_error_reads_off_witness:
  "\<not> killswitch_state order_sample_env_vars (Fin 0) (Inr (killswitch_module (Some (Inr (JObj [(''armed'', JBool False)]))) (Inl (RuntimeError ''disk''))))"
  using killswitch_db_error_reads_off[of order_sample_env_vars "Fin 0" "RuntimeError ''disk''"] by (simp add: order_sample_vars env_truthy_def)

end
