(* ===== verification/Retry_Loop.thy ===== *)
theory Retry_Loop
  imports Py_Json
begin

text \<open>
  services/execution/retry\_policy.py, which exceptions may be retried and how long to wait, and
  services/execution/fill\_confirmation.py, the loop that polls an order until it is final. Both loops of the
  submission path (this one and the one of \<open>Order_Router\<close>) are \<open>repeat_step\<close> of a step function: \<open>None\<close> would mean that the loop
  never returns. The locale \<open>ranked_loop\<close> is the argument that they do.

  The class hierarchy of the ccxt package, which is not part of the repository, is the parameter \<open>isa\<close>: whether
  an exception is an instance of the class of that name. Random jitter and the clock are parameters too.
\<close>

section \<open>Loops with a rank\<close>

partial_function (option) repeat_step :: "('s \<Rightarrow> 'r + 's) \<Rightarrow> 's \<Rightarrow> 'r option" where
  "repeat_step f s = (case f s of Inl r \<Rightarrow> Some r | Inr s' \<Rightarrow> repeat_step f s')"

lemma repeat_step_simps:
  "f s = Inl r \<Longrightarrow> repeat_step f s = Some r" "f s = Inr s' \<Longrightarrow> repeat_step f s = repeat_step f s'"
  by (subst repeat_step.simps, simp)+

locale ranked_loop =
  fixes step :: "'s \<Rightarrow> 'r + 's" and inv :: "'s \<Rightarrow> bool" and rank :: "'s \<Rightarrow> nat"
  assumes inv_step: "inv s \<Longrightarrow> step s = Inr s' \<Longrightarrow> inv s'"
    and rank_step: "inv s \<Longrightarrow> step s = Inr s' \<Longrightarrow> rank s' < rank s"
begin

text \<open>The loop returns, and what it returns comes from a last step out of a state with the invariant.\<close>

lemma exits: "inv s \<Longrightarrow> \<exists>r s'. inv s' \<and> step s' = Inl r \<and> repeat_step step s = Some r"
proof (induction "rank s" arbitrary: s rule: less_induct)
  case less
  show ?case
  proof (cases "step s")
    case (Inl r)
    show ?thesis by (intro exI[of _ r] exI[of _ s] conjI less.prems Inl repeat_step_simps(1))
  next
    case (Inr s')
    then show ?thesis
      using less.hyps[OF rank_step[OF less.prems Inr] inv_step[OF less.prems Inr]] repeat_step_simps(2)[of step s s'] by simp
  qed
qed

lemma returns: "inv s \<Longrightarrow> \<exists>r. repeat_step step s = Some r"
  using exits by blast

lemma result: "inv s \<Longrightarrow> repeat_step step s = Some r \<Longrightarrow> \<exists>s'. inv s' \<and> step s' = Inl r"
  using exits[of s] by auto

end

section \<open>Which exceptions may be retried\<close>

fun exc_name :: "exn \<Rightarrow> string" where
  "exc_name (ValueError _) = ''ValueError''"
| "exc_name (TypeError _) = ''TypeError''"
| "exc_name (KeyError _) = ''KeyError''"
| "exc_name (IndexError _) = ''IndexError''"
| "exc_name (AttributeError _) = ''AttributeError''"
| "exc_name (RuntimeError _) = ''RuntimeError''"
| "exc_name (IntegrityError _) = ''IntegrityError''"
| "exc_name InvalidOperation = ''InvalidOperation''"
| "exc_name ZeroDivisionError = ''ZeroDivisionError''"
| "exc_name OverflowError = ''OverflowError''"
| "exc_name (OtherError name _) = name"

record exc_classes =
  xc_ccxt :: bool
  xc_isa :: "string \<Rightarrow> exn \<Rightarrow> bool"

definition fatal_ccxt :: "string list" where
  "fatal_ccxt = [''InsufficientFunds'', ''InvalidOrder'', ''AuthenticationError'', ''BadRequest'', ''ArgumentsRequired'', ''NotSupported'', ''InvalidNonce'']"

definition fatal_type_names :: "string list" where
  "fatal_type_names = [''insufficientfunds'', ''invalidorder'', ''ordernotfound'', ''badrequest'', ''badsymbol'', ''authenticationerror'',
     ''permissiondenied'', ''accountsuspended'', ''argumentsrequired'', ''invalidnonce'', ''notsupported'']"

definition transient_type_names :: "string list" where
  "transient_type_names = [''networkerror'', ''requesttimeout'', ''exchangenotavailable'', ''onmaintenance'', ''ddosprotection'',
     ''ratelimitexceeded'', ''connecttimeout'', ''readtimeout'', ''readtimeouterror'', ''connecttimeouterror'']"

definition is_retryable_exception :: "exc_classes \<Rightarrow> exn \<Rightarrow> bool" where
  "is_retryable_exception xc e =
     (if xc_ccxt xc \<and> list_ex (\<lambda>n. xc_isa xc n e) fatal_ccxt then False
      else if xc_ccxt xc \<and> xc_isa xc ''NetworkError'' e then True
      else if xc_ccxt xc \<and> xc_isa xc ''BaseError'' e then False
      else if xc_isa xc ''ConnectionError'' e \<or> xc_isa xc ''TimeoutError'' e then True
      else (let name = lower (exc_name e)
            in if name \<in> set fatal_type_names then False else name \<in> set transient_type_names))"

text \<open>The deterministic part of the wait; \<open>2 ** a\<close> is an unbounded integer whose conversion can overflow.\<close>

definition backoff_delay :: "nat \<Rightarrow> pyfloat \<Rightarrow> pyfloat \<Rightarrow> exn + pyfloat" where
  "backoff_delay attempt base_delay max_delay =
     (let base = pymax (mk_float (1 / 20)) base_delay; cap = pymax base max_delay
      in case mk_float (2 ^ attempt) of
           Fin p \<Rightarrow> Inr (pymin cap (fmul base (Fin p)))
         | _ \<Rightarrow> Inl OverflowError)"

text \<open>\<open>uniform hi\<close> is the answer of \<open>random.uniform(0.0, hi)\<close>.\<close>

definition backoff_sleep :: "(pyfloat \<Rightarrow> pyfloat) \<Rightarrow> nat \<Rightarrow> pyfloat \<Rightarrow> pyfloat \<Rightarrow> exn + pyfloat" where
  "backoff_sleep uniform attempt base_delay max_delay =
     (case backoff_delay attempt base_delay max_delay of
        Inl e \<Rightarrow> Inl e
      | Inr delay \<Rightarrow> Inr (fadd delay (uniform (pymin (Fin (1 / 4)) (fmul delay (mk_float (3 / 20)))))))"

section \<open>Waiting for an order to become final\<close>

record wait_env =
  we_clock :: "nat \<Rightarrow> pyfloat"
  we_fetch :: "nat \<Rightarrow> exn + json"
  we_uniform :: "nat \<Rightarrow> pyfloat \<Rightarrow> pyfloat"
  we_classes :: exc_classes
  we_timeout :: pyfloat
  we_poll :: pyfloat

record wait_state =
  ws_attempts :: nat
  ws_last :: json
  ws_slept :: "pyfloat list"

datatype wait_result =
    WaitFinal json nat
  | WaitError exn nat json
  | WaitTimeout nat json
  | WaitRaised exn

definition order_norm_status :: "json \<Rightarrow> exn + string" where
  "order_norm_status ord =
     (case ord of JObj d \<Rightarrow> Inr (strip (lower (json_str (jor (jget ''status'' d) (JStr ''''))))) | _ \<Rightarrow> Inl (AttributeError ''get''))"

text \<open>\<open>time.sleep\<close> refuses a negative or non-finite number.\<close>

definition sleep_for :: "pyfloat \<Rightarrow> exn + pyfloat" where
  "sleep_for x =
     (case x of Fin q \<Rightarrow> if q < 0 then Inl (ValueError ''sleep'') else Inr x
      | PInf \<Rightarrow> Inl OverflowError | NInf \<Rightarrow> Inl (ValueError ''sleep'') | NaN \<Rightarrow> Inl (ValueError ''sleep''))"

definition wait_poll :: "wait_env \<Rightarrow> wait_state \<Rightarrow> wait_result + wait_state" where
  "wait_poll env s =
     (case sleep_for (we_poll env) of Inl e \<Rightarrow> Inl (WaitRaised e) | Inr x \<Rightarrow> Inr (s\<lparr>ws_slept := ws_slept s @ [x]\<rparr>))"

definition wait_failed :: "wait_env \<Rightarrow> exn \<Rightarrow> wait_state \<Rightarrow> wait_result + wait_state" where
  "wait_failed env e s =
     (if is_retryable_exception (we_classes env) e then
        (case backoff_sleep (we_uniform env (ws_attempts s)) (ws_attempts s - 1) (mk_float (1 / 5)) (Fin 2) of
           Inl e' \<Rightarrow> Inl (WaitRaised e')
         | Inr d \<Rightarrow> (case sleep_for d of Inl e' \<Rightarrow> Inl (WaitRaised e') | Inr x \<Rightarrow> wait_poll env (s\<lparr>ws_slept := ws_slept s @ [x]\<rparr>)))
      else Inl (WaitError e (ws_attempts s) (ws_last s)))"

text \<open>One turn: the clock is read for the condition, then the order is fetched.\<close>

definition wait_step :: "wait_env \<Rightarrow> wait_state \<Rightarrow> wait_result + wait_state" where
  "wait_step env s =
     (if fle (fsub (we_clock env (Suc (ws_attempts s))) (we_clock env 0)) (we_timeout env) then
        (let s1 = s\<lparr>ws_attempts := Suc (ws_attempts s)\<rparr>
         in case we_fetch env (ws_attempts s1) of
              Inl e \<Rightarrow> wait_failed env e s1
            | Inr ord \<Rightarrow>
                (let s2 = s1\<lparr>ws_last := ord\<rparr>
                 in case order_norm_status ord of
                      Inl e \<Rightarrow> wait_failed env e s2
                    | Inr st \<Rightarrow> if st = ''closed'' \<or> st = ''canceled'' then Inl (WaitFinal ord (ws_attempts s2)) else wait_poll env s2))
      else Inl (WaitTimeout (ws_attempts s) (ws_last s)))"

definition wait_for_order_final :: "wait_env \<Rightarrow> wait_result option" where
  "wait_for_order_final env = repeat_step (wait_step env) \<lparr>ws_attempts = 0, ws_last = JNull, ws_slept = []\<rparr>"

section \<open>The waits are bounded\<close>

lemma pymax_bounds: "x \<noteq> NaN \<Longrightarrow> y \<noteq> NaN \<Longrightarrow> fle x (pymax x y) \<and> fle y (pymax x y)"
  by (cases x; cases y) (auto simp: pymax_def)

lemma pymin_bounds: "x \<noteq> NaN \<Longrightarrow> y \<noteq> NaN \<Longrightarrow> fle (pymin x y) x \<and> (pymin x y = x \<or> pymin x y = y)"
  by (cases x; cases y) (auto simp: pymin_def)

lemma twentieth: "\<exists>q. mk_float (1 / 20) = Fin q \<and> 0 < q"
proof -
  have "flt (Fin 0) (mk_float (1 / 20))" by (rule mk_float_positive[of 5]) simp_all
  moreover have "fle (mk_float (1 / 20)) (mk_float 1)" by (rule mk_float_mono) simp
  moreover have "mk_float 1 = Fin 1" using mk_float_of_int[of 1] by simp
  ultimately show ?thesis by (cases "mk_float (1 / 20)") auto
qed

lemma backoff_delay_bounds:
  assumes b: "isfinite base_delay" "isfinite max_delay" and d: "backoff_delay a base_delay max_delay = Inr d"
  shows "fle (mk_float (1 / 20)) d \<and> fle d (pymax (pymax (mk_float (1 / 20)) base_delay) max_delay)"
proof -
  obtain q where q: "mk_float (1 / 20) = Fin q" "0 < q" using twentieth by blast
  obtain x y where xy: "base_delay = Fin x" "max_delay = Fin y" using b by (cases base_delay; cases max_delay) auto
  have base: "pymax (Fin q) (Fin x) = Fin (max q x)" by (simp add: pymax_def max_def)
  have cap: "pymax (Fin (max q x)) (Fin y) = Fin (max (max q x) y)" by (simp add: pymax_def max_def)
  obtain p where p: "mk_float (2 ^ a) = Fin p" "d = pymin (Fin (max (max q x) y)) (fmul (Fin (max q x)) (Fin p))"
    using d by (auto simp: backoff_delay_def q xy base cap Let_def split: pyfloat.splits)
  have "fle (mk_float 1) (mk_float (2 ^ a))" by (rule mk_float_mono) simp
  then have p1: "1 \<le> p" using p(1) mk_float_of_int[of 1] by simp
  have "q * 1 \<le> max q x * p" using q(2) p1 by (intro mult_mono) auto
  then have "fle (mk_float q) (mk_float (max q x * p))" by (intro mk_float_mono) simp
  moreover have "mk_float q = Fin q" using wf_mk_float[of "1 / 20"] q(1) mk_float_exact by simp
  ultimately have low: "fle (Fin q) (fmul (Fin (max q x)) (Fin p))" by simp
  then have "fmul (Fin (max q x)) (Fin p) \<noteq> NaN" by (cases "fmul (Fin (max q x)) (Fin p)") auto
  then have "fle d (Fin (max (max q x) y)) \<and> (d = Fin (max (max q x) y) \<or> d = fmul (Fin (max q x)) (Fin p))"
    using pymin_bounds[of "Fin (max (max q x) y)" "fmul (Fin (max q x)) (Fin p)"] p(2) by simp
  then show ?thesis using low by (auto simp: q xy base cap)
qed

section \<open>The wait returns\<close>

text \<open>From the \<open>N\<close>-th reading on the clock is past the deadline.\<close>

definition deadline_by :: "wait_env \<Rightarrow> nat \<Rightarrow> bool" where
  "deadline_by env N \<longleftrightarrow> (\<forall>n \<ge> N. \<not> fle (fsub (we_clock env n) (we_clock env 0)) (we_timeout env))"

fun wait_attempts :: "wait_result \<Rightarrow> nat" where
  "wait_attempts (WaitFinal _ n) = n"
| "wait_attempts (WaitError _ n _) = n"
| "wait_attempts (WaitTimeout n _) = n"
| "wait_attempts (WaitRaised _) = 0"

lemma wait_poll_attempts:
  "wait_poll env s = Inr s' \<Longrightarrow> ws_attempts s' = ws_attempts s" "wait_poll env s = Inl r \<Longrightarrow> wait_attempts r = 0"
  by (auto simp: wait_poll_def split: sum.splits)

lemma wait_failed_attempts:
  "wait_failed env e s = Inr s' \<Longrightarrow> ws_attempts s' = ws_attempts s" "wait_failed env e s = Inl r \<Longrightarrow> wait_attempts r \<le> ws_attempts s"
  by (auto simp: wait_failed_def dest: wait_poll_attempts split: if_splits sum.splits)

lemma wait_step_attempts:
  "wait_step env s = Inr s' \<Longrightarrow> ws_attempts s' = Suc (ws_attempts s) \<and>
     fle (fsub (we_clock env (Suc (ws_attempts s))) (we_clock env 0)) (we_timeout env)"
  by (auto simp: wait_step_def Let_def dest: wait_poll_attempts wait_failed_attempts split: if_splits sum.splits)

lemma wait_step_result:
  assumes "wait_step env s = Inl r"
  shows "wait_attempts r \<le> ws_attempts s \<or>
    wait_attempts r \<le> Suc (ws_attempts s) \<and> fle (fsub (we_clock env (Suc (ws_attempts s))) (we_clock env 0)) (we_timeout env)"
  using assms by (auto simp: wait_step_def Let_def dest: wait_poll_attempts(2) wait_failed_attempts(2) split: if_splits sum.splits)

interpretation wait: ranked_loop "wait_step env" "\<lambda>s. deadline_by env N \<and> ws_attempts s < N" "\<lambda>s. N - ws_attempts s" for env N
proof
  fix s s'
  assume s: "deadline_by env N \<and> ws_attempts s < N" "wait_step env s = Inr s'"
  have "\<not> N \<le> Suc (ws_attempts s)" using wait_step_attempts[OF s(2)] s(1) unfolding deadline_by_def by blast
  then show "deadline_by env N \<and> ws_attempts s' < N" "N - ws_attempts s' < N - ws_attempts s"
    using wait_step_attempts[OF s(2)] s(1) by auto
qed

text \<open>The wait for an order to become final returns. Whatever the exchange answers or raises at each poll, once the clock has
  passed the deadline by its \<open>N\<close>-th reading the loop has returned, after fewer than \<open>N\<close> polls that it reports, \<open>N\<close> being at least one.\<close>

theorem wait_for_order_returns:
  assumes "deadline_by env N" "0 < N"
  shows "\<exists>r. wait_for_order_final env = Some r \<and> wait_attempts r < N"
proof -
  obtain r s where r: "deadline_by env N \<and> ws_attempts s < N" "wait_step env s = Inl r" "wait_for_order_final env = Some r"
    using wait.exits[of env N "\<lparr>ws_attempts = 0, ws_last = JNull, ws_slept = []\<rparr>"] assms by (auto simp: wait_for_order_final_def)
  have "wait_attempts r < N"
  proof (rule ccontr)
    assume "\<not> wait_attempts r < N"
    then have "N \<le> Suc (ws_attempts s)" "fle (fsub (we_clock env (Suc (ws_attempts s))) (we_clock env 0)) (we_timeout env)"
      using wait_step_result[OF r(2)] r(1) by auto
    then show False using r(1) unfolding deadline_by_def by blast
  qed
  then show ?thesis using r(3) by blast
qed

text \<open>An order that stays open, polled every second with a timeout of two.\<close>

definition wait_sample :: wait_env where
  "wait_sample = \<lparr>we_clock = (\<lambda>n. Fin (of_nat n)), we_fetch = (\<lambda>n. Inr (JObj [(''status'', JStr ''open'')])), we_uniform = (\<lambda>n hi. Fin 0),
     we_classes = \<lparr>xc_ccxt = True, xc_isa = (\<lambda>c e. False)\<rparr>, we_timeout = Fin 2, we_poll = Fin 1\<rparr>"

theorem wait_for_order_returns_witness: "\<exists>r. wait_for_order_final wait_sample = Some r \<and> wait_attempts r < 3"
proof (rule wait_for_order_returns)
  have "\<not> fle (fsub (Fin (of_nat n)) (Fin 0)) (Fin 2)" if "3 \<le> n" for n
  proof -
    have "fle (mk_float (of_int 3)) (mk_float (of_nat n))" using that by (intro mk_float_mono) simp
    then have "fle (Fin 3) (mk_float (of_nat n))" using mk_float_of_int[of 3] by simp
    then have "\<not> fle (mk_float (of_nat n)) (Fin 2)" by (cases "mk_float (of_nat n :: rat)") auto
    then show ?thesis by (simp add: fsub_def)
  qed
  then show "deadline_by wait_sample 3" by (simp add: deadline_by_def wait_sample_def)
qed simp

end
