(* ===== verification/Order_Router.thy ===== *)
theory Order_Router
  imports Place_Order Retry_Loop Exchange_Adapter
begin

text \<open>
  services/execution/order\_router.py with services/execution/order\_reconciliation.py,
  services/execution/venue\_capabilities.py and storage/idempotency\_sqlite.py: the submission of an order
  under an idempotency key. A recorded success answers every call that starts later; otherwise the order goes through the gates of
  \<open>Place_Order\<close>, and after a transient error it is submitted again only when the exchange, asked for the
  client order id, knows no such order. The \<open>while True\<close> of the code is \<open>repeat_step\<close>, whose answer \<open>None\<close> would mean
  that it never returns.

  The exchange of each attempt, the lookups, the jitter and the faults of the store are functions of the attempt's
  number. The idempotency table keeps a result as the JSON value its text encodes and an error as the exception.
  Closing the exchange is not modelled.
\<close>

section \<open>The idempotency store\<close>

record idem_row =
  ir_k :: string
  ir_status :: string
  ir_result :: json
  ir_error :: "order_error option"
  ir_updated_ts :: string

definition idem_get :: "string \<Rightarrow> idem_row list \<Rightarrow> idem_row option" where
  "idem_get key t = select_key ir_k key t"

text \<open>\<open>INSERT OR REPLACE\<close> deletes the old row and appends the new one.\<close>

definition idem_put :: "idem_row \<Rightarrow> idem_row list \<Rightarrow> idem_row list" where
  "idem_put r t = filter (\<lambda>r'. ir_k r' \<noteq> ir_k r) t @ [r]"

definition put_success :: "string \<Rightarrow> string \<Rightarrow> json \<Rightarrow> idem_row list \<Rightarrow> idem_row list" where
  "put_success now key result t =
     idem_put \<lparr>ir_k = key, ir_status = ''success'', ir_result = result, ir_error = None, ir_updated_ts = now\<rparr> t"

definition put_error :: "string \<Rightarrow> string \<Rightarrow> order_error \<Rightarrow> idem_row list \<Rightarrow> idem_row list" where
  "put_error now key e t =
     idem_put \<lparr>ir_k = key, ir_status = ''error'', ir_result = JNull, ir_error = Some e, ir_updated_ts = now\<rparr> t"

section \<open>Was the order placed?\<close>

record venue_capabilities =
  vc_venue :: string
  vc_supports_client_oid_lookup :: bool
  vc_idempotency_window_sec :: "int option"

definition venue_caps :: "venue_capabilities list" where
  "venue_caps =
     [\<lparr>vc_venue = ''binance'', vc_supports_client_oid_lookup = True, vc_idempotency_window_sec = Some 1800\<rparr>,
      \<lparr>vc_venue = ''coinbase'', vc_supports_client_oid_lookup = True, vc_idempotency_window_sec = None\<rparr>,
      \<lparr>vc_venue = ''gateio'', vc_supports_client_oid_lookup = True, vc_idempotency_window_sec = Some 1800\<rparr>]"

definition get_venue_capabilities :: "string \<Rightarrow> venue_capabilities option" where
  "get_venue_capabilities venue = select_key vc_venue (lower (strip venue)) venue_caps"

definition retry_is_safe_after_ambiguous_ack :: "string \<Rightarrow> bool \<Rightarrow> int option \<Rightarrow> bool" where
  "retry_is_safe_after_ambiguous_ack venue has_remote_order_id age_sec =
     (if has_remote_order_id then False
      else (case get_venue_capabilities venue of
              None \<Rightarrow> False
            | Some c \<Rightarrow>
                (if \<not> vc_supports_client_oid_lookup c then False
                 else (case vc_idempotency_window_sec c of
                         None \<Rightarrow> True
                       | Some win \<Rightarrow> (case age_sec of None \<Rightarrow> False | Some a \<Rightarrow> a \<le> win)))))"

datatype recon_outcome = confirmed_placed | confirmed_not_placed | inconclusive

text \<open>\<open>fetch\<close> is the answer of \<open>_fetch_order_compat\<close> for a remote order id, \<open>lookup\<close> that of the client's \<open>find_order_by_client_oid\<close>,
  which is an \<open>AttributeError\<close> for a client without that method.\<close>

definition reconcile_ambiguous_submission ::
    "(string \<Rightarrow> exn + json) \<Rightarrow> (string \<Rightarrow> exn + json) \<Rightarrow> string \<Rightarrow> string option \<Rightarrow> string option \<Rightarrow> int option \<Rightarrow> recon_outcome" where
  "reconcile_ambiguous_submission fetch lookup venue client_oid remote_order_id age_sec =
     (if truthy remote_order_id \<and> (case fetch (the remote_order_id) of Inl _ \<Rightarrow> False | Inr ord \<Rightarrow> jtruthy ord) then confirmed_placed
      else if truthy client_oid \<and> retry_is_safe_after_ambiguous_ack venue (truthy remote_order_id) age_sec then
        (case lookup (the client_oid) of
           Inl _ \<Rightarrow> inconclusive
         | Inr ord \<Rightarrow> if jtruthy ord then confirmed_placed else confirmed_not_placed)
      else inconclusive)"

section \<open>Configuration\<close>

definition bounded_float :: "json \<Rightarrow> pyfloat \<Rightarrow> pyfloat \<Rightarrow> pyfloat \<Rightarrow> pyfloat" where
  "bounded_float v dflt lo hi =
     (case json_float v of Inl _ \<Rightarrow> dflt | Inr x \<Rightarrow> if isfinite x then pymin hi (pymax lo x) else dflt)"

definition bounded_int :: "json \<Rightarrow> int \<Rightarrow> int \<Rightarrow> int \<Rightarrow> int" where
  "bounded_int v dflt lo hi =
     (case json_float v of
        Inr (Fin x) \<Rightarrow> trunc_rat (min (of_int hi) (max (of_int lo) x))
      | _ \<Rightarrow> dflt)"

record router_cfg =
  rc_max_order_retries :: int
  rc_base_retry_delay_sec :: pyfloat
  rc_max_retry_delay_sec :: pyfloat

definition router_cfg_of :: "dict \<Rightarrow> exn + router_cfg" where
  "router_cfg_of cfg =
     (case attr_get ''execution'' (jor (jget ''live_trading'' cfg) (JObj [])) of
        Inl e \<Rightarrow> Inl e
      | Inr ex0 \<Rightarrow>
          (case jor ex0 (JObj []) of
             JObj ex \<Rightarrow> Inr \<lparr>rc_max_order_retries = bounded_int (jget ''max_order_retries'' ex) 3 0 10,
               rc_base_retry_delay_sec = bounded_float (jget ''base_retry_delay_sec'' ex) (mk_float (3 / 5)) (mk_float (1 / 20)) (Fin 60),
               rc_max_retry_delay_sec = bounded_float (jget ''max_retry_delay_sec'' ex) (Fin 6) (mk_float (1 / 20)) (Fin 300)\<rparr>
           | _ \<Rightarrow> Inl (AttributeError ''get'')))"

section \<open>The router\<close>

record router_args =
  ra_venue :: string
  ra_symbol :: string
  ra_side :: string
  ra_type :: string
  ra_amount :: json
  ra_price :: json
  ra_key :: string
  ra_params :: dict
  ra_dry_run :: bool

record router_env =
  re_config :: dict
  re_now :: string
  re_classes :: exc_classes
  re_open_error :: "exn option"
  re_exchange_error :: "nat \<Rightarrow> exn option"
  re_order :: "nat \<Rightarrow> order_env"
  re_put_fault :: "nat \<Rightarrow> exn option"
  re_error_fault :: "exn option"
  re_find :: "nat \<Rightarrow> string \<Rightarrow> exn + json"
  re_uniform :: "nat \<Rightarrow> pyfloat \<Rightarrow> pyfloat"

record router_world =
  rt_orders :: order_world
  rt_idem :: "idem_row list"
  rt_slept :: "pyfloat list"

datatype router_result =
    RouterIdempotent json
  | RouterDryRun json
  | RouterOk json
  | RouterFailed order_error
  | RetryBlocked recon_outcome
  | RouterRaised order_error

text \<open>\<open>float(x)\<close> of an argument, \<open>None\<close> staying \<open>None\<close>.\<close>

definition float_arg :: "json \<Rightarrow> json guarded" where
  "float_arg v = (case json_float v of Inl e \<Rightarrow> Inl (Raised e) | Inr x \<Rightarrow> Inr (JFloat x))"

definition price_arg :: "json \<Rightarrow> json guarded" where
  "price_arg v = (if v = JNull then Inr JNull else float_arg v)"

text \<open>The signature of \<open>place_order\<close> is \<open>(ex, *args, **kwargs)\<close>: none of the names the fallback looks for is a parameter, so after a
  \<open>TypeError\<close> it calls \<open>place_order\<close> with the exchange alone.\<close>

definition place_order_ccxt :: "order_env \<Rightarrow> json list \<Rightarrow> order_world \<Rightarrow> json guarded \<times> order_world" where
  "place_order_ccxt env args w =
     (case place_order env args [] w of
        (Inl (Raised (TypeError _)), w1) \<Rightarrow> place_order env [] [] w1
      | x \<Rightarrow> x)"

text \<open>The body of the \<open>try\<close>, the \<open>n\<close>-th attempt.\<close>

definition router_attempt :: "router_env \<Rightarrow> router_args \<Rightarrow> nat \<Rightarrow> router_world \<Rightarrow> json guarded \<times> router_world" where
  "router_attempt env a n w =
     (case re_exchange_error env n of
        Some e \<Rightarrow> (Inl (Raised e), w)
      | None \<Rightarrow>
          (case obind (float_arg (ra_amount a)) (\<lambda>x. obind (price_arg (ra_price a)) (\<lambda>p. Inr (x, p))) of
             Inl e \<Rightarrow> (Inl e, w)
           | Inr (x, p) \<Rightarrow>
               (case place_order_ccxt (re_order env n)
                       [JStr (normalize_symbol (ra_symbol a)), JStr (strip (lower (ra_type a))), JStr (strip (lower (ra_side a))), x, p, JObj (ra_params a)]
                       (rt_orders w) of
                  (Inl e, ow) \<Rightarrow> (Inl e, w\<lparr>rt_orders := ow\<rparr>)
                | (Inr ord, ow) \<Rightarrow>
                    (case re_put_fault env n of
                       Some e \<Rightarrow> (Inl (Raised e), w\<lparr>rt_orders := ow\<rparr>)
                     | None \<Rightarrow> (Inr ord, w\<lparr>rt_orders := ow, rt_idem := put_success (re_now env) (ra_key a) ord (rt_idem w)\<rparr>)))))"

definition exc_of :: "order_error \<Rightarrow> exn" where
  "exc_of e = (case e of Blocked _ \<Rightarrow> RuntimeError ''CBP_ORDER_BLOCKED'' | Raised x \<Rightarrow> x)"

text \<open>The client is \<open>None\<close> when no exchange was made.\<close>

definition router_lookup :: "router_env \<Rightarrow> router_args \<Rightarrow> nat \<Rightarrow> recon_outcome" where
  "router_lookup env a n =
     reconcile_ambiguous_submission (\<lambda>_. Inl (AttributeError ''fetch_order''))
       (if re_exchange_error env n = None then re_find env n else (\<lambda>_. Inl (AttributeError ''find_order_by_client_oid'')))
       (ra_venue a) (Some (ra_key a)) None (Some 0)"

text \<open>One turn of the loop. The state is the number of retries made and the world.\<close>

definition router_step ::
    "router_env \<Rightarrow> router_cfg \<Rightarrow> router_args \<Rightarrow> nat \<times> router_world \<Rightarrow> (router_result \<times> router_world) + (nat \<times> router_world)" where
  "router_step env cfg a s =
     (case s of (n, w) \<Rightarrow>
        (case router_attempt env a n w of
           (Inr ord, w1) \<Rightarrow> Inl (RouterOk ord, w1)
         | (Inl e, w1) \<Rightarrow>
             (if is_retryable_exception (re_classes env) (exc_of e) \<and> int n < rc_max_order_retries cfg then
                (case router_lookup env a n of
                   confirmed_not_placed \<Rightarrow>
                     (case backoff_sleep (re_uniform env n) (Suc n) (rc_base_retry_delay_sec cfg) (rc_max_retry_delay_sec cfg) of
                        Inl e' \<Rightarrow> Inl (RouterRaised (Raised e'), w1)
                      | Inr d \<Rightarrow> Inr (Suc n, w1\<lparr>rt_slept := rt_slept w1 @ [d]\<rparr>))
                 | out \<Rightarrow> Inl (RetryBlocked out, w1))
              else (case re_error_fault env of
                      Some e' \<Rightarrow> Inl (RouterRaised (Raised e'), w1)
                    | None \<Rightarrow> Inl (RouterFailed e, w1\<lparr>rt_idem := put_error (re_now env) (ra_key a) e (rt_idem w1)\<rparr>)))))"

definition router_loop :: "router_env \<Rightarrow> router_args \<Rightarrow> router_world \<Rightarrow> (router_result \<times> router_world) option" where
  "router_loop env a w =
     (case router_cfg_of (re_config env) of
        Inl e \<Rightarrow> Some (RouterRaised (Raised e), w)
      | Inr cfg \<Rightarrow> repeat_step (router_step env cfg a) (0, w))"

definition dry_run_result :: "router_args \<Rightarrow> json \<Rightarrow> json \<Rightarrow> json" where
  "dry_run_result a x p =
     JObj [(''dry_run'', JBool True), (''venue'', JStr (normalize_venue (ra_venue a))), (''symbol'', JStr (normalize_symbol (ra_symbol a))),
       (''side'', JStr (strip (lower (ra_side a)))), (''type'', JStr (strip (lower (ra_type a)))), (''amount'', x), (''price'', p),
       (''params'', JObj (ra_params a))]"

definition router_dry_run :: "router_env \<Rightarrow> router_args \<Rightarrow> router_world \<Rightarrow> router_result \<times> router_world" where
  "router_dry_run env a w =
     (case obind (float_arg (ra_amount a)) (\<lambda>x. obind (price_arg (ra_price a)) (\<lambda>p. Inr (x, p))) of
        Inl e \<Rightarrow> (RouterRaised e, w)
      | Inr (x, p) \<Rightarrow>
          (case re_put_fault env 0 of
             Some e \<Rightarrow> (RouterRaised (Raised e), w)
           | None \<Rightarrow> (RouterDryRun (dry_run_result a x p),
               w\<lparr>rt_idem := put_success (re_now env) (ra_key a) (dry_run_result a x p) (rt_idem w)\<rparr>)))"

definition place_order_idempotent :: "router_env \<Rightarrow> router_args \<Rightarrow> router_world \<Rightarrow> (router_result \<times> router_world) option" where
  "place_order_idempotent env a w =
     (case re_open_error env of
        Some e \<Rightarrow> Some (RouterRaised (Raised e), w)
      | None \<Rightarrow>
          (case idem_get (ra_key a) (rt_idem w) of
             Some r \<Rightarrow> if ir_status r = ''success'' then Some (RouterIdempotent (ir_result r), w)
                        else if ra_dry_run a then Some (router_dry_run env a w) else router_loop env a w
           | None \<Rightarrow> if ra_dry_run a then Some (router_dry_run env a w) else router_loop env a w))"

section \<open>At most one order per attempt\<close>

lemma place_order_created:
  assumes "place_order env args kwargs w = (r, w')"
  shows "length (pw_created w') \<le> Suc (length (pw_created w))"
  using assms
proof (cases rule: place_order_cases)
  case (submitted k w1)
  then have "pw_created w1 = pw_created w"
    using enforce_fail_closed_created[of env "extract_create_order_args args kwargs" w] by simp
  then show ?thesis using submitted(3) by (auto simp: submit_order_def Let_def split: sum.splits)
qed simp

text \<open>Without arguments no order is created: the amount is missing.\<close>

lemma place_order_nothing: "place_order env [] [] w = (r, w') \<Longrightarrow> pw_created w' = pw_created w \<and> (\<exists>e. r = Inl e)"
proof -
  have "parse_order_amount (oa_amount (extract_create_order_args [] [])) = Inl (Blocked InvalidAmount)"
    by (simp add: extract_create_order_args_def jget_def parse_order_amount_def)
  then have "\<exists>e. enforce_static env (extract_create_order_args [] []) w = Inl e"
    by (cases "enforce_static env (extract_create_order_args [] []) w") (auto simp: enforce_static_def)
  then show "place_order env [] [] w = (r, w') \<Longrightarrow> ?thesis" by (auto simp: place_order_def enforce_fail_closed_def)
qed

lemma place_order_ccxt_created:
  assumes "place_order_ccxt env args w = (r, w')"
  shows "length (pw_created w') \<le> Suc (length (pw_created w))"
proof -
  obtain r1 w1 where p: "place_order env args [] w = (r1, w1)" by fastforce
  note c = place_order_created[OF p]
  show ?thesis
  proof (cases "\<exists>m. r1 = Inl (Raised (TypeError m))")
    case True
    then have "place_order env [] [] w1 = (r, w')" using assms p by (auto simp: place_order_ccxt_def)
    then show ?thesis using place_order_nothing c by simp
  next
    case False
    then have "w' = w1" using assms p by (auto simp: place_order_ccxt_def split: sum.splits order_error.splits exn.splits)
    then show ?thesis using c by simp
  qed
qed

lemma router_attempt_created:
  assumes "router_attempt env a n w = (r, w')"
  shows "length (pw_created (rt_orders w')) \<le> Suc (length (pw_created (rt_orders w)))" "rt_slept w' = rt_slept w"
  using assms by (auto simp: router_attempt_def dest!: place_order_ccxt_created split: option.splits sum.splits prod.splits)

text \<open>An attempt that fails has written nothing to the idempotency store, one that succeeds its result under the key.\<close>

lemma router_attempt_store:
  assumes "router_attempt env a n w = (r, w')"
  shows "rt_idem w' = (case r of Inl _ \<Rightarrow> rt_idem w | Inr ord \<Rightarrow> put_success (re_now env) (ra_key a) ord (rt_idem w))"
  using assms by (auto simp: router_attempt_def split: option.splits sum.splits prod.splits)

section \<open>The configuration is bounded\<close>

definition cfg_ok :: "router_cfg \<Rightarrow> bool" where
  "cfg_ok cfg \<longleftrightarrow> 0 \<le> rc_max_order_retries cfg \<and> rc_max_order_retries cfg \<le> 10 \<and>
     isfinite (rc_base_retry_delay_sec cfg) \<and> fle (rc_base_retry_delay_sec cfg) (Fin 300) \<and>
     isfinite (rc_max_retry_delay_sec cfg) \<and> fle (rc_max_retry_delay_sec cfg) (Fin 300)"

lemma bounded_int_range: "lo \<le> dflt \<Longrightarrow> dflt \<le> hi \<Longrightarrow> 0 \<le> lo \<Longrightarrow> lo \<le> hi \<Longrightarrow> lo \<le> bounded_int v dflt lo hi \<and> bounded_int v dflt lo hi \<le> hi"
proof -
  assume r: "lo \<le> dflt" "dflt \<le> hi" "0 \<le> lo" "lo \<le> hi"
  have "lo \<le> trunc_rat (min (of_int hi) (max (of_int lo) x)) \<and> trunc_rat (min (of_int hi) (max (of_int lo) x)) \<le> hi" for x
  proof -
    let ?y = "min (of_int hi) (max (of_int lo) x)"
    have "of_int lo \<le> ?y" "?y \<le> of_int hi" using r(4) by auto
    moreover from this(1) r(3) have "0 \<le> ?y" by (metis of_int_0_le_iff order_trans)
    ultimately show ?thesis by (simp add: trunc_rat_def le_floor_iff floor_le_iff)
  qed
  then show ?thesis using r by (simp add: bounded_int_def split: sum.split pyfloat.split)
qed

lemma float_between: "x \<le> of_int n \<Longrightarrow> 0 \<le> x \<Longrightarrow> \<bar>n\<bar> \<le> 2 ^ 53 \<Longrightarrow> isfinite (mk_float x) \<and> fle (mk_float x) (Fin (of_int n))"
  using mk_float_mono[of x "of_int n"] mk_float_mono[of 0 x] mk_float_of_int[of n] by (cases "mk_float x") auto

lemma bounded_float_range:
  assumes "isfinite dflt" "fle dflt (Fin hi)" "isfinite lo" "fle lo (Fin hi)"
  shows "isfinite (bounded_float v dflt lo (Fin hi)) \<and> fle (bounded_float v dflt lo (Fin hi)) (Fin hi)"
proof -
  have "isfinite (pymin (Fin hi) (pymax lo (Fin x))) \<and> fle (pymin (Fin hi) (pymax lo (Fin x))) (Fin hi)" for x
    using assms(3) by (cases lo) (auto simp: pymin_def pymax_def)
  then show ?thesis using assms by (auto simp: bounded_float_def split: sum.split) (metis isfinite.elims(2))+
qed

lemma router_cfg_ok: "router_cfg_of d = Inr cfg \<Longrightarrow> cfg_ok cfg"
proof -
  have f: "isfinite (mk_float (3 / 5)) \<and> fle (mk_float (3 / 5)) (Fin 60)" "isfinite (mk_float (1 / 20)) \<and> fle (mk_float (1 / 20)) (Fin 60)"
    "isfinite (mk_float (1 / 20)) \<and> fle (mk_float (1 / 20)) (Fin 300)"
    using float_between[of "3 / 5" 60] float_between[of "1 / 20" 60] float_between[of "1 / 20" 300] by simp_all
  have b: "isfinite (bounded_float v (mk_float (3 / 5)) (mk_float (1 / 20)) (Fin 60)) \<and> fle (bounded_float v (mk_float (3 / 5)) (mk_float (1 / 20)) (Fin 60)) (Fin 60)"
    "isfinite (bounded_float v (Fin 6) (mk_float (1 / 20)) (Fin 300)) \<and> fle (bounded_float v (Fin 6) (mk_float (1 / 20)) (Fin 300)) (Fin 300)" for v
    by (rule bounded_float_range; simp add: f)+
  have "fle x (Fin 60) \<Longrightarrow> fle x (Fin 300)" for x by (cases x) auto
  then show "router_cfg_of d = Inr cfg \<Longrightarrow> cfg_ok cfg"
    using b bounded_int_range[of 0 3 10] by (auto simp: router_cfg_of_def cfg_ok_def split: sum.splits json.splits)
qed


section \<open>The loop\<close>

lemma router_lookup_not_placed:
  assumes "router_lookup env a n = confirmed_not_placed"
  shows "re_exchange_error env n = None \<and> (\<exists>ord. re_find env n (ra_key a) = Inr ord \<and> \<not> jtruthy ord) \<and>
    ra_key a \<noteq> '''' \<and> get_venue_capabilities (ra_venue a) \<noteq> None"
  using assms
  by (auto simp: router_lookup_def reconcile_ambiguous_submission_def truthy_def retry_is_safe_after_ambiguous_ack_def
      split: if_splits sum.splits option.splits)

text \<open>A wait of the router: a delay between 50 milliseconds and 5 minutes plus a jitter drawn from at most a quarter of a second.\<close>

definition wait_ok :: "router_env \<Rightarrow> pyfloat \<Rightarrow> bool" where
  "wait_ok env d \<longleftrightarrow> (\<exists>delay n hi. d = fadd delay (re_uniform env n hi) \<and> fle (mk_float (1 / 20)) delay \<and> fle delay (Fin 300) \<and> fle hi (Fin (1 / 4)))"

lemma backoff_sleep_ok:
  assumes cfg: "cfg_ok cfg" and d: "backoff_sleep (re_uniform env n) k (rc_base_retry_delay_sec cfg) (rc_max_retry_delay_sec cfg) = Inr d"
  shows "wait_ok env d"
proof -
  let ?b = "rc_base_retry_delay_sec cfg"
  let ?m = "rc_max_retry_delay_sec cfg"
  obtain delay where dl: "backoff_delay k ?b ?m = Inr delay" "d = fadd delay (re_uniform env n (pymin (Fin (1 / 4)) (fmul delay (mk_float (3 / 20)))))"
    using d by (auto simp: backoff_sleep_def split: sum.splits)
  note bd = backoff_delay_bounds[OF _ _ dl(1)]
  have "fle (pymax (pymax (mk_float (1 / 20)) ?b) ?m) (Fin 300)"
    using cfg float_between[of "1 / 20" 300] by (auto simp: cfg_ok_def pymax_def)
  then have "fle delay (Fin 300)" using bd cfg fle_trans unfolding cfg_ok_def by blast
  moreover have low: "fle (mk_float (1 / 20)) delay" using bd cfg by (simp add: cfg_ok_def)
  moreover have "fle (pymin (Fin (1 / 4)) (fmul delay (mk_float (3 / 20)))) (Fin (1 / 4))"
  proof -
    obtain x y where "delay = Fin x" "mk_float (3 / 20) = Fin y"
      using low \<open>fle delay (Fin 300)\<close> twentieth float_between[of "3 / 20" 1] by (cases delay; cases "mk_float (3 / 20)") auto
    then show ?thesis using pymin_bounds[of "Fin (1 / 4)" "fmul delay (mk_float (3 / 20))"] by simp
  qed
  ultimately show ?thesis unfolding wait_ok_def using dl(2) by blast
qed

definition router_inv :: "router_env \<Rightarrow> router_cfg \<Rightarrow> router_args \<Rightarrow> router_world \<Rightarrow> nat \<times> router_world \<Rightarrow> bool" where
  "router_inv env cfg a w0 s \<longleftrightarrow>
     (case s of (n, w) \<Rightarrow> cfg_ok cfg \<and> int n \<le> rc_max_order_retries cfg \<and>
        length (pw_created (rt_orders w)) \<le> length (pw_created (rt_orders w0)) + n \<and> rt_idem w = rt_idem w0 \<and>
        (\<forall>i < n. router_lookup env a i = confirmed_not_placed) \<and>
        (\<exists>ds. rt_slept w = rt_slept w0 @ ds \<and> length ds = n \<and> list_all (wait_ok env) ds))"

lemma router_step_continues:
  assumes "router_step env cfg a (n, w) = Inr s"
  obtains e w1 d where "router_attempt env a n w = (Inl e, w1)" "int n < rc_max_order_retries cfg" "router_lookup env a n = confirmed_not_placed"
    "backoff_sleep (re_uniform env n) (Suc n) (rc_base_retry_delay_sec cfg) (rc_max_retry_delay_sec cfg) = Inr d"
    "s = (Suc n, w1\<lparr>rt_slept := rt_slept w1 @ [d]\<rparr>)"
  using assms by (auto simp: router_step_def split: prod.splits sum.splits if_splits recon_outcome.splits option.splits)

lemma router_inv_step:
  assumes i: "router_inv env cfg a w0 (n, w)" and st: "router_step env cfg a (n, w) = Inr s"
  shows "router_inv env cfg a w0 s"
proof -
  obtain e w1 d where c: "router_attempt env a n w = (Inl e, w1)" "int n < rc_max_order_retries cfg" "router_lookup env a n = confirmed_not_placed"
      "backoff_sleep (re_uniform env n) (Suc n) (rc_base_retry_delay_sec cfg) (rc_max_retry_delay_sec cfg) = Inr d"
      "s = (Suc n, w1\<lparr>rt_slept := rt_slept w1 @ [d]\<rparr>)"
    by (rule router_step_continues[OF st]) (rule that)
  obtain ds where ds: "rt_slept w = rt_slept w0 @ ds" "length ds = n" "list_all (wait_ok env) ds" using i by (auto simp: router_inv_def)
  have ok: "cfg_ok cfg" using i by (simp add: router_inv_def)
  have sl: "rt_slept w1 @ [d] = rt_slept w0 @ (ds @ [d])" "length (ds @ [d]) = Suc n" "list_all (wait_ok env) (ds @ [d])"
    using ds router_attempt_created(2)[OF c(1)] backoff_sleep_ok[OF ok c(4)] by simp_all
  have "\<forall>j < Suc n. router_lookup env a j = confirmed_not_placed" using i c(3) by (auto simp: router_inv_def less_Suc_eq)
  moreover have "length (pw_created (rt_orders w1)) \<le> length (pw_created (rt_orders w0)) + Suc n" "rt_idem w1 = rt_idem w0"
    using i router_attempt_created(1)[OF c(1)] router_attempt_store[OF c(1)] by (simp_all add: router_inv_def)
  ultimately show ?thesis using c(2) ok sl by (auto simp: c(5) router_inv_def intro!: exI[of _ "ds @ [d]"])
qed

interpretation router: ranked_loop "router_step env cfg a" "router_inv env cfg a w0" "\<lambda>s. nat (rc_max_order_retries cfg) - fst s" for env cfg a w0
proof
  fix s s'
  assume i: "router_inv env cfg a w0 s" and st: "router_step env cfg a s = Inr s'"
  obtain n w where s: "s = (n, w)" by fastforce
  show "router_inv env cfg a w0 s'" using router_inv_step i st s by blast
  show "nat (rc_max_order_retries cfg) - fst s' < nat (rc_max_order_retries cfg) - fst s"
    using st unfolding s by (elim router_step_continues) auto
qed

text \<open>What the last turn leaves.\<close>

lemma router_last:
  assumes "router_step env cfg a (n, w) = Inl (r, w')"
  shows "length (pw_created (rt_orders w')) \<le> Suc (length (pw_created (rt_orders w)))" "rt_slept w' = rt_slept w"
proof -
  obtain q w1 where q: "router_attempt env a n w = (q, w1)" by fastforce
  have "rt_orders w' = rt_orders w1 \<and> rt_slept w' = rt_slept w1"
    using assms q by (auto simp: router_step_def split: sum.splits if_splits recon_outcome.splits option.splits)
  then show "length (pw_created (rt_orders w')) \<le> Suc (length (pw_created (rt_orders w)))" "rt_slept w' = rt_slept w"
    using router_attempt_created[OF q] by simp_all
qed

lemma router_loop_effect:
  "\<exists>r w' n ds. router_loop env a w = Some (r, w') \<and> n \<le> 10 \<and> length (pw_created (rt_orders w')) \<le> length (pw_created (rt_orders w)) + Suc n \<and>
     (\<forall>i < n. router_lookup env a i = confirmed_not_placed) \<and> rt_slept w' = rt_slept w @ ds \<and> length ds = n \<and> list_all (wait_ok env) ds"
proof (cases "router_cfg_of (re_config env)")
  case (Inl e)
  then show ?thesis by (simp add: router_loop_def)
next
  case (Inr cfg)
  have "router_inv env cfg a w (0, w)" using router_cfg_ok[OF Inr] by (simp add: router_inv_def cfg_ok_def)
  then obtain x s where s: "router_inv env cfg a w s" "router_step env cfg a s = Inl x" "router_loop env a w = Some x"
    using router.exits[of env cfg a w "(0, w)"] Inr by (auto simp: router_loop_def)
  obtain n wn r w' where nx: "s = (n, wn)" "x = (r, w')" by (cases s; cases x) blast
  obtain ds where ds: "rt_slept wn = rt_slept w @ ds" "length ds = n" "list_all (wait_ok env) ds" using s(1) by (auto simp: nx router_inv_def)
  have "n \<le> 10" "length (pw_created (rt_orders wn)) \<le> length (pw_created (rt_orders w)) + n" "\<forall>i < n. router_lookup env a i = confirmed_not_placed"
    using s(1) by (auto simp: nx router_inv_def cfg_ok_def)
  moreover note router_last[OF s(2)[unfolded nx]]
  ultimately show ?thesis using s(3) nx ds by (intro exI[of _ r] exI[of _ w'] exI[of _ n] exI[of _ ds]) auto
qed

section \<open>What the router promises\<close>

lemma idem_put_get: "idem_get (ir_k r) (idem_put r t) = Some r"
proof -
  have "select_key ir_k (ir_k r) (filter (\<lambda>r'. ir_k r' \<noteq> ir_k r) t) = None" by (auto simp: select_key_None)
  then show ?thesis by (simp add: idem_get_def idem_put_def select_key_append select_key_Cons)
qed

lemma idem_put_other: "k \<noteq> ir_k r \<Longrightarrow> idem_get k (idem_put r t) = idem_get k t"
proof -
  assume k: "k \<noteq> ir_k r"
  have "select_key ir_k k (filter (\<lambda>r'. ir_k r' \<noteq> ir_k r) t) = select_key ir_k k t"
    using k by (induction t) (auto simp: select_key_Cons)
  then show ?thesis using k by (simp add: idem_get_def idem_put_def select_key_append select_key_Cons split: option.split)
qed

lemma put_success_get: "idem_get k (put_success now key x t) =
    (if k = key then Some \<lparr>ir_k = key, ir_status = ''success'', ir_result = x, ir_error = None, ir_updated_ts = now\<rparr> else idem_get k t)"
  using idem_put_get[of "\<lparr>ir_k = key, ir_status = ''success'', ir_result = x, ir_error = None, ir_updated_ts = now\<rparr>" t]
  by (auto simp: put_success_def intro: idem_put_other)

lemma put_error_get: "idem_get k (put_error now key e t) =
    (if k = key then Some \<lparr>ir_k = key, ir_status = ''error'', ir_result = JNull, ir_error = Some e, ir_updated_ts = now\<rparr> else idem_get k t)"
  using idem_put_get[of "\<lparr>ir_k = key, ir_status = ''error'', ir_result = JNull, ir_error = Some e, ir_updated_ts = now\<rparr>" t]
  by (auto simp: put_error_def intro: idem_put_other)

text \<open>C12. The router returns. Whatever the configuration, the exchange and the stores answer, the loop ends after at most ten retries, and
  each of its waits is a delay between 50 milliseconds and 5 minutes plus a jitter drawn from at most a quarter of a second.\<close>

theorem router_returns:
  "\<exists>r w' waits. place_order_idempotent env a w = Some (r, w') \<and> rt_slept w' = rt_slept w @ waits \<and> length waits \<le> 10 \<and>
     list_all (wait_ok env) waits"
proof -
  obtain r w' n ds where l: "router_loop env a w = Some (r, w')" "n \<le> 10" "rt_slept w' = rt_slept w @ ds" "length ds = n" "list_all (wait_ok env) ds"
    using router_loop_effect[of env a w] by (elim exE conjE) (rule that)
  have dry: "rt_slept (snd (router_dry_run env a w)) = rt_slept w" by (simp add: router_dry_run_def split: sum.split option.split prod.split)
  have "(\<exists>r. place_order_idempotent env a w = Some (r, w)) \<or> place_order_idempotent env a w = Some (router_dry_run env a w) \<or>
      place_order_idempotent env a w = router_loop env a w"
    by (auto simp: place_order_idempotent_def split: option.split)
  then show ?thesis
  proof (elim disjE exE)
    fix q assume "place_order_idempotent env a w = Some (q, w)"
    then show ?thesis by simp
  next
    assume "place_order_idempotent env a w = Some (router_dry_run env a w)"
    then show ?thesis using dry by (cases "router_dry_run env a w") auto
  next
    assume "place_order_idempotent env a w = router_loop env a w"
    then show ?thesis using l by (intro exI[of _ r] exI[of _ w'] exI[of _ ds]) simp
  qed
qed

text \<open>C13. An order is submitted again only when the exchange knows no such order. One call of the router may reach \<open>create_order\<close> more than
  once, but before each further attempt the exchange of the attempt before, asked for the idempotency key as client order id, has
  answered that there is no such order, the venue supports that lookup, and there are at most ten further attempts.\<close>

theorem resubmit_after_not_found:
  assumes "place_order_idempotent env a w = Some (r, w')"
  shows "\<exists>m \<le> 10. length (pw_created (rt_orders w')) \<le> length (pw_created (rt_orders w)) + Suc m \<and>
    (\<forall>i < m. re_exchange_error env i = None \<and> (\<exists>ord. re_find env i (ra_key a) = Inr ord \<and> \<not> jtruthy ord) \<and>
       ra_key a \<noteq> '''' \<and> get_venue_capabilities (ra_venue a) \<noteq> None)"
proof -
  obtain q w1 n ds where l: "router_loop env a w = Some (q, w1)" "n \<le> 10" "length (pw_created (rt_orders w1)) \<le> length (pw_created (rt_orders w)) + Suc n"
      "\<forall>i < n. router_lookup env a i = confirmed_not_placed"
    using router_loop_effect[of env a w] by (elim exE conjE) (rule that)
  have dry: "rt_orders (snd (router_dry_run env a w)) = rt_orders w" by (simp add: router_dry_run_def split: sum.split option.split prod.split)
  have "rt_orders w' = rt_orders w \<or> router_loop env a w = Some (r, w')"
    using assms dry by (auto simp: place_order_idempotent_def split: option.splits if_splits)
  then show ?thesis
  proof
    assume "rt_orders w' = rt_orders w"
    then show ?thesis by (intro exI[of _ 0]) simp
  next
    assume "router_loop env a w = Some (r, w')"
    then have "length (pw_created (rt_orders w')) \<le> length (pw_created (rt_orders w)) + Suc n" using l by simp
    moreover have "\<forall>i < n. re_exchange_error env i = None \<and> (\<exists>ord. re_find env i (ra_key a) = Inr ord \<and> \<not> jtruthy ord) \<and>
       ra_key a \<noteq> '''' \<and> get_venue_capabilities (ra_venue a) \<noteq> None"
      using l(4) by (intro allI impI router_lookup_not_placed) blast
    ultimately show ?thesis using l(2) by (intro exI[of _ n] conjI)
  qed
qed

lemma router_dry_run_not_ok: "router_dry_run env a w \<noteq> (RouterOk x, w')"
  by (auto simp: router_dry_run_def split: sum.split option.split prod.split)

lemma router_loop_not_dry: "router_loop env a w \<noteq> Some (RouterDryRun x, w')"
proof
  assume l: "router_loop env a w = Some (RouterDryRun x, w')"
  then obtain cfg where cfg: "router_cfg_of (re_config env) = Inr cfg" "repeat_step (router_step env cfg a) (0, w) = Some (RouterDryRun x, w')"
    by (cases "router_cfg_of (re_config env)") (auto simp: router_loop_def)
  have "router_inv env cfg a w (0, w)" using router_cfg_ok[OF cfg(1)] by (simp add: router_inv_def cfg_ok_def)
  then obtain s where "router_step env cfg a s = Inl (RouterDryRun x, w')" using router.result[OF _ cfg(2)] by blast
  then show False by (auto simp: router_step_def split: prod.splits sum.splits if_splits recon_outcome.splits option.splits)
qed

text \<open>What a call leaves in the store: the rows of other keys, and under its own key its success when it returned an order or a dry run.\<close>

definition recorded :: "string \<Rightarrow> json \<Rightarrow> router_world \<Rightarrow> bool" where
  "recorded k x w \<longleftrightarrow> (\<exists>row. idem_get k (rt_idem w) = Some row \<and> ir_status row = ''success'' \<and> ir_result row = x)"

lemma router_loop_store:
  assumes l: "router_loop env a w = Some (r, w')"
  shows "(k \<noteq> ra_key a \<longrightarrow> idem_get k (rt_idem w') = idem_get k (rt_idem w)) \<and> (r = RouterOk x \<longrightarrow> recorded (ra_key a) x w')"
proof (cases "router_cfg_of (re_config env)")
  case (Inl e)
  then show ?thesis using l by (auto simp: router_loop_def)
next
  case (Inr cfg)
  have "router_inv env cfg a w (0, w)" using router_cfg_ok[OF Inr] by (simp add: router_inv_def cfg_ok_def)
  moreover have "repeat_step (router_step env cfg a) (0, w) = Some (r, w')" using l Inr by (simp add: router_loop_def)
  ultimately obtain s where s: "router_inv env cfg a w s" "router_step env cfg a s = Inl (r, w')" using router.result by blast
  obtain n v where nv: "s = (n, v)" by fastforce
  have v: "rt_idem v = rt_idem w" using s(1) by (simp add: nv router_inv_def)
  obtain q v1 where q: "router_attempt env a n v = (q, v1)" by fastforce
  note st = router_attempt_store[OF q, unfolded v]
  show ?thesis
  proof (cases q)
    case (Inl e)
    then have "(\<exists>e'. rt_idem w' = put_error (re_now env) (ra_key a) e' (rt_idem w)) \<or> rt_idem w' = rt_idem w" "\<forall>x. r \<noteq> RouterOk x"
      using s(2) q st unfolding nv by (auto simp: router_step_def split: if_splits recon_outcome.splits option.splits sum.splits)
    then show ?thesis by (auto simp: put_error_get)
  next
    case (Inr ord)
    then have "r = RouterOk ord" "w' = v1" using s(2) q unfolding nv by (simp_all add: router_step_def)
    then show ?thesis using st Inr by (auto simp: put_success_get recorded_def)
  qed
qed

lemma router_dry_run_store:
  assumes "router_dry_run env a w = (r, w')"
  shows "(k \<noteq> ra_key a \<longrightarrow> idem_get k (rt_idem w') = idem_get k (rt_idem w)) \<and> (r = RouterDryRun x \<longrightarrow> recorded (ra_key a) x w')"
  using assms by (auto simp: router_dry_run_def put_success_get recorded_def split: option.splits sum.splits prod.splits)

lemma router_call_store:
  assumes call: "place_order_idempotent env a w = Some (r, w')"
  shows "k \<noteq> ra_key a \<Longrightarrow> idem_get k (rt_idem w') = idem_get k (rt_idem w)"
    "r = RouterOk x \<or> r = RouterDryRun x \<Longrightarrow> recorded (ra_key a) x w'"
    "recorded (ra_key a) x w \<Longrightarrow> w' = w \<and> (re_open_error env = None \<longrightarrow> r = RouterIdempotent x)"
proof -
  show "idem_get k (rt_idem w') = idem_get k (rt_idem w)" if "k \<noteq> ra_key a"
    using call that router_dry_run_store router_loop_store by (auto simp: place_order_idempotent_def split: option.splits if_splits)
  show "recorded (ra_key a) x w'" if "r = RouterOk x \<or> r = RouterDryRun x"
    using call that router_dry_run_store router_loop_store router_dry_run_not_ok router_loop_not_dry
    by (auto simp: place_order_idempotent_def split: option.splits if_splits)
  show "w' = w \<and> (re_open_error env = None \<longrightarrow> r = RouterIdempotent x)" if "recorded (ra_key a) x w"
    using call that by (auto simp: place_order_idempotent_def recorded_def split: option.splits)
qed

text \<open>What happens between two calls under a key, one after the other: calls under any key with any arguments, whatever fails in them, and any change that leaves the
  row of the key in the store alone.\<close>

inductive router_later :: "string \<Rightarrow> router_world \<Rightarrow> router_world \<Rightarrow> bool" for k where
  called: "place_order_idempotent env a w = Some (r, w') \<Longrightarrow> router_later k w w'"
| elsewhere: "idem_get k (rt_idem w') = idem_get k (rt_idem w) \<Longrightarrow> router_later k w w'"

lemma recorded_stays:
  assumes "(router_later k)\<^sup>*\<^sup>* w w'" "recorded k x w"
  shows "recorded k x w'"
  using assms
proof (induction rule: rtranclp_induct)
  case (step v v')
  from step.hyps(2) show ?case
  proof cases
    case (called env a r)
    show ?thesis
    proof (cases "ra_key a = k")
      case True
      then show ?thesis using router_call_store(3)[OF called] step by simp
    next
      case False
      then show ?thesis using router_call_store(1)[OF called, of k] step by (simp add: recorded_def)
    qed
  qed (use step in \<open>simp add: recorded_def\<close>)
qed

lemma router_answers: "\<exists>r w'. place_order_idempotent env a w = Some (r, w')"
proof -
  obtain r w' where "router_loop env a w = Some (r, w')" using router_loop_effect[of env a w] by (elim exE conjE) (rule that)
  moreover obtain q v where "router_dry_run env a w = (q, v)" by fastforce
  ultimately show ?thesis by (simp add: place_order_idempotent_def split: option.split)
qed

text \<open>C40. A recorded result answers every later call. After a call under a key has returned an order (or a dry run), every call under that key that starts later, after any
  number of other calls under this and other keys, returns the same result and changes nothing, whatever its other arguments are; so a dry run also answers the
  live order that follows it. Calls under the same key that overlap are not covered; calls under other keys may overlap.\<close>

theorem router_idempotent:
  assumes call: "place_order_idempotent env a w = Some (r, w')" and r: "r = RouterOk x \<or> r = RouterDryRun x"
    and later: "(router_later (ra_key a))\<^sup>*\<^sup>* w' v" "ra_key a' = ra_key a" "re_open_error env' = None"
  shows "place_order_idempotent env' a' v = Some (RouterIdempotent x, v)"
proof -
  have rec: "recorded (ra_key a') x v" using recorded_stays[OF later(1) router_call_store(2)[OF call r]] later(2) by simp
  obtain q v' where q: "place_order_idempotent env' a' v = Some (q, v')" using router_answers by blast
  from router_call_store(3)[OF q rec] show ?thesis using q later(3) by simp
qed

text \<open>C39. A success that cannot be recorded is reported as a failure and leaves the key open. When the order was created but writing the success fails (a locked
  database, for instance, which is not a transient error), the router records an error and answers that the order failed; a later live call
  under the same key is not answered from the store but submits again.\<close>

theorem lost_success_reopens_key:
  assumes live: "\<not> ra_dry_run a" "re_open_error env = None" "idem_get (ra_key a) (rt_idem w) = None" "router_cfg_of (re_config env) = Inr cfg"
    and created: "router_attempt (env\<lparr>re_put_fault := (\<lambda>_. None)\<rparr>) a 0 w = (Inr ord, w1)"
    and fault: "re_put_fault env 0 = Some e" "\<not> is_retryable_exception (re_classes env) e" "re_error_fault env = None"
  shows "\<exists>w'. place_order_idempotent env a w = Some (RouterFailed (Raised e), w') \<and> rt_orders w' = rt_orders w1 \<and>
    (\<forall>env' a'. ra_key a' = ra_key a \<and> \<not> ra_dry_run a' \<and> re_open_error env' = None \<longrightarrow>
       place_order_idempotent env' a' w' = router_loop env' a' w')"
proof -
  obtain w2 where w2: "router_attempt env a 0 w = (Inl (Raised e), w2)" "rt_orders w2 = rt_orders w1"
    using created fault(1) by (auto simp: router_attempt_def split: option.splits sum.splits prod.splits)
  let ?w' = "w2\<lparr>rt_idem := put_error (re_now env) (ra_key a) (Raised e) (rt_idem w2)\<rparr>"
  have "router_step env cfg a (0, w) = Inl (RouterFailed (Raised e), ?w')" using w2 fault by (simp add: router_step_def exc_of_def)
  then have "place_order_idempotent env a w = Some (RouterFailed (Raised e), ?w')"
    using live by (simp add: place_order_idempotent_def router_loop_def repeat_step_simps)
  moreover have "\<exists>row. idem_get (ra_key a) (rt_idem ?w') = Some row \<and> ir_status row = ''error''"
    using idem_put_get[of "\<lparr>ir_k = ra_key a, ir_status = ''error'', ir_result = JNull, ir_error = Some (Raised e), ir_updated_ts = re_now env\<rparr>" "rt_idem w2"]
    by (simp add: put_error_def)
  ultimately show ?thesis using w2(2) by (intro exI[of _ ?w']) (auto simp: place_order_idempotent_def)
qed

section \<open>A sample call\<close>

definition router_sample_env :: "exn option \<Rightarrow> router_env" where
  "router_sample_env fault = \<lparr>re_config = [], re_now = ''n'', re_classes = \<lparr>xc_ccxt = True, xc_isa = (\<lambda>c e. False)\<rparr>, re_open_error = None,
     re_exchange_error = (\<lambda>n. None), re_order = (\<lambda>n. order_sample_env), re_put_fault = (\<lambda>n. fault), re_error_fault = None,
     re_find = (\<lambda>n k. Inr JNull), re_uniform = (\<lambda>n hi. Fin 0)\<rparr>"

definition router_sample_args :: router_args where
  "router_sample_args = \<lparr>ra_venue = ''gateio'', ra_symbol = ''BTC/USDT'', ra_side = ''buy'', ra_type = ''limit'', ra_amount = JFloat (Fin 1),
     ra_price = JFloat (Fin 5), ra_key = ''k1'', ra_params = [], ra_dry_run = False\<rparr>"

definition router_sample_world :: router_world where
  "router_sample_world = \<lparr>rt_orders = order_sample_world, rt_idem = [], rt_slept = []\<rparr>"

lemma router_sample_order:
  "[JStr (normalize_symbol (ra_symbol router_sample_args)), JStr (strip (lower (ra_type router_sample_args))),
    JStr (strip (lower (ra_side router_sample_args))), JFloat (Fin 1), JFloat (Fin 5), JObj (ra_params router_sample_args)] = order_sample_args"
proof -
  have "normalize_symbol ''BTC/USDT'' = ''BTC/USDT''" "strip (lower ''limit'') = ''limit''" "strip (lower ''buy'') = ''buy''" by code_simp+
  then show ?thesis by (simp add: router_sample_args_def order_sample_args_def)
qed

lemma router_sample_attempt:
  "\<exists>w1. router_attempt (router_sample_env None) router_sample_args 0 router_sample_world = (Inr (JObj [(''id'', JStr ''x1'')]), w1) \<and>
     length (pw_created (rt_orders w1)) = 1"
proof -
  obtain ow where p: "place_order order_sample_env order_sample_args [] order_sample_world = (Inr (JObj [(''id'', JStr ''x1'')]), ow)"
      "length (pw_created ow) = 1" using order_sample_placed by auto
  have f: "float_arg (ra_amount router_sample_args) = Inr (JFloat (Fin 1))" "price_arg (ra_price router_sample_args) = Inr (JFloat (Fin 5))"
    by (simp_all add: float_arg_def price_arg_def router_sample_args_def)
  show ?thesis
    using p by (simp add: router_attempt_def router_sample_env_def f router_sample_order place_order_ccxt_def router_sample_world_def)
qed

lemma router_sample_cfg: "\<exists>cfg. router_cfg_of [] = Inr cfg"
  by (simp add: router_cfg_of_def jget_def jor_def attr_get_def)

lemma router_sample_call:
  "\<exists>w'. place_order_idempotent (router_sample_env None) router_sample_args router_sample_world = Some (RouterOk (JObj [(''id'', JStr ''x1'')]), w') \<and>
     length (pw_created (rt_orders w')) = 1"
proof -
  obtain w1 where w1: "router_attempt (router_sample_env None) router_sample_args 0 router_sample_world = (Inr (JObj [(''id'', JStr ''x1'')]), w1)"
    "length (pw_created (rt_orders w1)) = 1" using router_sample_attempt by blast
  obtain cfg where cfg: "router_cfg_of [] = Inr cfg" using router_sample_cfg by blast
  have fields: "re_config (router_sample_env None) = []" "re_open_error (router_sample_env None) = None" "rt_idem router_sample_world = []"
      "ra_dry_run router_sample_args = False"
    by (simp_all add: router_sample_env_def router_sample_world_def router_sample_args_def)
  have "router_step (router_sample_env None) cfg router_sample_args (0, router_sample_world) = Inl (RouterOk (JObj [(''id'', JStr ''x1'')]), w1)"
    by (simp add: router_step_def w1)
  then show ?thesis
    using w1(2) by (simp add: place_order_idempotent_def router_loop_def cfg fields idem_get_def select_key_def repeat_step_simps)
qed

theorem resubmit_after_not_found_witness:
  "\<exists>w' m. place_order_idempotent (router_sample_env None) router_sample_args router_sample_world = Some (RouterOk (JObj [(''id'', JStr ''x1'')]), w') \<and>
     m \<le> 10 \<and> length (pw_created (rt_orders w')) \<le> length (pw_created (rt_orders router_sample_world)) + Suc m"
proof -
  obtain w' where w': "place_order_idempotent (router_sample_env None) router_sample_args router_sample_world = Some (RouterOk (JObj [(''id'', JStr ''x1'')]), w')"
    using router_sample_call by blast
  from resubmit_after_not_found[OF w'] w' show ?thesis by blast
qed

text \<open>A second call under the key of the sample, after a dry run under another key.\<close>

theorem router_idempotent_witness:
  "\<exists>w' r v. place_order_idempotent (router_sample_env None) router_sample_args router_sample_world = Some (RouterOk (JObj [(''id'', JStr ''x1'')]), w') \<and>
     place_order_idempotent (router_sample_env None) (router_sample_args\<lparr>ra_key := ''k2'', ra_dry_run := True\<rparr>) w' = Some (r, v) \<and>
     place_order_idempotent (router_sample_env None) router_sample_args v = Some (RouterIdempotent (JObj [(''id'', JStr ''x1'')]), v)"
proof -
  obtain w' where w': "place_order_idempotent (router_sample_env None) router_sample_args router_sample_world = Some (RouterOk (JObj [(''id'', JStr ''x1'')]), w')"
    using router_sample_call by blast
  obtain r v where v: "place_order_idempotent (router_sample_env None) (router_sample_args\<lparr>ra_key := ''k2'', ra_dry_run := True\<rparr>) w' = Some (r, v)"
    using router_answers by blast
  have later: "(router_later (ra_key router_sample_args))\<^sup>*\<^sup>* w' v" using router_later.called[OF v] by blast
  have "place_order_idempotent (router_sample_env None) router_sample_args v = Some (RouterIdempotent (JObj [(''id'', JStr ''x1'')]), v)"
    by (rule router_idempotent[OF w' _ later]) (simp_all add: router_sample_env_def)
  with w' v show ?thesis by blast
qed

theorem lost_success_reopens_key_witness:
  "\<exists>w'. place_order_idempotent (router_sample_env (Some (OtherError ''OperationalError'' ''locked''))) router_sample_args router_sample_world =
       Some (RouterFailed (Raised (OtherError ''OperationalError'' ''locked'')), w') \<and> length (pw_created (rt_orders w')) = 1"
proof -
  let ?e = "OtherError ''OperationalError'' ''locked''"
  let ?env = "router_sample_env (Some ?e)"
  obtain w1 where w1: "router_attempt (router_sample_env None) router_sample_args 0 router_sample_world = (Inr (JObj [(''id'', JStr ''x1'')]), w1)"
    "length (pw_created (rt_orders w1)) = 1" using router_sample_attempt by blast
  have same: "?env\<lparr>re_put_fault := (\<lambda>_. None)\<rparr> = router_sample_env None" by (simp add: router_sample_env_def)
  have created: "router_attempt (?env\<lparr>re_put_fault := (\<lambda>_. None)\<rparr>) router_sample_args 0 router_sample_world = (Inr (JObj [(''id'', JStr ''x1'')]), w1)"
    unfolding same by (rule w1(1))
  obtain cfg where cfg: "router_cfg_of [] = Inr cfg" using router_sample_cfg by blast
  have nr: "\<not> is_retryable_exception \<lparr>xc_ccxt = True, xc_isa = (\<lambda>c e. False)\<rparr> ?e"
  proof -
    have "lower ''OperationalError'' = ''operationalerror''" by code_simp
    then show ?thesis by (simp add: is_retryable_exception_def fatal_ccxt_def transient_type_names_def)
  qed
  have "\<exists>w'. place_order_idempotent ?env router_sample_args router_sample_world = Some (RouterFailed (Raised ?e), w') \<and> rt_orders w' = rt_orders w1 \<and>
    (\<forall>env' a'. ra_key a' = ra_key router_sample_args \<and> \<not> ra_dry_run a' \<and> re_open_error env' = None \<longrightarrow>
       place_order_idempotent env' a' w' = router_loop env' a' w')"
    by (rule lost_success_reopens_key[where cfg = cfg, OF _ _ _ _ created])
      (simp_all add: cfg nr router_sample_env_def router_sample_args_def router_sample_world_def idem_get_def select_key_def)
  then show ?thesis using w1(2) by auto
qed

end
