(* ===== verification/Deployment_Stage.thy ===== *)
theory Deployment_Stage
  imports Py_Json
begin

text \<open>
  services/control/deployment\_stage.py: the stage of a strategy, from paper trading to full allocation, kept in one JSON file per
  strategy, and the operator journal in which every transition is recorded. A promotion needs its journal entry and is rolled back
  without it, when the rollback succeeds; a demotion does neither, and its target may be any stage, also a higher one.

  A stage file is missing, unreadable, or an object whose \<open>history\<close> is a list; its \<open>stage\<close> is any text, since the
  file can be edited by hand. Files are written atomically. The faults are the exceptions of the save, of the journal
  and of the save that rolls back.
\<close>

section \<open>Stages\<close>

datatype stage = PAPER | SHADOW | CAPPED_LIVE | SCALED_LIVE | SAFE_DEGRADED

fun stage_value :: "stage \<Rightarrow> string" where
  "stage_value PAPER = ''paper''"
| "stage_value SHADOW = ''shadow''"
| "stage_value CAPPED_LIVE = ''capped_live''"
| "stage_value SCALED_LIVE = ''scaled_live''"
| "stage_value SAFE_DEGRADED = ''safe_degraded''"

definition stages :: "stage list" where
  "stages = [PAPER, SHADOW, CAPPED_LIVE, SCALED_LIVE, SAFE_DEGRADED]"

text \<open>\<open>Stage(v)\<close>\<close>

definition stage_of_value :: "string \<Rightarrow> exn + stage" where
  "stage_of_value v = (case select_key stage_value v stages of None \<Rightarrow> Inl (ValueError ''Stage'') | Some s \<Rightarrow> Inr s)"

definition promotion_order :: "stage list" where
  "promotion_order = [PAPER, SHADOW, CAPPED_LIVE, SCALED_LIVE]"

fun index_of :: "'a \<Rightarrow> 'a list \<Rightarrow> nat option" where
  "index_of x [] = None"
| "index_of x (y # ys) = (if x = y then Some 0 else map_option Suc (index_of x ys))"

fun stage_actions :: "stage \<Rightarrow> string list" where
  "stage_actions PAPER = [''simulate'']"
| "stage_actions SHADOW = [''simulate'', ''monitor'']"
| "stage_actions CAPPED_LIVE = [''submit_capped'', ''monitor'', ''reduce'']"
| "stage_actions SCALED_LIVE = [''submit_full'', ''monitor'', ''reduce'']"
| "stage_actions SAFE_DEGRADED = [''reduce'', ''flatten'', ''monitor'']"

fun stage_max_alloc :: "stage \<Rightarrow> pyfloat" where
  "stage_max_alloc PAPER = Fin 0"
| "stage_max_alloc SHADOW = Fin 0"
| "stage_max_alloc CAPPED_LIVE = mk_float (1 / 20)"
| "stage_max_alloc SCALED_LIVE = Fin 1"
| "stage_max_alloc SAFE_DEGRADED = Fin 0"

section \<open>Files and journal\<close>

record stage_change =
  sg_from :: stage
  sg_to :: stage
  sg_reason :: string
  sg_actor :: string
  sg_ts :: string

record stage_record =
  sr_stage :: "string option"
  sr_since_ts :: string
  sr_history :: "stage_change list"

datatype stage_file = NoFile | Unreadable | StageFile stage_record

record stage_event =
  sv_actor :: string
  sv_target :: string
  sv_result :: string
  sv_reason :: string
  sv_pre :: stage
  sv_post :: stage
  sv_ts :: string

record stage_world =
  sw_files :: "string \<Rightarrow> stage_file"
  sw_journal :: "stage_event list"

record stage_env =
  sn_now :: string
  sn_save :: "exn option"
  sn_event :: "exn option"
  sn_rollback :: "exn option"

definition load_stage :: "string \<Rightarrow> string \<Rightarrow> stage_world \<Rightarrow> stage_record" where
  "load_stage now sid w =
     (case sw_files w sid of
        StageFile r \<Rightarrow> r
      | _ \<Rightarrow> \<lparr>sr_stage = Some (stage_value PAPER), sr_since_ts = now, sr_history = []\<rparr>)"

definition save_stage :: "string \<Rightarrow> stage_record \<Rightarrow> stage_world \<Rightarrow> stage_world" where
  "save_stage sid r w = w\<lparr>sw_files := (sw_files w)(sid := StageFile r)\<rparr>"

definition record_stage :: "stage_record \<Rightarrow> exn + stage" where
  "record_stage r = stage_of_value (case sr_stage r of None \<Rightarrow> stage_value PAPER | Some v \<Rightarrow> v)"

definition get_current_stage :: "string \<Rightarrow> string \<Rightarrow> stage_world \<Rightarrow> exn + stage" where
  "get_current_stage now sid w = record_stage (load_stage now sid w)"

section \<open>Transitions\<close>

definition last_changes :: "nat \<Rightarrow> 'a list \<Rightarrow> 'a list" where
  "last_changes n xs = drop (length xs - n) xs"

definition transition_result :: "stage \<Rightarrow> stage \<Rightarrow> string" where
  "transition_result from_stage to_stage =
     (case (index_of to_stage promotion_order, index_of from_stage promotion_order) of
        (Some t, Some f) \<Rightarrow> if f < t then ''promoted'' else ''demoted''
      | _ \<Rightarrow> ''demoted'')"

text \<open>Whether the event was written, and the world after it.\<close>

definition record_stage_transition_event ::
    "stage_env \<Rightarrow> string \<Rightarrow> string \<Rightarrow> stage \<Rightarrow> stage \<Rightarrow> string \<Rightarrow> stage_world \<Rightarrow> bool \<times> stage_world" where
  "record_stage_transition_event env sid actor from_stage to_stage reason w =
     (case sn_event env of
        Some e \<Rightarrow> (False, w)
      | None \<Rightarrow> (True, w\<lparr>sw_journal := sw_journal w @ [\<lparr>sv_actor = actor, sv_target = sid, sv_result = transition_result from_stage to_stage,
           sv_reason = reason, sv_pre = from_stage, sv_post = to_stage, sv_ts = sn_now env\<rparr>]\<rparr>))"

definition rollback_stage_transition :: "stage_env \<Rightarrow> string \<Rightarrow> stage_record \<Rightarrow> stage_world \<Rightarrow> bool \<times> stage_world" where
  "rollback_stage_transition env sid original w =
     (case sn_rollback env of Some e \<Rightarrow> (False, w) | None \<Rightarrow> (True, save_stage sid original w))"

datatype transition_answer = TransitionOk bool | TransitionRolledBack bool

definition stage_transition ::
    "stage_env \<Rightarrow> string \<Rightarrow> stage_record \<Rightarrow> stage \<Rightarrow> stage \<Rightarrow> string \<Rightarrow> string \<Rightarrow> bool \<Rightarrow> stage_world \<Rightarrow> (exn + transition_answer) \<times> stage_world" where
  "stage_transition env sid rec0 from_stage to_stage reason actor require_operator_event w =
     (case sn_save env of
        Some e \<Rightarrow> (Inl e, w)
      | None \<Rightarrow>
          (let change = \<lparr>sg_from = from_stage, sg_to = to_stage, sg_reason = reason, sg_actor = actor, sg_ts = sn_now env\<rparr>;
               next_rec = rec0\<lparr>sr_stage := Some (stage_value to_stage), sr_since_ts := sn_now env,
                              sr_history := last_changes 50 (sr_history rec0 @ [change])\<rparr>;
               (ok, w1) = record_stage_transition_event env sid actor from_stage to_stage reason (save_stage sid next_rec w)
           in if require_operator_event \<and> \<not> ok then
                (case rollback_stage_transition env sid rec0 w1 of (back, w2) \<Rightarrow> (Inr (TransitionRolledBack back), w2))
              else (Inr (TransitionOk ok), w1)))"

datatype stage_answer =
    StageMoved stage stage
  | StageUnchanged stage
  | CannotPromote stage
  | AtMaxStage stage
  | PromotionRolledBack stage stage bool

definition promote :: "stage_env \<Rightarrow> string \<Rightarrow> string \<Rightarrow> string \<Rightarrow> stage_world \<Rightarrow> (exn + stage_answer) \<times> stage_world" where
  "promote env sid reason actor w =
     (let rec0 = load_stage (sn_now env) sid w
      in case record_stage rec0 of
           Inl e \<Rightarrow> (Inl e, w)
         | Inr current \<Rightarrow>
             (if current = SAFE_DEGRADED then (Inr (CannotPromote current), w)
              else (let idx = (case index_of current promotion_order of None \<Rightarrow> - 1 | Some i \<Rightarrow> int i)
                    in if int (length promotion_order) - 1 \<le> idx then (Inr (AtMaxStage current), w)
                       else (let next_stage = promotion_order ! nat (idx + 1)
                             in case stage_transition env sid rec0 current next_stage reason actor True w of
                                  (Inl e, w1) \<Rightarrow> (Inl e, w1)
                                | (Inr (TransitionRolledBack back), w1) \<Rightarrow> (Inr (PromotionRolledBack current next_stage back), w1)
                                | (Inr (TransitionOk _), w1) \<Rightarrow> (Inr (StageMoved next_stage current), w1)))))"

definition demote :: "stage_env \<Rightarrow> string \<Rightarrow> string \<Rightarrow> string \<Rightarrow> stage option \<Rightarrow> stage_world \<Rightarrow> (exn + stage_answer) \<times> stage_world" where
  "demote env sid reason actor target w =
     (let rec0 = load_stage (sn_now env) sid w
      in case record_stage rec0 of
           Inl e \<Rightarrow> (Inl e, w)
         | Inr current \<Rightarrow>
             (let to_stage = (case target of None \<Rightarrow> SAFE_DEGRADED | Some t \<Rightarrow> t)
              in if current = to_stage then (Inr (StageUnchanged current), w)
                 else (case stage_transition env sid rec0 current to_stage reason actor False w of
                         (Inl e, w1) \<Rightarrow> (Inl e, w1)
                       | (Inr _, w1) \<Rightarrow> (Inr (StageMoved to_stage current), w1))))"

definition force_safe_degraded :: "stage_env \<Rightarrow> string \<Rightarrow> string \<Rightarrow> string \<Rightarrow> stage_world \<Rightarrow> (exn + stage_answer) \<times> stage_world" where
  "force_safe_degraded env sid reason actor w = demote env sid reason actor (Some SAFE_DEGRADED) w"

section \<open>What a stage allows\<close>

definition action_allowed :: "string \<Rightarrow> string \<Rightarrow> string \<Rightarrow> stage_world \<Rightarrow> exn + bool" where
  "action_allowed now sid action w =
     (case get_current_stage now sid w of Inl e \<Rightarrow> Inl e | Inr s \<Rightarrow> Inr (action \<in> set (stage_actions s)))"

definition max_allocation_frac :: "string \<Rightarrow> string \<Rightarrow> stage_world \<Rightarrow> exn + pyfloat" where
  "max_allocation_frac now sid w =
     (case get_current_stage now sid w of Inl e \<Rightarrow> Inl e | Inr s \<Rightarrow> Inr (stage_max_alloc s))"

section \<open>Orders only after recorded promotions\<close>

lemma stage_of_stage_value [simp]: "stage_of_value (stage_value s) = Inr s"
  by (cases s) (simp_all add: stage_of_value_def stages_def select_key_Cons)

lemma load_saved [simp]: "load_stage now sid (save_stage sid' r w) = (if sid = sid' then r else load_stage now sid w)"
  by (simp add: load_stage_def save_stage_def)

lemma load_journal [simp]: "load_stage now sid (w\<lparr>sw_journal := j\<rparr>) = load_stage now sid w"
  by (simp add: load_stage_def)

lemma save_journal [simp]:
  "(save_stage sid r w)\<lparr>sw_journal := j\<rparr> = save_stage sid r (w\<lparr>sw_journal := j\<rparr>)" "sw_journal (save_stage sid r w) = sw_journal w"
  by (cases w; simp add: save_stage_def)+

lemma save_twice [simp]: "save_stage sid r' (save_stage sid r w) = save_stage sid r' w"
  by (simp add: save_stage_def)

text \<open>What a transition leaves: the file of the strategy and the journal, or nothing.\<close>

lemma stage_transition_cases:
  assumes t: "stage_transition env sid rec0 f t reason actor req w = (q, w')"
  obtains (failed) e where "q = Inl e" "w' = w"
  | (undone) "req" "q = Inr (TransitionRolledBack True)" "w' = save_stage sid rec0 w" "sn_rollback env = None"
  | (stuck) r where "req" "q = Inr (TransitionRolledBack False)" "w' = save_stage sid r w" "sr_stage r = Some (stage_value t)" "sn_rollback env \<noteq> None"
  | (silent) r where "\<not> req" "q = Inr (TransitionOk False)" "w' = save_stage sid r w" "sr_stage r = Some (stage_value t)"
  | (moved) r e where "q = Inr (TransitionOk True)" "w' = save_stage sid r (w\<lparr>sw_journal := sw_journal w @ [e]\<rparr>)" "sr_stage r = Some (stage_value t)"
      "sv_target e = sid" "sv_pre e = f" "sv_post e = t" "sv_result e = transition_result f t"
proof (cases "sn_save env")
  case (Some e)
  then show ?thesis using t by (intro failed[of e]) (simp_all add: stage_transition_def)
next
  case None
  let ?r = "rec0\<lparr>sr_stage := Some (stage_value t), sr_since_ts := sn_now env, sr_history :=
    last_changes 50 (sr_history rec0 @ [\<lparr>sg_from = f, sg_to = t, sg_reason = reason, sg_actor = actor, sg_ts = sn_now env\<rparr>])\<rparr>"
  show ?thesis
  proof (cases "sn_event env")
    case ev: (Some e)
    show ?thesis
    proof (cases "sn_rollback env")
      case None
      then show ?thesis
        using t ev \<open>sn_save env = None\<close> undone silent[of ?r]
        by (cases req) (auto simp: stage_transition_def record_stage_transition_event_def rollback_stage_transition_def)
    next
      case (Some e')
      then show ?thesis
        using t ev \<open>sn_save env = None\<close> stuck[of ?r] silent[of ?r]
        by (cases req) (auto simp: stage_transition_def record_stage_transition_event_def rollback_stage_transition_def)
    qed
  next
    case ev: None
    then show ?thesis
      using t \<open>sn_save env = None\<close>
      by (intro moved) (auto simp: stage_transition_def record_stage_transition_event_def)
  qed
qed

fun steps_to :: "stage \<Rightarrow> (stage \<times> stage) list" where
  "steps_to PAPER = []"
| "steps_to SHADOW = [(PAPER, SHADOW)]"
| "steps_to CAPPED_LIVE = [(PAPER, SHADOW), (SHADOW, CAPPED_LIVE)]"
| "steps_to SCALED_LIVE = [(PAPER, SHADOW), (SHADOW, CAPPED_LIVE), (CAPPED_LIVE, SCALED_LIVE)]"
| "steps_to SAFE_DEGRADED = []"

definition journal_has :: "string \<Rightarrow> stage_event list \<Rightarrow> stage \<times> stage \<Rightarrow> bool" where
  "journal_has sid j p \<longleftrightarrow> (\<exists>e \<in> set j. sv_target e = sid \<and> sv_pre e = fst p \<and> sv_post e = snd p \<and> sv_result e = ''promoted'')"

text \<open>The steps of the control plane: promotions and demotions of any strategy to any target, whichever saves, journal writes and rollbacks fail.\<close>

inductive stage_step :: "stage_world \<Rightarrow> stage_world \<Rightarrow> bool" where
  promotion: "promote env sid reason actor w = (r, w') \<Longrightarrow> stage_step w w'"
| demotion: "demote env sid reason actor target w = (r, w') \<Longrightarrow> stage_step w w'"

definition stage_rank :: "stage \<Rightarrow> nat" where
  "stage_rank s = length (steps_to s)"

text \<open>The two ways a strategy rises without a recorded promotion: a promotion that could be neither journalled nor rolled back, and a demotion whose target lies above
  its stage.\<close>

definition unrecorded_rise :: "string \<Rightarrow> stage_world \<Rightarrow> stage_world \<Rightarrow> bool" where
  "unrecorded_rise sid u v \<longleftrightarrow>
     (\<exists>env reason actor c n. promote env sid reason actor u = (Inr (PromotionRolledBack c n False), v)) \<or>
     (\<exists>env reason actor t c. demote env sid reason actor (Some t) u = (Inr (StageMoved t c), v) \<and> stage_rank c < stage_rank t)"

text \<open>What a strategy that rose only by recorded promotions satisfies.\<close>

definition stage_inv :: "string \<Rightarrow> stage_world \<Rightarrow> bool" where
  "stage_inv sid w \<longleftrightarrow>
     (\<forall>now. \<exists>s. sr_stage (load_stage now sid w) = Some (stage_value s) \<and> list_all (journal_has sid (sw_journal w)) (steps_to s))"

lemma lower_steps: "list_all p (steps_to c) \<Longrightarrow> stage_rank t \<le> stage_rank c \<Longrightarrow> list_all p (steps_to t)"
  by (cases c; cases t) (simp_all add: stage_rank_def)

lemma journal_has_mono: "list_all (journal_has sid j) ps \<Longrightarrow> list_all (journal_has sid (j @ [e])) ps"
  by (auto simp: list_all_iff journal_has_def)

lemma promotion_next:
  assumes "promote env sid reason actor w = (q, w')"
  obtains (same) "w' = w" "\<forall>c n b. q \<noteq> Inr (PromotionRolledBack c n b)"
  | (stepped) c n tq where "record_stage (load_stage (sn_now env) sid w) = Inr c" "steps_to n = steps_to c @ [(c, n)]"
      "transition_result c n = ''promoted''" "stage_transition env sid (load_stage (sn_now env) sid w) c n reason actor True w = (tq, w')"
      "q = (case tq of Inl e \<Rightarrow> Inl e | Inr (TransitionRolledBack b) \<Rightarrow> Inr (PromotionRolledBack c n b) | Inr (TransitionOk _) \<Rightarrow> Inr (StageMoved n c))"
proof (cases "record_stage (load_stage (sn_now env) sid w)")
  case (Inl e)
  then show ?thesis using assms by (intro same) (auto simp: promote_def Let_def)
next
  case (Inr c)
  have tr: "steps_to n = steps_to c @ [(c, n)] \<and> transition_result c n = ''promoted''" if "(c, n) \<in> {(PAPER, SHADOW), (SHADOW, CAPPED_LIVE), (CAPPED_LIVE, SCALED_LIVE)}" for n
    using that by (auto simp: transition_result_def promotion_order_def)
  show ?thesis
  proof (cases "c = SAFE_DEGRADED \<or> c = SCALED_LIVE")
    case True
    then show ?thesis using assms Inr by (intro same) (auto simp: promote_def Let_def promotion_order_def)
  next
    case False
    obtain n where n: "(c, n) \<in> {(PAPER, SHADOW), (SHADOW, CAPPED_LIVE), (CAPPED_LIVE, SCALED_LIVE)}" using False by (cases c) auto
    obtain tq w1 where tq: "stage_transition env sid (load_stage (sn_now env) sid w) c n reason actor True w = (tq, w1)" by fastforce
    have "(case tq of Inl e \<Rightarrow> (Inl e, w1) | Inr (TransitionOk _) \<Rightarrow> (Inr (StageMoved n c), w1) | Inr (TransitionRolledBack b) \<Rightarrow> (Inr (PromotionRolledBack c n b), w1)) = (q, w')"
      using n
    proof (elim insertE emptyE)
      assume "(c, n) = (PAPER, SHADOW)"
      then show ?thesis using assms Inr tq by (clarsimp simp: promote_def Let_def promotion_order_def)
    next
      assume "(c, n) = (SHADOW, CAPPED_LIVE)"
      then show ?thesis using assms Inr tq by (clarsimp simp: promote_def Let_def promotion_order_def numeral_2_eq_2)
    next
      assume "(c, n) = (CAPPED_LIVE, SCALED_LIVE)"
      then show ?thesis using assms Inr tq by (clarsimp simp: promote_def Let_def promotion_order_def numeral_3_eq_3)
    qed
    then show ?thesis using n stepped[OF Inr, of n tq] tr[of n] tq by (auto split: sum.splits transition_answer.splits)
  qed
qed

lemma inv_save:
  assumes "stage_inv sid w" "sr_stage r = Some (stage_value s)" "list_all (journal_has sid (sw_journal w)) (steps_to s)"
  shows "stage_inv sid (save_stage sid r w)"
  unfolding stage_inv_def by (intro allI exI[of _ s]) (simp add: assms(2,3))

lemma inv_journal: "stage_inv sid w \<Longrightarrow> stage_inv sid (w\<lparr>sw_journal := sw_journal w @ [e]\<rparr>)"
  using journal_has_mono unfolding stage_inv_def by fastforce

lemma inv_other: "sid' \<noteq> sid \<Longrightarrow> stage_inv sid (save_stage sid' r w) = stage_inv sid w"
  unfolding stage_inv_def by simp

lemma inv_current:
  assumes "stage_inv sid w" "record_stage (load_stage now sid w) = Inr c"
  shows "sr_stage (load_stage now sid w) = Some (stage_value c) \<and> list_all (journal_has sid (sw_journal w)) (steps_to c)"
proof -
  obtain s where s: "sr_stage (load_stage now sid w) = Some (stage_value s)" "list_all (journal_has sid (sw_journal w)) (steps_to s)"
    using assms(1) unfolding stage_inv_def by blast
  then have "c = s" using assms(2) by (simp add: record_stage_def)
  then show ?thesis using s by simp
qed

lemma transition_other_inv:
  assumes "stage_transition env sid' rec0 c t reason actor req w = (q, w')" "sid' \<noteq> sid" "stage_inv sid w"
  shows "stage_inv sid w'"
  using assms(1) by (cases rule: stage_transition_cases) (use assms in \<open>auto simp: inv_other inv_journal\<close>)

lemma promotion_inv:
  assumes p: "promote env sid reason actor w = (r, w')" and w: "stage_inv sid w" and rolled: "\<And>c n. r \<noteq> Inr (PromotionRolledBack c n False)"
  shows "stage_inv sid w'"
  using p
proof (cases rule: promotion_next)
  case same
  then show ?thesis using w by simp
next
  case (stepped c n tq)
  note cur = inv_current[OF w stepped(1)]
  from stepped(4) show ?thesis
  proof (cases rule: stage_transition_cases)
    case (moved rc e)
    let ?w = "w\<lparr>sw_journal := sw_journal w @ [e]\<rparr>"
    have "journal_has sid (sw_journal ?w) (c, n)" using moved stepped(3) by (auto simp: journal_has_def)
    then have "list_all (journal_has sid (sw_journal ?w)) (steps_to n)" using cur journal_has_mono stepped(2) by simp
    then have "stage_inv sid (save_stage sid rc ?w)" by (intro inv_save[OF inv_journal[OF w] moved(3)])
    then show ?thesis by (simp add: moved(2))
  next
    case undone
    then show ?thesis using inv_save[OF w] cur by blast
  next
    case (stuck rc)
    then show ?thesis using rolled[of c n] stepped(5) by simp
  qed (use w in auto)
qed

lemma demotion_inv:
  assumes d: "demote env sid reason actor target w = (r, w')" and w: "stage_inv sid w"
    and low: "\<And>t c. target = Some t \<Longrightarrow> r = Inr (StageMoved t c) \<Longrightarrow> stage_rank t \<le> stage_rank c"
  shows "stage_inv sid w'"
proof (cases "w' = w")
  case False
  define to where "to = (case target of None \<Rightarrow> SAFE_DEGRADED | Some t \<Rightarrow> t)"
  obtain c tq where c: "record_stage (load_stage (sn_now env) sid w) = Inr c"
    and t: "stage_transition env sid (load_stage (sn_now env) sid w) c to reason actor False w = (tq, w')"
    and r: "r = (case tq of Inl e \<Rightarrow> Inl e | Inr _ \<Rightarrow> Inr (StageMoved to c))"
    using d False unfolding demote_def Let_def to_def[symmetric] by (auto split: sum.splits if_splits prod.splits)
  note cur = inv_current[OF w c]
  have below: "list_all (journal_has sid (sw_journal w)) (steps_to to)" if "r = Inr (StageMoved to c)"
  proof (cases target)
    case None
    then show ?thesis by (simp add: to_def)
  next
    case (Some t)
    then show ?thesis using low[OF Some] that lower_steps[OF conjunct2[OF cur]] by (simp add: to_def)
  qed
  from t show ?thesis
  proof (cases rule: stage_transition_cases)
    case (moved rc e)
    have "list_all (journal_has sid (sw_journal (w\<lparr>sw_journal := sw_journal w @ [e]\<rparr>))) (steps_to to)"
      using below journal_has_mono moved(1) r by simp
    then have "stage_inv sid (save_stage sid rc (w\<lparr>sw_journal := sw_journal w @ [e]\<rparr>))" by (rule inv_save[OF inv_journal[OF w] moved(3)])
    then show ?thesis by (simp add: moved(2))
  next
    case (silent rc)
    then show ?thesis using inv_save[OF w silent(4)] below r by simp
  qed (use w in auto)
qed (use w in simp)

lemma stage_step_inv:
  assumes "stage_step w w'" "stage_inv sid w"
  shows "stage_inv sid w' \<or> unrecorded_rise sid w w'"
  using assms(1)
proof cases
  case (promotion env sid' reason actor r)
  show ?thesis
  proof (cases "sid' = sid")
    case True
    then show ?thesis using promotion_inv[of env sid reason actor w r w'] promotion assms(2) unfolding unrecorded_rise_def by blast
  next
    case False
    from promotion show ?thesis
      by (cases rule: promotion_next) (use assms(2) False transition_other_inv in auto)
  qed
next
  case (demotion env sid' reason actor target r)
  show ?thesis
  proof (cases "sid' = sid")
    case True
    show ?thesis
    proof (cases "\<exists>t c. target = Some t \<and> r = Inr (StageMoved t c) \<and> stage_rank c < stage_rank t")
      case rises: True
      then show ?thesis using demotion True unfolding unrecorded_rise_def by blast
    next
      case False
      have "stage_inv sid w'"
        by (rule demotion_inv[OF demotion[unfolded True] assms(2)]) (meson False not_le_imp_less)
      then show ?thesis ..
    qed
  next
    case False
    then show ?thesis using demotion assms(2) transition_other_inv
      by (auto simp: demote_def Let_def split: sum.splits if_splits prod.splits)
  qed
qed

definition stage_start :: stage_world where
  "stage_start = \<lparr>sw_files = (\<lambda>_. NoFile), sw_journal = []\<rparr>"

lemma stage_reach_inv:
  "stage_step\<^sup>*\<^sup>* stage_start w \<Longrightarrow> stage_inv sid w \<or> (\<exists>u v. stage_step\<^sup>*\<^sup>* stage_start u \<and> unrecorded_rise sid u v \<and> stage_step\<^sup>*\<^sup>* v w)"
proof (induction rule: rtranclp_induct)
  case base
  have "\<exists>s. Some ''paper'' = Some (stage_value s) \<and> list_all (journal_has sid []) (steps_to s)" by (intro exI[of _ PAPER]) simp
  then show ?case by (simp add: stage_inv_def stage_start_def load_stage_def)
next
  case (step y z)
  then show ?case by (meson rtranclp.simps stage_step_inv)
qed

text \<open>C10. Real orders need recorded promotions. In every state the control plane reaches from empty files, whichever saves, journal writes and rollbacks failed, an
  action that submits orders is allowed for a strategy only when the operator journal holds its promotions from paper to shadow and from shadow to capped
  live, and for full size also the one to scaled live; unless on the way that strategy rose without a recorded promotion, by a promotion that was answered as
  rolled back although its rollback failed, or by a call of \<open>demote\<close> with a target above its stage.\<close>

theorem orders_need_promotions:
  assumes "stage_step\<^sup>*\<^sup>* stage_start w" "action_allowed now sid action w = Inr True" "action \<in> {''submit_capped'', ''submit_full''}"
  shows "(journal_has sid (sw_journal w) (PAPER, SHADOW) \<and> journal_has sid (sw_journal w) (SHADOW, CAPPED_LIVE) \<and>
      (action = ''submit_full'' \<longrightarrow> journal_has sid (sw_journal w) (CAPPED_LIVE, SCALED_LIVE))) \<or>
    (\<exists>u v. stage_step\<^sup>*\<^sup>* stage_start u \<and> unrecorded_rise sid u v \<and> stage_step\<^sup>*\<^sup>* v w)"
proof -
  obtain c where c: "record_stage (load_stage now sid w) = Inr c" "action \<in> set (stage_actions c)"
    using assms(2) by (auto simp: action_allowed_def get_current_stage_def split: sum.splits)
  have "list_all (journal_has sid (sw_journal w)) (steps_to c)" if "stage_inv sid w" using inv_current[OF that c(1)] by simp
  then show ?thesis using c(2) assms(3) stage_reach_inv[OF assms(1), of sid] by (cases c) auto
qed

text \<open>No promotion leads out of safe-degraded, and a demotion only with another target.\<close>

lemma safe_degraded_left_by_target:
  assumes "stage_step w w'" "get_current_stage now sid w = Inr SAFE_DEGRADED" "get_current_stage now sid w' \<noteq> Inr SAFE_DEGRADED"
  shows "\<exists>env reason actor t. demote env sid reason actor (Some t) w = (Inr (StageMoved t SAFE_DEGRADED), w') \<and> t \<noteq> SAFE_DEGRADED"
proof -
  have w: "record_stage (load_stage t sid w) = Inr SAFE_DEGRADED" for t
    using assms(2) by (auto simp: get_current_stage_def load_stage_def record_stage_def split: stage_file.splits)
  have other: "get_current_stage now sid w' = get_current_stage now sid w"
    if "stage_transition env sid' rec0 c t reason actor req w = (q, w')" "sid' \<noteq> sid" for env sid' rec0 c t reason actor req q
    using that(1) by (cases rule: stage_transition_cases) (use that(2) in \<open>auto simp: get_current_stage_def\<close>)
  from assms(1) show ?thesis
  proof cases
    case (promotion env sid' reason actor r)
    then show ?thesis
    proof (cases rule: promotion_next)
      case (stepped c n tq)
      have "sid' \<noteq> sid" using w[of "sn_now env"] stepped(1,2) by (cases n) auto
      then show ?thesis using other[OF stepped(4)] assms(2,3) by simp
    qed (use assms in simp)
  next
    case (demotion env sid' reason actor target r)
    define to where "to = (case target of None \<Rightarrow> SAFE_DEGRADED | Some t \<Rightarrow> t)"
    have ne: "w' \<noteq> w" using assms by auto
    obtain c tq where c: "record_stage (load_stage (sn_now env) sid' w) = Inr c" "c \<noteq> to"
      and t: "stage_transition env sid' (load_stage (sn_now env) sid' w) c to reason actor False w = (tq, w')"
      and r: "r = (case tq of Inl e \<Rightarrow> Inl e | Inr _ \<Rightarrow> Inr (StageMoved to c))"
      using demotion ne unfolding demote_def Let_def to_def[symmetric] by (auto split: sum.splits if_splits prod.splits)
    have sid: "sid' = sid" using other[OF t] assms(2,3) by auto
    then have "c = SAFE_DEGRADED" using w c(1) by simp
    moreover obtain t where "target = Some t" "t = to" using c(2) calculation by (cases target) (simp_all add: to_def)
    moreover have "\<exists>a. tq = Inr a" using t ne by (cases rule: stage_transition_cases) auto
    ultimately show ?thesis using demotion sid r c(2) by (intro exI[of _ env] exI[of _ reason] exI[of _ actor] exI[of _ t]) auto
  qed
qed

text \<open>When the journal and then the rollback fail, the promotion stays although the answer is a refusal, and the journal has no entry of it.\<close>

lemma failed_rollback_promotes:
  assumes "promote env sid reason actor w = (Inr (PromotionRolledBack c n False), w')"
  shows "get_current_stage now sid w' = Inr n \<and> sw_journal w' = sw_journal w"
  using assms
proof (cases rule: promotion_next)
  case same
  then show ?thesis by blast
next
  case (stepped c' n' tq)
  then have tq: "tq = Inr (TransitionRolledBack False)" "n' = n" by (auto split: sum.splits transition_answer.splits)
  from stepped(4) show ?thesis
    by (cases rule: stage_transition_cases) (use tq in \<open>auto simp: get_current_stage_def record_stage_def\<close>)
qed

definition stage_sample_env :: stage_env where
  "stage_sample_env = \<lparr>sn_now = ''n'', sn_save = None, sn_event = None, sn_rollback = None\<rparr>"

definition stage_sample :: stage_world where
  "stage_sample = snd (promote stage_sample_env ''s'' ''r'' ''op'' (snd (promote stage_sample_env ''s'' ''r'' ''op'' stage_start)))"

lemma stage_sample_reach: "stage_step\<^sup>*\<^sup>* stage_start stage_sample"
proof -
  have st: "stage_step w (snd (promote stage_sample_env ''s'' ''r'' ''op'' w))" for w
    by (rule stage_step.promotion[of stage_sample_env "''s''" "''r''" "''op''"]) (auto simp: stage_sample_env_def prod_eq_iff)
  show ?thesis unfolding stage_sample_def by (meson st rtranclp.rtrancl_into_rtrancl rtranclp.rtrancl_refl)
qed

lemma stage_sample_allows: "action_allowed ''n'' ''s'' ''submit_capped'' stage_sample = Inr True"
  by (simp add: action_allowed_def get_current_stage_def stage_sample_def promote_def Let_def stage_start_def load_stage_def stage_sample_env_def
      record_stage_def stage_of_value_def stages_def select_key_Cons promotion_order_def stage_transition_def record_stage_transition_event_def save_stage_def)

theorem orders_need_promotions_witness:
  "(journal_has ''s'' (sw_journal stage_sample) (PAPER, SHADOW) \<and> journal_has ''s'' (sw_journal stage_sample) (SHADOW, CAPPED_LIVE)) \<or>
   (\<exists>u v. stage_step\<^sup>*\<^sup>* stage_start u \<and> unrecorded_rise ''s'' u v \<and> stage_step\<^sup>*\<^sup>* v stage_sample)"
  using orders_need_promotions[OF stage_sample_reach stage_sample_allows] by blast

end
