(* ===== verification/Control_Kernel.thy ===== *)
theory Control_Kernel
  imports Deployment_Stage
begin

text \<open>
  services/control/kernel.py with services/control/cognitive\_budget.py, services/control/allocator.py and
  services/control/retirement\_checker.py: the decision whether a strategy may take new risk, from its deployment
  stage, six metrics, the alerts an operator has open and the evidence of its fills, and how much of the
  risk budget it gets. The kernel may demote the strategy to safe-degraded on the way.

  Metrics are floats, missing ones \<open>None\<close>. The alert file holds what the module writes or is unreadable; evidence
  files are read from outside. A sum of floats is added from the left. Reasons are kept by name, without the numbers in their texts.
\<close>

section \<open>Cognitive budget\<close>

record budget_alert =
  ba_type :: string
  ba_level :: string
  ba_ts :: string

record budget_entry =
  be_active_alerts :: "budget_alert list"
  be_last_updated :: string

type_synonym budget_file = "(string \<rightharpoonup> budget_entry) option"

definition budget_load :: "budget_file \<Rightarrow> string \<rightharpoonup> budget_entry" where
  "budget_load f = (case f of None \<Rightarrow> Map.empty | Some d \<Rightarrow> d)"

definition active_alerts :: "string \<Rightarrow> budget_file \<Rightarrow> budget_alert list" where
  "active_alerts sid f = (case budget_load f sid of None \<Rightarrow> [] | Some e \<Rightarrow> be_active_alerts e)"

definition max_alerts :: nat where
  "max_alerts = 4"

definition max_active_symbols :: int where
  "max_active_symbols = 3"

definition budget_put :: "string \<Rightarrow> string \<Rightarrow> budget_alert list \<Rightarrow> budget_file \<Rightarrow> budget_file" where
  "budget_put now sid alerts f = Some ((budget_load f)(sid \<mapsto> \<lparr>be_active_alerts = alerts, be_last_updated = now\<rparr>))"

definition record_alert :: "string \<Rightarrow> string \<Rightarrow> string \<Rightarrow> string \<Rightarrow> budget_file \<Rightarrow> (nat \<times> bool) \<times> budget_file" where
  "record_alert now sid alert_type level f =
     (let old = active_alerts sid f;
          alerts = (if list_ex (\<lambda>a. ba_type a = alert_type) old then old
                    else old @ [\<lparr>ba_type = alert_type, ba_level = level, ba_ts = now\<rparr>])
      in ((length alerts, max_alerts < length alerts), budget_put now sid alerts f))"

definition clear_alert :: "string \<Rightarrow> string \<Rightarrow> string \<Rightarrow> budget_file \<Rightarrow> budget_file" where
  "clear_alert now sid alert_type f = budget_put now sid (filter (\<lambda>a. ba_type a \<noteq> alert_type) (active_alerts sid f)) f"

definition clear_all_alerts :: "string \<Rightarrow> string \<Rightarrow> budget_file \<Rightarrow> budget_file" where
  "clear_all_alerts now sid f = (if budget_load f sid = None then f else budget_put now sid [] f)"

definition check_budget :: "string \<Rightarrow> int option \<Rightarrow> budget_file \<Rightarrow> nat \<times> bool" where
  "check_budget sid active_symbols f =
     (let n = length (active_alerts sid f)
      in (n, max_alerts < n \<or> (case active_symbols of None \<Rightarrow> False | Some k \<Rightarrow> max_active_symbols < k)))"

section \<open>Allocation\<close>

definition clamp01 :: "pyfloat \<Rightarrow> pyfloat" where
  "clamp01 x = pymax (Fin 0) (pymin (Fin 1) x)"

definition compute_allocation :: "string \<Rightarrow> string \<Rightarrow> pyfloat \<Rightarrow> pyfloat \<Rightarrow> pyfloat \<Rightarrow> pyfloat \<Rightarrow> stage_world \<Rightarrow> exn + pyfloat" where
  "compute_allocation now sid regime_stability drift_penalty drawdown_frac base_weight w =
     (case get_current_stage now sid w of
        Inl e \<Rightarrow> Inl e
      | Inr stage \<Rightarrow>
          (if stage \<in> {PAPER, SHADOW, SAFE_DEGRADED} then Inr (Fin 0)
           else (let stage_cap = stage_max_alloc stage
                 in if fle stage_cap (Fin 0) then Inr (Fin 0)
                    else (let stab = clamp01 regime_stability; drift = clamp01 drift_penalty; dd = clamp01 drawdown_frac;
                              dd_factor = pymax (Fin 0) (fsub (Fin 1) dd);
                              raw = fmul (fmul (fmul base_weight stab) (fsub (Fin 1) drift)) dd_factor;
                              clamped = pymax (Fin 0) (pymin stage_cap raw)
                          in Inr (if fle (mk_float (1 / 200)) clamped then clamped else Fin 0)))))"

section \<open>Retirement\<close>

datatype retirement_trigger = RollingExpectancyNegative | DrawdownExceeded

fun floats_of :: "json list \<Rightarrow> exn + pyfloat list" where
  "floats_of [] = Inr []"
| "floats_of (v # vs) =
     (case json_float (jor v (JInt 0)) of
        Inl e \<Rightarrow> Inl e
      | Inr x \<Rightarrow> (case floats_of vs of Inl e \<Rightarrow> Inl e | Inr xs \<Rightarrow> Inr (x # xs)))"

definition max_of :: "pyfloat \<Rightarrow> pyfloat list \<Rightarrow> pyfloat" where
  "max_of dflt xs = (case xs of [] \<Rightarrow> dflt | x # ys \<Rightarrow> foldl pymax x ys)"

definition rolling_expectancy_negative :: "pyfloat list \<Rightarrow> bool" where
  "rolling_expectancy_negative pnls \<longleftrightarrow>
     10 \<le> length pnls \<and>
     (case fdiv (foldl fadd (Fin 0) pnls) (Fin (of_nat (length pnls))) of None \<Rightarrow> False | Some avg \<Rightarrow> flt avg (Fin 0))"

definition check_retirement_triggers :: "dict list \<Rightarrow> dict list \<Rightarrow> exn + retirement_trigger list" where
  "check_retirement_triggers fills sessions =
     (case floats_of (map (jget ''pnl_usd'') (filter (\<lambda>f. ''pnl_usd'' \<in> fst ` set f) fills)) of
        Inl e \<Rightarrow> Inl e
      | Inr pnls \<Rightarrow>
          (case floats_of (map (jget ''drawdown_from_peak'') sessions) of
             Inl e \<Rightarrow> Inl e
           | Inr dds \<Rightarrow>
               Inr ((if rolling_expectancy_negative pnls then [RollingExpectancyNegative] else []) @
                    (if flt (Fin 12) (max_of (Fin 0) dds) then [DrawdownExceeded] else []))))"

section \<open>The kernel\<close>

datatype kernel_action = ACTION_ALLOW | ACTION_DERISK | ACTION_RESTRICT | ACTION_HALT

fun action_severity :: "kernel_action \<Rightarrow> nat" where
  "action_severity ACTION_ALLOW = 0"
| "action_severity ACTION_DERISK = 1"
| "action_severity ACTION_RESTRICT = 2"
| "action_severity ACTION_HALT = 3"

definition worst_action :: "kernel_action list \<Rightarrow> kernel_action" where
  "worst_action acts =
     (case acts of [] \<Rightarrow> ACTION_ALLOW
      | a # rest \<Rightarrow> foldl (\<lambda>m b. if action_severity m < action_severity b then b else m) a rest)"

type_synonym metrics = "string \<Rightarrow> pyfloat option"

text \<open>\<open>metrics.get(k) or d\<close>: zero is as good as missing.\<close>

definition metric_or :: "metrics \<Rightarrow> string \<Rightarrow> pyfloat \<Rightarrow> pyfloat" where
  "metric_or m k d = (case m k of None \<Rightarrow> d | Some x \<Rightarrow> if x = Fin 0 then d else x)"

record kernel_env =
  ke_stage :: stage_env
  ke_budget :: budget_file
  ke_evidence :: "(exn + dict list \<times> dict list) option"

record kernel_decision =
  kd_action :: kernel_action
  kd_stage :: stage
  kd_new_risk_allowed :: bool
  kd_allocation_frac :: pyfloat
  kd_reasons :: "string list"
  kd_breach :: bool

type_synonym triggers = "(kernel_action \<times> string) list"

definition slippage_check :: "pyfloat \<Rightarrow> triggers" where
  "slippage_check slip =
     (if fle (Fin 1) slip then [(ACTION_HALT, ''slippage_p95_crit'')]
      else if fle (Fin (1 / 2)) slip then [(ACTION_DERISK, ''slippage_p95_warn'')] else [])"

definition fill_rate_check :: "pyfloat \<Rightarrow> triggers" where
  "fill_rate_check rate =
     (if fle rate (mk_float (4 / 5)) then [(ACTION_HALT, ''fill_rate_crit'')]
      else if fle rate (mk_float (23 / 25)) then [(ACTION_DERISK, ''fill_rate_warn'')] else [])"

definition recon_drift_check :: "pyfloat \<Rightarrow> triggers" where
  "recon_drift_check recon =
     (if fle (mk_float (1 / 20)) recon then [(ACTION_HALT, ''recon_drift_crit'')]
      else if fle (mk_float (1 / 100)) recon then [(ACTION_RESTRICT, ''recon_drift_warn'')] else [])"

definition regime_check :: "pyfloat \<Rightarrow> triggers" where
  "regime_check regime =
     (if fle regime (Fin (1 / 4)) then [(ACTION_DERISK, ''regime_stability_crit'')]
      else if fle regime (Fin (1 / 2)) then [(ACTION_DERISK, ''regime_stability_warn'')] else [])"

definition drawdown_check :: "kernel_env \<Rightarrow> string \<Rightarrow> pyfloat \<Rightarrow> stage_world \<Rightarrow> (exn + triggers) \<times> stage_world" where
  "drawdown_check env sid dd_days w =
     (if fle (Fin 60) dd_days then
        (case force_safe_degraded (ke_stage env) sid ''dd_duration_crit'' ''kernel'' w of
           (Inl e, w1) \<Rightarrow> (Inl e, w1)
         | (Inr _, w1) \<Rightarrow> (Inr [(ACTION_HALT, ''dd_duration_crit'')], w1))
      else if fle (Fin 30) dd_days then (Inr [(ACTION_DERISK, ''dd_duration_warn'')], w)
      else (Inr [], w))"

definition budget_check :: "kernel_env \<Rightarrow> string \<Rightarrow> int \<Rightarrow> stage_world \<Rightarrow> (exn + triggers) \<times> stage_world" where
  "budget_check env sid alerts w =
     (if 4 \<le> alerts \<or> snd (check_budget sid None (ke_budget env)) then
        (case force_safe_degraded (ke_stage env) sid ''cognitive_budget_breach'' ''kernel'' w of
           (Inl e, w1) \<Rightarrow> (Inl e, w1)
         | (Inr _, w1) \<Rightarrow> (Inr [(ACTION_HALT, ''cognitive_budget_breach'')], w1))
      else if 3 \<le> alerts then (Inr [(ACTION_RESTRICT, ''alert_count_warn'')], w)
      else (Inr [], w))"

text \<open>Every exception of the retirement check is swallowed.\<close>

definition retirement_check :: "kernel_env \<Rightarrow> string \<Rightarrow> stage_world \<Rightarrow> triggers \<times> stage_world" where
  "retirement_check env sid w =
     (case ke_evidence env of
        Some (Inr (fills, sessions)) \<Rightarrow>
          (case check_retirement_triggers fills sessions of
             Inr ts \<Rightarrow>
               (if 2 \<le> length ts then
                  (case force_safe_degraded (ke_stage env) sid ''retirement_triggered'' ''kernel'' w of
                     (Inl e, w1) \<Rightarrow> ([], w1)
                   | (Inr _, w1) \<Rightarrow> ([(ACTION_HALT, ''retirement_required'')], w1))
                else ([], w))
           | Inl _ \<Rightarrow> ([], w))
      | _ \<Rightarrow> ([], w))"

definition kernel_allocation :: "kernel_env \<Rightarrow> string \<Rightarrow> metrics \<Rightarrow> stage_world \<Rightarrow> exn + pyfloat" where
  "kernel_allocation env sid m w =
     (let drift_penalty = pymin (Fin 1) (metric_or m ''slippage_p95'' (Fin 0));
          dd_frac = pymin (Fin 1) (case fdiv (metric_or m ''dd_duration_days'' (Fin 0)) (Fin 60) of None \<Rightarrow> NaN | Some x \<Rightarrow> x)
      in compute_allocation (sn_now (ke_stage env)) sid (metric_or m ''regime_stability'' (Fin 1)) drift_penalty dd_frac (mk_float (1 / 10)) w)"

definition kernel_result ::
    "kernel_env \<Rightarrow> string \<Rightarrow> kernel_action \<Rightarrow> stage \<Rightarrow> string list \<Rightarrow> metrics \<Rightarrow> stage_world \<Rightarrow> exn + kernel_decision" where
  "kernel_result env sid action stage reasons m w =
     (let new_risk = (action = ACTION_ALLOW \<and> stage \<notin> {PAPER, SHADOW, SAFE_DEGRADED})
      in case (if new_risk then kernel_allocation env sid m w else Inr (Fin 0)) of
           Inl e \<Rightarrow> Inl e
         | Inr alloc \<Rightarrow>
             (case get_current_stage (sn_now (ke_stage env)) sid w of
                Inl e \<Rightarrow> Inl e
              | Inr stage_now \<Rightarrow>
                  Inr \<lparr>kd_action = action, kd_stage = stage_now, kd_new_risk_allowed = (new_risk \<and> \<not> fle alloc (Fin 0)),
                    kd_allocation_frac = alloc, kd_reasons = reasons, kd_breach = snd (check_budget sid None (ke_budget env))\<rparr>))"

definition evaluate_live :: "kernel_env \<Rightarrow> string \<Rightarrow> metrics \<Rightarrow> stage \<Rightarrow> stage_world \<Rightarrow> (exn + kernel_decision) \<times> stage_world" where
  "evaluate_live env sid m stage w =
     (case float_int (metric_or m ''alert_count'' (Fin 0)) of
        Inl e \<Rightarrow> (Inl e, w)
      | Inr alerts \<Rightarrow>
          (case drawdown_check env sid (metric_or m ''dd_duration_days'' (Fin 0)) w of
             (Inl e, w1) \<Rightarrow> (Inl e, w1)
           | (Inr dd, w1) \<Rightarrow>
               (case budget_check env sid alerts w1 of
                  (Inl e, w2) \<Rightarrow> (Inl e, w2)
                | (Inr cb, w2) \<Rightarrow>
                    (case retirement_check env sid w2 of
                       (ret, w3) \<Rightarrow>
                         (let ts = slippage_check (metric_or m ''slippage_p95'' (Fin 0)) @ fill_rate_check (metric_or m ''fill_rate'' (Fin 1)) @
                                recon_drift_check (metric_or m ''recon_drift'' (Fin 0)) @ dd @ regime_check (metric_or m ''regime_stability'' (Fin 1)) @ cb @ ret
                          in (kernel_result env sid (worst_action (map fst ts)) stage (if ts = [] then [''nominal''] else map snd ts) m w3, w3))))))"

definition kernel_evaluate :: "kernel_env \<Rightarrow> string \<Rightarrow> metrics \<Rightarrow> stage_world \<Rightarrow> (exn + kernel_decision) \<times> stage_world" where
  "kernel_evaluate env sid m w =
     (case get_current_stage (sn_now (ke_stage env)) sid w of
        Inl e \<Rightarrow> (Inl e, w)
      | Inr stage \<Rightarrow>
          (if stage = SAFE_DEGRADED then (kernel_result env sid ACTION_HALT stage [''stage:safe_degraded''] m w, w)
           else if stage \<in> {PAPER, SHADOW} then (kernel_result env sid ACTION_ALLOW stage [''stage:no_orders''] m w, w)
           else evaluate_live env sid m stage w))"

definition float_floor :: "pyfloat \<Rightarrow> exn + int" where
  "float_floor f = (case f of Fin x \<Rightarrow> Inr \<lfloor>x\<rfloor> | NaN \<Rightarrow> Inl (ValueError ''floor'') | _ \<Rightarrow> Inl OverflowError)"

definition kernel_contracts :: "kernel_env \<Rightarrow> string \<Rightarrow> pyfloat \<Rightarrow> pyfloat \<Rightarrow> metrics \<Rightarrow> stage_world \<Rightarrow> (exn + int) \<times> stage_world" where
  "kernel_contracts env sid risk_budget_usd contract_notional_usd m w =
     (case kernel_evaluate env sid m w of
        (Inl e, w1) \<Rightarrow> (Inl e, w1)
      | (Inr d, w1) \<Rightarrow>
          (if \<not> kd_new_risk_allowed d then (Inr 0, w1)
           else (case fdiv (fmul (kd_allocation_frac d) risk_budget_usd) (pymax (Fin 1) contract_notional_usd) of
                   None \<Rightarrow> (Inl ZeroDivisionError, w1)
                 | Some q \<Rightarrow>
                     (case float_floor q of
                        Inl e \<Rightarrow> (Inl e, w1)
                      | Inr n \<Rightarrow>
                          (case get_current_stage (sn_now (ke_stage env)) sid w1 of
                             Inl e \<Rightarrow> (Inl e, w1)
                           | Inr stage \<Rightarrow> (Inr (max 0 (if stage = CAPPED_LIVE then min n 1 else n)), w1))))))"

section \<open>New risk only under nominal conditions\<close>

lemma worst_action_severity: "a \<in> set acts \<Longrightarrow> action_severity a \<le> action_severity (worst_action acts)"
proof -
  have fold: "action_severity x \<le> action_severity (foldl (\<lambda>m b. if action_severity m < action_severity b then b else m) x xs) \<and>
      (\<forall>a \<in> set xs. action_severity a \<le> action_severity (foldl (\<lambda>m b. if action_severity m < action_severity b then b else m) x xs))" for x xs
    by (induction xs arbitrary: x) (auto split: if_splits intro: order_trans[OF less_imp_le] dest: order_trans, (meson le_trans less_imp_le not_le)+)
  assume "a \<in> set acts"
  then show ?thesis using fold by (cases acts) (auto simp: worst_action_def)
qed

text \<open>The kernel allows only when no check fired: a check that fires never asks to allow.\<close>

lemma worst_action_allow: "worst_action acts = ACTION_ALLOW \<Longrightarrow> ACTION_ALLOW \<notin> set acts \<Longrightarrow> acts = []"
proof (rule ccontr)
  assume w: "worst_action acts = ACTION_ALLOW" "ACTION_ALLOW \<notin> set acts" "acts \<noteq> []"
  then obtain a where a: "a \<in> set acts" by (cases acts) auto
  then have "action_severity a = 0" using worst_action_severity[OF a] w by simp
  then show False using a w by (cases a) auto
qed

lemma failed_degrade_keeps_world:
  assumes "force_safe_degraded env sid reason actor w = (Inl e, w')"
  shows "w' = w \<and> (sn_save env = None \<longrightarrow> (\<exists>e. get_current_stage (sn_now env) sid w = Inl e))"
  using assms
  by (auto simp: force_safe_degraded_def demote_def stage_transition_def get_current_stage_def Let_def split: sum.splits if_splits option.splits prod.splits)

definition retirement_due :: "kernel_env \<Rightarrow> bool" where
  "retirement_due env \<longleftrightarrow>
     (case ke_evidence env of
        Some (Inr (fills, sessions)) \<Rightarrow> (case check_retirement_triggers fills sessions of Inr ts \<Rightarrow> 2 \<le> length ts | Inl _ \<Rightarrow> False)
      | _ \<Rightarrow> False)"

lemma drawdown_check_none: "drawdown_check env sid x w = (Inr [], w') \<Longrightarrow> \<not> fle (Fin 30) x \<and> w' = w"
  by (auto simp: drawdown_check_def split: if_splits prod.splits sum.splits)

lemma budget_check_none:
  "budget_check env sid n w = (Inr [], w') \<Longrightarrow> n < 3 \<and> \<not> snd (check_budget sid None (ke_budget env)) \<and> w' = w"
  by (auto simp: budget_check_def split: if_splits prod.splits sum.splits)

lemma retirement_check_none:
  assumes "retirement_check env sid w = ([], w')" "get_current_stage (sn_now (ke_stage env)) sid w = Inr s"
  shows "w' = w \<and> (sn_save (ke_stage env) = None \<longrightarrow> \<not> retirement_due env)"
  using assms failed_degrade_keeps_world
  by (fastforce simp: retirement_check_def retirement_due_def split: option.splits sum.splits prod.splits if_splits)

lemma checks_never_allow:
  "ACTION_ALLOW \<notin> fst ` set (slippage_check x)" "ACTION_ALLOW \<notin> fst ` set (fill_rate_check x)" "ACTION_ALLOW \<notin> fst ` set (recon_drift_check x)"
  "ACTION_ALLOW \<notin> fst ` set (regime_check x)" "drawdown_check env sid x w = (Inr ts, w') \<Longrightarrow> ACTION_ALLOW \<notin> fst ` set ts"
  "budget_check env sid n w = (Inr ts, w') \<Longrightarrow> ACTION_ALLOW \<notin> fst ` set ts" "retirement_check env sid w = (ts, w') \<Longrightarrow> ACTION_ALLOW \<notin> fst ` set ts"
  by (auto simp: slippage_check_def fill_rate_check_def recon_drift_check_def regime_check_def drawdown_check_def budget_check_def retirement_check_def
      split: if_splits prod.splits sum.splits option.splits)

lemma metric_checks_none:
  "slippage_check x = [] \<Longrightarrow> \<not> fle (Fin (1 / 2)) x" "fill_rate_check x = [] \<Longrightarrow> \<not> fle x (mk_float (23 / 25))"
  "recon_drift_check x = [] \<Longrightarrow> \<not> fle (mk_float (1 / 100)) x" "regime_check x = [] \<Longrightarrow> \<not> fle x (Fin (1 / 2))"
  by (auto simp: slippage_check_def fill_rate_check_def recon_drift_check_def regime_check_def split: if_splits)

lemma stage_max_alloc_nonneg: "fle (Fin 0) (stage_max_alloc s)"
  by (cases s) (simp_all add: mk_float_nonneg)

lemma clamp_below: "fle (Fin 0) c \<Longrightarrow> fle (pymax (Fin 0) (pymin c x)) c"
  by (cases c; cases x) (auto simp: pymax_def pymin_def)

lemma compute_allocation_bounds:
  assumes "compute_allocation now sid stab drift dd base w = Inr a" "get_current_stage now sid w = Inr s" "\<not> fle a (Fin 0)"
  shows "fle (mk_float (1 / 200)) a \<and> fle a (stage_max_alloc s)"
  using assms clamp_below[OF stage_max_alloc_nonneg]
  by (auto simp: compute_allocation_def Let_def split: if_splits)

lemma kernel_result_new_risk:
  assumes "kernel_result env sid action s reasons m w = Inr d" "kd_new_risk_allowed d" "get_current_stage (sn_now (ke_stage env)) sid w = Inr s"
  shows "action = ACTION_ALLOW \<and> s \<in> {CAPPED_LIVE, SCALED_LIVE} \<and> fle (mk_float (1 / 200)) (kd_allocation_frac d) \<and>
    fle (kd_allocation_frac d) (stage_max_alloc s)"
proof -
  have "s \<notin> {PAPER, SHADOW, SAFE_DEGRADED} \<Longrightarrow> s \<in> {CAPPED_LIVE, SCALED_LIVE}" by (cases s) auto
  then show ?thesis using assms compute_allocation_bounds[OF _ assms(3)]
    by (auto simp: kernel_result_def kernel_allocation_def Let_def split: sum.splits if_splits)
qed

lemma evaluate_live_allows:
  assumes "evaluate_live env sid m s w = (r, w')" "r = Inr d" "kd_new_risk_allowed d"
  obtains n where "float_int (metric_or m ''alert_count'' (Fin 0)) = Inr n"
    "slippage_check (metric_or m ''slippage_p95'' (Fin 0)) = []" "fill_rate_check (metric_or m ''fill_rate'' (Fin 1)) = []"
    "recon_drift_check (metric_or m ''recon_drift'' (Fin 0)) = []" "regime_check (metric_or m ''regime_stability'' (Fin 1)) = []"
    "drawdown_check env sid (metric_or m ''dd_duration_days'' (Fin 0)) w = (Inr [], w)" "budget_check env sid n w = (Inr [], w)"
    "retirement_check env sid w = ([], w')" "kernel_result env sid ACTION_ALLOW s [''nominal''] m w' = Inr d"
proof -
  obtain n where n: "float_int (metric_or m ''alert_count'' (Fin 0)) = Inr n"
    using assms by (cases "float_int (metric_or m ''alert_count'' (Fin 0))") (auto simp: evaluate_live_def)
  obtain dd w1 where dd: "drawdown_check env sid (metric_or m ''dd_duration_days'' (Fin 0)) w = (Inr dd, w1)"
    using assms n by (auto simp: evaluate_live_def split: prod.splits sum.splits)
  obtain cb w2 where cb: "budget_check env sid n w1 = (Inr cb, w2)"
    using assms n dd by (auto simp: evaluate_live_def split: prod.splits sum.splits)
  obtain ret w3 where ret: "retirement_check env sid w2 = (ret, w3)" by fastforce
  define ts where "ts = slippage_check (metric_or m ''slippage_p95'' (Fin 0)) @ fill_rate_check (metric_or m ''fill_rate'' (Fin 1)) @
    recon_drift_check (metric_or m ''recon_drift'' (Fin 0)) @ dd @ regime_check (metric_or m ''regime_stability'' (Fin 1)) @ cb @ ret"
  have "evaluate_live env sid m s w =
      (kernel_result env sid (worst_action (map fst ts)) s (if ts = [] then [''nominal''] else map snd ts) m w3, w3)"
    by (simp only: evaluate_live_def n dd cb ret Let_def sum.case prod.case flip: ts_def)
  then have res: "kernel_result env sid (worst_action (map fst ts)) s (if ts = [] then [''nominal''] else map snd ts) m w3 = Inr d" "w3 = w'"
    using assms(1,2) by (metis prod.inject)+
  then have "worst_action (map fst ts) = ACTION_ALLOW"
    using assms(3) by (auto simp: kernel_result_def Let_def split: sum.splits if_splits)
  then have "map fst ts = []"
    by (rule worst_action_allow) (use checks_never_allow(1-4) checks_never_allow(5)[OF dd] checks_never_allow(6)[OF cb] checks_never_allow(7)[OF ret] in \<open>auto simp: ts_def\<close>)
  then have "ts = []" by simp
  then have parts: "dd = []" "cb = []" "ret = []" by (simp_all add: ts_def)
  then have ws: "w1 = w" "w2 = w" using drawdown_check_none budget_check_none dd cb by blast+
  have "kernel_result env sid ACTION_ALLOW s [''nominal''] m w' = Inr d" using res \<open>ts = []\<close> by (simp add: worst_action_def)
  then show ?thesis using that[OF n] \<open>ts = []\<close> parts ws dd cb ret res(2) by (simp add: ts_def)
qed

text \<open>What the checks let pass of a reported metric: it is missing, not a number or short of the warning, and where missing reads as perfect also zero.\<close>

definition metric_below :: "pyfloat option \<Rightarrow> pyfloat \<Rightarrow> bool" where
  "metric_below v b = (case v of None \<Rightarrow> True | Some x \<Rightarrow> x = NaN \<or> flt x b)"

definition metric_above :: "pyfloat option \<Rightarrow> pyfloat \<Rightarrow> bool" where
  "metric_above v b = (case v of None \<Rightarrow> True | Some x \<Rightarrow> x = NaN \<or> x = Fin 0 \<or> flt b x)"

lemma not_fle_flt: "\<not> fle x y \<Longrightarrow> x = NaN \<or> y = NaN \<or> flt y x"
  by (cases x; cases y) auto

lemma metric_below_intro: "\<not> fle b (metric_or m k (Fin 0)) \<Longrightarrow> b \<noteq> NaN \<Longrightarrow> flt (Fin 0) b \<Longrightarrow> metric_below (m k) b"
  by (auto simp: metric_below_def metric_or_def split: option.splits if_splits dest!: not_fle_flt)

lemma metric_above_intro: "\<not> fle (metric_or m k (Fin 1)) b \<Longrightarrow> b \<noteq> NaN \<Longrightarrow> metric_above (m k) b"
  by (auto simp: metric_above_def metric_or_def split: option.splits if_splits dest!: not_fle_flt)

lemma mk_float_number: "mk_float x \<noteq> NaN"
  by (auto simp: mk_float_def Let_def)

text \<open>C11. New risk needs a live stage and no metric reported past its warning. When the kernel allows a strategy new risk, the strategy was and still is in capped or scaled
  live and nothing was demoted. Of the metrics that were reported as numbers, slippage is below half the edge, the drift below one percent, the drawdown younger than thirty days
  and the alerts fewer than three; the fill rate is above 92 percent or exactly zero, and the regime score above one half or exactly zero. A metric that is missing passes,
  and so does one that is not a number, the alerts excepted. At most four alerts are on file, the allocation is at least 0.005 and at most the cap of the stage, and retirement is
  not due unless the save that would have degraded the strategy failed.\<close>

theorem new_risk_only_when_nominal:
  assumes "kernel_evaluate env sid m w = (Inr d, w')" "kd_new_risk_allowed d"
  shows "w' = w \<and>
    (\<exists>s. s \<in> {CAPPED_LIVE, SCALED_LIVE} \<and> get_current_stage (sn_now (ke_stage env)) sid w = Inr s \<and>
      fle (mk_float (1 / 200)) (kd_allocation_frac d) \<and> fle (kd_allocation_frac d) (stage_max_alloc s)) \<and>
    metric_below (m ''slippage_p95'') (Fin (1 / 2)) \<and> metric_above (m ''fill_rate'') (mk_float (23 / 25)) \<and>
    metric_below (m ''recon_drift'') (mk_float (1 / 100)) \<and> metric_below (m ''dd_duration_days'') (Fin 30) \<and>
    metric_above (m ''regime_stability'') (Fin (1 / 2)) \<and>
    (case m ''alert_count'' of None \<Rightarrow> True | Some x \<Rightarrow> (\<exists>n. float_int x = Inr n \<and> n < 3)) \<and> length (active_alerts sid (ke_budget env)) \<le> 4 \<and>
    (sn_save (ke_stage env) = None \<longrightarrow> \<not> retirement_due env)"
proof -
  obtain s where s: "get_current_stage (sn_now (ke_stage env)) sid w = Inr s"
    using assms(1) by (auto simp: kernel_evaluate_def split: sum.splits)
  have live: "evaluate_live env sid m s w = (Inr d, w')"
    using assms s kernel_result_new_risk[OF _ assms(2), of env sid _ s] by (auto simp: kernel_evaluate_def split: if_splits)
  from live show ?thesis
  proof (rule evaluate_live_allows[OF _ refl assms(2)])
    fix n
    assume n: "float_int (metric_or m ''alert_count'' (Fin 0)) = Inr n"
      and checks: "slippage_check (metric_or m ''slippage_p95'' (Fin 0)) = []" "fill_rate_check (metric_or m ''fill_rate'' (Fin 1)) = []"
        "recon_drift_check (metric_or m ''recon_drift'' (Fin 0)) = []" "regime_check (metric_or m ''regime_stability'' (Fin 1)) = []"
      and dd: "drawdown_check env sid (metric_or m ''dd_duration_days'' (Fin 0)) w = (Inr [], w)" and cb: "budget_check env sid n w = (Inr [], w)"
      and ret: "retirement_check env sid w = ([], w')" and res: "kernel_result env sid ACTION_ALLOW s [''nominal''] m w' = Inr d"
    note w = retirement_check_none[OF ret s]
    note r = kernel_result_new_risk[OF res assms(2)]
    have b: "n < 3" "length (active_alerts sid (ke_budget env)) \<le> 4"
      using budget_check_none[OF cb] by (simp_all add: check_budget_def max_alerts_def Let_def)
    have pos: "flt (Fin 0) (mk_float (1 / 100))" by (rule mk_float_positive[of 7]) simp_all
    have "metric_below (m ''slippage_p95'') (Fin (1 / 2))" "metric_below (m ''recon_drift'') (mk_float (1 / 100))" "metric_below (m ''dd_duration_days'') (Fin 30)"
      using metric_below_intro[OF metric_checks_none(1)[OF checks(1)]] metric_below_intro[OF metric_checks_none(3)[OF checks(3)]]
        metric_below_intro[OF conjunct1[OF drawdown_check_none[OF dd]]] pos mk_float_number by simp_all
    moreover have "metric_above (m ''fill_rate'') (mk_float (23 / 25))" "metric_above (m ''regime_stability'') (Fin (1 / 2))"
      using metric_above_intro[OF metric_checks_none(2)[OF checks(2)]] metric_above_intro[OF metric_checks_none(4)[OF checks(4)]] mk_float_number by simp_all
    moreover have "case m ''alert_count'' of None \<Rightarrow> True | Some x \<Rightarrow> (\<exists>n. float_int x = Inr n \<and> n < 3)"
      using n b(1) by (auto simp: metric_or_def split: option.splits if_splits)
    ultimately show ?thesis using w r s b by blast
  qed
qed

definition kernel_sample_env :: kernel_env where
  "kernel_sample_env = \<lparr>ke_stage = stage_sample_env, ke_budget = None, ke_evidence = None\<rparr>"

lemma kernel_sample_stage: "get_current_stage (sn_now (ke_stage kernel_sample_env)) ''s'' stage_sample = Inr CAPPED_LIVE"
  by (simp add: kernel_sample_env_def get_current_stage_def stage_sample_def promote_def Let_def stage_start_def load_stage_def stage_sample_env_def
      record_stage_def stage_of_value_def stages_def select_key_Cons promotion_order_def stage_transition_def record_stage_transition_event_def save_stage_def)

lemma kernel_sample_allocation: "kernel_allocation kernel_sample_env ''s'' Map.empty stage_sample = Inr (mk_float (1 / 20))"
proof -
  have one: "mk_float 1 = Fin 1" using mk_float_of_int[of 1] by simp
  have le: "fle (mk_float (1 / 200)) (mk_float (1 / 20))" "fle (mk_float (1 / 20)) (mk_float (1 / 10))" by (rule mk_float_mono, simp)+
  have pos: "flt (Fin 0) (mk_float (1 / 20))" by (rule mk_float_positive[of 5]) simp_all
  then have "\<not> fle (mk_float (1 / 20)) (Fin 0)" "\<not> flt (mk_float (1 / 10)) (mk_float (1 / 20))"
    using le(2) by (auto simp: not_fle_iff_flt not_flt_iff_fle)
  then show ?thesis using kernel_sample_stage le(1) pos
    by (simp add: kernel_allocation_def compute_allocation_def metric_or_def Let_def clamp01_def pymax_def pymin_def fsub_def one fmul_one)
qed

text \<open>A strategy in capped live with no metrics reported gets the whole cap of its stage.\<close>

lemma kernel_sample_decision:
  "kernel_evaluate kernel_sample_env ''s'' Map.empty stage_sample =
     (Inr \<lparr>kd_action = ACTION_ALLOW, kd_stage = CAPPED_LIVE, kd_new_risk_allowed = True, kd_allocation_frac = mk_float (1 / 20),
           kd_reasons = [''nominal''], kd_breach = False\<rparr>, stage_sample)"
proof -
  have below_one: "\<not> fle (Fin 1) (mk_float x)" if "x \<le> 31 / 32" for x
  proof
    assume "fle (Fin 1) (mk_float x)"
    moreover have "fle (mk_float x) (Fin (31 / 32))" using mk_float_mono[of x "of_int 31 / 2 ^ 5"] mk_float_dyadic[of 31 5] that by simp
    ultimately show False using fle_trans by fastforce
  qed
  then have hi: "\<not> fle (Fin 1) (mk_float (4 / 5))" "\<not> fle (Fin 1) (mk_float (23 / 25))" by simp_all
  have lo: "\<not> fle (mk_float (1 / 20)) (Fin 0)" "\<not> fle (mk_float (1 / 100)) (Fin 0)"
    using mk_float_positive[of 5 "1 / 20"] mk_float_positive[of 7 "1 / 100"] by (simp_all add: not_fle_iff_flt)
  have env: "ke_budget kernel_sample_env = None" "ke_evidence kernel_sample_env = None" by (simp_all add: kernel_sample_env_def)
  have budget: "check_budget ''s'' None None = (0, False)" by (simp add: check_budget_def active_alerts_def budget_load_def)
  have zero: "float_int (Fin 0) = Inr 0" by (simp add: float_int_def trunc_rat_def)
  have "kernel_result kernel_sample_env ''s'' ACTION_ALLOW CAPPED_LIVE [''nominal''] Map.empty stage_sample =
     Inr \<lparr>kd_action = ACTION_ALLOW, kd_stage = CAPPED_LIVE, kd_new_risk_allowed = True, kd_allocation_frac = mk_float (1 / 20),
           kd_reasons = [''nominal''], kd_breach = False\<rparr>"
    using lo(1) by (simp add: kernel_result_def kernel_sample_allocation kernel_sample_stage env budget)
  then show ?thesis
    by (simp add: kernel_evaluate_def kernel_sample_stage evaluate_live_def metric_or_def zero drawdown_check_def budget_check_def retirement_check_def env budget
        slippage_check_def fill_rate_check_def recon_drift_check_def regime_check_def hi lo worst_action_def)
qed

theorem new_risk_only_when_nominal_witness:
  "length (active_alerts ''s'' (ke_budget kernel_sample_env)) \<le> 4 \<and> metric_above (Map.empty ''fill_rate'') (mk_float (23 / 25)) \<and>
   (\<exists>s. s \<in> {CAPPED_LIVE, SCALED_LIVE} \<and> get_current_stage (sn_now (ke_stage kernel_sample_env)) ''s'' stage_sample = Inr s \<and>
     fle (mk_float (1 / 200)) (mk_float (1 / 20)) \<and> fle (mk_float (1 / 20)) (stage_max_alloc s))"
proof -
  note new_risk_only_when_nominal[OF kernel_sample_decision, simplified kernel_decision.select_convs, OF TrueI]
  then show ?thesis by (elim conjE) (intro conjI; assumption)
qed

text \<open>C33. A fill rate of zero passes as a perfect one. \<open>metrics.get(\"fill_rate\") or 1.0\<close> reads the value zero as missing: the kernel decides for a strategy
  of which no order was filled and whose regime score is zero exactly as for one that reports neither metric, with the same world afterwards.\<close>

theorem zero_metrics_read_nominal:
  "kernel_evaluate env sid (m(''fill_rate'' \<mapsto> Fin 0, ''regime_stability'' \<mapsto> Fin 0)) w =
   kernel_evaluate env sid (m(''fill_rate'' := None, ''regime_stability'' := None)) w"
proof -
  have same: "metric_or (m(''fill_rate'' \<mapsto> Fin 0, ''regime_stability'' \<mapsto> Fin 0)) = metric_or (m(''fill_rate'' := None, ''regime_stability'' := None))"
    by (rule ext, rule ext) (simp add: metric_or_def)
  show ?thesis unfolding kernel_evaluate_def evaluate_live_def kernel_result_def kernel_allocation_def same ..
qed

text \<open>Capped live never trades more than one contract, whatever the budget.\<close>

lemma kernel_contracts_bounds:
  assumes "kernel_contracts env sid budget notional m w = (Inr n, w')"
  shows "0 \<le> n \<and> (get_current_stage (sn_now (ke_stage env)) sid w' = Inr CAPPED_LIVE \<longrightarrow> n \<le> 1)"
  using assms by (auto simp: kernel_contracts_def split: prod.splits sum.splits if_splits option.splits)

text \<open>Alerts are deduplicated by type, and clearing one undoes recording it.\<close>

lemma record_alert_once: "active_alerts sid (snd (record_alert now sid a l (snd (record_alert now' sid a l' f)))) = active_alerts sid (snd (record_alert now' sid a l' f))"
  by (auto simp: record_alert_def Let_def active_alerts_def budget_put_def budget_load_def)

lemma clear_after_record:
  "\<not> list_ex (\<lambda>b. ba_type b = a) (active_alerts sid f) \<Longrightarrow> active_alerts sid (clear_alert now sid a (snd (record_alert now' sid a l f))) = active_alerts sid f"
  by (auto simp: record_alert_def clear_alert_def Let_def active_alerts_def budget_put_def budget_load_def list_ex_iff split: option.splits)

end
