(* ===== verification/Live_Arming.thy ===== *)
theory Live_Arming
  imports Place_Order State_Authority "HOL-Library.AList"
begin

text \<open>
  How live trading is switched on and off: services/execution/live\_arming.py (arming state and one-time tokens), services/admin/kill\_switch.py,
  services/admin/system\_guard.py, services/admin/live\_guard.py, services/admin/config\_editor.py (loading and saving user.yaml),
  services/execution/live\_enable.py (the ceremony), services/admin/live\_enable\_wizard.py, services/admin/live\_disable\_wizard.py,
  services/admin/resume\_gate.py, the writers of the kill switch that ask for no ceremony (scripts/killswitch.py, services/execution/kill\_switch.py and the wrapper
  in config\_editor.py), and the halt transition of services/execution/live\_reconciler.py.

  Four files carry the state, each missing, unreadable (the left of a sum) or holding a value; YAML is read into the same values as JSON. With them come the
  environment variables of the process and the operator journal. Every write can fail; the faults of a call are functions of what is written, for
  user.yaml of whether the save rolls back. Writes are atomic except those of the kill switch, which can leave a truncated and hence unreadable
  file, and of user.yaml, which can leave anything. Answers keep the outcome and the reason, without the dictionaries returned for display.
\<close>

section \<open>State and faults\<close>

type_synonym stored = "(exn + json) option"

record operator_event =
  oe_action :: string
  oe_source :: string
  oe_result :: string
  oe_reason :: string
  oe_epoch :: pyfloat
  oe_provenance :: "(pyfloat \<times> pyfloat) option"

record arming_world =
  aw_arming :: stored
  aw_guard :: stored
  aw_kill :: stored
  aw_config :: stored
  aw_vars :: "string \<Rightarrow> string option"
  aw_events :: "operator_event list"

text \<open>The faults of saving a configuration: before user.yaml is opened for writing, while it is written, in the journal, and in the restoration.\<close>

record config_faults =
  cf_before :: bool
  cf_dump :: "(exn + json) option"
  cf_event :: "exn option"
  cf_restore :: "stored option"

datatype kill_write = KillDefault | KillOn | KillOff

record arming_env =
  an_now :: string
  an_epoch :: pyfloat
  an_save_arm :: "bool \<Rightarrow> exn option"
  an_save_token :: "exn option"
  an_save_kill :: "kill_write \<Rightarrow> (exn \<times> bool) option"
  an_save_guard :: "string \<Rightarrow> exn option"
  an_save_config :: "bool \<Rightarrow> config_faults"
  an_event :: "string \<Rightarrow> exn option"
  an_preflight :: "exn + bool"
  an_sha256 :: "string \<Rightarrow> string"

type_synonym 'a aact = "arming_world \<Rightarrow> (exn + 'a) \<times> arming_world"

definition aret :: "'a \<Rightarrow> 'a aact" where
  "aret x w = (Inr x, w)"

definition abind :: "'a aact \<Rightarrow> ('a \<Rightarrow> 'b aact) \<Rightarrow> 'b aact" where
  "abind m f w = (case m w of (Inl e, w') \<Rightarrow> (Inl e, w') | (Inr x, w') \<Rightarrow> f x w')"

definition alift :: "(arming_world \<Rightarrow> exn + 'a) \<Rightarrow> 'a aact" where
  "alift f w = (f w, w)"

definition set_var :: "string \<Rightarrow> string option \<Rightarrow> unit aact" where
  "set_var k v w = (Inr (), w\<lparr>aw_vars := (aw_vars w)(k := v)\<rparr>)"

section \<open>Arming state\<close>

text \<open>\<open>_load\<close>\<close>

definition load_arming :: "arming_world \<Rightarrow> json" where
  "load_arming w =
     (case aw_arming w of Some (Inr v) \<Rightarrow> v | _ \<Rightarrow> JObj [(''version'', JInt 1), (''active'', JNull), (''armed'', JNull)])"

definition armed_payload :: "arming_env \<Rightarrow> bool \<Rightarrow> string \<Rightarrow> string \<Rightarrow> dict" where
  "armed_payload env armed writer reason =
     [(''armed'', JBool armed), (''writer'', JStr (str_or writer ''live_arming'')), (''reason'', JStr reason), (''ts_epoch'', JFloat (an_epoch env))]"

text \<open>\<open>_truthy\<close>, and \<open>_bool_value\<close> of one value with the default False.\<close>

definition arm_truthy :: "json \<Rightarrow> bool" where
  "arm_truthy v \<longleftrightarrow> lower (strip (json_str (jor v (JStr '''')))) \<in> {''1'', ''true'', ''yes'', ''on'', ''y''}"

definition arm_bool :: "json \<Rightarrow> bool" where
  "arm_bool v = (case v of JStr _ \<Rightarrow> arm_truthy v | _ \<Rightarrow> jtruthy v)"

definition section_of :: "string \<Rightarrow> dict \<Rightarrow> dict" where
  "section_of k cfg = (case jget k cfg of JObj d \<Rightarrow> d | _ \<Rightarrow> [])"

definition is_live_enabled :: "dict \<Rightarrow> bool" where
  "is_live_enabled cfg = arm_truthy (jget ''live_enabled'' (section_of ''execution'' cfg))"

definition set_live_enabled :: "bool \<Rightarrow> dict \<Rightarrow> dict" where
  "set_live_enabled enabled cfg =
     AList.update ''execution'' (JObj (AList.update ''live_enabled'' (JBool enabled) (section_of ''execution'' cfg))) cfg"

definition get_live_armed_state :: "arming_env \<Rightarrow> arming_world \<Rightarrow> exn + bool \<times> pyfloat" where
  "get_live_armed_state env w =
     (case aw_arming w of
        None \<Rightarrow> Inr (False, an_epoch env)
      | Some (Inl e) \<Rightarrow> Inl (RuntimeError ''live_arming_state_read_failed'')
      | Some (Inr (JObj raw)) \<Rightarrow>
          (case jget ''armed'' raw of
             JObj p \<Rightarrow>
               (case json_float (jor (jget ''ts_epoch'' p) (JFloat (an_epoch env))) of
                  Inl e \<Rightarrow> Inl e
                | Inr ts \<Rightarrow> Inr (arm_bool (jget ''armed'' p), ts))
           | _ \<Rightarrow> Inr (False, an_epoch env))
      | Some (Inr _) \<Rightarrow> Inr (False, an_epoch env))"

definition set_live_armed_state :: "arming_env \<Rightarrow> bool \<Rightarrow> string \<Rightarrow> string \<Rightarrow> unit aact" where
  "set_live_armed_state env armed writer reason w =
     (case load_arming w of
        JObj st \<Rightarrow>
          (case an_save_arm env armed of
             Some e \<Rightarrow> (Inl e, w)
           | None \<Rightarrow> (Inr (), w\<lparr>aw_arming := Some (Inr (JObj (AList.update ''armed'' (JObj (armed_payload env armed writer reason)) st)))\<rparr>))
      | _ \<Rightarrow> (Inl (TypeError ''item assignment''), w))"

definition arming_vars :: "string list" where
  "arming_vars = [''CBP_EXECUTION_ARMED'', ''CBP_LIVE_ENABLED'', ''CBP_EXECUTION_LIVE_ENABLED'']"

text \<open>The first variable that is set to more than blanks decides.\<close>

fun env_signal :: "(string \<Rightarrow> string option) \<Rightarrow> string list \<Rightarrow> bool option" where
  "env_signal vars [] = None"
| "env_signal vars (k # ks) =
     (case vars k of
        None \<Rightarrow> env_signal vars ks
      | Some v \<Rightarrow> if strip v = '''' then env_signal vars ks else Some (env_truthy (Some v)))"

definition arming_max_age :: "(string \<Rightarrow> string option) \<Rightarrow> pyfloat" where
  "arming_max_age vars =
     (case json_float (JStr (opt_str_or (vars ''CBP_LIVE_ARMING_MAX_AGE_S'') ''300'')) of Inl _ \<Rightarrow> Fin 300 | Inr x \<Rightarrow> x)"

definition live_armed_signal :: "arming_env \<Rightarrow> arming_world \<Rightarrow> bool" where
  "live_armed_signal env w =
     (case env_signal (aw_vars w) arming_vars of
        Some b \<Rightarrow> b
      | None \<Rightarrow>
          (case get_live_armed_state env w of
             Inl _ \<Rightarrow> False
           | Inr (armed, ts) \<Rightarrow>
               armed \<and> \<not> fle ts (Fin 0) \<and> \<not> flt (arming_max_age (aw_vars w)) (fsub (an_epoch env) ts)))"

section \<open>Ceremony\<close>

definition resume_window :: "(string \<Rightarrow> string option) \<Rightarrow> pyfloat" where
  "resume_window vars =
     (case vars ''CBP_RESUME_CEREMONY_MAX_AGE_S'' of
        None \<Rightarrow> Fin 3600
      | Some raw \<Rightarrow>
          (if strip raw = '''' then Fin 3600
           else (case json_float (JStr raw) of
                   Inl _ \<Rightarrow> Fin 3600
                 | Inr x \<Rightarrow> if \<not> isfinite x \<or> fle x (Fin 0) then Fin 3600 else x)))"

datatype provenance = ProvenanceOk pyfloat pyfloat | ProvenanceRefused string

definition sane_epoch :: "pyfloat \<Rightarrow> bool" where
  "sane_epoch x \<longleftrightarrow> isfinite x \<and> \<not> fle x (Fin 0)"

definition ceremony_resume_provenance :: "arming_env \<Rightarrow> arming_world \<Rightarrow> exn + provenance" where
  "ceremony_resume_provenance env w =
     (let max_age = resume_window (aw_vars w); now = an_epoch env
      in if \<not> sane_epoch now then Inr (ProvenanceRefused ''ceremony_provenance_invalid_now'')
         else (case load_arming w of
                 JObj st \<Rightarrow>
                   (case jget ''active'' st of
                      JObj a \<Rightarrow>
                        (if \<not> jtruthy (jget ''consumed'' a) then Inr (ProvenanceRefused ''ceremony_token_not_consumed'')
                         else (let consumed = (case json_float (jor (jget ''consumed_epoch'' a) (JFloat (Fin 0))) of Inl _ \<Rightarrow> Fin 0 | Inr x \<Rightarrow> x);
                                   age = fsub now consumed
                               in if \<not> sane_epoch consumed then Inr (ProvenanceRefused ''ceremony_provenance_invalid_ts'')
                                  else if flt age (Fin (- 60)) then Inr (ProvenanceRefused ''ceremony_provenance_future_ts'')
                                  else if flt max_age age then Inr (ProvenanceRefused ''ceremony_window_expired'')
                                  else Inr (ProvenanceOk consumed max_age)))
                    | _ \<Rightarrow> Inr (ProvenanceRefused ''no_ceremony_provenance''))
               | _ \<Rightarrow> Inl (AttributeError ''get'')))"

definition issue_token :: "arming_env \<Rightarrow> int \<Rightarrow> string \<Rightarrow> unit aact" where
  "issue_token env ttl_minutes token w =
     (case json_float (JInt (ttl_minutes * 60)) of
        Inl e \<Rightarrow> (Inl e, w)
      | Inr ttl \<Rightarrow>
          (case load_arming w of
             JObj st \<Rightarrow>
               (case an_save_token env of
                  Some e \<Rightarrow> (Inl e, w)
                | None \<Rightarrow>
                    (Inr (), w\<lparr>aw_arming := Some (Inr (JObj (AList.update ''active''
                      (JObj [(''hash'', JStr (an_sha256 env token)), (''issued_epoch'', JFloat (an_epoch env)),
                             (''expires_epoch'', JFloat (fadd (an_epoch env) ttl)), (''consumed'', JBool False)]) st)))\<rparr>))
           | _ \<Rightarrow> (Inl (TypeError ''item assignment''), w)))"

text \<open>\<open>None\<close> when the token was accepted, otherwise the reason.\<close>

definition verify_and_consume :: "arming_env \<Rightarrow> string \<Rightarrow> string option aact" where
  "verify_and_consume env token w =
     (case load_arming w of
        JObj st \<Rightarrow>
          (case jget ''active'' st of
             JObj a \<Rightarrow>
               (if jtruthy (jget ''consumed'' a) then (Inr (Some ''token_already_consumed''), w)
                else (case json_float (jor (jget ''expires_epoch'' a) (JInt 0)) of
                        Inl e \<Rightarrow> (Inl e, w)
                      | Inr expires \<Rightarrow>
                          (if flt expires (an_epoch env) then (Inr (Some ''token_expired''), w)
                           else if an_sha256 env token \<noteq> json_str (jget ''hash'' a) then (Inr (Some ''token_mismatch''), w)
                           else (case an_save_token env of
                                   Some e \<Rightarrow> (Inl e, w)
                                 | None \<Rightarrow>
                                     (Inr None, w\<lparr>aw_arming := Some (Inr (JObj (AList.update ''active''
                                       (JObj (AList.update ''consumed_epoch'' (JFloat (an_epoch env)) (AList.update ''consumed'' (JBool True) a))) st)))\<rparr>)))))
           | _ \<Rightarrow> (Inr (Some ''no_active_token''), w))
      | _ \<Rightarrow> (Inl (AttributeError ''get''), w))"

section \<open>Kill switch and system guard\<close>

definition kill_payload :: "arming_env \<Rightarrow> bool \<Rightarrow> string \<Rightarrow> json" where
  "kill_payload env armed note = JObj [(''armed'', JBool armed), (''ts'', JStr (an_now env)), (''note'', JStr note)]"

definition write_kill :: "arming_env \<Rightarrow> kill_write \<Rightarrow> json \<Rightarrow> unit aact" where
  "write_kill env kw v w =
     (case an_save_kill env kw of
        None \<Rightarrow> (Inr (), w\<lparr>aw_kill := Some (Inr v)\<rparr>)
      | Some (e, truncated) \<Rightarrow> (Inl e, if truncated then w\<lparr>aw_kill := Some (Inl (ValueError ''Expecting value''))\<rparr> else w))"

definition set_armed :: "arming_env \<Rightarrow> bool \<Rightarrow> string \<Rightarrow> unit aact" where
  "set_armed env state note = write_kill env (if state then KillOn else KillOff) (kill_payload env state (str_or note ''manual''))"

text \<open>\<open>get_state\<close>: a missing file is created; all exceptions fall back to the armed payload.\<close>

definition kill_state :: "arming_env \<Rightarrow> json aact" where
  "kill_state env w =
     (if aw_kill w = None then (Inr (admin_kill_state None), snd (write_kill env KillDefault (kill_payload env True ''default'') w))
      else (Inr (admin_kill_state (aw_kill w)), w))"

definition kill_armed :: "json \<Rightarrow> exn + bool" where
  "kill_armed ks =
     (case ks of JObj d \<Rightarrow> Inr (case map_of d ''armed'' of None \<Rightarrow> True | Some v \<Rightarrow> jtruthy v) | _ \<Rightarrow> Inl (AttributeError ''get''))"

text \<open>The ways operators write the switch without a ceremony: the command line tool scripts/killswitch.py, \<open>set_kill_switch\<close> of services/execution/kill\_switch.py
  and the \<open>set_armed\<close> of services/admin/config\_editor.py.\<close>

datatype kill_command = KillArm | KillDisarm | KillStatus

definition killswitch_cli :: "arming_env \<Rightarrow> kill_command \<Rightarrow> bool aact" where
  "killswitch_cli env cmd =
     (case cmd of
        KillArm \<Rightarrow> abind (set_armed env True ''scripts.killswitch:arm'') (\<lambda>_. aret True)
      | KillDisarm \<Rightarrow> abind (set_armed env False ''scripts.killswitch:disarm'') (\<lambda>_. aret False)
      | KillStatus \<Rightarrow> abind (kill_state env) (\<lambda>ks. alift (\<lambda>_. if jtruthy ks then kill_armed ks else Inr True)))"

definition set_kill_switch :: "arming_env \<Rightarrow> bool \<Rightarrow> string \<Rightarrow> bool aact" where
  "set_kill_switch env armed reason = abind (set_armed env armed (str_or reason ''manual'')) (\<lambda>_. aret armed)"

definition editor_set_armed :: "arming_env \<Rightarrow> bool \<Rightarrow> unit aact" where
  "editor_set_armed env state = set_armed env state ''config_editor_compat''"

record guard_payload =
  gp_state :: string
  gp_ts :: string
  gp_writer :: string
  gp_reason :: string
  gp_epoch :: int
  gp_cancel_requested :: bool

definition guard_states :: "string list" where
  "guard_states = [''RUNNING'', ''HALTING'', ''HALTED'']"

definition guard_default :: "arming_env \<Rightarrow> string \<Rightarrow> string \<Rightarrow> string \<Rightarrow> int \<Rightarrow> bool \<Rightarrow> guard_payload" where
  "guard_default env state writer reason epoch cancel =
     \<lparr>gp_state = upper state, gp_ts = an_now env, gp_writer = writer, gp_reason = reason, gp_epoch = epoch, gp_cancel_requested = cancel\<rparr>"

definition guard_json :: "guard_payload \<Rightarrow> json" where
  "guard_json p =
     JObj [(''cancel_requested'', JBool (gp_cancel_requested p)), (''epoch'', JInt (gp_epoch p)), (''reason'', JStr (gp_reason p)),
           (''state'', JStr (gp_state p)), (''ts'', JStr (gp_ts p)), (''writer'', JStr (gp_writer p))]"

definition guard_normalize :: "arming_env \<Rightarrow> json \<Rightarrow> exn + guard_payload" where
  "guard_normalize env v =
     (case v of
        JObj d \<Rightarrow>
          (let state = strip (upper (json_str (jor (jget ''state'' d) (JStr ''''))))
           in if state \<notin> set guard_states then Inl (ValueError ''invalid_guard_state'')
              else (case json_int (jor (jget ''epoch'' d) (JInt 0)) of
                      Inl e \<Rightarrow> Inl (ValueError ''invalid_guard_epoch'')
                    | Inr epoch \<Rightarrow>
                        (let out = guard_default env state (json_str (jor (jget ''writer'' d) (JStr ''system_guard''))) (json_str (jor (jget ''reason'' d) (JStr '''')))
                               (max 0 epoch) (jtruthy (jget ''cancel_requested'' d));
                             ts = strip (json_str (jor (jget ''ts'' d) (JStr '''')))
                         in Inr (if ts \<noteq> '''' then out\<lparr>gp_ts := ts\<rparr> else out))))
      | _ \<Rightarrow> Inl (AttributeError ''get''))"

definition guard_get :: "arming_env \<Rightarrow> bool \<Rightarrow> arming_world \<Rightarrow> guard_payload" where
  "guard_get env fail_closed w =
     (let fallback = (\<lambda>why. guard_default env (if fail_closed then ''HALTED'' else ''RUNNING'') ''system_guard'' why 0 False)
      in case aw_guard w of
           None \<Rightarrow> fallback ''missing''
         | Some (Inl _) \<Rightarrow> fallback ''invalid''
         | Some (Inr v) \<Rightarrow> (case guard_normalize env v of Inl _ \<Rightarrow> fallback ''invalid'' | Inr p \<Rightarrow> p))"

definition guard_set :: "arming_env \<Rightarrow> string \<Rightarrow> string \<Rightarrow> string \<Rightarrow> guard_payload aact" where
  "guard_set env state writer reason w =
     (let state_up = strip (upper state)
      in if state_up \<notin> set guard_states then (Inl (ValueError ''invalid_guard_state''), w)
         else (let next_epoch = gp_epoch (guard_get env False w) + 1;
                   payload = guard_default env state_up (str_or writer ''system_guard'') reason (max 0 next_epoch) False
               in case an_save_guard env state_up of
                    Some e \<Rightarrow> (Inl e, w)
                  | None \<Rightarrow> (Inr payload, w\<lparr>aw_guard := Some (Inr (guard_json payload))\<rparr>)))"

text \<open>The reconciler ends a halt: \<open>HALTING\<close> becomes \<open>HALTED\<close> when no submitted intent is left. The queue is \<open>None\<close> when its listing fails with a database error.\<close>

definition maybe_promote_system_guard_halted :: "arming_env \<Rightarrow> live_queue option \<Rightarrow> guard_payload \<Rightarrow> guard_payload aact" where
  "maybe_promote_system_guard_halted env qdb guard_meta w =
     (if strip (upper (gp_state guard_meta)) \<noteq> ''HALTING'' then (Inr guard_meta, w)
      else (case qdb of
              None \<Rightarrow> (Inr guard_meta, w)
            | Some q \<Rightarrow>
                (if live_list_intents 1 (Some ''submitted'') q \<noteq> [] then (Inr guard_meta, w)
                 else guard_set env ''HALTED'' ''live_reconciler'' ''cleanup_complete'' w)))"

section \<open>Configuration file\<close>

definition config_load_error :: exn where
  "config_load_error = OtherError ''ConfigLoadError'' ''config_load_failed''"

definition load_user_yaml_strict :: "arming_world \<Rightarrow> exn + dict" where
  "load_user_yaml_strict w =
     (case aw_config w of None \<Rightarrow> Inr [] | Some (Inr (JObj d)) \<Rightarrow> Inr d | _ \<Rightarrow> Inl config_load_error)"

definition load_user_yaml :: "arming_world \<Rightarrow> dict" where
  "load_user_yaml w = (case load_user_yaml_strict w of Inl _ \<Rightarrow> [] | Inr d \<Rightarrow> d)"

definition record_event :: "arming_env \<Rightarrow> exn option \<Rightarrow> string \<Rightarrow> string \<Rightarrow> string \<Rightarrow> string \<Rightarrow> (pyfloat \<times> pyfloat) option \<Rightarrow> bool aact" where
  "record_event env fault action source result reason prov w =
     (case fault of
        Some e \<Rightarrow> (Inr False, w)
      | None \<Rightarrow>
          (Inr True, w\<lparr>aw_events := aw_events w @ [\<lparr>oe_action = action, oe_source = source, oe_result = result, oe_reason = reason,
             oe_epoch = an_epoch env, oe_provenance = prov\<rparr>]\<rparr>))"

definition save_user_yaml :: "arming_env \<Rightarrow> bool \<Rightarrow> dict \<Rightarrow> bool aact" where
  "save_user_yaml env rollback cfg w =
     (let f = an_save_config env rollback
      in if cf_before f then (Inr False, w)
         else (case cf_dump f of
                 Some left \<Rightarrow> (Inr False, w\<lparr>aw_config := Some left\<rparr>)
               | None \<Rightarrow>
                   (case record_event env (cf_event f) ''runtime_config_save'' ''services.admin.config_editor'' ''success'' ''save_user_yaml'' None
                           (w\<lparr>aw_config := Some (Inr (JObj cfg))\<rparr>) of
                      (Inr True, w1) \<Rightarrow> (Inr True, w1)
                    | (_, w1) \<Rightarrow> (Inr False, w1\<lparr>aw_config := (case cf_restore f of None \<Rightarrow> aw_config w | Some left \<Rightarrow> left)\<rparr>))))"

section \<open>Is live trading allowed\<close>

definition live_allowed :: "arming_env \<Rightarrow> bool \<Rightarrow> bool \<Rightarrow> (bool \<times> string) aact" where
  "live_allowed env allow_kill_switch_armed allow_system_guard_halted =
     abind (kill_state env) (\<lambda>ks w.
       (let guard_state = strip (upper (gp_state (guard_get env False w)))
        in if guard_state = ''HALTING'' then (Inr (False, ''system_guard_halting''), w)
           else if guard_state = ''HALTED'' \<and> \<not> allow_system_guard_halted then (Inr (False, ''system_guard_halted''), w)
           else (case kill_armed ks of
                   Inl e \<Rightarrow> (Inl e, w)
                 | Inr armed \<Rightarrow>
                     (if armed \<and> \<not> allow_kill_switch_armed then (Inr (False, ''kill_switch_armed''), w)
                      else if \<not> is_live_enabled (load_user_yaml w) then (Inr (False, ''risk_enable_live_false''), w)
                      else (Inr (True, ''ok''), w)))))"

definition live_enabled_and_armed :: "arming_env \<Rightarrow> arming_world \<Rightarrow> bool" where
  "live_enabled_and_armed env w \<longleftrightarrow> is_live_enabled (load_user_yaml w) \<and> live_armed_signal env w"

section \<open>Switching on\<close>

datatype switch_answer = SwitchOk string | SwitchRefused string

text \<open>\<open>(raw_cfg.get(\"execution\") or {}).get(\"live_enabled\")\<close> raises for a section that is not a mapping.\<close>

definition live_enabled_before :: "dict \<Rightarrow> exn + bool" where
  "live_enabled_before raw =
     (case jor (jget ''execution'' raw) (JObj []) of JObj d \<Rightarrow> Inr (jtruthy (jget ''live_enabled'' d)) | _ \<Rightarrow> Inl (AttributeError ''get''))"

definition ceremony_checklist :: "string list" where
  "ceremony_checklist = [''i_understand_live_risk'', ''api_keys_configured'', ''risk_limits_set'', ''dry_run_tested'', ''i_accept_no_guarantees'']"

definition rolled_back :: string where
  "rolled_back = ''operator_event_write_failed_rolled_back''"

definition ceremony_commit :: "arming_env \<Rightarrow> dict \<Rightarrow> switch_answer aact" where
  "ceremony_commit env raw =
     abind (save_user_yaml env False (set_live_enabled True raw)) (\<lambda>ok.
       if \<not> ok then aret (SwitchRefused ''config_save_failed'')
       else abind (set_live_armed_state env True ''execution_live_enable'' ''token_enable_live'') (\<lambda>_.
            abind (record_event env (an_event env ''live_enable'') ''live_enable'' ''execution_live_enable'' ''ok'' ''token_enable_live'' None) (\<lambda>recorded.
              if recorded then aret (SwitchOk ''ok'')
              else abind (save_user_yaml env True raw) (\<lambda>_.
                   abind (set_live_armed_state env False ''execution_live_enable'' ''token_enable_live:rollback_operator_event_failed'') (\<lambda>_.
                     aret (SwitchRefused rolled_back))))))"

definition enable_live :: "arming_env \<Rightarrow> string \<Rightarrow> dict \<Rightarrow> switch_answer aact" where
  "enable_live env token checklist =
     (if filter (\<lambda>k. \<not> jtruthy (jget k checklist)) ceremony_checklist \<noteq> [] then aret (SwitchRefused ''checklist_incomplete'')
      else abind (alift (\<lambda>_. an_preflight env)) (\<lambda>ok.
        if \<not> ok then aret (SwitchRefused ''preflight_failed'')
        else abind (verify_and_consume env token) (\<lambda>tok.
          case tok of
            Some why \<Rightarrow> aret (SwitchRefused ''token_failed'')
          | None \<Rightarrow>
              (\<lambda>w. case load_user_yaml_strict w of
                 Inl e \<Rightarrow> (Inr (SwitchRefused ''config_load_failed''), w)
               | Inr raw \<Rightarrow> (case live_enabled_before raw of Inl e \<Rightarrow> (Inl e, w) | Inr _ \<Rightarrow> ceremony_commit env raw w)))))"

definition wizard_rollback :: "arming_env \<Rightarrow> dict \<Rightarrow> switch_answer aact" where
  "wizard_rollback env raw =
     abind (set_var ''CBP_EXECUTION_ARMED'' None) (\<lambda>_.
     abind (save_user_yaml env True raw) (\<lambda>_.
     abind (set_live_armed_state env False ''live_enable_wizard'' ''enable_live:rollback_operator_event_failed'') (\<lambda>_.
     abind (guard_set env ''HALTED'' ''live_enable_wizard'' ''enable_live:rollback_operator_event_failed'') (\<lambda>_.
       aret (SwitchRefused rolled_back)))))"

definition wizard_commit :: "arming_env \<Rightarrow> dict \<Rightarrow> switch_answer aact" where
  "wizard_commit env raw =
     abind (alift (\<lambda>_. live_enabled_before raw)) (\<lambda>_.
     abind (set_var ''CBP_EXECUTION_ARMED'' (Some ''YES'')) (\<lambda>_.
     abind (set_live_armed_state env True ''live_enable_wizard'' ''enable_live'') (\<lambda>_.
     abind (\<lambda>w. (Inr (live_enabled_and_armed env w), w)) (\<lambda>armed.
     abind (if armed then abind (guard_set env ''RUNNING'' ''live_enable_wizard'' ''enable_live'') (\<lambda>_. aret ()) else aret ()) (\<lambda>_.
     abind (record_event env (an_event env ''live_enable'') ''live_enable'' ''live_enable_wizard'' (if armed then ''armed'' else ''not_armed'') ''enable_live'' None) (\<lambda>recorded.
       if recorded then aret (SwitchOk ''Live enabled + armed'') else wizard_rollback env raw))))))"

definition wizard_enable_live :: "arming_env \<Rightarrow> switch_answer aact" where
  "wizard_enable_live env w =
     (case load_user_yaml_strict w of
        Inl e \<Rightarrow> (Inr (SwitchRefused ''config_load_failed''), w)
      | Inr raw \<Rightarrow>
          abind (save_user_yaml env False (set_live_enabled True raw)) (\<lambda>ok.
            if \<not> ok then aret (SwitchRefused ''save_failed'') else wizard_commit env raw) w)"

section \<open>Switching off\<close>

text \<open>The configuration part of both disable paths; an unreadable file is left alone. The answer is the reason returned at the end.\<close>

definition disable_config :: "arming_env \<Rightarrow> (dict \<Rightarrow> exn + bool) \<Rightarrow> string \<Rightarrow> string aact" where
  "disable_config env check saved w =
     (case load_user_yaml_strict w of
        Inl e \<Rightarrow> (Inr ''config_load_failed_runtime_halted'', w)
      | Inr raw \<Rightarrow>
          (case check raw of
             Inl e \<Rightarrow> (Inl e, w)
           | Inr _ \<Rightarrow>
               abind (save_user_yaml env False (set_live_enabled False raw)) (\<lambda>ok.
                 aret (if ok then saved else ''config_save_failed_runtime_halted'')) w))"

definition clear_arming_vars :: "unit aact" where
  "clear_arming_vars =
     abind (set_var ''CBP_EXECUTION_ARMED'' None) (\<lambda>_.
     abind (set_var ''CBP_LIVE_ENABLED'' None) (\<lambda>_. set_var ''CBP_EXECUTION_LIVE_ENABLED'' None))"

definition wizard_disable_live :: "arming_env \<Rightarrow> switch_answer aact" where
  "wizard_disable_live env =
     abind (disable_config env live_enabled_before ''live_disabled'') (\<lambda>why.
     abind clear_arming_vars (\<lambda>_.
     abind (set_live_armed_state env False ''live_enable_wizard'' ''disable_live'') (\<lambda>_.
     abind (guard_set env ''HALTED'' ''live_enable_wizard'' ''disable_live'') (\<lambda>_.
     abind (record_event env (an_event env ''live_disable'') ''live_disable'' ''live_enable_wizard'' why ''disable_live'' None) (\<lambda>_.
       aret (SwitchOk why))))))"

text \<open>\<open>status()\<close> reads the kill switch, which creates its file and raises when it holds no mapping.\<close>

definition switch_status :: "arming_env \<Rightarrow> bool aact" where
  "switch_status env = abind (kill_state env) (\<lambda>ks. alift (\<lambda>_. kill_armed ks))"

definition disable_live_now :: "arming_env \<Rightarrow> string \<Rightarrow> switch_answer aact" where
  "disable_live_now env note =
     abind (switch_status env) (\<lambda>_.
     abind (disable_config env (\<lambda>_. Inr True) ''ok'') (\<lambda>why.
     abind clear_arming_vars (\<lambda>_.
     abind (set_armed env True note) (\<lambda>_.
     abind (set_live_armed_state env False ''live_disable_wizard'' note) (\<lambda>_.
     abind (guard_set env ''HALTED'' ''live_disable_wizard'' note) (\<lambda>_.
     abind (switch_status env) (\<lambda>_.
     abind (record_event env (an_event env ''live_disable'') ''live_disable'' ''live_disable_wizard'' why note None) (\<lambda>_.
       aret (SwitchOk why)))))))))"

section \<open>Resuming\<close>

definition resume_switch :: "arming_env \<Rightarrow> string \<Rightarrow> unit aact" where
  "resume_switch env note =
     abind (set_armed env False note) (\<lambda>_. abind (guard_set env ''RUNNING'' ''resume_gate'' note) (\<lambda>_. aret ()))"

definition resume_undo :: "arming_env \<Rightarrow> string \<Rightarrow> unit aact" where
  "resume_undo env note =
     abind (set_var ''CBP_EXECUTION_ARMED'' None) (\<lambda>_.
     abind (set_live_armed_state env False ''resume_gate'' note) (\<lambda>_. set_armed env True note))"

definition resume_commit :: "arming_env \<Rightarrow> string \<Rightarrow> pyfloat \<Rightarrow> pyfloat \<Rightarrow> switch_answer aact" where
  "resume_commit env note consumed max_age w =
     (case set_live_armed_state env True ''resume_gate'' note w of
        (Inl e, w1) \<Rightarrow> (Inr (SwitchRefused ''live_arm_restore_failed''), w1)
      | (Inr _, w1) \<Rightarrow>
          (case resume_switch env note (snd (set_var ''CBP_EXECUTION_ARMED'' (Some ''YES'') w1)) of
             (Inl e, w2) \<Rightarrow>
               abind (resume_undo env (note @ '':rollback_system_guard_failed'')) (\<lambda>_. aret (SwitchRefused ''system_guard_resume_failed'')) w2
           | (Inr _, w2) \<Rightarrow>
               abind (record_event env (an_event env ''live_resume'') ''live_resume'' ''resume_gate'' ''ok'' note (Some (consumed, max_age))) (\<lambda>recorded.
                 if recorded then aret (SwitchOk ''ok'')
                 else abind (resume_undo env (note @ '':rollback_operator_event_failed'')) (\<lambda>_.
                      abind (guard_set env ''HALTED'' ''resume_gate'' (note @ '':rollback_operator_event_failed'')) (\<lambda>_.
                        aret (SwitchRefused rolled_back)))) w2))"

definition resume_if_safe :: "arming_env \<Rightarrow> string \<Rightarrow> switch_answer aact" where
  "resume_if_safe env note w =
     (if \<not> is_live_enabled (load_user_yaml w) then (Inr (SwitchRefused ''live_not_enabled_ceremony_required''), w)
      else (case ceremony_resume_provenance env w of
              Inl e \<Rightarrow> (Inl e, w)
            | Inr (ProvenanceRefused why) \<Rightarrow> (Inr (SwitchRefused why), w)
            | Inr (ProvenanceOk consumed max_age) \<Rightarrow>
                abind (live_allowed env True True) (\<lambda>(allowed, why).
                  if \<not> allowed then aret (SwitchRefused why) else resume_commit env note consumed max_age) w))"

section \<open>Live trading needs a recorded resume\<close>

definition kill_on :: "arming_world \<Rightarrow> bool" where
  "kill_on w = admin_armed (admin_kill_state (aw_kill w))"

text \<open>Actions that never turn the kill switch off and never drop a journal entry.\<close>

definition keeps_off :: "'a aact \<Rightarrow> bool" where
  "keeps_off m \<longleftrightarrow>
     (\<forall>w r w'. m w = (r, w') \<longrightarrow> (kill_on w' \<or> aw_kill w' = aw_kill w) \<and> set (aw_events w) \<subseteq> set (aw_events w'))"

named_theorems keeps

lemma keeps_offI:
  "(\<And>w. kill_on (snd (m w)) \<or> aw_kill (snd (m w)) = aw_kill w) \<Longrightarrow> (\<And>w. set (aw_events w) \<subseteq> set (aw_events (snd (m w)))) \<Longrightarrow> keeps_off m"
  unfolding keeps_off_def by (metis snd_conv)

lemma keeps_abind [keeps]:
  assumes "keeps_off m" "\<And>x. keeps_off (f x)"
  shows "keeps_off (abind m f)"
  unfolding keeps_off_def
proof (intro allI impI)
  fix w r w'
  assume b: "abind m f w = (r, w')"
  obtain q v where m: "m w = (q, v)" by fastforce
  note mk = assms(1)[unfolded keeps_off_def, rule_format, OF m]
  show "(kill_on w' \<or> aw_kill w' = aw_kill w) \<and> set (aw_events w) \<subseteq> set (aw_events w')"
  proof (cases q)
    case (Inl e)
    then show ?thesis using b m mk by (simp add: abind_def)
  next
    case (Inr x)
    then have f: "f x v = (r, w')" using b m by (simp add: abind_def)
    note fk = assms(2)[unfolded keeps_off_def, rule_format, OF f]
    have "aw_kill w' = aw_kill v \<Longrightarrow> kill_on w' = kill_on v" by (simp add: kill_on_def)
    then show ?thesis using fk mk by auto
  qed
qed

lemma keeps_reads [keeps]: "keeps_off (aret x)" "keeps_off (alift g)" "keeps_off (\<lambda>w. (h w, w))"
  by (auto simp: keeps_off_def aret_def alift_def)

lemma keeps_set_var [keeps]: "keeps_off (set_var k v)"
  by (auto simp: keeps_off_def set_var_def)

lemma keeps_arm [keeps]: "keeps_off (set_live_armed_state env b wr re)"
  by (rule keeps_offI) (auto simp: set_live_armed_state_def split: json.split option.split)

lemma keeps_token [keeps]: "keeps_off (issue_token env ttl tok)" "keeps_off (verify_and_consume env tok)"
  by (rule keeps_offI; auto simp: issue_token_def verify_and_consume_def split: json.split option.split sum.split)+

lemma keeps_guard_set [keeps]: "keeps_off (guard_set env st wr re)"
  by (rule keeps_offI) (auto simp: guard_set_def Let_def split: option.split)

lemma admin_armed_payload [simp]: "admin_armed (kill_payload env b note) = b"
  by (simp add: admin_armed_def kill_payload_def)

lemma keeps_kill_on [keeps]: "keeps_off (set_armed env True note)"
  by (rule keeps_offI) (auto simp: set_armed_def write_kill_def kill_on_def admin_kill_state_def split: option.split,
      auto simp: admin_armed_def)

lemma keeps_kill_state [keeps]: "keeps_off (kill_state env)"
  by (rule keeps_offI) (auto simp: kill_state_def write_kill_def kill_on_def admin_kill_state_def split: option.split, auto simp: admin_armed_def)

lemma keeps_record [keeps]: "keeps_off (record_event env f a s r re p)"
  by (rule keeps_offI) (auto simp: record_event_def split: option.split)

lemma keeps_save [keeps]: "keeps_off (save_user_yaml env rb cfg)"
  by (rule keeps_offI) (auto simp: save_user_yaml_def record_event_def Let_def split: option.split)

lemma keeps_off_if [keeps]: "keeps_off m \<Longrightarrow> keeps_off n \<Longrightarrow> keeps_off (if b then m else n)"
  by simp

lemma keeps_option [keeps]: "keeps_off m \<Longrightarrow> (\<And>x. keeps_off (f x)) \<Longrightarrow> keeps_off (case v of None \<Rightarrow> m | Some x \<Rightarrow> f x)"
  by (cases v) simp_all

lemma keeps_sum [keeps]: "(\<And>e. keeps_off (f e)) \<Longrightarrow> (\<And>x. keeps_off (g x)) \<Longrightarrow> keeps_off (\<lambda>w. case h w of Inl e \<Rightarrow> f e w | Inr x \<Rightarrow> g x w)"
  by (auto simp: keeps_off_def split: sum.splits)

lemma keeps_enable [keeps]: "keeps_off (enable_live env tok cl)"
  unfolding enable_live_def ceremony_commit_def by (intro keeps)

lemma keeps_wizard [keeps]: "keeps_off (wizard_enable_live env)"
  unfolding wizard_enable_live_def wizard_commit_def wizard_rollback_def by (intro keeps)

lemma keeps_disable_config [keeps]: "keeps_off (disable_config env check saved)"
  unfolding disable_config_def by (intro keeps)

lemma keeps_clear [keeps]: "keeps_off clear_arming_vars"
  unfolding clear_arming_vars_def by (intro keeps)

lemma keeps_disable [keeps]: "keeps_off (wizard_disable_live env)" "keeps_off (disable_live_now env note)"
  unfolding wizard_disable_live_def disable_live_now_def switch_status_def by (intro keeps)+

lemma keeps_live_allowed [keeps]: "keeps_off (live_allowed env a b)"
proof -
  have "keeps_off (\<lambda>w. let gs = strip (upper (gp_state (guard_get env False w)))
        in if gs = ''HALTING'' then (Inr (False, ''system_guard_halting''), w)
           else if gs = ''HALTED'' \<and> \<not> b then (Inr (False, ''system_guard_halted''), w)
           else (case kill_armed ks of
                   Inl e \<Rightarrow> (Inl e, w)
                 | Inr armed \<Rightarrow>
                     (if armed \<and> \<not> a then (Inr (False, ''kill_switch_armed''), w)
                      else if \<not> is_live_enabled (load_user_yaml w) then (Inr (False, ''risk_enable_live_false''), w)
                      else (Inr (True, ''ok''), w))))" for ks
    by (rule keeps_offI) (simp_all add: Let_def split: sum.split)
  then show ?thesis unfolding live_allowed_def by (intro keeps)
qed

lemma keeps_promote [keeps]: "keeps_off (maybe_promote_system_guard_halted env q g)"
proof -
  have "keeps_off (\<lambda>w. if c then (Inr g, w) else guard_set env s a b w)" for c s a b
    using keeps_guard_set[of env s a b] by (auto simp: keeps_off_def)
  then show ?thesis unfolding maybe_promote_system_guard_halted_def keeps_off_def by (auto split: option.splits if_splits)
qed

text \<open>The journal entry of a resume that was authorized by a ceremony: its token was consumed at a sane time, at most a minute in the future and within the resume
  window.\<close>

definition resumed_with_ceremony :: "operator_event \<Rightarrow> bool" where
  "resumed_with_ceremony ev \<longleftrightarrow>
     oe_action ev = ''live_resume'' \<and>
     (case oe_provenance ev of
        None \<Rightarrow> False
      | Some (consumed, max_age) \<Rightarrow>
          sane_epoch consumed \<and> \<not> flt (fsub (oe_epoch ev) consumed) (Fin (- 60)) \<and> \<not> flt max_age (fsub (oe_epoch ev) consumed))"

lemma keeps_kill:
  assumes "keeps_off m" "m w = (r, w')" "kill_on w"
  shows "kill_on w'"
  using assms(1)[unfolded keeps_off_def, rule_format, OF assms(2)] assms(3) by (auto simp: kill_on_def)

text \<open>After the arming state was written, undoing the resume turns the kill switch on unless one of its two writes fails; and then the undoing raises.\<close>

lemma resume_undo_off:
  assumes "aw_arming w = Some (Inr (JObj st))" "resume_undo env note w = (r, w')" "\<not> kill_on w'"
  shows "(\<exists>e. r = Inl e) \<and> (an_save_arm env False \<noteq> None \<or> an_save_kill env KillOn \<noteq> None)"
  using assms
  by (auto simp: resume_undo_def abind_def set_var_def set_live_armed_state_def load_arming_def set_armed_def write_kill_def kill_on_def admin_kill_state_def
      split: option.splits prod.splits if_splits)

lemma resume_switch_frame: "resume_switch env note w = (r, w') \<Longrightarrow> aw_arming w' = aw_arming w \<and> aw_events w' = aw_events w"
  by (auto simp: resume_switch_def abind_def set_armed_def write_kill_def guard_set_def aret_def Let_def split: option.splits if_splits prod.splits sum.splits)

lemma arm_written:
  "set_live_armed_state env b wr re w = (Inr u, w') \<Longrightarrow> (\<exists>st. aw_arming w' = Some (Inr (JObj st))) \<and> aw_events w' = aw_events w"
  by (auto simp: set_live_armed_state_def split: json.splits option.splits)

lemma abind_lost: "abind (record_event env (Some e) a s r re p) f w = f False w"
  by (simp add: abind_def record_event_def)

definition undo_fault :: "arming_env \<Rightarrow> bool" where
  "undo_fault env \<longleftrightarrow> an_save_arm env False \<noteq> None \<or> an_save_kill env KillOn \<noteq> None"

lemma undo_then_off:
  assumes "aw_arming w = Some (Inr (JObj st))" "keeps_off m" "abind (resume_undo env note) (\<lambda>_. m) w = (r, w')" "\<not> kill_on w'"
  shows "\<exists>e. r = Inl e \<and> undo_fault env"
proof -
  obtain q v where u: "resume_undo env note w = (q, v)" by fastforce
  show ?thesis
  proof (cases "kill_on v")
    case True
    then show ?thesis
      using assms(3,4) u keeps_kill[OF assms(2)] by (auto simp: abind_def split: sum.splits)
  next
    case False
    then show ?thesis using resume_undo_off[OF assms(1) u] assms(3) u by (auto simp: abind_def undo_fault_def)
  qed
qed

lemma provenance_sane:
  assumes "ceremony_resume_provenance env w = Inr (ProvenanceOk c m)"
  shows "sane_epoch c \<and> \<not> flt (fsub (an_epoch env) c) (Fin (- 60)) \<and> \<not> flt m (fsub (an_epoch env) c)"
  using assms by (auto simp: ceremony_resume_provenance_def Let_def split: json.splits sum.splits if_splits)

definition resume_event :: "arming_env \<Rightarrow> string \<Rightarrow> pyfloat \<Rightarrow> pyfloat \<Rightarrow> operator_event" where
  "resume_event env note c m =
     \<lparr>oe_action = ''live_resume'', oe_source = ''resume_gate'', oe_result = ''ok'', oe_reason = note, oe_epoch = an_epoch env, oe_provenance = Some (c, m)\<rparr>"

lemma resume_commit_off:
  assumes c: "resume_commit env note c m w = (r, w')" and on: "kill_on w" and off: "\<not> kill_on w'"
  shows "(r = Inr (SwitchOk ''ok'') \<and> aw_events w' = aw_events w @ [resume_event env note c m]) \<or> (\<exists>e. r = Inl e \<and> undo_fault env)"
proof -
  obtain q w1 where a: "set_live_armed_state env True ''resume_gate'' note w = (q, w1)" by fastforce
  show ?thesis
  proof (cases q)
    case (Inl e)
    then show ?thesis using c a off keeps_kill[OF keeps_arm a on] by (simp add: resume_commit_def)
  next
    case (Inr u)
    obtain st where st: "aw_arming w1 = Some (Inr (JObj st))" and ev1: "aw_events w1 = aw_events w" using arm_written a Inr by blast
    define w1' where "w1' = snd (set_var ''CBP_EXECUTION_ARMED'' (Some ''YES'') w1)"
    obtain q2 w2 where s: "resume_switch env note w1' = (q2, w2)" by fastforce
    have st2: "aw_arming w2 = Some (Inr (JObj st))" and ev2: "aw_events w2 = aw_events w"
      using resume_switch_frame[OF s] st ev1 by (simp_all add: w1'_def set_var_def)
    note undo = undo_then_off[OF st2 _ _ off]
    show ?thesis
    proof (cases q2)
      case (Inl e)
      have "abind (resume_undo env (note @ '':rollback_system_guard_failed'')) (\<lambda>_. aret (SwitchRefused ''system_guard_resume_failed'')) w2 = (r, w')"
        using c by (simp only: resume_commit_def a Inr s[unfolded w1'_def] Inl prod.case sum.case)
      then have "\<exists>e. r = Inl e \<and> undo_fault env" by (rule undo[rotated]) (intro keeps)
      then show ?thesis ..
    next
      case q2: (Inr u2)
      show ?thesis
      proof (cases "an_event env ''live_resume''")
        case None
        then show ?thesis
          using c ev2 by (simp add: resume_commit_def a Inr s[unfolded w1'_def] q2 record_event_def abind_def aret_def resume_event_def) auto
      next
        case (Some e)
        have "abind (resume_undo env (note @ '':rollback_operator_event_failed''))
            (\<lambda>_. abind (guard_set env ''HALTED'' ''resume_gate'' (note @ '':rollback_operator_event_failed'')) (\<lambda>_. aret (SwitchRefused rolled_back))) w2 = (r, w')"
          using c by (simp only: resume_commit_def a Inr s[unfolded w1'_def] q2 Some abind_lost prod.case sum.case if_False simp_thms)
        then have "\<exists>e. r = Inl e \<and> undo_fault env" by (rule undo[rotated]) (intro keeps)
        then show ?thesis ..
      qed
    qed
  qed
qed

text \<open>The two ways the switch goes off. A resume while live trading is enabled in the configuration and a ceremony authorizes it: it answers that live trading is resumed and
  appends its journal entry, or undoing it fails and it raises. And an operator's disarm.\<close>

definition authorized_resume :: "arming_world \<Rightarrow> arming_world \<Rightarrow> bool" where
  "authorized_resume u v \<longleftrightarrow>
     (\<exists>env note r c m.
        resume_if_safe env note u = (r, v) \<and> is_live_enabled (load_user_yaml u) \<and> ceremony_resume_provenance env u = Inr (ProvenanceOk c m) \<and>
        resumed_with_ceremony (resume_event env note c m) \<and>
        (r = Inr (SwitchOk ''ok'') \<and> aw_events v = aw_events u @ [resume_event env note c m] \<or> (\<exists>e. r = Inl e \<and> undo_fault env)))"

definition operator_disarm :: "arming_world \<Rightarrow> arming_world \<Rightarrow> bool" where
  "operator_disarm u v \<longleftrightarrow> (\<exists>env note r. set_armed env False note u = (r, v))"

lemma live_allowed_events: "live_allowed env a b w = (r, w') \<Longrightarrow> aw_events w' = aw_events w"
  by (auto simp: live_allowed_def abind_def kill_state_def write_kill_def Let_def split: option.splits if_splits sum.splits)

lemma resume_off:
  assumes r: "resume_if_safe env note w = (r, w')" and on: "kill_on w" and off: "\<not> kill_on w'"
  shows "authorized_resume w w'"
proof -
  have "w' \<noteq> w" using on off by auto
  then obtain c m where en: "is_live_enabled (load_user_yaml w)" and p: "ceremony_resume_provenance env w = Inr (ProvenanceOk c m)"
    using r by (auto simp: resume_if_safe_def split: if_splits sum.splits provenance.splits)
  obtain q v where l: "live_allowed env True True w = (q, v)" by fastforce
  have von: "kill_on v" by (rule keeps_kill[OF keeps_live_allowed l on])
  then have "w' \<noteq> v" using off by auto
  then have "resume_commit env note c m v = (r, w')"
    using r en p l by (auto simp: resume_if_safe_def abind_def aret_def split: if_splits sum.splits prod.splits)
  from resume_commit_off[OF this von off] live_allowed_events[OF l]
  have "(r = Inr (SwitchOk ''ok'') \<and> aw_events w' = aw_events w @ [resume_event env note c m]) \<or> (\<exists>e. r = Inl e \<and> undo_fault env)" by simp
  moreover have "resumed_with_ceremony (resume_event env note c m)"
    using provenance_sane[OF p] by (simp add: resumed_with_ceremony_def resume_event_def)
  ultimately show ?thesis unfolding authorized_resume_def using r en p by blast
qed

text \<open>The steps of the operators and processes: every operation above, whatever fails, and any other change that does not write the kill switch and keeps the journal.\<close>

inductive arming_step :: "arming_world \<Rightarrow> arming_world \<Rightarrow> bool" where
  token: "issue_token env ttl tok w = (r, w') \<Longrightarrow> arming_step w w'"
| ceremony: "enable_live env tok cl w = (r, w') \<Longrightarrow> arming_step w w'"
| wizard_on: "wizard_enable_live env w = (r, w') \<Longrightarrow> arming_step w w'"
| wizard_off: "wizard_disable_live env w = (r, w') \<Longrightarrow> arming_step w w'"
| disable: "disable_live_now env note w = (r, w') \<Longrightarrow> arming_step w w'"
| kill: "set_armed env True note w = (r, w') \<Longrightarrow> arming_step w w'"
| command: "killswitch_cli env cmd w = (b, w') \<Longrightarrow> arming_step w w'"
| switched: "set_kill_switch env armed reason w = (b, w') \<Longrightarrow> arming_step w w'"
| edited: "editor_set_armed env armed w = (r, w') \<Longrightarrow> arming_step w w'"
| guard_write: "guard_set env st wr re w = (r, w') \<Longrightarrow> arming_step w w'"
| halted: "maybe_promote_system_guard_halted env q g w = (r, w') \<Longrightarrow> arming_step w w'"
| resume: "resume_if_safe env note w = (r, w') \<Longrightarrow> arming_step w w'"
| other: "aw_kill w' = aw_kill w \<Longrightarrow> set (aw_events w) \<subseteq> set (aw_events w') \<Longrightarrow> arming_step w w'"

definition arming_start :: arming_world where
  "arming_start = \<lparr>aw_arming = None, aw_guard = None, aw_kill = None, aw_config = None, aw_vars = (\<lambda>_. None), aw_events = []\<rparr>"

lemma abind_answer:
  assumes "abind m (\<lambda>_. aret x) w = (r, w')"
  obtains q where "m w = (q, w')"
  using assms by (auto simp: abind_def aret_def split: prod.splits sum.splits)

lemma set_armed_off:
  assumes "set_armed env b note w = (r, w')" "kill_on w" "\<not> kill_on w'"
  shows "operator_disarm w w'"
  using assms keeps_kill[OF keeps_kill_on] by (cases b) (auto simp: operator_disarm_def)

lemma cli_off:
  assumes c: "killswitch_cli env cmd w = (b, w')" and on: "kill_on w" and off: "\<not> kill_on w'"
  shows "operator_disarm w w'"
proof (cases cmd)
  case KillArm
  then obtain q where "set_armed env True ''scripts.killswitch:arm'' w = (q, w')" using c by (auto simp: killswitch_cli_def elim: abind_answer)
  then show ?thesis using set_armed_off on off by blast
next
  case KillDisarm
  then obtain q where "set_armed env False ''scripts.killswitch:disarm'' w = (q, w')" using c by (auto simp: killswitch_cli_def elim: abind_answer)
  then show ?thesis using set_armed_off on off by blast
next
  case KillStatus
  have "keeps_off (abind (kill_state env) (\<lambda>ks. alift (\<lambda>_. if jtruthy ks then kill_armed ks else Inr True)))" by (intro keeps)
  from keeps_kill[OF this _ on] have False using c off by (simp add: killswitch_cli_def KillStatus)
  then show ?thesis ..
qed

lemma keeps_never_off: "keeps_off m \<Longrightarrow> m w = (r, w') \<Longrightarrow> kill_on w \<Longrightarrow> \<not> kill_on w' \<Longrightarrow> P"
  using keeps_kill by blast

lemma arming_step_off:
  assumes "arming_step w w'" "kill_on w" "\<not> kill_on w'"
  shows "authorized_resume w w' \<or> operator_disarm w w'"
  using assms
proof (induction rule: arming_step.induct)
  case (other w' w)
  then show ?case by (simp add: kill_on_def)
next
  case (resume env n w r w')
  from resume_off[OF this] show ?case ..
next
  case (command env cmd w b w')
  from cli_off[OF this] show ?case ..
next
  case (switched env armed reason w b w')
  then obtain q where "set_armed env armed (str_or reason ''manual'') w = (q, w')" unfolding set_kill_switch_def by (auto elim: abind_answer)
  from set_armed_off[OF this switched(2,3)] show ?case ..
next
  case (edited env armed w r w')
  from set_armed_off[OF edited(1)[unfolded editor_set_armed_def] edited(2,3)] show ?case ..
qed (erule keeps_never_off[rotated], assumption, assumption, rule keeps)+

text \<open>C8. The kill switch of the order gate goes off only by an authorized resume or by an operator's disarm. Whatever the switching operations did and whichever of their
  writes failed, when the switch was on before and reads off after them, there is the step that began this off period, and the switch has stayed off since: that
  step is a resume made while live trading was enabled in the configuration and a ceremony token had been consumed within the resume window, which
  appended its journal entry with that provenance unless undoing it failed and it raised; or it is a disarm, which asks for no ceremony and writes no journal entry.\<close>

theorem live_needs_recorded_resume:
  assumes "arming_step\<^sup>*\<^sup>* w w'" "killswitch_is_on (aw_kill w) (Inl e)" "\<not> killswitch_is_on (aw_kill w') db"
  shows "\<exists>u v. arming_step\<^sup>*\<^sup>* w u \<and> arming_step u v \<and> (\<lambda>a b. arming_step a b \<and> \<not> kill_on a \<and> \<not> kill_on b)\<^sup>*\<^sup>* v w' \<and>
     kill_on u \<and> \<not> kill_on v \<and> (authorized_resume u v \<or> operator_disarm u v)"
proof -
  have "kill_on w" "\<not> kill_on w'" using assms(2,3) by (auto simp: kill_on_def killswitch_is_on_def split: if_splits)
  with assms(1) show ?thesis
  proof (induction rule: rtranclp_induct)
    case (step y z)
    show ?case
    proof (cases "kill_on y")
      case True
      then show ?thesis using step.hyps step.prems arming_step_off by blast
    next
      case False
      then show ?thesis using step.IH step.prems step.hyps(2) by (metis (mono_tags, lifting) rtranclp.rtrancl_into_rtrancl)
    qed
  qed simp
qed

section \<open>Switching off works\<close>

lemma abind_InrE:
  assumes "abind m f w = (Inr x, w')"
  obtains y v where "m w = (Inr y, v)" "f y v = (Inr x, w')"
  using assms by (auto simp: abind_def split: prod.splits sum.splits)

lemma guard_halted_reads:
  "guard_normalize env (guard_json (guard_default e ''HALTED'' wr re n c)) = Inr p \<Longrightarrow> gp_state p = ''HALTED''"
  "\<exists>p. guard_normalize env (guard_json (guard_default e ''HALTED'' wr re n c)) = Inr p"
proof -
  have u: "upper ''HALTED'' = ''HALTED''" "strip ''HALTED'' = ''HALTED''" by code_simp+
  show "guard_normalize env (guard_json (guard_default e ''HALTED'' wr re n c)) = Inr p \<Longrightarrow> gp_state p = ''HALTED''"
    "\<exists>p. guard_normalize env (guard_json (guard_default e ''HALTED'' wr re n c)) = Inr p"
    by (auto simp: guard_normalize_def guard_json_def guard_default_def jget_def jor_def u guard_states_def Let_def split: if_splits)
qed

lemma guard_set_halted:
  assumes "guard_set env ''HALTED'' wr re w = (Inr p, w')"
  shows "gp_state (guard_get env' fc w') = ''HALTED'' \<and> aw_kill w' = aw_kill w \<and> aw_vars w' = aw_vars w \<and> aw_arming w' = aw_arming w"
proof -
  have u: "strip (upper ''HALTED'') = ''HALTED''" by code_simp
  have g: "gp_state (guard_get env' fc (w\<lparr>aw_guard := Some (Inr (guard_json (guard_default env ''HALTED'' a b n c)))\<rparr>)) = ''HALTED''" for a b n c
    using guard_halted_reads[of env' env a b n c] by (auto simp: guard_get_def Let_def)
  show ?thesis using assms g by (auto simp: guard_set_def u guard_states_def Let_def split: option.splits)
qed

text \<open>The world of a completed disable: variables gone, disarmed, kill switch on, guard halted.\<close>

definition switched_off :: "arming_world \<Rightarrow> bool" where
  "switched_off w \<longleftrightarrow>
     list_all (\<lambda>k. aw_vars w k = None) arming_vars \<and> kill_on w \<and>
     (\<exists>env wr re st. aw_arming w = Some (Inr (JObj (AList.update ''armed'' (JObj (armed_payload env False wr re)) st)))) \<and>
     (\<forall>env fc. gp_state (guard_get env fc w) = ''HALTED'')"

lemma arm_False_written:
  assumes "set_live_armed_state env False wr re w = (Inr u, w')"
  shows "(\<exists>st. aw_arming w' = Some (Inr (JObj (AList.update ''armed'' (JObj (armed_payload env False wr re)) st)))) \<and> aw_vars w' = aw_vars w \<and> aw_kill w' = aw_kill w"
  using assms by (auto simp: set_live_armed_state_def split: json.splits option.splits)

lemma switch_status_same: "aw_kill w \<noteq> None \<Longrightarrow> switch_status env w = (r, w') \<Longrightarrow> w' = w"
  by (auto simp: switch_status_def abind_def kill_state_def alift_def)

lemma disabled_off:
  assumes "disable_live_now env note w = (Inr a, w')"
  shows "switched_off w'"
  using assms unfolding disable_live_now_def
proof (elim abind_InrE)
  fix p1 v1 why v2 u3 v3 u4 v4 u5 v5 u6 v6 p7 v7 ok v8
  assume clr: "clear_arming_vars v2 = (Inr u3, v3)" and kill: "set_armed env True note v3 = (Inr u4, v4)"
    and arm: "set_live_armed_state env False ''live_disable_wizard'' note v4 = (Inr u5, v5)"
    and grd: "guard_set env ''HALTED'' ''live_disable_wizard'' note v5 = (Inr u6, v6)"
    and st: "switch_status env v6 = (Inr p7, v7)"
    and ev: "record_event env (an_event env ''live_disable'') ''live_disable'' ''live_disable_wizard'' why note None v7 = (Inr ok, v8)"
    and ret: "aret (SwitchOk why) v8 = (Inr a, w')"
  have v3: "list_all (\<lambda>k. aw_vars v3 k = None) arming_vars"
    using clr by (auto simp: clear_arming_vars_def abind_def set_var_def arming_vars_def)
  have v4: "aw_kill v4 = Some (Inr (kill_payload env True (str_or note ''manual'')))" "aw_vars v4 = aw_vars v3"
    using kill by (auto simp: set_armed_def write_kill_def split: option.splits)
  note v5 = arm_False_written[OF arm]
  note v6 = guard_set_halted[OF grd]
  have v7: "v7 = v6" using switch_status_same[OF _ st] v6 v5 v4 by simp
  have w': "w' = v6\<lparr>aw_events := aw_events w'\<rparr>" using ev ret v7 by (auto simp: record_event_def aret_def split: option.splits)
  have same: "guard_get e fc (v6\<lparr>aw_events := x\<rparr>) = guard_get e fc v6" for e fc x by (simp add: guard_get_def)
  have "kill_on v6" using v4 v5 v6 by (simp add: kill_on_def admin_kill_state_def)
  then have "switched_off (v6\<lparr>aw_events := x\<rparr>)" for x
    using v3 v4 v5 v6 unfolding switched_off_def same kill_on_def by auto
  then show ?thesis using w' by metis
qed

text \<open>C9. Disabling stops live trading. When the disable wizard returns, whatever became of the configuration file and of the journal entry, the kill switch of the
  order gate is on, no variable arms the gate, the arming signal is off, the guard reads halted in both modes, and the live guard does not allow
  live trading.\<close>

theorem disable_stops_live:
  assumes "disable_live_now env note w = (Inr a, w')"
  shows "killswitch_is_on (aw_kill w') db \<and> \<not> is_armed (aw_vars w') \<and> \<not> live_armed_signal env' w' \<and>
    gp_state (guard_get env' fc w') = ''HALTED'' \<and> fst (live_allowed env' b False w') \<noteq> Inr (True, why)"
proof -
  note off = disabled_off[OF assms, unfolded switched_off_def]
  obtain e wr re st where arming: "aw_arming w' = Some (Inr (JObj (AList.update ''armed'' (JObj (armed_payload e False wr re)) st)))" using off by blast
  have vars: "aw_vars w' ''CBP_EXECUTION_ARMED'' = None" "aw_vars w' ''CBP_LIVE_ENABLED'' = None" "aw_vars w' ''CBP_EXECUTION_LIVE_ENABLED'' = None"
    using off by (simp_all add: arming_vars_def)
  have sig: "\<not> live_armed_signal env' w'"
    using vars arming by (auto simp: live_armed_signal_def arming_vars_def get_live_armed_state_def jget_def update_conv armed_payload_def arm_bool_def split: sum.splits)
  have u: "strip (upper ''HALTED'') = ''HALTED''" by code_simp
  have guard: "gp_state (guard_get env' x v) = ''HALTED''" if "aw_guard v = aw_guard w'" for x v
    using off that by (simp add: guard_get_def)
  have ks: "aw_guard (snd (kill_state env' w')) = aw_guard w'" by (auto simp: kill_state_def write_kill_def split: option.splits)
  have "fst (live_allowed env' b False w') \<noteq> Inr (True, why)"
    using guard[OF ks] by (auto simp: live_allowed_def abind_def u Let_def split: prod.splits sum.splits)
  then show ?thesis using off sig vars guard[OF refl] by (simp add: killswitch_is_on_def kill_on_def is_armed_def env_truthy_def)
qed

section \<open>Tokens\<close>

definition consumed_at :: "pyfloat \<Rightarrow> arming_world \<Rightarrow> bool" where
  "consumed_at t w \<longleftrightarrow>
     (\<exists>st a. aw_arming w = Some (Inr (JObj st)) \<and> jget ''active'' st = JObj a \<and> jtruthy (jget ''consumed'' a) \<and> jget ''consumed_epoch'' a = JFloat t)"

lemma jget_update [simp]: "jget k (AList.update k' v d) = (if k = k' then v else jget k d)"
  by (simp add: jget_def update_conv')

lemma verify_consumes:
  assumes "verify_and_consume env token w = (Inr None, w')"
  shows "consumed_at (an_epoch env) w'"
  using assms by (auto simp: verify_and_consume_def consumed_at_def split: json.splits sum.splits if_splits option.splits)

text \<open>A token is good once: after it was accepted, no token is accepted until another one is issued.\<close>

lemma token_once:
  assumes "verify_and_consume env token w = (Inr None, w')"
  shows "verify_and_consume env' token' w' = (Inr (Some ''token_already_consumed''), w')"
  using verify_consumes[OF assms] by (auto simp: consumed_at_def verify_and_consume_def load_arming_def)

lemma consumed_kept:
  "set_live_armed_state env b wr re w = (r, w') \<Longrightarrow> consumed_at t w \<Longrightarrow> consumed_at t w'"
  "save_user_yaml env rb cfg w = (r2, w') \<Longrightarrow> consumed_at t w \<Longrightarrow> consumed_at t w'"
  "record_event env f a s rs re p w = (r3, w') \<Longrightarrow> consumed_at t w \<Longrightarrow> consumed_at t w'"
  by (auto simp: set_live_armed_state_def save_user_yaml_def record_event_def consumed_at_def load_arming_def Let_def
      split: option.splits if_splits)

lemma commit_consumed:
  assumes "ceremony_commit env raw w = (Inr x, w')" "consumed_at t w"
  shows "consumed_at t w'"
  using assms unfolding ceremony_commit_def
  by (auto elim!: abind_InrE consumed_kept simp: aret_def split: if_splits dest: consumed_kept)

lemma consumed_provenance:
  assumes "consumed_at t w" "sane_epoch t" "sane_epoch (an_epoch env)" "\<not> flt (fsub (an_epoch env) t) (Fin (- 60))"
    "\<not> flt (resume_window (aw_vars w)) (fsub (an_epoch env) t)"
  shows "ceremony_resume_provenance env w = Inr (ProvenanceOk t (resume_window (aw_vars w)))"
proof -
  have "t \<noteq> Fin 0" using assms(2) by (auto simp: sane_epoch_def)
  then show ?thesis using assms by (auto simp: consumed_at_def ceremony_resume_provenance_def load_arming_def jor_def Let_def)
qed

text \<open>C32. A failed ceremony authorises a resume. When the token ceremony is refused after its token was consumed (the configuration could not be read or saved, or the
  operator journal could not be written and everything was rolled back), the resume gate nevertheless finds a completed ceremony for the whole resume
  window.\<close>

theorem failed_ceremony_authorizes_resume:
  assumes "enable_live env token checklist w = (Inr (SwitchRefused why), w')" "why \<in> {''config_load_failed'', ''config_save_failed'', rolled_back}"
    "sane_epoch (an_epoch env)" "sane_epoch (an_epoch env')" "\<not> flt (fsub (an_epoch env') (an_epoch env)) (Fin (- 60))"
    "\<not> flt (resume_window (aw_vars w')) (fsub (an_epoch env') (an_epoch env))"
  shows "ceremony_resume_provenance env' w' = Inr (ProvenanceOk (an_epoch env) (resume_window (aw_vars w')))"
proof (rule consumed_provenance[OF _ assms(3-6)])
  have late: "why \<notin> {''checklist_incomplete'', ''preflight_failed'', ''token_failed''}" using assms(2) by (auto simp: rolled_back_def)
  obtain tok v where tok: "verify_and_consume env token w = (Inr tok, v)"
    and rest: "(case tok of Some why \<Rightarrow> aret (SwitchRefused ''token_failed'')
          | None \<Rightarrow> (\<lambda>w. case load_user_yaml_strict w of
                 Inl e \<Rightarrow> (Inr (SwitchRefused ''config_load_failed''), w)
               | Inr raw \<Rightarrow> (case live_enabled_before raw of Inl e \<Rightarrow> (Inl e, w) | Inr _ \<Rightarrow> ceremony_commit env raw w))) v = (Inr (SwitchRefused why), w')"
    using assms(1) late unfolding enable_live_def by (auto elim!: abind_InrE simp: aret_def alift_def split: if_splits)
  have none: "tok = None" using rest late by (cases tok) (auto simp: aret_def)
  then have v: "consumed_at (an_epoch env) v" using verify_consumes tok by blast
  show "consumed_at (an_epoch env) w'"
    using rest v none commit_consumed by (auto split: sum.splits)
qed

text \<open>The halt completes when no submitted intent is left; ambiguous ones are not looked at.\<close>

lemma halt_ignores_submit_unknown:
  assumes "list_all (\<lambda>i. li_status i = ''submit_unknown'') (lq_intents q)" "gp_state g = ''HALTING''" "an_save_guard env ''HALTED'' = None"
  shows "\<exists>p. fst (maybe_promote_system_guard_halted env (Some q) g w) = Inr p \<and> gp_state p = ''HALTED''"
proof -
  have u: "strip (upper ''HALTED'') = ''HALTED''" "upper ''HALTED'' = ''HALTED''" "strip ''HALTED'' = ''HALTED''" "strip (upper ''HALTING'') = ''HALTING''" by code_simp+
  have "filter (\<lambda>r. Some (li_status r) = Some ''submitted'') (lq_intents q) = []" using assms(1) by (auto simp: list_all_iff filter_empty_conv)
  then have "live_list_intents 1 (Some ''submitted'') q = []" by (simp add: live_list_intents_def truthy_def sql_limit_def)
  then show ?thesis using assms by (simp add: maybe_promote_system_guard_halted_def guard_set_def guard_states_def guard_default_def u Let_def)
qed

section \<open>Samples\<close>

definition arming_sample_env :: arming_env where
  "arming_sample_env =
     \<lparr>an_now = ''n'', an_epoch = Fin 100, an_save_arm = (\<lambda>_. None), an_save_token = None, an_save_kill = (\<lambda>_. None), an_save_guard = (\<lambda>_. None),
      an_save_config = (\<lambda>_. \<lparr>cf_before = False, cf_dump = None, cf_event = None, cf_restore = None\<rparr>), an_event = (\<lambda>_. None), an_preflight = Inr True,
      an_sha256 = (\<lambda>s. s)\<rparr>"

lemma arming_sample_env_simps [simp]:
  "an_now arming_sample_env = ''n''" "an_epoch arming_sample_env = Fin 100" "an_save_arm arming_sample_env b = None" "an_save_token arming_sample_env = None"
  "an_save_kill arming_sample_env k = None" "an_save_guard arming_sample_env s = None" "cf_before (an_save_config arming_sample_env b) = False"
  "cf_dump (an_save_config arming_sample_env b) = None" "cf_event (an_save_config arming_sample_env b) = None" "an_event arming_sample_env a = None"
  "an_preflight arming_sample_env = Inr True" "an_sha256 arming_sample_env t = t"
  by (simp_all add: arming_sample_env_def)

text \<open>A world after a ceremony at second 90, resumed at second 100.\<close>

definition ceremony_sample :: arming_world where
  "ceremony_sample = arming_start
     \<lparr>aw_arming := Some (Inr (JObj [(''active'', JObj [(''consumed'', JBool True), (''consumed_epoch'', JFloat (Fin 90))])])),
      aw_config := Some (Inr (JObj [(''execution'', JObj [(''live_enabled'', JBool True)])]))\<rparr>"

definition resumed_sample :: arming_world where
  "resumed_sample = snd (resume_if_safe arming_sample_env ''go'' ceremony_sample)"

lemma guard_texts: "upper ''RUNNING'' = ''RUNNING''" "strip ''RUNNING'' = ''RUNNING''" "upper ''HALTED'' = ''HALTED''" "strip ''HALTED'' = ''HALTED''"
  by code_simp+

lemma resumed_sample_off: "\<not> killswitch_is_on (aw_kill resumed_sample) (Inl (RuntimeError ''x''))"
proof -
  have en: "is_live_enabled (load_user_yaml ceremony_sample)" by code_simp
  have age: "fsub (Fin 100) (Fin 90) = Fin 10" by code_simp
  have "sane_epoch (Fin 90)" "sane_epoch (Fin 100)" by (simp_all add: sane_epoch_def)
  then have prov: "ceremony_resume_provenance arming_sample_env ceremony_sample = Inr (ProvenanceOk (Fin 90) (Fin 3600))"
    by (simp add: ceremony_resume_provenance_def load_arming_def ceremony_sample_def arming_start_def jget_def jor_def resume_window_def age)
  have "kill_state arming_sample_env ceremony_sample = (Inr (admin_kill_state None), ceremony_sample\<lparr>aw_kill := Some (Inr (kill_payload arming_sample_env True ''default''))\<rparr>)"
    by (simp add: kill_state_def write_kill_def ceremony_sample_def arming_start_def)
  moreover have "is_live_enabled (load_user_yaml (ceremony_sample\<lparr>aw_kill := v\<rparr>))" for v
    using en by (simp add: load_user_yaml_def load_user_yaml_strict_def)
  moreover have "kill_armed (admin_kill_state None) = Inr True" by (simp add: kill_armed_def admin_kill_state_def)
  moreover have "aw_guard ceremony_sample = None" by (simp add: ceremony_sample_def arming_start_def)
  ultimately have allowed: "live_allowed arming_sample_env True True ceremony_sample =
      (Inr (True, ''ok''), ceremony_sample\<lparr>aw_kill := Some (Inr (kill_payload arming_sample_env True ''default''))\<rparr>)"
    by (simp add: live_allowed_def abind_def guard_get_def guard_default_def guard_texts Let_def)
  have "aw_arming ceremony_sample = Some (Inr (JObj [(''active'', JObj [(''consumed'', JBool True), (''consumed_epoch'', JFloat (Fin 90))])]))"
    by (simp add: ceremony_sample_def)
  then have "aw_kill resumed_sample = Some (Inr (kill_payload arming_sample_env False ''go''))"
    by (simp add: resumed_sample_def resume_if_safe_def en prov allowed resume_commit_def resume_switch_def abind_def aret_def set_live_armed_state_def load_arming_def
        set_armed_def write_kill_def guard_set_def guard_texts guard_states_def set_var_def record_event_def str_or_def Let_def)
  then show ?thesis by (simp add: killswitch_is_on_def admin_kill_state_def)
qed

theorem live_needs_recorded_resume_witness:
  "\<exists>u v. arming_step\<^sup>*\<^sup>* arming_start u \<and> arming_step u v \<and> (\<lambda>a b. arming_step a b \<and> \<not> kill_on a \<and> \<not> kill_on b)\<^sup>*\<^sup>* v resumed_sample \<and>
     kill_on u \<and> \<not> kill_on v \<and> (authorized_resume u v \<or> operator_disarm u v)"
proof (rule live_needs_recorded_resume[OF _ _ resumed_sample_off])
  show "killswitch_is_on (aw_kill arming_start) (Inl (RuntimeError ''x''))"
    by (simp add: killswitch_is_on_def arming_start_def admin_kill_state_def admin_armed_def)
  have "arming_step arming_start ceremony_sample" by (rule arming_step.other) (simp_all add: ceremony_sample_def)
  moreover have "arming_step ceremony_sample resumed_sample"
    by (rule arming_step.resume[of arming_sample_env "''go''"]) (auto simp: resumed_sample_def prod_eq_iff)
  ultimately show "arming_step\<^sup>*\<^sup>* arming_start resumed_sample" by (meson rtranclp.simps)
qed

lemma disable_sample: "fst (disable_live_now arming_sample_env ''stop'' arming_start) = Inr (SwitchOk ''ok'')"
  by (simp add: disable_live_now_def abind_def switch_status_def kill_state_def arming_start_def write_kill_def alift_def kill_armed_def admin_kill_state_def
      disable_config_def load_user_yaml_strict_def save_user_yaml_def record_event_def aret_def clear_arming_vars_def set_var_def set_armed_def set_live_armed_state_def
      load_arming_def guard_set_def guard_texts guard_states_def kill_payload_def Let_def)

theorem disable_stops_live_witness:
  "killswitch_is_on (aw_kill (snd (disable_live_now arming_sample_env ''stop'' arming_start))) (Inl (RuntimeError ''x'')) \<and>
   \<not> live_armed_signal arming_sample_env (snd (disable_live_now arming_sample_env ''stop'' arming_start))"
proof -
  have "disable_live_now arming_sample_env ''stop'' arming_start = (Inr (SwitchOk ''ok''), snd (disable_live_now arming_sample_env ''stop'' arming_start))"
    using disable_sample by (simp add: prod_eq_iff)
  then show ?thesis using disable_stops_live by blast
qed

definition token_sample :: arming_world where
  "token_sample = arming_start\<lparr>aw_arming := Some (Inr (JObj [(''active'', JObj [(''hash'', JStr ''t''), (''expires_epoch'', JFloat (Fin 200)), (''consumed'', JBool False)])]))\<rparr>"

definition checklist_sample :: dict where
  "checklist_sample = map (\<lambda>k. (k, JBool True)) ceremony_checklist"

definition journal_down_env :: arming_env where
  "journal_down_env = arming_sample_env\<lparr>an_event := (\<lambda>_. Some (RuntimeError ''disk''))\<rparr>"

lemma ceremony_fails:
  "fst (enable_live journal_down_env ''t'' checklist_sample token_sample) = Inr (SwitchRefused rolled_back)"
  "aw_vars (snd (enable_live journal_down_env ''t'' checklist_sample token_sample)) = (\<lambda>_. None)"
proof -
  have cl: "filter (\<lambda>k. \<not> jtruthy (jget k checklist_sample)) ceremony_checklist = []" by code_simp
  show "fst (enable_live journal_down_env ''t'' checklist_sample token_sample) = Inr (SwitchRefused rolled_back)"
    "aw_vars (snd (enable_live journal_down_env ''t'' checklist_sample token_sample)) = (\<lambda>_. None)"
    unfolding enable_live_def cl
    by (simp_all add: abind_def alift_def journal_down_env_def verify_and_consume_def token_sample_def arming_start_def load_arming_def jget_def jor_def
        load_user_yaml_strict_def live_enabled_before_def ceremony_commit_def save_user_yaml_def record_event_def aret_def set_live_armed_state_def Let_def)
qed

theorem failed_ceremony_authorizes_resume_witness:
  "\<exists>m. ceremony_resume_provenance arming_sample_env (snd (enable_live journal_down_env ''t'' checklist_sample token_sample)) = Inr (ProvenanceOk (Fin 100) m)"
proof -
  let ?w = "snd (enable_live journal_down_env ''t'' checklist_sample token_sample)"
  have eq: "enable_live journal_down_env ''t'' checklist_sample token_sample = (Inr (SwitchRefused rolled_back), ?w)"
    using ceremony_fails(1) by (simp add: prod_eq_iff)
  note vars = ceremony_fails(2)
  have ep: "an_epoch journal_down_env = Fin 100" by (simp add: journal_down_env_def)
  have "fsub (Fin 100) (Fin 100) = Fin 0" by (simp add: fsub_def)
  then show ?thesis
    using failed_ceremony_authorizes_resume[OF eq, of arming_sample_env] by (simp add: ep vars resume_window_def sane_epoch_def)
qed

end
