(* ===== verification/Spec2Isabelle.thy ===== *)
theory Spec2Isabelle
  imports Consumer_Gates Live_Positions Risk_Daily Live_Risk_Gates Paper_Reconciler Executor_Reconcile Live_Reconciler Order_Router Control_Kernel Live_Arming
begin

text \<open>
  CryptKeep is a trading system in Python. Strategies write trade intents into a queue; a consumer process
  takes them out, checks them against risk limits and submits orders to an exchange; reconciler processes
  read back what became of the orders and hand every fill to one accounting routine, the fill sink, which writes the
  canonical journal, positions, daily totals and loss counters. The same pipeline exists for paper trading, with a
  simulated exchange. The processes share nothing but SQLite files: a step of the system is a transaction
  on one of them. This development models the core of both lanes, function by function, and proves what
  they promise each other.

  \<^bold>\<open>Queue and submission.\<close> \<open>Live_Intent_Queue\<close> is storage/live\_intent\_queue\_sqlite.py: the queue with its
  guarded status updates, its audit log and the daily risk counters. \<open>Intent_Lifecycle\<close> is
  services/execution/intent\_lifecycle.py: the status vocabulary, the transition tables and the two
  validators. \<open>State_Authority\<close> is services/execution/state\_authority.py: which process may write which
  status. \<open>Order_Dedupe\<close> is storage/order\_dedupe\_store\_sqlite.py: one row per exchange and intent.
  \<open>Live_Trading_Store\<close> is storage/live\_trading\_sqlite.py: submitted orders and fills. \<open>Intent_TTL\<close> is
  services/execution/intent\_ttl.py. \<open>Live_Risk_Gates\<close> is services/risk/live\_risk\_gates.py.
  \<open>Live_Intent_Consumer\<close> is services/execution/live\_intent\_consumer.py, the handler of one intent with all its
  branches, the loop over a batch and the recovery sweep, over all these stores; \<open>Consumer_Gates\<close> proves
  what a submission has passed.

  \<^bold>\<open>The order gate.\<close> \<open>Place_Order\<close> is services/execution/place\_order.py, the only caller of \<open>create_order\<close>, with the
  kill switch (services/risk/killswitch.py) and every check in front of the call. \<open>System_Health\<close> is
  services/risk/system\_health.py, the comparison of the books that each order waits for; \<open>Market_Rules\<close> is services/markets/, the
  minimum sizes and steps of a market with their cache. \<open>Retry_Loop\<close> is services/execution/retry\_policy.py and
  services/execution/fill\_confirmation.py; \<open>Order_Router\<close> is services/execution/order\_router.py with its idempotency store,
  which calls \<open>Place_Order\<close> under a key and repeats a call only after the exchange has denied the order.

  \<^bold>\<open>Accounting.\<close> \<open>Canonical_Journal\<close> is services/journal/canonical\_execdb.py, \<open>Execution_Store\<close> is
  storage/execution\_store\_sqlite.py with the outbox of fills and the loss counter per symbol, \<open>Live_Positions\<close> is
  storage/live\_position\_store\_sqlite.py and \<open>Risk_Daily\<close> is services/risk/risk\_daily.py. \<open>Fill_Sink\<close> is
  services/journal/fill\_sink.py, which writes all four. \<open>Exchange_Trades\<close> reads the orders and trades of an
  exchange; \<open>Exchange_Adapter\<close> is the search for an order by client id in
  services/execution/live\_exchange\_adapter.py. \<open>Executor_Reconcile\<close> is services/execution/\_executor\_reconcile.py and
  \<open>Live_Reconciler\<close> is services/execution/live\_reconciler.py: the two processes that feed the sink and close intents.

  \<^bold>\<open>The paper lane.\<close> \<open>Paper_Intent_Queue\<close> is storage/intent\_queue\_sqlite.py. \<open>Paper_Trading_Store\<close> is
  storage/paper\_trading\_sqlite.py, the simulated account with the transaction that books a fill.
  \<open>Market_Guards\<close> is services/risk/market\_quality\_guard.py, services/risk/staleness\_guard.py,
  services/execution/safety.py and storage/execution\_guard\_store\_sqlite.py. \<open>Paper_Engine\<close> is
  services/execution/paper\_engine.py: submission behind the pre-submit gate, cancellation, evaluation of open
  orders, marking to market, and the step relation \<open>engine_step\<close> of its runs. \<open>Paper_Ledger\<close> is the abstract
  account the store refines; \<open>Paper_Account\<close> has the properties of the runs. \<open>Paper_Reconciler\<close> is
  services/execution/intent\_reconciler.py with storage/trade\_journal\_sqlite.py and connects the paper store, the
  paper queue and the journal.

  \<^bold>\<open>Control.\<close> \<open>Deployment_Stage\<close> is services/control/deployment\_stage.py: the stage of a strategy, from paper to
  full allocation, with the operator journal. \<open>Control_Kernel\<close> is services/control/kernel.py with cognitive\_budget.py,
  allocator.py and retirement\_checker.py: whether a strategy may take new risk, and how much. \<open>Live_Arming\<close> is how live trading is switched
  on and off: services/execution/live\_arming.py, live\_enable.py and kill\_switch.py, scripts/killswitch.py, and kill\_switch.py, system\_guard.py, live\_guard.py, resume\_gate.py, both wizards and
  config\_editor.py of services/admin, each with the failures of its writes and the rollbacks.

  \<^bold>\<open>The library.\<close> \<open>Py_Numeric\<close> has the arithmetic: binary64 floats as rationals with round-half-even, infinities
  and NaN (one zero), and the 28-digit decimal context, both instances of the locale \<open>rounding\<close>;
  \<open>Float_Bounds\<close> adds that rounding picks a nearest value. \<open>Py_Prelude\<close>, \<open>Py_Json\<close> and \<open>Py_Format\<close> have Python strings,
  exceptions, JSON values, decimal conversion, formatting and SQL tables. Locales state the contracts that several
  components share: \<open>lifecycle_store\<close> (a status only moves along the transition table; interpreted on the live and
  the paper queue), \<open>claim_once\<close> (one claim per key is answered as first; interpreted on the dedupe
  table, the daily risk fills, the trade journal and the canonical journal), \<open>pass_invariant\<close> (what the steps of a reconcile pass keep,
  the pass keeps, also when it ends with an exception; interpreted for the lifecycle and for the filled status) and
  \<open>ranked_loop\<close> (a loop whose rank falls returns; interpreted on the wait for an order and on the router).

  \<^bold>\<open>Correspondence.\<close> A table is the list of its rows in rowid order, a database a record of tables, a
  method a function from the database to its answer and the new database. A raised exception is the left of a
  sum; where the code rolls back, the old database is what is left, and the consumer and the reconcilers, which do not roll back,
  are written with effects that keep the world at the point of the exception. Python comparison, division and
  conversion of floats follow IEEE 754 with the rounding of every operation, sums of floats are added from the left; a NaN is
  \<open>NULL\<close> for SQLite and breaks \<open>NOT NULL\<close>. Numbers arriving from outside are modelled by what the conversion makes of them
  (\<open>num_arg\<close>, \<open>quote_num\<close>, \<open>state_text\<close>) or as JSON values. Strings are code points below 256. The clock, uuids, the environment,
  configuration files, the snapshot file, market quotes and every answer of the exchange are arguments, so the
  theorems hold for all of them. \<open>datetime.fromisoformat\<close> and the class hierarchy of ccxt exceptions are parameters. Ties of an \<open>ORDER BY\<close>, which
  SQL leaves open, come in scan order, or reversed in the descending listings of the live stores. Decimal
  exponents and the 64-bit counters are assumed in range. Loops over lists are structural recursion. The two loops with
  no list to run over, polling an order and retrying a submission, are \<open>repeat_step\<close>, a partial function whose answer
  \<open>None\<close> means that it never returns; that they return is proved, and no fuel is used anywhere.

  \<^bold>\<open>What is shown.\<close> Submission: over any interleaving of consumer passes, recovery sweeps and other
  processes each intent is submitted at most once, never beyond the daily caps, and only after every gate; every order that
  reaches \<open>create_order\<close> has passed the fail-closed checks, the limits and the daily books, and the orders of a day stay within the limit up to those
  whose counting failed and the calls that were open beside one another; the
  router returns, repeats only after a denial and answers every later call under a key with the recorded result. Status: all
  changes are logged lifecycle steps of the process that owns the status of its snapshot, which can be stale in a listed number of ways, and terminal statuses are final; a reconcile pass keeps the
  lifecycle even when it fails, writes filled only for journalled orders, never moves its cursor past a refused fill of the order it follows, and writes
  off an ambiguous submission only after the configured observations, outages counted, and time; the executor lane closes an intent only when every
  fill is delivered. Accounting: a fill the sink accepts is in every book, a refused one blocks new orders; positions
  are the replay of the fill log, daily totals count every fill once, the loss counter is a function of the journal, and
  the health check answers HEALTHY exactly when the books agree. Paper lane: the account is what the ledger makes of the fills, orders are
  filled once, in full and within their limits, balances and positions are bounded below, and a reconciler pass that
  completes settles every intent and journals every fill once, while one that is stopped leaves no intent half settled. Control: orders need recorded promotions, unless a
  rollback failed or a demotion raised the strategy; new risk needs a live stage
  and no reported metric past its warning; the kill switch goes off only by a resume with a ceremony or by an operator's disarm; and a completed disable stops everything.

  Statements have the exceptions of the code in them: a write that can fail, a step without a ceremony or a journal entry, a stale snapshot and a call that
  overlaps another are cases of the step relations, and where one of them breaks what the code means to keep, the theorem names it as an alternative.

  Several theorems show where the code departs from its intent: limits read from a configuration keep the kill
  switch on, an unreadable kill-switch database reads as off, one accepted fill is enough to close an order whose other fill was refused, a
  rolled-back daily total is reported as accounted, a capitalised venue blocks trading for good, a success that cannot be recorded opens its
  idempotency key again, a fill rate of zero reads as a perfect one, a ceremony that failed authorises a resume, and metadata that is not a mapping stops every pass of the
  paper reconciler.

  \<^bold>\<open>Not modelled.\<close> A process killed between two transactions of a handler other than by an exception; lock,
  stop and status files, logging and sleeping; schema creation and migration; reading YAML and JSON files; the
  ccxt package and the adapters around it (arguments instead); the submission half of the executor lane
  (services/execution/live\_executor.py and \_executor\_submit.py), \<open>reconcile_open_orders\<close> of the executor, the asynchronous variant of
  place\_order.py; the reads of the system guard inside the reconcilers, whose answers are arguments; the legacy consumer
  services/execution/intent\_consumer.py; strategies, sizing formulas, backtests, analytics, dashboard, scripts (but scripts/killswitch.py), packaging, most of
  which is numerical work on data frames, reporting or user interface. Where two
  processes race between the read and the write of one method (\<open>cancel_order\<close> of the paper engine), the
  theorem \<open>cancel_overwrites_concurrent_fill\<close> shows the outcome, and the runs of \<open>engine_step\<close> are those of
  one engine.
\<close>

end
